(* ===== verification/Prelude.thy ===== *)
theory Prelude
  imports Main "HOL-Library.Word"
begin

text \<open>
  What every component of the model shares: Python's \<open>bytes\<close> (lists of 8-bit words) and
  \<open>str\<close> (lists of code points), the exceptions the modelled code raises, the result type
  in which a raise is the value \<open>Inl\<close>, slicing, \<open>partition\<close>, big-endian integers and
  hexadecimal text, with the lemmas about them that the component proofs use.
\<close>

named_theorems layout "lengths and slices of fixed wire layouts"
named_theorems codec_defs "definitions to unfold in encode/decode round trips"

section \<open>Types\<close>

type_synonym byte = "8 word"
type_synonym bytes = "8 word list"
type_synonym py_str = "nat list"

text \<open>ASCII literals of the source, as \<open>bytes\<close> and as \<open>str\<close>.\<close>

definition bytes_lit :: "string \<Rightarrow> bytes" where
  "bytes_lit s = map of_char s"

definition str_lit :: "string \<Rightarrow> py_str" where
  "str_lit s = map of_char s"

lemma str_lit_inject: "str_lit a = str_lit b \<longleftrightarrow> a = b"
  by (simp add: str_lit_def inj_map_eq_map inj_on_def)

section \<open>Exceptions and results\<close>

text \<open>
  One constructor per exception class that the modelled code raises or lets through. Messages
  are not modelled. \<open>is_value_error\<close> is Python's subclass relation where the code catches
  \<open>ValueError\<close> (the keyvault derives its format errors from it).
\<close>

datatype exn =
    ValueError | OverflowError | AssertionError | RuntimeError | IndexError
  | FileNotFoundError | UnicodeEncodeError | UnicodeDecodeError
  | BinasciiError | JSONDecodeError | JSONDepthError | InvalidTag
  | BackupCorrupt | VerificationDigestMismatch | RecoveryDigestMismatch
  | WrapParseError | WrapKeyNotFound | WrapKeyAlreadyExists | WrapAuthCancelled
  | WrapIntegrityError | EncryptedFileError | ManifestError
  | AnchorMissing | AnchorMismatch | AnchorCorrupt
  | VaultError | DatabaseRefused | KeyvaultUnsupportedOnWindows
  | MemoryCryptoError | MemoryKeyError | PowExhausted | KeyError | TypeError | OSError | PermissionError
  | MordredNetworkError | UnknownPath | BringupFailed | AlreadySwitching | PathSwitchRequiresRestart
  | MordredPathBringupFailed | MordredPathDropped | DecryptError string | InvalidEncryptedEnvelope string | PairError py_str
  | MordredSessionRefused | MordredLocalUnreachable | AuditLogDecryptError | NativeKeyIdMismatch | InvalidMainKeyId | KeyvaultPermissionError | KeyvaultCorruptError
  | OtherError string

definition is_value_error :: "exn \<Rightarrow> bool" where
  "is_value_error e \<longleftrightarrow> e \<in> {ValueError, UnicodeEncodeError, UnicodeDecodeError, BinasciiError,
     JSONDecodeError, JSONDepthError, BackupCorrupt, VerificationDigestMismatch,
     RecoveryDigestMismatch, NativeKeyIdMismatch, InvalidMainKeyId, KeyvaultCorruptError}"

text \<open>
  The subclasses of \<open>BaseException\<close> that ask the program to stop.
\<close>

definition is_control_flow :: "exn \<Rightarrow> bool" where
  "is_control_flow e \<longleftrightarrow>
     e \<in> {OtherError ''KeyboardInterrupt'', OtherError ''SystemExit'', OtherError ''GeneratorExit''}"

text \<open>What \<open>except Exception\<close> catches; the refusals of the network hooks and of the LLM guard derive from \<open>BaseException\<close> too.\<close>

definition is_exception :: "exn \<Rightarrow> bool" where
  "is_exception e \<longleftrightarrow> \<not> is_control_flow e \<and> e \<notin> {MordredPathBringupFailed, MordredPathDropped, MordredSessionRefused}"

definition is_anchor_error :: "exn \<Rightarrow> bool" where
  "is_anchor_error e \<longleftrightarrow> e \<in> {AnchorMissing, AnchorMismatch, AnchorCorrupt}"

type_synonym 'a result = "exn + 'a"

text \<open>Sequencing: the first raise ends the block.\<close>

fun r_bind :: "'a result \<Rightarrow> ('a \<Rightarrow> 'b result) \<Rightarrow> 'b result" where
  "r_bind (Inl e) f = Inl e"
| "r_bind (Inr x) f = f x"

text \<open>Sequencing with a state that a raise keeps.\<close>

fun s_bind :: "'a result \<times> 's \<Rightarrow> ('a \<Rightarrow> 's \<Rightarrow> 'b result \<times> 's) \<Rightarrow> 'b result \<times> 's" where
  "s_bind (Inl e, s) k = (Inl e, s)"
| "s_bind (Inr x, s) k = k x s"

text \<open>\<open>try: m except E: raise e\<close>, with the caught classes as a predicate.\<close>

fun r_catch :: "(exn \<Rightarrow> bool) \<Rightarrow> exn \<Rightarrow> 'a result \<Rightarrow> 'a result" where
  "r_catch c e' (Inl e) = Inl (if c e then e' else e)"
| "r_catch c e' (Inr x) = Inr x"

lemma r_bind_Inr_iff: "r_bind m f = Inr y \<longleftrightarrow> (\<exists>x. m = Inr x \<and> f x = Inr y)"
  by (cases m) auto

lemma r_bind_Inl_iff: "r_bind m f = Inl e \<longleftrightarrow> m = Inl e \<or> (\<exists>x. m = Inr x \<and> f x = Inl e)"
  by (cases m) auto

lemma r_catch_Inr_iff [simp]: "r_catch c e m = Inr y \<longleftrightarrow> m = Inr y"
  by (cases m) auto

lemma r_catch_Inl_iff: "r_catch c e' m = Inl x \<longleftrightarrow> (\<exists>e. m = Inl e \<and> x = (if c e then e' else e))"
  by (cases m) auto

lemma r_bind_assoc: "r_bind (r_bind m f) g = r_bind m (\<lambda>x. r_bind (f x) g)"
  by (cases m) auto

lemma r_bind_Inr_right [simp]: "r_bind m Inr = m"
  by (cases m) auto

lemma if_Inl_Inr_iff: "(if a then Inl e else m) = Inr y \<longleftrightarrow> \<not> a \<and> m = Inr y"
  by simp

lemmas result_iffs = r_bind_Inr_iff r_bind_Inl_iff r_catch_Inl_iff

text \<open>\<open>raises P m\<close>: whatever \<open>m\<close> raises satisfies \<open>P\<close>.\<close>

definition raises :: "(exn \<Rightarrow> bool) \<Rightarrow> 'a result \<Rightarrow> bool" where
  "raises P m \<longleftrightarrow> (\<forall>e. m = Inl e \<longrightarrow> P e)"

lemma raises_simps [simp]: "raises P (Inr x)" "raises P (Inl e) \<longleftrightarrow> P e"
  by (simp_all add: raises_def)

lemma raises_bind: "raises P m \<Longrightarrow> (\<And>x. m = Inr x \<Longrightarrow> raises P (f x)) \<Longrightarrow> raises P (r_bind m f)"
  by (cases m) (auto simp: raises_def)

lemma raises_catch: "raises (\<lambda>e. P (if c e then e' else e)) m \<Longrightarrow> raises P (r_catch c e' m)"
  by (cases m) auto

lemma raisesD: "raises P m \<Longrightarrow> m = Inl e \<Longrightarrow> P e"
  by (simp add: raises_def)

lemma raises_mono: "raises P m \<Longrightarrow> (\<And>e. P e \<Longrightarrow> Q e) \<Longrightarrow> raises Q m"
  by (auto simp: raises_def)

section \<open>Slices\<close>

text \<open>\<open>b[i:j]\<close> for \<open>0 \<le> i\<close> and \<open>0 \<le> j\<close>: clipped at the end, empty when \<open>j \<le> i\<close>.\<close>

definition slice :: "nat \<Rightarrow> nat \<Rightarrow> 'a list \<Rightarrow> 'a list" where
  "slice i j xs = take (j - i) (drop i xs)"

lemma length_slice [simp]: "length (slice i j xs) = min (j - i) (length xs - i)"
  by (simp add: slice_def min.commute)

lemma slice_zero [simp]: "slice 0 j xs = take j xs"
  by (simp add: slice_def)

lemma slice_append_left: "j \<le> length xs \<Longrightarrow> slice i j (xs @ ys) = slice i j xs"
  by (cases "i \<le> j") (simp_all add: slice_def)

lemma slice_append_right:
  "length xs \<le> i \<Longrightarrow> slice i j (xs @ ys) = slice (i - length xs) (j - length xs) ys"
  by (simp add: slice_def)

lemma slice_full: "length xs = j \<Longrightarrow> slice 0 j xs = xs"
  by simp

lemma slice_join: "i \<le> j \<Longrightarrow> j \<le> k \<Longrightarrow> slice i j xs @ slice j k xs = slice i k xs"
proof -
  assume "i \<le> j" "j \<le> k"
  then obtain a b where "j = i + a" "k = i + a + b"
    by (metis le_add_diff_inverse)
  then show ?thesis
    by (simp add: slice_def take_add [of a b] add.commute)
qed

lemma slice_drop: "slice i j xs @ drop j xs = drop i xs" if "i \<le> j"
proof -
  from that have "drop j xs = drop (j - i) (drop i xs)" by simp
  then show ?thesis by (simp only: slice_def append_take_drop_id)
qed

text \<open>\<open>xs.partition(c)\<close>: what is before the first \<open>c\<close>, whether there is one, what follows it.\<close>

definition partition_at :: "'a \<Rightarrow> 'a list \<Rightarrow> 'a list \<times> bool \<times> 'a list" where
  "partition_at c xs = (takeWhile (\<lambda>x. x \<noteq> c) xs, c \<in> set xs, tl (dropWhile (\<lambda>x. x \<noteq> c) xs))"

lemma partition_at_append:
  "c \<notin> set xs \<Longrightarrow> partition_at c (xs @ c # ys) = (xs, True, ys)"
proof -
  assume c: "c \<notin> set xs"
  then have "\<forall>x \<in> set xs. x \<noteq> c" by auto
  then show ?thesis
    by (simp add: partition_at_def takeWhile_append2 dropWhile_append2)
qed

lemma partition_at_True:
  assumes "partition_at c xs = (a, True, b)"
  shows "xs = a @ c # b \<and> c \<notin> set a"
  using assms
  by (induction xs arbitrary: a b) (auto simp: partition_at_def split: if_splits)

section \<open>Big-endian integers\<close>

text \<open>\<open>int.from_bytes(b, "big")\<close> and \<open>n.to_bytes(k, "big")\<close>, which raises when \<open>n\<close> does not fit.\<close>

definition from_be :: "bytes \<Rightarrow> nat" where
  "from_be bs = foldl (\<lambda>n b. 256 * n + unat b) 0 bs"

fun be_digits :: "nat \<Rightarrow> nat \<Rightarrow> bytes" where
  "be_digits 0 n = []"
| "be_digits (Suc k) n = be_digits k (n div 256) @ [of_nat (n mod 256)]"

definition to_be :: "nat \<Rightarrow> nat \<Rightarrow> bytes result" where
  "to_be k n = (if n < 256 ^ k then Inr (be_digits k n) else Inl OverflowError)"

lemma unat_byte_less: "unat (b :: byte) < 256"
  using unsigned_less [of b] by simp

lemma length_be_digits [simp, layout]: "length (be_digits k n) = k"
  by (induction k arbitrary: n) auto

lemma from_be_snoc [simp]: "from_be (bs @ [b]) = 256 * from_be bs + unat b"
  by (simp add: from_be_def)

lemma from_be_Nil [simp]: "from_be [] = 0"
  by (simp add: from_be_def)

lemma unat_of_nat_byte: "unat (of_nat (n mod 256) :: byte) = n mod 256"
  by (simp add: unat_of_nat take_bit_eq_mod)

lemma from_be_digits: "n < 256 ^ k \<Longrightarrow> from_be (be_digits k n) = n"
proof (induction k arbitrary: n)
  case 0
  then show ?case by simp
next
  case (Suc k)
  then have "n div 256 < 256 ^ k"
    by (simp add: less_mult_imp_div_less mult.commute)
  with Suc.IH have "from_be (be_digits k (n div 256)) = n div 256" by blast
  then show ?case by (simp add: unat_of_nat_byte)
qed

lemma from_be_less: "from_be bs < 256 ^ length bs"
proof (induction bs rule: rev_induct)
  case Nil
  then show ?case by simp
next
  case (snoc b bs)
  have "unat b < 256" by (rule unat_byte_less)
  with snoc show ?case by simp
qed

lemma be_digits_from_be: "be_digits (length bs) (from_be bs) = bs"
proof (induction bs rule: rev_induct)
  case Nil
  then show ?case by simp
next
  case (snoc b bs)
  have "unat b < 256" by (rule unat_byte_less)
  with snoc show ?case by simp
qed

section \<open>Hexadecimal text\<close>

text \<open>\<open>bytes.hex()\<close>: two lowercase digits per byte, as code points.\<close>

definition hex_digit :: "nat \<Rightarrow> nat" where
  "hex_digit n = (if n < 10 then 48 + n else 87 + n)"

definition hex_of_byte :: "byte \<Rightarrow> py_str" where
  "hex_of_byte b = [hex_digit (unat b div 16), hex_digit (unat b mod 16)]"

definition hex_of_bytes :: "bytes \<Rightarrow> py_str" where
  "hex_of_bytes bs = concat (map hex_of_byte bs)"

text \<open>The value of a hexadecimal digit of either case, as \<open>bytes.fromhex\<close> reads it.\<close>

definition hex_value :: "nat \<Rightarrow> nat option" where
  "hex_value c =
     (if 48 \<le> c \<and> c \<le> 57 then Some (c - 48)
      else if 97 \<le> c \<and> c \<le> 102 then Some (c - 87)
      else if 65 \<le> c \<and> c \<le> 70 then Some (c - 55)
      else None)"

text \<open>\<open>bytes.fromhex(s)\<close>: ASCII whitespace is skipped before a pair, never inside one.\<close>

definition is_ascii_space :: "nat \<Rightarrow> bool" where
  "is_ascii_space c \<longleftrightarrow> c = 32 \<or> (9 \<le> c \<and> c \<le> 13)"

fun fromhex :: "py_str \<Rightarrow> bytes result" where
  "fromhex [] = Inr []"
| "fromhex [c] = (if is_ascii_space c then Inr [] else Inl ValueError)"
| "fromhex (c # d # s) =
     (if is_ascii_space c then fromhex (d # s)
      else case (hex_value c, hex_value d) of
        (Some h, Some l) \<Rightarrow> r_bind (fromhex s) (\<lambda>bs. Inr (of_nat (16 * h + l) # bs))
      | _ \<Rightarrow> Inl ValueError)"

lemma hex_value_digit: "n < 16 \<Longrightarrow> hex_value (hex_digit n) = Some n"
  by (auto simp: hex_value_def hex_digit_def)

lemma hex_digit_not_space: "n < 16 \<Longrightarrow> \<not> is_ascii_space (hex_digit n)"
  by (auto simp: is_ascii_space_def hex_digit_def)

lemma length_hex_of_bytes [simp]: "length (hex_of_bytes bs) = 2 * length bs"
  by (induction bs) (auto simp: hex_of_bytes_def hex_of_byte_def)

lemma fromhex_hex_of_bytes: "fromhex (hex_of_bytes bs) = Inr bs"
proof (induction bs)
  case Nil
  then show ?case by (simp add: hex_of_bytes_def)
next
  case (Cons b bs)
  have b: "unat b div 16 < 16" "unat b mod 16 < 16"
    using unat_byte_less [of b] by auto
  have "of_nat (16 * (unat b div 16) + unat b mod 16) = b"
    by simp
  then show ?case
    using Cons b by (simp add: hex_of_bytes_def hex_of_byte_def hex_value_digit hex_digit_not_space)
qed

lemma hex_of_bytes_inject: "hex_of_bytes as = hex_of_bytes bs \<longleftrightarrow> as = bs"
  by (metis fromhex_hex_of_bytes sum.inject(2))

definition is_lower_hex :: "nat \<Rightarrow> bool" where
  "is_lower_hex c \<longleftrightarrow> (48 \<le> c \<and> c \<le> 57) \<or> (97 \<le> c \<and> c \<le> 102)"

lemma hex_digit_lower: "n < 16 \<Longrightarrow> is_lower_hex (hex_digit n)"
  by (auto simp: is_lower_hex_def hex_digit_def)

lemma hex_of_bytes_lower: "list_all is_lower_hex (hex_of_bytes bs)"
proof (induction bs)
  case Nil
  then show ?case by (simp add: hex_of_bytes_def)
next
  case (Cons b bs)
  have "unat b div 16 < 16" "unat b mod 16 < 16"
    using unat_byte_less [of b] by auto
  then have "is_lower_hex (hex_digit (unat b div 16))" "is_lower_hex (hex_digit (unat b mod 16))"
    by (blast intro: hex_digit_lower)+
  with Cons show ?case by (simp add: hex_of_bytes_def hex_of_byte_def)
qed

section \<open>The contract of a wire format\<close>

text \<open>
  Every encoder/decoder pair of the program keeps this contract on the values its writer
  produces; a strict format also refuses everything its writer does not produce.
\<close>

locale codec =
  fixes ok :: "'a \<Rightarrow> bool" and enc :: "'a \<Rightarrow> 'b result" and dec :: "'b \<Rightarrow> 'a result"
  assumes dec_enc: "ok x \<Longrightarrow> \<exists>b. enc x = Inr b \<and> dec b = Inr x"
begin

lemma enc_total:
  assumes "ok x"
  obtains b where "enc x = Inr b" "dec b = Inr x"
  using dec_enc [OF assms] by blast

lemma dec_of_enc: "ok x \<Longrightarrow> enc x = Inr b \<Longrightarrow> dec b = Inr x"
  using dec_enc by fastforce

lemma enc_inject: "ok x \<Longrightarrow> ok y \<Longrightarrow> enc x = enc y \<Longrightarrow> x = y"
  using dec_enc [of x] dec_enc [of y] by auto

end

locale strict_codec = codec +
  assumes dec_strict: "dec b = Inr x \<Longrightarrow> ok x \<and> enc x = Inr b"
begin

lemma dec_iff: "dec b = Inr x \<longleftrightarrow> ok x \<and> enc x = Inr b"
  using dec_strict dec_of_enc by blast

lemma dec_inject: "dec b = Inr x \<Longrightarrow> dec c = Inr x \<Longrightarrow> b = c"
  using dec_strict [of b x] dec_strict [of c x] by simp

lemma dec_refuses: "(\<exists>e. dec b = Inl e) \<longleftrightarrow> \<not> (\<exists>x. ok x \<and> enc x = Inr b)"
  using dec_iff by (cases "dec b") (metis sum.distinct(1))+

end

section \<open>Logs of writes\<close>

text \<open>
  An operation that changes a persistent world is the list of its writes. A property of the world
  that every write of a class keeps, and whose class every such write keeps, holds after every
  prefix of writes of that class: after a crash at any point.
\<close>

locale write_log =
  fixes upd :: "'w \<Rightarrow> 's \<Rightarrow> 'w" and good :: "'w \<Rightarrow> bool" and keeps :: "'w \<Rightarrow> 's \<Rightarrow> bool"
  assumes keep_good: "keeps w s \<Longrightarrow> good w \<Longrightarrow> good (upd w s)"
    and keep_keeps: "keeps w s \<Longrightarrow> keeps w t \<Longrightarrow> keeps (upd w s) t"
begin

lemma good_all: "list_all (keeps w) ss \<Longrightarrow> good w \<Longrightarrow> good (foldl upd w ss)"
proof (induction ss arbitrary: w)
  case (Cons s ss)
  then have "list_all (keeps (upd w s)) ss"
    by (auto simp: list_all_iff intro: keep_keeps)
  with Cons show ?case by (simp add: keep_good)
qed simp

lemma good_prefix: "list_all (keeps w) ss \<Longrightarrow> good w \<Longrightarrow> good (foldl upd w (take k ss))"
  by (rule good_all) (auto simp: list_all_iff dest: in_set_takeD)

end

end
