(* ===== verification/Py_Text.thy ===== *)
theory Py_Text
  imports Prelude
begin

text \<open>
  Python's text codecs as the modelled code uses them: \<open>str.encode("utf-8")\<close> (strict),
  \<open>bytes.decode("utf-8")\<close> (strict) and the decoding that \<open>json.loads\<close> applies to
  \<open>bytes\<close>: \<open>json.detect_encoding\<close> and then that codec with the \<open>surrogatepass\<close> handler.
  A \<open>str\<close> is its list of code points, so a lone surrogate is an ordinary element of it.
\<close>

section \<open>UTF-8\<close>

definition is_surrogate :: "nat \<Rightarrow> bool" where
  "is_surrogate c \<longleftrightarrow> 0xD800 \<le> c \<and> c \<le> 0xDFFF"

definition is_scalar :: "nat \<Rightarrow> bool" where
  "is_scalar c \<longleftrightarrow> c \<le> 0x10FFFF \<and> \<not> is_surrogate c"

definition utf8_char :: "nat \<Rightarrow> nat list" where
  "utf8_char c =
     (if c < 0x80 then [c]
      else if c < 0x800 then [192 + c div 64, 128 + c mod 64]
      else if c < 0x10000 then [224 + c div 4096, 128 + c div 64 mod 64, 128 + c mod 64]
      else [240 + c div 262144, 128 + c div 4096 mod 64, 128 + c div 64 mod 64, 128 + c mod 64])"

definition utf8_encode :: "py_str \<Rightarrow> bytes result" where
  "utf8_encode s =
     (if list_all is_scalar s then Inr (map of_nat (concat (map utf8_char s)))
      else Inl UnicodeEncodeError)"

definition is_cont :: "nat \<Rightarrow> bool" where
  "is_cont b \<longleftrightarrow> 128 \<le> b \<and> b \<le> 191"

definition utf8_cp2 :: "nat \<Rightarrow> nat \<Rightarrow> nat" where
  "utf8_cp2 a b = (a - 192) * 64 + (b - 128)"

definition utf8_cp3 :: "nat \<Rightarrow> nat \<Rightarrow> nat \<Rightarrow> nat" where
  "utf8_cp3 a b c = (a - 224) * 4096 + (b - 128) * 64 + (c - 128)"

definition utf8_cp4 :: "nat \<Rightarrow> nat \<Rightarrow> nat \<Rightarrow> nat \<Rightarrow> nat" where
  "utf8_cp4 a b c d = (a - 240) * 262144 + (b - 128) * 4096 + (c - 128) * 64 + (d - 128)"

text \<open>The flag is the \<open>surrogatepass\<close> handler.\<close>

fun utf8_dec :: "bool \<Rightarrow> nat list \<Rightarrow> py_str result" where
  "utf8_dec p [] = Inr []"
| "utf8_dec p (a # s) =
     (if a < 128 then r_bind (utf8_dec p s) (\<lambda>t. Inr (a # t))
      else if 194 \<le> a \<and> a \<le> 223 then
        (case s of
           b # s1 \<Rightarrow>
             (if is_cont b then r_bind (utf8_dec p s1) (\<lambda>t. Inr (utf8_cp2 a b # t))
              else Inl UnicodeDecodeError)
         | _ \<Rightarrow> Inl UnicodeDecodeError)
      else if 224 \<le> a \<and> a \<le> 239 then
        (case s of
           b # c # s2 \<Rightarrow>
             (if is_cont b \<and> is_cont c \<and> 2048 \<le> utf8_cp3 a b c
                 \<and> (p \<or> \<not> is_surrogate (utf8_cp3 a b c))
              then r_bind (utf8_dec p s2) (\<lambda>t. Inr (utf8_cp3 a b c # t))
              else Inl UnicodeDecodeError)
         | _ \<Rightarrow> Inl UnicodeDecodeError)
      else if 240 \<le> a \<and> a \<le> 244 then
        (case s of
           b # c # d # s3 \<Rightarrow>
             (if is_cont b \<and> is_cont c \<and> is_cont d
                 \<and> 0x10000 \<le> utf8_cp4 a b c d \<and> utf8_cp4 a b c d \<le> 0x10FFFF
              then r_bind (utf8_dec p s3) (\<lambda>t. Inr (utf8_cp4 a b c d # t))
              else Inl UnicodeDecodeError)
         | _ \<Rightarrow> Inl UnicodeDecodeError)
      else Inl UnicodeDecodeError)"

definition utf8_decode :: "bytes \<Rightarrow> py_str result" where
  "utf8_decode bs = utf8_dec False (map unat bs)"

section \<open>UTF-16 and UTF-32, as \<open>json.loads\<close> may select them\<close>

fun units16 :: "bool \<Rightarrow> nat list \<Rightarrow> nat list option" where
  "units16 be [] = Some []"
| "units16 be [a] = None"
| "units16 be (a # b # s) =
     map_option (Cons (if be then 256 * a + b else a + 256 * b)) (units16 be s)"

fun join16 :: "nat list \<Rightarrow> py_str" where
  "join16 [] = []"
| "join16 [a] = [a]"
| "join16 (a # b # s) =
     (if 0xD800 \<le> a \<and> a \<le> 0xDBFF \<and> 0xDC00 \<le> b \<and> b \<le> 0xDFFF
      then (0x10000 + (a - 0xD800) * 1024 + (b - 0xDC00)) # join16 s
      else a # join16 (b # s))"

definition utf16_dec :: "bool \<Rightarrow> nat list \<Rightarrow> py_str result" where
  "utf16_dec be s = (case units16 be s of None \<Rightarrow> Inl UnicodeDecodeError | Some us \<Rightarrow> Inr (join16 us))"

fun utf32_dec :: "bool \<Rightarrow> nat list \<Rightarrow> py_str result" where
  "utf32_dec be [] = Inr []"
| "utf32_dec be (a # b # c # d # s) =
     (let cp = (if be then ((a * 256 + b) * 256 + c) * 256 + d
                else ((d * 256 + c) * 256 + b) * 256 + a)
      in if cp \<le> 0x10FFFF then r_bind (utf32_dec be s) (\<lambda>t. Inr (cp # t))
         else Inl UnicodeDecodeError)"
| "utf32_dec be _ = Inl UnicodeDecodeError"

text \<open>\<open>b.decode(json.detect_encoding(b), "surrogatepass")\<close>.\<close>

definition json_text :: "bytes \<Rightarrow> py_str result" where
  "json_text bs = (let b = map unat bs; n = length b in
     if take 4 b = [0, 0, 0xFE, 0xFF] then utf32_dec True (drop 4 b)
     else if take 4 b = [0xFF, 0xFE, 0, 0] then utf32_dec False (drop 4 b)
     else if take 2 b = [0xFE, 0xFF] then utf16_dec True (drop 2 b)
     else if take 2 b = [0xFF, 0xFE] then utf16_dec False (drop 2 b)
     else if take 3 b = [0xEF, 0xBB, 0xBF] then utf8_dec True (drop 3 b)
     else if 4 \<le> n \<and> b ! 0 = 0 then
       (if b ! 1 \<noteq> 0 then utf16_dec True b else utf32_dec True b)
     else if 4 \<le> n \<and> b ! 1 = 0 then
       (if b ! 2 \<noteq> 0 \<or> b ! 3 \<noteq> 0 then utf16_dec False b else utf32_dec False b)
     else if n = 2 \<and> b ! 0 = 0 then utf16_dec True b
     else if n = 2 \<and> b ! 1 = 0 then utf16_dec False b
     else utf8_dec True b)"

section \<open>Round trips\<close>

lemma mod64_le: "c mod 64 \<le> (63 :: nat)"
  using mod_less_divisor [of 64 c] by linarith

lemma split64: "c div 64 * 64 + c mod 64 = (c :: nat)"
  by (rule div_mult_mod_eq)

lemma split64_3: "c div 4096 * 4096 + c div 64 mod 64 * 64 + c mod 64 = (c :: nat)"
proof -
  have "c div 4096 = c div 64 div 64" by (simp add: div_mult2_eq [symmetric])
  then show ?thesis using split64 [of c] split64 [of "c div 64"] by linarith
qed

lemma split64_4:
  "c div 262144 * 262144 + c div 4096 mod 64 * 4096 + c div 64 mod 64 * 64 + c mod 64 = (c :: nat)"
proof -
  have "c div 262144 = c div 4096 div 64" by (simp add: div_mult2_eq [symmetric])
  then show ?thesis using split64_3 [of c] split64 [of "c div 4096"] by linarith
qed

lemma utf8_dec_char:
  assumes "is_scalar c"
  shows "utf8_dec p (utf8_char c @ s) = r_bind (utf8_dec p s) (\<lambda>t. Inr (c # t))"
proof -
  consider "c < 128" | "128 \<le> c" "c < 2048" | "2048 \<le> c" "c < 65536" | "65536 \<le> c"
    by linarith
  then show ?thesis
  proof cases
    case 1
    then show ?thesis by (simp add: utf8_char_def)
  next
    case 2
    then have "2 \<le> c div 64" "c div 64 < 32" by auto
    with 2 show ?thesis by (simp add: mod64_le utf8_char_def is_cont_def utf8_cp2_def)
  next
    case 3
    then have "c div 4096 < 16" by auto
    then show ?thesis using 3 assms split64_3 [of c]
      by (simp add: mod64_le utf8_char_def is_cont_def utf8_cp3_def is_scalar_def)
  next
    case 4
    with assms have "c \<le> 1114111" by (simp add: is_scalar_def)
    then have "c div 262144 < 5" by auto
    then show ?thesis using 4 \<open>c \<le> 1114111\<close> split64_4 [of c]
      by (simp add: mod64_le utf8_char_def is_cont_def utf8_cp4_def)
  qed
qed

lemma utf8_dec_concat:
  "list_all is_scalar s \<Longrightarrow> utf8_dec p (concat (map utf8_char s) @ r) = r_bind (utf8_dec p r) (\<lambda>t. Inr (s @ t))"
  by (induction s) (simp_all add: utf8_dec_char r_bind_assoc)

lemma utf8_char_bytes:
  assumes "is_scalar c" and "b \<in> set (utf8_char c)"
  shows "b < 256"
proof -
  have "c \<le> 1114111" using assms(1) by (simp add: is_scalar_def)
  then have "c < 2048 \<Longrightarrow> c div 64 < 32" "c < 65536 \<Longrightarrow> c div 4096 < 16" "c div 262144 < 5"
    by auto
  with assms(2) mod64_le [of c] mod64_le [of "c div 64"] mod64_le [of "c div 4096"]
  show ?thesis by (auto simp: utf8_char_def split: if_splits)
qed

lemma map_unat_of_nat:
  "\<forall>b \<in> set bs. b < 256 \<Longrightarrow> map unat (map of_nat bs :: bytes) = bs"
  by (induction bs) (auto simp: unat_of_nat take_bit_eq_mod)

lemma utf8_decode_encode:
  assumes "utf8_encode s = Inr bs"
  shows "utf8_decode bs = Inr s"
proof -
  from assms have s: "list_all is_scalar s" and bs: "bs = map of_nat (concat (map utf8_char s))"
    by (auto simp: utf8_encode_def split: if_splits)
  have "\<forall>b \<in> set (concat (map utf8_char s)). b < 256"
    using s utf8_char_bytes by (fastforce simp: list_all_iff)
  then have "map unat bs = concat (map utf8_char s)"
    unfolding bs by (rule map_unat_of_nat)
  then show ?thesis
    using utf8_dec_concat [OF s, of False "[]"] by (simp add: utf8_decode_def)
qed

lemma utf8_encode_inject:
  "utf8_encode s = Inr bs \<Longrightarrow> utf8_encode t = Inr bs \<Longrightarrow> s = t"
  using utf8_decode_encode [of s bs] utf8_decode_encode [of t bs] by simp

text \<open>ASCII text: one byte per character, in \<open>str.encode\<close> and in \<open>json.loads\<close>.\<close>

definition is_ascii :: "py_str \<Rightarrow> bool" where
  "is_ascii s \<longleftrightarrow> list_all (\<lambda>c. c < 128) s"

definition ascii_bytes :: "py_str \<Rightarrow> bytes" where
  "ascii_bytes s = map of_nat s"

lemma utf8_char_ascii: "c < 128 \<Longrightarrow> utf8_char c = [c]"
  by (simp add: utf8_char_def)

lemma is_scalar_ascii: "c < 128 \<Longrightarrow> is_scalar c"
  by (simp add: is_scalar_def is_surrogate_def)

lemma concat_utf8_ascii: "is_ascii s \<Longrightarrow> concat (map utf8_char s) = s"
  by (induction s) (simp_all add: is_ascii_def utf8_char_ascii)

lemma utf8_encode_ascii:
  assumes "is_ascii s"
  shows "utf8_encode s = Inr (ascii_bytes s)"
proof -
  have "list_all is_scalar s"
    using assms by (auto simp: is_ascii_def list_all_iff intro: is_scalar_ascii)
  then show ?thesis
    by (simp add: utf8_encode_def concat_utf8_ascii [OF assms] ascii_bytes_def)
qed

lemma map_unat_ascii: "is_ascii s \<Longrightarrow> map unat (ascii_bytes s) = s"
  unfolding ascii_bytes_def
  by (rule map_unat_of_nat) (auto simp: is_ascii_def list_all_iff)

lemma utf8_dec_ascii: "is_ascii s \<Longrightarrow> utf8_dec p s = Inr s"
  by (induction s) (simp_all add: is_ascii_def)

lemma json_text_ascii:
  assumes "is_ascii s" and "0 \<notin> set s"
  shows "json_text (ascii_bytes s) = Inr s"
proof -
  have lt: "\<forall>c \<in> set s. c < 128" and nz: "\<forall>c \<in> set s. c \<noteq> 0"
    using assms by (auto simp: is_ascii_def list_all_iff) (metis gr0I)
  have hd: "take k s \<noteq> c # r" if "128 \<le> c \<or> c = 0" for k c r
    using that lt nz by (cases s; cases k) auto
  have i: "i < length s \<Longrightarrow> s ! i \<noteq> 0" for i
    using nz by simp
  have "\<not> (4 \<le> length s \<and> s ! 0 = 0)" "\<not> (4 \<le> length s \<and> s ! 1 = 0)"
    "\<not> (length s = 2 \<and> s ! 0 = 0)" "\<not> (length s = 2 \<and> s ! 1 = 0)"
    using i [of 0] i [of 1] by (cases s; force)+
  then show ?thesis
    unfolding json_text_def Let_def map_unat_ascii [OF assms(1)]
    by (simp only: hd utf8_dec_ascii [OF assms(1)] if_False simp_thms) (simp add: hd utf8_dec_ascii [OF assms(1)])
qed

text \<open>The same for UTF-8 after two ASCII characters, which rule out every other encoding.\<close>

lemma json_text_utf8:
  assumes "utf8_encode (a # b # s) = Inr bs" "0 < a" "a < 128" "0 < b" "b < 128"
  shows "json_text bs = Inr (a # b # s)"
proof -
  let ?u = "concat (map utf8_char s)"
  have s: "list_all is_scalar (a # b # s)" and bs: "bs = map of_nat (concat (map utf8_char (a # b # s)))"
    using assms(1) by (auto simp: utf8_encode_def split: if_splits)
  have "\<forall>b \<in> set (concat (map utf8_char (a # b # s))). b < 256"
    using s utf8_char_bytes by (fastforce simp: list_all_iff)
  then have "map unat bs = concat (map utf8_char (a # b # s))" unfolding bs by (rule map_unat_of_nat)
  then have m: "map unat bs = a # b # ?u" using assms(3,5) by (simp add: utf8_char_def)
  have "utf8_dec True (concat (map utf8_char (a # b # s)) @ []) = Inr (a # b # s)"
    using utf8_dec_concat [OF s, of True "[]"] by simp
  then have "utf8_dec True (a # b # ?u) = Inr (a # b # s)" using assms(3,5) by (simp add: utf8_char_def)
  then show ?thesis using assms(2-5) unfolding json_text_def Let_def m by (simp add: numeral_eq_Suc)
qed

end
