(* ===== verification/Providers.thy ===== *)
theory Providers
  imports Prelude Py_Text
begin

text \<open>
  The code the program calls and this repository does not contain: the \<open>cryptography\<close>
  package (AES-GCM, AES key wrap, HKDF, P-256), \<open>argon2-cffi\<close>, and the native key store
  behind \<open>wrap.NativeBackend\<close>. They are parameters of the model: two records of functions,
  passed to every definition that calls them. What the theorems rely on is stated as named
  predicates over a provider, each the documented behaviour of the package, and a cheap
  concrete provider shows that the predicates can hold together; the witnesses evaluate on it.
  The audit sink and the exception policy of \<open>keyvault/_audit_emit.py\<close> are here too.
\<close>

section \<open>Cryptographic primitives\<close>

record crypto =
  gcm_seal :: "bytes \<Rightarrow> bytes \<Rightarrow> bytes \<Rightarrow> bytes \<Rightarrow> bytes result"
  gcm_open :: "bytes \<Rightarrow> bytes \<Rightarrow> bytes \<Rightarrow> bytes \<Rightarrow> bytes result"
  kw_wrap :: "bytes \<Rightarrow> bytes \<Rightarrow> bytes result"
  kw_unwrap :: "bytes \<Rightarrow> bytes \<Rightarrow> bytes result"
  hkdf_sha256 :: "bytes \<Rightarrow> bytes \<Rightarrow> nat \<Rightarrow> bytes"
  argon2id_raw :: "bytes \<Rightarrow> bytes \<Rightarrow> nat \<Rightarrow> nat \<Rightarrow> nat \<Rightarrow> nat \<Rightarrow> bytes result"
  ec_decode :: "bytes \<Rightarrow> bytes result"
  ec_public :: "bytes \<Rightarrow> bytes"
  ec_exchange :: "bytes \<Rightarrow> bytes \<Rightarrow> bytes"

text \<open>
  Argument orders: \<open>gcm_seal key nonce data aad\<close>, \<open>kw_wrap kek key\<close>, \<open>hkdf_sha256 material
  info length\<close> (salt absent), \<open>argon2id_raw secret salt time_cost memory_cost parallelism
  hash_len\<close>. A P-256 private key is the bytes that determine it; \<open>ec_decode\<close> is
  \<open>from_encoded_point\<close> with the point re-encoded, \<open>ec_public\<close> the uncompressed public point
  and \<open>ec_exchange priv peer\<close> the raw ECDH secret. AES-GCM refuses data or associated data
  above \<open>2^31 - 1\<close> bytes.
\<close>

definition gcm_limit :: nat where
  "gcm_limit = 2147483647"

definition gcm_ok :: "('x) crypto_scheme \<Rightarrow> bool" where
  "gcm_ok C \<longleftrightarrow> (\<forall>k n p a. length k \<in> {16, 24, 32} \<longrightarrow> length n = 12 \<longrightarrow>
     length p + 16 \<le> gcm_limit \<longrightarrow> length a \<le> gcm_limit \<longrightarrow>
       (\<exists>c. gcm_seal C k n p a = Inr c \<and> length c = length p + 16 \<and> gcm_open C k n c a = Inr p))"

definition kw_ok :: "('x) crypto_scheme \<Rightarrow> bool" where
  "kw_ok C \<longleftrightarrow> (\<forall>k p. length k = 32 \<longrightarrow> length p = 32 \<longrightarrow>
     (\<exists>c. kw_wrap C k p = Inr c \<and> length c = 40 \<and> kw_unwrap C k c = Inr p))"

definition hkdf_ok :: "('x) crypto_scheme \<Rightarrow> bool" where
  "hkdf_ok C \<longleftrightarrow> (\<forall>m i. length (hkdf_sha256 C m i 32) = 32)"

definition argon2_ok :: "('x) crypto_scheme \<Rightarrow> bool" where
  "argon2_ok C \<longleftrightarrow> (\<forall>s salt t m p l. 8 \<le> length salt \<longrightarrow> 1 \<le> t \<longrightarrow> 1 \<le> p \<longrightarrow> 8 * p \<le> m \<longrightarrow> 4 \<le> l \<longrightarrow>
     (\<exists>k. argon2id_raw C s salt t m p l = Inr k \<and> length k = l))"

definition ec_ok :: "('x) crypto_scheme \<Rightarrow> bytes set \<Rightarrow> bool" where
  "ec_ok C K \<longleftrightarrow> (\<forall>a \<in> K. length (ec_public C a) = 65 \<and> hd (ec_public C a) = 4 \<and>
       ec_decode C (ec_public C a) = Inr (ec_public C a)) \<and>
     (\<forall>a \<in> K. \<forall>b \<in> K. ec_exchange C a (ec_public C b) = ec_exchange C b (ec_public C a))"

text \<open>The set \<open>K\<close> is the set of valid private keys.\<close>

definition crypto_ok :: "('x) crypto_scheme \<Rightarrow> bytes set \<Rightarrow> bool" where
  "crypto_ok C K \<longleftrightarrow> gcm_ok C \<and> kw_ok C \<and> hkdf_ok C \<and> argon2_ok C \<and> ec_ok C K"

lemma crypto_okD:
  assumes "crypto_ok C K"
  shows "gcm_ok C" "kw_ok C" "hkdf_ok C" "argon2_ok C" "ec_ok C K"
  using assms by (simp_all add: crypto_ok_def)

lemma gcm_okE:
  assumes "gcm_ok C" "length k \<in> {16, 24, 32}" "length n = 12" "length p + 16 \<le> gcm_limit"
    "length a \<le> gcm_limit"
  obtains c where "gcm_seal C k n p a = Inr c" "length c = length p + 16" "gcm_open C k n c a = Inr p"
  using assms by (fastforce simp: gcm_ok_def)

lemma kw_okE:
  assumes "kw_ok C" "length k = 32" "length p = 32"
  obtains c where "kw_wrap C k p = Inr c" "length c = 40" "kw_unwrap C k c = Inr p"
  using assms by (fastforce simp: kw_ok_def)

lemma length_hkdf: "hkdf_ok C \<Longrightarrow> length (hkdf_sha256 C m i 32) = 32"
  by (simp add: hkdf_ok_def)

lemma argon2_okE:
  assumes "argon2_ok C" "8 \<le> length salt" "1 \<le> t" "1 \<le> p" "8 * p \<le> m" "4 \<le> l"
  obtains k where "argon2id_raw C s salt t m p l = Inr k" "length k = l"
  using assms by (fastforce simp: argon2_ok_def)

section \<open>The native key store\<close>

text \<open>
  \<open>wrap.NativeErrorCode\<close>, and what \<open>enclave_ecdh\<close> can do: return the secret, raise
  \<open>NativeBackendError(code)\<close>, or raise something else. The key store is a state machine over
  its own state \<open>'d\<close> (the Keychain, the prompts the user answers).
\<close>

datatype native_code = UserCancelled | AuthFailed | BiometryLockout | PasscodeNotSet | KeyNotFound

fun native_code_text :: "native_code \<Rightarrow> py_str" where
  "native_code_text UserCancelled = str_lit ''user_cancelled''"
| "native_code_text AuthFailed = str_lit ''auth_failed''"
| "native_code_text BiometryLockout = str_lit ''biometry_lockout''"
| "native_code_text PasscodeNotSet = str_lit ''passcode_not_set''"
| "native_code_text KeyNotFound = str_lit ''key_not_found''"

text \<open>\<open>NativeBackendError(code)\<close>: construction refuses a text outside the closed set.\<close>

definition native_code_of :: "py_str \<Rightarrow> native_code result" where
  "native_code_of t =
     (case find (\<lambda>c. native_code_text c = t)
         [UserCancelled, AuthFailed, BiometryLockout, PasscodeNotSet, KeyNotFound] of
        None \<Rightarrow> Inl ValueError
      | Some c \<Rightarrow> Inr c)"

lemma native_code_of_text [simp]: "native_code_of (native_code_text c) = Inr c"
  by (cases c) (simp_all add: native_code_of_def str_lit_def)

datatype native_outcome = Secret bytes | Denied native_code | Raised exn

record 'd native =
  nb_public :: "'d \<Rightarrow> py_str \<Rightarrow> bytes result"
  nb_ecdh :: "'d \<Rightarrow> py_str \<Rightarrow> bytes \<Rightarrow> native_outcome \<times> 'd"
  nb_generate :: "'d \<Rightarrow> py_str \<Rightarrow> bool option \<Rightarrow> bytes result \<times> 'd"

text \<open>The store holds \<open>key_id\<close> with private key \<open>b\<close> and grants the key exchange.\<close>

definition holds_key :: "('x) crypto_scheme \<Rightarrow> ('d, 'y) native_scheme \<Rightarrow> 'd \<Rightarrow> py_str \<Rightarrow> bytes \<Rightarrow> bool" where
  "holds_key C N d kid b \<longleftrightarrow> nb_public N d kid = Inr (ec_public C b) \<and>
     (\<forall>peer. fst (nb_ecdh N d kid peer) = Secret (ec_exchange C b peer))"

section \<open>Audit sink\<close>

text \<open>
  An audit entry is a dict with text and number values. A sink is a callable that may raise: it is a function
  that says what it raises, given the calls made to it before. The log is the list of calls.
\<close>

datatype audit_value = Text py_str | Number nat

type_synonym audit_entry = "(string \<times> audit_value) list"
type_synonym audit_log = "audit_entry list"
type_synonym audit_sink = "audit_log \<Rightarrow> audit_entry \<Rightarrow> exn option"

text \<open>
  \<open>_audit_emit.emit_capture\<close>: the sink's operational exception is returned, a control-flow
  exception escapes; without a sink nothing happens.
\<close>

definition emit_capture :: "audit_sink option \<Rightarrow> audit_log \<Rightarrow> audit_entry \<Rightarrow> exn option result \<times> audit_log" where
  "emit_capture sink log entry =
     (case sink of
        None \<Rightarrow> (Inr None, log)
      | Some s \<Rightarrow>
          (case s log entry of
             None \<Rightarrow> (Inr None, log @ [entry])
           | Some e \<Rightarrow> (if is_control_flow e then Inl e else Inr (Some e), log @ [entry])))"

text \<open>
  \<open>_audit_emit.chain_and_raise\<close>: the primary exception is raised whatever the sink did. The
  sink's exception becomes its \<open>__context__\<close>, which no handler of the program reads.
\<close>

definition chain_and_raise :: "exn \<Rightarrow> exn option \<Rightarrow> 'a result" where
  "chain_and_raise primary sink_exc = Inl primary"

lemma emit_capture_log:
  "snd (emit_capture sink log entry) = (if sink = None then log else log @ [entry])"
  by (auto simp: emit_capture_def split: option.split)

section \<open>A concrete provider\<close>

text \<open>
  Cheap functions that satisfy every law at once: the tag of a sealed message is cut from key,
  nonce and associated data; the exchange is the exclusive or of the private keys.
\<close>

definition fit :: "nat \<Rightarrow> bytes \<Rightarrow> bytes" where
  "fit n b = take n (b @ replicate n 0)"

lemma length_fit [simp]: "length (fit n b) = n"
  by (simp add: fit_def)

definition demo_tag :: "bytes \<Rightarrow> bytes \<Rightarrow> bytes \<Rightarrow> bytes" where
  "demo_tag k n a = fit 4 k @ fit 4 n @ fit 8 (rev a)"

definition demo_crypto :: crypto where
  "demo_crypto = \<lparr>
     gcm_seal = (\<lambda>k n p a. if length k \<in> {16, 24, 32} then Inr (p @ demo_tag k n a) else Inl ValueError),
     gcm_open = (\<lambda>k n c a.
       if length k \<notin> {16, 24, 32} then Inl ValueError
       else if 16 \<le> length c \<and> drop (length c - 16) c = demo_tag k n a then Inr (take (length c - 16) c)
       else Inl InvalidTag),
     kw_wrap = (\<lambda>k p. Inr (p @ fit 8 k)),
     kw_unwrap = (\<lambda>k c. if drop 32 c = fit 8 k then Inr (take 32 c) else Inl (OtherError ''InvalidUnwrap'')),
     hkdf_sha256 = (\<lambda>m i l. fit l (rev i @ m)),
     argon2id_raw = (\<lambda>s salt t m p l. Inr (fit l (s @ salt))),
     ec_decode = (\<lambda>b. if length b = 65 \<and> take 1 b = [4] then Inr b else Inl ValueError),
     ec_public = (\<lambda>a. 4 # fit 64 a),
     ec_exchange = (\<lambda>a b. map2 xor (fit 64 a) (tl b)) \<rparr>"

lemma demo_crypto_ok: "crypto_ok demo_crypto K"
proof -
  have "map2 xor xs ys = map2 xor ys xs" for xs ys :: bytes
    by (induction xs ys rule: list_induct2') (auto simp: xor.commute)
  then show ?thesis
    by (auto simp: crypto_ok_def gcm_ok_def kw_ok_def hkdf_ok_def argon2_ok_def ec_ok_def
        demo_crypto_def demo_tag_def)
qed

definition demo_native :: "bytes \<Rightarrow> unit native" where
  "demo_native b = \<lparr>
     nb_public = (\<lambda>_ _. Inr (ec_public demo_crypto b)),
     nb_ecdh = (\<lambda>d _ peer. (Secret (ec_exchange demo_crypto b peer), d)),
     nb_generate = (\<lambda>d _ _. (Inr (ec_public demo_crypto b), d)) \<rparr>"

lemma demo_native_holds: "holds_key demo_crypto (demo_native b) () kid b"
  by (simp add: holds_key_def demo_native_def)

end
