(* ===== verification/Wrap.thy ===== *)
theory Wrap
  imports Providers Py_Hash
begin

text \<open>
  \<open>keyvault/wrap.py\<close>: wrapping a data-encryption key under the native key, the 127-byte
  \<open>MRKW\<close> blob and its strict parser, and the authorized unwrap with its audit entries. The
  fresh ephemeral private key of \<open>wrap_dek\<close> is an argument.
\<close>

section \<open>Blob layout\<close>

definition MRKW_MAGIC :: bytes where
  "MRKW_MAGIC = [0x4d, 0x52, 0x4b, 0x57]"

definition DEK_LEN :: nat where "DEK_LEN = 32"
definition KEY_ID_HASH_LEN :: nat where "KEY_ID_HASH_LEN = 16"
definition EPHEMERAL_PUB_LEN :: nat where "EPHEMERAL_PUB_LEN = 65"
definition WRAPPED_DEK_LEN :: nat where "WRAPPED_DEK_LEN = 40"
definition WRAP_HEADER_LEN :: nat where "WRAP_HEADER_LEN = 127"

lemmas wrap_sizes = DEK_LEN_def KEY_ID_HASH_LEN_def EPHEMERAL_PUB_LEN_def WRAPPED_DEK_LEN_def
  WRAP_HEADER_LEN_def

record parsed_header =
  ph_key_id_hash :: bytes
  ph_ephemeral_pub :: bytes
  ph_wrapped_dek :: bytes

section \<open>Helpers\<close>

definition key_id_hash :: "py_str \<Rightarrow> bytes result" where
  "key_id_hash kid = r_bind (utf8_encode kid) (\<lambda>b. Inr (take KEY_ID_HASH_LEN (sha256 b)))"

definition audit_key_id_hex :: "py_str \<Rightarrow> py_str result" where
  "audit_key_id_hex kid = r_bind (key_id_hash kid) (\<lambda>h. Inr (hex_of_bytes (take 8 h)))"

definition build_hkdf_info :: "bytes \<Rightarrow> bytes \<Rightarrow> bytes" where
  "build_hkdf_info h pub = MRKW_MAGIC @ [1, 1] @ h @ pub"

definition derive_kek :: "('x) crypto_scheme \<Rightarrow> bytes \<Rightarrow> bytes \<Rightarrow> bytes" where
  "derive_kek C secret info = hkdf_sha256 C secret info 32"

definition decode_sec1 :: "('x) crypto_scheme \<Rightarrow> bytes \<Rightarrow> bytes result" where
  "decode_sec1 C b =
     (if length b \<noteq> EPHEMERAL_PUB_LEN \<or> hd b \<noteq> 4 then Inl WrapParseError
      else r_catch is_value_error WrapParseError (ec_decode C b))"

definition parse_header :: "('x) crypto_scheme \<Rightarrow> bytes \<Rightarrow> py_str \<Rightarrow> parsed_header result" where
  "parse_header C blob kid =
     (if length blob \<noteq> WRAP_HEADER_LEN then Inl WrapParseError
      else if slice 0 4 blob \<noteq> MRKW_MAGIC then Inl WrapParseError
      else if blob ! 4 \<noteq> 1 then Inl WrapParseError
      else if blob ! 5 \<noteq> 1 then Inl WrapParseError
      else r_bind (key_id_hash kid) (\<lambda>expected.
        if slice 6 22 blob \<noteq> expected then Inl WrapParseError
        else r_bind (decode_sec1 C (slice 22 87 blob)) (\<lambda>_.
          if length (drop 87 blob) \<noteq> WRAPPED_DEK_LEN then Inl WrapParseError
          else Inr \<lparr>ph_key_id_hash = slice 6 22 blob, ph_ephemeral_pub = slice 22 87 blob,
                    ph_wrapped_dek = drop 87 blob\<rparr>)))"

section \<open>Wrap and unwrap\<close>

definition native_id :: "py_str option \<Rightarrow> py_str \<Rightarrow> py_str" where
  "native_id nkid kid = (case nkid of Some n \<Rightarrow> n | None \<Rightarrow> kid)"

definition generate_wrapping_key ::
  "('d, 'y) native_scheme \<Rightarrow> 'd \<Rightarrow> py_str \<Rightarrow> bool option \<Rightarrow> py_str option \<Rightarrow> bytes result \<times> 'd" where
  "generate_wrapping_key N d kid unattended nkid = nb_generate N d (native_id nkid kid) unattended"

definition get_wrapping_key_public ::
  "('d, 'y) native_scheme \<Rightarrow> 'd \<Rightarrow> py_str \<Rightarrow> py_str option \<Rightarrow> bytes result" where
  "get_wrapping_key_public N d kid nkid = nb_public N d (native_id nkid kid)"

definition wrap_dek :: "('x) crypto_scheme \<Rightarrow> ('d, 'y) native_scheme \<Rightarrow> 'd \<Rightarrow> bytes \<Rightarrow> bytes \<Rightarrow> py_str \<Rightarrow>
    py_str option \<Rightarrow> bytes result" where
  "wrap_dek C N d ephemeral dek kid nkid =
     (if length dek \<noteq> DEK_LEN then Inl ValueError
      else r_bind (nb_public N d (native_id nkid kid)) (\<lambda>pub_bytes.
        r_bind (decode_sec1 C pub_bytes) (\<lambda>pub.
          let ephemeral_pub = ec_public C ephemeral;
              shared_secret = ec_exchange C ephemeral pub
          in r_bind (key_id_hash kid) (\<lambda>h.
               let info = build_hkdf_info h ephemeral_pub
               in r_bind (kw_wrap C (derive_kek C shared_secret info) dek) (\<lambda>wrapped.
                    Inr (info @ wrapped))))))"

definition denied_entry :: "py_str \<Rightarrow> native_code \<Rightarrow> audit_entry" where
  "denied_entry hex code =
     [(''event'', Text (str_lit ''keyvault.unwrap_dek'')), (''decision'', Text (str_lit ''block'')),
      (''reason'', Text (str_lit ''keyvault.unwrap_denied'')), (''key_id_hash'', Text hex),
      (''native_error_code'', Text (native_code_text code))]"

definition authorized_entry :: "py_str \<Rightarrow> audit_entry" where
  "authorized_entry hex =
     [(''event'', Text (str_lit ''keyvault.unwrap_dek'')), (''decision'', Text (str_lit ''allow'')),
      (''reason'', Text (str_lit ''keyvault.unwrap_authorized'')), (''key_id_hash'', Text hex)]"

text \<open>\<open>_emit_unwrap_denied\<close> followed by the raise of the translated denial.\<close>

definition raise_denied :: "audit_sink \<Rightarrow> audit_log \<Rightarrow> py_str \<Rightarrow> native_code \<Rightarrow> 'a result \<times> audit_log" where
  "raise_denied sink log kid code =
     (case audit_key_id_hex kid of
        Inl e \<Rightarrow> (Inl e, log)
      | Inr hex \<Rightarrow>
          (case emit_capture (Some sink) log (denied_entry hex code) of
             (Inl e, log') \<Rightarrow> (Inl e, log')
           | (Inr sink_exc, log') \<Rightarrow> (chain_and_raise WrapAuthCancelled sink_exc, log')))"

text \<open>
  The success path: \<open>contextlib.suppress(Exception)\<close> around the sink call and around building
  its entry, then the key is returned.
\<close>

definition emit_authorized :: "audit_sink \<Rightarrow> audit_log \<Rightarrow> py_str \<Rightarrow> bytes \<Rightarrow> bytes result \<times> audit_log" where
  "emit_authorized sink log kid dek =
     (case audit_key_id_hex kid of
        Inl e \<Rightarrow> (if is_control_flow e then Inl e else Inr dek, log)
      | Inr hex \<Rightarrow>
          (case sink log (authorized_entry hex) of
             Some e \<Rightarrow> (if is_control_flow e then Inl e else Inr dek, log @ [authorized_entry hex])
           | None \<Rightarrow> (Inr dek, log @ [authorized_entry hex])))"

definition is_invalid_unwrap :: "exn \<Rightarrow> bool" where
  "is_invalid_unwrap e \<longleftrightarrow> e = OtherError ''InvalidUnwrap''"

definition open_wrapped :: "('x) crypto_scheme \<Rightarrow> bytes \<Rightarrow> parsed_header \<Rightarrow> bytes result" where
  "open_wrapped C shared_secret p =
     r_catch is_invalid_unwrap WrapIntegrityError
       (kw_unwrap C (derive_kek C shared_secret (build_hkdf_info (ph_key_id_hash p) (ph_ephemeral_pub p)))
          (ph_wrapped_dek p))"

definition unwrap_dek :: "('x) crypto_scheme \<Rightarrow> ('d, 'y) native_scheme \<Rightarrow> 'd \<Rightarrow> audit_sink \<Rightarrow> audit_log \<Rightarrow>
    bytes \<Rightarrow> py_str \<Rightarrow> py_str option \<Rightarrow> bytes result \<times> 'd \<times> audit_log" where
  "unwrap_dek C N d sink log blob kid nkid =
     (case parse_header C blob kid of
        Inl e \<Rightarrow> (Inl e, d, log)
      | Inr p \<Rightarrow>
          (case nb_ecdh N d (native_id nkid kid) (ph_ephemeral_pub p) of
             (Denied KeyNotFound, d') \<Rightarrow> (Inl WrapKeyNotFound, d', log)
           | (Denied code, d') \<Rightarrow> (case raise_denied sink log kid code of (r, log') \<Rightarrow> (r, d', log'))
           | (Raised e, d') \<Rightarrow> (Inl e, d', log)
           | (Secret s, d') \<Rightarrow>
               (case open_wrapped C s p of
                  Inl e \<Rightarrow> (Inl e, d', log)
                | Inr dek \<Rightarrow> (case emit_authorized sink log kid dek of (r, log') \<Rightarrow> (r, d', log')))))"

section \<open>Layout lemmas\<close>

lemma length_key_id_hash: "key_id_hash kid = Inr h \<Longrightarrow> length h = 16"
  by (auto simp: key_id_hash_def wrap_sizes result_iffs)

lemma key_id_hash_ok: "list_all is_scalar kid \<Longrightarrow> \<exists>h. key_id_hash kid = Inr h"
  by (auto simp: key_id_hash_def utf8_encode_def)

lemma decode_sec1_Inr: "decode_sec1 C b = Inr q \<longleftrightarrow> length b = 65 \<and> hd b = 4 \<and> ec_decode C b = Inr q"
  by (auto simp: decode_sec1_def wrap_sizes)

lemma decode_sec1_public:
  "ec_ok C K \<Longrightarrow> a \<in> K \<Longrightarrow> decode_sec1 C (ec_public C a) = Inr (ec_public C a)"
  by (simp add: decode_sec1_Inr ec_ok_def)

text \<open>The writer's prefix followed by the wrapped key, with the layout's offsets.\<close>

definition wrap_blob :: "parsed_header \<Rightarrow> bytes" where
  "wrap_blob p = build_hkdf_info (ph_key_id_hash p) (ph_ephemeral_pub p) @ ph_wrapped_dek p"

lemma split6:
  assumes "6 \<le> length b"
  shows "b = slice 0 4 b @ [b ! 4, b ! 5] @ drop 6 b"
proof -
  have "drop 4 b = b ! 4 # b ! 5 # drop 6 b"
    using assms Cons_nth_drop_Suc [of 4 b] Cons_nth_drop_Suc [of 5 b] by simp
  then show ?thesis using append_take_drop_id [of 4 b] by simp
qed

lemma parse_header_iff:
  "parse_header C blob kid = Inr p \<longleftrightarrow>
     key_id_hash kid = Inr (ph_key_id_hash p) \<and> blob = wrap_blob p \<and>
     (\<exists>q. decode_sec1 C (ph_ephemeral_pub p) = Inr q) \<and> length (ph_wrapped_dek p) = 40"
  (is "?l \<longleftrightarrow> ?r")
proof
  assume l: ?l
  then have h: "length blob = 127" "slice 0 4 blob = MRKW_MAGIC" "blob ! 4 = 1" "blob ! 5 = 1"
    "key_id_hash kid = Inr (slice 6 22 blob)"
    "\<exists>q. decode_sec1 C (slice 22 87 blob) = Inr q"
    "p = \<lparr>ph_key_id_hash = slice 6 22 blob, ph_ephemeral_pub = slice 22 87 blob,
          ph_wrapped_dek = drop 87 blob\<rparr>"
    by (auto simp: parse_header_def wrap_sizes result_iffs split: if_splits)
  have "blob = MRKW_MAGIC @ [1, 1] @ drop 6 blob"
    using split6 [of blob] h by simp
  also have "drop 6 blob = slice 6 22 blob @ slice 22 87 blob @ drop 87 blob"
    by (simp add: slice_drop)
  finally have "blob = wrap_blob p"
    using h(7) by (simp add: wrap_blob_def build_hkdf_info_def)
  moreover have "length (ph_wrapped_dek p) = 40"
    using h(1,7) by simp
  ultimately show ?r
    using h(5,6,7) by (metis parsed_header.select_convs)
next
  assume r: ?r
  then have len: "length (ph_key_id_hash p) = 16" "length (ph_ephemeral_pub p) = 65"
    "length (ph_wrapped_dek p) = 40"
    by (auto dest: length_key_id_hash simp: decode_sec1_Inr)
  define m where "m = MRKW_MAGIC @ [1, 1]"
  have m: "length m = 6" "take 4 m = MRKW_MAGIC" "m ! 4 = 1" "m ! 5 = 1"
    by (simp_all add: m_def MRKW_MAGIC_def)
  from r have "blob = m @ ph_key_id_hash p @ ph_ephemeral_pub p @ ph_wrapped_dek p"
    by (simp add: wrap_blob_def build_hkdf_info_def m_def)
  with m len have "slice 0 4 blob = MRKW_MAGIC" "blob ! 4 = 1" "blob ! 5 = 1" "length blob = 127"
    "slice 6 22 blob = ph_key_id_hash p" "slice 22 87 blob = ph_ephemeral_pub p"
    "drop 87 blob = ph_wrapped_dek p"
    by (simp_all add: slice_append_right slice_append_left slice_full nth_append)
  with r len show ?l
    by (auto simp: parse_header_def wrap_sizes)
qed

interpretation mrkw: strict_codec
  "\<lambda>p. key_id_hash kid = Inr (ph_key_id_hash p) \<and>
     (\<exists>q. decode_sec1 C (ph_ephemeral_pub p) = Inr q) \<and> length (ph_wrapped_dek p) = 40"
  "\<lambda>p. Inr (wrap_blob p)" "\<lambda>b. parse_header C b kid" for C kid
  by unfold_locales (auto simp: parse_header_iff)

text \<open>Every refusal of the parser is a \<open>WrapParseError\<close>, when the point decoder raises \<open>ValueError\<close>s.\<close>

definition ec_decode_raises_value_errors :: "('x) crypto_scheme \<Rightarrow> bool" where
  "ec_decode_raises_value_errors C \<longleftrightarrow> (\<forall>b e. ec_decode C b = Inl e \<longrightarrow> is_value_error e)"

lemma parse_header_error:
  assumes "ec_decode_raises_value_errors C" "list_all is_scalar kid" "parse_header C blob kid = Inl e"
  shows "e = WrapParseError"
proof -
  obtain h where "key_id_hash kid = Inr h" using key_id_hash_ok assms(2) by blast
  with assms(1,3) show ?thesis
    by (auto simp: parse_header_def decode_sec1_def result_iffs ec_decode_raises_value_errors_def
        split: if_splits)
qed

section \<open>Wrap then unwrap\<close>

text \<open>A sink that may fail, but does not ask the program to stop.\<close>

definition operational :: "audit_sink \<Rightarrow> bool" where
  "operational sink \<longleftrightarrow> (\<forall>log e x. sink log e = Some x \<longrightarrow> \<not> is_control_flow x)"

lemma emit_authorized_operational:
  assumes "operational sink" "key_id_hash kid = Inr h"
  shows "emit_authorized sink log kid dek = (Inr dek, log @ [authorized_entry (hex_of_bytes (take 8 h))])"
  using assms
  by (auto simp: emit_authorized_def audit_key_id_hex_def operational_def split: option.split)

lemma raise_denied_operational:
  assumes "operational sink" "key_id_hash kid = Inr h"
  shows "raise_denied sink log kid c =
     (Inl WrapAuthCancelled, log @ [denied_entry (hex_of_bytes (take 8 h)) c])"
  using assms
  by (auto simp: raise_denied_def audit_key_id_hex_def operational_def emit_capture_def
      chain_and_raise_def split: option.splits)

lemma wrap_dek_blob:
  assumes "crypto_ok C K" "eph \<in> K" "b \<in> K" "nb_public N d (native_id nkid kid) = Inr (ec_public C b)"
    "length dek = 32" "key_id_hash kid = Inr h"
  obtains w where "wrap_dek C N d eph dek kid nkid =
      Inr (wrap_blob \<lparr>ph_key_id_hash = h, ph_ephemeral_pub = ec_public C eph, ph_wrapped_dek = w\<rparr>)"
    "length w = 40"
    "kw_unwrap C (derive_kek C (ec_exchange C b (ec_public C eph))
       (build_hkdf_info h (ec_public C eph))) w = Inr dek"
proof -
  note ok = crypto_okD [OF assms(1)]
  let ?kek = "derive_kek C (ec_exchange C b (ec_public C eph)) (build_hkdf_info h (ec_public C eph))"
  have "length ?kek = 32" using ok by (simp add: derive_kek_def length_hkdf)
  with ok(2) assms(5) obtain w where w: "kw_wrap C ?kek dek = Inr w" "length w = 40"
    "kw_unwrap C ?kek w = Inr dek"
    by (metis kw_okE)
  moreover have "ec_exchange C eph (ec_public C b) = ec_exchange C b (ec_public C eph)"
    using ok(5) assms(2,3) by (simp add: ec_ok_def)
  ultimately have "wrap_dek C N d eph dek kid nkid =
      Inr (wrap_blob \<lparr>ph_key_id_hash = h, ph_ephemeral_pub = ec_public C eph, ph_wrapped_dek = w\<rparr>)"
    using assms(4-6) decode_sec1_public [OF ok(5) assms(3)]
    by (simp add: wrap_dek_def wrap_sizes wrap_blob_def)
  with w that show ?thesis by blast
qed

lemma unwrap_of_blob:
  assumes "ec_ok C K" "eph \<in> K" "holds_key C N d (native_id nkid kid) b" "key_id_hash kid = Inr h"
    "length w = 40" "operational sink"
    "kw_unwrap C (derive_kek C (ec_exchange C b (ec_public C eph))
       (build_hkdf_info h (ec_public C eph))) w = Inr dek"
  shows "unwrap_dek C N d sink log
      (wrap_blob \<lparr>ph_key_id_hash = h, ph_ephemeral_pub = ec_public C eph, ph_wrapped_dek = w\<rparr>) kid nkid =
    (Inr dek, snd (nb_ecdh N d (native_id nkid kid) (ec_public C eph)),
     log @ [authorized_entry (hex_of_bytes (take 8 h))])"
proof -
  let ?p = "\<lparr>ph_key_id_hash = h, ph_ephemeral_pub = ec_public C eph, ph_wrapped_dek = w\<rparr>"
  have "parse_header C (wrap_blob ?p) kid = Inr ?p"
    using assms(4,5) decode_sec1_public [OF assms(1,2)] by (simp add: parse_header_iff)
  moreover obtain d' where "nb_ecdh N d (native_id nkid kid) (ec_public C eph) =
      (Secret (ec_exchange C b (ec_public C eph)), d')"
    using assms(3) by (metis holds_key_def prod.collapse)
  ultimately show ?thesis
    using assms(4,6,7) by (simp add: unwrap_dek_def open_wrapped_def emit_authorized_operational)
qed

text \<open>Wrapping a 32-byte key always yields a 127-byte blob, and unwrapping that blob on the
  device that holds the wrapping key returns exactly the same key, with exactly one audit entry,
  \<open>keyvault.unwrap_authorized\<close>, that names the key only by the hash prefix; a failing audit sink
  does not lose the key.\<close>

lemma unwrap_wrap_dek:
  assumes "crypto_ok C K" "eph \<in> K" "b \<in> K" "holds_key C N d (native_id nkid kid) b"
    "length dek = 32" "key_id_hash kid = Inr h" "operational sink"
  shows "\<exists>blob. wrap_dek C N d eph dek kid nkid = Inr blob \<and> length blob = 127 \<and>
    (\<exists>d'. unwrap_dek C N d sink log blob kid nkid =
       (Inr dek, d', log @ [authorized_entry (hex_of_bytes (take 8 h))]))"
proof -
  have pub: "nb_public N d (native_id nkid kid) = Inr (ec_public C b)"
    using assms(4) by (simp add: holds_key_def)
  obtain w where w: "wrap_dek C N d eph dek kid nkid =
      Inr (wrap_blob \<lparr>ph_key_id_hash = h, ph_ephemeral_pub = ec_public C eph, ph_wrapped_dek = w\<rparr>)"
    "length w = 40"
    "kw_unwrap C (derive_kek C (ec_exchange C b (ec_public C eph))
       (build_hkdf_info h (ec_public C eph))) w = Inr dek"
    using wrap_dek_blob [OF assms(1-3) pub assms(5,6)] by blast
  have "length (wrap_blob \<lparr>ph_key_id_hash = h, ph_ephemeral_pub = ec_public C eph, ph_wrapped_dek = w\<rparr>) = 127"
    using w(2) length_key_id_hash [OF assms(6)] crypto_okD(5) [OF assms(1)] assms(2)
    by (simp add: wrap_blob_def build_hkdf_info_def MRKW_MAGIC_def ec_ok_def)
  with w unwrap_of_blob [OF crypto_okD(5) [OF assms(1)] assms(2,4,6) w(2) assms(7) w(3)]
  show ?thesis by blast
qed

definition demo_sink :: audit_sink where
  "demo_sink log e = (if log = [] then Some (OtherError ''OSError'') else None)"

lemma demo_sink_operational: "operational demo_sink"
  by (simp add: operational_def demo_sink_def is_control_flow_def)

lemma unwrap_wrap_dek_witness:
  "\<exists>h blob d'. wrap_dek demo_crypto (demo_native [7]) () [9] (replicate 32 5) [107] None = Inr blob \<and>
     unwrap_dek demo_crypto (demo_native [7]) () demo_sink [] blob [107] None =
       (Inr (replicate 32 5), d', [authorized_entry (hex_of_bytes (take 8 h))])"
proof -
  obtain h where "key_id_hash [107] = Inr h"
    using key_id_hash_ok [of "[107]"] by (auto simp: is_scalar_def is_surrogate_def)
  then show ?thesis
    using unwrap_wrap_dek [OF demo_crypto_ok [of UNIV] UNIV_I UNIV_I demo_native_holds _ _ demo_sink_operational,
        where dek = "replicate 32 5" and kid = "[107]" and h = h and nkid = None and eph = "[9]"
          and log = "[]" and b = "[7]"]
    by auto
qed

text \<open>What a successful unwrap has verified: the blob is the 127-byte layout for this key id,
  the native key store granted the exchange with the ephemeral point of the blob, and the AES key
  unwrap accepted the last 40 bytes under a key derived with all 87 header bytes as HKDF info, so
  that every header byte is bound to the wrapped key.\<close>

lemma unwrap_dek_verified:
  assumes "unwrap_dek C N d sink log blob kid nkid = (Inr dek, d', log')"
  shows "length blob = 127 \<and> take 6 blob = MRKW_MAGIC @ [1, 1] \<and> key_id_hash kid = Inr (slice 6 22 blob) \<and>
    (\<exists>q. decode_sec1 C (slice 22 87 blob) = Inr q) \<and>
    (\<exists>s. nb_ecdh N d (native_id nkid kid) (slice 22 87 blob) = (Secret s, d') \<and>
         kw_unwrap C (hkdf_sha256 C s (take 87 blob) 32) (drop 87 blob) = Inr dek)"
proof -
  from assms obtain p s where p: "parse_header C blob kid = Inr p"
    and s: "nb_ecdh N d (native_id nkid kid) (ph_ephemeral_pub p) = (Secret s, d')"
    and o: "open_wrapped C s p = Inr dek"
    by (auto simp: unwrap_dek_def emit_authorized_def raise_denied_def chain_and_raise_def
        split: sum.splits prod.splits native_outcome.splits native_code.splits option.splits if_splits)
  from p have h: "key_id_hash kid = Inr (ph_key_id_hash p)" "blob = wrap_blob p"
    "length (ph_wrapped_dek p) = 40" "\<exists>q. decode_sec1 C (ph_ephemeral_pub p) = Inr q"
    by (auto simp: parse_header_iff)
  then have len: "length (ph_key_id_hash p) = 16" "length (ph_ephemeral_pub p) = 65"
    by (auto dest: length_key_id_hash simp: decode_sec1_Inr)
  have parts: "take 87 blob = build_hkdf_info (ph_key_id_hash p) (ph_ephemeral_pub p)"
    "drop 87 blob = ph_wrapped_dek p" "slice 6 22 blob = ph_key_id_hash p"
    "slice 22 87 blob = ph_ephemeral_pub p" "take 6 blob = MRKW_MAGIC @ [1, 1]" "length blob = 127"
    using h(3) len unfolding h(2) wrap_blob_def build_hkdf_info_def
    by (simp_all add: MRKW_MAGIC_def slice_append_right slice_append_left slice_full slice_def)
  from o have "kw_unwrap C (hkdf_sha256 C s (take 87 blob) 32) (drop 87 blob) = Inr dek"
    by (simp add: open_wrapped_def derive_kek_def parts)
  with s h(1,4) parts show ?thesis by (metis (no_types))
qed

text \<open>A blob that this device unwraps, without computing a hash: any blob \<open>wrap_dek\<close> wrote.\<close>

lemma demo_unwrap:
  obtains blob d' log' where
    "unwrap_dek demo_crypto (demo_native [7]) () demo_sink [] blob [107] None = (Inr (replicate 32 5), d', log')"
proof -
  obtain h where h: "key_id_hash [107] = Inr h"
    using key_id_hash_ok [of "[107]"] by (auto simp: is_scalar_def is_surrogate_def)
  have pub: "nb_public (demo_native [7]) () (native_id None [107]) = Inr (ec_public demo_crypto [7])"
    by (simp add: demo_native_def)
  obtain w where "length w = 40"
    "kw_unwrap demo_crypto (derive_kek demo_crypto (ec_exchange demo_crypto [7] (ec_public demo_crypto [9]))
       (build_hkdf_info h (ec_public demo_crypto [9]))) w = Inr (replicate 32 5)"
    using wrap_dek_blob [OF demo_crypto_ok [of UNIV] UNIV_I UNIV_I pub _ h, of "replicate 32 5" "[9]"]
    by auto
  with that unwrap_of_blob [OF crypto_okD(5) [OF demo_crypto_ok [of UNIV]] UNIV_I demo_native_holds h _
      demo_sink_operational, where log = "[]" and nkid = None]
  show ?thesis by blast
qed

lemma unwrap_dek_verified_witness:
  "\<exists>blob s. length blob = 127 \<and>
     kw_unwrap demo_crypto (hkdf_sha256 demo_crypto s (take 87 blob) 32) (drop 87 blob) = Inr (replicate 32 5)"
  using demo_unwrap unwrap_dek_verified by (metis (no_types))

text \<open>The audit trail of an unwrap. A refused blob reaches neither the key store nor the audit
  log; a missing key raises \<open>WrapKeyNotFound\<close> without an entry; every other native denial raises
  \<open>WrapAuthCancelled\<close> with exactly one \<open>unwrap_denied\<close> entry carrying the translated code, even
  when the sink fails; a failed integrity check after the grant writes no entry.\<close>

lemma unwrap_dek_audit:
  assumes "operational sink" "key_id_hash kid = Inr h" "ec_decode_raises_value_errors C"
    "list_all is_scalar kid" "\<And>k c e. kw_unwrap C k c = Inl e \<Longrightarrow> is_invalid_unwrap e"
  shows "let call = unwrap_dek C N d sink log blob kid nkid in
    case parse_header C blob kid of
      Inl e \<Rightarrow> call = (Inl WrapParseError, d, log)
    | Inr p \<Rightarrow> (case nb_ecdh N d (native_id nkid kid) (ph_ephemeral_pub p) of
        (Denied KeyNotFound, d') \<Rightarrow> call = (Inl WrapKeyNotFound, d', log)
      | (Denied c, d') \<Rightarrow> call = (Inl WrapAuthCancelled, d', log @ [denied_entry (hex_of_bytes (take 8 h)) c])
      | (Raised e, d') \<Rightarrow> call = (Inl e, d', log)
      | (Secret s, d') \<Rightarrow>
          call = (Inl WrapIntegrityError, d', log) \<or>
          (\<exists>dek. call = (Inr dek, d', log @ [authorized_entry (hex_of_bytes (take 8 h))])))"
proof (cases "parse_header C blob kid")
  case (Inl e)
  with parse_header_error [OF assms(3,4)] show ?thesis by (simp add: Let_def unwrap_dek_def)
next
  case (Inr p)
  obtain g d' where g: "nb_ecdh N d (native_id nkid kid) (ph_ephemeral_pub p) = (g, d')"
    by (cases "nb_ecdh N d (native_id nkid kid) (ph_ephemeral_pub p)")
  show ?thesis
  proof (cases g)
    case (Secret s)
    consider e where "open_wrapped C s p = Inl WrapIntegrityError" | dek where "open_wrapped C s p = Inr dek"
      using assms(5) by (cases "open_wrapped C s p") (auto simp: open_wrapped_def r_catch_Inl_iff)
    then show ?thesis
      using Inr g Secret emit_authorized_operational [OF assms(1,2)]
      by cases (simp_all add: Let_def unwrap_dek_def)
  next
    case (Denied c)
    then show ?thesis
      using Inr g
      by (cases c) (simp_all add: Let_def unwrap_dek_def raise_denied_operational [OF assms(1,2)])
  next
    case (Raised e)
    then show ?thesis using Inr g by (simp add: Let_def unwrap_dek_def)
  qed
qed

lemma demo_ec_decode_errors: "ec_decode_raises_value_errors demo_crypto"
  by (simp add: ec_decode_raises_value_errors_def demo_crypto_def is_value_error_def)

lemma demo_kw_errors: "kw_unwrap demo_crypto k c = Inl e \<Longrightarrow> is_invalid_unwrap e"
  by (auto simp: demo_crypto_def is_invalid_unwrap_def split: if_splits)

lemma unwrap_dek_audit_witness:
  "unwrap_dek demo_crypto (demo_native [7]) () demo_sink [] [1, 2, 3] [107] None = (Inl WrapParseError, (), [])"
proof -
  obtain h where h: "key_id_hash [107] = Inr h"
    using key_id_hash_ok [of "[107]"] by (auto simp: is_scalar_def is_surrogate_def)
  have "parse_header demo_crypto [1, 2, 3] [107] = Inl WrapParseError"
    by (simp add: parse_header_def wrap_sizes)
  then show ?thesis
    using unwrap_dek_audit [OF demo_sink_operational h demo_ec_decode_errors _ demo_kw_errors,
        where N = "demo_native [7]" and d = "()" and log = "[]" and blob = "[1, 2, 3]" and nkid = None]
    by (simp add: is_scalar_def is_surrogate_def)
qed

end
