(* ===== verification/Kek.thy ===== *)
theory Kek
  imports Wrap
begin

text \<open>
  \<open>keyvault/crypto.py\<close> (AES-GCM blobs that carry their nonce) and \<open>keyvault/kek.py\<close> (the
  master key: sealed under the native key, opened once, used in memory, closed). The random
  nonce and the random master key are arguments.
\<close>

section \<open>AES-GCM blobs\<close>

definition NONCE_SIZE :: nat where "NONCE_SIZE = 12"
definition TAG_SIZE :: nat where "TAG_SIZE = 16"

definition aead_encrypt :: "('x) crypto_scheme \<Rightarrow> bytes \<Rightarrow> bytes \<Rightarrow> bytes \<Rightarrow> bytes \<Rightarrow> bytes result" where
  "aead_encrypt C nonce key plaintext aad =
     r_bind (gcm_seal C key nonce plaintext aad) (\<lambda>ciphertext. Inr (nonce @ ciphertext))"

definition aead_decrypt :: "('x) crypto_scheme \<Rightarrow> bytes \<Rightarrow> bytes \<Rightarrow> bytes \<Rightarrow> bytes result" where
  "aead_decrypt C key blob aad =
     (if length blob < NONCE_SIZE + TAG_SIZE then Inl InvalidTag
      else gcm_open C key (take NONCE_SIZE blob) (drop NONCE_SIZE blob) aad)"

text \<open>What a writer may seal: key and nonce sizes, and the size limit of the package.\<close>

definition sealable :: "('x) crypto_scheme \<Rightarrow> bytes \<Rightarrow> bytes \<Rightarrow> bytes \<Rightarrow> bytes \<Rightarrow> bool" where
  "sealable C nonce key aad p \<longleftrightarrow> gcm_ok C \<and> length key \<in> {16, 24, 32} \<and> length nonce = 12 \<and>
     length p + 16 \<le> gcm_limit \<and> length aad \<le> gcm_limit"

lemma aead_decrypt_encrypt:
  assumes "sealable C nonce key aad p"
  shows "\<exists>b. aead_encrypt C nonce key p aad = Inr b \<and> length b = length p + 28 \<and> aead_decrypt C key b aad = Inr p"
proof -
  obtain c where "gcm_seal C key nonce p aad = Inr c" "length c = length p + 16"
    "gcm_open C key nonce c aad = Inr p"
    by (rule gcm_okE [of C key nonce p aad]) (use assms in \<open>auto simp: sealable_def\<close>)
  then show ?thesis
    using assms by (simp add: aead_encrypt_def aead_decrypt_def NONCE_SIZE_def TAG_SIZE_def sealable_def)
qed

interpretation aead: codec "sealable C nonce key aad" "\<lambda>p. aead_encrypt C nonce key p aad"
  "\<lambda>b. aead_decrypt C key b aad" for C nonce key aad
  using aead_decrypt_encrypt by unfold_locales blast

lemma aead_decrypt_Inr:
  "aead_decrypt C key b aad = Inr p \<longleftrightarrow> 28 \<le> length b \<and> gcm_open C key (take 12 b) (drop 12 b) aad = Inr p"
  by (simp add: aead_decrypt_def NONCE_SIZE_def TAG_SIZE_def)

section \<open>The master key\<close>

record master_key =
  mk_key :: bytes
  mk_closed :: bool

definition master_new :: "bytes \<Rightarrow> master_key" where
  "master_new key = \<lparr>mk_key = key, mk_closed = False\<rparr>"

definition master_key_bytes :: "master_key \<Rightarrow> bytes result" where
  "master_key_bytes m = (if mk_closed m then Inl ValueError else Inr (mk_key m))"

definition master_encrypt :: "('x) crypto_scheme \<Rightarrow> bytes \<Rightarrow> master_key \<Rightarrow> bytes \<Rightarrow> bytes \<Rightarrow> bytes result" where
  "master_encrypt C nonce m plaintext aad = r_bind (master_key_bytes m) (\<lambda>k. aead_encrypt C nonce k plaintext aad)"

definition master_decrypt :: "('x) crypto_scheme \<Rightarrow> master_key \<Rightarrow> bytes \<Rightarrow> bytes \<Rightarrow> bytes result" where
  "master_decrypt C m blob aad = r_bind (master_key_bytes m) (\<lambda>k. aead_decrypt C k blob aad)"

definition master_mac :: "('x) crypto_scheme \<Rightarrow> master_key \<Rightarrow> bytes \<Rightarrow> bytes \<Rightarrow> bytes result" where
  "master_mac C m data info =
     r_bind (master_key_bytes m) (\<lambda>k. Inr (hmac_sha256 (hkdf_sha256 C k info 32) data))"

definition master_close :: "master_key \<Rightarrow> master_key" where
  "master_close m =
     (if \<not> mk_closed m then m\<lparr>mk_key := replicate (length (mk_key m)) 0, mk_closed := True\<rparr> else m)"

definition seal_master_key :: "('x) crypto_scheme \<Rightarrow> ('d, 'y) native_scheme \<Rightarrow> 'd \<Rightarrow> bytes \<Rightarrow> bytes \<Rightarrow> py_str \<Rightarrow> bytes result" where
  "seal_master_key C N d ephemeral master kid = wrap_dek C N d ephemeral master kid None"

text \<open>\<open>_noop_audit\<close> stands in when the caller gives no sink; its calls are not recorded.\<close>

definition noop_audit :: audit_sink where
  "noop_audit log e = None"

definition open_master_key :: "('x) crypto_scheme \<Rightarrow> ('d, 'y) native_scheme \<Rightarrow> 'd \<Rightarrow> audit_sink option \<Rightarrow>
    audit_log \<Rightarrow> bytes \<Rightarrow> py_str \<Rightarrow> master_key result \<times> 'd \<times> audit_log" where
  "open_master_key C N d sink log wrapped kid =
     (case sink of
        Some s \<Rightarrow> (case unwrap_dek C N d s log wrapped kid None of
            (r, d', log') \<Rightarrow> (r_bind r (\<lambda>k. Inr (master_new k)), d', log'))
      | None \<Rightarrow> (case unwrap_dek C N d noop_audit [] wrapped kid None of
            (r, d', _) \<Rightarrow> (r_bind r (\<lambda>k. Inr (master_new k)), d', log)))"

lemma noop_operational: "operational noop_audit"
  by (simp add: operational_def noop_audit_def)

lemma length_hmac_subkey: "master_mac C m data info = Inr t \<Longrightarrow> length t = 32"
  by (auto simp: master_mac_def result_iffs)

interpretation master: codec "\<lambda>p. \<not> mk_closed m \<and> sealable C nonce (mk_key m) aad p"
  "\<lambda>p. master_encrypt C nonce m p aad" "\<lambda>b. master_decrypt C m b aad" for C nonce m aad
  by unfold_locales (auto simp: master_encrypt_def master_decrypt_def master_key_bytes_def
      dest: aead.dec_enc)

lemma closed_refuses:
  assumes "mk_closed m"
  shows "master_encrypt C nonce m p aad = Inl ValueError" "master_decrypt C m b aad = Inl ValueError"
    "master_mac C m data info = Inl ValueError"
  using assms by (simp_all add: master_encrypt_def master_decrypt_def master_mac_def master_key_bytes_def)

lemma master_close_closed [simp]:
  "mk_closed (master_close m)" "master_close (master_close m) = master_close m"
  by (simp_all add: master_close_def)

lemma wrap_unwrap_noop:
  assumes "crypto_ok C K" "eph \<in> K" "b \<in> K" "holds_key C N d kid b" "length key = 32" "list_all is_scalar kid"
  obtains wrapped d' l where "wrap_dek C N d eph key kid None = Inr wrapped"
    "unwrap_dek C N d noop_audit [] wrapped kid None = (Inr key, d', l)"
proof -
  obtain h where h: "key_id_hash kid = Inr h" using key_id_hash_ok assms(6) by blast
  have hk: "holds_key C N d (native_id None kid) b" using assms(4) by (simp add: native_id_def)
  have pub: "nb_public N d (native_id None kid) = Inr (ec_public C b)"
    using hk by (simp add: holds_key_def)
  show ?thesis
    by (rule wrap_dek_blob [OF assms(1-3) pub assms(5) h])
      (use that unwrap_of_blob [OF crypto_okD(5) [OF assms(1)] assms(2) hk h _ noop_operational] in blast)
qed

text \<open>The life of a master key: sealed under the native key it opens to the same 32 bytes; while
  open, whatever it encrypts it decrypts again under the same associated data, in a blob exactly 28
  bytes longer; once closed its buffer is zero and every operation raises \<open>ValueError\<close>; closing
  twice changes nothing more.\<close>

lemma master_key_lifecycle:
  assumes "crypto_ok C K" "eph \<in> K" "b \<in> K" "holds_key C N d kid b" "length key = 32"
    "list_all is_scalar kid" "length nonce = 12" "length p + 16 \<le> gcm_limit" "length aad \<le> gcm_limit"
  shows "\<exists>wrapped d' m. seal_master_key C N d eph key kid = Inr wrapped \<and>
    open_master_key C N d None log wrapped kid = (Inr m, d', log) \<and> mk_key m = key \<and>
    (\<exists>blob. master_encrypt C nonce m p aad = Inr blob \<and> length blob = length p + 28 \<and>
       master_decrypt C m blob aad = Inr p \<and>
       master_decrypt C (master_close m) blob aad = Inl ValueError) \<and>
    master_encrypt C nonce (master_close m) p aad = Inl ValueError \<and>
    master_mac C (master_close m) p aad = Inl ValueError \<and>
    mk_key (master_close m) = replicate 32 0 \<and> master_close (master_close m) = master_close m"
proof -
  obtain wrapped d' l where w: "wrap_dek C N d eph key kid None = Inr wrapped"
    "unwrap_dek C N d noop_audit [] wrapped kid None = (Inr key, d', l)"
    by (rule wrap_unwrap_noop [OF assms(1-6)])
  have "sealable C nonce key aad p"
    using assms crypto_okD(1) [OF assms(1)] by (simp add: sealable_def)
  from aead_decrypt_encrypt [OF this] obtain blob where
    "aead_encrypt C nonce key p aad = Inr blob" "length blob = length p + 28"
    "aead_decrypt C key blob aad = Inr p" by blast
  then have "\<exists>blob. master_encrypt C nonce (master_new key) p aad = Inr blob \<and> length blob = length p + 28 \<and>
       master_decrypt C (master_new key) blob aad = Inr p \<and>
       master_decrypt C (master_close (master_new key)) blob aad = Inl ValueError"
    by (simp add: master_encrypt_def master_decrypt_def master_key_bytes_def master_new_def master_close_def)
  moreover have "open_master_key C N d None log wrapped kid = (Inr (master_new key), d', log)"
    using w(2) by (simp add: open_master_key_def)
  moreover have "mk_key (master_close (master_new key)) = replicate 32 0" "mk_key (master_new key) = key"
    using assms(5) by (simp_all add: master_close_def master_new_def)
  ultimately show ?thesis
    using w(1) by (intro exI [of _ wrapped] exI [of _ d'] exI [of _ "master_new key"])
      (simp add: seal_master_key_def closed_refuses)
qed

lemma master_key_lifecycle_witness:
  "\<exists>wrapped d' m. seal_master_key demo_crypto (demo_native [7]) () [9] (replicate 32 5) [107] = Inr wrapped \<and>
     open_master_key demo_crypto (demo_native [7]) () None [] wrapped [107] = (Inr m, d', []) \<and>
     mk_key m = replicate 32 5"
  using master_key_lifecycle [OF demo_crypto_ok [of UNIV] UNIV_I UNIV_I demo_native_holds,
      where key = "replicate 32 5" and kid = "[107]" and nonce = "replicate 12 1" and p = "[1]" and aad = "[]"
        and eph = "[9]" and b = "[7]" and log = "[]"]
  by (auto simp: is_scalar_def is_surrogate_def gcm_limit_def)

end
