(* ===== verification/Backup.thy ===== *)
theory Backup
  imports Kek
begin

text \<open>
  \<open>keyvault/backup.py\<close>, the self-describing backup blob \<open>MRKV\<close> with its bounds on the
  key-derivation cost, \<open>keyvault/recovery.py\<close>, the verify-before-decrypt restore, and
  \<open>keyvault/digest.py\<close>, the verification digest. Salt and nonce are arguments; BLAKE3 is a
  parameter.
\<close>

section \<open>Layout\<close>

definition MRKV_MAGIC :: bytes where
  "MRKV_MAGIC = [0x4d, 0x52, 0x4b, 0x56]"

definition ARGON2_M_COST_KIB :: nat where "ARGON2_M_COST_KIB = 47104"
definition ARGON2_T_COST :: nat where "ARGON2_T_COST = 1"
definition ARGON2_P_COST :: nat where "ARGON2_P_COST = 1"
definition MAX_M_COST_KIB :: nat where "MAX_M_COST_KIB = 1048576"
definition MAX_T_COST :: nat where "MAX_T_COST = 64"
definition MAX_P_COST :: nat where "MAX_P_COST = 16"
definition BACKUP_HEADER_LEN :: nat where "BACKUP_HEADER_LEN = 70"
definition BACKUP_AAD_LEN :: nat where "BACKUP_AAD_LEN = 66"
definition MIN_AES_BLOB_LEN :: nat where "MIN_AES_BLOB_LEN = 28"
definition DIGEST_LEN :: nat where "DIGEST_LEN = 32"

lemmas backup_consts = ARGON2_M_COST_KIB_def ARGON2_T_COST_def ARGON2_P_COST_def MAX_M_COST_KIB_def
  MAX_T_COST_def MAX_P_COST_def BACKUP_HEADER_LEN_def BACKUP_AAD_LEN_def MIN_AES_BLOB_LEN_def
  DIGEST_LEN_def

record backup_header =
  bh_magic :: bytes
  bh_version :: nat
  bh_kdf_id :: nat
  bh_m_cost :: nat
  bh_t_cost :: nat
  bh_p_cost :: nat
  bh_salt :: bytes
  bh_digest :: bytes
  bh_aes_blob :: bytes
  bh_aad :: bytes

section \<open>Export, parse, decrypt\<close>

definition derive_backup_kek :: "('x) crypto_scheme \<Rightarrow> py_str \<Rightarrow> bytes \<Rightarrow> nat \<Rightarrow> nat \<Rightarrow> nat \<Rightarrow> bytes result" where
  "derive_backup_kek C passphrase salt m t p =
     r_bind (utf8_encode passphrase) (\<lambda>secret. argon2id_raw C secret salt t m p 32)"

definition assert_canonical_profile :: "nat \<Rightarrow> nat \<Rightarrow> nat \<Rightarrow> unit result" where
  "assert_canonical_profile m t p =
     (if m \<noteq> ARGON2_M_COST_KIB \<or> t \<noteq> ARGON2_T_COST \<or> p \<noteq> ARGON2_P_COST then Inl BackupCorrupt
      else Inr ())"

definition backup_aad :: "bytes \<Rightarrow> bytes \<Rightarrow> bytes" where
  "backup_aad salt digest =
     MRKV_MAGIC @ [1] @ [1] @ be_digits 4 ARGON2_M_COST_KIB @ be_digits 4 ARGON2_T_COST
       @ be_digits 4 ARGON2_P_COST @ salt @ digest"

definition export_backup_blob ::
  "('x) crypto_scheme \<Rightarrow> bytes \<Rightarrow> bytes \<Rightarrow> bytes \<Rightarrow> py_str \<Rightarrow> bytes \<Rightarrow> bytes result" where
  "export_backup_blob C salt nonce secret passphrase digest =
     (if length digest \<noteq> DIGEST_LEN then Inl ValueError
      else r_bind (derive_backup_kek C passphrase salt ARGON2_M_COST_KIB ARGON2_T_COST ARGON2_P_COST) (\<lambda>kek.
        let aad = backup_aad salt digest
        in r_bind (aead_encrypt C nonce kek secret aad) (\<lambda>aes_blob.
          r_bind (to_be 4 (length aes_blob)) (\<lambda>n. Inr (aad @ n @ aes_blob)))))"

definition parse_kdf_costs :: "bytes \<Rightarrow> nat \<Rightarrow> (nat \<times> nat \<times> nat) result" where
  "parse_kdf_costs blob version =
     (let m = from_be (slice 6 10 blob); t = from_be (slice 10 14 blob); p = from_be (slice 14 18 blob)
      in if m < 1 \<or> m > MAX_M_COST_KIB then Inl BackupCorrupt
         else if t < 1 \<or> t > MAX_T_COST then Inl BackupCorrupt
         else if p < 1 \<or> p > MAX_P_COST then Inl BackupCorrupt
         else if version = 1 then r_bind (assert_canonical_profile m t p) (\<lambda>_. Inr (m, t, p))
         else Inr (m, t, p))"

definition parse_backup :: "bytes \<Rightarrow> backup_header result" where
  "parse_backup blob =
     (if length blob < BACKUP_HEADER_LEN then Inl BackupCorrupt
      else if slice 0 4 blob \<noteq> MRKV_MAGIC then Inl BackupCorrupt
      else if unat (blob ! 4) \<noteq> 1 then Inl BackupCorrupt
      else if unat (blob ! 5) \<noteq> 1 then Inl BackupCorrupt
      else r_bind (parse_kdf_costs blob (unat (blob ! 4))) (\<lambda>(m, t, p).
        let aes_blob_len = from_be (slice 66 70 blob)
        in if length blob \<noteq> BACKUP_HEADER_LEN + aes_blob_len then Inl BackupCorrupt
           else if aes_blob_len < MIN_AES_BLOB_LEN then Inl BackupCorrupt
           else Inr \<lparr>bh_magic = slice 0 4 blob, bh_version = unat (blob ! 4), bh_kdf_id = unat (blob ! 5),
                     bh_m_cost = m, bh_t_cost = t, bh_p_cost = p, bh_salt = slice 18 34 blob,
                     bh_digest = slice 34 66 blob, bh_aes_blob = drop BACKUP_HEADER_LEN blob,
                     bh_aad = take BACKUP_AAD_LEN blob\<rparr>))"

definition decrypt_body :: "('x) crypto_scheme \<Rightarrow> backup_header \<Rightarrow> py_str \<Rightarrow> bytes result" where
  "decrypt_body C h passphrase =
     r_bind (if bh_version h = 1 then assert_canonical_profile (bh_m_cost h) (bh_t_cost h) (bh_p_cost h)
             else Inr ()) (\<lambda>_.
       r_bind (derive_backup_kek C passphrase (bh_salt h) (bh_m_cost h) (bh_t_cost h) (bh_p_cost h)) (\<lambda>kek.
         aead_decrypt C kek (bh_aes_blob h) (bh_aad h)))"

section \<open>Recovery\<close>

definition mismatch_entry :: "nat \<Rightarrow> audit_entry" where
  "mismatch_entry blob_version =
     [(''event'', Text (str_lit ''keyvault.import_backup'')), (''decision'', Text (str_lit ''block'')),
      (''reason'', Text (str_lit ''keyvault.recovery_digest_mismatch'')),
      (''blob_version'', Number blob_version)]"

definition raise_mismatch :: "audit_sink option \<Rightarrow> audit_log \<Rightarrow> nat \<Rightarrow> 'a result \<times> audit_log" where
  "raise_mismatch sink log v =
     (case emit_capture sink log (mismatch_entry v) of
        (Inl e, log') \<Rightarrow> (Inl e, log')
      | (Inr sink_exc, log') \<Rightarrow> (chain_and_raise RecoveryDigestMismatch sink_exc, log'))"

definition import_backup :: "('x) crypto_scheme \<Rightarrow> audit_sink option \<Rightarrow> audit_log \<Rightarrow> bytes \<Rightarrow> py_str \<Rightarrow> bytes \<Rightarrow>
    bytes result \<times> audit_log" where
  "import_backup C sink log blob passphrase recomputed =
     (if length recomputed \<noteq> DIGEST_LEN then raise_mismatch sink log 0
      else case parse_backup blob of
        Inl e \<Rightarrow> (Inl e, log)
      | Inr h \<Rightarrow>
          if \<not> compare_digest (bh_digest h) recomputed then raise_mismatch sink log (bh_version h)
          else (decrypt_body C h passphrase, log))"

section \<open>The verification digest\<close>

text \<open>\<open>H\<close> is BLAKE3 in 32-byte mode.\<close>

definition top4 :: "bytes \<Rightarrow> bytes result" where
  "top4 pow = (if length pow < 4 then Inl ValueError else Inr (take 4 pow))"

definition compute_digest :: "(bytes \<Rightarrow> bytes) \<Rightarrow> py_str \<Rightarrow> py_str \<Rightarrow> bytes \<Rightarrow> bytes result" where
  "compute_digest H seed passphrase pow =
     r_bind (utf8_encode seed) (\<lambda>s.
       r_bind (utf8_encode passphrase) (\<lambda>p.
         r_bind (top4 pow) (\<lambda>mask.
           let pass_hash = H p;
               masked = map2 xor (take 4 pass_hash) mask @ drop 4 pass_hash
           in Inr (H (H s @ masked)))))"

definition verify_digest :: "(bytes \<Rightarrow> bytes) \<Rightarrow> py_str \<Rightarrow> py_str \<Rightarrow> bytes \<Rightarrow> bytes \<Rightarrow> unit result" where
  "verify_digest H seed passphrase pow expected =
     (if length expected \<noteq> DIGEST_LEN then Inl VerificationDigestMismatch
      else r_bind (compute_digest H seed passphrase pow) (\<lambda>actual.
        if \<not> compare_digest actual expected then Inl VerificationDigestMismatch else Inr ()))"

section \<open>The format\<close>

definition backup_blob :: "backup_header \<Rightarrow> bytes" where
  "backup_blob h = backup_aad (bh_salt h) (bh_digest h) @ be_digits 4 (length (bh_aes_blob h)) @ bh_aes_blob h"

text \<open>The headers that the writer produces: everything but salt, digest and body is fixed.\<close>

definition backup_ok :: "backup_header \<Rightarrow> bool" where
  "backup_ok h \<longleftrightarrow> length (bh_salt h) = 16 \<and> length (bh_digest h) = 32 \<and>
     28 \<le> length (bh_aes_blob h) \<and> length (bh_aes_blob h) < 256 ^ 4 \<and>
     h = \<lparr>bh_magic = MRKV_MAGIC, bh_version = 1, bh_kdf_id = 1, bh_m_cost = 47104, bh_t_cost = 1,
          bh_p_cost = 1, bh_salt = bh_salt h, bh_digest = bh_digest h, bh_aes_blob = bh_aes_blob h,
          bh_aad = backup_aad (bh_salt h) (bh_digest h)\<rparr>"

text \<open>The cost fields as the writer lays them out.\<close>

definition cost_bytes :: bytes where
  "cost_bytes = be_digits 4 47104 @ be_digits 4 1 @ be_digits 4 1"

lemma length_cost_bytes [simp]: "length cost_bytes = 12"
  by (simp add: cost_bytes_def)

lemma backup_aad_alt: "backup_aad salt digest = (MRKV_MAGIC @ [1, 1]) @ cost_bytes @ salt @ digest"
  by (simp add: backup_aad_def cost_bytes_def backup_consts)

lemma parse_kdf_costs_Inr:
  assumes "18 \<le> length blob"
  shows "parse_kdf_costs blob 1 = Inr mtp \<longleftrightarrow> mtp = (47104, 1, 1) \<and> slice 6 18 blob = cost_bytes"
proof -
  have "(from_be (slice i (i + 4) blob) = n) = (slice i (i + 4) blob = be_digits 4 n)"
    if "i + 4 \<le> length blob" "n < 256 ^ 4" for i n
    using that be_digits_from_be [of "slice i (i + 4) blob"] from_be_digits [OF that(2)] by auto
  from this [of 6 47104] this [of 10 1] this [of 14 1] assms
  have "parse_kdf_costs blob 1 = Inr mtp \<longleftrightarrow> mtp = (47104, 1, 1) \<and>
      slice 6 10 blob = be_digits 4 47104 \<and> slice 10 14 blob = be_digits 4 1 \<and> slice 14 18 blob = be_digits 4 1"
    by (auto simp: parse_kdf_costs_def Let_def assert_canonical_profile_def backup_consts)
  moreover have "slice 6 18 blob = slice 6 10 blob @ slice 10 14 blob @ slice 14 18 blob"
    by (simp add: slice_join)
  ultimately show ?thesis using assms by (auto simp: cost_bytes_def)
qed

lemma parse_backup_blob:
  assumes "backup_ok h"
  shows "parse_backup (backup_blob h) = Inr h"
proof -
  define m where "m = MRKV_MAGIC @ [1, 1 :: byte]"
  define b where "b = backup_blob h"
  have m: "length m = 6" "take 4 m = MRKV_MAGIC" "m ! 4 = 1" "m ! 5 = 1"
    by (simp_all add: m_def MRKV_MAGIC_def)
  have h: "length (bh_salt h) = 16" "length (bh_digest h) = 32" "28 \<le> length (bh_aes_blob h)"
    "length (bh_aes_blob h) < 256 ^ 4"
    using assms by (simp_all add: backup_ok_def)
  have b: "b = m @ cost_bytes @ bh_salt h @ bh_digest h @ be_digits 4 (length (bh_aes_blob h)) @ bh_aes_blob h"
    by (simp add: b_def backup_blob_def backup_aad_alt m_def)
  have "slice 0 4 b = MRKV_MAGIC" "b ! 4 = 1" "b ! 5 = 1" "slice 6 18 b = cost_bytes"
    "slice 18 34 b = bh_salt h" "slice 34 66 b = bh_digest h" "drop 70 b = bh_aes_blob h"
    "slice 66 70 b = be_digits 4 (length (bh_aes_blob h))" "length b = 70 + length (bh_aes_blob h)"
    "take 66 b = backup_aad (bh_salt h) (bh_digest h)"
    using m h(1,2) unfolding b backup_aad_alt
    by (simp_all add: slice_append_right slice_append_left slice_full nth_append m_def [symmetric])
  then show ?thesis
    using h assms parse_kdf_costs_Inr [of b "(47104, 1, 1)"] from_be_digits [OF h(4)]
    by (simp add: parse_backup_def backup_consts b_def [symmetric] backup_ok_def)
qed

lemma parse_backup_strict:
  assumes "parse_backup b = Inr h"
  shows "backup_ok h \<and> backup_blob h = b"
proof -
  from assms have c: "70 \<le> length b" "slice 0 4 b = MRKV_MAGIC" "unat (b ! 4) = 1" "unat (b ! 5) = 1"
    "parse_kdf_costs b 1 = Inr (bh_m_cost h, bh_t_cost h, bh_p_cost h)"
    "length b = 70 + from_be (slice 66 70 b)" "28 \<le> from_be (slice 66 70 b)"
    and h: "bh_magic h = MRKV_MAGIC" "bh_version h = 1" "bh_kdf_id h = 1" "bh_salt h = slice 18 34 b"
      "bh_digest h = slice 34 66 b" "bh_aes_blob h = drop 70 b" "bh_aad h = take 66 b"
    by (auto simp: parse_backup_def backup_consts Let_def result_iffs split: if_splits)
  from c(1,5) have costs: "bh_m_cost h = 47104" "bh_t_cost h = 1" "bh_p_cost h = 1" "slice 6 18 b = cost_bytes"
    using parse_kdf_costs_Inr [of b "(bh_m_cost h, bh_t_cost h, bh_p_cost h)"] by simp_all
  have "b ! 4 = 1" "b ! 5 = 1"
    using c(3,4) by (metis unsigned_1 word_unat_eq_iff)+
  then have "b = slice 0 4 b @ [1, 1] @ slice 6 18 b @ slice 18 34 b @ slice 34 66 b @ slice 66 70 b @ drop 70 b"
    using c(1) split6 [of b] by (simp add: slice_drop)
  then have "b = MRKV_MAGIC @ [1, 1] @ cost_bytes @ bh_salt h @ bh_digest h @ slice 66 70 b @ bh_aes_blob h"
    unfolding h costs(4) c(2) .
  moreover have "slice 66 70 b = be_digits 4 (length (bh_aes_blob h))"
    using c(1,6) h(6) be_digits_from_be [of "slice 66 70 b"] by simp
  ultimately have b: "b = backup_blob h"
    by (simp add: backup_blob_def backup_aad_alt)
  have "from_be (slice 66 70 b) < 256 ^ 4"
    using c(1) from_be_less [of "slice 66 70 b"] by simp
  with c have ok: "length (bh_salt h) = 16" "length (bh_digest h) = 32" "28 \<le> length (bh_aes_blob h)"
    "length (bh_aes_blob h) < 256 ^ 4"
    by (simp_all add: h)
  have "bh_aad h = backup_aad (bh_salt h) (bh_digest h)"
    using ok by (subst h(7), subst b) (simp add: backup_blob_def backup_aad_alt MRKV_MAGIC_def)
  with ok h(1-3) costs have "backup_ok h"
    by (simp add: backup_ok_def)
  with b show ?thesis by simp
qed

interpretation mrkv: strict_codec backup_ok "\<lambda>h. Inr (backup_blob h)" parse_backup
  using parse_backup_blob parse_backup_strict by unfold_locales auto

lemma parse_backup_error: "parse_backup b = Inl e \<Longrightarrow> e = BackupCorrupt"
  by (auto simp: parse_backup_def parse_kdf_costs_def assert_canonical_profile_def Let_def result_iffs
      split: if_splits)

text \<open>The backup format is canonical: the parser accepts a blob exactly when it is the layout the
  exporter writes for the parsed header, so one header has one blob; every accepted header carries
  the one key-derivation profile (46 MiB, 1, 1), at least a nonce and a tag of body, and the first
  66 bytes as associated data; everything else is \<open>BackupCorrupt\<close>, before any key derivation.\<close>

lemma parse_backup_canonical:
  "(parse_backup b = Inr h \<longleftrightarrow> backup_ok h \<and> b = backup_blob h) \<and>
   (parse_backup b = Inl BackupCorrupt \<longleftrightarrow> \<not> (\<exists>h. backup_ok h \<and> b = backup_blob h)) \<and>
   (backup_ok h \<longrightarrow> bh_m_cost h = 47104 \<and> bh_t_cost h = 1 \<and> bh_p_cost h = 1 \<and>
      bh_aad h = take 66 (backup_blob h) \<and> 28 \<le> length (bh_aes_blob h) \<and>
      length (backup_blob h) = 70 + length (bh_aes_blob h))"
proof (intro conjI impI)
  show "parse_backup b = Inr h \<longleftrightarrow> backup_ok h \<and> b = backup_blob h"
    using mrkv.dec_iff [of b h] by auto
  show "parse_backup b = Inl BackupCorrupt \<longleftrightarrow> \<not> (\<exists>h. backup_ok h \<and> b = backup_blob h)"
    using mrkv.dec_refuses [of b] parse_backup_error [of b] by auto
next
  assume ok: "backup_ok h"
  then have eq: "bh_m_cost h = 47104" "bh_t_cost h = 1" "bh_p_cost h = 1"
    "bh_aad h = backup_aad (bh_salt h) (bh_digest h)"
    by (simp_all add: backup_ok_def, (metis backup_header.select_convs)+)
  then show "bh_m_cost h = 47104" "bh_t_cost h = 1" "bh_p_cost h = 1" by simp_all
  show "bh_aad h = take 66 (backup_blob h)" "28 \<le> length (bh_aes_blob h)"
    "length (backup_blob h) = 70 + length (bh_aes_blob h)"
    using ok eq(4) by (simp_all add: backup_ok_def backup_blob_def backup_aad_alt MRKV_MAGIC_def)
qed

lemma demo_backup_header:
  "backup_ok \<lparr>bh_magic = MRKV_MAGIC, bh_version = 1, bh_kdf_id = 1, bh_m_cost = 47104, bh_t_cost = 1,
     bh_p_cost = 1, bh_salt = replicate 16 0, bh_digest = replicate 32 0, bh_aes_blob = replicate 28 0,
     bh_aad = backup_aad (replicate 16 0) (replicate 32 0)\<rparr>"
  by (simp add: backup_ok_def)

lemma parse_backup_canonical_witness:
  "\<exists>h. backup_ok h \<and> parse_backup (backup_blob h) = Inr h \<and> bh_m_cost h = 47104"
  using demo_backup_header parse_backup_canonical by blast

lemma backup_roundtrip:
  assumes "crypto_ok C K" "list_all is_scalar passphrase" "length salt = 16" "length nonce = 12"
    "length digest = 32" "length secret + 28 < 2 ^ 31"
  shows "\<exists>blob. export_backup_blob C salt nonce secret passphrase digest = Inr blob \<and>
    length blob = length secret + 98 \<and>
    import_backup C sink log blob passphrase digest = (Inr secret, log)"
proof -
  note ok = crypto_okD [OF assms(1)]
  obtain pw where pw: "utf8_encode passphrase = Inr pw" using assms(2) by (auto simp: utf8_encode_def)
  obtain kek where kek: "argon2id_raw C pw salt 1 47104 1 32 = Inr kek" "length kek = 32"
    using argon2_okE [OF ok(4), of salt 1 1 47104 32] assms(3) by auto
  let ?aad = "backup_aad salt digest"
  have aad: "length ?aad = 66" using assms by (simp add: backup_aad_alt MRKV_MAGIC_def)
  then have "sealable C nonce kek ?aad secret"
    using ok(1) kek(2) assms by (simp add: sealable_def gcm_limit_def)
  from aead_decrypt_encrypt [OF this] obtain body where body:
    "aead_encrypt C nonce kek secret ?aad = Inr body" "length body = length secret + 28"
    "aead_decrypt C kek body ?aad = Inr secret" by blast
  let ?h = "\<lparr>bh_magic = MRKV_MAGIC, bh_version = 1, bh_kdf_id = 1, bh_m_cost = 47104, bh_t_cost = 1,
     bh_p_cost = 1, bh_salt = salt, bh_digest = digest, bh_aes_blob = body, bh_aad = ?aad\<rparr>"
  have len: "length body < 256 ^ 4" using body(2) assms(6) by simp
  have "export_backup_blob C salt nonce secret passphrase digest = Inr (backup_blob ?h)"
    using assms(5) pw kek body len
    by (simp add: export_backup_blob_def derive_backup_kek_def backup_consts to_be_def backup_blob_def)
  moreover have "backup_ok ?h" using assms body len by (simp add: backup_ok_def)
  then have "parse_backup (backup_blob ?h) = Inr ?h" by (rule parse_backup_blob)
  then have "import_backup C sink log (backup_blob ?h) passphrase digest = (Inr secret, log)"
    using assms(5) pw kek body
    by (simp add: import_backup_def backup_consts compare_digest_def decrypt_body_def
        assert_canonical_profile_def derive_backup_kek_def)
  moreover have "length (backup_blob ?h) = length secret + 98"
    using aad body(2) by (simp add: backup_blob_def)
  ultimately show ?thesis by blast
qed

text \<open>A backup written by \<open>export\<close> is restored by \<open>import_backup\<close> from the same passphrase and the
  digest it was exported with: exactly the secret comes back and no audit entry is written; the blob
  is 98 bytes longer than the secret.\<close>

lemma import_after_export:
  assumes "crypto_ok C K" "list_all is_scalar passphrase" "length salt = 16" "length nonce = 12"
    "length digest = 32" "length secret + 28 < 2 ^ 31"
  shows "\<exists>blob. export_backup_blob C salt nonce secret passphrase digest = Inr blob \<and>
    length blob = length secret + 98 \<and>
    import_backup C sink log blob passphrase digest = (Inr secret, log)"
  using backup_roundtrip [OF assms] by blast

lemma import_after_export_witness:
  "\<exists>blob. export_backup_blob demo_crypto (replicate 16 1) (replicate 12 2) [1, 2, 3] [112, 119] (replicate 32 3) = Inr blob \<and>
     length blob = 101 \<and>
     import_backup demo_crypto None [] blob [112, 119] (replicate 32 3) = (Inr [1, 2, 3], [])"
  using import_after_export [OF demo_crypto_ok [of UNIV], of "[112, 119]" "replicate 16 1" "replicate 12 2"
      "replicate 32 3" "[1, 2, 3]" None "[]"]
  by (simp add: is_scalar_def is_surrogate_def)

text \<open>Verify before decrypt: when the recomputed digest is not the digest of the blob, or is not 32
  bytes, the restore raises \<open>RecoveryDigestMismatch\<close> and writes exactly one audit entry, whatever the
  passphrase and whatever the cryptographic provider would answer (none of it is called), and even
  when the sink fails.\<close>

lemma import_backup_verifies_first:
  assumes "\<And>s. sink = Some s \<Longrightarrow> operational s"
    "length recomputed \<noteq> 32 \<and> v = 0 \<or>
     length recomputed = 32 \<and> parse_backup blob = Inr h \<and> bh_digest h \<noteq> recomputed \<and> v = 1"
  shows "import_backup C sink log blob passphrase recomputed =
    (Inl RecoveryDigestMismatch, if sink = None then log else log @ [mismatch_entry v])"
proof -
  have r: "raise_mismatch sink log v =
      (Inl RecoveryDigestMismatch, if sink = None then log else log @ [mismatch_entry v])"
    using assms(1)
    by (fastforce simp: raise_mismatch_def emit_capture_def chain_and_raise_def operational_def
        split: option.splits)
  have "parse_backup blob = Inr h \<Longrightarrow> bh_version h = 1"
    using parse_backup_strict [of blob h] by (auto simp: backup_ok_def) (metis backup_header.select_convs(2))
  then show ?thesis
    using assms(2) r by (auto simp: import_backup_def backup_consts compare_digest_def)
qed

lemma import_backup_verifies_first_witness:
  "import_backup demo_crypto (Some demo_sink) [] [] [112] [1, 2] =
     (Inl RecoveryDigestMismatch, [mismatch_entry 0])"
  using import_backup_verifies_first [of "Some demo_sink" "[1, 2]" 0, where log = "[]" and blob = "[]"]
    demo_sink_operational by simp

section \<open>The digest\<close>

lemma utf8_encode_eqD:
  assumes "utf8_encode s = Inr b" "utf8_encode t = Inr b"
  shows "s = t"
proof -
  have "utf8_decode b = Inr s" "utf8_decode b = Inr t"
    using assms utf8_decode_encode by blast+
  then show ?thesis by simp
qed

lemma map2_xor_cancel:
  assumes "length xs = length ys" "length ys = length zs"
  shows "map2 xor xs zs = map2 xor ys (zs :: bytes) \<Longrightarrow> xs = ys"
  using assms
proof (induction xs ys zs rule: list_induct3)
  case (Cons x xs y ys z zs)
  have "x = xor (xor x z) z" by (simp only: xor.assoc xor_self_eq xor.right_neutral)
  also have "xor x z = xor y z" using Cons.prems by simp
  also have "xor (xor y z) z = y" by (simp only: xor.assoc xor_self_eq xor.right_neutral)
  finally show ?case using Cons.IH Cons.prems by simp
qed simp

lemma compute_digest_Inr:
  "compute_digest H seed passphrase pow = Inr d \<longleftrightarrow>
     (\<exists>s p. utf8_encode seed = Inr s \<and> utf8_encode passphrase = Inr p \<and> 4 \<le> length pow \<and>
        d = H (H s @ map2 xor (take 4 (H p)) (take 4 pow) @ drop 4 (H p)))"
  by (auto simp: compute_digest_def top4_def Let_def result_iffs)

text \<open>The verification digest binds seed and passphrase: two different (seed, passphrase) pairs with
  the same first four proof-of-work bytes never have the same digest unless the hash collides; the
  digest depends on the proof of work through its first four bytes only; and verification accepts
  exactly the computed digest, so any transcription error that changes the digest is a
  \<open>VerificationDigestMismatch\<close>.\<close>

lemma digest_binds_seed_and_passphrase:
  assumes "\<And>x. length (H x) = 32"
    "compute_digest H seed passphrase pow = Inr d" "compute_digest H seed' passphrase' pow' = Inr d'"
  shows "(take 4 pow = take 4 pow' \<longrightarrow> d = d' \<longrightarrow> (seed, passphrase) \<noteq> (seed', passphrase') \<longrightarrow>
       (\<exists>x y. x \<noteq> y \<and> H x = H y)) \<and>
     ((seed, passphrase) = (seed', passphrase') \<longrightarrow> take 4 pow = take 4 pow' \<longrightarrow> d = d') \<and>
     (verify_digest H seed passphrase pow expected = Inr () \<longleftrightarrow> expected = d) \<and>
     (verify_digest H seed passphrase pow expected = Inl VerificationDigestMismatch \<longleftrightarrow> expected \<noteq> d)"
proof -
  from assms(2) obtain s p where d: "utf8_encode seed = Inr s" "utf8_encode passphrase = Inr p" "4 \<le> length pow"
    "d = H (H s @ map2 xor (take 4 (H p)) (take 4 pow) @ drop 4 (H p))"
    by (auto simp: compute_digest_Inr)
  from assms(3) obtain s' p' where d': "utf8_encode seed' = Inr s'" "utf8_encode passphrase' = Inr p'" "4 \<le> length pow'"
    "d' = H (H s' @ map2 xor (take 4 (H p')) (take 4 pow') @ drop 4 (H p'))"
    by (auto simp: compute_digest_Inr)
  have "\<exists>x y. x \<noteq> y \<and> H x = H y"
    if same: "take 4 pow = take 4 pow'" "d = d'" and ne: "(seed, passphrase) \<noteq> (seed', passphrase')"
  proof (rule ccontr)
    assume "\<not> ?thesis"
    then have inj: "x = y" if "H x = H y" for x y using that by blast
    from same(2) d(4) d'(4) have
      "H s @ map2 xor (take 4 (H p)) (take 4 pow) @ drop 4 (H p) =
       H s' @ map2 xor (take 4 (H p')) (take 4 pow') @ drop 4 (H p')"
      using inj by metis
    then have "H s = H s'" "map2 xor (take 4 (H p)) (take 4 pow) = map2 xor (take 4 (H p')) (take 4 pow)"
      "drop 4 (H p) = drop 4 (H p')"
      using assms(1) d(3) d'(3) same(1) by (auto simp: append_eq_append_conv)
    note parts = this
    have "take 4 (H p) = take 4 (H p')"
      by (rule map2_xor_cancel [OF _ _ parts(2)]) (use assms(1) d(3) in simp_all)
    with parts(3) have "H p = H p'" by (metis append_take_drop_id)
    from inj [OF parts(1)] inj [OF this] have "s = s'" "p = p'" .
    with ne d d' show False by (auto dest: utf8_encode_eqD)
  qed
  moreover have "length d = 32" using d(4) assms(1) by simp
  then have "verify_digest H seed passphrase pow expected =
      (if expected = d then Inr () else Inl VerificationDigestMismatch)"
    using assms(2) by (auto simp: verify_digest_def backup_consts compare_digest_def)
  moreover have "d = d'" if "(seed, passphrase) = (seed', passphrase')" "take 4 pow = take 4 pow'"
    using that d(1,2) d'(1,2) unfolding d(4) d'(4) by simp
  ultimately show ?thesis by simp
qed

definition demo_hash :: "bytes \<Rightarrow> bytes" where
  "demo_hash b = fit 32 b"

lemma digest_binds_seed_and_passphrase_witness:
  "\<exists>d. compute_digest demo_hash [115] [112] [1, 2, 3, 4] = Inr d \<and>
     verify_digest demo_hash [115] [112] [1, 2, 3, 4] d = Inr () \<and>
     verify_digest demo_hash [115] [112] [1, 2, 3, 4] [] = Inl VerificationDigestMismatch"
proof -
  obtain d where d: "compute_digest demo_hash [115] [112] [1, 2, 3, 4] = Inr d"
    using compute_digest_Inr [of demo_hash "[115]" "[112]" "[1, 2, 3, 4]"]
    by (auto simp: utf8_encode_def is_scalar_def is_surrogate_def)
  have len: "length (demo_hash x) = 32" for x by (simp add: demo_hash_def)
  have "[] \<noteq> d" using d len by (auto simp: compute_digest_Inr dest: arg_cong [of _ _ length])
  then show ?thesis
    using d digest_binds_seed_and_passphrase [where H = demo_hash, OF len d d] by blast
qed

end
