(* ===== verification/Vault_Master.thy ===== *)
theory Vault_Master
  imports Backup
begin

text \<open>
  \<open>keyvault/vault_master.py\<close>: the vault's one master key, sealed twice, under the native key
  (\<open>wmk\<close>) and under the recovery passphrase (\<open>recovery\<close>), and the three ways to seal it again.
  Every random draw (master, ephemeral key, salt, nonce) is an argument.
\<close>

record sealed_master =
  sm_wmk :: bytes
  sm_recovery :: bytes

record draws =
  dr_ephemeral :: bytes
  dr_salt :: bytes
  dr_nonce :: bytes

definition recovery_digest :: "bytes \<Rightarrow> bytes" where
  "recovery_digest wmk = sha256 wmk"

definition recovery_blob_matches_wmk :: "bytes \<Rightarrow> bytes \<Rightarrow> bool result" where
  "recovery_blob_matches_wmk recovery_blob wmk =
     r_bind (parse_backup recovery_blob) (\<lambda>h. Inr (compare_digest (bh_digest h) (recovery_digest wmk)))"

definition vault_seal :: "('x) crypto_scheme \<Rightarrow> ('d, 'y) native_scheme \<Rightarrow> 'd \<Rightarrow> draws \<Rightarrow> bytes \<Rightarrow> py_str \<Rightarrow> py_str \<Rightarrow>
    (sealed_master \<times> master_key) result" where
  "vault_seal C N d r master kid passphrase =
     (if passphrase = [] then Inl ValueError
      else r_bind (wrap_dek C N d (dr_ephemeral r) master kid None) (\<lambda>wmk.
        r_bind (export_backup_blob C (dr_salt r) (dr_nonce r) master passphrase (recovery_digest wmk)) (\<lambda>rec.
          Inr (\<lparr>sm_wmk = wmk, sm_recovery = rec\<rparr>, master_new master))))"

definition open_passphrase :: "('x) crypto_scheme \<Rightarrow> bytes \<Rightarrow> py_str \<Rightarrow> bytes \<Rightarrow> master_key result" where
  "open_passphrase C recovery_blob passphrase wmk =
     r_bind (fst (import_backup C None [] recovery_blob passphrase (recovery_digest wmk)))
       (\<lambda>master. Inr (master_new master))"

definition rewrap_from_device :: "('x) crypto_scheme \<Rightarrow> ('d, 'y) native_scheme \<Rightarrow> 'd \<Rightarrow> draws \<Rightarrow> py_str \<Rightarrow> py_str \<Rightarrow>
    bytes \<Rightarrow> bytes result \<times> 'd" where
  "rewrap_from_device C N d r kid new_passphrase wmk =
     (if new_passphrase = [] then (Inl ValueError, d)
      else case unwrap_dek C N d noop_audit [] wmk kid None of (m, d', _) \<Rightarrow>
        (r_bind m (\<lambda>master.
           export_backup_blob C (dr_salt r) (dr_nonce r) master new_passphrase (recovery_digest wmk)), d'))"

text \<open>\<open>contextlib.suppress(WrapKeyAlreadyExists)\<close> around key generation.\<close>

definition ensure_wrapping_key :: "('d, 'y) native_scheme \<Rightarrow> 'd \<Rightarrow> py_str \<Rightarrow> unit result \<times> 'd" where
  "ensure_wrapping_key N d kid =
     (case generate_wrapping_key N d kid None None of
        (Inr _, d') \<Rightarrow> (Inr (), d')
      | (Inl e, d') \<Rightarrow> (if e = WrapKeyAlreadyExists then Inr () else Inl e, d'))"

definition reseal_onto_device :: "('x) crypto_scheme \<Rightarrow> ('d, 'y) native_scheme \<Rightarrow> 'd \<Rightarrow> draws \<Rightarrow> bytes \<Rightarrow> py_str \<Rightarrow>
    bytes \<Rightarrow> py_str \<Rightarrow> sealed_master result \<times> 'd" where
  "reseal_onto_device C N d r recovery_blob passphrase old_wmk kid =
     (if passphrase = [] then (Inl ValueError, d)
      else case fst (import_backup C None [] recovery_blob passphrase (recovery_digest old_wmk)) of
        Inl e \<Rightarrow> (Inl e, d)
      | Inr master \<Rightarrow>
          (case ensure_wrapping_key N d kid of
             (Inl e, d') \<Rightarrow> (Inl e, d')
           | (Inr _, d') \<Rightarrow>
               (r_bind (wrap_dek C N d' (dr_ephemeral r) master kid None) (\<lambda>wmk.
                  r_bind (export_backup_blob C (dr_salt r) (dr_nonce r) master passphrase (recovery_digest wmk)) (\<lambda>rec.
                    Inr \<lparr>sm_wmk = wmk, sm_recovery = rec\<rparr>)), d')))"

definition rewrap_from_passphrase :: "('x) crypto_scheme \<Rightarrow> draws \<Rightarrow> bytes \<Rightarrow> py_str \<Rightarrow> py_str \<Rightarrow> bytes \<Rightarrow> bytes result" where
  "rewrap_from_passphrase C r recovery_blob old_passphrase new_passphrase wmk =
     (if new_passphrase = [] then Inl ValueError
      else r_bind (fst (import_backup C None [] recovery_blob old_passphrase (recovery_digest wmk))) (\<lambda>master.
        export_backup_blob C (dr_salt r) (dr_nonce r) master new_passphrase (recovery_digest wmk)))"

section \<open>Lemmas\<close>

text \<open>Both seals of one master are consistent.\<close>

definition seals :: "('x) crypto_scheme \<Rightarrow> ('d, 'y) native_scheme \<Rightarrow> 'd \<Rightarrow> py_str \<Rightarrow> py_str \<Rightarrow> bytes \<Rightarrow> sealed_master \<Rightarrow> bool" where
  "seals C N d kid passphrase key sm \<longleftrightarrow>
     (\<exists>d'. open_master_key C N d None [] (sm_wmk sm) kid = (Inr (master_new key), d', [])) \<and>
     open_passphrase C (sm_recovery sm) passphrase (sm_wmk sm) = Inr (master_new key) \<and>
     recovery_blob_matches_wmk (sm_recovery sm) (sm_wmk sm) = Inr True"

definition draws_ok :: "bytes set \<Rightarrow> draws \<Rightarrow> bool" where
  "draws_ok K r \<longleftrightarrow> dr_ephemeral r \<in> K \<and> length (dr_salt r) = 16 \<and> length (dr_nonce r) = 12"

lemma length_recovery_digest [simp]: "length (recovery_digest wmk) = 32"
  by (simp add: recovery_digest_def)

lemma export_import_master:
  assumes "crypto_ok C K" "list_all is_scalar passphrase" "draws_ok K r" "length key = 32"
  obtains rec where
    "export_backup_blob C (dr_salt r) (dr_nonce r) key passphrase (recovery_digest wmk) = Inr rec"
    "open_passphrase C rec passphrase wmk = Inr (master_new key)"
    "recovery_blob_matches_wmk rec wmk = Inr True"
proof -
  obtain rec where rec: "export_backup_blob C (dr_salt r) (dr_nonce r) key passphrase (recovery_digest wmk) = Inr rec"
    "fst (import_backup C None [] rec passphrase (recovery_digest wmk)) = Inr key"
    using backup_roundtrip [OF assms(1,2), of "dr_salt r" "dr_nonce r" "recovery_digest wmk" key None "[]"] assms(3,4)
    by (auto simp: draws_ok_def)
  from rec(2) have "recovery_blob_matches_wmk rec wmk = Inr True"
    by (auto simp: import_backup_def recovery_blob_matches_wmk_def backup_consts raise_mismatch_def
        chain_and_raise_def split: sum.splits if_splits prod.splits)
  with rec that show ?thesis by (simp add: open_passphrase_def)
qed

lemma seals_intro:
  assumes "crypto_ok C K" "list_all is_scalar passphrase" "list_all is_scalar kid" "draws_ok K r"
    "length key = 32" "b \<in> K" "holds_key C N d kid b"
  obtains wmk rec where "wrap_dek C N d (dr_ephemeral r) key kid None = Inr wmk"
    "export_backup_blob C (dr_salt r) (dr_nonce r) key passphrase (recovery_digest wmk) = Inr rec"
    "seals C N d kid passphrase key \<lparr>sm_wmk = wmk, sm_recovery = rec\<rparr>"
proof -
  have e: "dr_ephemeral r \<in> K" using assms(4) by (simp add: draws_ok_def)
  obtain wmk d' l where w: "wrap_dek C N d (dr_ephemeral r) key kid None = Inr wmk"
    "unwrap_dek C N d noop_audit [] wmk kid None = (Inr key, d', l)"
    by (rule wrap_unwrap_noop [OF assms(1) e assms(6,7,5,3)])
  obtain rec where r: "export_backup_blob C (dr_salt r) (dr_nonce r) key passphrase (recovery_digest wmk) = Inr rec"
    "open_passphrase C rec passphrase wmk = Inr (master_new key)" "recovery_blob_matches_wmk rec wmk = Inr True"
    by (rule export_import_master [OF assms(1,2,4,5)])
  have "open_master_key C N d None [] wmk kid = (Inr (master_new key), d', [])"
    using w(2) by (simp add: open_master_key_def)
  with w r that show ?thesis by (simp add: seals_def)
qed

text \<open>The double seal and its three renewals. Sealing a fresh master gives a \<open>wmk\<close> that opens on
  the device and a recovery blob that opens with the passphrase and certifies that \<open>wmk\<close>, both to
  the same master. Changing the passphrase, authorised by the device or by the old passphrase, keeps
  \<open>wmk\<close> and the master; re-sealing onto a new device keeps the master and the passphrase and
  certifies the new \<open>wmk\<close>. An empty passphrase is always refused before any key is touched.\<close>

lemma vault_master_seals:
  assumes "crypto_ok C K" "list_all is_scalar pass" "list_all is_scalar pass'" "pass \<noteq> []" "pass' \<noteq> []"
    "list_all is_scalar kid" "draws_ok K r" "draws_ok K r'" "length key = 32" "b \<in> K" "holds_key C N d kid b"
    "b' \<in> K" "ensure_wrapping_key N' e kid = (Inr (), e')" "holds_key C N' e' kid b'"
  shows "\<exists>sm. vault_seal C N d r key kid pass = Inr (sm, master_new key) \<and> seals C N d kid pass key sm \<and>
    (\<exists>rec d'. rewrap_from_device C N d r' kid pass' (sm_wmk sm) = (Inr rec, d') \<and>
       seals C N d kid pass' key (sm\<lparr>sm_recovery := rec\<rparr>)) \<and>
    (\<exists>rec. rewrap_from_passphrase C r' (sm_recovery sm) pass pass' (sm_wmk sm) = Inr rec \<and>
       seals C N d kid pass' key (sm\<lparr>sm_recovery := rec\<rparr>)) \<and>
    (\<exists>sm'. reseal_onto_device C N' e r' (sm_recovery sm) pass (sm_wmk sm) kid = (Inr sm', e') \<and>
       seals C N' e' kid pass key sm') \<and>
    vault_seal C N d r key kid [] = Inl ValueError \<and>
    rewrap_from_device C N d r' kid [] (sm_wmk sm) = (Inl ValueError, d) \<and>
    reseal_onto_device C N' e r' (sm_recovery sm) [] (sm_wmk sm) kid = (Inl ValueError, e)"
proof -
  obtain wmk rec where s: "wrap_dek C N d (dr_ephemeral r) key kid None = Inr wmk"
    "export_backup_blob C (dr_salt r) (dr_nonce r) key pass (recovery_digest wmk) = Inr rec"
    "seals C N d kid pass key \<lparr>sm_wmk = wmk, sm_recovery = rec\<rparr>"
    by (rule seals_intro [OF assms(1,2,6,7,9,10,11)])
  from s(3) obtain d' l where u: "unwrap_dek C N d noop_audit [] wmk kid None = (Inr key, d', l)"
    and o: "open_master_key C N d None [] wmk kid = (Inr (master_new key), d', [])"
    by (auto simp: seals_def open_master_key_def result_iffs master_new_def split: prod.splits)
  have i: "fst (import_backup C None [] rec pass (recovery_digest wmk)) = Inr key"
    using s(3) by (auto simp: seals_def open_passphrase_def result_iffs master_new_def)
  obtain rec' where r: "export_backup_blob C (dr_salt r') (dr_nonce r') key pass' (recovery_digest wmk) = Inr rec'"
    "open_passphrase C rec' pass' wmk = Inr (master_new key)" "recovery_blob_matches_wmk rec' wmk = Inr True"
    by (rule export_import_master [OF assms(1,3,8,9)])
  have renewed: "seals C N d kid pass' key \<lparr>sm_wmk = wmk, sm_recovery = rec'\<rparr>"
    using o r by (simp add: seals_def)
  obtain wmk2 rec2 where s2: "wrap_dek C N' e' (dr_ephemeral r') key kid None = Inr wmk2"
    "export_backup_blob C (dr_salt r') (dr_nonce r') key pass (recovery_digest wmk2) = Inr rec2"
    "seals C N' e' kid pass key \<lparr>sm_wmk = wmk2, sm_recovery = rec2\<rparr>"
    by (rule seals_intro [OF assms(1,2,6,8,9,12,14)])
  show ?thesis
    using s u i r(1) renewed s2 assms(4,5,13)
    by (intro exI [of _ "\<lparr>sm_wmk = wmk, sm_recovery = rec\<rparr>"])
      (simp add: vault_seal_def rewrap_from_device_def rewrap_from_passphrase_def reseal_onto_device_def)
qed

lemma demo_ensure: "ensure_wrapping_key (demo_native b) () kid = (Inr (), ())"
  by (simp add: ensure_wrapping_key_def generate_wrapping_key_def demo_native_def)

definition demo_draws :: draws where
  "demo_draws = \<lparr>dr_ephemeral = [9], dr_salt = replicate 16 1, dr_nonce = replicate 12 2\<rparr>"

lemma demo_draws_ok: "draws_ok UNIV demo_draws"
  by (simp add: draws_ok_def demo_draws_def)

lemma vault_master_seals_witness:
  "\<exists>sm. vault_seal demo_crypto (demo_native [7]) () demo_draws (replicate 32 5) [107] [112] = Inr (sm, master_new (replicate 32 5)) \<and>
     seals demo_crypto (demo_native [7]) () [107] [112] (replicate 32 5) sm"
  using vault_master_seals [OF demo_crypto_ok [of UNIV] _ _ _ _ _ demo_draws_ok demo_draws_ok _ UNIV_I
      demo_native_holds UNIV_I demo_ensure demo_native_holds,
      where pass = "[112]" and pass' = "[113]" and kid = "[107]" and key = "replicate 32 5" and b = "[7]"
        and b' = "[8]"]
  by (auto simp: is_scalar_def is_surrogate_def)

end
