(* ===== verification/Py_Json.thy ===== *)
theory Py_Json
  imports Py_Text "HOL-Library.List_Lexorder" "HOL-Library.Multiset"
begin

text \<open>
  Python's \<open>json\<close> module as the codecs use it. \<open>dumps\<close> is
  \<open>json.dumps(v, separators=(",", ":"), sort_keys=True)\<close>, always ASCII; \<open>loads\<close> is
  \<open>json.loads(bytes)\<close>: detect the encoding, skip whitespace, scan one value, refuse
  trailing data. A \<open>dict\<close> is its list of items in insertion order; duplicate keys keep the
  first position and the last value. A float literal is \<open>JFloat m e\<close>, the exact decimal
  \<open>m * 10 ^ e\<close> of its text. An integer literal or repr of more than 4300 digits raises a
  plain \<open>ValueError\<close> (the interpreter's \<open>int_max_str_digits\<close>). The interpreter's own
  recursion limit is not modelled.
\<close>

datatype json =
    JNull | JBool bool | JInt int | JFloat int int | JNaN | JInf bool
  | JStr py_str | JList "json list" | JObj "(py_str \<times> json) list"

section \<open>Serialising\<close>

fun dec :: "nat \<Rightarrow> py_str" where
  "dec n = (if n < 10 then [48 + n] else dec (n div 10) @ [48 + n mod 10])"

declare dec.simps [simp del]

definition max_str_digits :: nat where
  "max_str_digits = 4300"

definition int_repr :: "int \<Rightarrow> py_str result" where
  "int_repr i =
     (if max_str_digits < length (dec (nat \<bar>i\<bar>)) then Inl ValueError
      else Inr (if i < 0 then 45 # dec (nat (- i)) else dec (nat i)))"

definition u_escape :: "nat \<Rightarrow> py_str" where
  "u_escape c = [92, 117, hex_digit (c div 4096), hex_digit (c div 256 mod 16),
     hex_digit (c div 16 mod 16), hex_digit (c mod 16)]"

text \<open>\<open>ensure_ascii\<close> (\<open>ea\<close>): whether what is not ASCII is escaped.\<close>

definition escape_char :: "bool \<Rightarrow> nat \<Rightarrow> py_str" where
  "escape_char ea c =
     (if c = 34 then [92, 34] else if c = 92 then [92, 92]
      else if c = 10 then [92, 110] else if c = 13 then [92, 114] else if c = 9 then [92, 116]
      else if c = 12 then [92, 102] else if c = 8 then [92, 98]
      else if 32 \<le> c \<and> (c \<le> 126 \<or> \<not> ea) then [c]
      else if c < 0x10000 then u_escape c
      else u_escape (0xD800 + (c - 0x10000) div 1024) @ u_escape (0xDC00 + (c - 0x10000) mod 1024))"

definition json_quote :: "bool \<Rightarrow> py_str \<Rightarrow> py_str" where
  "json_quote ea s = 34 # concat (map (escape_char ea) s) @ [34]"

text \<open>No modelled caller serialises a float, so its shortest repr is left out.\<close>

fun jprint :: "bool \<Rightarrow> json \<Rightarrow> py_str result"
  and jprint_elems :: "bool \<Rightarrow> json list \<Rightarrow> py_str result"
  and jprint_items :: "bool \<Rightarrow> (py_str \<times> json) list \<Rightarrow> py_str result" where
  "jprint ea JNull = Inr (str_lit ''null'')"
| "jprint ea (JBool b) = Inr (str_lit (if b then ''true'' else ''false''))"
| "jprint ea (JInt i) = int_repr i"
| "jprint ea (JFloat m e) = Inl (OtherError ''float repr'')"
| "jprint ea JNaN = Inl (OtherError ''float repr'')"
| "jprint ea (JInf b) = Inl (OtherError ''float repr'')"
| "jprint ea (JStr s) = Inr (json_quote ea s)"
| "jprint ea (JList js) = r_bind (jprint_elems ea js) (\<lambda>t. Inr (91 # t @ [93]))"
| "jprint ea (JObj kvs) = r_bind (jprint_items ea kvs) (\<lambda>t. Inr (123 # t @ [125]))"
| "jprint_elems ea [] = Inr []"
| "jprint_elems ea (j # js) =
     r_bind (jprint ea j) (\<lambda>t. r_bind (jprint_elems ea js)
       (\<lambda>u. Inr (t @ (if js = [] then [] else 44 # u))))"
| "jprint_items ea [] = Inr []"
| "jprint_items ea ((k, j) # kvs) =
     r_bind (jprint ea j) (\<lambda>t. r_bind (jprint_items ea kvs)
       (\<lambda>u. Inr (json_quote ea k @ 58 # t @ (if kvs = [] then [] else 44 # u))))"

fun sort_json :: "json \<Rightarrow> json" where
  "sort_json (JList js) = JList (map sort_json js)"
| "sort_json (JObj kvs) = JObj (sort_key fst (map (\<lambda>(k, j). (k, sort_json j)) kvs))"
| "sort_json j = j"

definition dumps :: "json \<Rightarrow> bytes result" where
  "dumps j = r_bind (jprint True (sort_json j)) (\<lambda>t. Inr (ascii_bytes t))"

section \<open>Scanning\<close>

definition is_json_ws :: "nat \<Rightarrow> bool" where
  "is_json_ws c \<longleftrightarrow> c = 32 \<or> c = 9 \<or> c = 10 \<or> c = 13"

abbreviation skip_ws :: "py_str \<Rightarrow> py_str" where
  "skip_ws \<equiv> dropWhile is_json_ws"

definition is_digit :: "nat \<Rightarrow> bool" where
  "is_digit c \<longleftrightarrow> 48 \<le> c \<and> c \<le> 57"

definition digits_value :: "py_str \<Rightarrow> nat" where
  "digits_value ds = foldl (\<lambda>n d. 10 * n + (d - 48)) 0 ds"

definition hex4 :: "nat \<Rightarrow> nat \<Rightarrow> nat \<Rightarrow> nat \<Rightarrow> nat option" where
  "hex4 a b c d = (case (hex_value a, hex_value b, hex_value c, hex_value d) of
       (Some w, Some x, Some y, Some z) \<Rightarrow> Some (((w * 16 + x) * 16 + y) * 16 + z)
     | _ \<Rightarrow> None)"

definition unescape1 :: "nat \<Rightarrow> nat option" where
  "unescape1 c =
     (if c = 34 then Some 34 else if c = 92 then Some 92 else if c = 47 then Some 47
      else if c = 98 then Some 8 else if c = 102 then Some 12 else if c = 110 then Some 10
      else if c = 114 then Some 13 else if c = 116 then Some 9 else None)"

definition is_high :: "nat \<Rightarrow> bool" where
  "is_high c \<longleftrightarrow> 0xD800 \<le> c \<and> c \<le> 0xDBFF"

definition is_low :: "nat \<Rightarrow> bool" where
  "is_low c \<longleftrightarrow> 0xDC00 \<le> c \<and> c \<le> 0xDFFF"

text \<open>
  The body of a string, from after its opening quote. \<open>high\<close> is a pending high surrogate
  from a \<open>u\<close> escape: the next \<open>u\<close> escape completes it when it is a low surrogate.
\<close>

definition flush_high :: "nat option \<Rightarrow> py_str" where
  "flush_high high = (case high of None \<Rightarrow> [] | Some h \<Rightarrow> [h])"

definition join_pair :: "nat \<Rightarrow> nat \<Rightarrow> nat" where
  "join_pair h l = 0x10000 + (h - 0xD800) * 1024 + (l - 0xDC00)"

definition emit :: "py_str \<Rightarrow> (py_str \<times> py_str) result \<Rightarrow> (py_str \<times> py_str) result" where
  "emit cs m = r_bind m (\<lambda>(t, rest). Inr (cs @ t, rest))"

fun scan_string :: "nat option \<Rightarrow> py_str \<Rightarrow> (py_str \<times> py_str) result" where
  "scan_string high [] = Inl JSONDecodeError"
| "scan_string high (c # s) =
     (if c = 34 then Inr (flush_high high, s)
      else if c = 92 then
        (case s of
           e # s1 \<Rightarrow>
             (if e = 117 then
                (case s1 of
                   h1 # h2 # h3 # h4 # s5 \<Rightarrow>
                     (case hex4 h1 h2 h3 h4 of
                        None \<Rightarrow> Inl JSONDecodeError
                      | Some u \<Rightarrow>
                          (case high of
                             Some h \<Rightarrow>
                               (if is_low u then emit [join_pair h u] (scan_string None s5)
                                else if is_high u then emit [h] (scan_string (Some u) s5)
                                else emit [h, u] (scan_string None s5))
                           | None \<Rightarrow>
                               (if is_high u then scan_string (Some u) s5
                                else emit [u] (scan_string None s5))))
                 | _ \<Rightarrow> Inl JSONDecodeError)
              else
                (case unescape1 e of
                   None \<Rightarrow> Inl JSONDecodeError
                 | Some u \<Rightarrow> emit (flush_high high @ [u]) (scan_string None s1)))
         | [] \<Rightarrow> Inl JSONDecodeError)
      else if c < 32 then Inl JSONDecodeError
      else emit (flush_high high @ [c]) (scan_string None s))"


text \<open>
  \<open>_match_number\<close>: sign, integer part without leading zeros, then a fraction and an exponent
  only when they have a digit. \<open>None\<close> is the scanner's "expecting value".
\<close>

definition split_digits :: "py_str \<Rightarrow> py_str \<times> py_str" where
  "split_digits s = (takeWhile is_digit s, dropWhile is_digit s)"

definition scan_frac :: "py_str \<Rightarrow> py_str \<times> py_str" where
  "scan_frac s = (case s of
       c # s1 \<Rightarrow> (if c = 46 \<and> fst (split_digits s1) \<noteq> [] then split_digits s1 else ([], s))
     | [] \<Rightarrow> ([], s))"

definition scan_exp :: "py_str \<Rightarrow> int option \<times> py_str" where
  "scan_exp s = (case s of
       c # s1 \<Rightarrow>
         (if c = 101 \<or> c = 69 then
            (let neg = (case s1 of d # _ \<Rightarrow> d = 45 | [] \<Rightarrow> False);
                 s2 = (case s1 of d # s' \<Rightarrow> if d = 45 \<or> d = 43 then s' else s1 | [] \<Rightarrow> s1);
                 (ds, s3) = split_digits s2
             in if ds = [] then (None, s)
                else (Some (if neg then - int (digits_value ds) else int (digits_value ds)), s3))
          else (None, s))
     | [] \<Rightarrow> (None, s))"

definition number_value :: "bool \<Rightarrow> py_str \<Rightarrow> py_str \<Rightarrow> int option \<Rightarrow> json result" where
  "number_value neg ds fs ex =
     (if fs = [] \<and> ex = None then
        (if max_str_digits < length ds then Inl ValueError
         else Inr (JInt (if neg then - int (digits_value ds) else int (digits_value ds))))
      else
        (let m = int (digits_value (ds @ fs))
         in Inr (JFloat (if neg then - m else m)
              ((case ex of None \<Rightarrow> 0 | Some e \<Rightarrow> e) - int (length fs)))))"

definition scan_number :: "bool \<Rightarrow> py_str \<Rightarrow> (json \<times> py_str) result" where
  "scan_number neg s =
     (let (ds, s1) = (case s of
          c # s' \<Rightarrow> (if c = 48 then ([48], s') else split_digits s)
        | [] \<Rightarrow> ([], s))
      in if ds = [] then Inl JSONDecodeError
         else (let (fs, s2) = scan_frac s1; (ex, s3) = scan_exp s2
               in r_bind (number_value neg ds fs ex) (\<lambda>j. Inr (j, s3))))"

text \<open>A literal word at the head of the text.\<close>

definition starts_with :: "string \<Rightarrow> py_str \<Rightarrow> bool" where
  "starts_with w s \<longleftrightarrow> take (length w) s = str_lit w"

text \<open>\<open>dict(pairs)\<close>.\<close>

fun dict_put :: "'k \<Rightarrow> 'v \<Rightarrow> ('k \<times> 'v) list \<Rightarrow> ('k \<times> 'v) list" where
  "dict_put k v [] = [(k, v)]"
| "dict_put k v ((k', v') # d) = (if k' = k then (k, v) # d else (k', v') # dict_put k v d)"

definition dict_of_pairs :: "('k \<times> 'v) list \<Rightarrow> ('k \<times> 'v) list" where
  "dict_of_pairs ps = foldl (\<lambda>d (k, v). dict_put k v d) [] ps"

text \<open>
  \<open>scan_once\<close> on the text from its first character; \<open>scan_elems\<close> and \<open>scan_members\<close> start
  at an element or a key and end after the closing bracket. The fuel bounds the nesting of
  calls: twice the length of the text is enough (\<open>scan_fuel_enough\<close>).
\<close>

text \<open>The scanner makes an object from its pairs by the hook \<open>hk\<close>: \<open>dict\<close>, or the \<open>object_pairs_hook\<close> of the call.\<close>

definition as_dict :: "(py_str \<times> json) list \<Rightarrow> json result" where
  "as_dict kvs = Inr (JObj (dict_of_pairs kvs))"

fun scan_value :: "((py_str \<times> json) list \<Rightarrow> json result) \<Rightarrow> nat \<Rightarrow> py_str \<Rightarrow> (json \<times> py_str) result"
  and scan_elems :: "((py_str \<times> json) list \<Rightarrow> json result) \<Rightarrow> nat \<Rightarrow> py_str \<Rightarrow> (json list \<times> py_str) result"
  and scan_members :: "((py_str \<times> json) list \<Rightarrow> json result) \<Rightarrow> nat \<Rightarrow> py_str \<Rightarrow> ((py_str \<times> json) list \<times> py_str) result" where
  "scan_value hk 0 s = Inl (OtherError ''fuel'')"
| "scan_value hk (Suc n) s =
     (case s of
        [] \<Rightarrow> Inl JSONDecodeError
      | c # s1 \<Rightarrow>
          (if c = 34 then r_bind (scan_string None s1) (\<lambda>(t, r). Inr (JStr t, r))
           else if c = 123 then
             (case skip_ws s1 of
                d # s2 \<Rightarrow>
                  (if d = 125 then r_bind (hk []) (\<lambda>j. Inr (j, s2))
                   else r_bind (scan_members hk n (d # s2)) (\<lambda>(kvs, r). r_bind (hk kvs) (\<lambda>j. Inr (j, r))))
              | [] \<Rightarrow> Inl JSONDecodeError)
           else if c = 91 then
             (case skip_ws s1 of
                d # s2 \<Rightarrow>
                  (if d = 93 then Inr (JList [], s2)
                   else r_bind (scan_elems hk n (d # s2)) (\<lambda>(js, r). Inr (JList js, r)))
              | [] \<Rightarrow> Inl JSONDecodeError)
           else if starts_with ''null'' s then Inr (JNull, drop 4 s)
           else if starts_with ''true'' s then Inr (JBool True, drop 4 s)
           else if starts_with ''false'' s then Inr (JBool False, drop 5 s)
           else if starts_with ''NaN'' s then Inr (JNaN, drop 3 s)
           else if starts_with ''Infinity'' s then Inr (JInf False, drop 8 s)
           else if starts_with ''-Infinity'' s then Inr (JInf True, drop 9 s)
           else if c = 45 then scan_number True s1
           else scan_number False s))"
| "scan_elems hk 0 s = Inl (OtherError ''fuel'')"
| "scan_elems hk (Suc n) s =
     r_bind (scan_value hk n s) (\<lambda>(j, r).
       (case skip_ws r of
          d # r1 \<Rightarrow>
            (if d = 93 then Inr ([j], r1)
             else if d = 44 then r_bind (scan_elems hk n (skip_ws r1)) (\<lambda>(js, r'). Inr (j # js, r'))
             else Inl JSONDecodeError)
        | [] \<Rightarrow> Inl JSONDecodeError))"
| "scan_members hk 0 s = Inl (OtherError ''fuel'')"
| "scan_members hk (Suc n) s =
     (case s of
        q # s1 \<Rightarrow>
          (if q \<noteq> 34 then Inl JSONDecodeError
           else r_bind (scan_string None s1) (\<lambda>(k, r).
             (case skip_ws r of
                d # r1 \<Rightarrow>
                  (if d \<noteq> 58 then Inl JSONDecodeError
                   else r_bind (scan_value hk n (skip_ws r1)) (\<lambda>(j, r2).
                     (case skip_ws r2 of
                        e # r3 \<Rightarrow>
                          (if e = 125 then Inr ([(k, j)], r3)
                           else if e = 44 then
                             r_bind (scan_members hk n (skip_ws r3)) (\<lambda>(kvs, r'). Inr ((k, j) # kvs, r'))
                           else Inl JSONDecodeError)
                      | [] \<Rightarrow> Inl JSONDecodeError)))
              | [] \<Rightarrow> Inl JSONDecodeError)))
      | [] \<Rightarrow> Inl JSONDecodeError)"

text \<open>\<open>JSONDecoder.decode\<close>, with the check that a subclass's \<open>raw_decode\<close> makes first.\<close>

definition decode_with :: "((py_str \<times> json) list \<Rightarrow> json result) \<Rightarrow> (py_str \<Rightarrow> exn option) \<Rightarrow> py_str \<Rightarrow> json result" where
  "decode_with hk check s =
     (let s1 = skip_ws s
      in case check s1 of
           Some e \<Rightarrow> Inl e
         | None \<Rightarrow>
             r_bind (scan_value hk (2 * length s1 + 2) s1) (\<lambda>(j, r).
               if skip_ws r = [] then Inr j else Inl JSONDecodeError))"

definition loads_with :: "((py_str \<times> json) list \<Rightarrow> json result) \<Rightarrow> (py_str \<Rightarrow> exn option) \<Rightarrow> bytes \<Rightarrow> json result" where
  "loads_with hk check bs = r_bind (json_text bs) (decode_with hk check)"

definition loads :: "bytes \<Rightarrow> json result" where
  "loads = loads_with as_dict (\<lambda>_. None)"

section \<open>Python values of parsed JSON\<close>

text \<open>\<open>parsed.get(k)\<close> of a \<open>dict\<close>, with JSON's \<open>null\<close> and a missing key both \<open>None\<close>.\<close>

definition obj_get :: "(py_str \<times> json) list \<Rightarrow> string \<Rightarrow> json" where
  "obj_get kvs k = (case map_of kvs (str_lit k) of None \<Rightarrow> JNull | Some j \<Rightarrow> j)"

text \<open>
  \<open>v == 1\<close>: \<open>True == 1\<close>, and a float equals 1 when its decimal text rounds to 1.0, that is
  lies between \<open>1 - 2 ^ -54\<close> and \<open>1 + 2 ^ -53\<close>.
\<close>

definition json_eq_1 :: "json \<Rightarrow> bool" where
  "json_eq_1 j = (case j of
       JBool b \<Rightarrow> b
     | JInt i \<Rightarrow> i = 1
     | JFloat m e \<Rightarrow>
         (if 0 \<le> e then m * 10 ^ nat e = 1
          else (2 ^ 54 - 1) * 10 ^ nat (- e) \<le> m * 2 ^ 54
             \<and> m * 2 ^ 53 \<le> (2 ^ 53 + 1) * 10 ^ nat (- e))
     | _ \<Rightarrow> False)"

text \<open>A non-negative \<open>int\<close> that is not a \<open>bool\<close>.\<close>

definition json_nat :: "json \<Rightarrow> nat option" where
  "json_nat j = (case j of JInt i \<Rightarrow> if i < 0 then None else Some (nat i) | _ \<Rightarrow> None)"

definition json_str :: "json \<Rightarrow> py_str option" where
  "json_str j = (case j of JStr s \<Rightarrow> Some s | _ \<Rightarrow> None)"


section \<open>Round trip\<close>

text \<open>
  What \<open>dumps\<close> followed by \<open>loads\<close> gives back unchanged: no lone surrogate in a string
  (an escaped high and low surrogate would come back as one character), no duplicate key,
  no float.
\<close>

fun json_ok :: "json \<Rightarrow> bool" where
  "json_ok (JStr s) = list_all is_scalar s"
| "json_ok (JList js) = (\<forall>j \<in> set js. json_ok j)"
| "json_ok (JObj kvs) =
     (distinct (map fst kvs) \<and> (\<forall>(k, j) \<in> set kvs. list_all is_scalar k \<and> json_ok j))"
| "json_ok (JFloat _ _) = False"
| "json_ok JNaN = False"
| "json_ok (JInf _) = False"
| "json_ok _ = True"

lemma str_lit_simps [simp]:
  "str_lit [] = []" "str_lit (c # cs) = of_char c # str_lit cs"
  by (simp_all add: str_lit_def)

lemma length_str_lit [simp]: "length (str_lit s) = length s"
  by (simp add: str_lit_def)

subsection \<open>Strings\<close>

lemma hex4_digits:
  assumes "u < 65536"
  shows "hex4 (hex_digit (u div 4096)) (hex_digit (u div 256 mod 16))
           (hex_digit (u div 16 mod 16)) (hex_digit (u mod 16)) = Some u"
proof -
  have "u div 4096 < 16" using assms by auto
  moreover have "((u div 4096 * 16 + u div 256 mod 16) * 16 + u div 16 mod 16) * 16 + u mod 16 = u"
  proof -
    have "u div 4096 = u div 256 div 16" "u div 256 = u div 16 div 16"
      by (simp_all add: div_mult2_eq [symmetric])
    then show ?thesis by (simp only: div_mult_mod_eq)
  qed
  ultimately show ?thesis by (simp add: hex4_def hex_value_digit)
qed

lemma scan_u_escape:
  assumes "u < 65536"
  shows "scan_string high (u_escape u @ r) =
    (case high of
       Some h \<Rightarrow>
         (if is_low u then emit [join_pair h u] (scan_string None r)
          else if is_high u then emit [h] (scan_string (Some u) r)
          else emit [h, u] (scan_string None r))
     | None \<Rightarrow>
         (if is_high u then scan_string (Some u) r
          else emit [u] (scan_string None r)))"
  using hex4_digits [OF assms] by (simp add: u_escape_def split: option.split)

lemma scan_escape_char:
  assumes "is_scalar c"
  shows "scan_string None (escape_char ea c @ r) = emit [c] (scan_string None r)"
proof -
  have c: "c \<le> 1114111" "\<not> is_surrogate c" using assms by (simp_all add: is_scalar_def)
  consider "c \<in> {34, 92, 10, 13, 9, 12, 8}"
    | "c \<notin> {34, 92, 10, 13, 9, 12, 8}" "32 \<le> c" "c \<le> 126 \<or> \<not> ea"
    | "c \<notin> {34, 92, 10, 13, 9, 12, 8}" "\<not> (32 \<le> c \<and> (c \<le> 126 \<or> \<not> ea))" "c < 65536"
    | "65536 \<le> c" ea
    by fastforce
  then show ?thesis
  proof cases
    case 1
    then show ?thesis
      by (elim insertE) (simp_all add: escape_char_def unescape1_def flush_high_def)
  next
    case 2
    then show ?thesis by (simp add: escape_char_def flush_high_def)
  next
    case 3
    then have "escape_char ea c = u_escape c" by (auto simp: escape_char_def)
    moreover have "\<not> is_high c" using c by (auto simp: is_high_def is_surrogate_def)
    ultimately show ?thesis using 3 by (simp add: scan_u_escape)
  next
    case 4
    let ?h = "55296 + (c - 65536) div 1024" and ?l = "56320 + (c - 65536) mod 1024"
    have e: "escape_char ea c = u_escape ?h @ u_escape ?l"
      using 4 by (simp add: escape_char_def)
    have "(c - 65536) div 1024 < 1024" using c by auto
    moreover have "(c - 65536) mod 1024 < 1024" by simp
    ultimately have b: "?h < 65536" "?l < 65536" "is_high ?h" "is_low ?l"
      by (simp_all add: is_high_def is_low_def)
    have "join_pair ?h ?l = c" using 4 by (simp add: join_pair_def)
    then show ?thesis
      using b by (simp add: e scan_u_escape)
  qed
qed

lemma emit_emit: "emit a (emit b m) = emit (a @ b) m"
  by (cases m) (auto simp: emit_def)

lemma scan_string_quote:
  "list_all is_scalar s \<Longrightarrow> scan_string None (concat (map (escape_char ea) s) @ 34 # r) = Inr (s, r)"
proof (induction s)
  case Nil
  then show ?case by (simp add: flush_high_def)
next
  case (Cons c s)
  then show ?case by (simp add: scan_escape_char emit_def)
qed

subsection \<open>Numbers\<close>

lemma dec_digits: "\<forall>d \<in> set (dec n). is_digit d" "dec n \<noteq> []"
proof (induction n rule: dec.induct)
  case (1 n)
  case 1 show ?case
  proof (cases "n < 10")
    case True
    then show ?thesis by (subst dec.simps) (simp add: is_digit_def)
  next
    case False
    then have "n mod 10 < 10" by simp
    then have "is_digit (48 + n mod 10)" by (simp only: is_digit_def) linarith
    with False "1.IH" show ?thesis by (subst dec.simps) auto
  qed
  case 2 show ?case by (subst dec.simps) simp
qed

lemma digits_value_dec: "digits_value (dec n) = n"
proof (induction n rule: dec.induct)
  case (1 n)
  then show ?case
    by (cases "n < 10") (simp_all add: dec.simps [of n] digits_value_def)
qed

lemma dec_hd_zero: "hd (dec n) = 48 \<longleftrightarrow> n = 0"
proof (induction n rule: dec.induct)
  case (1 n)
  show ?case
  proof (cases "n < 10")
    case False
    then have "hd (dec n) = hd (dec (n div 10))" by (simp add: dec.simps [of n] dec_digits)
    with False 1 show ?thesis by simp
  qed (simp add: dec.simps)
qed

definition delim :: "py_str \<Rightarrow> bool" where
  "delim r \<longleftrightarrow> r = [] \<or> hd r \<in> {44, 93, 125}"

lemma split_digits_append:
  assumes "\<forall>d \<in> set ds. is_digit d" and "delim r"
  shows "split_digits (ds @ r) = (ds, r)"
proof -
  have "takeWhile is_digit r = []" "dropWhile is_digit r = r"
    using assms(2) by (cases r; auto simp: delim_def is_digit_def)+
  then show ?thesis
    using assms(1) by (simp add: split_digits_def takeWhile_append2 dropWhile_append2)
qed

lemma scan_frac_delim: "delim r \<Longrightarrow> scan_frac r = ([], r)"
  by (cases r) (auto simp: scan_frac_def delim_def)

lemma scan_exp_delim: "delim r \<Longrightarrow> scan_exp r = (None, r)"
  by (cases r) (auto simp: scan_exp_def delim_def)

lemma scan_number_dec:
  assumes "delim r" and "length (dec n) \<le> max_str_digits"
  shows "scan_number neg (dec n @ r) = Inr (JInt (if neg then - int n else int n), r)"
proof -
  have "(case dec n @ r of c # s' \<Rightarrow> if c = 48 then ([48], s') else split_digits (dec n @ r)
      | [] \<Rightarrow> ([], dec n @ r)) = (dec n, r)"
  proof (cases "n = 0")
    case True
    then show ?thesis by (simp add: dec.simps)
  next
    case False
    then have "hd (dec n) \<noteq> 48" by (simp add: dec_hd_zero)
    then show ?thesis
      using split_digits_append [OF dec_digits(1) assms(1), of n] dec_digits(2) [of n]
      by (cases "dec n") auto
  qed
  then show ?thesis
    using assms dec_digits(2) [of n]
    by (simp add: scan_number_def scan_frac_delim scan_exp_delim number_value_def digits_value_dec
        del: list.case)
qed


subsection \<open>Values\<close>

text \<open>The first character of a printed value selects the scanner's branch.\<close>

definition value_head :: "nat \<Rightarrow> bool" where
  "value_head c \<longleftrightarrow> c \<in> {34, 91, 123, 110, 116, 102, 45} \<or> is_digit c"

lemma dec_head: "\<exists>d ds. dec n = d # ds \<and> is_digit d"
  using dec_digits [of n] by (cases "dec n") auto

lemma int_repr_head: "int_repr i = Inr t \<Longrightarrow> \<exists>c u. t = c # u \<and> value_head c"
  using dec_head [of "nat (- i)"] dec_head [of "nat i"]
  by (auto simp: int_repr_def value_head_def split: if_splits)

lemma jprint_head: "jprint ea j = Inr t \<Longrightarrow> \<exists>c u. t = c # u \<and> value_head c"
  using int_repr_head
  by (cases j) (auto simp: value_head_def json_quote_def r_bind_Inr_iff split: if_splits)

lemma value_head_props:
  "value_head c \<Longrightarrow> \<not> is_json_ws c \<and> c \<noteq> 93 \<and> c \<noteq> 125"
  by (auto simp: value_head_def is_json_ws_def is_digit_def)

lemma skip_ws_value: "jprint ea j = Inr t \<Longrightarrow> skip_ws (t @ r) = t @ r"
  using jprint_head [of ea j t] value_head_props by auto

lemma starts_with_other: "c \<noteq> of_char w \<Longrightarrow> \<not> starts_with (w # ws) (c # s)"
  by (simp add: starts_with_def)

lemma scan_value_digit:
  assumes "is_digit c"
  shows "scan_value hk (Suc n) (c # s) = scan_number False (c # s)"
  using assms by (auto simp: is_digit_def starts_with_other)

lemma scan_value_minus:
  assumes "is_digit c"
  shows "scan_value hk (Suc n) (45 # c # s) = scan_number True (c # s)"
  using assms by (auto simp: is_digit_def starts_with_def)

lemma scan_int_repr:
  assumes "int_repr i = Inr t" and "delim r"
  shows "scan_value hk (Suc n) (t @ r) = Inr (JInt i, r)"
proof (cases "i < 0")
  case True
  with assms(1) have t: "t = 45 # dec (nat (- i))" "length (dec (nat (- i))) \<le> max_str_digits"
    by (auto simp: int_repr_def split: if_splits)
  obtain d ds where d: "dec (nat (- i)) = d # ds" "is_digit d" using dec_head by blast
  from scan_number_dec [OF assms(2) t(2), of True] True d t(1) show ?thesis
    by (simp del: scan_value.simps add: scan_value_minus)
next
  case False
  with assms(1) have t: "t = dec (nat i)" "length (dec (nat i)) \<le> max_str_digits"
    by (auto simp: int_repr_def split: if_splits)
  obtain d ds where d: "dec (nat i) = d # ds" "is_digit d" using dec_head by blast
  from scan_number_dec [OF assms(2) t(2), of False] False d t(1) show ?thesis
    by (simp del: scan_value.simps add: scan_value_digit)
qed

lemma scan_quote_key:
  "list_all is_scalar k \<Longrightarrow> \<exists>s. json_quote ea k @ r = 34 # s \<and> scan_string None s = Inr (k, r)"
  using scan_string_quote [of k ea r] by (auto simp: json_quote_def)

lemma map_of_dict_put: "map_of (dict_put k v d) = (map_of d)(k \<mapsto> v)"
  by (induction d) (auto simp: fun_eq_iff)

lemma dict_put_fresh: "k \<notin> fst ` set d \<Longrightarrow> dict_put k v d = d @ [(k, v)]"
  by (induction d) auto

lemma dict_of_pairs_distinct: "distinct (map fst ps) \<Longrightarrow> dict_of_pairs ps = ps"
proof (induction ps rule: rev_induct)
  case (snoc p ps)
  then show ?case
    by (cases p) (simp add: dict_of_pairs_def dict_put_fresh)
qed (simp add: dict_of_pairs_def)

lemma delim_simps [simp]: "delim []" "delim (44 # s)" "delim (93 # s)" "delim (125 # s)"
  by (simp_all add: delim_def)

lemma skip_ws_quote: "skip_ws (json_quote ea k @ r) = json_quote ea k @ r"
  by (simp add: json_quote_def is_json_ws_def)

lemma json_ws_punct [simp]:
  "\<not> is_json_ws 44" "\<not> is_json_ws 93" "\<not> is_json_ws 125" "\<not> is_json_ws 58"
  by (simp_all add: is_json_ws_def)

lemma jprint_elems_skip: "jprint_elems ea js = Inr t \<Longrightarrow> skip_ws (t @ 93 # r) = t @ 93 # r"
  by (cases js) (auto simp: r_bind_Inr_iff skip_ws_value)

lemma jprint_items_skip: "jprint_items ea kvs = Inr t \<Longrightarrow> skip_ws (t @ 125 # r) = t @ 125 # r"
  by (cases kvs) (auto simp: r_bind_Inr_iff json_quote_def is_json_ws_def)

text \<open>A hook that makes a plain object of distinct keys.\<close>

definition hook_ok :: "((py_str \<times> json) list \<Rightarrow> json result) \<Rightarrow> bool" where
  "hook_ok hk \<longleftrightarrow> (\<forall>kvs. distinct (map fst kvs) \<longrightarrow> hk kvs = Inr (JObj kvs))"

lemma as_dict_ok [simp]: "hook_ok as_dict"
  by (simp add: hook_ok_def as_dict_def dict_of_pairs_distinct)

lemma scan_jprint:
  assumes hk: "hook_ok hk"
  shows "jprint ea j = Inr t \<Longrightarrow> json_ok j \<Longrightarrow> delim r \<Longrightarrow> 2 * length t \<le> n \<Longrightarrow>
     scan_value hk (Suc n) (t @ r) = Inr (j, r)"
  and "jprint_elems ea js = Inr t \<Longrightarrow> js \<noteq> [] \<Longrightarrow> \<forall>j \<in> set js. json_ok j \<Longrightarrow> 2 * length t + 1 \<le> n \<Longrightarrow>
     scan_elems hk (Suc n) (t @ 93 # r) = Inr (js, r)"
  and "jprint_items ea kvs = Inr t \<Longrightarrow> kvs \<noteq> [] \<Longrightarrow>
     \<forall>(k, j) \<in> set kvs. list_all is_scalar k \<and> json_ok j \<Longrightarrow> 2 * length t + 1 \<le> n \<Longrightarrow>
     scan_members hk (Suc n) (t @ 125 # r) = Inr (kvs, r)"
proof (induction ea j and ea js and ea kvs arbitrary: t r n and t r n and t r n
    rule: jprint_jprint_elems_jprint_items.induct)
  case 1
  then show ?case by (auto simp: starts_with_def)
next
  case (2 ea b)
  then show ?case by (auto simp: starts_with_def)
next
  case (3 ea i)
  then show ?case using scan_int_repr by auto
next
  case (4 ea m e)
  then show ?case by simp
next
  case 5
  then show ?case by simp
next
  case (6 ea b)
  then show ?case by simp
next
  case (7 ea s)
  then obtain u where "t @ r = 34 # u" "scan_string None u = Inr (s, r)"
    using scan_quote_key [of s ea r] by auto
  then show ?case by simp
next
  case (8 ea js)
  then obtain u where u: "jprint_elems ea js = Inr u" "t = 91 # u @ [93]"
    by (auto simp: r_bind_Inr_iff)
  show ?case
  proof (cases "js = []")
    case True
    with u show ?thesis by simp
  next
    case False
    then obtain j js' where "js = j # js'" by (cases js) auto
    with u(1) obtain c v where c: "u = c # v" "value_head c"
      using jprint_head by (fastforce simp: r_bind_Inr_iff)
    obtain m where n: "n = Suc m" using 8 u by (cases n) auto
    have "scan_elems hk n (u @ 93 # r) = Inr (js, r)"
      unfolding n by (rule "8.IH") (use 8 u False n in auto)
    then show ?thesis using c value_head_props [OF c(2)] u by simp
  qed
next
  case (9 ea kvs)
  then have h: "hk kvs = Inr (JObj kvs)" using hk by (simp add: hook_ok_def)
  from 9 obtain u where u: "jprint_items ea kvs = Inr u" "t = 123 # u @ [125]"
    by (auto simp: r_bind_Inr_iff)
  show ?case
  proof (cases "kvs = []")
    case True
    with u h show ?thesis by simp
  next
    case False
    then obtain k j kvs' where "kvs = (k, j) # kvs'" by (cases kvs) auto
    with u(1) obtain v where c: "u = 34 # v"
      by (auto simp: r_bind_Inr_iff json_quote_def)
    obtain m where n: "n = Suc m" using 9 u by (cases n) auto
    have "scan_members hk n (u @ 125 # r) = Inr (kvs, r)"
      unfolding n by (rule "9.IH") (use 9 u False n in auto)
    then show ?thesis using c u h by (simp add: is_json_ws_def)
  qed
next
  case 10
  then show ?case by simp
next
  case (11 ea j js)
  then obtain u v where u: "jprint ea j = Inr u" "jprint_elems ea js = Inr v"
    "t = u @ (if js = [] then [] else 44 # v)"
    by (auto simp: r_bind_Inr_iff)
  obtain m where n: "n = Suc m" using 11 by (cases n) auto
  have one: "scan_value hk n (u @ s) = Inr (j, s)" if "delim s" for s
    unfolding n by (rule "11.IH"(1)) (use 11 u that n in \<open>auto split: if_splits\<close>)
  show ?case
  proof (cases "js = []")
    case True
    with u one show ?thesis by simp
  next
    case False
    have "scan_elems hk n (v @ 93 # r) = Inr (js, r)"
      unfolding n by (rule "11.IH"(2)) (use 11 u False n in auto)
    with False u one show ?thesis by (simp add: jprint_elems_skip)
  qed
next
  case 12
  then show ?case by simp
next
  case (13 ea k j kvs)
  then obtain u v where u: "jprint ea j = Inr u" "jprint_items ea kvs = Inr v"
    "t = json_quote ea k @ 58 # u @ (if kvs = [] then [] else 44 # v)"
    by (auto simp: r_bind_Inr_iff)
  obtain m where n: "n = Suc m" using 13 by (cases n) auto
  have one: "scan_value hk n (u @ s) = Inr (j, s)" if "delim s" for s
    unfolding n by (rule "13.IH"(1)) (use 13 u that n in \<open>auto split: if_splits\<close>)
  obtain w where w: "t @ 125 # r = 34 # w"
    "scan_string None w = Inr (k, 58 # u @ (if kvs = [] then [] else 44 # v) @ 125 # r)"
    using scan_quote_key [of k ea "58 # u @ (if kvs = [] then [] else 44 # v) @ 125 # r"] 13 u by auto
  show ?case
  proof (cases "kvs = []")
    case True
    with w one u show ?thesis by (simp add: skip_ws_value)
  next
    case False
    have "scan_members hk n (v @ 125 # r) = Inr (kvs, r)"
      unfolding n by (rule "13.IH"(2)) (use 13 u False n in auto)
    with False w one u show ?thesis by (simp add: skip_ws_value jprint_items_skip)
  qed
qed


subsection \<open>The whole text\<close>

lemma escape_char_printable: "c \<le> 1114111 \<Longrightarrow> \<forall>d \<in> set (escape_char True c). 32 \<le> d \<and> d \<le> 126"
proof -
  assume c: "c \<le> 1114111"
  have h: "32 \<le> hex_digit n \<and> hex_digit n \<le> 126" if "n < 16" for n
    using that by (auto simp: hex_digit_def)
  have u: "\<forall>d \<in> set (u_escape u). 32 \<le> d \<and> d \<le> 126" if "u < 65536" for u
  proof -
    have "u div 4096 < 16" using that by auto
    then show ?thesis by (auto simp: u_escape_def h)
  qed
  have "(c - 65536) div 1024 < 1024" "(c - 65536) mod 1024 < 1024" using c by auto
  then have "\<forall>d \<in> set (u_escape (55296 + (c - 65536) div 1024)). 32 \<le> d \<and> d \<le> 126"
    "\<forall>d \<in> set (u_escape (56320 + (c - 65536) mod 1024)). 32 \<le> d \<and> d \<le> 126"
    by (auto intro!: u [rule_format])
  then show ?thesis by (auto simp: escape_char_def u)
qed

lemma json_quote_printable:
  "list_all is_scalar s \<Longrightarrow> \<forall>d \<in> set (json_quote True s). 32 \<le> d \<and> d \<le> 126"
  using escape_char_printable
  by (fastforce simp: json_quote_def list_all_iff is_scalar_def)

lemma dec_printable: "\<forall>d \<in> set (dec n). 32 \<le> d \<and> d \<le> 126"
  using dec_digits(1) [of n] by (auto simp: is_digit_def)

lemma int_repr_printable: "int_repr i = Inr t \<Longrightarrow> \<forall>d \<in> set t. 32 \<le> d \<and> d \<le> 126"
  using dec_printable by (auto simp: int_repr_def split: if_splits)

lemma jprint_printable:
  "jprint ea j = Inr t \<Longrightarrow> ea \<Longrightarrow> json_ok j \<Longrightarrow> \<forall>d \<in> set t. 32 \<le> d \<and> d \<le> 126"
  and "jprint_elems ea js = Inr t \<Longrightarrow> ea \<Longrightarrow> \<forall>j \<in> set js. json_ok j \<Longrightarrow> \<forall>d \<in> set t. 32 \<le> d \<and> d \<le> 126"
  and "jprint_items ea kvs = Inr t \<Longrightarrow> ea \<Longrightarrow> \<forall>(k, j) \<in> set kvs. list_all is_scalar k \<and> json_ok j \<Longrightarrow>
     \<forall>d \<in> set t. 32 \<le> d \<and> d \<le> 126"
proof (induction ea j and ea js and ea kvs arbitrary: t and t and t rule: jprint_jprint_elems_jprint_items.induct)
  case (3 ea i)
  then show ?case using int_repr_printable by simp
next
  case (7 ea s)
  then show ?case using json_quote_printable by simp
next
  case (11 ea j js)
  then show ?case by (fastforce simp: r_bind_Inr_iff split: if_splits)
next
  case (13 ea k j kvs)
  then show ?case
    using json_quote_printable [of k] by (fastforce simp: r_bind_Inr_iff split: if_splits)
qed (fastforce simp: r_bind_Inr_iff split: if_splits)+

lemma jprint_text:
  assumes "jprint True j = Inr t" and "json_ok j"
  shows "is_ascii t" and "0 \<notin> set t" and "10 \<notin> set t"
  using jprint_printable(1) [OF assms(1) TrueI assms(2)] by (fastforce simp: is_ascii_def list_all_iff)+

theorem decode_jprint:
  assumes "jprint ea j = Inr t" and "json_ok j" and "check t = None" and "hook_ok hk"
  shows "decode_with hk check t = Inr j"
proof -
  have "skip_ws t = t" using skip_ws_value [OF assms(1), of "[]"] by simp
  moreover have "scan_value hk (2 * length t + 2) t = Inr (j, [])"
    using scan_jprint(1) [OF assms(4,1,2), of "[]" "2 * length t + 1"] by simp
  ultimately show ?thesis using assms(3) by (simp add: decode_with_def)
qed

lemma loads_jprint:
  assumes "jprint True j = Inr t" and "json_ok j" and "check t = None" and "hook_ok hk"
  shows "loads_with hk check (ascii_bytes t) = Inr j"
  using jprint_text [OF assms(1,2)] decode_jprint [OF assms(1,2), of check] assms(3,4)
  by (simp add: loads_with_def json_text_ascii)

lemma newline_not_in_ascii: "10 \<notin> set t \<Longrightarrow> is_ascii t \<Longrightarrow> (10 :: byte) \<notin> set (ascii_bytes t)"
proof
  assume t: "10 \<notin> set t" "is_ascii t" and "(10 :: byte) \<in> set (ascii_bytes t)"
  then have "unat (10 :: byte) \<in> set (map unat (ascii_bytes t))" by (metis list.set_map imageI)
  with t show False by (simp add: map_unat_ascii)
qed


subsection \<open>Sorting the keys\<close>

lemma map_of_sort_key:
  fixes kvs :: "(('k :: linorder) \<times> 'v) list"
  assumes "distinct (map fst kvs)"
  shows "map_of (sort_key fst kvs) = map_of kvs"
proof -
  have "mset (map fst (sort_key fst kvs)) = mset (map fst kvs)" by simp
  with assms have "distinct (map fst (sort_key fst kvs))" by (metis mset_eq_imp_distinct_iff)
  with assms show ?thesis by (simp add: map_of_inject_set)
qed

lemma fst_sort_items: "map fst (map (\<lambda>(k, j). (k, sort_json j)) kvs) = map fst kvs"
  by (induction kvs) auto

lemma json_ok_sort: "json_ok j \<Longrightarrow> json_ok (sort_json j)"
proof (induction j rule: sort_json.induct)
  case (2 kvs)
  let ?m = "map (\<lambda>(k, j). (k, sort_json j)) kvs"
  have "distinct (map fst ?m)" using 2 by (simp only: fst_sort_items json_ok.simps)
  then have "distinct (map fst (sort_key fst ?m))"
    by (metis mset_eq_imp_distinct_iff mset_map mset_sort)
  moreover have "\<forall>(k, j) \<in> set ?m. list_all is_scalar k \<and> json_ok j"
    using 2 by fastforce
  ultimately show ?case by (simp only: sort_json.simps json_ok.simps set_sort)
qed auto

lemma loads_dumps:
  assumes "dumps j = Inr bs" and "json_ok j" and "\<And>t. bs = ascii_bytes t \<Longrightarrow> is_ascii t \<Longrightarrow> check t = None" and "hook_ok hk"
  shows "loads_with hk check bs = Inr (sort_json j)"
proof -
  from assms(1) obtain t where t: "jprint True (sort_json j) = Inr t" "bs = ascii_bytes t"
    by (auto simp: dumps_def r_bind_Inr_iff)
  have ok: "json_ok (sort_json j)" using assms(2) by (rule json_ok_sort)
  then show ?thesis
    using t loads_jprint [OF t(1) ok] assms(3,4) jprint_text(1) [OF t(1) ok] by simp
qed

lemma dumps_no_newline:
  assumes "dumps j = Inr bs" and "json_ok j"
  shows "10 \<notin> set bs"
proof -
  from assms(1) obtain t where t: "jprint True (sort_json j) = Inr t" "bs = ascii_bytes t"
    by (auto simp: dumps_def r_bind_Inr_iff)
  with jprint_text [OF t(1) json_ok_sort [OF assms(2)]] show ?thesis
    by (simp add: newline_not_in_ascii)
qed

subsection \<open>Texts that are not escaped to ASCII\<close>

text \<open>\<open>json.dumps(v, separators=(",", ":"), ensure_ascii=False, sort_keys=True).encode("utf-8")\<close>\<close>

definition dumps_utf8 :: "json \<Rightarrow> bytes result" where
  "dumps_utf8 j = r_bind (jprint False (sort_json j)) utf8_encode"

lemma utf8_char_control: "d \<in> set (utf8_char c) \<Longrightarrow> 32 \<le> c \<Longrightarrow> 32 \<le> d"
  by (auto simp: utf8_char_def split: if_splits)

lemma escape_char_control: "d \<in> set (escape_char ea c) \<Longrightarrow> 32 \<le> d"
proof -
  have "32 \<le> hex_digit n" for n by (auto simp: hex_digit_def)
  then show "d \<in> set (escape_char ea c) \<Longrightarrow> 32 \<le> d" by (auto simp: escape_char_def u_escape_def split: if_splits)
qed

text \<open>Printed text has no control character, so it is one line.\<close>

lemma jprint_control:
  "jprint ea j = Inr t \<Longrightarrow> \<forall>d \<in> set t. 32 \<le> d"
  and "jprint_elems ea js = Inr t \<Longrightarrow> \<forall>d \<in> set t. 32 \<le> d"
  and "jprint_items ea kvs = Inr t \<Longrightarrow> \<forall>d \<in> set t. 32 \<le> d"
proof (induction ea j and ea js and ea kvs arbitrary: t and t and t rule: jprint_jprint_elems_jprint_items.induct)
  case (3 ea i)
  then show ?case using int_repr_printable [of i t] by fastforce
qed (fastforce simp: r_bind_Inr_iff json_quote_def dest: escape_char_control split: if_splits)+

lemma utf8_encode_control: "utf8_encode t = Inr bs \<Longrightarrow> \<forall>d \<in> set t. 32 \<le> d \<Longrightarrow> \<forall>b \<in> set bs. 32 \<le> unat b"
proof
  fix b
  assume e: "utf8_encode t = Inr bs" and t: "\<forall>d \<in> set t. 32 \<le> d" and "b \<in> set bs"
  then have s: "list_all is_scalar t" and bs: "bs = map of_nat (concat (map utf8_char t))"
    by (auto simp: utf8_encode_def split: if_splits)
  have "\<forall>b \<in> set (concat (map utf8_char t)). b < 256"
    using s utf8_char_bytes by (fastforce simp: list_all_iff)
  then have "map unat bs = concat (map utf8_char t)" unfolding bs by (rule map_unat_of_nat)
  moreover have "unat b \<in> set (map unat bs)" using \<open>b \<in> set bs\<close> by simp
  ultimately show "32 \<le> unat b" using t utf8_char_control by auto
qed

lemma dumps_utf8_line: "dumps_utf8 j = Inr bs \<Longrightarrow> 10 \<notin> set bs \<and> 13 \<notin> set bs"
proof -
  assume "dumps_utf8 j = Inr bs"
  then have "\<forall>b \<in> set bs. 32 \<le> unat b"
    using jprint_control(1) utf8_encode_control by (fastforce simp: dumps_utf8_def r_bind_Inr_iff)
  moreover have "\<not> 32 \<le> unat (10 :: byte)" "\<not> 32 \<le> unat (13 :: byte)" by simp_all
  ultimately show ?thesis by blast
qed

lemma jprint_obj:
  assumes "jprint ea (JObj kvs) = Inr t"
  shows "\<exists>c s. t = 123 # c # s \<and> (c = 34 \<or> c = 125)"
proof -
  obtain u where u: "jprint_items ea kvs = Inr u" "t = 123 # u @ [125]" using assms by (auto simp: r_bind_Inr_iff)
  then show ?thesis by (cases kvs) (auto simp: r_bind_Inr_iff json_quote_def)
qed

lemma loads_with_dumps_utf8:
  assumes "dumps_utf8 (JObj kvs) = Inr bs" "json_ok (JObj kvs)" "hook_ok hk"
  shows "loads_with hk (\<lambda>_. None) bs = Inr (sort_json (JObj kvs)) \<and> (\<exists>s. bs = 123 # s)"
proof -
  obtain t where t: "jprint False (sort_json (JObj kvs)) = Inr t" "utf8_encode t = Inr bs"
    using assms(1) by (auto simp: dumps_utf8_def r_bind_Inr_iff)
  have ok: "json_ok (sort_json (JObj kvs))" using assms(2) by (rule json_ok_sort)
  obtain c s where c: "t = 123 # c # s" "c = 34 \<or> c = 125" using jprint_obj t(1) by (metis sort_json.simps(2))
  then have "json_text bs = Inr t" using json_text_utf8 t(2) by auto
  moreover have "\<exists>s. bs = 123 # s"
    using t(2) c(1) by (auto simp: utf8_encode_def utf8_char_def split: if_splits)
  ultimately show ?thesis
    using decode_jprint [OF t(1) ok, of "\<lambda>_. None" hk] assms(3) by (simp add: loads_with_def)
qed

lemma loads_dumps_utf8:
  assumes "dumps_utf8 (JObj kvs) = Inr bs" "json_ok (JObj kvs)"
  shows "loads bs = Inr (sort_json (JObj kvs))"
  using loads_with_dumps_utf8 [OF assms as_dict_ok] by (simp add: loads_def)

section \<open>The fuel is enough\<close>

definition no_fuel :: "('a \<times> py_str) result \<Rightarrow> nat \<Rightarrow> bool" where
  "no_fuel m n \<longleftrightarrow> (case m of Inl e \<Rightarrow> e \<noteq> OtherError ''fuel'' | Inr (x, r) \<Rightarrow> length r < n)"

lemma no_fuel_simps [simp]:
  "no_fuel (Inl e) n \<longleftrightarrow> e \<noteq> OtherError ''fuel''"
  "no_fuel (Inr (x, r)) n \<longleftrightarrow> length r < n"
  by (simp_all add: no_fuel_def)

lemma no_fuel_bind:
  assumes "no_fuel m k" and "\<And>x r. m = Inr (x, r) \<Longrightarrow> length r < k \<Longrightarrow> no_fuel (f (x, r)) n"
  shows "no_fuel (r_bind m f) n"
  using assms by (cases m) auto

lemma no_fuel_mono: "no_fuel m k \<Longrightarrow> k \<le> n \<Longrightarrow> no_fuel m n"
  by (cases m) auto

lemma emit_no_fuel: "no_fuel m n \<Longrightarrow> no_fuel (emit cs m) n"
  by (cases m) (auto simp: emit_def)

lemma scan_string_no_fuel: "no_fuel (scan_string high s) (length s)"
proof (induction "length s" arbitrary: high s rule: less_induct)
  case less
  have emit: "no_fuel (emit cs (scan_string h s')) k" and plain: "no_fuel (scan_string h s') k"
    if "length s' < length s" "length s' \<le> k" for cs h s' k
    using less [OF that(1), of h] that(2) by (auto intro!: emit_no_fuel elim: no_fuel_mono)
  show ?case
  proof (cases s)
    case (Cons c s1)
    show ?thesis
      unfolding Cons scan_string.simps
      by (simp split: list.split option.split add: emit plain Cons del: scan_string.simps)
  qed simp
qed

lemma split_digits_length: "length (snd (split_digits s)) \<le> length s"
  by (simp add: split_digits_def length_dropWhile_le)

lemma split_digits_progress: "fst (split_digits s) \<noteq> [] \<Longrightarrow> length (snd (split_digits s)) < length s"
  by (cases s) (auto simp: split_digits_def less_Suc_eq_le length_dropWhile_le split: if_splits)

lemma scan_frac_length: "length (snd (scan_frac s)) \<le> length s"
  using split_digits_length
  by (auto simp: scan_frac_def le_SucI split: list.split)

lemma scan_exp_length: "length (snd (scan_exp s)) \<le> length s"
proof (cases s)
  case (Cons c s1)
  let ?s2 = "case s1 of [] \<Rightarrow> s1 | d # s' \<Rightarrow> if d = 45 \<or> d = 43 then s' else s1"
  have "length ?s2 \<le> length s1" by (simp split: list.split)
  moreover have "length (snd (split_digits ?s2)) \<le> length ?s2" by (rule split_digits_length)
  ultimately have "length (snd (split_digits ?s2)) \<le> Suc (length s1)" by linarith
  then show ?thesis
    by (auto simp: scan_exp_def Cons Let_def split: prod.split)
qed (simp add: scan_exp_def)

lemma scan_number_no_fuel: "no_fuel (scan_number neg s) (length s)"
proof -
  obtain ds s1 where d: "(case s of c # s' \<Rightarrow> if c = 48 then ([48], s') else split_digits s
      | [] \<Rightarrow> ([], s)) = (ds, s1)"
    by fastforce
  have l: "length s1 < length s" if "ds \<noteq> []"
    using d that split_digits_progress [of s] by (auto split: list.splits if_splits)
  obtain fs s2 where f: "scan_frac s1 = (fs, s2)" by fastforce
  obtain ex s3 where e: "scan_exp s2 = (ex, s3)" by fastforce
  have "length s3 \<le> length s1"
    using scan_frac_length [of s1] scan_exp_length [of s2] f e by simp
  with l have "ds \<noteq> [] \<Longrightarrow> length s3 < length s" by linarith
  then show ?thesis
    by (auto simp: scan_number_def d f e number_value_def Let_def split: if_splits)
qed

lemma length_skip_ws: "length (skip_ws s) \<le> length s"
  by (rule length_dropWhile_le)

lemma skip_ws_Cons: "skip_ws s = d # s' \<Longrightarrow> length s' < length s"
  using length_skip_ws [of s] by simp


lemma starts_with_length: "starts_with w s \<Longrightarrow> w \<noteq> [] \<Longrightarrow> length (drop (length w) s) < length s"
  by (cases s; cases w) (auto simp: starts_with_def)

lemma scan_word_no_fuel:
  "starts_with w s \<Longrightarrow> w \<noteq> [] \<Longrightarrow> k = length w \<Longrightarrow> no_fuel (Inr (j, drop k s)) (length s)"
  using starts_with_length [of w s] by simp

lemma scan_fuel_enough:
  assumes hk: "\<And>kvs. hk kvs \<noteq> Inl (OtherError ''fuel'')"
  shows "2 * length s + 1 \<le> n \<Longrightarrow> no_fuel (scan_value hk n s) (length s)"
  "2 * length s + 2 \<le> n \<Longrightarrow> no_fuel (scan_elems hk n s) (length s)"
  "2 * length s + 2 \<le> n \<Longrightarrow> no_fuel (scan_members hk n s) (length s)"
proof (induction n arbitrary: s)
  case (Suc n)
  have val: "no_fuel (scan_value hk n s') (length s')" if "2 * length s' + 1 \<le> n" for s'
    using that by (rule Suc.IH)
  have elems: "no_fuel (scan_elems hk n s') (length s')"
    and members: "no_fuel (scan_members hk n s') (length s')" if "2 * length s' + 2 \<le> n" for s'
    using that by (rule Suc.IH)+
  { case 1
  show ?case
  proof (cases s)
    case (Cons c s1)
    have hook: "no_fuel (r_bind (hk kvs) (\<lambda>j. Inr (j, r))) k" if "length r < k" for kvs k and r :: py_str
      using hk [of kvs] that by (cases "hk kvs") auto
    have obj: "no_fuel (r_bind (scan_members hk n (d # s2)) (\<lambda>(kvs, r). r_bind (hk kvs) (\<lambda>j. Inr (j, r)))) (length s)"
      and arr: "no_fuel (r_bind (scan_elems hk n (d # s2)) (\<lambda>(js, r). Inr (JList js, r))) (length s)"
      if "skip_ws s1 = d # s2" for d s2
    proof -
      have "length (d # s2) < length s" using that length_skip_ws [of s1] Cons by simp
      then have "2 * length (d # s2) + 2 \<le> n" "length (d # s2) \<le> length s" using 1 by auto
      then show "no_fuel (r_bind (scan_members hk n (d # s2)) (\<lambda>(kvs, r). r_bind (hk kvs) (\<lambda>j. Inr (j, r)))) (length s)"
        "no_fuel (r_bind (scan_elems hk n (d # s2)) (\<lambda>(js, r). Inr (JList js, r))) (length s)"
        by (auto intro!: no_fuel_bind hook intro: members elems)
    qed
    have str: "no_fuel (r_bind (scan_string None s1) (\<lambda>(t, r). Inr (JStr t, r))) (length s)"
      using Cons by (auto intro!: no_fuel_bind [OF scan_string_no_fuel])
    have num: "no_fuel (scan_number True s1) (length s)" "no_fuel (scan_number False s) (length s)"
      using Cons by (auto intro: scan_number_no_fuel no_fuel_mono [OF scan_number_no_fuel])
    have sk: "length s2 < Suc (length s1)" if "skip_ws s1 = d # s2" for d s2
      using skip_ws_Cons [OF that] by simp
    show ?thesis
      unfolding Cons scan_value.simps list.case
      using obj arr str num sk hook unfolding Cons
      by (simp add: scan_word_no_fuel diff_less_Suc split: list.split
          del: scan_members.simps scan_elems.simps scan_string.simps)
  qed simp }
  { case 2
  show ?case
    unfolding scan_elems.simps
  proof (rule no_fuel_bind [OF val])
    fix j and r :: py_str assume "length r < length s"
    then have "no_fuel (r_bind (scan_elems hk n (skip_ws r1)) (\<lambda>(js, r'). Inr (j # js, r'))) (length s)"
      if "skip_ws r = d # r1" for d r1
      using 2 length_skip_ws [of r1] skip_ws_Cons [OF that]
      by (intro no_fuel_bind [OF elems]) auto
    with \<open>length r < length s\<close> skip_ws_Cons [of r]
    show "no_fuel (case (j, r) of (j, r) \<Rightarrow> case skip_ws r of [] \<Rightarrow> Inl JSONDecodeError
       | d # r1 \<Rightarrow> if d = 93 then Inr ([j], r1)
           else if d = 44 then r_bind (scan_elems hk n (skip_ws r1)) (\<lambda>(js, r'). Inr (j # js, r'))
           else Inl JSONDecodeError) (length s)"
      by (fastforce split: list.split simp del: scan_elems.simps)
  qed (use 2 in simp) }
  { case 3
  show ?case
  proof (cases s)
    case (Cons q s1)
    have tail: "no_fuel (r_bind (scan_members hk n (skip_ws r3)) (\<lambda>(kvs, r'). Inr ((k, j) # kvs, r'))) (length s)"
      if "length r3 < length s1" for k j r3
      using 3 Cons that length_skip_ws [of r3]
      by (intro no_fuel_bind [OF members]) auto
    have body: "no_fuel (r_bind (scan_value hk n (skip_ws r1)) (\<lambda>(j, r2).
        case skip_ws r2 of [] \<Rightarrow> Inl JSONDecodeError
        | e # r3 \<Rightarrow> if e = 125 then Inr ([(k, j)], r3)
            else if e = 44 then r_bind (scan_members hk n (skip_ws r3)) (\<lambda>(kvs, r'). Inr ((k, j) # kvs, r'))
            else Inl JSONDecodeError)) (length s)"
      if "length r1 < length s1" for k r1
    proof (rule no_fuel_bind [OF val])
      show "2 * length (skip_ws r1) + 1 \<le> n" using 3 Cons that length_skip_ws [of r1] by simp
      fix j and r2 :: py_str assume "length r2 < length (skip_ws r1)"
      then have l: "length r3 < length s1" if "skip_ws r2 = e # r3" for e r3
        using skip_ws_Cons [OF that] length_skip_ws [of r1] \<open>length r1 < length s1\<close> by simp
      then show "no_fuel (case (j, r2) of (j, r2) \<Rightarrow> case skip_ws r2 of [] \<Rightarrow> Inl JSONDecodeError
        | e # r3 \<Rightarrow> if e = 125 then Inr ([(k, j)], r3)
            else if e = 44 then r_bind (scan_members hk n (skip_ws r3)) (\<lambda>(kvs, r'). Inr ((k, j) # kvs, r'))
            else Inl JSONDecodeError) (length s)"
        using tail by (auto split: list.split simp: Cons less_SucI simp del: scan_members.simps)
    qed
    show ?thesis
      unfolding Cons scan_members.simps list.case
      by (auto intro!: no_fuel_bind [OF scan_string_no_fuel] body [unfolded Cons length_Cons]
          dest!: skip_ws_Cons split: list.split simp: Cons
          simp del: scan_members.simps scan_value.simps scan_string.simps)
  qed simp }
qed simp_all

theorem decode_with_no_fuel:
  assumes "check (skip_ws s) \<noteq> Some (OtherError ''fuel'')" "\<And>kvs. hk kvs \<noteq> Inl (OtherError ''fuel'')"
  shows "decode_with hk check s \<noteq> Inl (OtherError ''fuel'')"
  using assms(1) scan_fuel_enough(1) [of hk "skip_ws s" "2 * length (skip_ws s) + 2", OF assms(2)]
  by (cases "scan_value hk (2 * length (skip_ws s) + 2) (skip_ws s)")
    (auto simp: decode_with_def Let_def simp del: scan_value.simps split: option.splits if_splits)

section \<open>When serialising succeeds\<close>

text \<open>No float, and no integer above the digit limit.\<close>

fun json_printable :: "json \<Rightarrow> bool" where
  "json_printable (JInt i) \<longleftrightarrow> length (dec (nat \<bar>i\<bar>)) \<le> max_str_digits"
| "json_printable (JFloat _ _) = False"
| "json_printable JNaN = False"
| "json_printable (JInf _) = False"
| "json_printable (JList js) \<longleftrightarrow> (\<forall>j \<in> set js. json_printable j)"
| "json_printable (JObj kvs) \<longleftrightarrow> (\<forall>j \<in> snd ` set kvs. json_printable j)"
| "json_printable _ = True"

lemma jprint_total:
  "json_printable j \<Longrightarrow> \<exists>t. jprint ea j = Inr t"
  "\<forall>j \<in> set js. json_printable j \<Longrightarrow> \<exists>t. jprint_elems ea js = Inr t"
  "\<forall>j \<in> snd ` set kvs. json_printable j \<Longrightarrow> \<exists>t. jprint_items ea kvs = Inr t"
  by (induction ea j and ea js and ea kvs rule: jprint_jprint_elems_jprint_items.induct)
    (auto simp: int_repr_def)

lemma json_printable_sort: "json_printable j \<Longrightarrow> json_printable (sort_json j)"
  by (induction j rule: sort_json.induct) (auto simp: image_iff split_beta; metis)+

lemma dumps_total: "json_printable j \<Longrightarrow> \<exists>bs. dumps j = Inr bs"
  using jprint_total(1) [OF json_printable_sort, of j True] by (auto simp: dumps_def)

lemma length_dec: "n < 10 ^ k \<Longrightarrow> 0 < k \<Longrightarrow> length (dec n) \<le> k"
proof (induction n arbitrary: k rule: dec.induct)
  case (1 n)
  show ?case
  proof (cases "n < 10")
    case False
    with 1(2,3) obtain k' where k: "k = Suc k'" "0 < k'"
      by (cases k; cases "k - 1") auto
    with 1(2) have "n div 10 < 10 ^ k'" by (simp add: less_mult_imp_div_less mult.commute)
    with 1(1) False k have "length (dec (n div 10)) \<le> k'" by blast
    with False k show ?thesis by (simp add: dec.simps [of n])
  qed (use 1 in \<open>simp add: dec.simps [of n]\<close>)
qed

text \<open>An integer literal above the digit limit raises a plain \<open>ValueError\<close>.\<close>

lemma loads_with_huge_int:
  assumes "4300 < k" "check (replicate k 49) = None"
  shows "loads_with hk check (ascii_bytes (replicate k 49)) = Inl ValueError"
proof -
  let ?s = "replicate k (49 :: nat)"
  obtain k' where k: "k = Suc k'" using assms(1) by (cases k) auto
  have "split_digits ?s = (?s, [])"
    by (simp add: split_digits_def is_digit_def takeWhile_replicate dropWhile_replicate)
  then have "scan_number False ?s = Inl ValueError"
    using assms(1) by (simp add: k scan_number_def scan_frac_def scan_exp_def number_value_def max_str_digits_def)
  moreover have "\<not> starts_with w ?s" if "w \<in> {''null'', ''true'', ''false'', ''NaN'', ''Infinity'', ''-Infinity''}" for w
    using that k by (auto simp: starts_with_def)
  ultimately have "scan_value hk (Suc n) ?s = Inl ValueError" for n
    by (simp add: k)
  moreover have "skip_ws ?s = ?s" using k by (simp add: is_json_ws_def)
  moreover have "json_text (ascii_bytes ?s) = Inr ?s"
    by (rule json_text_ascii) (auto simp: is_ascii_def list_all_iff)
  ultimately show ?thesis
    using assms(2) by (simp add: loads_with_def decode_with_def Let_def)
qed

lemma loads_huge_int: "4300 < k \<Longrightarrow> loads (ascii_bytes (replicate k 49)) = Inl ValueError"
  unfolding loads_def by (rule loads_with_huge_int) simp_all

section \<open>What parsing can raise\<close>

definition decode_error :: "exn \<Rightarrow> bool" where
  "decode_error e \<longleftrightarrow> e = UnicodeDecodeError"

definition scan_error :: "exn \<Rightarrow> bool" where
  "scan_error e \<longleftrightarrow> e \<in> {JSONDecodeError, ValueError, OtherError ''fuel''}"

lemma error_intros [simp]:
  "decode_error UnicodeDecodeError" "scan_error JSONDecodeError" "scan_error ValueError"
  "scan_error (OtherError ''fuel'')"
  by (simp_all add: decode_error_def scan_error_def)

lemma utf8_dec_raises: "raises decode_error (utf8_dec p s)"
proof (induction "length s" arbitrary: s rule: less_induct)
  case less
  show ?case
  proof (cases s)
    case (Cons a t)
    with less have IH: "raises decode_error (utf8_dec p u)" if "length u \<le> length t" for u
      using that by simp
    show ?thesis
      unfolding Cons utf8_dec.simps
      by (auto split: list.split intro!: raises_bind IH simp del: utf8_dec.simps)
  qed simp
qed

lemma utf32_dec_raises: "raises decode_error (utf32_dec p s)"
  by (induction p s rule: utf32_dec.induct) (auto intro!: raises_bind simp: Let_def)

lemma json_text_raises: "raises decode_error (json_text bs)"
proof -
  have "raises decode_error (utf16_dec be s)" for be s
    by (simp add: utf16_dec_def split: option.split)
  then show ?thesis
    by (simp only: json_text_def Let_def utf8_dec_raises utf32_dec_raises if_split_eq1 simp_thms split: if_split)
qed

lemma raises_emit: "raises P m \<Longrightarrow> raises P (emit cs m)"
  by (auto simp: emit_def intro!: raises_bind)

lemma scan_string_raises: "raises scan_error (scan_string high s)"
proof (induction "length s" arbitrary: high s rule: less_induct)
  case less
  show ?case
  proof (cases s)
    case (Cons c t)
    with less have IH: "raises scan_error (scan_string h u)" if "length u \<le> length t" for h u
      using that by simp
    show ?thesis
      unfolding Cons scan_string.simps
      by (auto split: list.split option.split intro!: raises_emit IH simp del: scan_string.simps)
  qed simp
qed

lemma number_value_raises: "raises scan_error (number_value neg ds fs ex)"
  by (simp add: number_value_def Let_def)

lemma scan_number_raises: "raises scan_error (scan_number neg s)"
  by (auto simp: scan_number_def Let_def split: list.split prod.split
      intro!: raises_bind number_value_raises)

lemma scan_raises:
  assumes "\<And>kvs. raises P (hk kvs)" "\<And>e. scan_error e \<Longrightarrow> P e"
  shows "raises P (scan_value hk n s)"
    "raises P (scan_elems hk n s)"
    "raises P (scan_members hk n s)"
proof (induction n arbitrary: s)
  case (Suc n)
  note IH = Suc.IH assms(1) and scans = raises_mono [OF scan_string_raises assms(2)] raises_mono [OF scan_number_raises assms(2)]
  { case 1
    show ?case
      unfolding scan_value.simps
      by (auto intro!: raises_bind scans IH assms(2)
          split: list.split simp del: scan_string.simps scan_value.simps scan_elems.simps scan_members.simps) }
  { case 2
    show ?case
      unfolding scan_elems.simps
      by (auto intro!: raises_bind IH assms(2) split: list.split
          simp del: scan_value.simps scan_elems.simps scan_members.simps) }
  { case 3
    show ?case
      unfolding scan_members.simps
      by (auto intro!: raises_bind scans IH assms(2) split: list.split
          simp del: scan_string.simps scan_value.simps scan_elems.simps scan_members.simps) }
qed (simp_all add: assms(2))

lemma decode_with_raises:
  assumes "\<And>s. raises P (case check s of None \<Rightarrow> Inr () | Some e \<Rightarrow> Inl e)" "\<not> P (OtherError ''fuel'')"
    "P JSONDecodeError" "P ValueError" "\<And>kvs. raises P (hk kvs)"
  shows "raises P (decode_with hk check s)"
proof -
  have c: "P e" if "check t = Some e" for t e using assms(1) [of t] that by simp
  then have "check (skip_ws s) \<noteq> Some (OtherError ''fuel'')" using assms(2) by blast
  then have nf: "decode_with hk check s \<noteq> Inl (OtherError ''fuel'')"
    using assms(2,5) by (intro decode_with_no_fuel [of check s hk]) (auto simp: raises_def)
  have "raises (\<lambda>e. P e \<or> e = OtherError ''fuel'') (scan_value hk n t)" for n t
    using assms(3,4) raises_mono [OF assms(5)] by (intro scan_raises(1)) (auto simp: scan_error_def)
  then have "raises (\<lambda>e. P e \<or> e = OtherError ''fuel'') (decode_with hk check s)"
    unfolding decode_with_def Let_def
    using c assms(3,4)
    by (auto intro!: raises_bind simp del: scan_value.simps split: option.split)
  with nf show ?thesis by (auto simp: raises_def)
qed

lemma loads_with_raises:
  assumes "\<And>s. raises P (case check s of None \<Rightarrow> Inr () | Some e \<Rightarrow> Inl e)" "\<not> P (OtherError ''fuel'')"
    "P JSONDecodeError" "P ValueError" "\<And>kvs. raises P (hk kvs)" "P UnicodeDecodeError"
  shows "raises P (loads_with hk check bs)"
  unfolding loads_with_def
  using decode_with_raises [OF assms(1-5)] raises_mono [OF json_text_raises] assms(6)
  by (auto intro!: raises_bind simp: decode_error_def)

definition loads_error :: "exn \<Rightarrow> bool" where
  "loads_error e \<longleftrightarrow> e \<in> {UnicodeDecodeError, JSONDecodeError, ValueError}"

lemma loads_raises: "raises loads_error (loads bs)"
  unfolding loads_def by (rule loads_with_raises) (simp_all add: loads_error_def as_dict_def)

end
