(* ===== verification/Py_Base64.thy ===== *)
theory Py_Base64
  imports Py_Text
begin

text \<open>
  The \<open>base64\<close> module as the codecs use it: \<open>b64encode\<close>, \<open>b64decode(x, validate=True)\<close>,
  and \<open>urlsafe_b64encode\<close> / \<open>urlsafe_b64decode\<close>. The decoder is CPython 3.11's
  \<open>binascii.a2b_base64\<close>, state for state: position in the quad, the bits carried over,
  the pads seen, whether padding has begun; \<open>strict\<close> is \<open>strict_mode\<close>.
\<close>

definition b64_char :: "nat \<Rightarrow> nat" where
  "b64_char n =
     (if n < 26 then 65 + n else if n < 52 then 71 + n else if n < 62 then n - 4
      else if n = 62 then 43 else 47)"

definition b64_value :: "nat \<Rightarrow> nat option" where
  "b64_value c =
     (if 65 \<le> c \<and> c \<le> 90 then Some (c - 65)
      else if 97 \<le> c \<and> c \<le> 122 then Some (c - 71)
      else if 48 \<le> c \<and> c \<le> 57 then Some (c + 4)
      else if c = 43 then Some 62
      else if c = 47 then Some 63
      else None)"

fun b64_chars :: "nat list \<Rightarrow> nat list" where
  "b64_chars [] = []"
| "b64_chars [a] = [b64_char (a div 4), b64_char (a mod 4 * 16), 61, 61]"
| "b64_chars [a, b] =
     [b64_char (a div 4), b64_char (a mod 4 * 16 + b div 16), b64_char (b mod 16 * 4), 61]"
| "b64_chars (a # b # c # s) =
     b64_char (a div 4) # b64_char (a mod 4 * 16 + b div 16)
     # b64_char (b mod 16 * 4 + c div 64) # b64_char (c mod 64) # b64_chars s"

definition b64encode :: "bytes \<Rightarrow> py_str" where
  "b64encode bs = b64_chars (map unat bs)"

fun a2b :: "bool \<Rightarrow> nat \<Rightarrow> nat \<Rightarrow> nat \<Rightarrow> bool \<Rightarrow> nat list \<Rightarrow> bytes result" where
  "a2b strict q left pads started [] = (if q = 0 then Inr [] else Inl BinasciiError)"
| "a2b strict q left pads started (c # s) =
     (if c = 61 then
        (if 2 \<le> q \<and> 4 \<le> q + Suc pads
         then (if strict \<and> s \<noteq> [] then Inl BinasciiError else Inr [])
         else a2b strict q left (if 2 \<le> q then Suc pads else pads) True s)
      else case b64_value c of
        None \<Rightarrow> (if strict then Inl BinasciiError else a2b strict q left pads started s)
      | Some v \<Rightarrow>
          (if strict \<and> started then Inl BinasciiError
           else if q = 0 then a2b strict 1 v 0 started s
           else if q = 1 then
             r_bind (a2b strict 2 (v mod 16) 0 started s)
               (\<lambda>out. Inr (of_nat (left * 4 + v div 16) # out))
           else if q = 2 then
             r_bind (a2b strict 3 (v mod 4) 0 started s)
               (\<lambda>out. Inr (of_nat (left * 16 + v div 4) # out))
           else
             r_bind (a2b strict 0 0 0 started s)
               (\<lambda>out. Inr (of_nat (left * 64 + v) # out))))"

definition a2b_base64 :: "bool \<Rightarrow> nat list \<Rightarrow> bytes result" where
  "a2b_base64 strict s =
     (if strict \<and> take 1 s = [61] then Inl BinasciiError else a2b strict 0 0 0 False s)"

text \<open>A \<open>str\<close> argument must be ASCII; \<open>bytes\<close> go in as they are.\<close>

definition b64decode_str :: "bool \<Rightarrow> py_str \<Rightarrow> bytes result" where
  "b64decode_str strict s = (if is_ascii s then a2b_base64 strict s else Inl ValueError)"

definition b64decode :: "bool \<Rightarrow> bytes \<Rightarrow> bytes result" where
  "b64decode strict bs = a2b_base64 strict (map unat bs)"

definition to_urlsafe :: "nat \<Rightarrow> nat" where
  "to_urlsafe c = (if c = 43 then 45 else if c = 47 then 95 else c)"

definition from_urlsafe :: "nat \<Rightarrow> nat" where
  "from_urlsafe c = (if c = 45 then 43 else if c = 95 then 47 else c)"

definition urlsafe_b64encode :: "bytes \<Rightarrow> py_str" where
  "urlsafe_b64encode bs = map to_urlsafe (b64encode bs)"

definition urlsafe_b64decode_str :: "py_str \<Rightarrow> bytes result" where
  "urlsafe_b64decode_str s =
     (if is_ascii s then a2b_base64 False (map from_urlsafe s) else Inl ValueError)"

definition urlsafe_b64decode :: "bytes \<Rightarrow> bytes result" where
  "urlsafe_b64decode bs = a2b_base64 False (map from_urlsafe (map unat bs))"

section \<open>Round trip\<close>

lemma b64_value_char: "n < 64 \<Longrightarrow> b64_value (b64_char n) = Some n"
  by (auto simp: b64_value_def b64_char_def)

lemma b64_char_not_pad: "n < 64 \<Longrightarrow> b64_char n \<noteq> 61"
  by (auto simp: b64_char_def)

lemma a2b_char:
  assumes "n < 64"
  shows "a2b st 0 l p False (b64_char n # s) = a2b st 1 n 0 False s"
    and "a2b st (Suc 0) l p False (b64_char n # s) =
      r_bind (a2b st 2 (n mod 16) 0 False s) (\<lambda>out. Inr (of_nat (l * 4 + n div 16) # out))"
    and "a2b st 2 l p False (b64_char n # s) =
      r_bind (a2b st 3 (n mod 4) 0 False s) (\<lambda>out. Inr (of_nat (l * 16 + n div 4) # out))"
    and "a2b st 3 l p False (b64_char n # s) =
      r_bind (a2b st 0 0 0 False s) (\<lambda>out. Inr (of_nat (l * 64 + n) # out))"
  using assms by (simp_all add: b64_value_char b64_char_not_pad)

text \<open>The three bytes of a group and its four sextets.\<close>

lemma pack:
  fixes x y k :: nat
  assumes "y < k"
  shows "(x * k + y) div k = x" and "(x * k + y) mod k = y"
  using assms by simp_all

lemma sextet_less:
  fixes a b :: nat
  shows "a < 256 \<Longrightarrow> a div 4 < 64" and "b < 256 \<Longrightarrow> a mod 4 * 16 + b div 16 < 64"
    and "a mod 4 * 16 < 64" and "b < 256 \<Longrightarrow> a mod 16 * 4 + b div 64 < 64"
    and "a mod 16 * 4 < 64" and "a mod 64 < 64"
proof -
  have m: "a mod 4 < 4" "a mod 16 < 16" by simp_all
  have d: "a < 256 \<Longrightarrow> a div 4 < 64" "b < 256 \<Longrightarrow> b div 16 < 16" "b < 256 \<Longrightarrow> b div 64 < 4"
    by auto
  show "a < 256 \<Longrightarrow> a div 4 < 64" by (rule d)
  show "b < 256 \<Longrightarrow> a mod 4 * 16 + b div 16 < 64" "b < 256 \<Longrightarrow> a mod 16 * 4 + b div 64 < 64"
    using m d by linarith+
  show "a mod 4 * 16 < 64" "a mod 16 * 4 < 64" "a mod 64 < 64" using m by linarith+
qed

lemma sextet_join:
  fixes a b c :: nat
  shows "b < 256 \<Longrightarrow> a div 4 * 4 + (a mod 4 * 16 + b div 16) div 16 = a"
    and "a div 4 * 4 + a mod 4 * 16 div 16 = a"
    and "b < 256 \<Longrightarrow> c < 256 \<Longrightarrow>
      (a mod 4 * 16 + b div 16) mod 16 * 16 + (b mod 16 * 4 + c div 64) div 4 = b"
    and "b < 256 \<Longrightarrow> (a mod 4 * 16 + b div 16) mod 16 * 16 + b mod 16 * 4 div 4 = b"
    and "c < 256 \<Longrightarrow> (b mod 16 * 4 + c div 64) mod 4 * 64 + c mod 64 = c"
proof -
  have d: "b < 256 \<Longrightarrow> b div 16 < 16" "c < 256 \<Longrightarrow> c div 64 < 4" by auto
  show "a div 4 * 4 + a mod 4 * 16 div 16 = a" by simp
  show "b < 256 \<Longrightarrow> a div 4 * 4 + (a mod 4 * 16 + b div 16) div 16 = a"
    "b < 256 \<Longrightarrow> (a mod 4 * 16 + b div 16) mod 16 * 16 + b mod 16 * 4 div 4 = b"
    "c < 256 \<Longrightarrow> (b mod 16 * 4 + c div 64) mod 4 * 64 + c mod 64 = c"
    "b < 256 \<Longrightarrow> c < 256 \<Longrightarrow>
      (a mod 4 * 16 + b div 16) mod 16 * 16 + (b mod 16 * 4 + c div 64) div 4 = b"
    by (simp_all only: pack d div_mult_mod_eq) simp_all
qed

lemma sextet_norm:
  fixes b c :: nat
  shows "b < 256 \<Longrightarrow> b div 16 div 16 = 0" and "c < 256 \<Longrightarrow> c div 64 div 4 = 0"
    and "b < 256 \<Longrightarrow> b div 16 mod 16 * 16 + b mod 16 = b"
    and "c < 256 \<Longrightarrow> c div 64 mod 4 * 64 + c mod 64 = c"
proof -
  show "b < 256 \<Longrightarrow> b div 16 div 16 = 0" "c < 256 \<Longrightarrow> c div 64 div 4 = 0"
    by (simp_all add: div_mult2_eq [symmetric])
  have "b < 256 \<Longrightarrow> b div 16 mod 16 = b div 16" "c < 256 \<Longrightarrow> c div 64 mod 4 = c div 64"
    by (auto intro!: mod_less)
  then show "b < 256 \<Longrightarrow> b div 16 mod 16 * 16 + b mod 16 = b"
    "c < 256 \<Longrightarrow> c div 64 mod 4 * 64 + c mod 64 = c"
    by simp_all
qed

lemma a2b_pads:
  "a2b st 2 l 0 False [61, 61] = Inr []" "a2b st 3 l 0 False [61] = Inr []"
  by simp_all

lemma a2b_done: "a2b st 0 l p False [] = Inr []"
  by simp

declare a2b.simps [simp del]

lemma a2b_b64_chars:
  "\<forall>b \<in> set bs. b < 256 \<Longrightarrow> a2b st 0 0 0 False (b64_chars bs) = Inr (map of_nat bs)"
proof (induction bs rule: b64_chars.induct)
  case 1
  then show ?case by (simp add: a2b_done)
next
  case (2 a)
  then show ?case
    by (simp add: a2b_char a2b_pads sextet_less sextet_join sextet_norm del: of_nat_add of_nat_mult)
next
  case (3 a b)
  then show ?case
    by (simp add: a2b_char a2b_pads sextet_less sextet_join sextet_norm del: of_nat_add of_nat_mult)
next
  case (4 a b c s)
  then show ?case
    by (simp add: a2b_char sextet_less sextet_join sextet_norm del: of_nat_add of_nat_mult)
qed

lemma b64_char_ascii: "b64_char n < 128" if "n < 64"
  using that by (auto simp: b64_char_def)

lemma b64_chars_alphabet:
  "\<forall>b \<in> set bs. b < 256 \<Longrightarrow> \<forall>c \<in> set (b64_chars bs). c = 61 \<or> (\<exists>n < 64. c = b64_char n)"
  by (induction bs rule: b64_chars.induct) (auto intro: sextet_less)

lemma bytes_less: "\<forall>b \<in> set (map unat (bs :: bytes)). b < 256"
  by (auto simp: unat_byte_less)

lemma b64encode_alphabet: "c \<in> set (b64encode bs) \<Longrightarrow> c = 61 \<or> (\<exists>n < 64. c = b64_char n)"
  using b64_chars_alphabet [OF bytes_less] by (auto simp: b64encode_def)

lemma b64encode_ascii: "is_ascii (b64encode bs)"
  using b64encode_alphabet b64_char_ascii by (fastforce simp: is_ascii_def list_all_iff)

lemma b64encode_hd: "take 1 (b64encode bs) \<noteq> [61]"
proof (cases bs)
  case Nil
  then show ?thesis by (simp add: b64encode_def)
next
  case (Cons b bs')
  have "b64_char (unat b div 4) \<noteq> 61"
    by (intro b64_char_not_pad sextet_less unat_byte_less)
  with Cons show ?thesis
    by (cases bs' rule: remdups_adj.cases) (auto simp: b64encode_def)
qed

lemma a2b_base64_encode: "a2b_base64 st (b64encode bs) = Inr bs"
  using a2b_b64_chars [OF bytes_less, of st bs] b64encode_hd [of bs]
  by (simp add: a2b_base64_def b64encode_def comp_def)

lemma b64decode_str_encode [simp]: "b64decode_str st (b64encode bs) = Inr bs"
  by (simp add: b64decode_str_def b64encode_ascii a2b_base64_encode)

lemma b64decode_encode [simp]: "b64decode st (ascii_bytes (b64encode bs)) = Inr bs"
  by (simp add: b64decode_def map_unat_ascii b64encode_ascii a2b_base64_encode)

lemma from_to_urlsafe: "c \<noteq> 45 \<Longrightarrow> c \<noteq> 95 \<Longrightarrow> from_urlsafe (to_urlsafe c) = c"
  by (simp add: from_urlsafe_def to_urlsafe_def)

lemma b64_char_not_urlsafe: "n < 64 \<Longrightarrow> b64_char n \<noteq> 45 \<and> b64_char n \<noteq> 95"
  by (auto simp: b64_char_def)

lemma urlsafe_back: "map from_urlsafe (urlsafe_b64encode bs) = b64encode bs"
proof -
  have "\<forall>c \<in> set (b64encode bs). from_urlsafe (to_urlsafe c) = c"
  proof
    fix c assume "c \<in> set (b64encode bs)"
    then have "c \<noteq> 45 \<and> c \<noteq> 95"
      using b64encode_alphabet [of c bs] b64_char_not_urlsafe by auto
    then show "from_urlsafe (to_urlsafe c) = c" by (simp add: from_to_urlsafe)
  qed
  then show ?thesis by (simp add: urlsafe_b64encode_def map_idI)
qed

lemma urlsafe_ascii: "is_ascii (urlsafe_b64encode bs)"
  using b64encode_ascii [of bs]
  by (auto simp: is_ascii_def urlsafe_b64encode_def to_urlsafe_def list_all_iff)

lemma urlsafe_b64decode_encode [simp]:
  "urlsafe_b64decode (ascii_bytes (urlsafe_b64encode bs)) = Inr bs"
  by (simp only: urlsafe_b64decode_def map_unat_ascii urlsafe_ascii urlsafe_back a2b_base64_encode)

lemma length_b64_chars: "length (b64_chars s) mod 4 = 0"
  by (induction s rule: b64_chars.induct) auto

lemma length_b64encode_mod4: "length (b64encode bs) mod 4 = 0"
  by (simp add: b64encode_def length_b64_chars)

section \<open>What decoding can raise\<close>

lemma a2b_base64_raises: "raises (\<lambda>e. e = BinasciiError) (a2b_base64 st b)"
proof -
  have "raises (\<lambda>e. e = BinasciiError) (a2b s q l pd ls b)" for s q l pd ls b
    by (induction s q l pd ls b rule: a2b.induct) (auto simp: a2b.simps intro!: raises_bind split: option.split)
  then show ?thesis by (auto simp: a2b_base64_def)
qed

lemma b64decode_raises: "raises (\<lambda>e. e = BinasciiError) (b64decode st b)"
  by (simp add: b64decode_def a2b_base64_raises)

lemma b64decode_str_raises: "raises is_value_error (b64decode_str st s)"
  using raises_mono [OF a2b_base64_raises [of st s], of is_value_error]
  by (auto simp: b64decode_str_def is_value_error_def)

end
