(* ===== verification/File_Container.thy ===== *)
theory File_Container
  imports Kek Py_Json Py_Base64
begin

text \<open>
  \<open>keyvault/file_container.py\<close>: the \<open>MVLT\<close> container of one encrypted file, a JSON header
  line and a base64 body bound to the header and to the file's logical name. The nonce is an
  argument.
\<close>

definition MVLT_MAGIC :: bytes where
  "MVLT_MAGIC = [0x4d, 0x56, 0x4c, 0x54]"

definition MIN_TOKEN_LEN :: nat where "MIN_TOKEN_LEN = 28"

definition container_header :: "py_str \<Rightarrow> bytes \<Rightarrow> py_str \<Rightarrow> json" where
  "container_header kid wmk name =
     JObj [(str_lit ''fmt'', JStr (str_lit ''MVLT'')), (str_lit ''ver'', JInt 1), (str_lit ''key_id'', JStr kid),
           (str_lit ''wmk'', JStr (b64encode wmk)), (str_lit ''name'', JStr name)]"

definition build_header_bytes :: "py_str \<Rightarrow> bytes \<Rightarrow> py_str \<Rightarrow> bytes result" where
  "build_header_bytes kid wmk name = dumps (container_header kid wmk name)"

definition container_aad :: "bytes \<Rightarrow> py_str \<Rightarrow> bytes result" where
  "container_aad header_bytes name =
     r_bind (utf8_encode name) (\<lambda>n. Inr (MVLT_MAGIC @ [1] @ sha256 header_bytes @ n))"

definition container_encode ::
  "('x) crypto_scheme \<Rightarrow> bytes \<Rightarrow> master_key \<Rightarrow> bytes \<Rightarrow> py_str \<Rightarrow> bytes \<Rightarrow> py_str \<Rightarrow> bytes result" where
  "container_encode C nonce m plaintext kid wmk name =
     (if name = [] then Inl ValueError
      else r_bind (build_header_bytes kid wmk name) (\<lambda>header_bytes.
        r_bind (container_aad header_bytes name) (\<lambda>aad.
          r_bind (master_encrypt C nonce m plaintext aad) (\<lambda>token.
            Inr (header_bytes @ [10] @ ascii_bytes (b64encode token))))))"

definition is_json_failure :: "exn \<Rightarrow> bool" where
  "is_json_failure e \<longleftrightarrow> e = JSONDecodeError \<or> e = UnicodeDecodeError"

definition is_invalid_tag :: "exn \<Rightarrow> bool" where
  "is_invalid_tag e \<longleftrightarrow> e = InvalidTag"

text \<open>The body, once the header is accepted.\<close>

definition container_open_body :: "('x) crypto_scheme \<Rightarrow> bytes \<Rightarrow> bytes \<Rightarrow> master_key \<Rightarrow> py_str \<Rightarrow> bytes result" where
  "container_open_body C header_bytes b64 m name =
     r_bind (r_catch is_value_error EncryptedFileError (b64decode True b64)) (\<lambda>token.
       if length token < MIN_TOKEN_LEN then Inl EncryptedFileError
       else r_bind (container_aad header_bytes name) (\<lambda>aad.
         r_catch is_invalid_tag EncryptedFileError (master_decrypt C m token aad)))"

definition check_container_header :: "json \<Rightarrow> py_str \<Rightarrow> unit result" where
  "check_container_header header name =
     (case header of
        JObj kvs \<Rightarrow>
          if obj_get kvs ''fmt'' \<noteq> JStr (str_lit ''MVLT'') \<or> \<not> json_eq_1 (obj_get kvs ''ver'')
          then Inl EncryptedFileError
          else if obj_get kvs ''name'' \<noteq> JStr name then Inl EncryptedFileError
          else Inr ()
      | _ \<Rightarrow> Inl EncryptedFileError)"

definition container_decode :: "('x) crypto_scheme \<Rightarrow> bytes \<Rightarrow> master_key \<Rightarrow> py_str \<Rightarrow> bytes result" where
  "container_decode C blob m name =
     (if name = [] then Inl ValueError
      else case partition_at 10 blob of (header_bytes, sep, b64) \<Rightarrow>
        if \<not> sep then Inl EncryptedFileError
        else r_bind (r_catch is_json_failure EncryptedFileError (loads header_bytes)) (\<lambda>header.
          r_bind (check_container_header header name) (\<lambda>_.
            container_open_body C header_bytes b64 m name)))"

section \<open>Lemmas\<close>

lemma json_ok_header:
  "list_all is_scalar kid \<Longrightarrow> list_all is_scalar name \<Longrightarrow> json_ok (container_header kid wmk name)"
  using b64encode_ascii [of wmk]
  by (auto simp: container_header_def is_scalar_def is_surrogate_def is_ascii_def list_all_iff) fastforce?

lemma build_header_total: "\<exists>h. build_header_bytes kid wmk name = Inr h"
  unfolding build_header_bytes_def
  by (rule dumps_total) (simp add: container_header_def max_str_digits_def dec.simps)

lemma map_of_sorted_header:
  assumes "json_ok (JObj kvs)"
  shows "sort_json (JObj kvs) = JObj (sort_key fst (map (\<lambda>(k, j). (k, sort_json j)) kvs))"
    "map_of (sort_key fst (map (\<lambda>(k, j). (k, sort_json j)) kvs)) k = map_option sort_json (map_of kvs k)"
proof -
  have "distinct (map fst (map (\<lambda>(k, j). (k, sort_json j)) kvs))"
    using assms by (simp only: fst_sort_items json_ok.simps)
  then show "map_of (sort_key fst (map (\<lambda>(k, j). (k, sort_json j)) kvs)) k = map_option sort_json (map_of kvs k)"
    by (simp add: map_of_sort_key map_of_map)
qed simp

lemma loads_header:
  assumes "list_all is_scalar kid" "list_all is_scalar name" "build_header_bytes kid wmk name = Inr h"
  shows "\<exists>kvs. loads h = Inr (JObj kvs) \<and> obj_get kvs ''fmt'' = JStr (str_lit ''MVLT'') \<and>
    obj_get kvs ''ver'' = JInt 1 \<and> obj_get kvs ''name'' = JStr name" "10 \<notin> set h"
proof -
  note ok = json_ok_header [OF assms(1,2), of wmk]
  have d: "dumps (container_header kid wmk name) = Inr h" using assms(3) by (simp add: build_header_bytes_def)
  from loads_dumps [OF d ok] have "loads h = Inr (sort_json (container_header kid wmk name))"
    by (simp add: loads_def)
  with map_of_sorted_header [OF ok [unfolded container_header_def]]
  show "\<exists>kvs. loads h = Inr (JObj kvs) \<and> obj_get kvs ''fmt'' = JStr (str_lit ''MVLT'') \<and>
    obj_get kvs ''ver'' = JInt 1 \<and> obj_get kvs ''name'' = JStr name"
    by (simp add: container_header_def obj_get_def str_lit_def del: sort_key_simps)
  show "10 \<notin> set h" using dumps_no_newline [OF d ok] .
qed

lemma container_open_body_Inr:
  "container_open_body C h b64 m name = Inr p \<longleftrightarrow>
     (\<exists>token aad. b64decode True b64 = Inr token \<and> 28 \<le> length token \<and> container_aad h name = Inr aad \<and>
        master_decrypt C m token aad = Inr p)"
  by (fastforce simp: container_open_body_def MIN_TOKEN_LEN_def result_iffs if_Inl_Inr_iff not_less
      simp del: if_split)

lemma check_container_header_Inr:
  "check_container_header header name = Inr u \<longleftrightarrow>
     (\<exists>kvs. header = JObj kvs \<and> obj_get kvs ''fmt'' = JStr (str_lit ''MVLT'') \<and>
        json_eq_1 (obj_get kvs ''ver'') \<and> obj_get kvs ''name'' = JStr name)"
  by (auto simp: check_container_header_def split: json.splits)

text \<open>What a decoded blob has verified.\<close>

lemma container_decode_Inr:
  "container_decode C blob m name = Inr p \<longleftrightarrow>
     (\<exists>h b64 token aad kvs. name \<noteq> [] \<and> blob = h @ 10 # b64 \<and> 10 \<notin> set h \<and> loads h = Inr (JObj kvs) \<and>
        obj_get kvs ''fmt'' = JStr (str_lit ''MVLT'') \<and> json_eq_1 (obj_get kvs ''ver'') \<and>
        obj_get kvs ''name'' = JStr name \<and> b64decode True b64 = Inr token \<and> 28 \<le> length token \<and>
        container_aad h name = Inr aad \<and> master_decrypt C m token aad = Inr p)"
  (is "?l \<longleftrightarrow> ?r")
proof
  assume l: ?l
  obtain h sep b64 where part: "partition_at 10 blob = (h, sep, b64)" by (cases "partition_at 10 blob")
  with l have sep by (auto simp: container_decode_def split: if_splits)
  with part have "blob = h @ 10 # b64 \<and> 10 \<notin> set h" by (intro partition_at_True) simp
  moreover from l part \<open>sep\<close> obtain header where "name \<noteq> []" "loads h = Inr header"
    "check_container_header header name = Inr ()" "container_open_body C h b64 m name = Inr p"
    by (auto simp: container_decode_def result_iffs split: if_splits)
  ultimately show ?r
    by (simp only: container_open_body_Inr check_container_header_Inr) blast
next
  assume ?r
  then show ?l
    by (auto simp: container_decode_def partition_at_append result_iffs container_open_body_Inr
        check_container_header_Inr)
qed

definition container_ok :: "('x) crypto_scheme \<Rightarrow> bytes \<Rightarrow> master_key \<Rightarrow> py_str \<Rightarrow> py_str \<Rightarrow> bytes \<Rightarrow> bool" where
  "container_ok C nonce m kid name p \<longleftrightarrow> gcm_ok C \<and> \<not> mk_closed m \<and> length (mk_key m) = 32 \<and> length nonce = 12 \<and>
     name \<noteq> [] \<and> list_all is_scalar name \<and> list_all is_scalar kid \<and>
     length p + 16 \<le> gcm_limit \<and> 4 * length name + 64 \<le> gcm_limit"

lemma length_utf8_char: "length (utf8_char c) \<le> 4"
  by (simp add: utf8_char_def)

lemma length_utf8_encode: "utf8_encode s = Inr b \<Longrightarrow> length b \<le> 4 * length s"
proof -
  have "length (concat (map utf8_char s)) \<le> 4 * length s"
    using length_utf8_char by (induction s) (auto intro: add_mono order_trans)
  then show "utf8_encode s = Inr b \<Longrightarrow> length b \<le> 4 * length s"
    by (auto simp: utf8_encode_def split: if_splits)
qed

lemma container_decode_encode:
  assumes "container_ok C nonce m kid name p"
  shows "\<exists>b. container_encode C nonce m p kid wmk name = Inr b \<and> container_decode C b m name = Inr p"
proof -
  have ok: "gcm_ok C" "\<not> mk_closed m" "length (mk_key m) = 32" "length nonce = 12" "name \<noteq> []"
    "list_all is_scalar name" "list_all is_scalar kid" "length p + 16 \<le> gcm_limit" "4 * length name + 64 \<le> gcm_limit"
    using assms by (simp_all add: container_ok_def)
  obtain h where h: "build_header_bytes kid wmk name = Inr h" using build_header_total by blast
  obtain n where n: "utf8_encode name = Inr n" using ok(6) by (auto simp: utf8_encode_def)
  define aad where "aad = MVLT_MAGIC @ [1] @ sha256 h @ n"
  have aad: "container_aad h name = Inr aad" using n by (simp add: container_aad_def aad_def)
  have "length aad \<le> gcm_limit"
    using ok(9) length_utf8_encode [OF n] by (simp add: aad_def MVLT_MAGIC_def)
  then have "\<not> mk_closed m \<and> sealable C nonce (mk_key m) aad p"
    using ok by (simp add: sealable_def)
  then obtain token where t: "master_encrypt C nonce m p aad = Inr token" "master_decrypt C m token aad = Inr p"
    by (rule master.enc_total)
  have "28 \<le> length token"
    using t(2) by (auto simp: master_decrypt_def aead_decrypt_Inr result_iffs)
  with t loads_header [OF ok(7,6) h] ok(5) aad
  have "container_decode C (h @ [10] @ ascii_bytes (b64encode token)) m name = Inr p"
    by (fastforce simp: container_decode_Inr json_eq_1_def)
  moreover have "container_encode C nonce m p kid wmk name = Inr (h @ [10] @ ascii_bytes (b64encode token))"
    using ok(5) h aad t(1) by (simp add: container_encode_def)
  ultimately show ?thesis by blast
qed

interpretation mvlt: codec "container_ok C nonce m kid name" "\<lambda>p. container_encode C nonce m p kid wmk name"
  "\<lambda>b. container_decode C b m name" for C nonce m kid wmk name
  using container_decode_encode by unfold_locales blast

text \<open>A file sealed into a container comes back unchanged under the same master key and name; and
  whatever decodes has been authenticated by AES-GCM under the associated data \<open>MVLT\<close>, version,
  hash of the exact header line, and the name asked for, with a header that names that file: a
  container can neither be moved to another name nor have its header edited without the cipher
  having to accept other associated data.\<close>

lemma container_roundtrip_bound:
  assumes "container_ok C nonce m kid name p"
  shows "(\<exists>b. container_encode C nonce m p kid wmk name = Inr b \<and> container_decode C b m name = Inr p) \<and>
    (\<forall>blob name' q. container_decode C blob m name' = Inr q \<longrightarrow>
      (\<exists>h b64 token n kvs. blob = h @ 10 # b64 \<and> 10 \<notin> set h \<and> b64decode True b64 = Inr token \<and>
         loads h = Inr (JObj kvs) \<and> obj_get kvs ''name'' = JStr name' \<and> utf8_encode name' = Inr n \<and>
         gcm_open C (mk_key m) (take 12 token) (drop 12 token) (MVLT_MAGIC @ [1] @ sha256 h @ n) = Inr q))"
proof (intro conjI allI impI)
  show "\<exists>b. container_encode C nonce m p kid wmk name = Inr b \<and> container_decode C b m name = Inr p"
    using assms by (rule mvlt.dec_enc)
next
  fix blob name' q
  assume "container_decode C blob m name' = Inr q"
  then obtain h b64 token aad kvs where d: "blob = h @ 10 # b64" "10 \<notin> set h" "b64decode True b64 = Inr token"
    "loads h = Inr (JObj kvs)" "obj_get kvs ''name'' = JStr name'" "container_aad h name' = Inr aad"
    "master_decrypt C m token aad = Inr q"
    unfolding container_decode_Inr by blast
  then have "gcm_open C (mk_key m) (take 12 token) (drop 12 token) aad = Inr q"
    by (auto simp: master_decrypt_def aead_decrypt_Inr master_key_bytes_def result_iffs split: if_splits)
  moreover obtain n where "utf8_encode name' = Inr n" "aad = MVLT_MAGIC @ [1] @ sha256 h @ n"
    using d(6) by (auto simp: container_aad_def result_iffs)
  ultimately show "\<exists>h b64 token n kvs. blob = h @ 10 # b64 \<and> 10 \<notin> set h \<and> b64decode True b64 = Inr token \<and>
         loads h = Inr (JObj kvs) \<and> obj_get kvs ''name'' = JStr name' \<and> utf8_encode name' = Inr n \<and>
         gcm_open C (mk_key m) (take 12 token) (drop 12 token) (MVLT_MAGIC @ [1] @ sha256 h @ n) = Inr q"
    using d by blast
qed

lemma demo_container_ok:
  "container_ok demo_crypto (replicate 12 1) (master_new (replicate 32 2)) [107] [46, 101, 110, 118] [1, 2]"
  using crypto_okD(1) [OF demo_crypto_ok]
  by (simp add: container_ok_def master_new_def is_scalar_def is_surrogate_def gcm_limit_def)

lemma container_roundtrip_bound_witness:
  "\<exists>b. container_encode demo_crypto (replicate 12 1) (master_new (replicate 32 2)) [1, 2] [107] [9] [46, 101, 110, 118] = Inr b \<and>
     container_decode demo_crypto b (master_new (replicate 32 2)) [46, 101, 110, 118] = Inr [1, 2]"
  by (rule container_roundtrip_bound [OF demo_container_ok, THEN conjunct1])

section \<open>What decoding can raise\<close>

text \<open>The error contract of \<open>decode\<close>. For a non-empty encodable name and an open master key of a
  valid size, when the cipher refuses only with \<open>InvalidTag\<close>, everything \<open>decode\<close> raises is an
  \<open>EncryptedFileError\<close>, with one exception: a plain \<open>ValueError\<close> that the JSON parser of the header
  line raised, which does happen, on a header that is a decimal number of more than 4300 digits.\<close>

lemma container_decode_errors:
  assumes "name \<noteq> []" "list_all is_scalar name" "\<not> mk_closed m"
    "\<And>n c a. raises is_invalid_tag (gcm_open C (mk_key m) n c a)"
  shows "raises (\<lambda>e. e = EncryptedFileError \<or>
      e = ValueError \<and> loads (fst (partition_at 10 blob)) = Inl ValueError) (container_decode C blob m name) \<and>
    (4300 < k \<longrightarrow> container_decode C (ascii_bytes (replicate k 49) @ 10 # b) m name = Inl ValueError)"
proof
  let ?P = "\<lambda>e. e = EncryptedFileError \<or> e = ValueError \<and> loads (fst (partition_at 10 blob)) = Inl ValueError"
  obtain n where n: "utf8_encode name = Inr n" using assms(2) by (auto simp: utf8_encode_def)
  have body: "raises ?P (container_open_body C h b64 m name)" for h b64
  proof -
    have "raises ?P (r_catch is_invalid_tag EncryptedFileError (master_decrypt C m token aad))" for token aad
      using assms(3,4) by (auto intro!: raises_catch simp: master_decrypt_def master_key_bytes_def aead_decrypt_def
          is_invalid_tag_def raises_def r_catch_Inl_iff)
    moreover have "raises ?P (r_catch is_value_error EncryptedFileError (b64decode True b64))"
      using b64decode_raises [of True b64] by (intro raises_catch) (auto simp: raises_def is_value_error_def)
    ultimately show ?thesis
      by (auto simp: container_open_body_def container_aad_def n intro!: raises_bind)
  qed
  have head: "raises ?P (check_container_header header name)" for header
    by (auto simp: check_container_header_def split: json.split)
  obtain h sep b64 where part: "partition_at 10 blob = (h, sep, b64)" by (cases "partition_at 10 blob")
  have "raises ?P (r_catch is_json_failure EncryptedFileError (loads h))"
    using loads_raises [of h] part by (auto simp: raises_def r_catch_Inl_iff loads_error_def is_json_failure_def)
  then show "raises ?P (container_decode C blob m name)"
    using body head assms(1) by (auto simp: container_decode_def part intro!: raises_bind)
  have "10 \<notin> set (ascii_bytes (replicate k 49))"
    by (intro newline_not_in_ascii) (auto simp: is_ascii_def list_all_iff)
  then show "4300 < k \<longrightarrow> container_decode C (ascii_bytes (replicate k 49) @ 10 # b) m name = Inl ValueError"
    using assms(1) loads_huge_int [of k] by (simp add: container_decode_def partition_at_append is_json_failure_def)
qed

lemma demo_gcm_raises: "length k = 32 \<Longrightarrow> raises is_invalid_tag (gcm_open demo_crypto k n c a)"
  by (simp add: demo_crypto_def is_invalid_tag_def)

lemma container_decode_errors_witness:
  "container_decode demo_crypto (ascii_bytes (replicate 4301 49) @ [10]) (master_new (replicate 32 2)) [120] = Inl ValueError"
  by (rule container_decode_errors [THEN conjunct2, THEN mp])
    (simp_all add: master_new_def is_scalar_def is_surrogate_def demo_gcm_raises)

end
