(* ===== verification/Manifest.thy ===== *)
theory Manifest
  imports Kek File_Container
begin

text \<open>
  \<open>_core/_bounded_json.py\<close>, the JSON decoder that refuses more than 128 nested containers, and
  \<open>keyvault/manifest.py\<close>, the authenticated \<open>MVMF\<close> registry of a vault: its body, its MAC,
  the parse that trusts nothing before the MAC has been checked, and the bootstrap parse that
  skips it. The \<open>files\<close> dict is an association list in insertion order without duplicate keys.
\<close>

section \<open>Bounded JSON\<close>

definition MAX_JSON_DEPTH :: int where "MAX_JSON_DEPTH = 128"

fun depth_scan :: "int \<Rightarrow> bool \<Rightarrow> bool \<Rightarrow> py_str \<Rightarrow> exn option" where
  "depth_scan depth quoted escaped [] = None"
| "depth_scan depth quoted escaped (c # s) =
     (if quoted then
        (if escaped then depth_scan depth True False s
         else if c = 92 then depth_scan depth True True s
         else if c = 34 then depth_scan depth False escaped s
         else depth_scan depth True False s)
      else if c = 34 then depth_scan depth True escaped s
      else if c = 91 \<or> c = 123 then
        (if depth + 1 > MAX_JSON_DEPTH then Some JSONDepthError else depth_scan (depth + 1) False escaped s)
      else if c = 93 \<or> c = 125 then depth_scan (depth - 1) False escaped s
      else depth_scan depth False escaped s)"

definition bounded_check :: "py_str \<Rightarrow> exn option" where
  "bounded_check s = depth_scan 0 False False s"

definition bounded_loads :: "bytes \<Rightarrow> json result" where
  "bounded_loads = loads_with as_dict bounded_check"

section \<open>The manifest\<close>

record vault_manifest =
  vm_key_id :: py_str
  vm_wmk :: bytes
  vm_files :: "(py_str \<times> py_str) list"
  vm_generation :: int

text \<open>Equality of the dataclass: \<open>files\<close> are compared as dicts.\<close>

definition manifest_eq :: "vault_manifest \<Rightarrow> vault_manifest \<Rightarrow> bool" where
  "manifest_eq a b \<longleftrightarrow> vm_key_id a = vm_key_id b \<and> vm_wmk a = vm_wmk b \<and>
     vm_generation a = vm_generation b \<and> map_of (vm_files a) = map_of (vm_files b)"

definition MANIFEST_MAC_INFO :: bytes where
  "MANIFEST_MAC_INFO = bytes_lit ''mordred-vault-manifest-v1''"

definition is_sha256_hex :: "py_str \<Rightarrow> bool" where
  "is_sha256_hex s \<longleftrightarrow> length s = 64 \<and> list_all is_lower_hex s"

definition manifest_json :: "vault_manifest \<Rightarrow> json" where
  "manifest_json m =
     JObj [(str_lit ''fmt'', JStr (str_lit ''MVMF'')), (str_lit ''ver'', JInt 1),
           (str_lit ''key_id'', JStr (vm_key_id m)), (str_lit ''wmk'', JStr (b64encode (vm_wmk m))),
           (str_lit ''files'', JObj (map (\<lambda>(k, v). (k, JStr v)) (vm_files m))),
           (str_lit ''generation'', JInt (vm_generation m))]"

definition body_bytes :: "vault_manifest \<Rightarrow> bytes result" where
  "body_bytes m = dumps (manifest_json m)"

definition manifest_encode :: "('x) crypto_scheme \<Rightarrow> vault_manifest \<Rightarrow> master_key \<Rightarrow> bytes result" where
  "manifest_encode C m master =
     (if vm_key_id m = [] then Inl ValueError
      else if vm_generation m < 0 then Inl ValueError
      else r_bind (body_bytes m) (\<lambda>body.
        r_bind (master_mac C master body MANIFEST_MAC_INFO) (\<lambda>tag.
          Inr (body @ [10] @ ascii_bytes (b64encode tag)))))"

definition verify_mac :: "('x) crypto_scheme \<Rightarrow> bytes \<Rightarrow> bytes \<Rightarrow> master_key \<Rightarrow> unit result" where
  "verify_mac C body tag_b64 master =
     r_bind (r_catch is_value_error ManifestError (b64decode True tag_b64)) (\<lambda>tag.
       r_bind (master_mac C master body MANIFEST_MAC_INFO) (\<lambda>expected.
         if \<not> compare_digest tag expected then Inl ManifestError else Inr ()))"

definition is_manifest_json_failure :: "exn \<Rightarrow> bool" where
  "is_manifest_json_failure e \<longleftrightarrow> e \<in> {JSONDecodeError, UnicodeDecodeError, JSONDepthError}"

text \<open>The digests of \<open>files\<close>, when every value is one.\<close>

fun parse_files :: "(py_str \<times> json) list \<Rightarrow> (py_str \<times> py_str) list option" where
  "parse_files [] = Some []"
| "parse_files ((k, v) # kvs) =
     (case v of
        JStr s \<Rightarrow> if is_sha256_hex s then map_option (Cons (k, s)) (parse_files kvs) else None
      | _ \<Rightarrow> None)"

definition parse_fields :: "(py_str \<times> json) list \<Rightarrow> vault_manifest result" where
  "parse_fields kvs =
     (case json_str (obj_get kvs ''key_id'') of None \<Rightarrow> Inl ManifestError
      | Some key_id \<Rightarrow>
     (case json_str (obj_get kvs ''wmk'') of None \<Rightarrow> Inl ManifestError
      | Some wmk_b64 \<Rightarrow>
     r_bind (r_catch is_value_error ManifestError (b64decode_str True wmk_b64)) (\<lambda>wmk.
     (case obj_get kvs ''files'' of
        JObj fs \<Rightarrow>
          (case parse_files fs of None \<Rightarrow> Inl ManifestError
           | Some files \<Rightarrow>
          (case json_nat (obj_get kvs ''generation'') of None \<Rightarrow> Inl ManifestError
           | Some g \<Rightarrow>
               Inr \<lparr>vm_key_id = key_id, vm_wmk = wmk, vm_files = files, vm_generation = int g\<rparr>))
      | _ \<Rightarrow> Inl ManifestError))))"

definition parse_body :: "bytes \<Rightarrow> vault_manifest result" where
  "parse_body body =
     r_bind (r_catch is_manifest_json_failure ManifestError (bounded_loads body)) (\<lambda>parsed.
       case parsed of
         JObj kvs \<Rightarrow>
           if obj_get kvs ''fmt'' \<noteq> JStr (str_lit ''MVMF'') \<or> \<not> json_eq_1 (obj_get kvs ''ver'')
           then Inl ManifestError
           else parse_fields kvs
       | _ \<Rightarrow> Inl ManifestError)"

definition manifest_split :: "bytes \<Rightarrow> (bytes \<times> bytes) result" where
  "manifest_split blob =
     (case partition_at 10 blob of (body, sep, tag_b64) \<Rightarrow>
        if \<not> sep then Inl ManifestError else Inr (body, tag_b64))"

definition manifest_decode :: "('x) crypto_scheme \<Rightarrow> bytes \<Rightarrow> master_key \<Rightarrow> vault_manifest result" where
  "manifest_decode C blob master =
     r_bind (manifest_split blob) (\<lambda>(body, tag_b64).
       r_bind (verify_mac C body tag_b64 master) (\<lambda>_. parse_body body))"

definition parse_unverified :: "bytes \<Rightarrow> vault_manifest result" where
  "parse_unverified blob = r_bind (manifest_split blob) (\<lambda>(body, _). parse_body body)"

text \<open>Reading a result off the checks of a parser.\<close>

lemma case_obj_Inr_iff:
  "(case j of JObj kvs \<Rightarrow> f kvs | _ \<Rightarrow> Inl e) = Inr y \<longleftrightarrow> (\<exists>kvs. j = JObj kvs \<and> f kvs = Inr y)"
  by (cases j) auto

lemma case_option_Inr_iff:
  "(case x of None \<Rightarrow> Inl e | Some z \<Rightarrow> f z) = Inr y \<longleftrightarrow> (\<exists>z. x = Some z \<and> f z = Inr y)"
  by (cases x) auto

lemmas parser_iffs = result_iffs if_Inl_Inr_iff case_obj_Inr_iff case_option_Inr_iff

section \<open>The depth check accepts what the writer nests\<close>

fun fits :: "nat \<Rightarrow> json \<Rightarrow> bool" where
  "fits n (JList js) \<longleftrightarrow> 0 < n \<and> (\<forall>j \<in> set js. fits (n - 1) j)"
| "fits n (JObj kvs) \<longleftrightarrow> 0 < n \<and> (\<forall>j \<in> snd ` set kvs. fits (n - 1) j)"
| "fits n _ \<longleftrightarrow> True"

definition plain :: "nat \<Rightarrow> bool" where
  "plain c \<longleftrightarrow> c \<notin> {34, 91, 92, 93, 123, 125}"

lemma depth_scan_plain: "list_all plain t \<Longrightarrow> depth_scan d False False (t @ r) = depth_scan d False False r"
  by (induction t) (auto simp: plain_def)

lemma depth_scan_escape_char:
  "depth_scan d True False (escape_char ea c @ r) = depth_scan d True False r"
proof -
  have "hex_digit n \<noteq> 92" "hex_digit n \<noteq> 34" for n
    by (auto simp: hex_digit_def)
  then have "depth_scan d True False (u_escape n @ r) = depth_scan d True False r" for n r
    by (simp add: u_escape_def)
  then show ?thesis by (simp add: escape_char_def)
qed

lemma depth_scan_quote: "depth_scan d False False (json_quote ea s @ r) = depth_scan d False False r"
proof -
  have "depth_scan d True False (concat (map (escape_char ea) s) @ 34 # r) = depth_scan d False False r"
    by (induction s) (simp_all add: depth_scan_escape_char)
  then show ?thesis by (simp add: json_quote_def)
qed

lemma plain_dec: "list_all plain (dec n)"
  using dec_digits(1) [of n] by (auto simp: list_all_iff plain_def is_digit_def)

lemma plain_int_repr: "int_repr i = Inr t \<Longrightarrow> list_all plain t"
  using plain_dec by (auto simp: int_repr_def plain_def split: if_splits)

lemma depth_scan_jprint:
  "jprint ea j = Inr t \<Longrightarrow> fits n j \<Longrightarrow> d + int n \<le> 128 \<Longrightarrow>
     depth_scan d False False (t @ r) = depth_scan d False False r"
  "jprint_elems ea js = Inr t \<Longrightarrow> \<forall>j \<in> set js. fits n j \<Longrightarrow> d + int n \<le> 128 \<Longrightarrow>
     depth_scan d False False (t @ r) = depth_scan d False False r"
  "jprint_items ea kvs = Inr t \<Longrightarrow> \<forall>j \<in> snd ` set kvs. fits n j \<Longrightarrow> d + int n \<le> 128 \<Longrightarrow>
     depth_scan d False False (t @ r) = depth_scan d False False r"
proof (induction ea j and ea js and ea kvs arbitrary: t n d r and t n d r and t n d r
    rule: jprint_jprint_elems_jprint_items.induct)
  case (3 ea i)
  then show ?case using depth_scan_plain [OF plain_int_repr] by simp
next
  case (8 ea js)
  then obtain u where u: "jprint_elems ea js = Inr u" "t = 91 # u @ [93]" by (auto simp: result_iffs)
  obtain m where m: "n = Suc m" "\<forall>j \<in> set js. fits m j" using 8(3) by (cases n) auto
  have "depth_scan (d + 1) False False (u @ 93 # r) = depth_scan (d + 1) False False (93 # r)"
    using 8(4) m(1) by (intro 8(1) [OF u(1) m(2)]) simp
  then show ?case using u(2) 8(4) m(1) by (simp add: MAX_JSON_DEPTH_def)
next
  case (9 ea kvs)
  then obtain u where u: "jprint_items ea kvs = Inr u" "t = 123 # u @ [125]" by (auto simp: result_iffs)
  obtain m where m: "n = Suc m" "\<forall>j \<in> snd ` set kvs. fits m j" using 9(3) by (cases n) auto
  have "depth_scan (d + 1) False False (u @ 125 # r) = depth_scan (d + 1) False False (125 # r)"
    using 9(4) m(1) by (intro 9(1) [OF u(1) m(2)]) simp
  then show ?case using u(2) 9(4) m(1) by (simp add: MAX_JSON_DEPTH_def)
next
  case (11 ea j js)
  then show ?case by (auto simp: result_iffs)
next
  case (13 ea k j kvs)
  then show ?case by (auto simp: result_iffs depth_scan_quote)
qed (auto simp: depth_scan_quote str_lit_def)

lemma fits_sort: "fits n j \<Longrightarrow> fits n (sort_json j)"
proof (induction j arbitrary: n rule: sort_json.induct)
  case (2 kvs)
  then show ?case by (fastforce simp: image_iff)
qed auto

lemma bounded_loads_dumps:
  assumes "dumps j = Inr bs" "json_ok j" "fits 128 j"
  shows "bounded_loads bs = Inr (sort_json j)"
proof -
  from assms(1) obtain t where t: "jprint True (sort_json j) = Inr t" "bs = ascii_bytes t"
    by (auto simp: dumps_def result_iffs)
  have ok: "json_ok (sort_json j)" using assms(2) by (rule json_ok_sort)
  have "bounded_check t = None"
    using depth_scan_jprint(1) [OF t(1) fits_sort [OF assms(3)], of 0 "[]"] by (simp add: bounded_check_def)
  then show ?thesis
    using t loads_jprint [OF t(1) ok] jprint_text(1) [OF t(1) ok] by (simp add: bounded_loads_def)
qed

section \<open>Round trip\<close>

definition manifest_norm :: "vault_manifest \<Rightarrow> vault_manifest" where
  "manifest_norm m = m\<lparr>vm_files := sort_key fst (vm_files m)\<rparr>"

definition manifest_ok :: "vault_manifest \<Rightarrow> bool" where
  "manifest_ok m \<longleftrightarrow> vm_key_id m \<noteq> [] \<and> list_all is_scalar (vm_key_id m) \<and> 0 \<le> vm_generation m \<and>
     length (dec (nat (vm_generation m))) \<le> max_str_digits \<and> distinct (map fst (vm_files m)) \<and>
     (\<forall>(k, v) \<in> set (vm_files m). list_all is_scalar k \<and> is_sha256_hex v)"

lemma manifest_norm_simps [simp]:
  "vm_key_id (manifest_norm m) = vm_key_id m" "vm_wmk (manifest_norm m) = vm_wmk m"
  "vm_generation (manifest_norm m) = vm_generation m"
  "vm_files (manifest_norm m) = sort_key fst (vm_files m)"
  by (simp_all add: manifest_norm_def)

lemma manifest_norm_eq: "distinct (map fst (vm_files m)) \<Longrightarrow> manifest_eq (manifest_norm m) m"
  by (simp add: manifest_eq_def map_of_sort_key)

lemma manifest_norm_sorted: "sorted (map fst (vm_files m)) \<Longrightarrow> manifest_norm m = m"
  by (simp add: manifest_norm_def sort_key_id_if_sorted)

definition json_file :: "py_str \<times> py_str \<Rightarrow> py_str \<times> json" where
  "json_file = (\<lambda>(k, v). (k, JStr v))"

lemma sort_json_files:
  "sort_key fst (map (\<lambda>(k, j). (k, sort_json j)) (map json_file fs)) = map json_file (sort_key fst fs)"
proof -
  have "insort_key fst (json_file x) (map json_file xs) = map json_file (insort_key fst x xs)" for x xs
    by (induction xs) (auto simp: json_file_def split: prod.splits)
  then have "sort_key fst (map json_file fs) = map json_file (sort_key fst fs)"
    by (induction fs) (simp_all add: json_file_def)
  moreover have "map (\<lambda>(k, j). (k, sort_json j)) (map json_file fs) = map json_file fs"
    by (auto simp: json_file_def)
  ultimately show ?thesis by (simp only:)
qed

lemma parse_files_json: "\<forall>(k, v) \<in> set fs. is_sha256_hex v \<Longrightarrow> parse_files (map json_file fs) = Some fs"
  by (induction fs) (auto simp: json_file_def)

lemma lower_hex_scalar: "is_sha256_hex v \<Longrightarrow> list_all is_scalar v"
  by (auto simp: is_sha256_hex_def is_lower_hex_def is_scalar_def is_surrogate_def list_all_iff)

lemma b64_scalar: "list_all is_scalar (b64encode b)"
  using b64encode_ascii [of b] by (auto simp: is_ascii_def list_all_iff is_scalar_ascii)

lemma manifest_json_alt:
  "manifest_json m =
     JObj [(str_lit ''fmt'', JStr (str_lit ''MVMF'')), (str_lit ''ver'', JInt 1),
           (str_lit ''key_id'', JStr (vm_key_id m)), (str_lit ''wmk'', JStr (b64encode (vm_wmk m))),
           (str_lit ''files'', JObj (map json_file (vm_files m))),
           (str_lit ''generation'', JInt (vm_generation m))]"
  by (simp add: manifest_json_def json_file_def)

lemma manifest_json_ok:
  assumes "manifest_ok m"
  shows "json_ok (manifest_json m)" "fits 128 (manifest_json m)" "json_printable (manifest_json m)"
proof -
  have fs: "map fst (map json_file (vm_files m)) = map fst (vm_files m)"
    by (simp add: json_file_def case_prod_beta)
  have "json_ok (JObj (map json_file (vm_files m)))"
    using assms lower_hex_scalar
    by (simp only: json_ok.simps fs) (fastforce simp: manifest_ok_def json_file_def)
  then show "json_ok (manifest_json m)"
    using assms b64_scalar
    by (simp add: manifest_json_alt manifest_ok_def is_scalar_def is_surrogate_def del: json_ok.simps(3))
      (simp add: str_lit_def is_scalar_def is_surrogate_def)
  show "fits 128 (manifest_json m)" "json_printable (manifest_json m)"
    using assms by (auto simp: manifest_json_alt manifest_ok_def json_file_def max_str_digits_def dec.simps [of "Suc 0"])
qed

lemma parse_body_bytes:
  assumes "manifest_ok m" "body_bytes m = Inr body"
  shows "parse_body body = Inr (manifest_norm m)" "10 \<notin> set body"
proof -
  note ok = manifest_json_ok [OF assms(1)]
  have d: "dumps (manifest_json m) = Inr body" using assms(2) by (simp add: body_bytes_def)
  from bounded_loads_dumps [OF d ok(1,2)] have l: "bounded_loads body = Inr (sort_json (manifest_json m))" .
  obtain kvs where kvs: "sort_json (manifest_json m) = JObj kvs"
    and get: "\<And>k. map_of kvs k = map_option sort_json (map_of
      [(str_lit ''fmt'', JStr (str_lit ''MVMF'')), (str_lit ''ver'', JInt 1),
       (str_lit ''key_id'', JStr (vm_key_id m)), (str_lit ''wmk'', JStr (b64encode (vm_wmk m))),
       (str_lit ''files'', JObj (map json_file (vm_files m))),
       (str_lit ''generation'', JInt (vm_generation m))] k)"
    using map_of_sorted_header [OF ok(1) [unfolded manifest_json_alt]] unfolding manifest_json_alt by metis
  have fields: "obj_get kvs ''fmt'' = JStr (str_lit ''MVMF'')" "obj_get kvs ''ver'' = JInt 1"
    "obj_get kvs ''key_id'' = JStr (vm_key_id m)" "obj_get kvs ''wmk'' = JStr (b64encode (vm_wmk m))"
    "obj_get kvs ''generation'' = JInt (vm_generation m)"
    by (simp_all add: obj_get_def get str_lit_def)
  have files: "obj_get kvs ''files'' = JObj (map json_file (sort_key fst (vm_files m)))"
    by (simp add: obj_get_def get str_lit_def del: map_map) (rule sort_json_files)
  have "parse_files (map json_file (sort_key fst (vm_files m))) = Some (sort_key fst (vm_files m))"
    using assms(1) by (intro parse_files_json) (auto simp: manifest_ok_def)
  then have "parse_fields kvs = Inr (manifest_norm m)"
    using assms(1) by (simp add: parse_fields_def fields files json_str_def json_nat_def manifest_norm_def manifest_ok_def)
  then show "parse_body body = Inr (manifest_norm m)"
    by (simp add: parse_body_def l kvs fields json_eq_1_def)
  show "10 \<notin> set body" using dumps_no_newline [OF d ok(1)] .
qed

lemma manifest_encode_parts:
  assumes "manifest_ok m" "\<not> mk_closed master"
  obtains body tag where "manifest_encode C m master = Inr (body @ 10 # ascii_bytes (b64encode tag))"
    "body_bytes m = Inr body" "master_mac C master body MANIFEST_MAC_INFO = Inr tag" "10 \<notin> set body"
proof -
  obtain body where b: "body_bytes m = Inr body"
    using dumps_total [OF manifest_json_ok(3) [OF assms(1)]] by (auto simp: body_bytes_def)
  obtain tag where "master_mac C master body MANIFEST_MAC_INFO = Inr tag"
    using assms(2) by (simp add: master_mac_def master_key_bytes_def)
  with b that assms(1) parse_body_bytes(2) [OF assms(1) b] show ?thesis
    by (simp add: manifest_encode_def manifest_ok_def)
qed

lemma manifest_decode_encode:
  assumes "manifest_ok m" "\<not> mk_closed master"
  shows "\<exists>b. manifest_encode C m master = Inr b \<and> manifest_decode C b master = Inr (manifest_norm m) \<and>
    parse_unverified b = Inr (manifest_norm m)"
proof -
  obtain body tag where e: "manifest_encode C m master = Inr (body @ 10 # ascii_bytes (b64encode tag))"
    "body_bytes m = Inr body" "master_mac C master body MANIFEST_MAC_INFO = Inr tag" "10 \<notin> set body"
    by (rule manifest_encode_parts [OF assms])
  then show ?thesis
    using parse_body_bytes(1) [OF assms(1) e(2)]
    by (simp add: manifest_decode_def parse_unverified_def manifest_split_def partition_at_append
        verify_mac_def compare_digest_def)
qed

interpretation mvmf: codec
  "\<lambda>m. manifest_ok m \<and> sorted (map fst (vm_files m)) \<and> \<not> mk_closed master"
  "\<lambda>m. manifest_encode C m master" "\<lambda>b. manifest_decode C b master" for C master
  using manifest_decode_encode manifest_norm_sorted by unfold_locales fastforce

text \<open>The digests a parsed manifest holds are safe file names.\<close>

lemma parse_files_hex: "parse_files kvs = Some fs \<Longrightarrow> \<forall>v \<in> snd ` set fs. is_sha256_hex v"
  by (induction kvs arbitrary: fs) (fastforce split: json.splits if_splits prod.splits)+

lemma parse_body_hex:
  assumes "parse_body body = Inr m"
  shows "\<forall>v \<in> snd ` set (vm_files m). is_sha256_hex v" "0 \<le> vm_generation m"
proof -
  from assms obtain kvs where "parse_fields kvs = Inr m"
    by (auto simp: parse_body_def parser_iffs simp del: if_split)
  then obtain fs g where "parse_files fs = Some (vm_files m)" "vm_generation m = int g"
    by (auto simp: parse_fields_def parser_iffs)
  then show "\<forall>v \<in> snd ` set (vm_files m). is_sha256_hex v" "0 \<le> vm_generation m"
    by (auto dest: parse_files_hex)
qed

lemma manifest_decode_Inr:
  "manifest_decode C blob master = Inr m \<longleftrightarrow>
     (\<exists>body t tag. blob = body @ 10 # t \<and> 10 \<notin> set body \<and> b64decode True t = Inr tag \<and>
        master_mac C master body MANIFEST_MAC_INFO = Inr tag \<and> parse_body body = Inr m)"
  (is "?l \<longleftrightarrow> ?r")
proof
  assume l: ?l
  obtain body sep t where part: "partition_at 10 blob = (body, sep, t)" by (cases "partition_at 10 blob")
  with l have sep by (auto simp: manifest_decode_def manifest_split_def split: if_splits)
  with part have "blob = body @ 10 # t \<and> 10 \<notin> set body" by (intro partition_at_True) simp
  with l part \<open>sep\<close> show ?r
    by (fastforce simp: manifest_decode_def manifest_split_def verify_mac_def compare_digest_def result_iffs
        if_Inl_Inr_iff simp del: if_split)
next
  assume ?r
  then show ?l
    by (auto simp: manifest_decode_def manifest_split_def verify_mac_def compare_digest_def partition_at_append)
qed

lemma parse_unverified_of_decode:
  "manifest_decode C blob master = Inr m \<Longrightarrow> parse_unverified blob = Inr m"
  by (auto simp: manifest_decode_Inr parse_unverified_def manifest_split_def partition_at_append)

text \<open>C36: The manifest codec. Encoding under an open master and decoding under it gives an equal
  manifest, which the unauthenticated bootstrap parse reads as well; whatever decodes carries, over
  the exact body bytes, the HMAC under the master's manifest subkey, agrees with the bootstrap parse,
  and names blobs only by 64 lowercase hexadecimal digits; and when the tag is not that HMAC the blob
  is a \<open>ManifestError\<close> whatever its body says, since nothing of it is parsed.\<close>

theorem manifest_authenticated:
  assumes "\<not> mk_closed master"
  shows "(manifest_ok m \<longrightarrow> (\<exists>b m'. manifest_encode C m master = Inr b \<and> manifest_decode C b master = Inr m' \<and>
       manifest_eq m' m \<and> parse_unverified b = Inr m')) \<and>
    (manifest_decode C blob master = Inr r \<longrightarrow>
       (\<exists>body t. blob = body @ 10 # t \<and> 10 \<notin> set body \<and>
          b64decode True t = Inr (hmac_sha256 (hkdf_sha256 C (mk_key master) MANIFEST_MAC_INFO 32) body) \<and>
          parse_body body = Inr r) \<and>
       parse_unverified blob = Inr r \<and> (\<forall>v \<in> snd ` set (vm_files r). is_sha256_hex v)) \<and>
    (10 \<notin> set body \<longrightarrow>
       b64decode True t \<noteq> Inr (hmac_sha256 (hkdf_sha256 C (mk_key master) MANIFEST_MAC_INFO 32) body) \<longrightarrow>
       manifest_decode C (body @ 10 # t) master = Inl ManifestError)"
proof (intro conjI impI)
  assume "manifest_ok m"
  then show "\<exists>b m'. manifest_encode C m master = Inr b \<and> manifest_decode C b master = Inr m' \<and>
       manifest_eq m' m \<and> parse_unverified b = Inr m'"
    using manifest_decode_encode [OF _ assms] manifest_norm_eq by (fastforce simp: manifest_ok_def)
next
  assume d: "manifest_decode C blob master = Inr r"
  show "\<exists>body t. blob = body @ 10 # t \<and> 10 \<notin> set body \<and>
      b64decode True t = Inr (hmac_sha256 (hkdf_sha256 C (mk_key master) MANIFEST_MAC_INFO 32) body) \<and>
      parse_body body = Inr r"
    using d assms by (auto simp: manifest_decode_Inr master_mac_def master_key_bytes_def)
  show "parse_unverified blob = Inr r" using d by (rule parse_unverified_of_decode)
  show "\<forall>v \<in> snd ` set (vm_files r). is_sha256_hex v"
    using d parse_body_hex(1) by (auto simp: manifest_decode_Inr)
next
  assume "10 \<notin> set body"
    "b64decode True t \<noteq> Inr (hmac_sha256 (hkdf_sha256 C (mk_key master) MANIFEST_MAC_INFO 32) body)"
  moreover have "e = BinasciiError" if "b64decode True t = Inl e" for e
    using b64decode_raises that by (rule raisesD)
  ultimately show "manifest_decode C (body @ 10 # t) master = Inl ManifestError"
    using assms by (cases "b64decode True t")
      (auto simp: manifest_decode_def manifest_split_def partition_at_append verify_mac_def compare_digest_def
        master_mac_def master_key_bytes_def is_value_error_def)
qed

definition demo_manifest :: vault_manifest where
  "demo_manifest = \<lparr>vm_key_id = [107], vm_wmk = [1, 2], vm_files = [([46], replicate 64 97)], vm_generation = 3\<rparr>"

lemma demo_manifest_ok: "manifest_ok demo_manifest"
  by (simp add: manifest_ok_def demo_manifest_def is_scalar_def is_surrogate_def max_str_digits_def
      dec.simps is_sha256_hex_def is_lower_hex_def list_all_iff)

lemma manifest_authenticated_witness:
  "\<exists>b m'. manifest_encode demo_crypto demo_manifest (master_new [1]) = Inr b \<and>
     manifest_decode demo_crypto b (master_new [1]) = Inr m' \<and> manifest_eq m' demo_manifest"
proof -
  have "\<not> mk_closed (master_new [1])" by (simp add: master_new_def)
  from manifest_authenticated [OF this, THEN conjunct1, THEN mp, OF demo_manifest_ok] show ?thesis by blast
qed

section \<open>What decoding can raise\<close>

lemma depth_scan_raises: "depth_scan d q e s = Some x \<Longrightarrow> x = JSONDepthError"
  by (induction d q e s rule: depth_scan.induct) (auto split: if_splits)

lemma bounded_loads_raises:
  "raises (\<lambda>e. e \<in> {UnicodeDecodeError, JSONDecodeError, JSONDepthError, ValueError}) (bounded_loads bs)"
  unfolding bounded_loads_def
  by (rule loads_with_raises)
    (auto simp: bounded_check_def as_dict_def dest: depth_scan_raises split: option.split)

lemma parse_fields_raises: "raises (\<lambda>e. e = ManifestError) (parse_fields kvs)"
proof -
  have "raises (\<lambda>e. e = ManifestError) (r_catch is_value_error ManifestError (b64decode_str True s))" for s
    using b64decode_str_raises [of True s] by (intro raises_catch) (auto simp: raises_def)
  then show ?thesis
    by (auto simp: parse_fields_def intro!: raises_bind split: option.split json.split)
qed

lemma parse_body_raises:
  "raises (\<lambda>e. e = ManifestError \<or> e = ValueError \<and> bounded_loads body = Inl ValueError) (parse_body body)"
  (is "raises ?P _")
proof -
  have "raises ?P (r_catch is_manifest_json_failure ManifestError (bounded_loads body))"
    using bounded_loads_raises [of body]
    by (auto simp: raises_def r_catch_Inl_iff is_manifest_json_failure_def)
  moreover have "raises ?P (parse_fields kvs)" for kvs
    using raises_mono [OF parse_fields_raises] by auto
  ultimately show ?thesis
    by (auto simp: parse_body_def intro!: raises_bind split: json.split)
qed

lemma bounded_huge_int: "4300 < k \<Longrightarrow> bounded_loads (ascii_bytes (replicate k 49)) = Inl ValueError"
proof -
  have "bounded_check (replicate k 49) = None"
    using depth_scan_plain [of "replicate k 49" 0 "[]"] by (simp add: bounded_check_def plain_def list_all_iff)
  then show "4300 < k \<Longrightarrow> ?thesis"
    unfolding bounded_loads_def by (rule loads_with_huge_int [rotated])
qed

text \<open>The error contract of the manifest parser. Under an open master everything \<open>decode\<close> raises is
  a \<open>ManifestError\<close>, and so is everything \<open>parse_unverified\<close> raises, except a plain \<open>ValueError\<close> from
  an integer literal of more than 4300 digits; the unauthenticated parse does let that one escape on
  bytes anyone can write.\<close>

lemma manifest_errors:
  assumes "\<not> mk_closed master"
  shows "raises (\<lambda>e. e = ManifestError \<or> e = ValueError \<and> bounded_loads (fst (partition_at 10 blob)) = Inl ValueError)
      (manifest_decode C blob master) \<and>
    raises (\<lambda>e. e = ManifestError \<or> e = ValueError \<and> bounded_loads (fst (partition_at 10 blob)) = Inl ValueError)
      (parse_unverified blob) \<and>
    (4300 < k \<longrightarrow> parse_unverified (ascii_bytes (replicate k 49) @ 10 # t) = Inl ValueError)"
proof (intro conjI impI)
  obtain body sep t where part: "partition_at 10 blob = (body, sep, t)" by (cases "partition_at 10 blob")
  let ?P = "\<lambda>e. e = ManifestError \<or> e = ValueError \<and> bounded_loads (fst (partition_at 10 blob)) = Inl ValueError"
  have body: "raises ?P (parse_body body)" using parse_body_raises [of body] part by simp
  then show "raises ?P (parse_unverified blob)"
    by (simp add: parse_unverified_def manifest_split_def part)
  have "raises ?P (r_catch is_value_error ManifestError (b64decode True t))"
    using b64decode_raises [of True t] by (intro raises_catch) (auto simp: raises_def is_value_error_def)
  then have "raises ?P (verify_mac C body t master)"
    using assms by (auto simp: verify_mac_def master_mac_def master_key_bytes_def intro!: raises_bind)
  with body show "raises ?P (manifest_decode C blob master)"
    by (auto simp: manifest_decode_def manifest_split_def part intro!: raises_bind)
next
  assume k: "4300 < k"
  have "10 \<notin> set (ascii_bytes (replicate k 49))"
    by (intro newline_not_in_ascii) (auto simp: is_ascii_def list_all_iff)
  with k show "parse_unverified (ascii_bytes (replicate k 49) @ 10 # t) = Inl ValueError"
    by (simp add: parse_unverified_def manifest_split_def partition_at_append parse_body_def bounded_huge_int
        is_manifest_json_failure_def)
qed

lemma manifest_errors_witness:
  "parse_unverified (ascii_bytes (replicate 4301 49) @ [10]) = Inl ValueError"
proof -
  have "\<not> mk_closed (master_new [1])" by (simp add: master_new_def)
  from manifest_errors [OF this, THEN conjunct2, THEN conjunct2, THEN mp] show ?thesis by simp
qed

end
