(* ===== verification/Anchor.thy ===== *)
theory Anchor
  imports Manifest
begin

text \<open>
  \<open>keyvault/anchor.py\<close>: the device-bound pin of a vault's \<open>wmk\<close> fingerprint and generation.
  The store (\<open>AnchorStore\<close>, a Keychain item) is a map from labels to bytes.
\<close>

record vault_anchor =
  va_wmk_sha256 :: bytes
  va_generation :: int

type_synonym anchor_store = "py_str \<Rightarrow> bytes option"

definition wmk_fingerprint :: "bytes \<Rightarrow> bytes" where
  "wmk_fingerprint wmk = sha256 wmk"

definition anchor_json :: "vault_anchor \<Rightarrow> json" where
  "anchor_json a = JObj [(str_lit ''v'', JInt 1), (str_lit ''wmk_sha256'', JStr (hex_of_bytes (va_wmk_sha256 a))),
     (str_lit ''generation'', JInt (va_generation a))]"

definition anchor_serialize :: "vault_anchor \<Rightarrow> bytes result" where
  "anchor_serialize a = dumps (anchor_json a)"

definition anchor_fields :: "(py_str \<times> json) list \<Rightarrow> vault_anchor result" where
  "anchor_fields kvs =
     (case json_str (obj_get kvs ''wmk_sha256'') of None \<Rightarrow> Inl AnchorCorrupt
      | Some fp_hex \<Rightarrow>
     r_bind (r_catch is_value_error AnchorCorrupt (fromhex fp_hex)) (\<lambda>fp.
       if length fp \<noteq> 32 then Inl AnchorCorrupt
       else (case json_nat (obj_get kvs ''generation'') of None \<Rightarrow> Inl AnchorCorrupt
             | Some g \<Rightarrow> Inr \<lparr>va_wmk_sha256 = fp, va_generation = int g\<rparr>)))"

definition anchor_deserialize :: "bytes \<Rightarrow> vault_anchor result" where
  "anchor_deserialize raw =
     r_bind (r_catch is_json_failure AnchorCorrupt (loads raw)) (\<lambda>parsed.
       case parsed of
         JObj kvs \<Rightarrow>
           if \<not> json_eq_1 (obj_get kvs ''v'') then Inl AnchorCorrupt else anchor_fields kvs
       | _ \<Rightarrow> Inl AnchorCorrupt)"

definition write_anchor :: "anchor_store \<Rightarrow> py_str \<Rightarrow> bytes \<Rightarrow> int \<Rightarrow> anchor_store result" where
  "write_anchor store label wmk generation =
     (if wmk = [] then Inl ValueError
      else if generation < 0 then Inl ValueError
      else r_bind (anchor_serialize \<lparr>va_wmk_sha256 = wmk_fingerprint wmk, va_generation = generation\<rparr>)
        (\<lambda>raw. Inr (store(label \<mapsto> raw))))"

definition read_anchor :: "anchor_store \<Rightarrow> py_str \<Rightarrow> vault_anchor result" where
  "read_anchor store label =
     (case store label of None \<Rightarrow> Inl AnchorMissing | Some raw \<Rightarrow> anchor_deserialize raw)"

definition verify_pinned :: "vault_anchor \<Rightarrow> bytes \<Rightarrow> int \<Rightarrow> unit result" where
  "verify_pinned pinned wmk generation =
     (if \<not> compare_digest (va_wmk_sha256 pinned) (wmk_fingerprint wmk) then Inl AnchorMismatch
      else if va_generation pinned \<noteq> generation then Inl AnchorMismatch
      else Inr ())"

definition verify_anchor :: "anchor_store \<Rightarrow> py_str \<Rightarrow> bytes \<Rightarrow> int \<Rightarrow> unit result" where
  "verify_anchor store label wmk generation =
     r_bind (read_anchor store label) (\<lambda>pinned. verify_pinned pinned wmk generation)"

section \<open>Lemmas\<close>

definition anchor_ok :: "vault_anchor \<Rightarrow> bool" where
  "anchor_ok a \<longleftrightarrow> length (va_wmk_sha256 a) = 32 \<and> 0 \<le> va_generation a \<and>
     length (dec (nat (va_generation a))) \<le> max_str_digits"

lemma hex_scalar: "list_all is_scalar (hex_of_bytes b)"
  using hex_of_bytes_lower [of b]
  by (auto simp: list_all_iff is_lower_hex_def is_scalar_def is_surrogate_def)

lemma anchor_json_ok: "json_ok (anchor_json a)"
  using hex_scalar by (simp add: anchor_json_def) (simp add: str_lit_def is_scalar_def is_surrogate_def)

lemma anchor_deserialize_serialize:
  assumes "anchor_ok a"
  shows "\<exists>raw. anchor_serialize a = Inr raw \<and> anchor_deserialize raw = Inr a"
proof -
  have "json_printable (anchor_json a)"
    using assms by (auto simp: anchor_json_def anchor_ok_def max_str_digits_def dec.simps [of "Suc 0"])
  then obtain raw where raw: "dumps (anchor_json a) = Inr raw" using dumps_total by blast
  then have l: "loads raw = Inr (sort_json (anchor_json a))"
    using loads_dumps [OF raw anchor_json_ok] by (simp add: loads_def)
  obtain kvs where kvs: "sort_json (anchor_json a) = JObj kvs"
    and get: "\<And>k. map_of kvs k = map_option sort_json (map_of
      [(str_lit ''v'', JInt 1), (str_lit ''wmk_sha256'', JStr (hex_of_bytes (va_wmk_sha256 a))),
       (str_lit ''generation'', JInt (va_generation a))] k)"
    using map_of_sorted_header [OF anchor_json_ok [of a, unfolded anchor_json_def]] unfolding anchor_json_def by metis
  have "obj_get kvs ''v'' = JInt 1" "obj_get kvs ''wmk_sha256'' = JStr (hex_of_bytes (va_wmk_sha256 a))"
    "obj_get kvs ''generation'' = JInt (va_generation a)"
    by (simp_all add: obj_get_def get str_lit_def)
  then have "anchor_deserialize raw = Inr a"
    using assms by (simp add: anchor_deserialize_def l kvs json_eq_1_def anchor_fields_def json_str_def json_nat_def
        fromhex_hex_of_bytes anchor_ok_def)
  with raw show ?thesis by (auto simp: anchor_serialize_def)
qed

interpretation anchor_record: codec anchor_ok anchor_serialize anchor_deserialize
  using anchor_deserialize_serialize by unfold_locales blast

definition pinnable :: "bytes \<Rightarrow> int \<Rightarrow> bool" where
  "pinnable wmk g \<longleftrightarrow> wmk \<noteq> [] \<and> 0 \<le> g \<and> length (dec (nat g)) \<le> max_str_digits"

lemma write_read_anchor:
  assumes "pinnable wmk g"
  obtains store' where "write_anchor store label wmk g = Inr store'"
    "read_anchor store' label = Inr \<lparr>va_wmk_sha256 = wmk_fingerprint wmk, va_generation = g\<rparr>"
    "\<And>l. l \<noteq> label \<Longrightarrow> store' l = store l"
proof -
  have "anchor_ok \<lparr>va_wmk_sha256 = wmk_fingerprint wmk, va_generation = g\<rparr>"
    using assms by (simp add: anchor_ok_def pinnable_def wmk_fingerprint_def)
  then obtain raw where "anchor_serialize \<lparr>va_wmk_sha256 = wmk_fingerprint wmk, va_generation = g\<rparr> = Inr raw"
    "anchor_deserialize raw = Inr \<lparr>va_wmk_sha256 = wmk_fingerprint wmk, va_generation = g\<rparr>"
    by (rule anchor_record.enc_total)
  then show ?thesis
    using assms that [of "store(label \<mapsto> raw)"] by (simp add: write_anchor_def read_anchor_def pinnable_def)
qed

lemma verify_pinned_iff: "verify_pinned p wmk g = Inr () \<longleftrightarrow> va_wmk_sha256 p = sha256 wmk \<and> va_generation p = g"
  by (simp add: verify_pinned_def compare_digest_def wmk_fingerprint_def)

lemma fromhex_raises: "raises is_value_error (fromhex s)"
  by (induction s rule: fromhex.induct)
    (auto intro!: raises_bind simp: is_value_error_def split: option.split)

lemma anchor_deserialize_raises:
  "raises (\<lambda>e. e = AnchorCorrupt \<or> e = ValueError \<and> loads raw = Inl ValueError) (anchor_deserialize raw)"
  (is "raises ?P _")
proof -
  have "raises ?P (r_catch is_value_error AnchorCorrupt (fromhex s))" for s
    using fromhex_raises [of s] by (intro raises_catch) (auto simp: raises_def)
  then have f: "raises ?P (anchor_fields kvs)" for kvs
    by (auto simp: anchor_fields_def intro!: raises_bind split: option.split)
  have "raises ?P (r_catch is_json_failure AnchorCorrupt (loads raw))"
    using loads_raises [of raw]
    by (auto simp: raises_def r_catch_Inl_iff is_json_failure_def loads_error_def)
  with f show ?thesis
    by (auto simp: anchor_deserialize_def intro!: raises_bind split: json.split)
qed

text \<open>The freshness anchor. After pinning, verification accepts exactly the candidates with the
  pinned generation and a \<open>wmk\<close> of the pinned fingerprint, and refuses every other one with
  \<open>AnchorMismatch\<close>; pins of other labels are untouched; without a pin it raises \<open>AnchorMissing\<close>;
  every failure is an anchor error, except the parser's plain \<open>ValueError\<close> on a record that is not
  one the writer wrote; an empty \<open>wmk\<close> or a negative generation is never pinned.\<close>

lemma anchor_pins:
  assumes "pinnable wmk g"
  shows "(\<exists>store'. write_anchor store label wmk g = Inr store' \<and>
      (\<forall>wmk' g'. verify_anchor store' label wmk' g' =
         (if sha256 wmk' = sha256 wmk \<and> g' = g then Inr () else Inl AnchorMismatch)) \<and>
      (\<forall>l. l \<noteq> label \<longrightarrow> store' l = store l)) \<and>
    (s label = None \<longrightarrow> verify_anchor s label wmk' g' = Inl AnchorMissing) \<and>
    raises (\<lambda>e. is_anchor_error e \<or> e = ValueError \<and> (\<exists>raw. s label = Some raw \<and> loads raw = Inl ValueError))
      (verify_anchor s label wmk' g') \<and>
    write_anchor store label [] g = Inl ValueError \<and> (g' < 0 \<longrightarrow> write_anchor store label wmk g' = Inl ValueError)"
proof (intro conjI impI)
  obtain store' where w: "write_anchor store label wmk g = Inr store'"
    "read_anchor store' label = Inr \<lparr>va_wmk_sha256 = wmk_fingerprint wmk, va_generation = g\<rparr>"
    "\<And>l. l \<noteq> label \<Longrightarrow> store' l = store l"
    using write_read_anchor [OF assms] by blast
  then show "\<exists>store'. write_anchor store label wmk g = Inr store' \<and>
      (\<forall>wmk' g'. verify_anchor store' label wmk' g' =
         (if sha256 wmk' = sha256 wmk \<and> g' = g then Inr () else Inl AnchorMismatch)) \<and>
      (\<forall>l. l \<noteq> label \<longrightarrow> store' l = store l)"
    by (intro exI [of _ store'])
      (auto simp: verify_anchor_def verify_pinned_def compare_digest_def wmk_fingerprint_def)
  show "raises (\<lambda>e. is_anchor_error e \<or> e = ValueError \<and> (\<exists>raw. s label = Some raw \<and> loads raw = Inl ValueError))
      (verify_anchor s label wmk' g')"
    unfolding verify_anchor_def read_anchor_def
    using raises_mono [OF anchor_deserialize_raises]
    by (auto intro!: raises_bind raises_mono [OF anchor_deserialize_raises]
        simp: is_anchor_error_def verify_pinned_def split: option.split)
  show "write_anchor store label wmk g' = Inl ValueError" if "g' < 0"
    using that assms by (simp add: write_anchor_def pinnable_def)
qed (simp_all add: verify_anchor_def read_anchor_def write_anchor_def)

lemma anchor_pins_witness:
  "\<exists>store'. write_anchor (\<lambda>_. None) [108] [1, 2] 3 = Inr store' \<and>
     verify_anchor store' [108] [1, 2] 3 = Inr () \<and> verify_anchor store' [108] [1, 2] 2 = Inl AnchorMismatch"
proof -
  have "pinnable [1, 2] 3" by (simp add: pinnable_def max_str_digits_def dec.simps [of 3])
  from anchor_pins [OF this, THEN conjunct1, of "\<lambda>_. None" "[108]"] obtain store' where
    w: "write_anchor (\<lambda>_. None) [108] [1, 2] 3 = Inr store'"
    and v: "\<And>wmk' g'. verify_anchor store' [108] wmk' g' =
         (if sha256 wmk' = sha256 [1, 2] \<and> g' = 3 then Inr () else Inl AnchorMismatch)"
    by blast
  show ?thesis using w v [of "[1, 2]" 3] v [of "[1, 2]" 2] by (intro exI [of _ store']) simp
qed

end
