(* ===== verification/Py_Str.thy ===== *)
theory Py_Str
  imports Py_Text
begin

text \<open>
  The \<open>str\<close> methods the modelled code uses: \<open>strip\<close>, \<open>startswith\<close>, \<open>split()\<close> on white space,
  \<open>split(sep)\<close> on one character, \<open>sep.join\<close>, and \<open>int(s)\<close>. What the Unicode database answers
  (NFKD normalization, decimal digit values) is the parameter \<open>ucd\<close>; on ASCII it is fixed.
\<close>

section \<open>White space and prefixes\<close>

definition is_str_space :: "nat \<Rightarrow> bool" where
  "is_str_space c \<longleftrightarrow> (9 \<le> c \<and> c \<le> 13) \<or> (28 \<le> c \<and> c \<le> 32) \<or> c \<in> {133, 160, 5760}
     \<or> (8192 \<le> c \<and> c \<le> 8202) \<or> c \<in> {8232, 8233, 8239, 8287, 12288}"

definition rstrip :: "('a \<Rightarrow> bool) \<Rightarrow> 'a list \<Rightarrow> 'a list" where
  "rstrip p s = rev (dropWhile p (rev s))"

definition strip :: "('a \<Rightarrow> bool) \<Rightarrow> 'a list \<Rightarrow> 'a list" where
  "strip p s = rstrip p (dropWhile p s)"

definition starts_with_list :: "'a list \<Rightarrow> 'a list \<Rightarrow> bool" where
  "starts_with_list w s \<longleftrightarrow> take (length w) s = w"

section \<open>Splitting and joining\<close>

text \<open>\<open>s.split()\<close>; the first argument is the word being read, latest character first.\<close>

fun split_words :: "py_str \<Rightarrow> py_str \<Rightarrow> py_str list" where
  "split_words acc [] = (if acc = [] then [] else [rev acc])"
| "split_words acc (c # s) =
     (if is_str_space c then (if acc = [] then split_words [] s else rev acc # split_words [] s)
      else split_words (c # acc) s)"

definition py_split :: "py_str \<Rightarrow> py_str list" where
  "py_split s = split_words [] s"

text \<open>\<open>s.split(sep)\<close> for a separator of one character.\<close>

fun split_on :: "nat \<Rightarrow> py_str \<Rightarrow> py_str list" where
  "split_on sep [] = [[]]"
| "split_on sep (c # s) =
     (if c = sep then [] # split_on sep s
      else case split_on sep s of [] \<Rightarrow> [[c]] | w # ws \<Rightarrow> (c # w) # ws)"

fun py_join :: "py_str \<Rightarrow> py_str list \<Rightarrow> py_str" where
  "py_join sep [] = []"
| "py_join sep [w] = w"
| "py_join sep (w # v # ws) = w @ sep @ py_join sep (v # ws)"

definition is_word :: "py_str \<Rightarrow> bool" where
  "is_word w \<longleftrightarrow> w \<noteq> [] \<and> list_all (\<lambda>c. \<not> is_str_space c) w"

lemma split_words_append:
  "list_all (\<lambda>c. \<not> is_str_space c) w \<Longrightarrow> split_words acc (w @ s) = split_words (rev w @ acc) s"
  by (induction w arbitrary: acc) simp_all

lemma is_str_space_blank [simp]: "is_str_space 32"
  by (simp add: is_str_space_def)

lemma split_join: "list_all is_word ws \<Longrightarrow> py_split (py_join [32] ws) = ws"
proof (induction "[32 :: nat]" ws rule: py_join.induct)
  case (2 w)
  then show ?case using split_words_append [of w "[]" "[]"] by (simp add: py_split_def is_word_def)
next
  case (3 w v ws)
  then show ?case
    using split_words_append [of w "[]" "32 # py_join [32] (v # ws)"] by (simp add: py_split_def is_word_def)
qed (simp add: py_split_def)

lemma split_words_is_word:
  "list_all (\<lambda>c. \<not> is_str_space c) acc \<Longrightarrow> list_all is_word (split_words acc s)"
  by (induction acc s rule: split_words.induct) (auto simp: is_word_def)

lemma py_split_is_word: "list_all is_word (py_split s)"
  by (simp add: py_split_def split_words_is_word)

lemma split_on_append: "sep \<notin> set a \<Longrightarrow> split_on sep (a @ sep # b) = a # split_on sep b"
  by (induction a) auto

lemma split_on_none: "sep \<notin> set a \<Longrightarrow> split_on sep a = [a]"
  by (induction a) auto

lemma split_on_join:
  "ws \<noteq> [] \<Longrightarrow> list_all (\<lambda>w. sep \<notin> set w) ws \<Longrightarrow> split_on sep (py_join [sep] ws) = ws"
  by (induction "[sep]" ws rule: py_join.induct) (simp_all add: split_on_append split_on_none)

lemma dropWhile_none: "\<forall>c \<in> set s. \<not> p c \<Longrightarrow> dropWhile p s = s"
  by (cases s) auto

lemma strip_none: "\<forall>c \<in> set s. \<not> p c \<Longrightarrow> strip p s = s"
  using dropWhile_none [of s p] dropWhile_none [of "rev s" p] by (simp add: strip_def rstrip_def)

section \<open>The Unicode database\<close>

record ucd =
  uc_nfkd :: "py_str \<Rightarrow> py_str"
  uc_decimal :: "nat \<Rightarrow> nat option"

definition ucd_ok :: "('x) ucd_scheme \<Rightarrow> bool" where
  "ucd_ok U \<longleftrightarrow> (\<forall>s. is_ascii s \<longrightarrow> uc_nfkd U s = s) \<and>
     (\<forall>c < 128. uc_decimal U c = (if 48 \<le> c \<and> c \<le> 57 then Some (c - 48) else None)) \<and>
     (\<forall>c d. uc_decimal U c = Some d \<longrightarrow> d < 10)"

definition demo_ucd :: ucd where
  "demo_ucd = \<lparr>uc_nfkd = (\<lambda>s. s), uc_decimal = (\<lambda>c. if 48 \<le> c \<and> c \<le> 57 then Some (c - 48) else None)\<rparr>"

lemma demo_ucd_ok: "ucd_ok demo_ucd"
  by (auto simp: ucd_ok_def demo_ucd_def)

text \<open>\<open>str.lower\<close> and \<open>str.upper\<close>.\<close>

record ucd_case = ucd +
  uc_lower :: "py_str \<Rightarrow> py_str"
  uc_upper :: "py_str \<Rightarrow> py_str"

definition ascii_lower :: "nat \<Rightarrow> nat" where
  "ascii_lower c = (if 65 \<le> c \<and> c \<le> 90 then c + 32 else c)"

definition ascii_upper :: "nat \<Rightarrow> nat" where
  "ascii_upper c = (if 97 \<le> c \<and> c \<le> 122 then c - 32 else c)"

definition case_ok :: "('x) ucd_case_scheme \<Rightarrow> bool" where
  "case_ok U \<longleftrightarrow> ucd_ok U \<and>
     (\<forall>s. is_ascii s \<longrightarrow> uc_lower U s = map ascii_lower s \<and> uc_upper U s = map ascii_upper s)"

definition demo_case :: ucd_case where
  "demo_case = ucd.extend demo_ucd \<lparr>uc_lower = map ascii_lower, uc_upper = map ascii_upper\<rparr>"

lemma demo_case_ok: "case_ok demo_case"
  using demo_ucd_ok by (simp add: case_ok_def demo_case_def ucd_ok_def ucd.defs)

section \<open>\<open>int(s)\<close>\<close>

text \<open>The digits of a literal, with single underscores between them.\<close>

fun int_digits :: "('x) ucd_scheme \<Rightarrow> nat \<Rightarrow> py_str \<Rightarrow> nat option" where
  "int_digits U acc [] = Some acc"
| "int_digits U acc (c # s) =
     (if c = 95 then
        (case s of [] \<Rightarrow> None
         | d # s' \<Rightarrow> (case uc_decimal U d of None \<Rightarrow> None | Some v \<Rightarrow> int_digits U (10 * acc + v) s'))
      else (case uc_decimal U c of None \<Rightarrow> None | Some v \<Rightarrow> int_digits U (10 * acc + v) s))"

definition int_unsigned :: "('x) ucd_scheme \<Rightarrow> py_str \<Rightarrow> nat option" where
  "int_unsigned U s =
     (case s of [] \<Rightarrow> None
      | c # s' \<Rightarrow>
          (case uc_decimal U c of None \<Rightarrow> None
           | Some v \<Rightarrow>
               if 4300 < length (filter (\<lambda>c. c \<noteq> 95) s) then None else int_digits U v s'))"

definition py_int :: "('x) ucd_scheme \<Rightarrow> py_str \<Rightarrow> int result" where
  "py_int U s =
     (let t = strip is_str_space s;
          u = (if t \<noteq> [] \<and> hd t \<in> {43, 45} then tl t else t)
      in case int_unsigned U u of
           None \<Rightarrow> Inl ValueError
         | Some n \<Rightarrow> Inr (if t \<noteq> [] \<and> hd t = 45 then - int n else int n))"

end
