(* ===== verification/Memory_Crypto.thy ===== *)
theory Memory_Crypto
  imports Providers Py_Base64 Py_Str
begin

text \<open>
  \<open>keyvault/memory_crypto.py\<close>, the frozen format of sealed agent-memory files, and
  \<open>keyvault/_memory_env.py\<close>, the effective memory key of a dotenv file. The nonce is an
  argument; \<open>python-dotenv\<close> is a parameter.
\<close>

section \<open>Text helpers of the standard library\<close>

text \<open>\<open>bytes.strip\<close> removes ASCII white space.\<close>

definition is_byte_space :: "byte \<Rightarrow> bool" where
  "is_byte_space b \<longleftrightarrow> b \<in> {9, 10, 11, 12, 13, 32}"

text \<open>\<open>b.replace(b"\r\n", b"\n")\<close>.\<close>

fun replace_crlf :: "bytes \<Rightarrow> bytes" where
  "replace_crlf [] = []"
| "replace_crlf [b] = [b]"
| "replace_crlf (a # b # s) = (if a = 13 \<and> b = 10 then 10 # replace_crlf s else a # replace_crlf (b # s))"

text \<open>\<open>s.encode("utf-8", "surrogateescape")\<close>: only \<open>U+DC80 .. U+DCFF\<close> stand for a byte.\<close>

fun utf8_surrogateescape :: "py_str \<Rightarrow> bytes result" where
  "utf8_surrogateescape [] = Inr []"
| "utf8_surrogateescape (c # s) =
     r_bind (if is_scalar c then Inr (map of_nat (utf8_char c))
             else if 0xDC80 \<le> c \<and> c \<le> 0xDCFF then Inr [of_nat (c - 0xDC00)]
             else Inl UnicodeEncodeError)
       (\<lambda>b. r_bind (utf8_surrogateescape s) (\<lambda>bs. Inr (b @ bs)))"

section \<open>The format\<close>

definition MEMORY_MAGIC :: bytes where
  "MEMORY_MAGIC = bytes_lit ''HERMES-MEMORY-ENC-v1''"

definition MEMORY_AAD_PREFIX :: bytes where
  "MEMORY_AAD_PREFIX = bytes_lit ''hermes-memory-v1:''"

definition UTF8_BOM :: bytes where
  "UTF8_BOM = [0xef, 0xbb, 0xbf]"

definition body_char :: "byte \<Rightarrow> bool" where
  "body_char b \<longleftrightarrow> (65 \<le> b \<and> b \<le> 90) \<or> (97 \<le> b \<and> b \<le> 122) \<or> (48 \<le> b \<and> b \<le> 57) \<or> b \<in> {45, 95, 61}"

definition aad_for :: "py_str \<Rightarrow> bytes result" where
  "aad_for name = r_bind (utf8_encode name) (\<lambda>n. Inr (MEMORY_AAD_PREFIX @ n))"

text \<open>\<open>"=" * (-len(s) % 4)\<close>.\<close>

definition b64_padding :: "nat \<Rightarrow> nat" where
  "b64_padding n = (4 - n mod 4) mod 4"

definition unquote :: "py_str \<Rightarrow> py_str" where
  "unquote raw = (if 2 \<le> length raw \<and> hd raw \<in> {34, 39} \<and> last raw = hd raw then butlast (tl raw) else raw)"

definition decode_key :: "py_str \<Rightarrow> bytes result" where
  "decode_key value =
     (let raw = unquote (strip is_str_space value)
      in r_bind
        (if starts_with_list (str_lit ''hex:'') raw
         then r_catch is_value_error MemoryKeyError (fromhex (strip is_str_space (drop 4 raw)))
         else let raw' = (if starts_with_list (str_lit ''base64:'') raw then strip is_str_space (drop 7 raw) else raw)
              in r_catch is_value_error MemoryKeyError
                   (urlsafe_b64decode_str (raw' @ replicate (b64_padding (length raw')) 61)))
        (\<lambda>key. if length key \<noteq> 32 then Inl MemoryKeyError else Inr key))"

definition strip_leading :: "bytes \<Rightarrow> bytes" where
  "strip_leading blob =
     (let body = (if starts_with_list UTF8_BOM blob then drop 3 blob else blob)
      in dropWhile is_byte_space (replace_crlf body))"

definition decode_body :: "bytes \<Rightarrow> bytes result" where
  "decode_body encoded = urlsafe_b64decode (encoded @ replicate (b64_padding (length encoded)) 61)"

definition is_sealed :: "bytes \<Rightarrow> bool" where
  "is_sealed data =
     (let body = strip_leading data
      in starts_with_list (MEMORY_MAGIC @ [10]) body \<and>
         (let encoded = rstrip is_byte_space (drop (length MEMORY_MAGIC + 1) body)
          in encoded \<noteq> [] \<and> list_all body_char encoded \<and>
             (case decode_body encoded of Inl _ \<Rightarrow> False | Inr raw \<Rightarrow> 28 \<le> length raw)))"

definition is_sealed_text :: "py_str \<Rightarrow> bool result" where
  "is_sealed_text data = r_bind (utf8_surrogateescape data) (\<lambda>b. Inr (is_sealed b))"

definition looks_like_magic_line :: "py_str \<Rightarrow> bool result" where
  "looks_like_magic_line text =
     r_bind (utf8_surrogateescape text) (\<lambda>b. Inr (starts_with_list MEMORY_MAGIC (strip_leading b)))"

definition memory_seal :: "('x) crypto_scheme \<Rightarrow> bytes \<Rightarrow> bytes \<Rightarrow> bytes \<Rightarrow> py_str \<Rightarrow> bytes result" where
  "memory_seal C nonce plaintext key name =
     (if length key \<noteq> 32 then Inl MemoryKeyError
      else r_bind (aad_for name) (\<lambda>aad.
        r_bind (gcm_seal C key nonce plaintext aad) (\<lambda>ciphertext.
          Inr (MEMORY_MAGIC @ [10] @ ascii_bytes (urlsafe_b64encode (nonce @ ciphertext)) @ [10]))))"

definition memory_unseal :: "('x) crypto_scheme \<Rightarrow> bytes \<Rightarrow> bytes \<Rightarrow> py_str \<Rightarrow> bytes result" where
  "memory_unseal C blob key name =
     (if length key \<noteq> 32 then Inl MemoryKeyError
      else let body = strip_leading blob
        in if \<not> starts_with_list MEMORY_MAGIC body then Inl MemoryCryptoError
           else r_bind (r_catch is_value_error MemoryCryptoError
                          (decode_body (strip is_byte_space (drop (length MEMORY_MAGIC) body)))) (\<lambda>raw.
             if length raw < 28 then Inl MemoryCryptoError
             else r_bind (aad_for name) (\<lambda>aad.
               r_catch (\<lambda>e. e = InvalidTag) MemoryCryptoError (gcm_open C key (take 12 raw) (drop 12 raw) aad))))"

section \<open>The effective memory key\<close>

text \<open>
  \<open>dotenv text\<close> is what \<open>python-dotenv\<close> makes of a text: whether a binding has an error, and
  the last-wins values of \<open>dotenv_values(interpolate=False)\<close>.
\<close>

type_synonym dotenv = "py_str \<Rightarrow> bool \<times> (py_str \<Rightarrow> py_str option option)"

definition HERMES_MEMORY_KEY :: py_str where
  "HERMES_MEMORY_KEY = str_lit ''HERMES_MEMORY_KEY''"

definition is_env_failure :: "exn \<Rightarrow> bool" where
  "is_env_failure e \<longleftrightarrow> e = UnicodeDecodeError \<or> e = MemoryKeyError"

definition effective_memory_key :: "dotenv \<Rightarrow> bytes option \<Rightarrow> bytes option result" where
  "effective_memory_key dotenv plaintext =
     (case plaintext of None \<Rightarrow> Inr None
      | Some p \<Rightarrow>
          r_catch is_env_failure DatabaseRefused
            (r_bind (utf8_decode p) (\<lambda>text.
               if fst (dotenv text) then Inl DatabaseRefused
               else case snd (dotenv text) HERMES_MEMORY_KEY of
                  None \<Rightarrow> Inr None
                | Some None \<Rightarrow> Inl DatabaseRefused
                | Some (Some v) \<Rightarrow>
                    if v = [] then Inl DatabaseRefused else r_bind (decode_key v) (\<lambda>k. Inr (Some k)))))"

section \<open>Lemmas\<close>

lemma magic_simps: "MEMORY_MAGIC = [72, 69, 82, 77, 69, 83, 45, 77, 69, 77, 79, 82, 89, 45, 69, 78, 67, 45, 118, 49]"
  by (simp add: MEMORY_MAGIC_def bytes_lit_def)

lemma b64_padding_length: "length (s :: 'a list) mod 4 = 0 \<Longrightarrow> b64_padding (length s) = 0"
  by (simp add: b64_padding_def)

lemma body_char_urlsafe: "c \<in> set (urlsafe_b64encode bs) \<Longrightarrow> c < 128 \<and> body_char (of_nat c)"
proof -
  assume "c \<in> set (urlsafe_b64encode bs)"
  then obtain d where d: "d \<in> set (b64encode bs)" "c = to_urlsafe d" by (auto simp: urlsafe_b64encode_def)
  from b64encode_alphabet [OF d(1)] have "d = 61 \<or> (\<exists>n < 64. d = b64_char n)" .
  moreover have "body_char (of_nat (to_urlsafe (b64_char n))) \<and> to_urlsafe (b64_char n) < 128" if "n < 64" for n
  proof -
    have "\<forall>n \<in> set [0..<64]. body_char (of_nat (to_urlsafe (b64_char n))) \<and> to_urlsafe (b64_char n) < 128"
      by code_simp
    with that show ?thesis by simp
  qed
  moreover have "body_char (of_nat (to_urlsafe 61)) \<and> to_urlsafe 61 < 128"
    by (simp add: to_urlsafe_def body_char_def)
  ultimately show ?thesis using d(2) by blast
qed

lemma body_char_not_space: "body_char b \<Longrightarrow> \<not> is_byte_space b"
  by (auto simp: body_char_def is_byte_space_def)

definition body_of :: "bytes \<Rightarrow> bytes" where
  "body_of raw = ascii_bytes (urlsafe_b64encode raw)"

lemma body_of_chars: "list_all body_char (body_of raw)"
  using body_char_urlsafe by (auto simp: body_of_def ascii_bytes_def list_all_iff)

lemma decode_body_of [simp]: "decode_body (body_of raw) = Inr raw"
proof -
  have "length (body_of raw) mod 4 = 0"
    by (simp add: body_of_def ascii_bytes_def urlsafe_b64encode_def length_b64encode_mod4)
  then show ?thesis by (simp add: decode_body_def b64_padding_length body_of_def)
qed

lemma replace_crlf_append:
  "xs = [] \<or> last xs \<noteq> 13 \<or> ys = [] \<or> hd ys \<noteq> 10 \<Longrightarrow> replace_crlf (xs @ ys) = replace_crlf xs @ replace_crlf ys"
proof (induction xs rule: replace_crlf.induct)
  case (2 b)
  then show ?case by (cases ys) auto
next
  case (3 a b s)
  then show ?case by (cases "s = []") auto
qed auto

lemma replace_crlf_id: "13 \<notin> set xs \<Longrightarrow> replace_crlf xs = xs"
  by (induction xs rule: replace_crlf.induct) auto

lemma replace_crlf_space: "list_all is_byte_space ws \<Longrightarrow> list_all is_byte_space (replace_crlf ws)"
  by (induction ws rule: replace_crlf.induct) (auto simp: is_byte_space_def)

lemma rstrip_append: "xs = [] \<or> \<not> p (last xs) \<Longrightarrow> list_all p ws \<Longrightarrow> rstrip p (xs @ ws) = xs"
proof (cases xs rule: rev_cases)
  case (snoc ys y)
  assume "xs = [] \<or> \<not> p (last xs)" "list_all p ws"
  then have "dropWhile p (rev ws @ y # rev ys) = y # rev ys"
    using snoc by (subst dropWhile_append2) (auto simp: list_all_iff)
  then show ?thesis using snoc by (simp add: rstrip_def)
next
  case Nil
  then show "list_all p ws \<Longrightarrow> rstrip p (xs @ ws) = xs"
    by (simp add: rstrip_def list_all_iff dropWhile_eq_Nil_conv)
qed

lemma strip_append:
  assumes "xs \<noteq> []" "\<not> p (hd xs)" "\<not> p (last xs)" "list_all p us" "list_all p ws"
  shows "strip p (us @ xs @ ws) = xs"
proof -
  have "dropWhile p (us @ xs @ ws) = xs @ ws"
    using assms by (cases xs) (simp_all add: dropWhile_append2 list_all_iff)
  then show ?thesis using assms by (simp add: strip_def rstrip_append)
qed

text \<open>
  What a text reader, an editor or a line-ending conversion may have made of a sealed file: a byte
  order mark, white space around it, and \<open>CRLF\<close> for either newline.
\<close>

definition damaged :: "bytes \<Rightarrow> bytes \<Rightarrow> bytes \<Rightarrow> bytes \<Rightarrow> bytes \<Rightarrow> bytes \<Rightarrow> bytes" where
  "damaged bom w1 nl1 nl2 w2 raw = bom @ w1 @ MEMORY_MAGIC @ nl1 @ body_of raw @ nl2 @ w2"

definition harmless :: "bytes \<Rightarrow> bytes \<Rightarrow> bytes \<Rightarrow> bytes \<Rightarrow> bytes \<Rightarrow> bool" where
  "harmless bom w1 nl1 nl2 w2 \<longleftrightarrow> bom \<in> {[], UTF8_BOM} \<and> list_all is_byte_space w1 \<and> list_all is_byte_space w2 \<and>
     nl1 \<in> {[10], [13, 10]} \<and> nl2 \<in> {[], [10], [13, 10]}"

lemma body_not_cr: "13 \<notin> set (body_of raw)"
  using body_of_chars [of raw] by (auto simp: list_all_iff body_char_def)

lemma replace_crlf_nl: "nl \<in> {[], [10], [13, 10]} \<Longrightarrow> list_all is_byte_space w \<Longrightarrow>
    \<exists>ws. replace_crlf (nl @ w) = ws \<and> list_all is_byte_space ws"
  using replace_crlf_space by (auto simp: is_byte_space_def)

lemma strip_leading_damaged:
  assumes "harmless bom w1 nl1 nl2 w2" "raw \<noteq> []"
  shows "\<exists>ws. strip_leading (damaged bom w1 nl1 nl2 w2 raw) = MEMORY_MAGIC @ [10] @ body_of raw @ ws \<and>
    list_all is_byte_space ws"
proof -
  let ?t = "MEMORY_MAGIC @ nl1 @ body_of raw @ nl2 @ w2"
  have E: "body_of raw \<noteq> []" "hd (body_of raw) \<noteq> 10" "last (body_of raw) \<noteq> 13" "replace_crlf (body_of raw) = body_of raw"
  proof -
    show ne: "body_of raw \<noteq> []"
      using assms(2) decode_body_of [of raw] by (auto simp: decode_body_def urlsafe_b64decode_def a2b_base64_def a2b.simps
          b64_padding_def)
    then have "body_char (hd (body_of raw))" using body_of_chars [of raw] by (cases "body_of raw") auto
    then show "hd (body_of raw) \<noteq> 10" by (auto simp: body_char_def)
    show "last (body_of raw) \<noteq> 13" using ne body_not_cr last_in_set by metis
    show "replace_crlf (body_of raw) = body_of raw" by (rule replace_crlf_id [OF body_not_cr])
  qed
  obtain ws where ws: "replace_crlf (nl2 @ w2) = ws" "list_all is_byte_space ws"
    using replace_crlf_nl [of nl2 w2] assms(1) by (auto simp: harmless_def)
  have "replace_crlf (body_of raw @ nl2 @ w2) = body_of raw @ ws"
    using E ws by (subst replace_crlf_append) auto
  moreover have "replace_crlf nl1 = [10]" "nl1 \<noteq> []" using assms(1) by (auto simp: harmless_def)
  ultimately have "replace_crlf (nl1 @ body_of raw @ nl2 @ w2) = [10] @ body_of raw @ ws"
    using E by (subst replace_crlf_append) auto
  moreover have "replace_crlf MEMORY_MAGIC = MEMORY_MAGIC" "last MEMORY_MAGIC \<noteq> 13"
    by (auto intro: replace_crlf_id simp: magic_simps)
  ultimately have t: "replace_crlf ?t = MEMORY_MAGIC @ [10] @ body_of raw @ ws"
    by (subst replace_crlf_append) auto
  have "replace_crlf (w1 @ ?t) = replace_crlf w1 @ replace_crlf ?t"
    by (rule replace_crlf_append) (simp add: magic_simps)
  moreover have "dropWhile is_byte_space (replace_crlf w1 @ MEMORY_MAGIC @ r) = MEMORY_MAGIC @ r" for r
    using assms(1) replace_crlf_space [of w1]
    by (subst dropWhile_append2) (auto simp: harmless_def list_all_iff magic_simps is_byte_space_def)
  ultimately have "dropWhile is_byte_space (replace_crlf (w1 @ ?t)) = MEMORY_MAGIC @ [10] @ body_of raw @ ws"
    using t by simp
  moreover have "\<not> starts_with_list UTF8_BOM (w1 @ ?t)"
    using assms(1) by (cases w1) (auto simp: starts_with_list_def UTF8_BOM_def magic_simps harmless_def is_byte_space_def)
  ultimately have "strip_leading (damaged bom w1 nl1 nl2 w2 raw) = MEMORY_MAGIC @ [10] @ body_of raw @ ws"
    using assms(1) by (auto simp: strip_leading_def damaged_def harmless_def starts_with_list_def UTF8_BOM_def)
  with ws show ?thesis by blast
qed

definition memory_sealable :: "('x) crypto_scheme \<Rightarrow> bytes \<Rightarrow> bytes \<Rightarrow> py_str \<Rightarrow> bytes \<Rightarrow> bool" where
  "memory_sealable C nonce key name p \<longleftrightarrow> gcm_ok C \<and> length key = 32 \<and> length nonce = 12 \<and>
     list_all is_scalar name \<and> length p + 16 \<le> gcm_limit \<and>
     (\<forall>n. utf8_encode name = Inr n \<longrightarrow> length n + 17 \<le> gcm_limit)"

lemma memory_seal_raw:
  assumes "memory_sealable C nonce key name p"
  obtains raw n where "utf8_encode name = Inr n" "28 \<le> length raw"
    "memory_seal C nonce p key name = Inr (damaged [] [] [10] [10] [] raw)"
    "gcm_open C key (take 12 raw) (drop 12 raw) (MEMORY_AAD_PREFIX @ n) = Inr p"
proof -
  obtain n where n: "utf8_encode name = Inr n" using assms by (auto simp: memory_sealable_def utf8_encode_def)
  have "length (MEMORY_AAD_PREFIX @ n) \<le> gcm_limit"
    using assms n by (simp add: memory_sealable_def MEMORY_AAD_PREFIX_def bytes_lit_def)
  then obtain c where c: "gcm_seal C key nonce p (MEMORY_AAD_PREFIX @ n) = Inr c" "length c = length p + 16"
    "gcm_open C key nonce c (MEMORY_AAD_PREFIX @ n) = Inr p"
    by (rule gcm_okE [rotated 4]) (use assms in \<open>auto simp: memory_sealable_def\<close>)
  then show ?thesis
    using that [OF n, of "nonce @ c"] assms n
    by (simp add: memory_sealable_def memory_seal_def aad_for_def damaged_def body_of_def)
qed

lemma damaged_opens:
  assumes "harmless bom w1 nl1 nl2 w2" "28 \<le> length raw"
  shows "is_sealed (damaged bom w1 nl1 nl2 w2 raw)"
    "length key = 32 \<Longrightarrow> utf8_encode name = Inr n \<Longrightarrow> memory_unseal C (damaged bom w1 nl1 nl2 w2 raw) key name =
       r_catch (\<lambda>e. e = InvalidTag) MemoryCryptoError (gcm_open C key (take 12 raw) (drop 12 raw) (MEMORY_AAD_PREFIX @ n))"
proof -
  have raw: "raw \<noteq> []" using assms(2) by auto
  obtain ws where ws: "strip_leading (damaged bom w1 nl1 nl2 w2 raw) = MEMORY_MAGIC @ [10] @ body_of raw @ ws"
    "list_all is_byte_space ws"
    using strip_leading_damaged [OF assms(1) raw] by blast
  have ne: "body_of raw \<noteq> []"
    using raw decode_body_of [of raw] by (auto simp: decode_body_def urlsafe_b64decode_def a2b_base64_def a2b.simps
        b64_padding_def)
  then have "body_char (hd (body_of raw))" "body_char (last (body_of raw))"
    using body_of_chars [of raw] by (auto simp: list_all_iff)
  then have sp: "\<not> is_byte_space (hd (body_of raw))" "\<not> is_byte_space (last (body_of raw))"
    by (auto dest: body_char_not_space)
  then have "rstrip is_byte_space (body_of raw @ ws) = body_of raw"
    using ws(2) by (intro rstrip_append) auto
  then show "is_sealed (damaged bom w1 nl1 nl2 w2 raw)"
    using assms(2) ne body_of_chars by (simp add: is_sealed_def ws(1) Let_def starts_with_list_def)
  have "strip is_byte_space ([10] @ body_of raw @ ws) = body_of raw"
    using ne sp ws(2) by (intro strip_append) (auto simp: is_byte_space_def)
  then show "length key = 32 \<Longrightarrow> utf8_encode name = Inr n \<Longrightarrow> memory_unseal C (damaged bom w1 nl1 nl2 w2 raw) key name =
       r_catch (\<lambda>e. e = InvalidTag) MemoryCryptoError (gcm_open C key (take 12 raw) (drop 12 raw) (MEMORY_AAD_PREFIX @ n))"
    using assms(2) by (simp add: memory_unseal_def ws(1) Let_def starts_with_list_def aad_for_def)
qed

interpretation memory: codec "memory_sealable C nonce key name" "\<lambda>p. memory_seal C nonce p key name"
  "\<lambda>b. memory_unseal C b key name" for C nonce key name
proof
  fix p assume ok: "memory_sealable C nonce key name p"
  then have key: "length key = 32" by (simp add: memory_sealable_def)
  obtain raw n where r: "utf8_encode name = Inr n" "28 \<le> length raw"
    "memory_seal C nonce p key name = Inr (damaged [] [] [10] [10] [] raw)"
    "gcm_open C key (take 12 raw) (drop 12 raw) (MEMORY_AAD_PREFIX @ n) = Inr p"
    by (rule memory_seal_raw [OF ok])
  then show "\<exists>b. memory_seal C nonce p key name = Inr b \<and> memory_unseal C b key name = Inr p"
    using damaged_opens(2) [of "[]" "[]" "[10]" "[10]" "[]" raw, OF _ r(2) key r(1), where C = C]
    by (simp add: harmless_def)
qed

text \<open>A sealed memory file is recognised as sealed and opens to its plaintext, also after a byte
  order mark, surrounding white space and CRLF line ends have been added to it; and whatever opens has
  been accepted by AES-GCM under the frozen prefix followed by the name asked for, so a sealed file
  renamed to another name opens only if the cipher accepts other associated data.\<close>

lemma memory_seal_tolerant_bound:
  assumes "memory_sealable C nonce key name p"
  shows "(\<exists>raw. memory_seal C nonce p key name = Inr (damaged [] [] [10] [10] [] raw) \<and>
      (\<forall>bom w1 nl1 nl2 w2. harmless bom w1 nl1 nl2 w2 \<longrightarrow>
         is_sealed (damaged bom w1 nl1 nl2 w2 raw) \<and>
         memory_unseal C (damaged bom w1 nl1 nl2 w2 raw) key name = Inr p)) \<and>
    (memory_unseal C blob key name' = Inr q \<longrightarrow>
      (\<exists>raw n. utf8_encode name' = Inr n \<and> 28 \<le> length raw \<and>
         gcm_open C key (take 12 raw) (drop 12 raw) (MEMORY_AAD_PREFIX @ n) = Inr q))"
proof (intro conjI impI)
  have key: "length key = 32" using assms by (simp add: memory_sealable_def)
  obtain raw n where r: "utf8_encode name = Inr n" "28 \<le> length raw"
    "memory_seal C nonce p key name = Inr (damaged [] [] [10] [10] [] raw)"
    "gcm_open C key (take 12 raw) (drop 12 raw) (MEMORY_AAD_PREFIX @ n) = Inr p"
    by (rule memory_seal_raw [OF assms])
  show "\<exists>raw. memory_seal C nonce p key name = Inr (damaged [] [] [10] [10] [] raw) \<and>
      (\<forall>bom w1 nl1 nl2 w2. harmless bom w1 nl1 nl2 w2 \<longrightarrow>
         is_sealed (damaged bom w1 nl1 nl2 w2 raw) \<and>
         memory_unseal C (damaged bom w1 nl1 nl2 w2 raw) key name = Inr p)"
    using r damaged_opens(1) [OF _ r(2)] damaged_opens(2) [OF _ r(2) key r(1), where C = C]
    by (intro exI [of _ raw]) auto
next
  assume "memory_unseal C blob key name' = Inr q"
  then show "\<exists>raw n. utf8_encode name' = Inr n \<and> 28 \<le> length raw \<and>
         gcm_open C key (take 12 raw) (drop 12 raw) (MEMORY_AAD_PREFIX @ n) = Inr q"
    by (auto simp: memory_unseal_def aad_for_def Let_def result_iffs if_Inl_Inr_iff not_less simp del: if_split)
qed

lemma memory_seal_tolerant_bound_witness:
  "\<exists>raw. memory_seal demo_crypto (replicate 12 0) [1] (replicate 32 2) [85] = Inr (damaged [] [] [10] [10] [] raw) \<and>
     memory_unseal demo_crypto (damaged UTF8_BOM [32] [13, 10] [] [10, 10] raw) (replicate 32 2) [85] = Inr [1]"
proof -
  have "memory_sealable demo_crypto (replicate 12 0) (replicate 32 2) [85] [1]"
    using crypto_okD(1) [OF demo_crypto_ok]
    by (auto simp: memory_sealable_def is_scalar_def is_surrogate_def gcm_limit_def utf8_encode_def utf8_char_def)
  moreover have "harmless UTF8_BOM [32] [13, 10] [] [10, 10]"
    by (simp add: harmless_def is_byte_space_def)
  ultimately show ?thesis using memory_seal_tolerant_bound [THEN conjunct1] by blast
qed

text \<open>
  Classifying text is not total: a lone surrogate outside \<open>U+DC80 .. U+DCFF\<close> raises.
\<close>

lemma is_sealed_text_not_total:
  "is_sealed_text [0xD800] = Inl UnicodeEncodeError" "looks_like_magic_line [0xD800] = Inl UnicodeEncodeError"
  by (simp_all add: is_sealed_text_def looks_like_magic_line_def is_scalar_def is_surrogate_def)

section \<open>Key forms\<close>

lemma b64_chars_last: "length bs mod 3 = 2 \<Longrightarrow> \<exists>t. b64_chars bs = t @ [61]"
proof (induction bs rule: b64_chars.induct)
  case (4 a b c s)
  then have "length s mod 3 = 2" by simp
  with 4 obtain t where "b64_chars s = t @ [61]" by blast
  then show ?case by simp
qed simp_all

text \<open>The characters of the accepted forms of a key.\<close>

definition key_char :: "nat \<Rightarrow> bool" where
  "key_char c \<longleftrightarrow> 34 < c \<and> c < 127 \<and> c \<noteq> 39 \<and> c \<noteq> 58"

lemma urlsafe_key_char: "list_all key_char (urlsafe_b64encode k)"
proof -
  have "key_char c" if c: "c \<in> set (urlsafe_b64encode k)" for c
  proof -
    have "c < 128" "body_char (of_nat c)" using body_char_urlsafe [OF c] by auto
    moreover from \<open>c < 128\<close> have "unat (of_nat c :: byte) = c" by (simp add: unat_of_nat take_bit_eq_mod)
    ultimately show ?thesis
      by (auto simp: body_char_def key_char_def word_le_nat_alt dest: arg_cong [of _ _ unat])
  qed
  then show ?thesis by (simp add: list_all_iff)
qed

lemma hex_key_char: "list_all key_char (hex_of_bytes k)"
  using hex_of_bytes_lower [of k] by (auto simp: list_all_iff is_lower_hex_def key_char_def)

definition key_text :: "bytes \<Rightarrow> py_str \<Rightarrow> bool" where
  "key_text k s \<longleftrightarrow> s = str_lit ''hex:'' @ hex_of_bytes k \<or> s = str_lit ''base64:'' @ urlsafe_b64encode k \<or>
     s = urlsafe_b64encode k \<or> s @ [61] = urlsafe_b64encode k \<or>
     str_lit ''base64:'' @ urlsafe_b64encode k = s @ [61]"

lemma key_char_not_space: "key_char c \<Longrightarrow> \<not> is_str_space c"
  by (auto simp: key_char_def is_str_space_def)

lemma strip_key: "list_all key_char t \<Longrightarrow> strip is_str_space t = t"
  using strip_append [of t is_str_space "[]" "[]"] key_char_not_space
  by (cases "t = []") (auto simp: list_all_iff strip_def rstrip_def)

lemma urlsafe_split:
  assumes "length k = 32"
  obtains t where "urlsafe_b64encode k = t @ [61]" "b64_padding (length t) = 1" "b64_padding (length t + 1) = 0"
proof -
  obtain u where u: "b64encode k = u @ [61]"
    using b64_chars_last [of "map unat k"] assms by (auto simp: b64encode_def)
  then have "(length u + 1) mod 4 = 0" using length_b64encode_mod4 [of k] by simp
  then have "length u mod 4 = 3" by presburger
  moreover have "urlsafe_b64encode k = map to_urlsafe u @ [61]"
    using u by (simp add: urlsafe_b64encode_def to_urlsafe_def)
  ultimately show ?thesis
    using that [of "map to_urlsafe u"] \<open>(length u + 1) mod 4 = 0\<close> by (simp add: b64_padding_def)
qed

lemma decode_key_core:
  assumes "length k = 32" "key_text k s"
  shows "s \<noteq> [] \<and> list_all (\<lambda>c. key_char c \<or> c = 58) s \<and>
    (if starts_with_list (str_lit ''hex:'') s
     then r_catch is_value_error MemoryKeyError (fromhex (strip is_str_space (drop 4 s)))
     else let raw' = (if starts_with_list (str_lit ''base64:'') s then strip is_str_space (drop 7 s) else s)
          in r_catch is_value_error MemoryKeyError
               (urlsafe_b64decode_str (raw' @ replicate (b64_padding (length raw')) 61))) = Inr k"
proof -
  obtain t where t: "urlsafe_b64encode k = t @ [61]" "b64_padding (length t) = 1" "b64_padding (length t + 1) = 0"
    by (rule urlsafe_split [OF assms(1)])
  have tk: "list_all key_char t" using urlsafe_key_char [of k] t(1) by simp
  have ne: "t \<noteq> []" using t(2) by (auto simp: b64_padding_def)
  have dec: "urlsafe_b64decode_str (t @ [61]) = Inr k"
    using urlsafe_b64decode_encode [of k] t(1) by (simp add: urlsafe_b64decode_str_def urlsafe_b64decode_def
        urlsafe_ascii [of k, unfolded t(1)] map_unat_ascii)
  have colon: "\<not> starts_with_list (w @ [58]) (t @ u)" if "length w < length t" for w u
  proof
    assume "starts_with_list (w @ [58]) (t @ u)"
    then have "take (Suc (length w)) t = w @ [58]" using that by (simp add: starts_with_list_def)
    then have "58 \<in> set (take (Suc (length w)) t)" by simp
    then have "58 \<in> set t" by (rule in_set_takeD)
    with tk show False by (auto simp: list_all_iff key_char_def)
  qed
  have long: "length (t @ [61]) = 44"
  proof -
    have "length (b64_chars bs) = 4 * ((length bs + 2) div 3)" for bs
      by (induction bs rule: b64_chars.induct) (simp_all, presburger)
    then have "length (urlsafe_b64encode k) = 44"
      using assms(1) by (simp add: urlsafe_b64encode_def b64encode_def)
    then show ?thesis using t(1) by simp
  qed
  have c: "\<not> starts_with_list (str_lit ''hex:'') (t @ u)" "\<not> starts_with_list (str_lit ''base64:'') (t @ u)" for u
    using colon [of "str_lit ''hex''" u] colon [of "str_lit ''base64''" u] long by (simp_all add: str_lit_def)
  have k61: "list_all key_char (t @ [61])" using tk by (simp add: key_char_def)
  consider "s = str_lit ''hex:'' @ hex_of_bytes k" | "s = str_lit ''base64:'' @ t @ [61]" | "s = t @ [61]" | "s = t"
    | "s = str_lit ''base64:'' @ t"
    using assms(2) t(1) by (auto simp: key_text_def)
  then show ?thesis
  proof cases
    case 1
    then show ?thesis
      using strip_key [OF hex_key_char [of k]] hex_key_char [of k]
      by (auto simp: starts_with_list_def str_lit_def fromhex_hex_of_bytes key_char_def list_all_iff)
  next
    case 2
    then show ?thesis
      using strip_key [OF k61] k61 t(3) dec
      by (auto simp: starts_with_list_def str_lit_def key_char_def list_all_iff)
  next
    case 3
    then show ?thesis using c [of "[61]"] k61 t(3) dec by (auto simp: list_all_iff key_char_def)
  next
    case 4
    then show ?thesis using c [of "[]"] tk ne t(2) dec by (auto simp: list_all_iff key_char_def)
  next
    case 5
    then show ?thesis
      using strip_key [OF tk] tk t(2) dec
      by (auto simp: starts_with_list_def str_lit_def key_char_def list_all_iff)
  qed
qed

text \<open>A 32-byte memory key is read back from every way it may be written in a dotenv file: as
  \<open>hex:\<close>, \<open>base64:\<close> or bare URL-safe base64, with or without padding, inside a pair of either quote or
  bare, and with white space around it; and whatever is read is 32 bytes long.\<close>

lemma decode_key_forms:
  assumes "length k = 32" "key_text k s" "q \<in> {[], [34], [39]}"
    "list_all is_str_space w1" "list_all is_str_space w2"
  shows "decode_key (w1 @ q @ s @ q @ w2) = Inr k \<and>
    (decode_key v = Inr k' \<longrightarrow> length k' = 32)"
proof
  note core = decode_key_core [OF assms(1,2)]
  have chars: "key_char c \<or> c = 58" if "c \<in> set s" for c
    using core that by (simp only: list_all_iff)
  have "s \<noteq> []" using core by (rule conjunct1)
  let ?m = "q @ s @ q"
  have sp: "\<not> is_str_space c" if c: "c \<in> set ?m" for c
  proof -
    have "key_char c \<or> c \<in> {34, 39, 58}" using c assms(3) chars [of c] by auto
    then show ?thesis using key_char_not_space by (auto simp: is_str_space_def)
  qed
  have "?m \<noteq> []" using \<open>s \<noteq> []\<close> by simp
  then have "strip is_str_space (w1 @ ?m @ w2) = ?m"
    using sp [OF list.set_sel(1)] sp [OF last_in_set] assms(4,5) by (intro strip_append) auto
  moreover have "unquote ?m = s"
  proof (cases "q = []")
    case True
    then have "hd s \<notin> {34, 39}"
      using chars [of "hd s"] \<open>s \<noteq> []\<close> by (auto simp: key_char_def)
    with True show ?thesis by (simp add: unquote_def)
  next
    case False
    with assms(3) show ?thesis by (auto simp: unquote_def butlast_append)
  qed
  ultimately show "decode_key (w1 @ q @ s @ q @ w2) = Inr k"
    using core assms(1) by (simp add: decode_key_def Let_def)
  show "decode_key v = Inr k' \<longrightarrow> length k' = 32"
    by (auto simp: decode_key_def Let_def result_iffs if_Inl_Inr_iff simp del: if_split)
qed

lemma decode_key_forms_witness:
  "decode_key ([32, 34] @ str_lit ''hex:'' @ hex_of_bytes (replicate 32 1) @ [34]) = Inr (replicate 32 1)"
  using decode_key_forms [of "replicate 32 1" "str_lit ''hex:'' @ hex_of_bytes (replicate 32 1)" "[34]" "[32]" "[]"]
  by (simp add: key_text_def str_lit_def is_str_space_def)

end
