(* ===== verification/Vault.thy ===== *)
theory Vault
  imports Vault_Master File_Container Manifest Anchor Memory_Crypto "HOL-Library.Finite_Map"
begin

text \<open>
  \<open>keyvault/vault.py\<close>: the on-disk vault. Its world is the directory (one manifest per generation,
  content-addressed blobs, the recovery sidecar) and the device-bound anchor store. An operation
  returns its result, the new handle where it changes one, and the list of writes it made in
  order; a crash after \<open>k\<close> writes leaves the world after the first \<open>k\<close>. What the host answers
  (platform gate, path identity, directory and lock creation, the database guards) is the record
  \<open>host\<close>. Nonces and the other random draws are arguments.
\<close>

section \<open>World, writes, handles\<close>

record vault_world =
  vw_manifests :: "(nat, bytes) fmap"
  vw_blobs :: "(py_str, bytes) fmap"
  vw_recovery :: "bytes option"
  vw_anchors :: anchor_store

datatype vault_step =
    PutBlob py_str bytes | PutManifest nat bytes | PutRecovery bytes | FlipAnchor anchor_store
  | DropManifest nat | DropBlob py_str

fun apply_step :: "vault_world \<Rightarrow> vault_step \<Rightarrow> vault_world" where
  "apply_step w (PutBlob digest b) = w\<lparr>vw_blobs := fmupd digest b (vw_blobs w)\<rparr>"
| "apply_step w (PutManifest g b) = w\<lparr>vw_manifests := fmupd g b (vw_manifests w)\<rparr>"
| "apply_step w (PutRecovery b) = w\<lparr>vw_recovery := Some b\<rparr>"
| "apply_step w (FlipAnchor s) = w\<lparr>vw_anchors := s\<rparr>"
| "apply_step w (DropManifest g) = w\<lparr>vw_manifests := fmdrop g (vw_manifests w)\<rparr>"
| "apply_step w (DropBlob digest) = w\<lparr>vw_blobs := fmdrop digest (vw_blobs w)\<rparr>"

definition run_steps :: "vault_world \<Rightarrow> vault_step list \<Rightarrow> vault_world" where
  "run_steps w steps = foldl apply_step w steps"

definition crash :: "vault_world \<Rightarrow> vault_step list \<Rightarrow> nat \<Rightarrow> vault_world" where
  "crash w steps k = run_steps w (take k steps)"

record host =
  ho_platform :: "unit result"
  ho_publication :: "unit result"
  ho_dirs :: "unit result"
  ho_path :: "unit result"
  ho_init_guard :: "unit result"
  ho_source_guard :: "unit result"
  ho_dotenv :: dotenv

record open_vault =
  ov_key_id :: py_str
  ov_master :: master_key
  ov_manifest :: vault_manifest
  ov_store :: bool
  ov_label :: py_str
  ov_wmk :: bytes
  ov_closed :: bool

definition vault_close :: "open_vault \<Rightarrow> open_vault" where
  "vault_close h =
     (if \<not> ov_closed h then h\<lparr>ov_master := master_close (ov_master h), ov_closed := True\<rparr> else h)"

definition vault_check :: "open_vault \<Rightarrow> unit result" where
  "vault_check h = (if ov_closed h then Inl VaultError else Inr ())"

section \<open>Reading the directory\<close>

definition all_manifest_generations :: "vault_world \<Rightarrow> nat list" where
  "all_manifest_generations w = sorted_list_of_fset (fmdom (vw_manifests w))"

definition latest_manifest_generation :: "vault_world \<Rightarrow> nat option" where
  "latest_manifest_generation w =
     (let gs = all_manifest_generations w in if gs = [] then None else Some (last gs))"

definition artifacts_present :: "vault_world \<Rightarrow> bool" where
  "artifacts_present w \<longleftrightarrow> all_manifest_generations w \<noteq> []"

definition initialization_artifacts_present :: "vault_world \<Rightarrow> bool" where
  "initialization_artifacts_present w \<longleftrightarrow>
     artifacts_present w \<or> vw_recovery w \<noteq> None \<or> sorted_list_of_fset (fmdom (vw_blobs w)) \<noteq> []"

definition load_pinned_unverified :: "vault_world \<Rightarrow> py_str \<Rightarrow> vault_anchor option \<Rightarrow>
    (vault_anchor \<times> bytes \<times> vault_manifest) result" where
  "load_pinned_unverified w label pinned =
     r_bind (case pinned of None \<Rightarrow> read_anchor (vw_anchors w) label | Some p \<Rightarrow> Inr p) (\<lambda>record.
       case fmlookup (vw_manifests w) (nat (va_generation record)) of
         None \<Rightarrow> Inl VaultError
       | Some blob \<Rightarrow>
           r_bind (parse_unverified blob) (\<lambda>untrusted.
             r_bind (verify_pinned record (vm_wmk untrusted) (vm_generation untrusted)) (\<lambda>_.
               Inr (record, blob, untrusted))))"

definition load_latest_unverified :: "vault_world \<Rightarrow> (nat \<times> bytes \<times> vault_manifest) result" where
  "load_latest_unverified w =
     (case latest_manifest_generation w of
        None \<Rightarrow> Inl VaultError
      | Some g \<Rightarrow>
          (case fmlookup (vw_manifests w) g of
             None \<Rightarrow> Inl VaultError
           | Some blob \<Rightarrow> r_bind (parse_unverified blob) (\<lambda>m. Inr (g, blob, m))))"

definition read_recovery_blob :: "vault_world \<Rightarrow> bytes result" where
  "read_recovery_blob w = (case vw_recovery w of None \<Rightarrow> Inl VaultError | Some b \<Rightarrow> Inr b)"

fun newest_matched :: "vault_world \<Rightarrow> bytes \<Rightarrow> nat list \<Rightarrow> (nat \<times> bytes \<times> vault_manifest) option result" where
  "newest_matched w recovery_blob [] = Inr None"
| "newest_matched w recovery_blob (g # gs) =
     (case fmlookup (vw_manifests w) g of
        None \<Rightarrow> newest_matched w recovery_blob gs
      | Some blob \<Rightarrow>
          r_bind (parse_unverified blob) (\<lambda>untrusted.
            r_bind (recovery_blob_matches_wmk recovery_blob (vm_wmk untrusted)) (\<lambda>hit.
              if hit then Inr (Some (g, blob, untrusted)) else newest_matched w recovery_blob gs)))"

definition load_recovery_matched_unverified :: "vault_world \<Rightarrow> bytes \<Rightarrow> (nat \<times> bytes \<times> vault_manifest) result" where
  "load_recovery_matched_unverified w recovery_blob =
     r_bind (newest_matched w recovery_blob (rev (all_manifest_generations w))) (\<lambda>found.
       case found of Some x \<Rightarrow> Inr x | None \<Rightarrow> load_latest_unverified w)"

section \<open>Handles\<close>

definition authenticate_current :: "('x) crypto_scheme \<Rightarrow> vault_world \<Rightarrow> open_vault \<Rightarrow> vault_anchor option \<Rightarrow> unit result" where
  "authenticate_current C w h pinned =
     r_bind (load_pinned_unverified w (ov_label h) pinned) (\<lambda>(_, blob, current).
       r_bind (manifest_decode C blob (ov_master h)) (\<lambda>verified.
         if \<not> manifest_eq verified (ov_manifest h) \<or> vm_wmk current \<noteq> ov_wmk h \<or> vm_key_id verified \<noteq> ov_key_id h
         then Inl VaultError else Inr ()))"

definition register_checked_open :: "('x) crypto_scheme \<Rightarrow> host \<Rightarrow> vault_world \<Rightarrow> open_vault \<Rightarrow> vault_anchor \<Rightarrow> open_vault result" where
  "register_checked_open C ho w h pinned =
     r_bind (ho_path ho) (\<lambda>_. r_bind (authenticate_current C w h (Some pinned)) (\<lambda>_. Inr h))"

definition vault_generation :: "open_vault \<Rightarrow> int result" where
  "vault_generation h = r_bind (vault_check h) (\<lambda>_. Inr (vm_generation (ov_manifest h)))"

definition list_files :: "open_vault \<Rightarrow> py_str list result" where
  "list_files h = r_bind (vault_check h) (\<lambda>_. Inr (map fst (vm_files (ov_manifest h))))"

definition is_encrypted_file_error :: "exn \<Rightarrow> bool" where
  "is_encrypted_file_error e \<longleftrightarrow> e = EncryptedFileError"

definition read_file :: "('x) crypto_scheme \<Rightarrow> vault_world \<Rightarrow> open_vault \<Rightarrow> py_str \<Rightarrow> bytes result" where
  "read_file C w h name =
     r_bind (vault_check h) (\<lambda>_.
       case map_of (vm_files (ov_manifest h)) name of
         None \<Rightarrow> Inl VaultError
       | Some digest \<Rightarrow>
           (case fmlookup (vw_blobs w) digest of
              None \<Rightarrow> Inl VaultError
            | Some blob \<Rightarrow>
                if sha256_hex blob \<noteq> digest then Inl VaultError
                else r_catch is_encrypted_file_error VaultError (container_decode C blob (ov_master h) name)))"

text \<open>\<open>_gc\<close>, given the world right after the commit. An \<open>OSError\<close> ends it early: a prefix.\<close>

definition gc_steps :: "vault_world \<Rightarrow> vault_manifest \<Rightarrow> int \<Rightarrow> vault_step list" where
  "gc_steps w m superseded =
     (if fmlookup (vw_manifests w) (nat superseded) \<noteq> None then [DropManifest (nat superseded)] else [])
     @ map DropBlob (filter (\<lambda>d. d \<notin> snd ` set (vm_files m)) (sorted_list_of_fset (fmdom (vw_blobs w))))"

section \<open>Create, open, recover\<close>

definition new_handle :: "py_str \<Rightarrow> master_key \<Rightarrow> vault_manifest \<Rightarrow> bool \<Rightarrow> py_str \<Rightarrow> bytes \<Rightarrow> open_vault" where
  "new_handle kid master m store label wmk =
     \<lparr>ov_key_id = kid, ov_master = master, ov_manifest = m, ov_store = store, ov_label = label,
      ov_wmk = wmk, ov_closed = False\<rparr>"

definition init_vault :: "('x) crypto_scheme \<Rightarrow> ('d, 'y) native_scheme \<Rightarrow> 'd \<Rightarrow> host \<Rightarrow> draws \<Rightarrow> bytes \<Rightarrow> vault_world \<Rightarrow>
    py_str \<Rightarrow> py_str \<Rightarrow> py_str \<Rightarrow> open_vault result \<times> vault_step list" where
  "init_vault C N d ho r key w kid passphrase label =
     (let refused = r_bind (ho_platform ho) (\<lambda>_. r_bind (ho_publication ho) (\<lambda>_. r_bind (ho_init_guard ho) (\<lambda>_.
            if initialization_artifacts_present w \<and> vw_anchors w label = None then Inl DatabaseRefused
            else r_bind (ho_dirs ho) (\<lambda>_. r_bind (ho_path ho) (\<lambda>_.
              if vw_anchors w label \<noteq> None then Inl VaultError
              else if initialization_artifacts_present w then Inl DatabaseRefused
              else ho_init_guard ho)))))
      in case r_bind refused (\<lambda>_. vault_seal C N d r key kid passphrase) of
        Inl e \<Rightarrow> (Inl e, [])
      | Inr (sealed, master) \<Rightarrow>
          let put_rec = PutRecovery (sm_recovery sealed);
              empty = \<lparr>vm_key_id = kid, vm_wmk = sm_wmk sealed, vm_files = [], vm_generation = 0\<rparr>
          in (case manifest_encode C empty master of
                Inl e \<Rightarrow> (Inl e, [put_rec])
              | Inr mb \<Rightarrow>
                  (case write_anchor (vw_anchors w) label (sm_wmk sealed) 0 of
                     Inl e \<Rightarrow> (Inl e, [put_rec, PutManifest 0 mb])
                   | Inr store \<Rightarrow>
                       let steps = [put_rec, PutManifest 0 mb, FlipAnchor store]
                       in (register_checked_open C ho (run_steps w steps)
                             (new_handle kid master empty True label (sm_wmk sealed))
                             \<lparr>va_wmk_sha256 = wmk_fingerprint (sm_wmk sealed), va_generation = 0\<rparr>, steps))))"

definition open_vault :: "('x) crypto_scheme \<Rightarrow> ('d, 'y) native_scheme \<Rightarrow> 'd \<Rightarrow> host \<Rightarrow> vault_world \<Rightarrow> py_str \<Rightarrow> py_str \<Rightarrow>
    open_vault result \<times> 'd" where
  "open_vault C N d ho w kid label =
     (case r_bind (ho_platform ho) (\<lambda>_. r_bind (load_pinned_unverified w label None) (\<lambda>x.
             r_bind (ho_path ho) (\<lambda>_. Inr x))) of
        Inl e \<Rightarrow> (Inl e, d)
      | Inr (pinned, blob, untrusted) \<Rightarrow>
          (case open_master_key C N d None [] (vm_wmk untrusted) kid of (m, d', _) \<Rightarrow>
             (r_bind m (\<lambda>master. r_bind (manifest_decode C blob master) (\<lambda>verified.
                register_checked_open C ho w
                  (new_handle kid master verified True label (vm_wmk untrusted)) pinned)), d')))"

definition recover_vault :: "('x) crypto_scheme \<Rightarrow> host \<Rightarrow> vault_world \<Rightarrow> py_str \<Rightarrow> open_vault result" where
  "recover_vault C ho w passphrase =
     r_bind (ho_platform ho) (\<lambda>_. r_bind (read_recovery_blob w) (\<lambda>recovery_blob.
       r_bind (load_recovery_matched_unverified w recovery_blob) (\<lambda>(_, blob, untrusted).
         r_bind (open_passphrase C recovery_blob passphrase (vm_wmk untrusted)) (\<lambda>master.
           r_bind (manifest_decode C blob master) (\<lambda>verified.
             Inr (new_handle (vm_key_id verified) master verified False [] (vm_wmk untrusted)))))))"

text \<open>The part of \<open>recover_to_device\<close> that only reads: the generation, the sidecar and the verified manifest.\<close>

definition recover_load :: "('x) crypto_scheme \<Rightarrow> host \<Rightarrow> vault_world \<Rightarrow> py_str \<Rightarrow>
    (nat \<times> bytes \<times> bytes \<times> master_key \<times> vault_manifest) result" where
  "recover_load C ho w passphrase =
     r_bind (ho_platform ho) (\<lambda>_. r_bind (ho_publication ho) (\<lambda>_. r_bind (ho_dirs ho) (\<lambda>_.
       r_bind (read_recovery_blob w) (\<lambda>recovery_blob.
         r_bind (load_recovery_matched_unverified w recovery_blob) (\<lambda>(g, blob, untrusted).
           r_bind (ho_path ho) (\<lambda>_.
             r_bind (open_passphrase C recovery_blob passphrase (vm_wmk untrusted)) (\<lambda>master.
               r_bind (manifest_decode C blob master) (\<lambda>verified.
                 r_bind (ho_source_guard ho) (\<lambda>_.
                   Inr (g, recovery_blob, vm_wmk untrusted, master, verified))))))))))"

definition recover_to_device :: "('x) crypto_scheme \<Rightarrow> ('d, 'y) native_scheme \<Rightarrow> 'd \<Rightarrow> host \<Rightarrow> draws \<Rightarrow> vault_world \<Rightarrow>
    py_str \<Rightarrow> py_str \<Rightarrow> py_str \<Rightarrow> open_vault result \<times> 'd \<times> vault_step list" where
  "recover_to_device C N d ho r w passphrase kid label =
     (case recover_load C ho w passphrase of
        Inl e \<Rightarrow> (Inl e, d, [])
      | Inr (g, recovery_blob, old_wmk, master, verified) \<Rightarrow>
          (case reseal_onto_device C N d r recovery_blob passphrase old_wmk kid of
             (Inl e, d') \<Rightarrow> (Inl e, d', [])
           | (Inr sealed, d') \<Rightarrow>
               let g' = vm_generation verified + 1;
                   new_manifest = \<lparr>vm_key_id = kid, vm_wmk = sm_wmk sealed, vm_files = vm_files verified,
                     vm_generation = g'\<rparr>
               in (case manifest_encode C new_manifest master of
                     Inl e \<Rightarrow> (Inl e, d', [])
                   | Inr mb \<Rightarrow>
                       let writes = [PutManifest (nat g') mb, PutRecovery (sm_recovery sealed)]
                       in (case write_anchor (vw_anchors w) label (sm_wmk sealed) g' of
                             Inl e \<Rightarrow> (Inl e, d', writes)
                           | Inr store \<Rightarrow>
                               let committed = writes @ [FlipAnchor store];
                                   steps = committed @ gc_steps (run_steps w committed) new_manifest (int g)
                               in (register_checked_open C ho (run_steps w steps)
                                     (new_handle kid master new_manifest True label (sm_wmk sealed))
                                     \<lparr>va_wmk_sha256 = wmk_fingerprint (sm_wmk sealed), va_generation = g'\<rparr>,
                                   d', steps)))))"

section \<open>Passphrase rotation\<close>

text \<open>
  The device path reads \<open>w\<close> before the prompt and \<open>w'\<close> under the lock after it: other writers may
  have run in between. The sidecar is written into \<open>w'\<close>.
\<close>

definition change_passphrase_device :: "('x) crypto_scheme \<Rightarrow> ('d, 'y) native_scheme \<Rightarrow> 'd \<Rightarrow> host \<Rightarrow> draws \<Rightarrow>
    vault_world \<Rightarrow> vault_world \<Rightarrow> py_str \<Rightarrow> py_str \<Rightarrow> py_str \<Rightarrow> unit result \<times> 'd \<times> vault_step list" where
  "change_passphrase_device C N d ho r w w' new_passphrase kid label =
     (case r_bind (ho_platform ho) (\<lambda>_. r_bind (ho_dirs ho) (\<lambda>_. r_bind (read_recovery_blob w) (\<lambda>_.
             load_pinned_unverified w label None))) of
        Inl e \<Rightarrow> (Inl e, d, [])
      | Inr (_, _, untrusted) \<Rightarrow>
          (case rewrap_from_device C N d r kid new_passphrase (vm_wmk untrusted) of
             (Inl e, d') \<Rightarrow> (Inl e, d', [])
           | (Inr new_recovery, d') \<Rightarrow>
               (case load_pinned_unverified w' label None of
                  Inl e \<Rightarrow> (Inl e, d', [])
                | Inr (_, _, current) \<Rightarrow>
                    if vm_wmk current \<noteq> vm_wmk untrusted then (Inl VaultError, d', [])
                    else (Inr (), d', [PutRecovery new_recovery]))))"

definition change_passphrase_cold :: "('x) crypto_scheme \<Rightarrow> host \<Rightarrow> draws \<Rightarrow> vault_world \<Rightarrow> py_str \<Rightarrow> py_str \<Rightarrow>
    unit result \<times> vault_step list" where
  "change_passphrase_cold C ho r w old_passphrase new_passphrase =
     (case r_bind (ho_platform ho) (\<lambda>_. r_bind (ho_dirs ho) (\<lambda>_. r_bind (read_recovery_blob w) (\<lambda>recovery_blob.
             r_bind (load_recovery_matched_unverified w recovery_blob) (\<lambda>(_, _, untrusted).
               rewrap_from_passphrase C r recovery_blob old_passphrase new_passphrase (vm_wmk untrusted))))) of
        Inl e \<Rightarrow> (Inl e, [])
      | Inr new_recovery \<Rightarrow> (Inr (), [PutRecovery new_recovery]))"

section \<open>Enroll and unenroll\<close>

definition env_name :: py_str where
  "env_name = str_lit ''.env''"

text \<open>The \<open>.env\<close> source before and after the change, with its guard.\<close>

definition new_env_of :: "('x) crypto_scheme \<Rightarrow> open_vault \<Rightarrow> bytes option \<Rightarrow> vault_manifest \<Rightarrow> (py_str \<times> bytes) list \<Rightarrow>
    bytes option result" where
  "new_env_of C h old_env new_manifest blobs =
     (case map_of (vm_files new_manifest) env_name of
        None \<Rightarrow> Inr None
      | Some new_digest \<Rightarrow>
          (case map_of blobs new_digest of
             None \<Rightarrow>
               if Some new_digest \<noteq> map_of (vm_files (ov_manifest h)) env_name then Inl DatabaseRefused
               else Inr old_env
           | Some supplied \<Rightarrow>
               if sha256_hex supplied \<noteq> new_digest then Inl DatabaseRefused
               else r_bind (container_decode C supplied (ov_master h) env_name) (\<lambda>p. Inr (Some p))))"

definition env_source_guard :: "('x) crypto_scheme \<Rightarrow> host \<Rightarrow> vault_world \<Rightarrow> open_vault \<Rightarrow> vault_manifest \<Rightarrow>
    (py_str \<times> bytes) list \<Rightarrow> unit result" where
  "env_source_guard C ho w h new_manifest blobs =
     r_bind (if map_of (vm_files (ov_manifest h)) env_name \<noteq> None
             then r_bind (read_file C w h env_name) (\<lambda>p. Inr (Some p)) else Inr None) (\<lambda>old_env.
       r_bind (new_env_of C h old_env new_manifest blobs) (\<lambda>new_env.
         r_bind (effective_memory_key (ho_dotenv ho) old_env) (\<lambda>old_key.
           r_bind (effective_memory_key (ho_dotenv ho) new_env) (\<lambda>new_key.
             if old_key \<noteq> new_key then ho_source_guard ho else Inr ()))))"

text \<open>What \<open>_commit_new_manifest\<close> checks under the lock before its first write.\<close>

definition commit_checks :: "('x) crypto_scheme \<Rightarrow> host \<Rightarrow> vault_world \<Rightarrow> open_vault \<Rightarrow> vault_manifest \<Rightarrow>
    (py_str \<times> bytes) list \<Rightarrow> unit result" where
  "commit_checks C ho w h new_manifest blobs =
     r_bind (ho_dirs ho) (\<lambda>_. r_bind (read_anchor (vw_anchors w) (ov_label h)) (\<lambda>pinned.
       if va_generation pinned \<noteq> vm_generation (ov_manifest h)
          \<or> \<not> compare_digest (va_wmk_sha256 pinned) (wmk_fingerprint (ov_wmk h))
       then Inl VaultError
       else r_bind (authenticate_current C w h (Some pinned)) (\<lambda>_.
         env_source_guard C ho w h new_manifest blobs)))"

definition commit_new_manifest :: "('x) crypto_scheme \<Rightarrow> host \<Rightarrow> vault_world \<Rightarrow> open_vault \<Rightarrow> vault_manifest \<Rightarrow>
    (py_str \<times> bytes) list \<Rightarrow> unit result \<times> open_vault \<times> vault_step list" where
  "commit_new_manifest C ho w h new_manifest blobs =
     (case commit_checks C ho w h new_manifest blobs of
        Inl e \<Rightarrow> (Inl e, h, [])
      | Inr _ \<Rightarrow>
          let puts = map (\<lambda>(digest, b). PutBlob digest b) blobs
          in (case manifest_encode C new_manifest (ov_master h) of
                Inl e \<Rightarrow> (Inl e, h, puts)
              | Inr mb \<Rightarrow>
                  let writes = puts @ [PutManifest (nat (vm_generation new_manifest)) mb]
                  in (case write_anchor (vw_anchors w) (ov_label h) (ov_wmk h) (vm_generation new_manifest) of
                        Inl e \<Rightarrow> (Inl e, h, writes)
                      | Inr store \<Rightarrow>
                          let committed = writes @ [FlipAnchor store]
                          in (Inr (), h\<lparr>ov_manifest := new_manifest\<rparr>,
                              committed @ gc_steps (run_steps w committed) new_manifest
                                (vm_generation new_manifest - 1)))))"

definition enroll_file :: "('x) crypto_scheme \<Rightarrow> host \<Rightarrow> bytes \<Rightarrow> vault_world \<Rightarrow> open_vault \<Rightarrow> py_str \<Rightarrow> bytes \<Rightarrow>
    unit result \<times> open_vault \<times> vault_step list" where
  "enroll_file C ho nonce w h name plaintext =
     (case r_bind (ho_platform ho) (\<lambda>_. r_bind (vault_check h) (\<lambda>_.
             if \<not> ov_store h then Inl VaultError
             else container_encode C nonce (ov_master h) plaintext (ov_key_id h) (ov_wmk h) name)) of
        Inl e \<Rightarrow> (Inl e, h, [])
      | Inr blob \<Rightarrow>
          let digest = sha256_hex blob
          in commit_new_manifest C ho w h
               \<lparr>vm_key_id = ov_key_id h, vm_wmk = ov_wmk h,
                vm_files = dict_put name digest (vm_files (ov_manifest h)),
                vm_generation = vm_generation (ov_manifest h) + 1\<rparr>
               [(digest, blob)])"

definition unenroll_file :: "('x) crypto_scheme \<Rightarrow> host \<Rightarrow> vault_world \<Rightarrow> open_vault \<Rightarrow> py_str \<Rightarrow>
    unit result \<times> open_vault \<times> vault_step list" where
  "unenroll_file C ho w h name =
     (case r_bind (ho_platform ho) (\<lambda>_. vault_check h) of
        Inl e \<Rightarrow> (Inl e, h, [])
      | Inr _ \<Rightarrow>
          if name \<notin> fst ` set (vm_files (ov_manifest h)) then (Inr (), h, [])
          else if \<not> ov_store h then (Inl VaultError, h, [])
          else commit_new_manifest C ho w h
               \<lparr>vm_key_id = ov_key_id h, vm_wmk = ov_wmk h,
                vm_files = filter (\<lambda>(k, _). k \<noteq> name) (vm_files (ov_manifest h)),
                vm_generation = vm_generation (ov_manifest h) + 1\<rparr>
               [])"

end
