(* ===== verification/Vault_Proofs.thy ===== *)
theory Vault_Proofs
  imports Vault
begin

text \<open>
  The invariant of a committed vault and what preserves it: which writes keep a generation
  openable, what every prefix of a commit leaves behind, and that a committed generation opens
  again with the same files.
\<close>

section \<open>Committed generations\<close>

definition pin_of :: "vault_manifest \<Rightarrow> vault_anchor" where
  "pin_of m = \<lparr>va_wmk_sha256 = wmk_fingerprint (vm_wmk m), va_generation = vm_generation m\<rparr>"

definition digests :: "vault_manifest \<Rightarrow> py_str set" where
  "digests m = ran (map_of (vm_files m))"

definition on_disk :: "('x) crypto_scheme \<Rightarrow> vault_world \<Rightarrow> bytes \<Rightarrow> vault_manifest \<Rightarrow> bool" where
  "on_disk C w key m \<longleftrightarrow> (\<exists>b m'. fmlookup (vw_manifests w) (nat (vm_generation m)) = Some b \<and>
       manifest_decode C b (master_new key) = Inr m' \<and> manifest_eq m' m) \<and>
     (\<forall>d \<in> digests m. \<exists>b. fmlookup (vw_blobs w) d = Some b \<and> sha256_hex b = d)"

definition committed :: "('x) crypto_scheme \<Rightarrow> vault_world \<Rightarrow> py_str \<Rightarrow> bytes \<Rightarrow> vault_manifest \<Rightarrow> bool" where
  "committed C w label key m \<longleftrightarrow> read_anchor (vw_anchors w) label = Inr (pin_of m) \<and> on_disk C w key m"

text \<open>The worlds agree on every blob that \<open>m\<close> names.\<close>

definition agree :: "vault_world \<Rightarrow> vault_world \<Rightarrow> vault_manifest \<Rightarrow> bool" where
  "agree w w' m \<longleftrightarrow> (\<forall>d \<in> digests m. fmlookup (vw_blobs w') d = fmlookup (vw_blobs w) d)"

lemma manifest_eq_refl [simp]: "manifest_eq m m"
  by (simp add: manifest_eq_def)

lemma manifest_eq_sym: "manifest_eq a b \<Longrightarrow> manifest_eq b a"
  by (simp add: manifest_eq_def)

lemma manifest_eq_trans: "manifest_eq a b \<Longrightarrow> manifest_eq b c \<Longrightarrow> manifest_eq a c"
  by (simp add: manifest_eq_def)

lemma manifest_eq_pin: "manifest_eq a b \<Longrightarrow> pin_of a = pin_of b"
  by (simp add: manifest_eq_def pin_of_def)

lemma manifest_eq_digests: "manifest_eq a b \<Longrightarrow> digests a = digests b"
  by (simp add: manifest_eq_def digests_def)

lemma on_disk_cong: "manifest_eq a b \<Longrightarrow> on_disk C w key a \<longleftrightarrow> on_disk C w key b"
proof -
  have "on_disk C w key a \<Longrightarrow> on_disk C w key b" if e: "manifest_eq a b" for a b
  proof -
    assume "on_disk C w key a"
    then obtain x m' where x: "fmlookup (vw_manifests w) (nat (vm_generation a)) = Some x"
      "manifest_decode C x (master_new key) = Inr m'" "manifest_eq m' a"
      and d: "\<forall>d \<in> digests a. \<exists>b. fmlookup (vw_blobs w) d = Some b \<and> sha256_hex b = d"
      by (auto simp: on_disk_def)
    have "vm_generation b = vm_generation a" using e by (simp add: manifest_eq_def)
    then show "on_disk C w key b"
      using x manifest_eq_trans [OF x(3) e] d manifest_eq_digests [OF e] by (auto simp: on_disk_def)
  qed
  then show "manifest_eq a b \<Longrightarrow> ?thesis" using manifest_eq_sym by blast
qed

lemma committed_cong: "manifest_eq a b \<Longrightarrow> committed C w label key a \<longleftrightarrow> committed C w label key b"
  by (simp add: committed_def manifest_eq_pin on_disk_cong)

section \<open>Writes that keep a generation\<close>

fun keeps :: "vault_world \<Rightarrow> vault_manifest \<Rightarrow> vault_step \<Rightarrow> bool" where
  "keeps w m (PutBlob d b) \<longleftrightarrow> d \<in> digests m \<longrightarrow> fmlookup (vw_blobs w) d = Some b"
| "keeps w m (PutManifest g b) \<longleftrightarrow> g \<noteq> nat (vm_generation m)"
| "keeps w m (PutRecovery b) \<longleftrightarrow> True"
| "keeps w m (FlipAnchor s) \<longleftrightarrow> False"
| "keeps w m (DropManifest g) \<longleftrightarrow> g \<noteq> nat (vm_generation m)"
| "keeps w m (DropBlob d) \<longleftrightarrow> d \<notin> digests m"

lemma keeps_step:
  assumes "keeps w m s"
  shows "agree w (apply_step w s) m" "on_disk C w key m \<Longrightarrow> on_disk C (apply_step w s) key m"
    "vw_anchors (apply_step w s) = vw_anchors w" "\<And>t. keeps w m t \<Longrightarrow> keeps (apply_step w s) m t"
proof -
  show "agree w (apply_step w s) m" using assms by (cases s) (auto simp: agree_def)
  show "on_disk C w key m \<Longrightarrow> on_disk C (apply_step w s) key m" using assms by (cases s) (auto simp: on_disk_def)
  show "vw_anchors (apply_step w s) = vw_anchors w" using assms by (cases s) auto
  show "keeps (apply_step w s) m t" if "keeps w m t" for t
    using assms that by (cases s; cases t) auto
qed

lemma run_steps_simps [simp]:
  "run_steps w [] = w" "run_steps w (s # ss) = run_steps (apply_step w s) ss"
  "run_steps w (ss @ ts) = run_steps (run_steps w ss) ts"
  by (simp_all add: run_steps_def)

lemma agree_trans: "agree w w' m \<Longrightarrow> agree w' w'' m \<Longrightarrow> agree w w'' m"
  by (simp add: agree_def)

lemma agree_refl [simp]: "agree w w m"
  by (simp add: agree_def)

interpretation disk_log: write_log apply_step
  "\<lambda>w. agree w0 w m \<and> (on_disk C w0 key m \<longrightarrow> on_disk C w key m) \<and> vw_anchors w = vw_anchors w0"
  "\<lambda>w. keeps w m" for w0 C key m
  using keeps_step agree_trans by unfold_locales auto

lemma keeps_run:
  assumes "list_all (keeps w m) ss"
  shows "agree w (run_steps w ss) m" "on_disk C w key m \<Longrightarrow> on_disk C (run_steps w ss) key m"
    "vw_anchors (run_steps w ss) = vw_anchors w"
  using disk_log.good_all [OF assms, of w C key] by (simp_all add: run_steps_def)

lemma keeps_committed:
  assumes "list_all (keeps w m) ss" "committed C w label key m"
  shows "committed C (run_steps w ss) label key m" "agree w (run_steps w ss) m"
  using keeps_run(1,3) [OF assms(1)] keeps_run(2) [OF assms(1), of C key] assms(2)
  by (simp_all add: committed_def)

lemma list_all_take: "list_all p xs \<Longrightarrow> list_all p (take k xs)"
  by (auto simp: list_all_iff dest: in_set_takeD)

lemma gc_keeps:
  assumes "superseded \<noteq> vm_generation m" "0 \<le> superseded" "0 \<le> vm_generation m"
  shows "list_all (keeps w' m) (gc_steps w m superseded)"
proof -
  have "digests m \<subseteq> snd ` set (vm_files m)"
    by (auto simp: digests_def ran_def dest: map_of_SomeD intro: rev_image_eqI)
  then show ?thesis
    using assms by (auto simp: gc_steps_def list_all_iff nat_eq_iff2)
qed

text \<open>A commit: writes that keep the old generation, the flip, then cleaning up.\<close>

lemma crash_commit:
  "crash w (writes @ FlipAnchor store # gc) k =
     (if k \<le> length writes then run_steps w (take k writes)
      else run_steps (run_steps w writes\<lparr>vw_anchors := store\<rparr>) (take (k - Suc (length writes)) gc))"
proof (cases "k \<le> length writes")
  case False
  then obtain j where "k = length writes + Suc j" by (metis add_Suc_right less_imp_Suc_add not_le)
  then show ?thesis by (simp add: crash_def)
qed (simp add: crash_def)

section \<open>Loading and opening a committed generation\<close>

lemma load_pinned_committed:
  assumes "committed C w label key m" "p \<in> {None, Some (pin_of m)}"
  obtains b m' where "load_pinned_unverified w label p = Inr (pin_of m, b, m')"
    "manifest_decode C b (master_new key) = Inr m'" "manifest_eq m' m"
proof -
  from assms(1) obtain b m' where b: "read_anchor (vw_anchors w) label = Inr (pin_of m)"
    "fmlookup (vw_manifests w) (nat (vm_generation m)) = Some b"
    "manifest_decode C b (master_new key) = Inr m'" "manifest_eq m' m"
    by (auto simp: committed_def on_disk_def)
  have "parse_unverified b = Inr m'" using b(3) by (rule parse_unverified_of_decode)
  moreover have "verify_pinned (pin_of m) (vm_wmk m') (vm_generation m') = Inr ()"
    using b(4) by (simp add: verify_pinned_iff pin_of_def manifest_eq_def wmk_fingerprint_def)
  ultimately have "load_pinned_unverified w label p = Inr (pin_of m, b, m')"
    using b assms(2) by (auto simp: load_pinned_unverified_def pin_of_def)
  with b that show ?thesis by blast
qed

text \<open>A live handle on the committed generation of a vault.\<close>

definition live :: "('x) crypto_scheme \<Rightarrow> vault_world \<Rightarrow> bytes \<Rightarrow> open_vault \<Rightarrow> bool" where
  "live C w key h \<longleftrightarrow> committed C w (ov_label h) key (ov_manifest h) \<and> manifest_ok (ov_manifest h) \<and>
     ov_master h = master_new key \<and> ov_store h \<and> \<not> ov_closed h \<and>
     vm_wmk (ov_manifest h) = ov_wmk h \<and> vm_key_id (ov_manifest h) = ov_key_id h \<and>
     length key = 32 \<and> ov_wmk h \<noteq> []"

lemma authenticate_live:
  assumes "committed C w (ov_label h) key (ov_manifest h)" "ov_master h = master_new key"
    "vm_wmk (ov_manifest h) = ov_wmk h" "vm_key_id (ov_manifest h) = ov_key_id h"
    "p \<in> {None, Some (pin_of (ov_manifest h))}"
  shows "authenticate_current C w h p = Inr ()"
proof -
  obtain b m' where "load_pinned_unverified w (ov_label h) p = Inr (pin_of (ov_manifest h), b, m')"
    "manifest_decode C b (master_new key) = Inr m'" "manifest_eq m' (ov_manifest h)"
    by (rule load_pinned_committed [OF assms(1,5)])
  then show ?thesis
    using assms by (simp add: authenticate_current_def manifest_eq_def)
qed

text \<open>The device unwraps \<open>wmk\<close> to \<open>key\<close>.\<close>

definition unwraps :: "('x) crypto_scheme \<Rightarrow> ('d, 'y) native_scheme \<Rightarrow> 'd \<Rightarrow> py_str \<Rightarrow> bytes \<Rightarrow> bytes \<Rightarrow> bool" where
  "unwraps C N d kid wmk key \<longleftrightarrow> (\<exists>d'. open_master_key C N d None [] wmk kid = (Inr (master_new key), d', []))"

definition host_opens :: "host \<Rightarrow> bool" where
  "host_opens ho \<longleftrightarrow> ho_platform ho = Inr () \<and> ho_path ho = Inr ()"

lemma open_committed:
  assumes "committed C w label key m" "unwraps C N d (vm_key_id m) (vm_wmk m) key" "host_opens ho"
    "length key = 32"
  obtains h d' where "open_vault C N d ho w (vm_key_id m) label = (Inr h, d')"
    "manifest_eq (ov_manifest h) m" "ov_label h = label" "ov_master h = master_new key" "ov_store h"
    "\<not> ov_closed h" "ov_wmk h = vm_wmk m" "ov_key_id h = vm_key_id m"
    "committed C w label key (ov_manifest h)"
proof -
  obtain b m' where l: "load_pinned_unverified w label None = Inr (pin_of m, b, m')"
    "manifest_decode C b (master_new key) = Inr m'" "manifest_eq m' m"
    by (rule load_pinned_committed [OF assms(1), of None]) simp
  from l(3) have e: "vm_wmk m' = vm_wmk m" "vm_key_id m' = vm_key_id m" "pin_of m' = pin_of m"
    using manifest_eq_pin [OF l(3)] by (simp_all add: manifest_eq_def)
  let ?h = "new_handle (vm_key_id m) (master_new key) m' True label (vm_wmk m)"
  have c: "committed C w label key m'" using assms(1) committed_cong [OF l(3)] by blast
  then have "authenticate_current C w ?h (Some (pin_of m)) = Inr ()"
    using e by (intro authenticate_live) (simp_all add: new_handle_def)
  then have reg: "register_checked_open C ho w ?h (pin_of m) = Inr ?h"
    using assms(3) by (simp add: register_checked_open_def host_opens_def)
  obtain d' where u: "open_master_key C N d None [] (vm_wmk m) (vm_key_id m) = (Inr (master_new key), d', [])"
    using assms(2) by (auto simp: unwraps_def)
  have "open_vault C N d ho w (vm_key_id m) label = (Inr ?h, d')"
    using assms(3) by (simp add: open_vault_def host_opens_def l(1,2) e(1) u reg)
  moreover have "ov_manifest ?h = m'" "ov_label ?h = label" "ov_master ?h = master_new key" "ov_store ?h"
    "\<not> ov_closed ?h" "ov_wmk ?h = vm_wmk m" "ov_key_id ?h = vm_key_id m"
    by (simp_all add: new_handle_def)
  ultimately show ?thesis using that [of ?h d'] c l(3) by simp
qed

text \<open>Reading depends on the files of the manifest and on their blobs only.\<close>

lemma read_file_cong:
  assumes "manifest_eq (ov_manifest h) (ov_manifest h')" "agree w w' (ov_manifest h)"
    "ov_master h = ov_master h'" "ov_closed h = ov_closed h'"
  shows "read_file C w' h' name = read_file C w h name"
proof -
  have "map_of (vm_files (ov_manifest h')) = map_of (vm_files (ov_manifest h))"
    using assms(1) by (simp add: manifest_eq_def)
  then show ?thesis
    using assms(2-4) by (auto simp: read_file_def vault_check_def agree_def digests_def ran_def split: option.split)
qed

section \<open>The commit\<close>

text \<open>The next manifest of a handle, and new content that neither collides nor dangles.\<close>

definition next_of :: "open_vault \<Rightarrow> vault_manifest \<Rightarrow> bool" where
  "next_of h m \<longleftrightarrow> manifest_ok m \<and> vm_key_id m = ov_key_id h \<and> vm_wmk m = ov_wmk h \<and>
     vm_generation m = vm_generation (ov_manifest h) + 1"

definition supplied_ok :: "vault_world \<Rightarrow> vault_manifest \<Rightarrow> vault_manifest \<Rightarrow> (py_str \<times> bytes) list \<Rightarrow> bool" where
  "supplied_ok w m m' blobs \<longleftrightarrow> length blobs \<le> 1 \<and> digests m' \<subseteq> digests m \<union> fst ` set blobs \<and>
     (\<forall>(d, b) \<in> set blobs. sha256_hex b = d \<and> (\<forall>b'. fmlookup (vw_blobs w) d = Some b' \<longrightarrow> b' = b))"

definition put_blobs :: "(py_str \<times> bytes) list \<Rightarrow> vault_step list" where
  "put_blobs blobs = map (\<lambda>(d, b). PutBlob d b) blobs"

lemma digest_blob:
  assumes "on_disk C w key m" "d \<in> digests m"
  obtains b where "fmlookup (vw_blobs w) d = Some b" "sha256_hex b = d"
  using assms by (auto simp: on_disk_def)

lemma put_blobs_keep:
  assumes "supplied_ok w m m' blobs" "on_disk C w key m"
  shows "list_all (keeps w m) (put_blobs blobs)"
proof -
  have "fmlookup (vw_blobs w) d = Some b" if db: "(d, b) \<in> set blobs" "d \<in> digests m" for d b
  proof -
    obtain b' where "fmlookup (vw_blobs w) d = Some b'" using digest_blob [OF assms(2) db(2)] by blast
    with assms(1) db(1) show ?thesis by (auto simp: supplied_ok_def)
  qed
  then show ?thesis by (auto simp: put_blobs_def list_all_iff)
qed

lemma put_blobs_new:
  assumes "supplied_ok w m m' blobs" "on_disk C w key m" "d \<in> digests m'"
  shows "\<exists>b. fmlookup (vw_blobs (run_steps w (put_blobs blobs))) d = Some b \<and> sha256_hex b = d"
proof (cases "d \<in> digests m")
  case True
  then show ?thesis
    using keeps_run(2) [OF put_blobs_keep [OF assms(1,2)] assms(2)] by (auto simp: on_disk_def)
next
  case False
  with assms(1,3) obtain b where "blobs = [(d, b)]" "sha256_hex b = d"
    by (cases blobs) (auto simp: supplied_ok_def)
  then show ?thesis by (simp add: put_blobs_def)
qed

lemma commit_writes:
  assumes "live C w key h" "next_of h m'" "supplied_ok w (ov_manifest h) m' blobs"
    "commit_checks C ho w h m' blobs = Inr u"
  obtains mb store where
    "commit_new_manifest C ho w h m' blobs = (Inr (), h\<lparr>ov_manifest := m'\<rparr>,
       put_blobs blobs @ [PutManifest (nat (vm_generation m')) mb] @ FlipAnchor store #
         gc_steps (run_steps w (put_blobs blobs @ [PutManifest (nat (vm_generation m')) mb, FlipAnchor store]))
           m' (vm_generation m' - 1))"
    "list_all (keeps w (ov_manifest h)) (put_blobs blobs @ [PutManifest (nat (vm_generation m')) mb])"
    "committed C (run_steps w (put_blobs blobs @ [PutManifest (nat (vm_generation m')) mb])\<lparr>vw_anchors := store\<rparr>)
       (ov_label h) key m'"
proof -
  have h: "ov_master h = master_new key" "committed C w (ov_label h) key (ov_manifest h)"
    "on_disk C w key (ov_manifest h)" "ov_wmk h \<noteq> []" "0 \<le> vm_generation (ov_manifest h)"
    using assms(1) by (auto simp: live_def committed_def manifest_ok_def)
  have m: "manifest_ok m'" "vm_wmk m' = ov_wmk h" "vm_generation m' = vm_generation (ov_manifest h) + 1"
    using assms(2) by (simp_all add: next_of_def)
  obtain mb where mb: "manifest_encode C m' (master_new key) = Inr mb"
    "manifest_decode C mb (master_new key) = Inr (manifest_norm m')"
    using manifest_decode_encode [OF m(1), of "master_new key" C] by (auto simp: master_new_def)
  have "pinnable (ov_wmk h) (vm_generation m')"
    using m(1) h(4) by (simp add: pinnable_def manifest_ok_def)
  then obtain store where store: "write_anchor (vw_anchors w) (ov_label h) (ov_wmk h) (vm_generation m') = Inr store"
    "read_anchor store (ov_label h) = Inr (pin_of m')"
    using write_read_anchor [of "ov_wmk h" "vm_generation m'" "vw_anchors w" "ov_label h"] m(2)
    by (auto simp: pin_of_def)
  let ?w = "run_steps w (put_blobs blobs @ [PutManifest (nat (vm_generation m')) mb])"
  have "manifest_eq (manifest_norm m') m'" using m(1) by (intro manifest_norm_eq) (simp add: manifest_ok_def)
  moreover have "fmlookup (vw_manifests ?w) (nat (vm_generation m')) = Some mb" by simp
  moreover have "\<exists>b. fmlookup (vw_blobs ?w) d = Some b \<and> sha256_hex b = d" if "d \<in> digests m'" for d
    using put_blobs_new [OF assms(3) h(3) that] by simp
  ultimately have "on_disk C ?w key m'"
    unfolding on_disk_def using mb(2) by blast
  then have "committed C (?w\<lparr>vw_anchors := store\<rparr>) (ov_label h) key m'"
    using store(2) by (simp add: committed_def on_disk_def)
  moreover have "list_all (keeps w (ov_manifest h)) (put_blobs blobs @ [PutManifest (nat (vm_generation m')) mb])"
    using put_blobs_keep [OF assms(3) h(3)] m(3) h(5) by (simp add: nat_eq_iff2)
  moreover have "commit_new_manifest C ho w h m' blobs = (Inr (), h\<lparr>ov_manifest := m'\<rparr>,
       put_blobs blobs @ [PutManifest (nat (vm_generation m')) mb] @ FlipAnchor store #
         gc_steps (run_steps w (put_blobs blobs @ [PutManifest (nat (vm_generation m')) mb, FlipAnchor store]))
           m' (vm_generation m' - 1))"
    using assms(4) mb(1) store(1) h(1) by (simp add: commit_new_manifest_def Let_def put_blobs_def)
  ultimately show ?thesis using that by blast
qed

text \<open>
  Every prefix of a commit leaves the old generation committed with all its blobs, or, after the
  flip, the new one with all of its blobs.
\<close>

lemma commit_prefix:
  assumes "live C w key h" "next_of h m'" "supplied_ok w (ov_manifest h) m' blobs"
    "commit_new_manifest C ho w h m' blobs = (r, h', steps)"
  shows "committed C (crash w steps k) (ov_label h) key (ov_manifest h) \<and> agree w (crash w steps k) (ov_manifest h) \<or>
    r = Inr () \<and> committed C (crash w steps k) (ov_label h) key m' \<and>
    agree (run_steps w (put_blobs blobs)) (crash w steps k) m'"
    and "r = Inr () \<Longrightarrow> h' = h\<lparr>ov_manifest := m'\<rparr> \<and> committed C (run_steps w steps) (ov_label h) key m' \<and>
      agree (run_steps w (put_blobs blobs)) (run_steps w steps) m'"
    and "r \<noteq> Inr () \<Longrightarrow> h' = h \<and> steps = []"
proof -
  have old: "committed C w (ov_label h) key (ov_manifest h)" using assms(1) by (simp add: live_def)
  have "(committed C (crash w steps k) (ov_label h) key (ov_manifest h) \<and> agree w (crash w steps k) (ov_manifest h) \<or>
    r = Inr () \<and> committed C (crash w steps k) (ov_label h) key m' \<and>
    agree (run_steps w (put_blobs blobs)) (crash w steps k) m') \<and>
    (r = Inr () \<longrightarrow> h' = h\<lparr>ov_manifest := m'\<rparr> \<and> committed C (run_steps w steps) (ov_label h) key m' \<and>
      agree (run_steps w (put_blobs blobs)) (run_steps w steps) m') \<and>
    (r \<noteq> Inr () \<longrightarrow> h' = h \<and> steps = [])"
  proof (cases "commit_checks C ho w h m' blobs")
    case (Inl e)
    then show ?thesis using assms(4) old by (auto simp: commit_new_manifest_def crash_def)
  next
    case (Inr u)
    obtain mb store where c: "commit_new_manifest C ho w h m' blobs = (Inr (), h\<lparr>ov_manifest := m'\<rparr>,
       put_blobs blobs @ [PutManifest (nat (vm_generation m')) mb] @ FlipAnchor store #
         gc_steps (run_steps w (put_blobs blobs @ [PutManifest (nat (vm_generation m')) mb, FlipAnchor store]))
           m' (vm_generation m' - 1))"
      and keep: "list_all (keeps w (ov_manifest h)) (put_blobs blobs @ [PutManifest (nat (vm_generation m')) mb])"
      and new: "committed C (run_steps w (put_blobs blobs @ [PutManifest (nat (vm_generation m')) mb])\<lparr>vw_anchors := store\<rparr>)
       (ov_label h) key m'"
      by (rule commit_writes [OF assms(1-3) Inr])
    define writes where "writes = put_blobs blobs @ [PutManifest (nat (vm_generation m')) mb]"
    define gc where "gc = gc_steps (run_steps w (writes @ [FlipAnchor store])) m' (vm_generation m' - 1)"
    let ?w = "run_steps w writes\<lparr>vw_anchors := store\<rparr>"
    have steps: "steps = writes @ FlipAnchor store # gc" and r: "r = Inr ()" "h' = h\<lparr>ov_manifest := m'\<rparr>"
      using assms(4) c by (simp_all add: writes_def gc_def)
    have g: "0 \<le> vm_generation (ov_manifest h)" "vm_generation m' = vm_generation (ov_manifest h) + 1"
      using assms(1,2) by (auto simp: live_def manifest_ok_def next_of_def)
    then have gck: "list_all (keeps w' m') gc" for w'
      unfolding gc_def by (intro gc_keeps) simp_all
    have base: "agree (run_steps w (put_blobs blobs)) ?w m'" by (simp add: writes_def agree_def)
    have after: "committed C (run_steps ?w (take j gc)) (ov_label h) key m' \<and>
        agree (run_steps w (put_blobs blobs)) (run_steps ?w (take j gc)) m'" for j
      using keeps_committed [OF list_all_take [OF gck] new [folded writes_def]] agree_trans [OF base] by blast
    have before: "committed C (run_steps w (take k writes)) (ov_label h) key (ov_manifest h) \<and>
        agree w (run_steps w (take k writes)) (ov_manifest h)" for k
      using keeps_committed [OF list_all_take [OF keep [folded writes_def]] old] by blast
    have "run_steps w steps = run_steps ?w (take (length gc) gc)" by (simp add: steps)
    then show ?thesis
      using before [of k] after [of "k - Suc (length writes)"] after [of "length gc"] r
      by (simp add: steps crash_commit)
  qed
  then show "committed C (crash w steps k) (ov_label h) key (ov_manifest h) \<and> agree w (crash w steps k) (ov_manifest h) \<or>
    r = Inr () \<and> committed C (crash w steps k) (ov_label h) key m' \<and>
    agree (run_steps w (put_blobs blobs)) (crash w steps k) m'"
    "r = Inr () \<Longrightarrow> h' = h\<lparr>ov_manifest := m'\<rparr> \<and> committed C (run_steps w steps) (ov_label h) key m' \<and>
      agree (run_steps w (put_blobs blobs)) (run_steps w steps) m'"
    "r \<noteq> Inr () \<Longrightarrow> h' = h \<and> steps = []" by blast+
qed

end
