(* ===== verification/Vault_Recovery.thy ===== *)
theory Vault_Recovery
  imports Vault_Proofs
begin

text \<open>
  The cold path of the vault: which generation the recovery sidecar selects, what recovery by
  passphrase opens, creating a vault, re-keying onto a new device and rotating the passphrase,
  with what each leaves behind when it stops half way.
\<close>

section \<open>The generation the sidecar certifies\<close>

definition hit :: "vault_world \<Rightarrow> bytes \<Rightarrow> nat \<Rightarrow> bytes \<Rightarrow> vault_manifest \<Rightarrow> bool" where
  "hit w rec g b u \<longleftrightarrow> fmlookup (vw_manifests w) g = Some b \<and> parse_unverified b = Inr u \<and>
     recovery_blob_matches_wmk rec (vm_wmk u) = Inr True"

definition miss :: "vault_world \<Rightarrow> bytes \<Rightarrow> nat \<Rightarrow> bool" where
  "miss w rec g \<longleftrightarrow> (case fmlookup (vw_manifests w) g of None \<Rightarrow> True
     | Some b \<Rightarrow> (\<exists>u. parse_unverified b = Inr u \<and> recovery_blob_matches_wmk rec (vm_wmk u) = Inr False))"

lemma newest_matched_iff:
  "sorted_wrt (>) gs \<Longrightarrow> newest_matched w rec gs = Inr (Some (g, b, u)) \<longleftrightarrow>
     g \<in> set gs \<and> hit w rec g b u \<and> (\<forall>g' \<in> set gs. g < g' \<longrightarrow> miss w rec g')"
proof (induction gs)
  case (Cons x gs)
  then have IH: "newest_matched w rec gs = Inr (Some (g, b, u)) \<longleftrightarrow>
     g \<in> set gs \<and> hit w rec g b u \<and> (\<forall>g' \<in> set gs. g < g' \<longrightarrow> miss w rec g')" by simp
  have less: "\<forall>y \<in> set gs. y < x" using Cons.prems by simp
  show ?case
  proof (cases "fmlookup (vw_manifests w) x")
    case None
    then show ?thesis using IH less by (auto simp: miss_def hit_def)
  next
    case (Some c)
    show ?thesis
    proof (cases "r_bind (parse_unverified c) (\<lambda>u. recovery_blob_matches_wmk rec (vm_wmk u))")
      case (Inl e)
      then show ?thesis using Some less by (auto simp: miss_def hit_def result_iffs)
    next
      case (Inr t)
      then obtain v where "parse_unverified c = Inr v" "recovery_blob_matches_wmk rec (vm_wmk v) = Inr t"
        by (auto simp: result_iffs)
      then show ?thesis using Some less IH by (cases t) (auto simp: miss_def hit_def)
    qed
  qed
qed simp

lemma all_generations_sorted: "sorted_wrt (>) (rev (all_manifest_generations w))"
  using sorted_list_of_fset_simps(2)
  by (simp add: all_manifest_generations_def sorted_wrt_rev strict_sorted_iff sorted_list_of_fset_def)

lemma set_all_generations: "set (all_manifest_generations w) = fmdom' (vw_manifests w)"
  by (simp add: all_manifest_generations_def fmdom'_alt_def)

definition selects :: "vault_world \<Rightarrow> bytes \<Rightarrow> nat \<Rightarrow> bytes \<Rightarrow> vault_manifest \<Rightarrow> bool" where
  "selects w rec g b u \<longleftrightarrow> hit w rec g b u \<and> (\<forall>g'. g < g' \<longrightarrow> miss w rec g')"

lemma load_matched:
  assumes "selects w rec g b u"
  shows "load_recovery_matched_unverified w rec = Inr (g, b, u)"
proof -
  have "newest_matched w rec (rev (all_manifest_generations w)) = Inr (Some (g, b, u))"
    using assms unfolding newest_matched_iff [OF all_generations_sorted]
    by (auto simp: selects_def set_all_generations hit_def intro: fmdom'I)
  then show ?thesis by (simp add: load_recovery_matched_unverified_def)
qed

text \<open>The sidecar matches a \<open>wmk\<close> exactly when it has the fingerprint the sidecar certifies.\<close>

lemma matches_iff:
  assumes "recovery_blob_matches_wmk rec wmk = Inr True"
  shows "recovery_blob_matches_wmk rec wmk' = Inr (sha256 wmk' = sha256 wmk)"
  using assms by (auto simp: recovery_blob_matches_wmk_def compare_digest_def recovery_digest_def result_iffs)

section \<open>Cold-recoverable vaults\<close>

definition cold :: "('x) crypto_scheme \<Rightarrow> vault_world \<Rightarrow> py_str \<Rightarrow> bytes \<Rightarrow> vault_manifest \<Rightarrow> bool" where
  "cold C w pass key m \<longleftrightarrow> (\<exists>rec b u. vw_recovery w = Some rec \<and> selects w rec (nat (vm_generation m)) b u \<and>
       open_passphrase C rec pass (vm_wmk u) = Inr (master_new key) \<and>
       manifest_decode C b (master_new key) = Inr u \<and> manifest_ok u \<and> manifest_eq u m) \<and>
     (\<forall>d \<in> digests m. \<exists>b. fmlookup (vw_blobs w) d = Some b \<and> sha256_hex b = d)"

lemma recover_cold:
  assumes "cold C w pass key m" "ho_platform ho = Inr ()"
  obtains h where "recover_vault C ho w pass = Inr h" "manifest_eq (ov_manifest h) m" "ov_master h = master_new key"
    "\<not> ov_closed h" "\<not> ov_store h"
proof -
  from assms(1) obtain rec b u where "vw_recovery w = Some rec" "selects w rec (nat (vm_generation m)) b u"
    "open_passphrase C rec pass (vm_wmk u) = Inr (master_new key)"
    "manifest_decode C b (master_new key) = Inr u" "manifest_eq u m"
    by (auto simp: cold_def)
  then have "recover_vault C ho w pass = Inr (new_handle (vm_key_id u) (master_new key) u False [] (vm_wmk u))"
    using assms(2) load_matched by (simp add: recover_vault_def read_recovery_blob_def)
  then show ?thesis using that \<open>manifest_eq u m\<close> by (simp add: new_handle_def)
qed

text \<open>Cleaning up keeps a cold vault cold and a committed generation committed.\<close>

fun tidies :: "vault_manifest \<Rightarrow> vault_step \<Rightarrow> bool" where
  "tidies m (DropManifest g) \<longleftrightarrow> g \<noteq> nat (vm_generation m)"
| "tidies m (DropBlob d) \<longleftrightarrow> d \<notin> digests m"
| "tidies m _ \<longleftrightarrow> False"

lemma tidies_keeps: "tidies m s \<Longrightarrow> keeps w m s"
  by (cases s) auto

lemma gc_tidies:
  assumes "superseded \<noteq> vm_generation m" "0 \<le> superseded" "0 \<le> vm_generation m"
  shows "list_all (tidies m) (gc_steps w' m superseded)"
proof -
  have "digests m \<subseteq> snd ` set (vm_files m)"
    by (auto simp: digests_def ran_def dest: map_of_SomeD intro: rev_image_eqI)
  then show ?thesis using assms by (auto simp: gc_steps_def list_all_iff nat_eq_iff2)
qed

lemma selects_drop: "g' \<noteq> g \<Longrightarrow> selects w rec g b u \<Longrightarrow>
    selects (w\<lparr>vw_manifests := fmdrop g' (vw_manifests w)\<rparr>) rec g b u"
  by (auto simp: selects_def hit_def miss_def)

lemma selects_blobs: "selects (w\<lparr>vw_blobs := x\<rparr>) rec g b u \<longleftrightarrow> selects w rec g b u"
  by (simp add: selects_def hit_def miss_def)

interpretation cold_log: write_log apply_step "\<lambda>w. cold C w pass key m" "\<lambda>w. tidies m" for C pass key m
proof unfold_locales
  fix w s
  assume a: "tidies m s" "cold C w pass key m"
  then show "cold C (apply_step w s) pass key m"
  proof (cases s)
    case (DropManifest g)
    then show ?thesis using a selects_drop by (fastforce simp: cold_def)
  next
    case (DropBlob d)
    then show ?thesis using a by (auto simp: cold_def selects_blobs)
  qed simp_all
qed

lemma cold_prefix: "list_all (tidies m) ss \<Longrightarrow> cold C w pass key m \<Longrightarrow> cold C (run_steps w (take k ss)) pass key m"
  using cold_log.good_prefix by (simp add: run_steps_def)

text \<open>No newer manifest on disk carries the \<open>wmk\<close> of \<open>m\<close>, and every newer one parses.\<close>

definition newest :: "vault_world \<Rightarrow> nat \<Rightarrow> bytes \<Rightarrow> bool" where
  "newest w g wmk \<longleftrightarrow> (\<forall>g' b. g < g' \<longrightarrow> fmlookup (vw_manifests w) g' = Some b \<longrightarrow>
     (\<exists>u. parse_unverified b = Inr u \<and> sha256 (vm_wmk u) \<noteq> sha256 wmk))"

lemma cold_intro:
  assumes "vw_recovery w = Some rec" "fmlookup (vw_manifests w) (nat (vm_generation m)) = Some b"
    "manifest_decode C b (master_new key) = Inr u" "manifest_ok u" "manifest_eq u m"
    "recovery_blob_matches_wmk rec (vm_wmk m) = Inr True"
    "open_passphrase C rec pass (vm_wmk m) = Inr (master_new key)" "newest w (nat (vm_generation m)) (vm_wmk m)"
    "\<forall>d \<in> digests m. \<exists>b. fmlookup (vw_blobs w) d = Some b \<and> sha256_hex b = d"
  shows "cold C w pass key m"
proof -
  have e: "vm_wmk u = vm_wmk m" using assms(5) by (simp add: manifest_eq_def)
  have "miss w rec g'" if "nat (vm_generation m) < g'" for g'
  proof (cases "fmlookup (vw_manifests w) g'")
    case (Some c)
    then obtain v where "parse_unverified c = Inr v" "sha256 (vm_wmk v) \<noteq> sha256 (vm_wmk m)"
      using assms(8) \<open>nat (vm_generation m) < g'\<close> by (auto simp: newest_def)
    then show ?thesis using Some matches_iff [OF assms(6)] by (simp add: miss_def)
  qed (simp add: miss_def)
  then have "selects w rec (nat (vm_generation m)) b u"
    using assms(2,6) e parse_unverified_of_decode [OF assms(3)] by (simp add: selects_def hit_def)
  then show ?thesis using assms(1,3,4,5,7,9) e unfolding cold_def by metis
qed

section \<open>Creating a vault\<close>

definition empty_manifest :: "py_str \<Rightarrow> bytes \<Rightarrow> vault_manifest" where
  "empty_manifest kid wmk = \<lparr>vm_key_id = kid, vm_wmk = wmk, vm_files = [], vm_generation = 0\<rparr>"

lemma empty_manifest_simps [simp]:
  "vm_key_id (empty_manifest kid wmk) = kid" "vm_wmk (empty_manifest kid wmk) = wmk"
  "vm_files (empty_manifest kid wmk) = []" "vm_generation (empty_manifest kid wmk) = 0"
  "digests (empty_manifest kid wmk) = {}"
  by (simp_all add: empty_manifest_def digests_def)

text \<open>Nothing of a vault is left at the root and the store holds no anchor for the label.\<close>

definition unused :: "vault_world \<Rightarrow> py_str \<Rightarrow> bool" where
  "unused w label \<longleftrightarrow> vw_anchors w label = None \<and> \<not> initialization_artifacts_present w"

definition host_ready :: "host \<Rightarrow> bool" where
  "host_ready ho \<longleftrightarrow> ho_platform ho = Inr () \<and> ho_publication ho = Inr () \<and> ho_dirs ho = Inr () \<and>
     ho_path ho = Inr () \<and> ho_init_guard ho = Inr () \<and> ho_source_guard ho = Inr ()"

lemma host_ready_opens: "host_ready ho \<Longrightarrow> host_opens ho"
  by (simp add: host_ready_def host_opens_def)

lemma wrap_dek_nonempty: "wrap_dek C N d eph key kid nkid = Inr wmk \<Longrightarrow> wmk \<noteq> []"
  by (auto simp: wrap_dek_def build_hkdf_info_def MRKW_MAGIC_def bytes_lit_def Let_def result_iffs split: if_splits)

lemma no_artifacts: "\<not> artifacts_present w \<Longrightarrow> fmlookup (vw_manifests w) g = None"
  using set_all_generations [of w] fmdom'I [of "vw_manifests w" g] by (cases "fmlookup (vw_manifests w) g") (auto simp: artifacts_present_def)

lemma zero_prints: "length (dec 0) \<le> max_str_digits"
  by (subst dec.simps) (simp add: max_str_digits_def)

text \<open>The three writes of a successful initialization and the vault they leave.\<close>

lemma init_writes:
  assumes "crypto_ok C K" "list_all is_scalar pass" "pass \<noteq> []" "list_all is_scalar kid" "kid \<noteq> []"
    "draws_ok K r" "length key = 32" "b \<in> K" "holds_key C N d kid b" "host_ready ho" "unused w label"
  obtains rec mb store wmk h where
    "init_vault C N d ho r key w kid pass label = (Inr h, [PutRecovery rec, PutManifest 0 mb, FlipAnchor store])"
    "h = new_handle kid (master_new key) (empty_manifest kid wmk) True label wmk"
    "live C (run_steps w [PutRecovery rec, PutManifest 0 mb, FlipAnchor store]) key h"
    "cold C (run_steps w [PutRecovery rec, PutManifest 0 mb, FlipAnchor store]) pass key (empty_manifest kid wmk)"
    "unwraps C N d kid wmk key"
proof -
  obtain wmk rec where s: "wrap_dek C N d (dr_ephemeral r) key kid None = Inr wmk"
    "export_backup_blob C (dr_salt r) (dr_nonce r) key pass (recovery_digest wmk) = Inr rec"
    "seals C N d kid pass key \<lparr>sm_wmk = wmk, sm_recovery = rec\<rparr>"
    by (rule seals_intro [OF assms(1,2,4,6,7,8,9)])
  let ?m = "empty_manifest kid wmk"
  have ok: "manifest_ok ?m" using assms(4,5) by (simp add: manifest_ok_def zero_prints)
  have norm: "manifest_norm ?m = ?m" by (rule manifest_norm_sorted) simp
  obtain mb where mb: "manifest_encode C ?m (master_new key) = Inr mb"
    "manifest_decode C mb (master_new key) = Inr ?m"
    using manifest_decode_encode [OF ok, of "master_new key" C] norm by (auto simp: master_new_def)
  have "pinnable wmk 0" using wrap_dek_nonempty [OF s(1)] by (simp add: pinnable_def zero_prints)
  then obtain store where store: "write_anchor (vw_anchors w) label wmk 0 = Inr store"
    "read_anchor store label = Inr (pin_of ?m)"
    using write_read_anchor [of wmk 0 "vw_anchors w" label] by (auto simp: pin_of_def)
  let ?ss = "[PutRecovery rec, PutManifest 0 mb, FlipAnchor store]"
  let ?h = "new_handle kid (master_new key) ?m True label wmk"
  have com: "committed C (run_steps w ?ss) label key ?m"
    using store(2) mb(2) by (simp add: committed_def on_disk_def)
  have "authenticate_current C (run_steps w ?ss) ?h (Some (pin_of ?m)) = Inr ()"
    using com by (intro authenticate_live) (simp_all add: new_handle_def)
  then have reg: "register_checked_open C ho (run_steps w ?ss) ?h (pin_of ?m) = Inr ?h"
    using assms(10) by (simp add: register_checked_open_def host_ready_def)
  have "newest (run_steps w ?ss) (nat (vm_generation ?m)) (vm_wmk ?m)"
    using assms(11) no_artifacts [of w]
    by (simp add: newest_def unused_def initialization_artifacts_present_def)
  then have cold: "cold C (run_steps w ?ss) pass key ?m"
    using s(3) mb(2) ok by (intro cold_intro [where b = mb and u = ?m and rec = rec]) (simp_all add: seals_def)
  have live: "live C (run_steps w ?ss) key ?h"
    using com ok assms(7) wrap_dek_nonempty [OF s(1)] by (simp add: live_def new_handle_def)
  have "unwraps C N d kid wmk key" using s(3) by (simp add: seals_def unwraps_def)
  moreover have "init_vault C N d ho r key w kid pass label = (Inr ?h, ?ss)"
    using assms(3,10,11) s(1,2) mb(1) store(1) reg
    by (simp add: init_vault_def host_ready_def unused_def vault_seal_def Let_def empty_manifest_def pin_of_def)
  ultimately show ?thesis using that live cold by blast
qed

lemma init_refuses:
  assumes "vw_anchors w label \<noteq> None \<or> initialization_artifacts_present w"
  obtains e where "init_vault C N d ho r key w kid pass label = (Inl e, [])"
    "host_ready ho \<Longrightarrow> e = (if vw_anchors w label = None then DatabaseRefused else VaultError)"
proof -
  let ?R = "r_bind (ho_platform ho) (\<lambda>_. r_bind (ho_publication ho) (\<lambda>_. r_bind (ho_init_guard ho) (\<lambda>_.
      if initialization_artifacts_present w \<and> vw_anchors w label = None then Inl DatabaseRefused
      else r_bind (ho_dirs ho) (\<lambda>_. r_bind (ho_path ho) (\<lambda>_.
        if vw_anchors w label \<noteq> None then Inl VaultError
        else if initialization_artifacts_present w then Inl DatabaseRefused else ho_init_guard ho)))))"
  obtain e where "?R = Inl e"
    using assms by (cases ?R) (auto simp: result_iffs split: if_splits)
  moreover from this have "host_ready ho \<Longrightarrow> e = (if vw_anchors w label = None then DatabaseRefused else VaultError)"
    using assms by (auto simp: host_ready_def split: if_splits)
  ultimately show ?thesis using that by (simp add: init_vault_def)
qed

definition opens_empty :: "open_vault result \<Rightarrow> bool" where
  "opens_empty o1 \<longleftrightarrow> r_bind o1 list_files = Inr [] \<and> r_bind o1 vault_generation = Inr 0"

lemma opens_empty_intro:
  assumes "manifest_eq (ov_manifest h) (empty_manifest kid wmk)" "\<not> ov_closed h"
  shows "opens_empty (Inr h)"
  using assms by (auto simp: opens_empty_def list_files_def vault_generation_def vault_check_def manifest_eq_def)

text \<open>C32: Creating a vault never destroys one. Where the anchor exists or anything of a vault is left on
  disk, initialization is refused before its first write, whatever the host answers. At an unused
  root it makes exactly three writes and returns an empty open vault of generation 0. Interrupted
  before the anchor write, a second attempt is refused with \<open>DatabaseRefused\<close>; after the anchor
  write the empty vault opens on the device and by passphrase, and a second attempt is refused with
  \<open>VaultError\<close>.\<close>

theorem init_vault_safe:
  assumes "crypto_ok C K" "list_all is_scalar pass" "pass \<noteq> []" "list_all is_scalar kid" "kid \<noteq> []"
    "draws_ok K r" "length key = 32" "b \<in> K" "holds_key C N d kid b" "host_ready ho" "unused w label"
  shows "(\<forall>w0 ho0. vw_anchors w0 label \<noteq> None \<or> initialization_artifacts_present w0 \<longrightarrow>
      (\<exists>e. init_vault C N d ho0 r key w0 kid pass label = (Inl e, []))) \<and>
    (\<exists>h steps. init_vault C N d ho r key w kid pass label = (Inr h, steps) \<and> length steps = 3 \<and> opens_empty (Inr h) \<and>
      (\<forall>k \<in> {1, 2}. \<forall>r' key' pass'.
         init_vault C N d ho r' key' (crash w steps k) kid pass' label = (Inl DatabaseRefused, [])) \<and>
      (\<forall>k. 3 \<le> k \<longrightarrow> opens_empty (fst (open_vault C N d ho (crash w steps k) kid label)) \<and>
         opens_empty (recover_vault C ho (crash w steps k) pass) \<and>
         (\<forall>r' key' pass'. init_vault C N d ho r' key' (crash w steps k) kid pass' label = (Inl VaultError, []))))"
proof -
  obtain rec mb store wmk h where i:
    "init_vault C N d ho r key w kid pass label = (Inr h, [PutRecovery rec, PutManifest 0 mb, FlipAnchor store])"
    "h = new_handle kid (master_new key) (empty_manifest kid wmk) True label wmk"
    "live C (run_steps w [PutRecovery rec, PutManifest 0 mb, FlipAnchor store]) key h"
    "cold C (run_steps w [PutRecovery rec, PutManifest 0 mb, FlipAnchor store]) pass key (empty_manifest kid wmk)"
    "unwraps C N d kid wmk key"
    by (rule init_writes [OF assms])
  let ?ss = "[PutRecovery rec, PutManifest 0 mb, FlipAnchor store]" and ?m = "empty_manifest kid wmk"
  let ?w = "run_steps w ?ss"
  have no: "vw_anchors w label = None" using assms(11) by (simp add: unused_def)
  have e: "opens_empty (Inr h)" using i(2) by (intro opens_empty_intro [of _ kid wmk]) (simp_all add: new_handle_def)
  have mid: "init_vault C N d ho r' key' (crash w ?ss k) kid pass' label = (Inl DatabaseRefused, [])"
    if "k \<in> {1, 2}" for k r' key' pass'
  proof -
    have "vw_anchors (crash w ?ss k) label = None" "initialization_artifacts_present (crash w ?ss k)"
      using that no by (auto simp: crash_def initialization_artifacts_present_def)
    then show ?thesis using assms(10) by (metis (full_types) init_refuses)
  qed
  have com: "committed C ?w label key ?m" using i(2,3) by (simp add: live_def new_handle_def)
  have u: "unwraps C N d (vm_key_id ?m) (vm_wmk ?m) key" using i(5) by simp
  obtain h2 d2 where "open_vault C N d ho ?w kid label = (Inr h2, d2)" "manifest_eq (ov_manifest h2) ?m" "\<not> ov_closed h2"
    by (rule open_committed [OF com u host_ready_opens [OF assms(10)] assms(7)]) simp
  then have o: "opens_empty (fst (open_vault C N d ho ?w kid label))" by (simp add: opens_empty_intro)
  obtain h3 where "recover_vault C ho ?w pass = Inr h3" "manifest_eq (ov_manifest h3) ?m" "\<not> ov_closed h3"
    by (rule recover_cold [OF i(4), of ho]) (use assms(10) in \<open>simp add: host_ready_def\<close>)
  then have rec: "opens_empty (recover_vault C ho ?w pass)" by (simp add: opens_empty_intro)
  have anchored: "vw_anchors ?w label \<noteq> None"
    using com by (auto simp: committed_def read_anchor_def split: option.splits)
  then have late: "init_vault C N d ho r' key' ?w kid pass' label = (Inl VaultError, [])" for r' key' pass'
    using assms(10) by (metis (full_types) init_refuses)
  have "crash w ?ss k = ?w" if "3 \<le> k" for k using that by (simp add: crash_def)
  then have late': "\<forall>k. 3 \<le> k \<longrightarrow> opens_empty (fst (open_vault C N d ho (crash w ?ss k) kid label)) \<and>
       opens_empty (recover_vault C ho (crash w ?ss k) pass) \<and>
       (\<forall>r' key' pass'. init_vault C N d ho r' key' (crash w ?ss k) kid pass' label = (Inl VaultError, []))"
    using o rec late by simp
  have refuse: "\<exists>e. init_vault C N d ho0 r key w0 kid pass label = (Inl e, [])"
    if "vw_anchors w0 label \<noteq> None \<or> initialization_artifacts_present w0" for w0 ho0
    by (rule init_refuses [OF that, of C N d ho0 r key kid pass]) blast
  have len: "length ?ss = 3" by simp
  show ?thesis using i(1) e mid late' refuse len by blast
qed

section \<open>A concrete vault\<close>

definition demo_host :: host where
  "demo_host = \<lparr>ho_platform = Inr (), ho_publication = Inr (), ho_dirs = Inr (), ho_path = Inr (),
     ho_init_guard = Inr (), ho_source_guard = Inr (), ho_dotenv = (\<lambda>_. (False, \<lambda>_. None))\<rparr>"

definition demo_world :: vault_world where
  "demo_world = \<lparr>vw_manifests = fmempty, vw_blobs = fmempty, vw_recovery = None, vw_anchors = (\<lambda>_. None)\<rparr>"

definition demo_key :: bytes where
  "demo_key = replicate 32 5"

lemma demo_host_ready: "host_ready demo_host"
  by (simp add: host_ready_def demo_host_def)

lemma demo_unused: "unused demo_world label"
  by (simp add: unused_def demo_world_def initialization_artifacts_present_def artifacts_present_def
      all_manifest_generations_def sorted_list_of_fset_def)

lemma length_demo_key [simp]: "length demo_key = 32"
  by (simp add: demo_key_def)

lemma demo_texts: "list_all is_scalar [112]" "[112] \<noteq> []" "list_all is_scalar [107]" "[107] \<noteq> []"
  by (simp_all add: is_scalar_def is_surrogate_def)

lemma init_vault_safe_witness:
  "\<exists>h steps. init_vault demo_crypto (demo_native [7]) () demo_host demo_draws demo_key demo_world [107] [112] [] =
     (Inr h, steps) \<and> length steps = 3 \<and> opens_empty (Inr h)"
  using init_vault_safe [OF demo_crypto_ok [of UNIV] demo_texts(1,2,3,4) demo_draws_ok length_demo_key UNIV_I
      demo_native_holds [of "[7]"] demo_host_ready demo_unused [of "[]"]] by blast

text \<open>A live, recoverable, empty vault exists.\<close>

lemma demo_vault:
  obtains w h where "live demo_crypto w demo_key h" "vm_files (ov_manifest h) = []" "vm_generation (ov_manifest h) = 0"
    "vw_blobs w = fmempty" "vm_key_id (ov_manifest h) = [107]" "ov_key_id h = [107]"
    "unwraps demo_crypto (demo_native [7]) () [107] (ov_wmk h) demo_key"
    "cold demo_crypto w [112] demo_key (ov_manifest h)" "\<And>g. 0 < g \<Longrightarrow> fmlookup (vw_manifests w) g = None"
    "vw_recovery w \<noteq> None"
proof (rule init_writes [OF demo_crypto_ok [of UNIV] demo_texts(1,2,3,4) demo_draws_ok length_demo_key UNIV_I
      demo_native_holds [of "[7]"] demo_host_ready demo_unused [of "[]"]])
  fix rec mb store wmk h
  let ?w = "run_steps demo_world [PutRecovery rec, PutManifest 0 mb, FlipAnchor store]"
  assume i: "h = new_handle [107] (master_new demo_key) (empty_manifest [107] wmk) True [] wmk"
    "live demo_crypto ?w demo_key h" "cold demo_crypto ?w [112] demo_key (empty_manifest [107] wmk)"
    "unwraps demo_crypto (demo_native [7]) () [107] wmk demo_key"
  show ?thesis
    by (rule that [OF i(2)]) (use i in \<open>simp_all add: new_handle_def demo_world_def\<close>)
qed

end
