(* ===== verification/Vault_Safety.thy ===== *)
theory Vault_Safety
  imports Vault_Recovery
begin

text \<open>
  The properties of the vault: crash safety of enrolling and removing files, what a read, an
  open and a stale writer may rely on, initialization and passphrase rotation.
\<close>

section \<open>The next manifest of an enrollment and of a removal\<close>

definition enrolled :: "open_vault \<Rightarrow> py_str \<Rightarrow> py_str \<Rightarrow> vault_manifest" where
  "enrolled h name digest = \<lparr>vm_key_id = ov_key_id h, vm_wmk = ov_wmk h,
     vm_files = dict_put name digest (vm_files (ov_manifest h)),
     vm_generation = vm_generation (ov_manifest h) + 1\<rparr>"

definition removed :: "open_vault \<Rightarrow> py_str \<Rightarrow> vault_manifest" where
  "removed h name = \<lparr>vm_key_id = ov_key_id h, vm_wmk = ov_wmk h,
     vm_files = filter (\<lambda>(k, _). k \<noteq> name) (vm_files (ov_manifest h)),
     vm_generation = vm_generation (ov_manifest h) + 1\<rparr>"

lemma set_dict_put: "x \<in> set (dict_put k v d) \<Longrightarrow> x = (k, v) \<or> x \<in> set d"
  by (induction d) (auto split: if_splits)

lemma keys_dict_put: "set (map fst (dict_put k v d)) = insert k (set (map fst d))"
  by (simp add: map_of_dict_put flip: dom_map_of_conv_image_fst)

lemma distinct_dict_put: "distinct (map fst d) \<Longrightarrow> distinct (map fst (dict_put k v d))"
proof (induction d)
  case (Cons kv d)
  then show ?case using keys_dict_put [of k v d] by (cases kv) auto
qed simp

lemma map_of_filter_key: "map_of (filter (\<lambda>(k, _). k \<noteq> name) d) = (map_of d)(name := None)"
  by (induction d) (auto simp: fun_eq_iff)

lemma digests_enrolled: "digests (enrolled h name d) \<subseteq> insert d (digests (ov_manifest h))"
  by (auto simp: digests_def enrolled_def map_of_dict_put ran_def)

lemma digests_removed: "digests (removed h name) \<subseteq> digests (ov_manifest h)"
  by (auto simp: digests_def removed_def map_of_filter_key ran_def split: if_splits)

lemma sha256_hex_is_hex: "is_sha256_hex (sha256_hex b)"
  by (simp add: is_sha256_hex_def sha256_hex_def hex_of_bytes_lower)

text \<open>The generation counter stays within the digit limit of the interpreter.\<close>

definition counts :: "open_vault \<Rightarrow> bool" where
  "counts h \<longleftrightarrow> length (dec (nat (vm_generation (ov_manifest h) + 1))) \<le> max_str_digits"

lemma next_enrolled:
  assumes "live C w key h" "counts h" "list_all is_scalar name"
  shows "next_of h (enrolled h name (sha256_hex b))"
proof -
  have ok: "manifest_ok (ov_manifest h)" "vm_key_id (ov_manifest h) = ov_key_id h"
    using assms(1) by (simp_all add: live_def)
  have "list_all is_scalar k \<and> is_sha256_hex v"
    if "(k, v) \<in> set (dict_put name (sha256_hex b) (vm_files (ov_manifest h)))" for k v
    using set_dict_put [OF that] ok(1) assms(3) sha256_hex_is_hex by (fastforce simp: manifest_ok_def)
  then have "manifest_ok (enrolled h name (sha256_hex b))"
    using ok assms(2) by (auto simp: manifest_ok_def enrolled_def counts_def distinct_dict_put)
  then show ?thesis by (simp add: next_of_def enrolled_def)
qed

lemma next_removed:
  assumes "live C w key h" "counts h"
  shows "next_of h (removed h name)"
proof -
  have ok: "manifest_ok (ov_manifest h)" "vm_key_id (ov_manifest h) = ov_key_id h"
    using assms(1) by (simp_all add: live_def)
  have "distinct (map fst (filter (\<lambda>(k, _). k \<noteq> name) (vm_files (ov_manifest h))))"
    using ok(1) distinct_map_filter by (auto simp: manifest_ok_def)
  then have "manifest_ok (removed h name)"
    using ok assms(2) by (auto simp: manifest_ok_def removed_def counts_def)
  then show ?thesis by (simp add: next_of_def removed_def)
qed

text \<open>The content address of the new blob is unused, or already holds this very blob.\<close>

definition fresh_blob :: "('x) crypto_scheme \<Rightarrow> bytes \<Rightarrow> vault_world \<Rightarrow> open_vault \<Rightarrow> py_str \<Rightarrow> bytes \<Rightarrow> bool" where
  "fresh_blob C nonce w h name p \<longleftrightarrow>
     (case container_encode C nonce (ov_master h) p (ov_key_id h) (ov_wmk h) name of
        Inl _ \<Rightarrow> True
      | Inr blob \<Rightarrow> (case fmlookup (vw_blobs w) (sha256_hex blob) of None \<Rightarrow> True | Some b \<Rightarrow> b = blob))"

lemma container_encode_scalar:
  "container_encode C nonce m p kid wmk name = Inr b \<Longrightarrow> list_all is_scalar name"
  by (auto simp: container_encode_def container_aad_def utf8_encode_def result_iffs split: if_splits)

text \<open>An enrollment is a commit of the enrolled manifest with one blob, or changes nothing.\<close>

lemma enroll_cases:
  assumes "enroll_file C ho nonce w h name p = (r, h', steps)"
  obtains (refused) e where "r = Inl e" "h' = h" "steps = []"
  | (commit) blob where "container_encode C nonce (ov_master h) p (ov_key_id h) (ov_wmk h) name = Inr blob"
      "commit_new_manifest C ho w h (enrolled h name (sha256_hex blob)) [(sha256_hex blob, blob)] = (r, h', steps)"
proof (cases "r_bind (ho_platform ho) (\<lambda>_. r_bind (vault_check h) (\<lambda>_.
             if \<not> ov_store h then Inl VaultError
             else container_encode C nonce (ov_master h) p (ov_key_id h) (ov_wmk h) name))")
  case (Inl e)
  then have "r = Inl e" "h' = h" "steps = []" using assms by (auto simp: enroll_file_def)
  then show ?thesis by (rule refused)
next
  case (Inr blob)
  then have "container_encode C nonce (ov_master h) p (ov_key_id h) (ov_wmk h) name = Inr blob"
    by (auto simp: result_iffs split: if_splits)
  with Inr show ?thesis
    using assms commit by (simp add: enroll_file_def Let_def enrolled_def)
qed

text \<open>What a reopened or live handle reads on a committed world that agrees with \<open>w0\<close>.\<close>

definition reads_as :: "('x) crypto_scheme \<Rightarrow> vault_world \<Rightarrow> open_vault \<Rightarrow> vault_world \<Rightarrow> open_vault \<Rightarrow> bool" where
  "reads_as C w2 h2 w h \<longleftrightarrow> vm_generation (ov_manifest h2) = vm_generation (ov_manifest h) \<and>
     (\<forall>n. read_file C w2 h2 n = read_file C w h n)"

definition reads_enrolled :: "('x) crypto_scheme \<Rightarrow> vault_world \<Rightarrow> open_vault \<Rightarrow> vault_world \<Rightarrow> open_vault \<Rightarrow> py_str \<Rightarrow>
    bytes \<Rightarrow> bool" where
  "reads_enrolled C w2 h2 w h name p \<longleftrightarrow>
     vm_generation (ov_manifest h2) = vm_generation (ov_manifest h) + 1 \<and> read_file C w2 h2 name = Inr p \<and>
     (\<forall>n. n \<noteq> name \<longrightarrow> read_file C w2 h2 n = read_file C w h n)"

definition reads_removed :: "('x) crypto_scheme \<Rightarrow> vault_world \<Rightarrow> open_vault \<Rightarrow> vault_world \<Rightarrow> open_vault \<Rightarrow> py_str \<Rightarrow> bool" where
  "reads_removed C w2 h2 w h name \<longleftrightarrow>
     vm_generation (ov_manifest h2) = vm_generation (ov_manifest h) + 1 \<and> read_file C w2 h2 name = Inl VaultError \<and>
     (\<forall>n. n \<noteq> name \<longrightarrow> read_file C w2 h2 n = read_file C w h n)"

lemma reads_as_intro:
  assumes "manifest_eq (ov_manifest h2) (ov_manifest h)" "agree w w2 (ov_manifest h)"
    "ov_master h2 = ov_master h" "ov_closed h2 = ov_closed h"
  shows "reads_as C w2 h2 w h"
proof -
  have "vm_generation (ov_manifest h2) = vm_generation (ov_manifest h)"
    using assms(1) by (simp add: manifest_eq_def)
  then show ?thesis
    using read_file_cong [OF manifest_eq_sym [OF assms(1)] assms(2), where C = C] assms(3,4)
    by (simp add: reads_as_def)
qed

lemma reads_enrolled_intro:
  assumes "manifest_eq (ov_manifest h2) (enrolled h name (sha256_hex b))"
    "agree (run_steps w (put_blobs [(sha256_hex b, b)])) w2 (enrolled h name (sha256_hex b))"
    "ov_master h2 = ov_master h" "\<not> ov_closed h2" "\<not> ov_closed h"
    "container_decode C b (ov_master h) name = Inr p"
    "\<forall>b'. fmlookup (vw_blobs w) (sha256_hex b) = Some b' \<longrightarrow> b' = b"
    "\<forall>d \<in> digests (ov_manifest h). fmlookup (vw_blobs w) d \<noteq> None"
  shows "reads_enrolled C w2 h2 w h name p"
proof -
  have files: "map_of (vm_files (ov_manifest h2)) = (map_of (vm_files (ov_manifest h)))(name \<mapsto> sha256_hex b)"
    and gen: "vm_generation (ov_manifest h2) = vm_generation (ov_manifest h) + 1"
    using assms(1) by (simp_all add: manifest_eq_def enrolled_def map_of_dict_put)
  have "sha256_hex b \<in> digests (enrolled h name (sha256_hex b))"
    by (auto simp: digests_def enrolled_def map_of_dict_put ran_def)
  then have blob: "fmlookup (vw_blobs w2) (sha256_hex b) = Some b"
    using assms(2) by (simp add: agree_def put_blobs_def)
  then have "read_file C w2 h2 name = Inr p"
    using assms(3-6) by (simp add: read_file_def vault_check_def files)
  moreover have "read_file C w2 h2 n = read_file C w h n" if n: "n \<noteq> name" for n
  proof (cases "map_of (vm_files (ov_manifest h)) n")
    case None
    then show ?thesis using assms(4,5) n by (simp add: read_file_def vault_check_def files)
  next
    case (Some d)
    have "d \<in> digests (enrolled h name (sha256_hex b))"
      using Some n by (auto simp: digests_def enrolled_def map_of_dict_put ran_def)
    then have "fmlookup (vw_blobs w2) d = (if d = sha256_hex b then Some b else fmlookup (vw_blobs w) d)"
      using assms(2) by (simp add: agree_def put_blobs_def)
    moreover have "d \<in> digests (ov_manifest h)" using Some by (auto simp: digests_def ran_def)
    ultimately have "fmlookup (vw_blobs w2) d = fmlookup (vw_blobs w) d"
      using assms(7,8) by fastforce
    then show ?thesis
      using Some assms(3-5) n by (simp add: read_file_def vault_check_def files split: option.split)
  qed
  ultimately show ?thesis using gen by (simp add: reads_enrolled_def)
qed

lemma reads_removed_intro:
  assumes "manifest_eq (ov_manifest h2) (removed h name)" "agree w w2 (removed h name)"
    "ov_master h2 = ov_master h" "\<not> ov_closed h2" "\<not> ov_closed h"
  shows "reads_removed C w2 h2 w h name"
proof -
  have files: "map_of (vm_files (ov_manifest h2)) = (map_of (vm_files (ov_manifest h)))(name := None)"
    and gen: "vm_generation (ov_manifest h2) = vm_generation (ov_manifest h) + 1"
    using assms(1) by (simp_all add: manifest_eq_def removed_def map_of_filter_key)
  have "read_file C w2 h2 n = read_file C w h n" if n: "n \<noteq> name" for n
  proof (cases "map_of (vm_files (ov_manifest h)) n")
    case (Some d)
    then have "d \<in> digests (removed h name)"
      using n by (auto simp: digests_def removed_def map_of_filter_key ran_def)
    then have "fmlookup (vw_blobs w2) d = fmlookup (vw_blobs w) d" using assms(2) by (simp add: agree_def)
    then show ?thesis
      using Some assms(3-5) n by (simp add: read_file_def vault_check_def files split: option.split)
  qed (use assms(4,5) n in \<open>simp add: read_file_def vault_check_def files\<close>)
  moreover have "read_file C w2 h2 name = Inl VaultError"
    using assms(4) by (simp add: read_file_def vault_check_def files)
  ultimately show ?thesis using gen by (simp add: reads_removed_def)
qed

definition sealable_file :: "('x) crypto_scheme \<Rightarrow> bytes \<Rightarrow> py_str \<Rightarrow> bytes \<Rightarrow> bool" where
  "sealable_file C nonce name p \<longleftrightarrow> gcm_ok C \<and> length nonce = 12 \<and> length p + 16 \<le> gcm_limit \<and>
     4 * length name + 64 \<le> gcm_limit"

lemma enroll_decodes:
  assumes "live C w key h" "sealable_file C nonce name p"
    "container_encode C nonce (ov_master h) p (ov_key_id h) (ov_wmk h) name = Inr b"
  shows "container_decode C b (ov_master h) name = Inr p"
proof -
  have "container_ok C nonce (ov_master h) (ov_key_id h) name p"
    using assms container_encode_scalar [OF assms(3)]
    by (auto simp: container_ok_def live_def master_new_def sealable_file_def manifest_ok_def container_encode_def
        split: if_splits)
  then show ?thesis using assms(3) by (rule mvlt.dec_of_enc)
qed

text \<open>Reopening after a crash, on either side of the flip.\<close>

lemma reopen:
  assumes "live C w key h" "unwraps C N d (ov_key_id h) (ov_wmk h) key" "host_opens ho"
    "committed C w2 (ov_label h) key m" "vm_key_id m = ov_key_id h" "vm_wmk m = ov_wmk h"
  obtains h2 d2 where "open_vault C N d ho w2 (ov_key_id h) (ov_label h) = (Inr h2, d2)"
    "manifest_eq (ov_manifest h2) m" "ov_master h2 = ov_master h" "\<not> ov_closed h2"
proof -
  have k: "length key = 32" "ov_master h = master_new key" using assms(1) by (simp_all add: live_def)
  have u: "unwraps C N d (vm_key_id m) (vm_wmk m) key" using assms(2,5,6) by simp
  show ?thesis
    by (rule open_committed [OF assms(4) u assms(3) k(1)]) (use that k assms(5) in auto)
qed

lemma enroll_supplied:
  assumes "live C w key h" "fresh_blob C nonce w h name p"
    "container_encode C nonce (ov_master h) p (ov_key_id h) (ov_wmk h) name = Inr b"
  shows "supplied_ok w (ov_manifest h) (enrolled h name (sha256_hex b)) [(sha256_hex b, b)]"
    "\<forall>b'. fmlookup (vw_blobs w) (sha256_hex b) = Some b' \<longrightarrow> b' = b"
  using assms(2,3) digests_enrolled [of h name "sha256_hex b"]
  by (auto simp: supplied_ok_def fresh_blob_def split: option.splits)

lemma live_digests: "live C w key h \<Longrightarrow> \<forall>d \<in> digests (ov_manifest h). fmlookup (vw_blobs w) d \<noteq> None"
  by (auto simp: live_def committed_def on_disk_def)


text \<open>C29: Crash safety of removing a file, and idempotence. A name that is not enrolled is a no-op that
  writes nothing. Otherwise, after any prefix of the writes the vault opens again with every file as
  before, or (only if the removal was going to succeed, and certainly after all writes) with the file
  gone, every other file as before and the next generation. A failed removal changes nothing.\<close>

theorem unenroll_crash_safe:
  assumes "live C w key h" "counts h" "unwraps C N d (ov_key_id h) (ov_wmk h) key" "host_opens ho'"
    "unenroll_file C ho w h name = (r, h', steps)"
  shows "(name \<notin> fst ` set (vm_files (ov_manifest h)) \<longrightarrow> ho_platform ho = Inr () \<longrightarrow> r = Inr ()) \<and>
    (name \<notin> fst ` set (vm_files (ov_manifest h)) \<or> r \<noteq> Inr () \<longrightarrow> h' = h \<and> steps = []) \<and>
    (\<exists>h2 d2. open_vault C N d ho' (crash w steps k) (ov_key_id h) (ov_label h) = (Inr h2, d2) \<and>
      (reads_as C (crash w steps k) h2 w h \<or> r = Inr () \<and> reads_removed C (crash w steps k) h2 w h name) \<and>
      (name \<in> fst ` set (vm_files (ov_manifest h)) \<longrightarrow> r = Inr () \<longrightarrow> length steps \<le> k \<longrightarrow>
         reads_removed C (crash w steps k) h2 w h name))"
proof -
  let ?m = "removed h name"
  have live: "\<not> ov_closed h" "vm_key_id (ov_manifest h) = ov_key_id h" "vm_wmk (ov_manifest h) = ov_wmk h"
    "vm_key_id ?m = ov_key_id h" "vm_wmk ?m = ov_wmk h" "ov_store h"
    "committed C w (ov_label h) key (ov_manifest h)"
    using assms(1) by (simp_all add: live_def removed_def)
  have old: "\<exists>h2 d2. open_vault C N d ho' w2 (ov_key_id h) (ov_label h) = (Inr h2, d2) \<and> reads_as C w2 h2 w h"
    if c: "committed C w2 (ov_label h) key (ov_manifest h)" and a: "agree w w2 (ov_manifest h)" for w2
  proof -
    obtain h2 d2 where "open_vault C N d ho' w2 (ov_key_id h) (ov_label h) = (Inr h2, d2)"
      "manifest_eq (ov_manifest h2) (ov_manifest h)" "ov_master h2 = ov_master h" "\<not> ov_closed h2"
      by (rule reopen [OF assms(1,3,4) c live(2,3)])
    with reads_as_intro [OF _ a] live(1) show ?thesis by blast
  qed
  show ?thesis
  proof (cases "ho_platform ho \<noteq> Inr () \<or> name \<notin> fst ` set (vm_files (ov_manifest h))")
    case True
    then have "steps = [] \<and> h' = h \<and> (r = Inr () \<longrightarrow> name \<notin> fst ` set (vm_files (ov_manifest h))) \<and>
        (ho_platform ho = Inr () \<longrightarrow> r = Inr ())"
      using assms(5) live(1)
      by (cases "ho_platform ho") (auto simp: unenroll_file_def vault_check_def)
    then show ?thesis using old [OF live(7) agree_refl] by (auto simp: crash_def)
  next
    case False
    then have c: "commit_new_manifest C ho w h ?m [] = (r, h', steps)"
      using assms(5) live(1,6) by (simp add: unenroll_file_def vault_check_def removed_def)
    have sup: "supplied_ok w (ov_manifest h) ?m []" using digests_removed by (auto simp: supplied_ok_def)
    note pre = commit_prefix [OF assms(1) next_removed [OF assms(1,2)] sup c]
    have new: "\<exists>h2 d2. open_vault C N d ho' w2 (ov_key_id h) (ov_label h) = (Inr h2, d2) \<and>
        reads_removed C w2 h2 w h name"
      if c: "committed C w2 (ov_label h) key ?m" and a: "agree (run_steps w (put_blobs [])) w2 ?m" for w2
    proof -
      obtain h2 d2 where "open_vault C N d ho' w2 (ov_key_id h) (ov_label h) = (Inr h2, d2)"
        "manifest_eq (ov_manifest h2) ?m" "ov_master h2 = ov_master h" "\<not> ov_closed h2"
        by (rule reopen [OF assms(1,3,4) c live(4,5)])
      with reads_removed_intro [of h2 h name w w2 C] a live(1) show ?thesis by (auto simp: put_blobs_def)
    qed
    show ?thesis
    proof (cases "r = Inr () \<and> length steps \<le> k")
      case True
      then have "crash w steps k = run_steps w steps" by (simp add: crash_def)
      with new [of "crash w steps k"] pre(2) True
      have "\<exists>h2 d2. open_vault C N d ho' (crash w steps k) (ov_key_id h) (ov_label h) = (Inr h2, d2) \<and>
          reads_removed C (crash w steps k) h2 w h name" by simp
      then show ?thesis using True False by blast
    next
      case False2: False
      then show ?thesis
        using pre(1) [of k] pre(3) old [of "crash w steps k"] new [of "crash w steps k"] False by blast
    qed
  qed
qed

section \<open>An enrollment succeeds\<close>

lemma env_unchanged:
  assumes "env_name \<notin> fst ` set (vm_files (ov_manifest h))" "map_of (vm_files m') env_name = None"
  shows "env_source_guard C ho w h m' blobs = Inr ()"
proof -
  have "map_of (vm_files (ov_manifest h)) env_name = None" using assms(1) by (simp add: map_of_eq_None_iff)
  then show ?thesis using assms(2) by (simp add: env_source_guard_def new_env_of_def effective_memory_key_def)
qed

lemma checks_live:
  assumes "live C w key h" "host_ready ho" "env_name \<notin> fst ` set (vm_files (ov_manifest h))"
    "map_of (vm_files m') env_name = None"
  shows "commit_checks C ho w h m' blobs = Inr ()"
proof -
  have "read_anchor (vw_anchors w) (ov_label h) = Inr (pin_of (ov_manifest h))" "vm_wmk (ov_manifest h) = ov_wmk h"
    using assms(1) by (simp_all add: live_def committed_def)
  moreover have "authenticate_current C w h (Some (pin_of (ov_manifest h))) = Inr ()"
    using assms(1) by (intro authenticate_live) (simp_all add: live_def)
  ultimately show ?thesis
    using assms(2) env_unchanged [OF assms(3,4)]
    by (simp add: commit_checks_def host_ready_def compare_digest_def pin_of_def)
qed

lemma live_after_commit:
  assumes "live C w key h" "next_of h m'" "committed C w' (ov_label h) key m'"
  shows "live C w' key (h\<lparr>ov_manifest := m'\<rparr>)"
  using assms by (simp add: live_def next_of_def)

lemma commit_succeeds:
  assumes "live C w key h" "next_of h m'" "supplied_ok w (ov_manifest h) m' blobs"
    "commit_checks C ho w h m' blobs = Inr ()"
  obtains steps where "commit_new_manifest C ho w h m' blobs = (Inr (), h\<lparr>ov_manifest := m'\<rparr>, steps)"
    "live C (run_steps w steps) key (h\<lparr>ov_manifest := m'\<rparr>)"
    "agree (run_steps w (put_blobs blobs)) (run_steps w steps) m'"
proof (rule commit_writes [OF assms])
  fix mb store
  assume c: "commit_new_manifest C ho w h m' blobs = (Inr (), h\<lparr>ov_manifest := m'\<rparr>,
       put_blobs blobs @ [PutManifest (nat (vm_generation m')) mb] @ FlipAnchor store #
         gc_steps (run_steps w (put_blobs blobs @ [PutManifest (nat (vm_generation m')) mb, FlipAnchor store]))
           m' (vm_generation m' - 1))" (is "_ = (_, _, ?steps)")
  from commit_prefix(2) [OF assms(1-3) c refl]
  have "committed C (run_steps w ?steps) (ov_label h) key m'"
    "agree (run_steps w (put_blobs blobs)) (run_steps w ?steps) m'" by blast+
  with that c live_after_commit [OF assms(1,2)] show ?thesis by blast
qed

lemma enroll_commits:
  assumes "live C w key h" "counts h" "fresh_blob C nonce w h name p" "sealable_file C nonce name p" "host_ready ho"
    "list_all is_scalar name" "name \<noteq> []" "name \<noteq> env_name" "env_name \<notin> fst ` set (vm_files (ov_manifest h))"
  obtains b steps where "container_encode C nonce (ov_master h) p (ov_key_id h) (ov_wmk h) name = Inr b"
    "enroll_file C ho nonce w h name p = (Inr (), h\<lparr>ov_manifest := enrolled h name (sha256_hex b)\<rparr>, steps)"
    "live C (run_steps w steps) key (h\<lparr>ov_manifest := enrolled h name (sha256_hex b)\<rparr>)"
    "agree (run_steps w (put_blobs [(sha256_hex b, b)])) (run_steps w steps) (enrolled h name (sha256_hex b))"
proof -
  have live: "ov_store h" "\<not> ov_closed h" "ov_master h = master_new key" "length key = 32"
    "vm_key_id (ov_manifest h) = ov_key_id h" "manifest_ok (ov_manifest h)"
    using assms(1) by (simp_all add: live_def)
  then have "container_ok C nonce (ov_master h) (ov_key_id h) name p"
    using assms(4,6,7) by (auto simp: container_ok_def sealable_file_def master_new_def manifest_ok_def)
  from mvlt.enc_total [OF this] obtain b where
    b: "container_encode C nonce (ov_master h) p (ov_key_id h) (ov_wmk h) name = Inr b" by blast
  let ?m = "enrolled h name (sha256_hex b)"
  have "map_of (vm_files ?m) env_name = None"
    using assms(8,9) by (simp add: enrolled_def map_of_dict_put map_of_eq_None_iff)
  from checks_live [OF assms(1,5,9) this]
  obtain steps where c: "commit_new_manifest C ho w h ?m [(sha256_hex b, b)] = (Inr (), h\<lparr>ov_manifest := ?m\<rparr>, steps)"
    "live C (run_steps w steps) key (h\<lparr>ov_manifest := ?m\<rparr>)"
    "agree (run_steps w (put_blobs [(sha256_hex b, b)])) (run_steps w steps) ?m"
    by (rule commit_succeeds [OF assms(1) next_enrolled [OF assms(1,2,6)] enroll_supplied(1) [OF assms(1,3) b]])
  have "enroll_file C ho nonce w h name p = (Inr (), h\<lparr>ov_manifest := ?m\<rparr>, steps)"
    using c(1) b live assms(5)
    by (simp add: enroll_file_def vault_check_def host_ready_def Let_def enrolled_def)
  then show ?thesis using that b c(2,3) by blast
qed


section \<open>Instances on a concrete vault\<close>

lemma counts_zero:
  assumes "vm_generation (ov_manifest h) \<le> 7" "0 \<le> vm_generation (ov_manifest h)"
  shows "counts h"
proof -
  have "dec n = [48 + n]" if "n < 10" for n by (subst dec.simps) (use that in simp)
  moreover have "nat (vm_generation (ov_manifest h) + 1) < 10" using assms by linarith
  ultimately show ?thesis by (simp add: counts_def max_str_digits_def)
qed

lemma demo_sealable: "sealable_file demo_crypto (replicate 12 0) [109] [1]"
  using crypto_okD(1) [OF demo_crypto_ok [of UNIV]] by (simp add: sealable_file_def gcm_limit_def)

lemma demo_fresh: "vw_blobs w = fmempty \<Longrightarrow> fresh_blob C nonce w h name p"
  by (simp add: fresh_blob_def split: sum.split)



text \<open>A live vault with one file.\<close>

lemma demo_enrolled:
  obtains w h where "live demo_crypto w demo_key h" "counts h" "vm_files (ov_manifest h) \<noteq> []"
    "map_of (vm_files (ov_manifest h)) [109] \<noteq> None"
    "unwraps demo_crypto (demo_native [7]) () (ov_key_id h) (ov_wmk h) demo_key"
proof (rule demo_vault)
  fix w h
  assume v: "live demo_crypto w demo_key h" "vm_files (ov_manifest h) = []" "vm_generation (ov_manifest h) = 0"
    "vw_blobs w = fmempty" "ov_key_id h = [107]" "unwraps demo_crypto (demo_native [7]) () [107] (ov_wmk h) demo_key"
  have c: "counts h" by (rule counts_zero) (simp_all add: v(3))
  have n: "list_all is_scalar [109]" "[109] \<noteq> []" "[109] \<noteq> env_name" "env_name \<notin> fst ` set (vm_files (ov_manifest h))"
    using v(2) by (simp_all add: is_scalar_def is_surrogate_def env_name_def str_lit_def)
  show ?thesis
  proof (rule enroll_commits [OF v(1) c demo_fresh [OF v(4)] demo_sealable demo_host_ready n])
    fix b steps
    let ?h = "h\<lparr>ov_manifest := enrolled h [109] (sha256_hex b)\<rparr>"
    assume l: "live demo_crypto (run_steps w steps) demo_key ?h"
    have "counts ?h" by (rule counts_zero) (simp_all add: enrolled_def v(3))
    then show ?thesis
      by (rule that [OF l]) (use v(2,5,6) in \<open>simp_all add: enrolled_def\<close>)
  qed
qed

lemma unenroll_crash_safe_witness:
  "\<exists>w h r h' steps h2 d2. live demo_crypto w demo_key h \<and> [109] \<in> fst ` set (vm_files (ov_manifest h)) \<and>
     unenroll_file demo_crypto demo_host w h [109] = (r, h', steps) \<and>
     open_vault demo_crypto (demo_native [7]) () demo_host (crash w steps 1) (ov_key_id h) (ov_label h) = (Inr h2, d2)"
proof (rule demo_enrolled)
  fix w h
  assume v: "live demo_crypto w demo_key h" "counts h" "map_of (vm_files (ov_manifest h)) [109] \<noteq> None"
    "unwraps demo_crypto (demo_native [7]) () (ov_key_id h) (ov_wmk h) demo_key"
  obtain r h' steps where e: "unenroll_file demo_crypto demo_host w h [109] = (r, h', steps)"
    by (metis prod_cases3)
  have m: "[109] \<in> fst ` set (vm_files (ov_manifest h))" using v(3) by (simp add: map_of_eq_None_iff)
  from unenroll_crash_safe [OF v(1,2,4) host_ready_opens [OF demo_host_ready] e, of 1]
  show ?thesis using v(1) e m by blast
qed

end
