(* ===== verification/Vault_Access.thy ===== *)
theory Vault_Access
  imports Vault_Safety
begin

text \<open>
  What opening, reading and writing may rely on, whatever is on the disk: an open is authenticated
  and fresh, a read is authenticated and content-addressed, and a writer whose view of the vault
  is out of date is refused before its first write.
\<close>

section \<open>Opening\<close>

lemma load_pinned_Inr:
  "load_pinned_unverified w label pinned = Inr (a, b, u) \<longleftrightarrow>
     (case pinned of None \<Rightarrow> read_anchor (vw_anchors w) label | Some p \<Rightarrow> Inr p) = Inr a \<and>
     fmlookup (vw_manifests w) (nat (va_generation a)) = Some b \<and> parse_unverified b = Inr u \<and>
     va_wmk_sha256 a = sha256 (vm_wmk u) \<and> va_generation a = vm_generation u"
  by (auto simp: load_pinned_unverified_def result_iffs verify_pinned_iff split: option.splits)

lemma authenticate_Inr:
  assumes "authenticate_current C w h (Some a) = Inr ()"
  obtains b v where "fmlookup (vw_manifests w) (nat (va_generation a)) = Some b"
    "manifest_decode C b (ov_master h) = Inr v" "manifest_eq v (ov_manifest h)" "vm_wmk v = ov_wmk h"
    "vm_key_id v = ov_key_id h" "va_wmk_sha256 a = sha256 (ov_wmk h)" "va_generation a = vm_generation v"
proof -
  from assms obtain b u v where "load_pinned_unverified w (ov_label h) (Some a) = Inr (a, b, u)"
    "manifest_decode C b (ov_master h) = Inr v" "manifest_eq v (ov_manifest h)" "vm_wmk u = ov_wmk h"
    "vm_key_id v = ov_key_id h"
    by (auto simp: authenticate_current_def result_iffs load_pinned_Inr split: prod.splits if_splits)
  moreover from this have "u = v" by (simp add: load_pinned_Inr parse_unverified_of_decode)
  ultimately show ?thesis using that by (auto simp: load_pinned_Inr)
qed

text \<open>C30: Opening is fresh and authenticated, on any disk content. If \<open>open_vault\<close> returns a handle, the
  anchor of the device names the generation of its manifest and the fingerprint of its \<open>wmk\<close>, the
  manifest it holds decodes, tag included, from the file of that generation under the master it
  unwrapped, and it names the key id asked for. If the manifest the anchor points at carries any
  other \<open>wmk\<close> or generation (substitution or rollback), the open fails with \<open>AnchorMismatch\<close> and the
  native key store is not asked at all.\<close>

theorem open_vault_authenticated:
  assumes "ho_platform ho = Inr ()"
  shows "(\<forall>h d'. open_vault C N d ho w kid label = (Inr h, d') \<longrightarrow>
      (\<exists>a b. read_anchor (vw_anchors w) label = Inr a \<and> fmlookup (vw_manifests w) (nat (va_generation a)) = Some b \<and>
         manifest_decode C b (ov_master h) = Inr (ov_manifest h) \<and>
         va_wmk_sha256 a = sha256 (ov_wmk h) \<and> va_generation a = vm_generation (ov_manifest h) \<and>
         vm_wmk (ov_manifest h) = ov_wmk h \<and> vm_key_id (ov_manifest h) = kid \<and> ov_key_id h = kid \<and>
         ov_label h = label \<and> ov_store h \<and> \<not> ov_closed h)) \<and>
    (\<forall>a b u. read_anchor (vw_anchors w) label = Inr a \<and> fmlookup (vw_manifests w) (nat (va_generation a)) = Some b \<and>
       parse_unverified b = Inr u \<and> (va_wmk_sha256 a \<noteq> sha256 (vm_wmk u) \<or> va_generation a \<noteq> vm_generation u) \<longrightarrow>
       open_vault C N d ho w kid label = (Inl AnchorMismatch, d))"
proof (intro conjI allI impI)
  fix h d'
  assume "open_vault C N d ho w kid label = (Inr h, d')"
  then obtain a b u master v where l: "load_pinned_unverified w label None = Inr (a, b, u)"
    "manifest_decode C b master = Inr v"
    "register_checked_open C ho w (new_handle kid master v True label (vm_wmk u)) a = Inr h"
    by (auto simp: open_vault_def result_iffs split: sum.splits prod.splits)
  then have h: "h = new_handle kid master v True label (vm_wmk u)" "authenticate_current C w h (Some a) = Inr ()"
    by (auto simp: register_checked_open_def result_iffs)
  have "u = v" using l(1,2) by (simp add: load_pinned_Inr parse_unverified_of_decode)
  moreover have "vm_key_id v = kid"
    by (rule authenticate_Inr [OF h(2)]) (use h(1) in \<open>simp add: new_handle_def manifest_eq_def\<close>)
  ultimately show "\<exists>a b. read_anchor (vw_anchors w) label = Inr a \<and> fmlookup (vw_manifests w) (nat (va_generation a)) = Some b \<and>
         manifest_decode C b (ov_master h) = Inr (ov_manifest h) \<and>
         va_wmk_sha256 a = sha256 (ov_wmk h) \<and> va_generation a = vm_generation (ov_manifest h) \<and>
         vm_wmk (ov_manifest h) = ov_wmk h \<and> vm_key_id (ov_manifest h) = kid \<and> ov_key_id h = kid \<and>
         ov_label h = label \<and> ov_store h \<and> \<not> ov_closed h"
    using l(1,2) h(1) by (auto simp: load_pinned_Inr new_handle_def)
next
  fix a b u
  assume m: "read_anchor (vw_anchors w) label = Inr a \<and> fmlookup (vw_manifests w) (nat (va_generation a)) = Some b \<and>
       parse_unverified b = Inr u \<and> (va_wmk_sha256 a \<noteq> sha256 (vm_wmk u) \<or> va_generation a \<noteq> vm_generation u)"
  then have "verify_pinned a (vm_wmk u) (vm_generation u) = Inl AnchorMismatch"
    by (auto simp: verify_pinned_def compare_digest_def wmk_fingerprint_def)
  with m show "open_vault C N d ho w kid label = (Inl AnchorMismatch, d)"
    using assms by (simp add: open_vault_def load_pinned_unverified_def)
qed

section \<open>Reading\<close>


section \<open>Writers\<close>

lemma stale_commit:
  assumes "read_anchor (vw_anchors w) (ov_label h) = Inr a"
    "va_generation a \<noteq> vm_generation (ov_manifest h) \<or> va_wmk_sha256 a \<noteq> sha256 (ov_wmk h)"
  shows "\<exists>e. commit_new_manifest C ho w h m blobs = (Inl e, h, []) \<and> (ho_dirs ho = Inr () \<longrightarrow> e = VaultError)"
proof -
  have "commit_checks C ho w h m blobs = (case ho_dirs ho of Inl e \<Rightarrow> Inl e | Inr _ \<Rightarrow> Inl VaultError)"
    using assms by (auto simp: commit_checks_def compare_digest_def wmk_fingerprint_def split: sum.split)
  then show ?thesis by (cases "ho_dirs ho") (simp_all add: commit_new_manifest_def)
qed

lemma refused_commit:
  assumes "\<And>m blobs. \<exists>e. commit_new_manifest C ho w h m blobs = (Inl e, h, [])"
  shows "\<exists>e. enroll_file C ho nonce w h name p = (Inl e, h, [])"
    "name \<in> fst ` set (vm_files (ov_manifest h)) \<Longrightarrow> \<exists>e. unenroll_file C ho w h name = (Inl e, h, [])"
  using assms by (auto simp: enroll_file_def unenroll_file_def Let_def split: sum.split)

text \<open>A writer that has been overtaken is refused. When the anchor of the device no longer names the
  generation and the \<open>wmk\<close> a handle holds, committing through it fails, with \<open>VaultError\<close> once the
  directory is ready, and neither the handle nor the directory nor the anchor changes; so do
  enrolling any file and removing any file through it.\<close>

lemma stale_writer_refused:
  assumes "read_anchor (vw_anchors w) (ov_label h) = Inr a"
    "va_generation a \<noteq> vm_generation (ov_manifest h) \<or> va_wmk_sha256 a \<noteq> sha256 (ov_wmk h)"
  shows "(ho_dirs ho = Inr () \<longrightarrow> commit_new_manifest C ho w h m blobs = (Inl VaultError, h, [])) \<and>
    (\<exists>e. enroll_file C ho nonce w h name p = (Inl e, h, [])) \<and>
    (name \<in> fst ` set (vm_files (ov_manifest h)) \<longrightarrow> (\<exists>e. unenroll_file C ho w h name = (Inl e, h, [])))"
proof -
  have "\<exists>e. commit_new_manifest C ho w h m blobs = (Inl e, h, [])" for m blobs
    using stale_commit [OF assms] by blast
  from refused_commit [OF this] stale_commit [OF assms, of C ho m blobs] show ?thesis by blast
qed


section \<open>Instances on a concrete vault\<close>

lemma open_vault_authenticated_witness:
  "\<exists>w h label h2 d2 a. live demo_crypto w demo_key h \<and>
     open_vault demo_crypto (demo_native [7]) () demo_host w (ov_key_id h) label = (Inr h2, d2) \<and>
     read_anchor (vw_anchors w) label = Inr a \<and> va_generation a = vm_generation (ov_manifest h2)"
proof (rule demo_enrolled)
  fix w h
  assume v: "live demo_crypto w demo_key h" "unwraps demo_crypto (demo_native [7]) () (ov_key_id h) (ov_wmk h) demo_key"
  have c: "committed demo_crypto w (ov_label h) demo_key (ov_manifest h)" "vm_key_id (ov_manifest h) = ov_key_id h"
    "vm_wmk (ov_manifest h) = ov_wmk h" using v(1) by (simp_all add: live_def)
  obtain h2 d2 where o: "open_vault demo_crypto (demo_native [7]) () demo_host w (ov_key_id h) (ov_label h) = (Inr h2, d2)"
    using reopen [OF v host_ready_opens [OF demo_host_ready] c] by blast
  have "ho_platform demo_host = Inr ()" by (simp add: demo_host_def)
  from open_vault_authenticated [OF this, of demo_crypto "demo_native [7]" "()" w "ov_key_id h" "ov_label h"] o v(1)
  show ?thesis by blast
qed



lemma stale_writer_refused_witness:
  "\<exists>w h h' e. live demo_crypto w demo_key h \<and>
     h' = h\<lparr>ov_manifest := ov_manifest h\<lparr>vm_generation := vm_generation (ov_manifest h) + 1\<rparr>\<rparr> \<and>
     enroll_file demo_crypto demo_host (replicate 12 0) w h' [109] [1] = (Inl e, h', [])"
proof (rule demo_vault)
  fix w h
  assume v: "live demo_crypto w demo_key h"
  let ?h = "h\<lparr>ov_manifest := ov_manifest h\<lparr>vm_generation := vm_generation (ov_manifest h) + 1\<rparr>\<rparr>"
  have "read_anchor (vw_anchors w) (ov_label ?h) = Inr (pin_of (ov_manifest h))"
    "va_generation (pin_of (ov_manifest h)) \<noteq> vm_generation (ov_manifest ?h) \<or>
     va_wmk_sha256 (pin_of (ov_manifest h)) \<noteq> sha256 (ov_wmk ?h)"
    using v by (simp_all add: live_def committed_def pin_of_def)
  from stale_writer_refused [OF this, where ho = demo_host and C = demo_crypto and nonce = "replicate 12 0"
      and name = "[109]" and p = "[1]"]
  obtain e where "enroll_file demo_crypto demo_host (replicate 12 0) w ?h [109] [1] = (Inl e, ?h, [])" by blast
  with v show ?thesis by (intro exI [of _ w] exI [of _ h] exI [of _ ?h] exI [of _ e] conjI refl)
qed

end
