(* ===== verification/Vault_Rekey.thy ===== *)
theory Vault_Rekey
  imports Vault_Recovery
begin

text \<open>
  Re-keying a vault onto a new device and rotating its passphrase: every prefix of the writes leaves
  a vault that the passphrase opens with the same files, and after the anchor write the new device
  opens it too.
\<close>

section \<open>The re-keyed generation\<close>

definition rekeyed :: "vault_manifest \<Rightarrow> py_str \<Rightarrow> bytes \<Rightarrow> vault_manifest" where
  "rekeyed m kid wmk = \<lparr>vm_key_id = kid, vm_wmk = wmk, vm_files = vm_files m, vm_generation = vm_generation m + 1\<rparr>"

lemma rekeyed_simps [simp]:
  "vm_key_id (rekeyed m kid wmk) = kid" "vm_wmk (rekeyed m kid wmk) = wmk" "vm_files (rekeyed m kid wmk) = vm_files m"
  "vm_generation (rekeyed m kid wmk) = vm_generation m + 1" "digests (rekeyed m kid wmk) = digests m"
  by (simp_all add: rekeyed_def digests_def)

definition same_files :: "('x) crypto_scheme \<Rightarrow> vault_world \<Rightarrow> open_vault \<Rightarrow> vault_world \<Rightarrow> open_vault \<Rightarrow> bool" where
  "same_files C w2 h2 w h \<longleftrightarrow> (\<forall>n. read_file C w2 h2 n = read_file C w h n)"

lemma same_files_intro:
  assumes "map_of (vm_files (ov_manifest h2)) = map_of (vm_files (ov_manifest h))" "agree w w2 (ov_manifest h)"
    "ov_master h2 = ov_master h" "ov_closed h2 = ov_closed h"
  shows "same_files C w2 h2 w h"
  using assms by (auto simp: same_files_def read_file_def vault_check_def agree_def digests_def ran_def split: option.split)

text \<open>The sidecar sees a \<open>wmk\<close> through its fingerprint only.\<close>

lemma open_passphrase_cong: "sha256 wmk = sha256 wmk' \<Longrightarrow> open_passphrase C rec pass wmk = open_passphrase C rec pass wmk'"
  by (simp add: open_passphrase_def recovery_digest_def)

lemma matches_cong: "sha256 wmk = sha256 wmk' \<Longrightarrow> recovery_blob_matches_wmk rec wmk = recovery_blob_matches_wmk rec wmk'"
  by (simp add: recovery_blob_matches_wmk_def recovery_digest_def)

lemma import_of_open: "open_passphrase C rec pass wmk = Inr (master_new key) \<Longrightarrow>
    fst (import_backup C None [] rec pass (recovery_digest wmk)) = Inr key"
  by (auto simp: open_passphrase_def result_iffs master_new_def)

text \<open>What a cold vault holds.\<close>

lemma coldE:
  assumes "cold C w pass key m"
  obtains rec b u where "vw_recovery w = Some rec" "fmlookup (vw_manifests w) (nat (vm_generation m)) = Some b"
    "parse_unverified b = Inr u" "manifest_decode C b (master_new key) = Inr u" "manifest_ok u" "manifest_eq u m"
    "recovery_blob_matches_wmk rec (vm_wmk m) = Inr True" "open_passphrase C rec pass (vm_wmk m) = Inr (master_new key)"
    "newest w (nat (vm_generation m)) (vm_wmk m)" "load_recovery_matched_unverified w rec = Inr (nat (vm_generation m), b, u)"
    "\<forall>d \<in> digests m. \<exists>b. fmlookup (vw_blobs w) d = Some b \<and> sha256_hex b = d"
proof -
  from assms obtain rec b u where c: "vw_recovery w = Some rec" "selects w rec (nat (vm_generation m)) b u"
    "open_passphrase C rec pass (vm_wmk u) = Inr (master_new key)" "manifest_decode C b (master_new key) = Inr u"
    "manifest_ok u" "manifest_eq u m" "\<forall>d \<in> digests m. \<exists>b. fmlookup (vw_blobs w) d = Some b \<and> sha256_hex b = d"
    by (auto simp: cold_def)
  have e: "vm_wmk u = vm_wmk m" using c(6) by (simp add: manifest_eq_def)
  have h: "fmlookup (vw_manifests w) (nat (vm_generation m)) = Some b" "parse_unverified b = Inr u"
    "recovery_blob_matches_wmk rec (vm_wmk m) = Inr True"
    using c(2) e by (auto simp: selects_def hit_def)
  have "\<exists>v. parse_unverified b' = Inr v \<and> sha256 (vm_wmk v) \<noteq> sha256 (vm_wmk m)"
    if "nat (vm_generation m) < g'" "fmlookup (vw_manifests w) g' = Some b'" for g' b'
    using c(2) that matches_iff [OF h(3)] by (fastforce simp: selects_def miss_def)
  then have "newest w (nat (vm_generation m)) (vm_wmk m)" by (simp add: newest_def)
  with that c e h load_matched [OF c(2)] show ?thesis by simp
qed

text \<open>The new \<open>wmk\<close> is not the one of a manifest left beyond the generation that is being written.\<close>

definition fresh_wmk :: "('x) crypto_scheme \<Rightarrow> ('d, 'y) native_scheme \<Rightarrow> 'd \<Rightarrow> draws \<Rightarrow> bytes \<Rightarrow> py_str \<Rightarrow> vault_world \<Rightarrow>
    vault_manifest \<Rightarrow> bool" where
  "fresh_wmk C N d r key kid w m \<longleftrightarrow> (\<forall>wmk. wrap_dek C N d (dr_ephemeral r) key kid None = Inr wmk \<longrightarrow>
     (\<forall>g b u. nat (vm_generation m + 1) < g \<longrightarrow> fmlookup (vw_manifests w) g = Some b \<longrightarrow>
        parse_unverified b = Inr u \<longrightarrow> sha256 (vm_wmk u) \<noteq> sha256 wmk))"

lemma newest_mono:
  assumes "newest w g wmk" "g \<le> g'" "sha256 wmk' = sha256 wmk"
  shows "newest w g' wmk'"
proof -
  have "\<exists>u. parse_unverified b = Inr u \<and> sha256 (vm_wmk u) \<noteq> sha256 wmk'"
    if "g' < x" "fmlookup (vw_manifests w) x = Some b" for x b
    using assms(1,3) that le_less_trans [OF assms(2) that(1)] unfolding newest_def by fastforce
  then show ?thesis by (simp add: newest_def)
qed

lemma newest_put: "newest (w\<lparr>vw_manifests := fmupd g b (vw_manifests w)\<rparr>) g wmk \<longleftrightarrow> newest w g wmk"
  by (auto simp: newest_def)

text \<open>The vault after the new manifest, and after the new sidecar.\<close>

lemma cold_after_manifest:
  assumes "cold C w pass key m" "m' = rekeyed m kid wmk" "manifest_decode C mb (master_new key) = Inr u'"
    "manifest_ok u'" "manifest_eq u' m'" "0 \<le> vm_generation m"
  shows "cold C (apply_step w (PutManifest (nat (vm_generation m')) mb)) pass key m \<or>
    cold C (apply_step w (PutManifest (nat (vm_generation m')) mb)) pass key m'"
proof (rule coldE [OF assms(1)])
  fix rec b u
  assume c: "vw_recovery w = Some rec" "fmlookup (vw_manifests w) (nat (vm_generation m)) = Some b"
    "manifest_decode C b (master_new key) = Inr u" "manifest_ok u" "manifest_eq u m"
    "recovery_blob_matches_wmk rec (vm_wmk m) = Inr True" "open_passphrase C rec pass (vm_wmk m) = Inr (master_new key)"
    "newest w (nat (vm_generation m)) (vm_wmk m)"
    "\<forall>d \<in> digests m. \<exists>b. fmlookup (vw_blobs w) d = Some b \<and> sha256_hex b = d"
  let ?w = "apply_step w (PutManifest (nat (vm_generation m')) mb)"
  have g: "nat (vm_generation m') = Suc (nat (vm_generation m))" using assms(2,6) by (simp add: nat_add_distrib)
  have u': "parse_unverified mb = Inr u'" "vm_wmk u' = wmk"
    using parse_unverified_of_decode [OF assms(3)] assms(2,5) by (simp_all add: manifest_eq_def)
  show ?thesis
  proof (cases "sha256 wmk = sha256 (vm_wmk m)")
    case True
    have "newest ?w (nat (vm_generation m')) (vm_wmk m')"
      using newest_mono [OF c(8), of "nat (vm_generation m')" wmk] g True assms(2) by (simp add: newest_put)
    then show ?thesis
      using c(1,9) assms(2-5) open_passphrase_cong [OF True, of C rec pass] matches_cong [OF True, of rec] c(6,7)
      by (intro disjI2 cold_intro [where rec = rec and b = mb and u = u']) simp_all
  next
    case False
    have "newest ?w (nat (vm_generation m)) (vm_wmk m)"
      using c(8) g False u' by (auto simp: newest_def)
    then show ?thesis
      using c g by (intro disjI1 cold_intro [where rec = rec and b = b and u = u]) simp_all
  qed
qed

lemma cold_after_sidecar:
  assumes "cold C w pass key m" "m' = rekeyed m kid wmk" "manifest_decode C mb (master_new key) = Inr u'"
    "manifest_ok u'" "manifest_eq u' m'" "0 \<le> vm_generation m" "recovery_blob_matches_wmk rec' wmk = Inr True"
    "open_passphrase C rec' pass' wmk = Inr (master_new key)"
    "\<forall>g b u. nat (vm_generation m') < g \<longrightarrow> fmlookup (vw_manifests w) g = Some b \<longrightarrow>
        parse_unverified b = Inr u \<longrightarrow> sha256 (vm_wmk u) \<noteq> sha256 wmk"
  shows "cold C (run_steps w [PutManifest (nat (vm_generation m')) mb, PutRecovery rec']) pass' key m'"
proof (rule coldE [OF assms(1)])
  assume c: "newest w (nat (vm_generation m)) (vm_wmk m)"
    "\<forall>d \<in> digests m. \<exists>b. fmlookup (vw_blobs w) d = Some b \<and> sha256_hex b = d"
  have g: "nat (vm_generation m') = Suc (nat (vm_generation m))" using assms(2,6) by (simp add: nat_add_distrib)
  let ?w = "run_steps w [PutManifest (nat (vm_generation m')) mb, PutRecovery rec']"
  have "\<exists>u. parse_unverified b = Inr u \<and> sha256 (vm_wmk u) \<noteq> sha256 wmk"
    if n: "nat (vm_generation m') < g'" "fmlookup (vw_manifests w) g' = Some b" for g' b
  proof -
    have "nat (vm_generation m) < g'" using n(1) g by simp
    then obtain u where "parse_unverified b = Inr u" using c(1) n(2) by (auto simp: newest_def)
    then show ?thesis using assms(9) n by blast
  qed
  then have "newest ?w (nat (vm_generation m')) (vm_wmk m')"
    using assms(2) by (simp add: newest_def)
  then show ?thesis
    using assms(2-5,7,8) c(2) by (intro cold_intro [where rec = rec' and b = mb and u = u']) simp_all
qed

section \<open>Re-keying\<close>

lemma cold_cong:
  assumes "manifest_eq a b" "cold C w pass key a"
  shows "cold C w pass key b"
proof -
  from assms(2) obtain rec x u where "vw_recovery w = Some rec \<and> selects w rec (nat (vm_generation a)) x u \<and>
      open_passphrase C rec pass (vm_wmk u) = Inr (master_new key) \<and>
      manifest_decode C x (master_new key) = Inr u \<and> manifest_ok u" "manifest_eq u a"
    and d: "\<forall>d \<in> digests a. \<exists>b. fmlookup (vw_blobs w) d = Some b \<and> sha256_hex b = d"
    by (auto simp: cold_def)
  moreover have "vm_generation a = vm_generation b" using assms(1) by (simp add: manifest_eq_def)
  ultimately show ?thesis
    using manifest_eq_trans [OF _ assms(1)] d manifest_eq_digests [OF assms(1)] unfolding cold_def by auto
qed

lemma manifest_norm_ok: "manifest_ok m \<Longrightarrow> manifest_ok (manifest_norm m)"
proof -
  assume a: "manifest_ok m"
  have "mset (map fst (sort_key fst (vm_files m))) = mset (map fst (vm_files m))" by simp
  then have "distinct (map fst (sort_key fst (vm_files m)))"
    using a mset_eq_imp_distinct_iff unfolding manifest_ok_def by blast
  then show ?thesis using a by (simp add: manifest_ok_def)
qed

lemma recover_load_cold:
  assumes "cold C w pass key m" "host_ready ho"
  obtains rec u where "recover_load C ho w pass = Inr (nat (vm_generation u), rec, vm_wmk u, master_new key, u)"
    "cold C w pass key u" "manifest_ok u" "manifest_eq u m"
    "open_passphrase C rec pass (vm_wmk u) = Inr (master_new key)"
proof (rule coldE [OF assms(1)])
  fix rec b u
  assume c: "vw_recovery w = Some rec" "manifest_decode C b (master_new key) = Inr u" "manifest_ok u" "manifest_eq u m"
    "open_passphrase C rec pass (vm_wmk m) = Inr (master_new key)"
    "load_recovery_matched_unverified w rec = Inr (nat (vm_generation m), b, u)"
  have e: "vm_wmk u = vm_wmk m" "vm_generation u = vm_generation m" using c(4) by (simp_all add: manifest_eq_def)
  have "recover_load C ho w pass = Inr (nat (vm_generation u), rec, vm_wmk u, master_new key, u)"
    using c assms(2) e by (simp add: recover_load_def read_recovery_blob_def host_ready_def)
  then show ?thesis
    using that c(3,4,5) e cold_cong [OF manifest_eq_sym [OF c(4)] assms(1)] by simp
qed

lemma rekey_run:
  assumes "crypto_ok C K" "list_all is_scalar pass" "pass \<noteq> []" "list_all is_scalar kid" "kid \<noteq> []"
    "draws_ok K r" "length key = 32" "b \<in> K" "ensure_wrapping_key N d kid = (Inr (), d')" "holds_key C N d' kid b"
    "host_ready ho" "cold C w pass key m" "length (dec (nat (vm_generation m + 1))) \<le> max_str_digits"
    "fresh_wmk C N d' r key kid w m"
  obtains u wmk rec mb store h where
    "recover_to_device C N d ho r w pass kid label = (Inr h, d', PutManifest (nat (vm_generation u + 1)) mb #
       PutRecovery rec # FlipAnchor store # gc_steps
         (run_steps w [PutManifest (nat (vm_generation u + 1)) mb, PutRecovery rec, FlipAnchor store])
         (rekeyed u kid wmk) (vm_generation u))"
    "h = new_handle kid (master_new key) (rekeyed u kid wmk) True label wmk"
    "cold C w pass key u" "manifest_eq u m" "manifest_ok u" "manifest_ok (rekeyed u kid wmk)" "wmk \<noteq> []"
    "unwraps C N d' kid wmk key"
    "\<exists>v \<in> {u, rekeyed u kid wmk}. cold C (run_steps w [PutManifest (nat (vm_generation u + 1)) mb]) pass key v"
    "cold C (run_steps w [PutManifest (nat (vm_generation u + 1)) mb, PutRecovery rec]) pass key (rekeyed u kid wmk)"
    "cold C (run_steps w [PutManifest (nat (vm_generation u + 1)) mb, PutRecovery rec, FlipAnchor store]) pass key
       (rekeyed u kid wmk)"
    "committed C (run_steps w [PutManifest (nat (vm_generation u + 1)) mb, PutRecovery rec, FlipAnchor store]) label key
       (rekeyed u kid wmk)"
proof -
  obtain old_rec u where u: "recover_load C ho w pass = Inr (nat (vm_generation u), old_rec, vm_wmk u, master_new key, u)"
    "cold C w pass key u" "manifest_ok u" "manifest_eq u m"
    "open_passphrase C old_rec pass (vm_wmk u) = Inr (master_new key)"
    by (rule recover_load_cold [OF assms(12,11)])
  have gen: "vm_generation u = vm_generation m" "0 \<le> vm_generation u"
    using u(3,4) by (simp_all add: manifest_eq_def manifest_ok_def)
  obtain wmk rec where s: "wrap_dek C N d' (dr_ephemeral r) key kid None = Inr wmk"
    "export_backup_blob C (dr_salt r) (dr_nonce r) key pass (recovery_digest wmk) = Inr rec"
    "seals C N d' kid pass key \<lparr>sm_wmk = wmk, sm_recovery = rec\<rparr>"
    by (rule seals_intro [OF assms(1,2,4,6,7,8,10)])
  have sl: "recovery_blob_matches_wmk rec wmk = Inr True" "open_passphrase C rec pass wmk = Inr (master_new key)"
    "unwraps C N d' kid wmk key"
    using s(3) by (auto simp: seals_def unwraps_def)
  let ?m = "rekeyed u kid wmk" and ?g = "nat (vm_generation u + 1)"
  have ok: "manifest_ok ?m"
    using u(3) assms(4,5,13) gen by (simp add: manifest_ok_def rekeyed_def)
  have nok: "manifest_ok (manifest_norm ?m)" "manifest_eq (manifest_norm ?m) ?m"
    using manifest_norm_ok [OF ok] manifest_norm_eq [of ?m] ok by (simp_all add: manifest_ok_def)
  obtain mb where mb: "manifest_encode C ?m (master_new key) = Inr mb"
    "manifest_decode C mb (master_new key) = Inr (manifest_norm ?m)"
    using manifest_decode_encode [OF ok, of "master_new key" C] by (auto simp: master_new_def)
  have ne: "wmk \<noteq> []" by (rule wrap_dek_nonempty [OF s(1)])
  have "pinnable wmk (vm_generation u + 1)" using ok ne gen by (simp add: pinnable_def manifest_ok_def)
  then obtain store where store: "write_anchor (vw_anchors w) label wmk (vm_generation u + 1) = Inr store"
    "read_anchor store label = Inr (pin_of ?m)"
    using write_read_anchor [of wmk "vm_generation u + 1" "vw_anchors w" label] by (auto simp: pin_of_def)
  let ?w2 = "run_steps w [PutManifest ?g mb, PutRecovery rec]"
  let ?w3 = "run_steps w [PutManifest ?g mb, PutRecovery rec, FlipAnchor store]"
  let ?gc = "gc_steps ?w3 ?m (vm_generation u)"
  have c1: "\<exists>v \<in> {u, ?m}. cold C (run_steps w [PutManifest ?g mb]) pass key v"
    using cold_after_manifest [OF u(2) refl mb(2) nok gen(2)] by auto
  have fr: "\<forall>g b v. nat (vm_generation ?m) < g \<longrightarrow> fmlookup (vw_manifests w) g = Some b \<longrightarrow>
        parse_unverified b = Inr v \<longrightarrow> sha256 (vm_wmk v) \<noteq> sha256 wmk"
    using assms(14) s(1) gen(1) by (simp add: fresh_wmk_def)
  have c2: "cold C ?w2 pass key ?m"
    using cold_after_sidecar [OF u(2) refl mb(2) nok gen(2) sl(1,2) fr] by simp
  then have c3: "cold C ?w3 pass key ?m" by (simp add: cold_def selects_def hit_def miss_def)
  have "\<forall>d \<in> digests ?m. \<exists>b. fmlookup (vw_blobs ?w3) d = Some b \<and> sha256_hex b = d" using c3 by (simp add: cold_def)
  then have com: "committed C ?w3 label key ?m" using store(2) mb(2) nok(2) by (auto simp: committed_def on_disk_def)
  have "list_all (keeps ?w3 ?m) ?gc" using gen by (intro gc_keeps) simp_all
  then have "committed C (run_steps ?w3 ?gc) label key ?m" using keeps_committed(1) com by blast
  then have "authenticate_current C (run_steps ?w3 ?gc) (new_handle kid (master_new key) ?m True label wmk) (Some (pin_of ?m)) = Inr ()"
    by (intro authenticate_live) (simp_all add: new_handle_def)
  then have reg: "register_checked_open C ho (run_steps ?w3 ?gc) (new_handle kid (master_new key) ?m True label wmk) (pin_of ?m) =
      Inr (new_handle kid (master_new key) ?m True label wmk)"
    using assms(11) by (simp add: register_checked_open_def host_ready_def)
  have reseal: "reseal_onto_device C N d r old_rec pass (vm_wmk u) kid = (Inr \<lparr>sm_wmk = wmk, sm_recovery = rec\<rparr>, d')"
    using import_of_open [OF u(5)] s(1,2) assms(3,9) by (simp add: reseal_onto_device_def)
  have "recover_to_device C N d ho r w pass kid label = (Inr (new_handle kid (master_new key) ?m True label wmk), d',
     PutManifest ?g mb # PutRecovery rec # FlipAnchor store # ?gc)"
    using u(1) reseal mb(1) store(1) reg gen(2)
    by (simp add: recover_to_device_def Let_def rekeyed_def pin_of_def)
  then show ?thesis using that u(2,3,4) ok ne sl(3) c1 c2 c3 com by blast
qed

lemma crash_three:
  "crash w (a # b # c # gc) k =
     (if k = 0 then w else if k = 1 then run_steps w [a] else if k = 2 then run_steps w [a, b]
      else run_steps (run_steps w [a, b, c]) (take (k - 3) gc))"
proof (cases "k < 3")
  case True
  then have "k \<in> {0, 1, 2}" by auto
  then show ?thesis by (auto simp: crash_def numeral_2_eq_2)
next
  case False
  then obtain j where "k = 3 + j" using le_Suc_ex by (metis not_less)
  then show ?thesis by (simp add: crash_def eval_nat_numeral)
qed

lemma recovers_same:
  assumes "cold C w2 pass key v" "map_of (vm_files v) = map_of (vm_files u)" "agree w w2 u" "host_ready ho"
    "manifest_eq (ov_manifest h0) u" "ov_master h0 = master_new key" "\<not> ov_closed h0"
  shows "\<exists>h2. recover_vault C ho w2 pass = Inr h2 \<and> same_files C w2 h2 w h0"
proof -
  have "ho_platform ho = Inr ()" using assms(4) by (simp add: host_ready_def)
  then obtain h2 where h: "recover_vault C ho w2 pass = Inr h2" "manifest_eq (ov_manifest h2) v"
    "ov_master h2 = master_new key" "\<not> ov_closed h2"
    by (rule recover_cold [OF assms(1)])
  have "agree w w2 (ov_manifest h0)"
    using assms(3) manifest_eq_digests [OF assms(5)] by (simp add: agree_def)
  then have "same_files C w2 h2 w h0"
    using assms(2,5-7) h by (intro same_files_intro) (simp_all add: manifest_eq_def)
  with h(1) show ?thesis by blast
qed

lemma opens_same:
  assumes "committed C w2 label key v" "unwraps C N d (vm_key_id v) (vm_wmk v) key" "length key = 32"
    "map_of (vm_files v) = map_of (vm_files u)" "agree w w2 u" "host_ready ho"
    "manifest_eq (ov_manifest h0) u" "ov_master h0 = master_new key" "\<not> ov_closed h0"
  shows "\<exists>h2 d2. open_vault C N d ho w2 (vm_key_id v) label = (Inr h2, d2) \<and>
    vm_generation (ov_manifest h2) = vm_generation v \<and> same_files C w2 h2 w h0"
proof -
  obtain h2 d2 where h: "open_vault C N d ho w2 (vm_key_id v) label = (Inr h2, d2)" "manifest_eq (ov_manifest h2) v"
    "ov_master h2 = master_new key" "\<not> ov_closed h2"
    by (rule open_committed [OF assms(1,2) host_ready_opens [OF assms(6)] assms(3)])
  have "agree w w2 (ov_manifest h0)"
    using assms(5) manifest_eq_digests [OF assms(7)] by (simp add: agree_def)
  then have "same_files C w2 h2 w h0"
    using assms(4,7-9) h by (intro same_files_intro) (simp_all add: manifest_eq_def)
  with h show ?thesis by (auto simp: manifest_eq_def)
qed

text \<open>C2: Crash safety of re-keying a recovered vault onto a new device. It succeeds, and however many of
  its writes were performed, the passphrase still opens the vault and every file reads as before;
  before the third write the anchor store is untouched, and from the third write on, the new device
  opens the vault at the next generation with the same files. The handle it returns is live, so
  files can be enrolled through it.\<close>

theorem recover_to_device_crash_safe:
  assumes "crypto_ok C K" "list_all is_scalar pass" "pass \<noteq> []" "list_all is_scalar kid" "kid \<noteq> []"
    "draws_ok K r" "length key = 32" "b \<in> K" "ensure_wrapping_key N d kid = (Inr (), d')" "holds_key C N d' kid b"
    "host_ready ho" "cold C w pass key m" "length (dec (nat (vm_generation m + 1))) \<le> max_str_digits"
    "fresh_wmk C N d' r key kid w m"
  shows "\<exists>h0 h steps. recover_vault C ho w pass = Inr h0 \<and>
    recover_to_device C N d ho r w pass kid label = (Inr h, d', steps) \<and> 3 \<le> length steps \<and>
    (\<forall>k. \<exists>h2. recover_vault C ho (crash w steps k) pass = Inr h2 \<and> same_files C (crash w steps k) h2 w h0) \<and>
    (\<forall>k. k < 3 \<longrightarrow> vw_anchors (crash w steps k) = vw_anchors w) \<and>
    (\<forall>k. 3 \<le> k \<longrightarrow> (\<exists>h2 d2. open_vault C N d' ho (crash w steps k) kid label = (Inr h2, d2) \<and>
       vm_generation (ov_manifest h2) = vm_generation (ov_manifest h0) + 1 \<and> same_files C (crash w steps k) h2 w h0)) \<and>
    live C (run_steps w steps) key h \<and> same_files C (run_steps w steps) h w h0"
proof (rule rekey_run [OF assms])
  fix u wmk rec mb store h
  let ?m = "rekeyed u kid wmk" and ?a = "PutManifest (nat (vm_generation u + 1)) mb" and ?b = "PutRecovery rec"
    and ?c = "FlipAnchor store"
  let ?w3 = "run_steps w [?a, ?b, ?c]"
  let ?gc = "gc_steps ?w3 ?m (vm_generation u)"
  let ?ss = "?a # ?b # ?c # ?gc"
  assume run: "recover_to_device C N d ho r w pass kid label = (Inr h, d', ?ss)"
    "h = new_handle kid (master_new key) ?m True label wmk" "cold C w pass key u" "manifest_eq u m" "manifest_ok u"
    "manifest_ok ?m" "wmk \<noteq> []" "unwraps C N d' kid wmk key"
    and colds: "\<exists>v \<in> {u, ?m}. cold C (run_steps w [?a]) pass key v"
    "cold C (run_steps w [?a, ?b]) pass key ?m" "cold C ?w3 pass key ?m"
    and com: "committed C ?w3 label key ?m"
  have gc: "list_all (tidies ?m) ?gc" using run(5) by (intro gc_tidies) (simp_all add: manifest_ok_def)
  then have gck: "list_all (keeps ?w3 ?m) ?gc" by (auto simp: list_all_iff intro: tidies_keeps)
  have late: "cold C (run_steps ?w3 (take j ?gc)) pass key ?m" "committed C (run_steps ?w3 (take j ?gc)) label key ?m"
    "agree w (run_steps ?w3 (take j ?gc)) u" for j
    using cold_prefix [OF gc colds(3)] keeps_committed [OF list_all_take [OF gck] com]
    by (simp_all add: agree_def)
  have all: "run_steps w ?ss = run_steps ?w3 (take (length ?gc) ?gc)" by simp
  obtain h0 where h0: "recover_vault C ho w pass = Inr h0" "manifest_eq (ov_manifest h0) u"
    "ov_master h0 = master_new key" "\<not> ov_closed h0"
    by (rule recover_cold [OF run(3), of ho]) (use assms(11) in \<open>simp add: host_ready_def\<close>)
  note rec = recovers_same [where C = C, OF _ _ _ assms(11) h0(2-4)]
  have r: "\<exists>h2. recover_vault C ho (crash w ?ss k) pass = Inr h2 \<and> same_files C (crash w ?ss k) h2 w h0" for k
  proof -
    consider "k = 0" | "k = 1" | "k = 2" | "2 < k" by linarith
    then show ?thesis
    proof cases
      case 1
      then show ?thesis using rec [OF run(3) refl agree_refl] by (simp add: crash_three)
    next
      case 2
      have "agree w (run_steps w [?a]) u" by (simp add: agree_def)
      then show ?thesis using colds(1) rec 2 by (auto simp: crash_three)
    next
      case 3
      have "agree w (run_steps w [?a, ?b]) u" by (simp add: agree_def)
      then show ?thesis using rec [OF colds(2)] 3 by (simp add: crash_three)
    next
      case 4
      then show ?thesis using rec [OF late(1) _ late(3), of "k - 3"] by (simp add: crash_three)
    qed
  qed
  have unw: "unwraps C N d' (vm_key_id ?m) (vm_wmk ?m) key" using run(8) by simp
  have gen: "vm_generation ?m = vm_generation (ov_manifest h0) + 1" using h0(2) by (simp add: manifest_eq_def)
  have o: "\<exists>h2 d2. open_vault C N d' ho (crash w ?ss k) kid label = (Inr h2, d2) \<and>
       vm_generation (ov_manifest h2) = vm_generation (ov_manifest h0) + 1 \<and> same_files C (crash w ?ss k) h2 w h0"
    if "3 \<le> k" for k
    using opens_same [OF late(2) unw assms(7) _ late(3) assms(11) h0(2-4), of "k - 3"] that gen
    by (simp add: crash_three)
  have f: "vw_anchors (crash w ?ss k) = vw_anchors w" if "k < 3" for k
    using that by (simp add: crash_three)
  have l: "live C (run_steps w ?ss) key h"
    using late(2) [of "length ?gc"] run(2,6,7) assms(7) unfolding all by (simp add: live_def new_handle_def)
  have "agree w (run_steps w ?ss) (ov_manifest h0)"
    using late(3) [of "length ?gc"] manifest_eq_digests [OF h0(2)] unfolding all by (simp add: agree_def)
  then have sf: "same_files C (run_steps w ?ss) h w h0"
    using run(2) h0 by (intro same_files_intro) (simp_all add: new_handle_def manifest_eq_def)
  have len: "3 \<le> length ?ss" by simp
  show ?thesis using h0(1) run(1) r f o l sf len by blast
qed

section \<open>Rotating the passphrase\<close>

lemma unwraps_dek: "unwraps C N d kid wmk key \<Longrightarrow> \<exists>d' l. unwrap_dek C N d noop_audit [] wmk kid None = (Inr key, d', l)"
  by (auto simp: unwraps_def open_master_key_def result_iffs master_new_def split: prod.splits)

lemma rewrap_device:
  assumes "crypto_ok C K" "list_all is_scalar pass'" "pass' \<noteq> []" "draws_ok K r" "length key = 32"
    "unwraps C N d kid wmk key"
  obtains rec d' where "rewrap_from_device C N d r kid pass' wmk = (Inr rec, d')"
    "open_passphrase C rec pass' wmk = Inr (master_new key)" "recovery_blob_matches_wmk rec wmk = Inr True"
proof -
  obtain d' l where "unwrap_dek C N d noop_audit [] wmk kid None = (Inr key, d', l)"
    using unwraps_dek [OF assms(6)] by blast
  moreover obtain rec where "export_backup_blob C (dr_salt r) (dr_nonce r) key pass' (recovery_digest wmk) = Inr rec"
    "open_passphrase C rec pass' wmk = Inr (master_new key)" "recovery_blob_matches_wmk rec wmk = Inr True"
    by (rule export_import_master [OF assms(1,2,4,5)])
  ultimately show ?thesis using that assms(3) by (simp add: rewrap_from_device_def)
qed

lemma put_recovery_committed: "committed C w label key m \<Longrightarrow> committed C (run_steps w [PutRecovery rec]) label key m"
  using keeps_committed(1) [of w m "[PutRecovery rec]"] by simp

text \<open>C35: Rotating the passphrase through the device. An empty passphrase is refused before the device is
  asked. If another writer re-keyed the vault while the device prompt was open, the rotation fails
  with \<open>VaultError\<close> and writes nothing. Otherwise its one write replaces the sidecar: the
  authoritative generation and every blob stay as they are, the device still opens the vault, and
  the vault that recovered with the old passphrase recovers with the new one, to the same files and
  the same master.\<close>

theorem change_passphrase_safe:
  assumes "crypto_ok C K" "list_all is_scalar pass'" "pass' \<noteq> []" "draws_ok K r" "length key = 32" "host_ready ho"
    "committed C w label key m" "vw_recovery w \<noteq> None" "unwraps C N d kid (vm_wmk m) key"
    "committed C w' label key m'" "vm_key_id m' = kid" "cold C w' pass key m'"
  shows "change_passphrase_device C N d ho r w w' [] kid label = (Inl ValueError, d, []) \<and>
    (vm_wmk m' \<noteq> vm_wmk m \<longrightarrow>
       (\<exists>d'. change_passphrase_device C N d ho r w w' pass' kid label = (Inl VaultError, d', []))) \<and>
    (vm_wmk m' = vm_wmk m \<longrightarrow>
       (\<exists>rec d' h2 d2 h3. change_passphrase_device C N d ho r w w' pass' kid label = (Inr (), d', [PutRecovery rec]) \<and>
          open_vault C N d ho (run_steps w' [PutRecovery rec]) kid label = (Inr h2, d2) \<and>
          manifest_eq (ov_manifest h2) m' \<and>
          recover_vault C ho (run_steps w' [PutRecovery rec]) pass' = Inr h3 \<and> manifest_eq (ov_manifest h3) m' \<and>
          ov_master h3 = ov_master h2))"
proof -
  have ho: "ho_platform ho = Inr ()" "ho_dirs ho = Inr ()" using assms(6) by (simp_all add: host_ready_def)
  obtain old where old: "vw_recovery w = Some old" using assms(8) by blast
  obtain b1 v1 where l1: "load_pinned_unverified w label None = Inr (pin_of m, b1, v1)" "manifest_eq v1 m"
    by (rule load_pinned_committed [OF assms(7), of None]) simp_all
  obtain b2 v2 where l2: "load_pinned_unverified w' label None = Inr (pin_of m', b2, v2)" "manifest_eq v2 m'"
    by (rule load_pinned_committed [OF assms(10), of None]) simp_all
  have e: "vm_wmk v1 = vm_wmk m" "vm_wmk v2 = vm_wmk m'" using l1(2) l2(2) by (simp_all add: manifest_eq_def)
  obtain rec d' where r: "rewrap_from_device C N d r kid pass' (vm_wmk m) = (Inr rec, d')"
    "open_passphrase C rec pass' (vm_wmk m) = Inr (master_new key)" "recovery_blob_matches_wmk rec (vm_wmk m) = Inr True"
    by (rule rewrap_device [OF assms(1-5,9)])
  have empty: "change_passphrase_device C N d ho r w w' [] kid label = (Inl ValueError, d, [])"
    using ho old l1(1) by (simp add: change_passphrase_device_def read_recovery_blob_def rewrap_from_device_def)
  have run: "change_passphrase_device C N d ho r w w' pass' kid label =
      (if vm_wmk m' \<noteq> vm_wmk m then (Inl VaultError, d', []) else (Inr (), d', [PutRecovery rec]))"
    using ho old l1(1) l2(1) e r(1) by (simp add: change_passphrase_device_def read_recovery_blob_def)
  show ?thesis
  proof (cases "vm_wmk m' = vm_wmk m")
    case True
    let ?w = "run_steps w' [PutRecovery rec]"
    have c: "committed C ?w label key m'" by (rule put_recovery_committed [OF assms(10)])
    have u: "unwraps C N d (vm_key_id m') (vm_wmk m') key" using assms(9,11) True by simp
    obtain h2 d2 where h2: "open_vault C N d ho ?w (vm_key_id m') label = (Inr h2, d2)" "manifest_eq (ov_manifest h2) m'"
      "ov_master h2 = master_new key"
      by (rule open_committed [OF c u host_ready_opens [OF assms(6)] assms(5)])
    have "cold C ?w pass' key m'"
    proof (rule coldE [OF assms(12)])
      fix b u
      assume x: "fmlookup (vw_manifests w') (nat (vm_generation m')) = Some b" "manifest_decode C b (master_new key) = Inr u"
        "manifest_ok u" "manifest_eq u m'" "newest w' (nat (vm_generation m')) (vm_wmk m')"
        "\<forall>d \<in> digests m'. \<exists>b. fmlookup (vw_blobs w') d = Some b \<and> sha256_hex b = d"
      then have "newest ?w (nat (vm_generation m')) (vm_wmk m')" by (simp add: newest_def)
      then show ?thesis
        using x r(2,3) True by (intro cold_intro [where rec = rec and b = b and u = u]) simp_all
    qed
    then obtain h3 where "recover_vault C ho ?w pass' = Inr h3" "manifest_eq (ov_manifest h3) m'" "ov_master h3 = master_new key"
      using ho(1) by (rule recover_cold)
    with h2 assms(11) empty run True show ?thesis by auto
  qed (use empty run in simp)
qed

section \<open>Instances on a concrete vault\<close>

lemma recover_to_device_crash_safe_witness:
  "\<exists>w h0 h steps h2. recover_vault demo_crypto demo_host w [112] = Inr h0 \<and>
     recover_to_device demo_crypto (demo_native [8]) () demo_host demo_draws w [112] [107] [] = (Inr h, (), steps) \<and>
     recover_vault demo_crypto demo_host (crash w steps 1) [112] = Inr h2 \<and>
     same_files demo_crypto (crash w steps 1) h2 w h0"
proof (rule demo_vault)
  fix w h
  assume v: "cold demo_crypto w [112] demo_key (ov_manifest h)" "vm_generation (ov_manifest h) = 0"
    "\<And>g. 0 < g \<Longrightarrow> fmlookup (vw_manifests w) g = None"
  have c: "length (dec (nat (vm_generation (ov_manifest h) + 1))) \<le> max_str_digits"
    by (subst dec.simps) (simp add: v(2) max_str_digits_def)
  have f: "fresh_wmk demo_crypto (demo_native [8]) () demo_draws demo_key [107] w (ov_manifest h)"
    by (simp add: fresh_wmk_def v(2,3))
  from recover_to_device_crash_safe [OF demo_crypto_ok [of UNIV] demo_texts(1,2,3,4) demo_draws_ok length_demo_key
      UNIV_I demo_ensure [of "[8]"] demo_native_holds [of "[8]"] demo_host_ready v(1) c f, of "[]"]
  show ?thesis by blast
qed

lemma change_passphrase_safe_witness:
  "\<exists>w label rec d' h3. change_passphrase_device demo_crypto (demo_native [7]) () demo_host demo_draws w w [113] [107] label =
       (Inr (), d', [PutRecovery rec]) \<and>
     recover_vault demo_crypto demo_host (run_steps w [PutRecovery rec]) [113] = Inr h3"
proof (rule demo_vault)
  fix w h
  assume v: "live demo_crypto w demo_key h" "cold demo_crypto w [112] demo_key (ov_manifest h)"
    "vm_key_id (ov_manifest h) = [107]" "unwraps demo_crypto (demo_native [7]) () [107] (ov_wmk h) demo_key"
    "vw_recovery w \<noteq> None"
  have c: "committed demo_crypto w (ov_label h) demo_key (ov_manifest h)" using v(1) by (simp add: live_def)
  have u: "unwraps demo_crypto (demo_native [7]) () [107] (vm_wmk (ov_manifest h)) demo_key"
    using v(1,4) by (simp add: live_def)
  have p: "list_all is_scalar [113]" "[113] \<noteq> []" by (simp_all add: is_scalar_def is_surrogate_def)
  from change_passphrase_safe [OF demo_crypto_ok [of UNIV] p demo_draws_ok length_demo_key demo_host_ready c v(5) u c v(3,2)]
  show ?thesis by blast
qed

end
