(* ===== verification/Envelope.thy ===== *)
theory Envelope
  imports Kek
begin

text \<open>
  \<open>keyvault/_envelope_codec.py\<close>: the \<open>MREN\<close> envelope of a ciphertext, which carries the
  wrapped key, the hashes of the key id and of the purpose, and the AES-GCM body bound to all of
  them. The nonce is an argument.
\<close>

definition MREN_MAGIC :: bytes where
  "MREN_MAGIC = [0x4d, 0x52, 0x45, 0x4e]"

definition ENVELOPE_AAD_LEN :: nat where "ENVELOPE_AAD_LEN = 164"
definition ENVELOPE_HEADER_LEN :: nat where "ENVELOPE_HEADER_LEN = 168"

lemmas envelope_consts = ENVELOPE_AAD_LEN_def ENVELOPE_HEADER_LEN_def WRAP_HEADER_LEN_def

definition hash_id :: "py_str \<Rightarrow> bytes result" where
  "hash_id value = key_id_hash value"

definition envelope_aad :: "bytes \<Rightarrow> bytes \<Rightarrow> bytes \<Rightarrow> bytes" where
  "envelope_aad kh ph wrapped = MREN_MAGIC @ [1] @ kh @ ph @ wrapped"

definition encode_envelope_from_hashes ::
  "('x) crypto_scheme \<Rightarrow> bytes \<Rightarrow> bytes \<Rightarrow> bytes \<Rightarrow> bytes \<Rightarrow> bytes \<Rightarrow> bytes \<Rightarrow> bytes result" where
  "encode_envelope_from_hashes C nonce dek plaintext kh ph wrapped =
     (if length wrapped \<noteq> WRAP_HEADER_LEN then Inl ValueError
      else let aad = envelope_aad kh ph wrapped
        in if length aad \<noteq> ENVELOPE_AAD_LEN then Inl AssertionError
           else r_bind (gcm_seal C dek nonce plaintext aad) (\<lambda>ct_tag.
             let aes_blob = nonce @ ct_tag
             in r_bind (to_be 4 (length aes_blob)) (\<lambda>n. Inr (aad @ n @ aes_blob))))"

definition encode_envelope ::
  "('x) crypto_scheme \<Rightarrow> bytes \<Rightarrow> bytes \<Rightarrow> bytes \<Rightarrow> py_str \<Rightarrow> py_str \<Rightarrow> bytes \<Rightarrow> bytes result" where
  "encode_envelope C nonce dek plaintext kid purpose wrapped =
     r_bind (hash_id kid) (\<lambda>kh. r_bind (hash_id purpose) (\<lambda>ph.
       encode_envelope_from_hashes C nonce dek plaintext kh ph wrapped))"

definition split_envelope :: "bytes \<Rightarrow> bytes \<Rightarrow> (bytes \<times> bytes \<times> bytes \<times> bytes) result" where
  "split_envelope blob expected_key_id_hash =
     (if length blob < ENVELOPE_HEADER_LEN then Inl WrapParseError
      else if slice 0 4 blob \<noteq> MREN_MAGIC then Inl WrapParseError
      else if blob ! 4 \<noteq> 1 then Inl WrapParseError
      else if \<not> compare_digest (slice 5 21 blob) expected_key_id_hash then Inl WrapParseError
      else let declared_len = from_be (slice 164 168 blob)
        in if length blob \<noteq> ENVELOPE_HEADER_LEN + declared_len then Inl WrapParseError
           else if declared_len < NONCE_SIZE + TAG_SIZE then Inl WrapParseError
           else Inr (take ENVELOPE_AAD_LEN blob, slice 21 37 blob, slice 37 164 blob,
                     drop ENVELOPE_HEADER_LEN blob))"

definition parse_envelope :: "bytes \<Rightarrow> py_str \<Rightarrow> py_str \<Rightarrow> (bytes \<times> bytes \<times> bytes) result" where
  "parse_envelope blob expected_key_id expected_purpose =
     r_bind (hash_id expected_key_id) (\<lambda>kh.
       r_bind (split_envelope blob kh) (\<lambda>(aad, purpose_hash, wrapped, aes_blob).
         r_bind (hash_id expected_purpose) (\<lambda>ph.
           if \<not> compare_digest purpose_hash ph then Inl WrapParseError
           else Inr (aad, wrapped, aes_blob))))"

section \<open>The format\<close>

lemma split5:
  assumes "5 \<le> length b"
  shows "b = slice 0 4 b @ [b ! 4] @ drop 5 b"
  using assms append_take_drop_id [of 4 b] Cons_nth_drop_Suc [of 4 b] by simp

lemma split_envelope_iff:
  assumes "length kh = 16"
  shows "split_envelope blob kh = Inr (aad, ph, wrapped, body) \<longleftrightarrow>
     length ph = 16 \<and> length wrapped = 127 \<and> 28 \<le> length body \<and> length body < 256 ^ 4 \<and>
     aad = envelope_aad kh ph wrapped \<and> blob = aad @ be_digits 4 (length body) @ body"
  (is "?l \<longleftrightarrow> ?r")
proof
  assume l: ?l
  then have c: "168 \<le> length blob" "slice 0 4 blob = MREN_MAGIC" "blob ! 4 = 1" "slice 5 21 blob = kh"
    "length blob = 168 + from_be (slice 164 168 blob)" "28 \<le> from_be (slice 164 168 blob)"
    and p: "aad = take 164 blob" "ph = slice 21 37 blob" "wrapped = slice 37 164 blob" "body = drop 168 blob"
    by (auto simp: split_envelope_def envelope_consts NONCE_SIZE_def TAG_SIZE_def compare_digest_def Let_def
        split: if_splits)
  have "blob = MREN_MAGIC @ [1] @ drop 5 blob"
    using split5 [of blob] c(1-3) by simp
  also have "drop 5 blob = kh @ ph @ wrapped @ slice 164 168 blob @ body"
    unfolding p c(4) [symmetric] by (simp add: slice_drop)
  also have "slice 164 168 blob = be_digits 4 (length body)"
    using c(1,5) be_digits_from_be [of "slice 164 168 blob"] by (simp add: p(4))
  finally have b: "blob = envelope_aad kh ph wrapped @ be_digits 4 (length body) @ body"
    by (simp add: envelope_aad_def)
  have len: "length ph = 16" "length wrapped = 127" "28 \<le> length body" "length body < 256 ^ 4"
    using c(1,5,6) from_be_less [of "slice 164 168 blob"] by (simp_all add: p)
  have "aad = envelope_aad kh ph wrapped"
    using assms len unfolding p(1) by (subst b) (simp add: envelope_aad_def MREN_MAGIC_def)
  with b len show ?r by simp
next
  assume r: ?r
  define m where "m = MREN_MAGIC @ [1 :: byte]"
  have m: "length m = 5" "take 4 m = MREN_MAGIC" "m ! 4 = 1"
    by (simp_all add: m_def MREN_MAGIC_def)
  have b: "blob = m @ kh @ ph @ wrapped @ be_digits 4 (length body) @ body"
    and aad: "aad = m @ kh @ ph @ wrapped"
    using r by (simp_all add: envelope_aad_def m_def)
  have "slice 0 4 blob = MREN_MAGIC" "blob ! 4 = 1" "slice 5 21 blob = kh" "slice 21 37 blob = ph"
    "slice 37 164 blob = wrapped" "slice 164 168 blob = be_digits 4 (length body)" "drop 168 blob = body"
    "length blob = 168 + length body" "take 164 blob = aad"
    using m r assms unfolding b aad
    by (simp_all add: slice_append_right slice_append_left slice_full nth_append)
  then show ?l
    using r by (simp add: split_envelope_def envelope_consts NONCE_SIZE_def TAG_SIZE_def compare_digest_def
        from_be_digits)
qed

interpretation mren: strict_codec
  "\<lambda>(aad, ph, wrapped, body). length kh = 16 \<and> length ph = 16 \<and> length wrapped = 127 \<and>
     28 \<le> length body \<and> length body < 256 ^ 4 \<and> aad = envelope_aad kh ph wrapped"
  "\<lambda>(aad, ph, wrapped, body). Inr (aad @ be_digits 4 (length body) @ body)"
  "\<lambda>b. if length kh = 16 then split_envelope b kh else Inl WrapParseError" for kh
  by unfold_locales (auto simp: split_envelope_iff split: if_splits prod.splits)

lemma hash_id_length: "hash_id v = Inr h \<Longrightarrow> length h = 16"
  by (simp add: hash_id_def length_key_id_hash)

text \<open>An envelope written for a key id and a purpose parses for exactly that key id and purpose to
  the wrapped key and to a body that decrypts to the plaintext under the associated data returned,
  which is the first 164 bytes (magic, version, both hashes, wrapped key); conversely, whatever parses
  is laid out that way, carries the hash of the expected key id and purpose and at least a nonce and
  a tag of body.\<close>

lemma envelope_roundtrip_strict:
  assumes "hash_id kid = Inr kh" "hash_id purpose = Inr ph"
  shows "(sealable C nonce dek (envelope_aad kh ph wrapped) p \<and> length wrapped = 127 \<and> length p + 28 < 2 ^ 31 \<longrightarrow>
      (\<exists>blob body. encode_envelope C nonce dek p kid purpose wrapped = Inr blob \<and>
         parse_envelope blob kid purpose = Inr (envelope_aad kh ph wrapped, wrapped, body) \<and>
         aead_decrypt C dek body (envelope_aad kh ph wrapped) = Inr p)) \<and>
    (parse_envelope blob kid purpose = Inr (aad, wrapped', body') \<longrightarrow>
       aad = take 164 blob \<and> aad = envelope_aad kh ph wrapped' \<and> length wrapped' = 127 \<and>
       blob = aad @ be_digits 4 (length body') @ body' \<and> 28 \<le> length body')"
proof (intro conjI impI, elim conjE)
  assume s: "sealable C nonce dek (envelope_aad kh ph wrapped) p" "length wrapped = 127" "length p + 28 < 2 ^ 31"
  let ?aad = "envelope_aad kh ph wrapped"
  have len: "length kh = 16" "length ph = 16" using assms by (auto dest: hash_id_length)
  then have aad: "length ?aad = 164" using s(2) by (simp add: envelope_aad_def MREN_MAGIC_def)
  from aead_decrypt_encrypt [OF s(1)] obtain body where body: "aead_encrypt C nonce dek p ?aad = Inr body"
    "length body = length p + 28" "aead_decrypt C dek body ?aad = Inr p" by blast
  from body(1) obtain ct where ct: "gcm_seal C dek nonce p ?aad = Inr ct" "body = nonce @ ct"
    by (auto simp: aead_encrypt_def result_iffs)
  have small: "length body < 256 ^ 4" using body(2) s(3) by simp
  then have "encode_envelope C nonce dek p kid purpose wrapped = Inr (?aad @ be_digits 4 (length body) @ body)"
    using assms aad s(2) ct
    by (simp add: encode_envelope_def encode_envelope_from_hashes_def envelope_consts to_be_def Let_def)
  moreover have "split_envelope (?aad @ be_digits 4 (length body) @ body) kh = Inr (?aad, ph, wrapped, body)"
    using len s(2) body(2) small by (simp add: split_envelope_iff)
  then have "parse_envelope (?aad @ be_digits 4 (length body) @ body) kid purpose = Inr (?aad, wrapped, body)"
    using assms by (simp add: parse_envelope_def compare_digest_def)
  ultimately show "\<exists>blob body. encode_envelope C nonce dek p kid purpose wrapped = Inr blob \<and>
         parse_envelope blob kid purpose = Inr (?aad, wrapped, body) \<and> aead_decrypt C dek body ?aad = Inr p"
    using body(3) by blast
next
  assume "parse_envelope blob kid purpose = Inr (aad, wrapped', body')"
  then have "split_envelope blob kh = Inr (aad, ph, wrapped', body')"
    using assms by (auto simp: parse_envelope_def compare_digest_def result_iffs split: if_splits)
  then have r: "length wrapped' = 127" "28 \<le> length body'" "aad = envelope_aad kh ph wrapped'"
    "blob = aad @ be_digits 4 (length body') @ body'" "length ph = 16" "length kh = 16"
    using assms split_envelope_iff [of kh] by (auto dest: hash_id_length)
  moreover have "length aad = 164" using r by (simp add: envelope_aad_def MREN_MAGIC_def)
  ultimately show "aad = take 164 blob" "aad = envelope_aad kh ph wrapped'" "length wrapped' = 127"
    "blob = aad @ be_digits 4 (length body') @ body'" "28 \<le> length body'" by simp_all
qed

lemma envelope_roundtrip_strict_witness:
  "\<exists>aad blob body. encode_envelope demo_crypto (replicate 12 0) (replicate 32 1) [42] [107] [112] (replicate 127 3) = Inr blob \<and>
     parse_envelope blob [107] [112] = Inr (aad, replicate 127 3, body) \<and>
     aead_decrypt demo_crypto (replicate 32 1) body aad = Inr [42]"
proof -
  obtain kh ph where h: "hash_id [107] = Inr kh" "hash_id [112] = Inr ph"
    using key_id_hash_ok [of "[107]"] key_id_hash_ok [of "[112]"]
    by (auto simp: hash_id_def is_scalar_def is_surrogate_def)
  have "sealable demo_crypto (replicate 12 0) (replicate 32 1) (envelope_aad kh ph (replicate 127 3)) [42]"
    using crypto_okD(1) [OF demo_crypto_ok] hash_id_length [OF h(1)] hash_id_length [OF h(2)]
    by (simp add: sealable_def gcm_limit_def envelope_aad_def MREN_MAGIC_def)
  then have "\<exists>blob body.
      encode_envelope demo_crypto (replicate 12 0) (replicate 32 1) [42] [107] [112] (replicate 127 3) = Inr blob \<and>
      parse_envelope blob [107] [112] = Inr (envelope_aad kh ph (replicate 127 3), replicate 127 3, body) \<and>
      aead_decrypt demo_crypto (replicate 32 1) body (envelope_aad kh ph (replicate 127 3)) = Inr [42]"
    by (intro envelope_roundtrip_strict [OF h, THEN conjunct1, THEN mp]) simp
  then show ?thesis by blast
qed

end
