(* ===== verification/Bip39_Words.thy ===== *)
theory Bip39_Words
  imports Py_Str
begin

text \<open>
  \<open>keyvault/_bip39_wordlist.txt\<close>: the 2048 English words in the order of the file, in rows of 64, and
  what the mnemonic codec relies on: there are 2048, they are distinct (the file is in strictly
  ascending order), and each is a non-empty word of lower-case ASCII letters.
\<close>

section \<open>Checking a row\<close>

fun less_str :: "string \<Rightarrow> string \<Rightarrow> bool" where
  "less_str s [] \<longleftrightarrow> False"
| "less_str [] (d # ds) \<longleftrightarrow> True"
| "less_str (c # cs) (d # ds) \<longleftrightarrow> (if c = d then less_str cs ds else of_char c < (of_char d :: nat))"

fun ascending :: "string list \<Rightarrow> bool" where
  "ascending (a # b # r) \<longleftrightarrow> less_str a b \<and> ascending (b # r)"
| "ascending _ \<longleftrightarrow> True"

definition letters :: "string \<Rightarrow> bool" where
  "letters w \<longleftrightarrow> w \<noteq> [] \<and> list_all (\<lambda>c. 97 \<le> (of_char c :: nat) \<and> of_char c \<le> (122 :: nat)) w"

section \<open>The words\<close>

definition words_00 :: "string list" where
  "words_00 =
    [''abandon'', ''ability'', ''able'', ''about'', ''above'', ''absent'', ''absorb'', ''abstract'',
      ''absurd'', ''abuse'', ''access'', ''accident'', ''account'', ''accuse'', ''achieve'', ''acid'',
      ''acoustic'', ''acquire'', ''across'', ''act'', ''action'', ''actor'', ''actress'', ''actual'',
      ''adapt'', ''add'', ''addict'', ''address'', ''adjust'', ''admit'', ''adult'', ''advance'',
      ''advice'', ''aerobic'', ''affair'', ''afford'', ''afraid'', ''again'', ''age'', ''agent'',
      ''agree'', ''ahead'', ''aim'', ''air'', ''airport'', ''aisle'', ''alarm'', ''album'', ''alcohol'',
      ''alert'', ''alien'', ''all'', ''alley'', ''allow'', ''almost'', ''alone'', ''alpha'',
      ''already'', ''also'', ''alter'', ''always'', ''amateur'', ''amazing'', ''among'']"

definition words_01 :: "string list" where
  "words_01 =
    [''amount'', ''amused'', ''analyst'', ''anchor'', ''ancient'', ''anger'', ''angle'', ''angry'',
      ''animal'', ''ankle'', ''announce'', ''annual'', ''another'', ''answer'', ''antenna'',
      ''antique'', ''anxiety'', ''any'', ''apart'', ''apology'', ''appear'', ''apple'', ''approve'',
      ''april'', ''arch'', ''arctic'', ''area'', ''arena'', ''argue'', ''arm'', ''armed'', ''armor'',
      ''army'', ''around'', ''arrange'', ''arrest'', ''arrive'', ''arrow'', ''art'', ''artefact'',
      ''artist'', ''artwork'', ''ask'', ''aspect'', ''assault'', ''asset'', ''assist'', ''assume'',
      ''asthma'', ''athlete'', ''atom'', ''attack'', ''attend'', ''attitude'', ''attract'', ''auction'',
      ''audit'', ''august'', ''aunt'', ''author'', ''auto'', ''autumn'', ''average'', ''avocado'']"

definition words_02 :: "string list" where
  "words_02 =
    [''avoid'', ''awake'', ''aware'', ''away'', ''awesome'', ''awful'', ''awkward'', ''axis'',
      ''baby'', ''bachelor'', ''bacon'', ''badge'', ''bag'', ''balance'', ''balcony'', ''ball'',
      ''bamboo'', ''banana'', ''banner'', ''bar'', ''barely'', ''bargain'', ''barrel'', ''base'',
      ''basic'', ''basket'', ''battle'', ''beach'', ''bean'', ''beauty'', ''because'', ''become'',
      ''beef'', ''before'', ''begin'', ''behave'', ''behind'', ''believe'', ''below'', ''belt'',
      ''bench'', ''benefit'', ''best'', ''betray'', ''better'', ''between'', ''beyond'', ''bicycle'',
      ''bid'', ''bike'', ''bind'', ''biology'', ''bird'', ''birth'', ''bitter'', ''black'', ''blade'',
      ''blame'', ''blanket'', ''blast'', ''bleak'', ''bless'', ''blind'', ''blood'']"

definition words_03 :: "string list" where
  "words_03 =
    [''blossom'', ''blouse'', ''blue'', ''blur'', ''blush'', ''board'', ''boat'', ''body'', ''boil'',
      ''bomb'', ''bone'', ''bonus'', ''book'', ''boost'', ''border'', ''boring'', ''borrow'', ''boss'',
      ''bottom'', ''bounce'', ''box'', ''boy'', ''bracket'', ''brain'', ''brand'', ''brass'', ''brave'',
      ''bread'', ''breeze'', ''brick'', ''bridge'', ''brief'', ''bright'', ''bring'', ''brisk'',
      ''broccoli'', ''broken'', ''bronze'', ''broom'', ''brother'', ''brown'', ''brush'', ''bubble'',
      ''buddy'', ''budget'', ''buffalo'', ''build'', ''bulb'', ''bulk'', ''bullet'', ''bundle'',
      ''bunker'', ''burden'', ''burger'', ''burst'', ''bus'', ''business'', ''busy'', ''butter'',
      ''buyer'', ''buzz'', ''cabbage'', ''cabin'', ''cable'']"

definition words_04 :: "string list" where
  "words_04 =
    [''cactus'', ''cage'', ''cake'', ''call'', ''calm'', ''camera'', ''camp'', ''can'', ''canal'',
      ''cancel'', ''candy'', ''cannon'', ''canoe'', ''canvas'', ''canyon'', ''capable'', ''capital'',
      ''captain'', ''car'', ''carbon'', ''card'', ''cargo'', ''carpet'', ''carry'', ''cart'', ''case'',
      ''cash'', ''casino'', ''castle'', ''casual'', ''cat'', ''catalog'', ''catch'', ''category'',
      ''cattle'', ''caught'', ''cause'', ''caution'', ''cave'', ''ceiling'', ''celery'', ''cement'',
      ''census'', ''century'', ''cereal'', ''certain'', ''chair'', ''chalk'', ''champion'', ''change'',
      ''chaos'', ''chapter'', ''charge'', ''chase'', ''chat'', ''cheap'', ''check'', ''cheese'',
      ''chef'', ''cherry'', ''chest'', ''chicken'', ''chief'', ''child'']"

definition words_05 :: "string list" where
  "words_05 =
    [''chimney'', ''choice'', ''choose'', ''chronic'', ''chuckle'', ''chunk'', ''churn'', ''cigar'',
      ''cinnamon'', ''circle'', ''citizen'', ''city'', ''civil'', ''claim'', ''clap'', ''clarify'',
      ''claw'', ''clay'', ''clean'', ''clerk'', ''clever'', ''click'', ''client'', ''cliff'', ''climb'',
      ''clinic'', ''clip'', ''clock'', ''clog'', ''close'', ''cloth'', ''cloud'', ''clown'', ''club'',
      ''clump'', ''cluster'', ''clutch'', ''coach'', ''coast'', ''coconut'', ''code'', ''coffee'',
      ''coil'', ''coin'', ''collect'', ''color'', ''column'', ''combine'', ''come'', ''comfort'',
      ''comic'', ''common'', ''company'', ''concert'', ''conduct'', ''confirm'', ''congress'',
      ''connect'', ''consider'', ''control'', ''convince'', ''cook'', ''cool'', ''copper'']"

definition words_06 :: "string list" where
  "words_06 =
    [''copy'', ''coral'', ''core'', ''corn'', ''correct'', ''cost'', ''cotton'', ''couch'',
      ''country'', ''couple'', ''course'', ''cousin'', ''cover'', ''coyote'', ''crack'', ''cradle'',
      ''craft'', ''cram'', ''crane'', ''crash'', ''crater'', ''crawl'', ''crazy'', ''cream'',
      ''credit'', ''creek'', ''crew'', ''cricket'', ''crime'', ''crisp'', ''critic'', ''crop'',
      ''cross'', ''crouch'', ''crowd'', ''crucial'', ''cruel'', ''cruise'', ''crumble'', ''crunch'',
      ''crush'', ''cry'', ''crystal'', ''cube'', ''culture'', ''cup'', ''cupboard'', ''curious'',
      ''current'', ''curtain'', ''curve'', ''cushion'', ''custom'', ''cute'', ''cycle'', ''dad'',
      ''damage'', ''damp'', ''dance'', ''danger'', ''daring'', ''dash'', ''daughter'', ''dawn'']"

definition words_07 :: "string list" where
  "words_07 =
    [''day'', ''deal'', ''debate'', ''debris'', ''decade'', ''december'', ''decide'', ''decline'',
      ''decorate'', ''decrease'', ''deer'', ''defense'', ''define'', ''defy'', ''degree'', ''delay'',
      ''deliver'', ''demand'', ''demise'', ''denial'', ''dentist'', ''deny'', ''depart'', ''depend'',
      ''deposit'', ''depth'', ''deputy'', ''derive'', ''describe'', ''desert'', ''design'', ''desk'',
      ''despair'', ''destroy'', ''detail'', ''detect'', ''develop'', ''device'', ''devote'',
      ''diagram'', ''dial'', ''diamond'', ''diary'', ''dice'', ''diesel'', ''diet'', ''differ'',
      ''digital'', ''dignity'', ''dilemma'', ''dinner'', ''dinosaur'', ''direct'', ''dirt'',
      ''disagree'', ''discover'', ''disease'', ''dish'', ''dismiss'', ''disorder'', ''display'',
      ''distance'', ''divert'', ''divide'']"

definition words_08 :: "string list" where
  "words_08 =
    [''divorce'', ''dizzy'', ''doctor'', ''document'', ''dog'', ''doll'', ''dolphin'', ''domain'',
      ''donate'', ''donkey'', ''donor'', ''door'', ''dose'', ''double'', ''dove'', ''draft'',
      ''dragon'', ''drama'', ''drastic'', ''draw'', ''dream'', ''dress'', ''drift'', ''drill'',
      ''drink'', ''drip'', ''drive'', ''drop'', ''drum'', ''dry'', ''duck'', ''dumb'', ''dune'',
      ''during'', ''dust'', ''dutch'', ''duty'', ''dwarf'', ''dynamic'', ''eager'', ''eagle'',
      ''early'', ''earn'', ''earth'', ''easily'', ''east'', ''easy'', ''echo'', ''ecology'',
      ''economy'', ''edge'', ''edit'', ''educate'', ''effort'', ''egg'', ''eight'', ''either'',
      ''elbow'', ''elder'', ''electric'', ''elegant'', ''element'', ''elephant'', ''elevator'']"

definition words_09 :: "string list" where
  "words_09 =
    [''elite'', ''else'', ''embark'', ''embody'', ''embrace'', ''emerge'', ''emotion'', ''employ'',
      ''empower'', ''empty'', ''enable'', ''enact'', ''end'', ''endless'', ''endorse'', ''enemy'',
      ''energy'', ''enforce'', ''engage'', ''engine'', ''enhance'', ''enjoy'', ''enlist'', ''enough'',
      ''enrich'', ''enroll'', ''ensure'', ''enter'', ''entire'', ''entry'', ''envelope'', ''episode'',
      ''equal'', ''equip'', ''era'', ''erase'', ''erode'', ''erosion'', ''error'', ''erupt'',
      ''escape'', ''essay'', ''essence'', ''estate'', ''eternal'', ''ethics'', ''evidence'', ''evil'',
      ''evoke'', ''evolve'', ''exact'', ''example'', ''excess'', ''exchange'', ''excite'', ''exclude'',
      ''excuse'', ''execute'', ''exercise'', ''exhaust'', ''exhibit'', ''exile'', ''exist'', ''exit'']"

definition words_10 :: "string list" where
  "words_10 =
    [''exotic'', ''expand'', ''expect'', ''expire'', ''explain'', ''expose'', ''express'', ''extend'',
      ''extra'', ''eye'', ''eyebrow'', ''fabric'', ''face'', ''faculty'', ''fade'', ''faint'',
      ''faith'', ''fall'', ''false'', ''fame'', ''family'', ''famous'', ''fan'', ''fancy'', ''fantasy'',
      ''farm'', ''fashion'', ''fat'', ''fatal'', ''father'', ''fatigue'', ''fault'', ''favorite'',
      ''feature'', ''february'', ''federal'', ''fee'', ''feed'', ''feel'', ''female'', ''fence'',
      ''festival'', ''fetch'', ''fever'', ''few'', ''fiber'', ''fiction'', ''field'', ''figure'',
      ''file'', ''film'', ''filter'', ''final'', ''find'', ''fine'', ''finger'', ''finish'', ''fire'',
      ''firm'', ''first'', ''fiscal'', ''fish'', ''fit'', ''fitness'']"

definition words_11 :: "string list" where
  "words_11 =
    [''fix'', ''flag'', ''flame'', ''flash'', ''flat'', ''flavor'', ''flee'', ''flight'', ''flip'',
      ''float'', ''flock'', ''floor'', ''flower'', ''fluid'', ''flush'', ''fly'', ''foam'', ''focus'',
      ''fog'', ''foil'', ''fold'', ''follow'', ''food'', ''foot'', ''force'', ''forest'', ''forget'',
      ''fork'', ''fortune'', ''forum'', ''forward'', ''fossil'', ''foster'', ''found'', ''fox'',
      ''fragile'', ''frame'', ''frequent'', ''fresh'', ''friend'', ''fringe'', ''frog'', ''front'',
      ''frost'', ''frown'', ''frozen'', ''fruit'', ''fuel'', ''fun'', ''funny'', ''furnace'', ''fury'',
      ''future'', ''gadget'', ''gain'', ''galaxy'', ''gallery'', ''game'', ''gap'', ''garage'',
      ''garbage'', ''garden'', ''garlic'', ''garment'']"

definition words_12 :: "string list" where
  "words_12 =
    [''gas'', ''gasp'', ''gate'', ''gather'', ''gauge'', ''gaze'', ''general'', ''genius'', ''genre'',
      ''gentle'', ''genuine'', ''gesture'', ''ghost'', ''giant'', ''gift'', ''giggle'', ''ginger'',
      ''giraffe'', ''girl'', ''give'', ''glad'', ''glance'', ''glare'', ''glass'', ''glide'',
      ''glimpse'', ''globe'', ''gloom'', ''glory'', ''glove'', ''glow'', ''glue'', ''goat'',
      ''goddess'', ''gold'', ''good'', ''goose'', ''gorilla'', ''gospel'', ''gossip'', ''govern'',
      ''gown'', ''grab'', ''grace'', ''grain'', ''grant'', ''grape'', ''grass'', ''gravity'', ''great'',
      ''green'', ''grid'', ''grief'', ''grit'', ''grocery'', ''group'', ''grow'', ''grunt'', ''guard'',
      ''guess'', ''guide'', ''guilt'', ''guitar'', ''gun'']"

definition words_13 :: "string list" where
  "words_13 =
    [''gym'', ''habit'', ''hair'', ''half'', ''hammer'', ''hamster'', ''hand'', ''happy'', ''harbor'',
      ''hard'', ''harsh'', ''harvest'', ''hat'', ''have'', ''hawk'', ''hazard'', ''head'', ''health'',
      ''heart'', ''heavy'', ''hedgehog'', ''height'', ''hello'', ''helmet'', ''help'', ''hen'',
      ''hero'', ''hidden'', ''high'', ''hill'', ''hint'', ''hip'', ''hire'', ''history'', ''hobby'',
      ''hockey'', ''hold'', ''hole'', ''holiday'', ''hollow'', ''home'', ''honey'', ''hood'', ''hope'',
      ''horn'', ''horror'', ''horse'', ''hospital'', ''host'', ''hotel'', ''hour'', ''hover'', ''hub'',
      ''huge'', ''human'', ''humble'', ''humor'', ''hundred'', ''hungry'', ''hunt'', ''hurdle'',
      ''hurry'', ''hurt'', ''husband'']"

definition words_14 :: "string list" where
  "words_14 =
    [''hybrid'', ''ice'', ''icon'', ''idea'', ''identify'', ''idle'', ''ignore'', ''ill'', ''illegal'',
      ''illness'', ''image'', ''imitate'', ''immense'', ''immune'', ''impact'', ''impose'', ''improve'',
      ''impulse'', ''inch'', ''include'', ''income'', ''increase'', ''index'', ''indicate'', ''indoor'',
      ''industry'', ''infant'', ''inflict'', ''inform'', ''inhale'', ''inherit'', ''initial'',
      ''inject'', ''injury'', ''inmate'', ''inner'', ''innocent'', ''input'', ''inquiry'', ''insane'',
      ''insect'', ''inside'', ''inspire'', ''install'', ''intact'', ''interest'', ''into'', ''invest'',
      ''invite'', ''involve'', ''iron'', ''island'', ''isolate'', ''issue'', ''item'', ''ivory'',
      ''jacket'', ''jaguar'', ''jar'', ''jazz'', ''jealous'', ''jeans'', ''jelly'', ''jewel'']"

definition words_15 :: "string list" where
  "words_15 =
    [''job'', ''join'', ''joke'', ''journey'', ''joy'', ''judge'', ''juice'', ''jump'', ''jungle'',
      ''junior'', ''junk'', ''just'', ''kangaroo'', ''keen'', ''keep'', ''ketchup'', ''key'', ''kick'',
      ''kid'', ''kidney'', ''kind'', ''kingdom'', ''kiss'', ''kit'', ''kitchen'', ''kite'', ''kitten'',
      ''kiwi'', ''knee'', ''knife'', ''knock'', ''know'', ''lab'', ''label'', ''labor'', ''ladder'',
      ''lady'', ''lake'', ''lamp'', ''language'', ''laptop'', ''large'', ''later'', ''latin'',
      ''laugh'', ''laundry'', ''lava'', ''law'', ''lawn'', ''lawsuit'', ''layer'', ''lazy'', ''leader'',
      ''leaf'', ''learn'', ''leave'', ''lecture'', ''left'', ''leg'', ''legal'', ''legend'',
      ''leisure'', ''lemon'', ''lend'']"

definition words_16 :: "string list" where
  "words_16 =
    [''length'', ''lens'', ''leopard'', ''lesson'', ''letter'', ''level'', ''liar'', ''liberty'',
      ''library'', ''license'', ''life'', ''lift'', ''light'', ''like'', ''limb'', ''limit'', ''link'',
      ''lion'', ''liquid'', ''list'', ''little'', ''live'', ''lizard'', ''load'', ''loan'', ''lobster'',
      ''local'', ''lock'', ''logic'', ''lonely'', ''long'', ''loop'', ''lottery'', ''loud'', ''lounge'',
      ''love'', ''loyal'', ''lucky'', ''luggage'', ''lumber'', ''lunar'', ''lunch'', ''luxury'',
      ''lyrics'', ''machine'', ''mad'', ''magic'', ''magnet'', ''maid'', ''mail'', ''main'', ''major'',
      ''make'', ''mammal'', ''man'', ''manage'', ''mandate'', ''mango'', ''mansion'', ''manual'',
      ''maple'', ''marble'', ''march'', ''margin'']"

definition words_17 :: "string list" where
  "words_17 =
    [''marine'', ''market'', ''marriage'', ''mask'', ''mass'', ''master'', ''match'', ''material'',
      ''math'', ''matrix'', ''matter'', ''maximum'', ''maze'', ''meadow'', ''mean'', ''measure'',
      ''meat'', ''mechanic'', ''medal'', ''media'', ''melody'', ''melt'', ''member'', ''memory'',
      ''mention'', ''menu'', ''mercy'', ''merge'', ''merit'', ''merry'', ''mesh'', ''message'',
      ''metal'', ''method'', ''middle'', ''midnight'', ''milk'', ''million'', ''mimic'', ''mind'',
      ''minimum'', ''minor'', ''minute'', ''miracle'', ''mirror'', ''misery'', ''miss'', ''mistake'',
      ''mix'', ''mixed'', ''mixture'', ''mobile'', ''model'', ''modify'', ''mom'', ''moment'',
      ''monitor'', ''monkey'', ''monster'', ''month'', ''moon'', ''moral'', ''more'', ''morning'']"

definition words_18 :: "string list" where
  "words_18 =
    [''mosquito'', ''mother'', ''motion'', ''motor'', ''mountain'', ''mouse'', ''move'', ''movie'',
      ''much'', ''muffin'', ''mule'', ''multiply'', ''muscle'', ''museum'', ''mushroom'', ''music'',
      ''must'', ''mutual'', ''myself'', ''mystery'', ''myth'', ''naive'', ''name'', ''napkin'',
      ''narrow'', ''nasty'', ''nation'', ''nature'', ''near'', ''neck'', ''need'', ''negative'',
      ''neglect'', ''neither'', ''nephew'', ''nerve'', ''nest'', ''net'', ''network'', ''neutral'',
      ''never'', ''news'', ''next'', ''nice'', ''night'', ''noble'', ''noise'', ''nominee'', ''noodle'',
      ''normal'', ''north'', ''nose'', ''notable'', ''note'', ''nothing'', ''notice'', ''novel'',
      ''now'', ''nuclear'', ''number'', ''nurse'', ''nut'', ''oak'', ''obey'']"

definition words_19 :: "string list" where
  "words_19 =
    [''object'', ''oblige'', ''obscure'', ''observe'', ''obtain'', ''obvious'', ''occur'', ''ocean'',
      ''october'', ''odor'', ''off'', ''offer'', ''office'', ''often'', ''oil'', ''okay'', ''old'',
      ''olive'', ''olympic'', ''omit'', ''once'', ''one'', ''onion'', ''online'', ''only'', ''open'',
      ''opera'', ''opinion'', ''oppose'', ''option'', ''orange'', ''orbit'', ''orchard'', ''order'',
      ''ordinary'', ''organ'', ''orient'', ''original'', ''orphan'', ''ostrich'', ''other'',
      ''outdoor'', ''outer'', ''output'', ''outside'', ''oval'', ''oven'', ''over'', ''own'', ''owner'',
      ''oxygen'', ''oyster'', ''ozone'', ''pact'', ''paddle'', ''page'', ''pair'', ''palace'', ''palm'',
      ''panda'', ''panel'', ''panic'', ''panther'', ''paper'']"

definition words_20 :: "string list" where
  "words_20 =
    [''parade'', ''parent'', ''park'', ''parrot'', ''party'', ''pass'', ''patch'', ''path'',
      ''patient'', ''patrol'', ''pattern'', ''pause'', ''pave'', ''payment'', ''peace'', ''peanut'',
      ''pear'', ''peasant'', ''pelican'', ''pen'', ''penalty'', ''pencil'', ''people'', ''pepper'',
      ''perfect'', ''permit'', ''person'', ''pet'', ''phone'', ''photo'', ''phrase'', ''physical'',
      ''piano'', ''picnic'', ''picture'', ''piece'', ''pig'', ''pigeon'', ''pill'', ''pilot'', ''pink'',
      ''pioneer'', ''pipe'', ''pistol'', ''pitch'', ''pizza'', ''place'', ''planet'', ''plastic'',
      ''plate'', ''play'', ''please'', ''pledge'', ''pluck'', ''plug'', ''plunge'', ''poem'', ''poet'',
      ''point'', ''polar'', ''pole'', ''police'', ''pond'', ''pony'']"

definition words_21 :: "string list" where
  "words_21 =
    [''pool'', ''popular'', ''portion'', ''position'', ''possible'', ''post'', ''potato'', ''pottery'',
      ''poverty'', ''powder'', ''power'', ''practice'', ''praise'', ''predict'', ''prefer'',
      ''prepare'', ''present'', ''pretty'', ''prevent'', ''price'', ''pride'', ''primary'', ''print'',
      ''priority'', ''prison'', ''private'', ''prize'', ''problem'', ''process'', ''produce'',
      ''profit'', ''program'', ''project'', ''promote'', ''proof'', ''property'', ''prosper'',
      ''protect'', ''proud'', ''provide'', ''public'', ''pudding'', ''pull'', ''pulp'', ''pulse'',
      ''pumpkin'', ''punch'', ''pupil'', ''puppy'', ''purchase'', ''purity'', ''purpose'', ''purse'',
      ''push'', ''put'', ''puzzle'', ''pyramid'', ''quality'', ''quantum'', ''quarter'', ''question'',
      ''quick'', ''quit'', ''quiz'']"

definition words_22 :: "string list" where
  "words_22 =
    [''quote'', ''rabbit'', ''raccoon'', ''race'', ''rack'', ''radar'', ''radio'', ''rail'', ''rain'',
      ''raise'', ''rally'', ''ramp'', ''ranch'', ''random'', ''range'', ''rapid'', ''rare'', ''rate'',
      ''rather'', ''raven'', ''raw'', ''razor'', ''ready'', ''real'', ''reason'', ''rebel'',
      ''rebuild'', ''recall'', ''receive'', ''recipe'', ''record'', ''recycle'', ''reduce'',
      ''reflect'', ''reform'', ''refuse'', ''region'', ''regret'', ''regular'', ''reject'', ''relax'',
      ''release'', ''relief'', ''rely'', ''remain'', ''remember'', ''remind'', ''remove'', ''render'',
      ''renew'', ''rent'', ''reopen'', ''repair'', ''repeat'', ''replace'', ''report'', ''require'',
      ''rescue'', ''resemble'', ''resist'', ''resource'', ''response'', ''result'', ''retire'']"

definition words_23 :: "string list" where
  "words_23 =
    [''retreat'', ''return'', ''reunion'', ''reveal'', ''review'', ''reward'', ''rhythm'', ''rib'',
      ''ribbon'', ''rice'', ''rich'', ''ride'', ''ridge'', ''rifle'', ''right'', ''rigid'', ''ring'',
      ''riot'', ''ripple'', ''risk'', ''ritual'', ''rival'', ''river'', ''road'', ''roast'', ''robot'',
      ''robust'', ''rocket'', ''romance'', ''roof'', ''rookie'', ''room'', ''rose'', ''rotate'',
      ''rough'', ''round'', ''route'', ''royal'', ''rubber'', ''rude'', ''rug'', ''rule'', ''run'',
      ''runway'', ''rural'', ''sad'', ''saddle'', ''sadness'', ''safe'', ''sail'', ''salad'',
      ''salmon'', ''salon'', ''salt'', ''salute'', ''same'', ''sample'', ''sand'', ''satisfy'',
      ''satoshi'', ''sauce'', ''sausage'', ''save'', ''say'']"

definition words_24 :: "string list" where
  "words_24 =
    [''scale'', ''scan'', ''scare'', ''scatter'', ''scene'', ''scheme'', ''school'', ''science'',
      ''scissors'', ''scorpion'', ''scout'', ''scrap'', ''screen'', ''script'', ''scrub'', ''sea'',
      ''search'', ''season'', ''seat'', ''second'', ''secret'', ''section'', ''security'', ''seed'',
      ''seek'', ''segment'', ''select'', ''sell'', ''seminar'', ''senior'', ''sense'', ''sentence'',
      ''series'', ''service'', ''session'', ''settle'', ''setup'', ''seven'', ''shadow'', ''shaft'',
      ''shallow'', ''share'', ''shed'', ''shell'', ''sheriff'', ''shield'', ''shift'', ''shine'',
      ''ship'', ''shiver'', ''shock'', ''shoe'', ''shoot'', ''shop'', ''short'', ''shoulder'',
      ''shove'', ''shrimp'', ''shrug'', ''shuffle'', ''shy'', ''sibling'', ''sick'', ''side'']"

definition words_25 :: "string list" where
  "words_25 =
    [''siege'', ''sight'', ''sign'', ''silent'', ''silk'', ''silly'', ''silver'', ''similar'',
      ''simple'', ''since'', ''sing'', ''siren'', ''sister'', ''situate'', ''six'', ''size'', ''skate'',
      ''sketch'', ''ski'', ''skill'', ''skin'', ''skirt'', ''skull'', ''slab'', ''slam'', ''sleep'',
      ''slender'', ''slice'', ''slide'', ''slight'', ''slim'', ''slogan'', ''slot'', ''slow'',
      ''slush'', ''small'', ''smart'', ''smile'', ''smoke'', ''smooth'', ''snack'', ''snake'', ''snap'',
      ''sniff'', ''snow'', ''soap'', ''soccer'', ''social'', ''sock'', ''soda'', ''soft'', ''solar'',
      ''soldier'', ''solid'', ''solution'', ''solve'', ''someone'', ''song'', ''soon'', ''sorry'',
      ''sort'', ''soul'', ''sound'', ''soup'']"

definition words_26 :: "string list" where
  "words_26 =
    [''source'', ''south'', ''space'', ''spare'', ''spatial'', ''spawn'', ''speak'', ''special'',
      ''speed'', ''spell'', ''spend'', ''sphere'', ''spice'', ''spider'', ''spike'', ''spin'',
      ''spirit'', ''split'', ''spoil'', ''sponsor'', ''spoon'', ''sport'', ''spot'', ''spray'',
      ''spread'', ''spring'', ''spy'', ''square'', ''squeeze'', ''squirrel'', ''stable'', ''stadium'',
      ''staff'', ''stage'', ''stairs'', ''stamp'', ''stand'', ''start'', ''state'', ''stay'', ''steak'',
      ''steel'', ''stem'', ''step'', ''stereo'', ''stick'', ''still'', ''sting'', ''stock'',
      ''stomach'', ''stone'', ''stool'', ''story'', ''stove'', ''strategy'', ''street'', ''strike'',
      ''strong'', ''struggle'', ''student'', ''stuff'', ''stumble'', ''style'', ''subject'']"

definition words_27 :: "string list" where
  "words_27 =
    [''submit'', ''subway'', ''success'', ''such'', ''sudden'', ''suffer'', ''sugar'', ''suggest'',
      ''suit'', ''summer'', ''sun'', ''sunny'', ''sunset'', ''super'', ''supply'', ''supreme'',
      ''sure'', ''surface'', ''surge'', ''surprise'', ''surround'', ''survey'', ''suspect'',
      ''sustain'', ''swallow'', ''swamp'', ''swap'', ''swarm'', ''swear'', ''sweet'', ''swift'',
      ''swim'', ''swing'', ''switch'', ''sword'', ''symbol'', ''symptom'', ''syrup'', ''system'',
      ''table'', ''tackle'', ''tag'', ''tail'', ''talent'', ''talk'', ''tank'', ''tape'', ''target'',
      ''task'', ''taste'', ''tattoo'', ''taxi'', ''teach'', ''team'', ''tell'', ''ten'', ''tenant'',
      ''tennis'', ''tent'', ''term'', ''test'', ''text'', ''thank'', ''that'']"

definition words_28 :: "string list" where
  "words_28 =
    [''theme'', ''then'', ''theory'', ''there'', ''they'', ''thing'', ''this'', ''thought'', ''three'',
      ''thrive'', ''throw'', ''thumb'', ''thunder'', ''ticket'', ''tide'', ''tiger'', ''tilt'',
      ''timber'', ''time'', ''tiny'', ''tip'', ''tired'', ''tissue'', ''title'', ''toast'', ''tobacco'',
      ''today'', ''toddler'', ''toe'', ''together'', ''toilet'', ''token'', ''tomato'', ''tomorrow'',
      ''tone'', ''tongue'', ''tonight'', ''tool'', ''tooth'', ''top'', ''topic'', ''topple'', ''torch'',
      ''tornado'', ''tortoise'', ''toss'', ''total'', ''tourist'', ''toward'', ''tower'', ''town'',
      ''toy'', ''track'', ''trade'', ''traffic'', ''tragic'', ''train'', ''transfer'', ''trap'',
      ''trash'', ''travel'', ''tray'', ''treat'', ''tree'']"

definition words_29 :: "string list" where
  "words_29 =
    [''trend'', ''trial'', ''tribe'', ''trick'', ''trigger'', ''trim'', ''trip'', ''trophy'',
      ''trouble'', ''truck'', ''true'', ''truly'', ''trumpet'', ''trust'', ''truth'', ''try'', ''tube'',
      ''tuition'', ''tumble'', ''tuna'', ''tunnel'', ''turkey'', ''turn'', ''turtle'', ''twelve'',
      ''twenty'', ''twice'', ''twin'', ''twist'', ''two'', ''type'', ''typical'', ''ugly'',
      ''umbrella'', ''unable'', ''unaware'', ''uncle'', ''uncover'', ''under'', ''undo'', ''unfair'',
      ''unfold'', ''unhappy'', ''uniform'', ''unique'', ''unit'', ''universe'', ''unknown'', ''unlock'',
      ''until'', ''unusual'', ''unveil'', ''update'', ''upgrade'', ''uphold'', ''upon'', ''upper'',
      ''upset'', ''urban'', ''urge'', ''usage'', ''use'', ''used'', ''useful'']"

definition words_30 :: "string list" where
  "words_30 =
    [''useless'', ''usual'', ''utility'', ''vacant'', ''vacuum'', ''vague'', ''valid'', ''valley'',
      ''valve'', ''van'', ''vanish'', ''vapor'', ''various'', ''vast'', ''vault'', ''vehicle'',
      ''velvet'', ''vendor'', ''venture'', ''venue'', ''verb'', ''verify'', ''version'', ''very'',
      ''vessel'', ''veteran'', ''viable'', ''vibrant'', ''vicious'', ''victory'', ''video'', ''view'',
      ''village'', ''vintage'', ''violin'', ''virtual'', ''virus'', ''visa'', ''visit'', ''visual'',
      ''vital'', ''vivid'', ''vocal'', ''voice'', ''void'', ''volcano'', ''volume'', ''vote'',
      ''voyage'', ''wage'', ''wagon'', ''wait'', ''walk'', ''wall'', ''walnut'', ''want'', ''warfare'',
      ''warm'', ''warrior'', ''wash'', ''wasp'', ''waste'', ''water'', ''wave'']"

definition words_31 :: "string list" where
  "words_31 =
    [''way'', ''wealth'', ''weapon'', ''wear'', ''weasel'', ''weather'', ''web'', ''wedding'',
      ''weekend'', ''weird'', ''welcome'', ''west'', ''wet'', ''whale'', ''what'', ''wheat'', ''wheel'',
      ''when'', ''where'', ''whip'', ''whisper'', ''wide'', ''width'', ''wife'', ''wild'', ''will'',
      ''win'', ''window'', ''wine'', ''wing'', ''wink'', ''winner'', ''winter'', ''wire'', ''wisdom'',
      ''wise'', ''wish'', ''witness'', ''wolf'', ''woman'', ''wonder'', ''wood'', ''wool'', ''word'',
      ''work'', ''world'', ''worry'', ''worth'', ''wrap'', ''wreck'', ''wrestle'', ''wrist'', ''write'',
      ''wrong'', ''yard'', ''year'', ''yellow'', ''you'', ''young'', ''youth'', ''zebra'', ''zero'',
      ''zone'', ''zoo'']"

definition bip39_rows :: "string list list" where
  "bip39_rows =
    [words_00, words_01, words_02, words_03, words_04, words_05, words_06, words_07, words_08, words_09,
     words_10, words_11, words_12, words_13, words_14, words_15, words_16, words_17, words_18, words_19,
     words_20, words_21, words_22, words_23, words_24, words_25, words_26, words_27, words_28, words_29,
     words_30, words_31]"

definition WORDLIST :: "py_str list" where
  "WORDLIST = map str_lit (concat bip39_rows)"

section \<open>Facts\<close>

lemma words_00: "length words_00 = 64" "ascending words_00" "list_all letters words_00" "hd words_00 = ''abandon''"
  "last words_00 = ''among''"
  by (simp_all add: words_00_def letters_def)

lemma words_01: "length words_01 = 64" "ascending words_01" "list_all letters words_01" "hd words_01 = ''amount''"
  "last words_01 = ''avocado''"
  by (simp_all add: words_01_def letters_def)

lemma words_02: "length words_02 = 64" "ascending words_02" "list_all letters words_02" "hd words_02 = ''avoid''"
  "last words_02 = ''blood''"
  by (simp_all add: words_02_def letters_def)

lemma words_03: "length words_03 = 64" "ascending words_03" "list_all letters words_03" "hd words_03 = ''blossom''"
  "last words_03 = ''cable''"
  by (simp_all add: words_03_def letters_def)

lemma words_04: "length words_04 = 64" "ascending words_04" "list_all letters words_04" "hd words_04 = ''cactus''"
  "last words_04 = ''child''"
  by (simp_all add: words_04_def letters_def)

lemma words_05: "length words_05 = 64" "ascending words_05" "list_all letters words_05" "hd words_05 = ''chimney''"
  "last words_05 = ''copper''"
  by (simp_all add: words_05_def letters_def)

lemma words_06: "length words_06 = 64" "ascending words_06" "list_all letters words_06" "hd words_06 = ''copy''"
  "last words_06 = ''dawn''"
  by (simp_all add: words_06_def letters_def)

lemma words_07: "length words_07 = 64" "ascending words_07" "list_all letters words_07" "hd words_07 = ''day''"
  "last words_07 = ''divide''"
  by (simp_all add: words_07_def letters_def)

lemma words_08: "length words_08 = 64" "ascending words_08" "list_all letters words_08" "hd words_08 = ''divorce''"
  "last words_08 = ''elevator''"
  by (simp_all add: words_08_def letters_def)

lemma words_09: "length words_09 = 64" "ascending words_09" "list_all letters words_09" "hd words_09 = ''elite''"
  "last words_09 = ''exit''"
  by (simp_all add: words_09_def letters_def)

lemma words_10: "length words_10 = 64" "ascending words_10" "list_all letters words_10" "hd words_10 = ''exotic''"
  "last words_10 = ''fitness''"
  by (simp_all add: words_10_def letters_def)

lemma words_11: "length words_11 = 64" "ascending words_11" "list_all letters words_11" "hd words_11 = ''fix''"
  "last words_11 = ''garment''"
  by (simp_all add: words_11_def letters_def)

lemma words_12: "length words_12 = 64" "ascending words_12" "list_all letters words_12" "hd words_12 = ''gas''"
  "last words_12 = ''gun''"
  by (simp_all add: words_12_def letters_def)

lemma words_13: "length words_13 = 64" "ascending words_13" "list_all letters words_13" "hd words_13 = ''gym''"
  "last words_13 = ''husband''"
  by (simp_all add: words_13_def letters_def)

lemma words_14: "length words_14 = 64" "ascending words_14" "list_all letters words_14" "hd words_14 = ''hybrid''"
  "last words_14 = ''jewel''"
  by (simp_all add: words_14_def letters_def)

lemma words_15: "length words_15 = 64" "ascending words_15" "list_all letters words_15" "hd words_15 = ''job''"
  "last words_15 = ''lend''"
  by (simp_all add: words_15_def letters_def)

lemma words_16: "length words_16 = 64" "ascending words_16" "list_all letters words_16" "hd words_16 = ''length''"
  "last words_16 = ''margin''"
  by (simp_all add: words_16_def letters_def)

lemma words_17: "length words_17 = 64" "ascending words_17" "list_all letters words_17" "hd words_17 = ''marine''"
  "last words_17 = ''morning''"
  by (simp_all add: words_17_def letters_def)

lemma words_18: "length words_18 = 64" "ascending words_18" "list_all letters words_18" "hd words_18 = ''mosquito''"
  "last words_18 = ''obey''"
  by (simp_all add: words_18_def letters_def)

lemma words_19: "length words_19 = 64" "ascending words_19" "list_all letters words_19" "hd words_19 = ''object''"
  "last words_19 = ''paper''"
  by (simp_all add: words_19_def letters_def)

lemma words_20: "length words_20 = 64" "ascending words_20" "list_all letters words_20" "hd words_20 = ''parade''"
  "last words_20 = ''pony''"
  by (simp_all add: words_20_def letters_def)

lemma words_21: "length words_21 = 64" "ascending words_21" "list_all letters words_21" "hd words_21 = ''pool''"
  "last words_21 = ''quiz''"
  by (simp_all add: words_21_def letters_def)

lemma words_22: "length words_22 = 64" "ascending words_22" "list_all letters words_22" "hd words_22 = ''quote''"
  "last words_22 = ''retire''"
  by (simp_all add: words_22_def letters_def)

lemma words_23: "length words_23 = 64" "ascending words_23" "list_all letters words_23" "hd words_23 = ''retreat''"
  "last words_23 = ''say''"
  by (simp_all add: words_23_def letters_def)

lemma words_24: "length words_24 = 64" "ascending words_24" "list_all letters words_24" "hd words_24 = ''scale''"
  "last words_24 = ''side''"
  by (simp_all add: words_24_def letters_def)

lemma words_25: "length words_25 = 64" "ascending words_25" "list_all letters words_25" "hd words_25 = ''siege''"
  "last words_25 = ''soup''"
  by (simp_all add: words_25_def letters_def)

lemma words_26: "length words_26 = 64" "ascending words_26" "list_all letters words_26" "hd words_26 = ''source''"
  "last words_26 = ''subject''"
  by (simp_all add: words_26_def letters_def)

lemma words_27: "length words_27 = 64" "ascending words_27" "list_all letters words_27" "hd words_27 = ''submit''"
  "last words_27 = ''that''"
  by (simp_all add: words_27_def letters_def)

lemma words_28: "length words_28 = 64" "ascending words_28" "list_all letters words_28" "hd words_28 = ''theme''"
  "last words_28 = ''tree''"
  by (simp_all add: words_28_def letters_def)

lemma words_29: "length words_29 = 64" "ascending words_29" "list_all letters words_29" "hd words_29 = ''trend''"
  "last words_29 = ''useful''"
  by (simp_all add: words_29_def letters_def)

lemma words_30: "length words_30 = 64" "ascending words_30" "list_all letters words_30" "hd words_30 = ''useless''"
  "last words_30 = ''wave''"
  by (simp_all add: words_30_def letters_def)

lemma words_31: "length words_31 = 64" "ascending words_31" "list_all letters words_31" "hd words_31 = ''way''"
  "last words_31 = ''zoo''"
  by (simp_all add: words_31_def letters_def)

lemmas words_facts = words_00 words_01 words_02 words_03 words_04 words_05 words_06 words_07 words_08 words_09 words_10
    words_11 words_12 words_13 words_14 words_15 words_16 words_17 words_18 words_19 words_20 words_21
    words_22 words_23 words_24 words_25 words_26 words_27 words_28 words_29 words_30 words_31

lemma less_str_trans: "less_str a b \<Longrightarrow> less_str b c \<Longrightarrow> less_str a c"
proof (induction a b arbitrary: c rule: less_str.induct)
  case (3 x xs y ys)
  then show ?case by (cases c) (auto split: if_splits)
next
  case (2 d ds)
  then show ?case by (cases c) auto
qed simp

lemma less_str_irrefl: "\<not> less_str a a"
  by (induction a) simp_all

fun ascending_rows :: "string list list \<Rightarrow> bool" where
  "ascending_rows (r # s # t) \<longleftrightarrow> length r = 64 \<and> ascending r \<and> less_str (last r) (hd s) \<and> ascending_rows (s # t)"
| "ascending_rows t \<longleftrightarrow> list_all (\<lambda>r. length r = 64 \<and> ascending r) t"

lemma ascending_append:
  "ascending r \<Longrightarrow> ascending s \<Longrightarrow> r \<noteq> [] \<Longrightarrow> (s \<noteq> [] \<longrightarrow> less_str (last r) (hd s)) \<Longrightarrow> ascending (r @ s)"
  by (induction r rule: ascending.induct; cases s) simp_all

lemma ascending_concat: "ascending_rows rs \<Longrightarrow> ascending (concat rs)"
proof (induction rs rule: ascending_rows.induct)
  case (1 r s t)
  then have "length s = 64" by (cases t) auto
  moreover from this have "hd (concat (s # t)) = hd s" by (cases s) simp_all
  ultimately have "hd (concat (s # t)) = hd s" "r \<noteq> []" "concat (s # t) \<noteq> []" using 1 by auto
  with 1 show ?case using ascending_append [of r "concat (s # t)"] by simp
qed simp_all

lemma ascending_sorted: "ascending ws \<Longrightarrow> sorted_wrt less_str ws"
proof (induction ws rule: ascending.induct)
  case (1 a b r)
  then have "\<forall>x \<in> set r. less_str b x" "less_str a b" by auto
  with 1 show ?case using less_str_trans by auto
qed simp_all

lemma rows_ok: "ascending_rows bip39_rows" "list_all (list_all letters) bip39_rows" "length bip39_rows = 32"
  by (simp_all only: bip39_rows_def ascending_rows.simps list.pred_inject words_facts list.size)
    (simp_all only: less_str.simps, simp_all)

lemma ascending_rows_lengths: "ascending_rows rs \<Longrightarrow> length (concat rs) = 64 * length rs"
  by (induction rs rule: ascending_rows.induct) auto

lemma length_WORDLIST: "length WORDLIST = 2048"
  using ascending_rows_lengths [OF rows_ok(1)] by (simp add: WORDLIST_def rows_ok(3))

lemma distinct_WORDLIST: "distinct WORDLIST"
proof -
  have "sorted_wrt less_str (concat bip39_rows)"
    by (rule ascending_sorted [OF ascending_concat [OF rows_ok(1)]])
  then have "distinct (concat bip39_rows)"
    using less_str_irrefl by (auto simp: distinct_conv_nth sorted_wrt_iff_nth_less) (metis nat_neq_iff)
  then show ?thesis by (simp add: WORDLIST_def distinct_map inj_on_def str_lit_inject)
qed

lemma WORDLIST_word:
  assumes "w \<in> set WORDLIST"
  shows "is_word w" "is_ascii w"
proof -
  obtain v where v: "w = str_lit v" "letters v"
    using assms rows_ok(2) by (auto simp: WORDLIST_def list_all_iff)
  have "\<not> is_str_space c" if "97 \<le> c" "c \<le> 122" for c :: nat
    using that by (auto simp: is_str_space_def)
  then show "is_word w" "is_ascii w"
    using v by (auto simp: is_word_def is_ascii_def letters_def str_lit_def list_all_iff)
qed

end
