(* ===== verification/Py_Hash512.thy ===== *)
theory Py_Hash512
  imports Py_Hash
begin

text \<open>
  \<open>hashlib.sha512\<close>, \<open>hmac.new(key, data, sha512)\<close> and \<open>hashlib.pbkdf2_hmac("sha512", ...)\<close>
  (FIPS 180-4, RFC 2104, RFC 8018), which the mnemonic seed and the hierarchical key derivation
  use. The constants of the standard are written in decimal.
\<close>

type_synonym word64 = "64 word"
type_synonym sha512_state = "word64 \<times> word64 \<times> word64 \<times> word64 \<times> word64 \<times> word64 \<times> word64 \<times> word64"

definition sha512_k :: "word64 list" where
  "sha512_k =
    [4794697086780616226, 8158064640168781261, 13096744586834688815, 16840607885511220156, 4131703408338449720,
     6480981068601479193, 10538285296894168987, 12329834152419229976, 15566598209576043074, 1334009975649890238,
     2608012711638119052, 6128411473006802146, 8268148722764581231, 9286055187155687089, 11230858885718282805,
     13951009754708518548, 16472876342353939154, 17275323862435702243, 1135362057144423861, 2597628984639134821,
     3308224258029322869, 5365058923640841347, 6679025012923562964, 8573033837759648693, 10970295158949994411,
     12119686244451234320, 12683024718118986047, 13788192230050041572, 14330467153632333762, 15395433587784984357,
     489312712824947311, 1452737877330783856, 2861767655752347644, 3322285676063803686, 5560940570517711597,
     5996557281743188959, 7280758554555802590, 8532644243296465576, 9350256976987008742, 10552545826968843579,
     11727347734174303076, 12113106623233404929, 14000437183269869457, 14369950271660146224, 15101387698204529176,
     15463397548674623760, 17586052441742319658, 1182934255886127544, 1847814050463011016, 2177327727835720531,
     2830643537854262169, 3796741975233480872, 4115178125766777443, 5681478168544905931, 6601373596472566643,
     7507060721942968483, 8399075790359081724, 8693463985226723168, 9568029438360202098, 10144078919501101548,
     10430055236837252648, 11840083180663258601, 13761210420658862357, 14299343276471374635, 14566680578165727644,
     15097957966210449927, 16922976911328602910, 17689382322260857208, 500013540394364858, 748580250866718886,
     1242879168328830382, 1977374033974150939, 2944078676154940804, 3659926193048069267, 4368137639120453308,
     4836135668995329356, 5532061633213252278, 6448918945643986474, 6902733635092675308, 7801388544844847127]"

definition sha512_init :: sha512_state where
  "sha512_init = (7640891576956012808, 13503953896175478587, 4354685564936845355, 11912009170470909681,
               5840696475078001361, 11170449401992604703, 2270897969802886507, 6620516959819538809)"

definition sigma512_0 :: "word64 \<Rightarrow> word64" where
  "sigma512_0 x = word_rotr 1 x XOR word_rotr 8 x XOR drop_bit 7 x"

definition sigma512_1 :: "word64 \<Rightarrow> word64" where
  "sigma512_1 x = word_rotr 19 x XOR word_rotr 61 x XOR drop_bit 6 x"

definition big512_0 :: "word64 \<Rightarrow> word64" where
  "big512_0 x = word_rotr 28 x XOR word_rotr 34 x XOR word_rotr 39 x"

definition big512_1 :: "word64 \<Rightarrow> word64" where
  "big512_1 x = word_rotr 14 x XOR word_rotr 18 x XOR word_rotr 41 x"

fun sha512_round :: "sha512_state \<Rightarrow> word64 \<times> word64 \<Rightarrow> sha512_state" where
  "sha512_round (s0, s1, s2, s3, s4, s5, s6, s7) (k, w) =
     (let pick = (s4 AND s5) XOR (NOT s4 AND s6);
          majority = (s0 AND s1) XOR (s0 AND s2) XOR (s1 AND s2);
          t = s7 + big512_1 s4 + pick + k + w
      in (t + big512_0 s0 + majority, s0, s1, s2, s3 + t, s4, s5, s6))"

fun sha512_schedule :: "nat \<Rightarrow> word64 list \<Rightarrow> word64 list" where
  "sha512_schedule 0 ws = rev ws"
| "sha512_schedule (Suc n) ws =
     sha512_schedule n ((sigma512_1 (ws ! 1) + ws ! 6 + sigma512_0 (ws ! 14) + ws ! 15) # ws)"

fun words64 :: "nat \<Rightarrow> bytes \<Rightarrow> word64 list" where
  "words64 0 bs = []"
| "words64 (Suc n) bs = of_nat (from_be (take 8 bs)) # words64 n (drop 8 bs)"

fun sha512_add :: "sha512_state \<Rightarrow> sha512_state \<Rightarrow> sha512_state" where
  "sha512_add (s0, s1, s2, s3, s4, s5, s6, s7) (t0, t1, t2, t3, t4, t5, t6, t7) =
     (s0 + t0, s1 + t1, s2 + t2, s3 + t3, s4 + t4, s5 + t5, s6 + t6, s7 + t7)"

definition sha512_block :: "sha512_state \<Rightarrow> bytes \<Rightarrow> sha512_state" where
  "sha512_block s block =
     sha512_add s (foldl sha512_round s (zip sha512_k (sha512_schedule 64 (rev (words64 16 block)))))"

fun sha512_blocks :: "nat \<Rightarrow> sha512_state \<Rightarrow> bytes \<Rightarrow> sha512_state" where
  "sha512_blocks 0 s bs = s"
| "sha512_blocks (Suc n) s bs = sha512_blocks n (sha512_block s (take 128 bs)) (drop 128 bs)"

definition sha512_pad :: "bytes \<Rightarrow> bytes" where
  "sha512_pad bs = bs @ [128] @ replicate ((239 - length bs mod 128) mod 128) 0 @ be_digits 16 (8 * length bs)"

fun sha512_output :: "sha512_state \<Rightarrow> bytes" where
  "sha512_output (s0, s1, s2, s3, s4, s5, s6, s7) =
     concat (map (\<lambda>w. be_digits 8 (unat w)) [s0, s1, s2, s3, s4, s5, s6, s7])"

definition sha512 :: "bytes \<Rightarrow> bytes" where
  "sha512 bs = (let p = sha512_pad bs in sha512_output (sha512_blocks (length p div 128) sha512_init p))"

definition hmac_sha512 :: "bytes \<Rightarrow> bytes \<Rightarrow> bytes" where
  "hmac_sha512 key data =
     (let short = (if 128 < length key then sha512 key else key);
          k = short @ replicate (128 - length short) 0
      in sha512 (map (\<lambda>b. b XOR 92) k @ sha512 (map (\<lambda>b. b XOR 54) k @ data)))"

text \<open>PBKDF2 for an output of one block: the XOR of the iterated tags.\<close>

fun pbkdf2_rounds :: "bytes \<Rightarrow> nat \<Rightarrow> bytes \<Rightarrow> bytes \<Rightarrow> bytes" where
  "pbkdf2_rounds password 0 u acc = acc"
| "pbkdf2_rounds password (Suc n) u acc =
     (let v = hmac_sha512 password u in pbkdf2_rounds password n v (map2 (XOR) acc v))"

definition pbkdf2_sha512_64 :: "bytes \<Rightarrow> bytes \<Rightarrow> nat \<Rightarrow> bytes" where
  "pbkdf2_sha512_64 password salt rounds =
     (let u = hmac_sha512 password (salt @ [0, 0, 0, 1]) in pbkdf2_rounds password (rounds - 1) u u)"

lemma length_sha512_output: "length (sha512_output s) = 64"
  by (cases s rule: sha512_output.cases) simp

lemma length_sha512 [simp, layout]: "length (sha512 bs) = 64"
  by (simp add: sha512_def Let_def length_sha512_output)

lemma length_hmac_sha512 [simp, layout]: "length (hmac_sha512 k d) = 64"
  by (simp add: hmac_sha512_def Let_def)

lemma length_pbkdf2_rounds: "length u = 64 \<Longrightarrow> length acc = 64 \<Longrightarrow> length (pbkdf2_rounds p n u acc) = 64"
  by (induction n arbitrary: u acc) (simp_all add: Let_def)

lemma length_pbkdf2 [simp, layout]: "length (pbkdf2_sha512_64 p s n) = 64"
  by (simp add: pbkdf2_sha512_64_def Let_def length_pbkdf2_rounds)

end
