(* ===== verification/Bip39.thy ===== *)
theory Bip39
  imports Bip39_Words Py_Hash512
begin

text \<open>
  \<open>keyvault/_bip39.py\<close>: the 24-word mnemonic of 256-bit entropy, the validation of every standard
  length, and the seed. Integers are Python's unbounded ones (\<open>nat\<close>); the words are the vendored
  list; NFKD is a parameter that leaves ASCII alone.
\<close>

section \<open>Definitions\<close>

definition ENTROPY_BYTES :: nat where "ENTROPY_BYTES = 32"
definition WORD_COUNT :: nat where "WORD_COUNT = 24"
definition BITS_PER_WORD :: nat where "BITS_PER_WORD = 11"
definition CHECKSUM_BITS :: nat where "CHECKSUM_BITS = 8"
definition TOTAL_BITS :: nat where "TOTAL_BITS = 264"
definition VALID_WORD_COUNTS :: "nat list" where "VALID_WORD_COUNTS = [12, 15, 18, 21, 24]"

lemmas bip39_consts = ENTROPY_BYTES_def WORD_COUNT_def BITS_PER_WORD_def CHECKSUM_BITS_def TOTAL_BITS_def
  VALID_WORD_COUNTS_def

definition word_index :: "py_str \<Rightarrow> nat option" where
  "word_index = map_of (zip WORDLIST [0..<2048])"

definition canonicalize_mnemonic :: "('x) ucd_scheme \<Rightarrow> py_str \<Rightarrow> py_str" where
  "canonicalize_mnemonic U mnemonic = py_join [32] (py_split (uc_nfkd U mnemonic))"

definition entropy_to_mnemonic :: "bytes \<Rightarrow> py_str result" where
  "entropy_to_mnemonic entropy =
     (if length entropy \<noteq> ENTROPY_BYTES then Inl ValueError
      else let checksum = unat (hd (sha256 entropy));
               bits = push_bit CHECKSUM_BITS (from_be entropy) OR checksum
           in Inr (py_join [32]
                (map (\<lambda>i. WORDLIST ! (drop_bit (TOTAL_BITS - (i + 1) * BITS_PER_WORD) bits AND 0x7FF)) [0..<WORD_COUNT])))"

fun accumulate_words :: "nat \<Rightarrow> py_str list \<Rightarrow> nat result" where
  "accumulate_words bits [] = Inr bits"
| "accumulate_words bits (word # words) =
     (case word_index word of None \<Rightarrow> Inl ValueError
      | Some index \<Rightarrow> accumulate_words (push_bit BITS_PER_WORD bits OR index) words)"

definition mnemonic_to_entropy :: "('x) ucd_scheme \<Rightarrow> py_str \<Rightarrow> bytes result" where
  "mnemonic_to_entropy U mnemonic =
     (let words = py_split (canonicalize_mnemonic U mnemonic)
      in if length words \<noteq> WORD_COUNT then Inl ValueError
         else r_bind (accumulate_words 0 words) (\<lambda>bits.
           r_bind (to_be ENTROPY_BYTES (drop_bit CHECKSUM_BITS bits)) (\<lambda>entropy.
             let checksum = bits AND (push_bit CHECKSUM_BITS 1 - 1)
             in if checksum \<noteq> unat (hd (sha256 entropy)) then Inl ValueError else Inr entropy)))"

text \<open>The entropy is a random draw.\<close>

definition generate_mnemonic :: "bytes \<Rightarrow> py_str result" where
  "generate_mnemonic drawn = entropy_to_mnemonic drawn"

definition validate_mnemonic :: "('x) ucd_scheme \<Rightarrow> py_str \<Rightarrow> unit result" where
  "validate_mnemonic U mnemonic =
     (let words = py_split (canonicalize_mnemonic U mnemonic); count = length words
      in if count \<notin> set VALID_WORD_COUNTS then Inl ValueError
         else r_bind (accumulate_words 0 words) (\<lambda>bits.
           let total_bits = count * BITS_PER_WORD;
               checksum_bits = total_bits div 33;
               entropy_bits = total_bits - checksum_bits
           in r_bind (to_be (entropy_bits div 8) (drop_bit checksum_bits bits)) (\<lambda>entropy.
                let checksum = bits AND (push_bit checksum_bits 1 - 1);
                    expected = drop_bit (8 - checksum_bits) (unat (hd (sha256 entropy)))
                in if checksum \<noteq> expected then Inl ValueError else Inr ())))"

definition mnemonic_to_seed :: "('x) ucd_scheme \<Rightarrow> py_str \<Rightarrow> py_str \<Rightarrow> bytes result" where
  "mnemonic_to_seed U mnemonic passphrase =
     r_bind (utf8_encode (canonicalize_mnemonic U mnemonic)) (\<lambda>password.
       r_bind (utf8_encode (uc_nfkd U (str_lit ''mnemonic'' @ passphrase))) (\<lambda>salt.
         Inr (pbkdf2_sha512_64 password salt 2048)))"

section \<open>The reference: a sentence is the base-2048 notation of entropy and checksum\<close>

fun digits2048 :: "nat \<Rightarrow> nat \<Rightarrow> nat list" where
  "digits2048 0 n = []"
| "digits2048 (Suc k) n = digits2048 k (n div 2048) @ [n mod 2048]"

definition checksum_of :: "bytes \<Rightarrow> nat" where
  "checksum_of e = unat (hd (sha256 e)) div 2 ^ (8 - length e div 4)"

definition sentence_value :: "bytes \<Rightarrow> nat" where
  "sentence_value e = from_be e * 2 ^ (length e div 4) + checksum_of e"

definition sentence :: "bytes \<Rightarrow> py_str list" where
  "sentence e = map ((!) WORDLIST) (digits2048 (3 * length e div 4) (sentence_value e))"

section \<open>Digits and words\<close>

lemma length_digits [simp]: "length (digits2048 k n) = k"
  by (induction k n rule: digits2048.induct) simp_all

lemma digits_less: "list_all (\<lambda>d. d < 2048) (digits2048 k n)"
  by (induction k n rule: digits2048.induct) simp_all

definition undigits :: "nat list \<Rightarrow> nat" where
  "undigits ds = foldl (\<lambda>b d. 2048 * b + d) 0 ds"

lemma undigits_snoc [simp]: "undigits (ds @ [d]) = 2048 * undigits ds + d"
  by (simp add: undigits_def)

lemma undigits_digits: "n < 2048 ^ k \<Longrightarrow> undigits (digits2048 k n) = n"
proof (induction k n rule: digits2048.induct)
  case (2 k n)
  then have "n div 2048 < 2048 ^ k" by (simp add: less_mult_imp_div_less mult.commute)
  with 2 show ?case by simp
qed (simp add: undigits_def)

lemma digits_undigits: "list_all (\<lambda>d. d < 2048) ds \<Longrightarrow> digits2048 (length ds) (undigits ds) = ds"
  by (induction ds rule: rev_induct) simp_all

lemma undigits_less: "list_all (\<lambda>d. d < 2048) ds \<Longrightarrow> undigits ds < 2048 ^ length ds"
proof (induction ds rule: rev_induct)
  case (snoc d ds)
  then have "undigits ds + 1 \<le> 2048 ^ length ds" "d < 2048" by simp_all
  then have "2048 * undigits ds + d < 2048 * 2048 ^ length ds" by linarith
  then show ?case by simp
qed (simp add: undigits_def)

lemma digits_map: "digits2048 k n = map (\<lambda>i. (n div 2048 ^ (k - 1 - i)) mod 2048) [0..<k]"
proof (induction k n rule: digits2048.induct)
  case (2 k n)
  have "(n div 2048 div 2048 ^ (k - 1 - i)) mod 2048 = (n div 2048 ^ (k - i)) mod 2048" if "i < k" for i
  proof -
    have "2048 * 2048 ^ (k - 1 - i) = (2048 :: nat) ^ (k - i)"
      using that by (metis Suc_diff_Suc diff_Suc_eq_diff_pred power_Suc)
    then show ?thesis by (simp add: div_mult2_eq [symmetric])
  qed
  with 2 show ?case by simp
qed simp

lemma word_index_Some: "word_index w = Some i \<longleftrightarrow> i < 2048 \<and> w = WORDLIST ! i"
proof -
  have "map_of (zip WORDLIST [0..<2048]) w = Some i \<longleftrightarrow> (w, i) \<in> set (zip WORDLIST [0..<2048])"
    using distinct_WORDLIST length_WORDLIST by (intro map_of_eq_Some_iff) simp
  then show ?thesis using length_WORDLIST by (auto simp: word_index_def set_zip)
qed

lemma or_low:
  assumes "i < 2 ^ k"
  shows "push_bit k (b :: nat) OR i = 2 ^ k * b + i"
proof -
  have "take_bit k i = i" using assms by (simp add: take_bit_eq_mod)
  then have high: "\<not> bit i n" if "k \<le> n" for n using bit_take_bit_iff [of k i n] that by simp
  have "push_bit k b AND i = 0" by (rule bit_eqI) (use high in \<open>auto simp: bit_simps\<close>)
  then have "push_bit k b + i = push_bit k b OR i" by (rule disjunctive_add_eq_or)
  then show ?thesis by (simp add: push_bit_eq_mult mult.commute)
qed


lemma and_low: "(n :: nat) AND (push_bit k 1 - 1) = n mod 2 ^ k"
proof -
  have "push_bit k 1 - 1 = (mask k :: nat)" by (simp add: mask_eq_exp_minus_1 push_bit_eq_mult)
  then show ?thesis by (simp add: take_bit_eq_mod flip: take_bit_eq_mask)
qed

lemma and_mask_low: "(n :: nat) AND (2 ^ k - Suc 0) = n mod 2 ^ k"
  using and_low [of n k] by (simp add: push_bit_eq_mult)

lemma accumulate_Inr:
  "accumulate_words b ws = Inr v \<longleftrightarrow>
     (\<exists>ds. list_all (\<lambda>d. d < 2048) ds \<and> ws = map ((!) WORDLIST) ds \<and> v = foldl (\<lambda>b d. 2048 * b + d) b ds)"
proof (induction ws arbitrary: b)
  case (Cons w ws)
  show ?case
  proof (cases "word_index w")
    case None
    have "\<not> (\<exists>d ds. d < 2048 \<and> w = WORDLIST ! d)" using None word_index_Some [of w] by auto
    then show ?thesis using None by (auto simp: Cons_eq_map_conv)
  next
    case (Some i)
    have i: "i < 2048" "w = WORDLIST ! i" using Some by (simp_all add: word_index_Some)
    then have uniq: "d = i" if "w = WORDLIST ! d" "d < 2048" for d
      using that distinct_WORDLIST length_WORDLIST by (metis nth_eq_iff_index_eq)
    have "(\<exists>ds. list_all (\<lambda>d. d < 2048) ds \<and> w # ws = map ((!) WORDLIST) ds \<and> v = foldl (\<lambda>b d. 2048 * b + d) b ds) \<longleftrightarrow>
        (\<exists>ds. list_all (\<lambda>d. d < 2048) ds \<and> ws = map ((!) WORDLIST) ds \<and> v = foldl (\<lambda>b d. 2048 * b + d) (2048 * b + i) ds)"
      (is "?L \<longleftrightarrow> ?R")
    proof
      assume ?L
      then obtain d ds where d: "d < 2048" "list_all (\<lambda>d. d < 2048) ds" "w = WORDLIST ! d" "ws = map ((!) WORDLIST) ds"
        "v = foldl (\<lambda>b d. 2048 * b + d) (2048 * b + d) ds"
        by (auto simp: Cons_eq_map_conv)
      then show ?R using uniq [OF d(3,1)] by blast
    next
      assume ?R
      then obtain ds where "list_all (\<lambda>d. d < 2048) ds" "ws = map ((!) WORDLIST) ds"
        "v = foldl (\<lambda>b d. 2048 * b + d) (2048 * b + i) ds" by blast
      then show ?L using i by (intro exI [of _ "i # ds"]) simp
    qed
    then show ?thesis
      using Some Cons or_low [of i 11 b] i(1) by (simp add: BITS_PER_WORD_def)
  qed
qed auto

lemma accumulate_zero:
  "accumulate_words 0 ws = Inr v \<longleftrightarrow>
     (\<exists>ds. list_all (\<lambda>d. d < 2048) ds \<and> ws = map ((!) WORDLIST) ds \<and> v = undigits ds)"
  by (simp add: accumulate_Inr undigits_def)

lemma accumulate_error: "accumulate_words b ws = Inl e \<Longrightarrow> e = ValueError"
  by (induction ws arbitrary: b) (auto split: option.splits)

lemma split_canonical: "py_split (canonicalize_mnemonic U s) = py_split (uc_nfkd U s)"
  by (simp add: canonicalize_mnemonic_def split_join py_split_is_word)

definition ENTROPY_SIZES :: "nat set" where
  "ENTROPY_SIZES = {16, 20, 24, 28, 32}"

lemma word_space: "n \<in> ENTROPY_SIZES \<Longrightarrow> (2048 :: nat) ^ (3 * n div 4) = 256 ^ n * 2 ^ (n div 4)"
  by (auto simp: ENTROPY_SIZES_def)

lemma checksum_less: "length e \<in> ENTROPY_SIZES \<Longrightarrow> checksum_of e < 2 ^ (length e div 4)"
proof -
  assume "length e \<in> ENTROPY_SIZES"
  then have "(256 :: nat) = 2 ^ (8 - length e div 4) * 2 ^ (length e div 4)"
    by (auto simp: ENTROPY_SIZES_def)
  then show ?thesis
    using unat_byte_less [of "hd (sha256 e)"] by (simp add: checksum_of_def less_mult_imp_div_less mult.commute)
qed

lemma sentence_value_parts:
  assumes "length e \<in> ENTROPY_SIZES"
  shows "sentence_value e div 2 ^ (length e div 4) = from_be e" "sentence_value e mod 2 ^ (length e div 4) = checksum_of e"
    "sentence_value e < 2048 ^ (3 * length e div 4)"
proof -
  let ?m = "2 ^ (length e div 4) :: nat"
  have c: "checksum_of e < ?m" by (rule checksum_less [OF assms])
  show "sentence_value e div ?m = from_be e" "sentence_value e mod ?m = checksum_of e"
    using c by (simp_all add: sentence_value_def)
  have "(from_be e + 1) * ?m \<le> 256 ^ length e * ?m"
    using from_be_less [of e] by (intro mult_right_mono) simp_all
  then show "sentence_value e < 2048 ^ (3 * length e div 4)"
    using c word_space [OF assms] by (simp add: sentence_value_def)
qed

lemma sentence_words: "list_all is_word (sentence e)" "list_all is_ascii (sentence e)" "length (sentence e) = 3 * length e div 4"
  using digits_less [of "3 * length e div 4" "sentence_value e"] WORDLIST_word length_WORDLIST
  by (auto simp: sentence_def list_all_iff)

lemma accumulate_sentence:
  assumes "length e \<in> ENTROPY_SIZES"
  shows "accumulate_words 0 (sentence e) = Inr (sentence_value e)"
  unfolding accumulate_zero sentence_def
  using digits_less undigits_digits [OF sentence_value_parts(3) [OF assms]] by metis

lemma decode_words:
  assumes "n \<in> ENTROPY_SIZES" "length ws = 3 * n div 4" "accumulate_words 0 ws = Inr bits"
  defines "e \<equiv> be_digits n (bits div 2 ^ (n div 4))"
  shows "to_be n (bits div 2 ^ (n div 4)) = Inr e" "bits mod 2 ^ (n div 4) = checksum_of e \<longleftrightarrow> ws = sentence e"
    "length e' = n \<Longrightarrow> ws = sentence e' \<Longrightarrow> e' = e"
proof -
  let ?m = "2 ^ (n div 4) :: nat"
  obtain ds where ds: "list_all (\<lambda>d. d < 2048) ds" "ws = map ((!) WORDLIST) ds" "bits = undigits ds"
    using assms(3) unfolding accumulate_zero by blast
  have "bits < 256 ^ n * ?m"
    using undigits_less [OF ds(1)] ds(2,3) assms(2) word_space [OF assms(1)] by simp
  then have b: "bits div ?m < 256 ^ n" by (simp add: less_mult_imp_div_less)
  then show "to_be n (bits div ?m) = Inr e" by (simp add: to_be_def e_def)
  have len: "length e = n" "from_be e = bits div ?m" using b by (simp_all add: e_def from_be_digits)
  show "bits mod ?m = checksum_of e \<longleftrightarrow> ws = sentence e"
  proof
    assume "bits mod ?m = checksum_of e"
    then have "sentence_value e = bits"
      using len div_mult_mod_eq [of bits ?m] by (simp add: sentence_value_def)
    then show "ws = sentence e"
      using digits_undigits [OF ds(1)] ds(2,3) assms(2) len(1) by (simp add: sentence_def)
  next
    assume "ws = sentence e"
    then have "bits = sentence_value e" using accumulate_sentence [of e] assms(1,3) len(1) by simp
    then show "bits mod ?m = checksum_of e" using sentence_value_parts(2) [of e] assms(1) len(1) by simp
  qed
  show "e' = e" if "length e' = n" "ws = sentence e'"
  proof -
    have "bits = sentence_value e'" using accumulate_sentence [of e'] assms(1,3) that by simp
    then show ?thesis
      using sentence_value_parts(1) [of e'] assms(1) that(1) be_digits_from_be [of e'] by (simp add: e_def)
  qed
qed

section \<open>The codec\<close>

lemma entropy_to_mnemonic_sentence:
  assumes "length e = 32"
  shows "entropy_to_mnemonic e = Inr (py_join [32] (sentence e))"
proof -
  have "unat (hd (sha256 e)) < 2 ^ 8" using unat_byte_less [of "hd (sha256 e)"] by simp
  then have v: "push_bit 8 (from_be e) OR unat (hd (sha256 e)) = sentence_value e"
    using or_low [of "unat (hd (sha256 e))" 8 "from_be e"] assms by (simp add: sentence_value_def checksum_of_def)
  have d: "drop_bit (264 - (i + 1) * 11) n AND 2047 = (n div 2048 ^ (24 - 1 - i)) mod 2048" if "i < 24" for n i :: nat
  proof -
    have "264 - (i + 1) * 11 = 11 * (24 - 1 - i)" using that by simp
    then have "(2 :: nat) ^ (264 - (i + 1) * 11) = 2048 ^ (24 - 1 - i)" by (simp add: power_mult)
    moreover have "m AND 2047 = m mod 2048" for m :: nat using and_low [of m 11] by simp
    ultimately show ?thesis by (simp add: drop_bit_eq_div)
  qed
  have "map (\<lambda>i. WORDLIST ! (drop_bit (264 - (i + 1) * 11) n AND 2047)) [0..<24] = map ((!) WORDLIST) (digits2048 24 n)" for n
    unfolding digits_map map_map comp_def by (rule map_cong [OF refl]) (simp only: d atLeastLessThan_iff set_upt)
  then show ?thesis
    using assms unfolding entropy_to_mnemonic_def bip39_consts Let_def v by (simp add: sentence_def)
qed

lemma ascii_sentence: "is_ascii (py_join [32] (sentence e))"
proof -
  have "list_all is_ascii ws \<Longrightarrow> is_ascii (py_join [32] ws)" for ws
    by (induction "[32 :: nat]" ws rule: py_join.induct) (simp_all add: is_ascii_def)
  then show ?thesis using sentence_words(2) .
qed

lemma split_sentence: "ucd_ok U \<Longrightarrow> py_split (uc_nfkd U (py_join [32] (sentence e))) = sentence e"
  using ascii_sentence split_join [OF sentence_words(1)] by (simp add: ucd_ok_def)

lemma mnemonic_to_entropy_Inr:
  "mnemonic_to_entropy U s = Inr e \<longleftrightarrow> length e = 32 \<and> py_split (uc_nfkd U s) = sentence e"
proof -
  let ?ws = "py_split (uc_nfkd U s)"
  have n: "32 \<in> ENTROPY_SIZES" by (simp add: ENTROPY_SIZES_def)
  show ?thesis
  proof (cases "length ?ws = 24")
    case False
    then show ?thesis
      using sentence_words(3) [of e] by (auto simp: mnemonic_to_entropy_def split_canonical bip39_consts Let_def)
  next
    case True
    show ?thesis
    proof (cases "accumulate_words 0 ?ws")
      case (Inl x)
      then show ?thesis
        using True accumulate_sentence [of e] n
        by (auto simp: mnemonic_to_entropy_def split_canonical bip39_consts Let_def)
    next
      case (Inr bits)
      have len: "length ?ws = 3 * 32 div 4" using True by simp
      note dec = decode_words [OF n len Inr]
      let ?e = "be_digits 32 (bits div 2 ^ 8)"
      have "mnemonic_to_entropy U s = (if bits mod 2 ^ 8 \<noteq> checksum_of ?e then Inl ValueError else Inr ?e)"
        using True Inr dec(1) and_low [of bits 8]
        by (simp add: mnemonic_to_entropy_def split_canonical bip39_consts Let_def drop_bit_eq_div checksum_of_def)
      moreover have "length ?e = 32" by simp
      moreover have "bits mod 2 ^ 8 = checksum_of ?e \<longleftrightarrow> ?ws = sentence ?e" using dec(2) by simp
      moreover have "length e = 32 \<Longrightarrow> ?ws = sentence e \<Longrightarrow> e = ?e" using dec(3) by simp
      ultimately show ?thesis by (metis sum.inject(2) sum.simps(4))
    qed
  qed
qed

lemma mnemonic_to_entropy_error: "mnemonic_to_entropy U s = Inl x \<Longrightarrow> x = ValueError"
proof -
  assume a: "mnemonic_to_entropy U s = Inl x"
  show ?thesis
  proof (cases "length (py_split (uc_nfkd U s)) = 24")
    case True
    show ?thesis
    proof (cases "accumulate_words 0 (py_split (uc_nfkd U s))")
      case (Inl y)
      then show ?thesis
        using a True accumulate_error [OF Inl] by (simp add: mnemonic_to_entropy_def split_canonical bip39_consts Let_def)
    next
      case (Inr bits)
      have "32 \<in> ENTROPY_SIZES" "length (py_split (uc_nfkd U s)) = 3 * 32 div 4"
        using True by (simp_all add: ENTROPY_SIZES_def)
      from decode_words(1) [OF this Inr] show ?thesis
        using a True Inr by (auto simp: mnemonic_to_entropy_def split_canonical bip39_consts Let_def drop_bit_eq_div split: if_splits)
    qed
  qed (use a in \<open>simp add: mnemonic_to_entropy_def split_canonical bip39_consts Let_def\<close>)
qed

interpretation mnemonic: codec "\<lambda>e. length e = 32 \<and> ucd_ok U" entropy_to_mnemonic "mnemonic_to_entropy U" for U
  by unfold_locales (simp add: entropy_to_mnemonic_sentence mnemonic_to_entropy_Inr split_sentence)

text \<open>C37: The mnemonic codec. Every 32-byte entropy has a 24-word mnemonic that decodes to it again;
  any other length is refused. And \<open>mnemonic_to_entropy\<close> is strict: it returns an entropy exactly for
  the texts whose words, after normalization, are the 24 words of that entropy and its checksum, so
  a wrong count, an unknown word and a wrong checksum are all refused, always with \<open>ValueError\<close>.\<close>

theorem mnemonic_codec:
  assumes "ucd_ok U"
  shows "(length e = 32 \<longrightarrow> (\<exists>s. entropy_to_mnemonic e = Inr s \<and> mnemonic_to_entropy U s = Inr e \<and>
       length (py_split s) = 24 \<and> set (py_split s) \<subseteq> set WORDLIST)) \<and>
    (length e \<noteq> 32 \<longrightarrow> entropy_to_mnemonic e = Inl ValueError) \<and>
    (mnemonic_to_entropy U t = Inr e \<longleftrightarrow> length e = 32 \<and> py_split (uc_nfkd U t) = sentence e) \<and>
    raises (\<lambda>x. x = ValueError) (mnemonic_to_entropy U t)"
proof -
  have "set (sentence e) \<subseteq> set WORDLIST"
    using digits_less [of "3 * length e div 4" "sentence_value e"] length_WORDLIST
    by (auto simp: sentence_def list_all_iff)
  then have "length e = 32 \<longrightarrow> (\<exists>s. entropy_to_mnemonic e = Inr s \<and> mnemonic_to_entropy U s = Inr e \<and>
       length (py_split s) = 24 \<and> set (py_split s) \<subseteq> set WORDLIST)"
    using mnemonic.dec_of_enc [of e U] assms entropy_to_mnemonic_sentence [of e]
    by (simp add: split_join sentence_words)
  moreover have "raises (\<lambda>x. x = ValueError) (mnemonic_to_entropy U t)"
    using mnemonic_to_entropy_error [of U t] by (cases "mnemonic_to_entropy U t") auto
  ultimately show ?thesis using mnemonic_to_entropy_Inr by (auto simp: entropy_to_mnemonic_def bip39_consts)
qed

lemma mnemonic_codec_witness:
  "\<exists>s. entropy_to_mnemonic (replicate 32 7) = Inr s \<and> mnemonic_to_entropy demo_ucd s = Inr (replicate 32 7)"
proof -
  have "length (replicate 32 (7 :: byte)) = 32" by simp
  from mnemonic_codec [OF demo_ucd_ok, THEN conjunct1, THEN mp, OF this] show ?thesis by blast
qed

section \<open>Validation of every length\<close>

lemma count_sizes: "count \<in> set VALID_WORD_COUNTS \<longleftrightarrow> (\<exists>n \<in> ENTROPY_SIZES. count = 3 * n div 4)"
  by (auto simp: bip39_consts ENTROPY_SIZES_def)

lemma size_bits:
  assumes "n \<in> ENTROPY_SIZES"
  shows "3 * n div 4 * 11 div 33 = n div 4" "(3 * n div 4 * 11 - n div 4) div 8 = n"
  using assms by (auto simp: ENTROPY_SIZES_def)

lemma validate_iff:
  "(validate_mnemonic U s = Inr () \<longleftrightarrow> (\<exists>e. length e \<in> ENTROPY_SIZES \<and> py_split (uc_nfkd U s) = sentence e)) \<and>
   raises (\<lambda>x. x = ValueError) (validate_mnemonic U s)"
proof -
  let ?ws = "py_split (uc_nfkd U s)"
  show "(validate_mnemonic U s = Inr () \<longleftrightarrow> (\<exists>e. length e \<in> ENTROPY_SIZES \<and> ?ws = sentence e)) \<and>
      raises (\<lambda>x. x = ValueError) (validate_mnemonic U s)"
  proof (cases "length ?ws \<in> set VALID_WORD_COUNTS")
    case False
    then have "\<not> (\<exists>e. length e \<in> ENTROPY_SIZES \<and> ?ws = sentence e)"
      using sentence_words(3) unfolding count_sizes by metis
    with False show ?thesis by (simp add: validate_mnemonic_def split_canonical Let_def)
  next
    case True
    then obtain n where n: "n \<in> ENTROPY_SIZES" "length ?ws = 3 * n div 4" unfolding count_sizes by blast
    have size: "length e = n" if "length e \<in> ENTROPY_SIZES" "?ws = sentence e" for e
      using that n sentence_words(3) [of e] by (auto simp: ENTROPY_SIZES_def)
    show ?thesis
    proof (cases "accumulate_words 0 ?ws")
      case (Inl x)
      have "validate_mnemonic U s = Inl ValueError"
        using True Inl accumulate_error [OF Inl] by (simp add: validate_mnemonic_def split_canonical Let_def)
      moreover have "\<not> (\<exists>e. length e \<in> ENTROPY_SIZES \<and> ?ws = sentence e)"
        using Inl accumulate_sentence by (metis sum.distinct(1))
      ultimately show ?thesis by simp
    next
      case (Inr bits)
      note dec = decode_words [OF n Inr]
      let ?e = "be_digits n (bits div 2 ^ (n div 4))"
      have "validate_mnemonic U s = (if bits mod 2 ^ (n div 4) \<noteq> checksum_of ?e then Inl ValueError else Inr ())"
        using True Inr dec(1) n(2)
        by (simp add: validate_mnemonic_def split_canonical Let_def BITS_PER_WORD_def size_bits [OF n(1)]
            drop_bit_eq_div and_mask_low checksum_of_def)
      moreover have "(\<exists>e. length e \<in> ENTROPY_SIZES \<and> ?ws = sentence e) \<longleftrightarrow> ?ws = sentence ?e"
        using dec(3) size n(1) length_be_digits by metis
      ultimately show ?thesis using dec(2) by simp
    qed
  qed
qed

text \<open>\<open>validate_mnemonic\<close> accepts a text exactly when its words are the sentence of some entropy of
  16, 20, 24, 28 or 32 bytes, checksum included; everything else is a \<open>ValueError\<close>. On 24 words it
  accepts exactly what \<open>mnemonic_to_entropy\<close> decodes.\<close>

lemma validate_mnemonic_iff:
  "(validate_mnemonic U s = Inr () \<longleftrightarrow> (\<exists>e. length e \<in> ENTROPY_SIZES \<and> py_split (uc_nfkd U s) = sentence e)) \<and>
   raises (\<lambda>x. x = ValueError) (validate_mnemonic U s) \<and>
   (validate_mnemonic U s = Inr () \<and> length (py_split (uc_nfkd U s)) = 24 \<longleftrightarrow> (\<exists>e. mnemonic_to_entropy U s = Inr e))"
proof -
  let ?ws = "py_split (uc_nfkd U s)"
  have "length e \<in> ENTROPY_SIZES \<and> ?ws = sentence e \<and> length ?ws = 24 \<longleftrightarrow> length e = 32 \<and> ?ws = sentence e" for e
    using sentence_words(3) [of e] by (auto simp: ENTROPY_SIZES_def)
  then show ?thesis using validate_iff [of U s] unfolding mnemonic_to_entropy_Inr by metis
qed

section \<open>The seed\<close>

text \<open>White space cannot change the wallet. For a mnemonic that validates and an encodable
  passphrase, the seed exists, has 64 bytes, is the seed of the canonical text, and is the seed of
  every other text with the same words after normalization, however it is spaced.\<close>

lemma seed_of_words:
  assumes "ucd_ok U" "validate_mnemonic U s = Inr ()" "list_all is_scalar (uc_nfkd U (str_lit ''mnemonic'' @ p))"
    "py_split (uc_nfkd U t) = py_split (uc_nfkd U s)"
  shows "\<exists>seed. mnemonic_to_seed U s p = Inr seed \<and> length seed = 64 \<and> mnemonic_to_seed U t p = Inr seed \<and>
    mnemonic_to_seed U (canonicalize_mnemonic U s) p = Inr seed"
proof -
  obtain e where e: "py_split (uc_nfkd U s) = sentence e"
    using assms(2) validate_iff [of U s] by blast
  have c: "canonicalize_mnemonic U s = py_join [32] (sentence e)" "canonicalize_mnemonic U t = py_join [32] (sentence e)"
    using e assms(4) by (simp_all add: canonicalize_mnemonic_def)
  have "canonicalize_mnemonic U (py_join [32] (sentence e)) = py_join [32] (sentence e)"
    by (simp add: canonicalize_mnemonic_def split_sentence [OF assms(1)])
  then show ?thesis
    using c assms(3) utf8_encode_ascii [OF ascii_sentence, of e] by (simp add: mnemonic_to_seed_def utf8_encode_def)
qed

lemma demo_sentence: "validate_mnemonic demo_ucd (py_join [32] (sentence (replicate 32 7))) = Inr ()"
proof -
  have "length (replicate 32 (7 :: byte)) \<in> ENTROPY_SIZES" by (simp add: ENTROPY_SIZES_def)
  then show ?thesis using validate_iff split_sentence [OF demo_ucd_ok] by blast
qed

lemma seed_of_words_witness:
  "\<exists>s seed. mnemonic_to_seed demo_ucd s [] = Inr seed \<and> length seed = 64"
proof -
  have "list_all is_scalar (uc_nfkd demo_ucd (str_lit ''mnemonic'' @ []))"
    by (simp add: demo_ucd_def str_lit_def is_scalar_def is_surrogate_def)
  from seed_of_words [OF demo_ucd_ok demo_sentence this refl] show ?thesis by blast
qed

end
