(* ===== verification/Pow.thy ===== *)
theory Pow
  imports Py_Str
begin

text \<open>
  \<open>keyvault/pow.py\<close>: the proof-of-work artifact of a seed. The BLAKE3 digest is a parameter. The
  counter loop is a recursion on the counter, bounded by \<open>2 ^ 64\<close> as in the code, so it always ends.
\<close>

definition POW_PREFIX :: bytes where
  "POW_PREFIX = bytes_lit ''MRPOW'' @ [1]"

definition POW_DIFFICULTY_BITS :: int where "POW_DIFFICULTY_BITS = 20"
definition DIGEST_BITS :: int where "DIGEST_BITS = 256"
definition UINT64_LIMIT :: nat where "UINT64_LIMIT = 18446744073709551616"

text \<open>\<open>int.bit_length\<close>.\<close>

fun bit_length :: "nat \<Rightarrow> nat" where
  "bit_length n = (if n = 0 then 0 else Suc (bit_length (n div 2)))"

declare bit_length.simps [simp del]

fun leading_zero_bits :: "bytes \<Rightarrow> nat" where
  "leading_zero_bits [] = 0"
| "leading_zero_bits (byte # bs) = (if byte = 0 then 8 + leading_zero_bits bs else 8 - bit_length (unat byte))"

definition pow_digest :: "(bytes \<Rightarrow> bytes) \<Rightarrow> bytes \<Rightarrow> nat \<Rightarrow> bytes" where
  "pow_digest blake3 base n = blake3 (base @ rev (be_digits 8 n))"

function pow_search :: "(bytes \<Rightarrow> bytes) \<Rightarrow> bytes \<Rightarrow> int \<Rightarrow> nat \<Rightarrow> bytes result" where
  "pow_search blake3 base difficulty_bits n =
     (if n < UINT64_LIMIT then
        let digest = pow_digest blake3 base n
        in if difficulty_bits \<le> int (leading_zero_bits digest) then Inr digest
           else pow_search blake3 base difficulty_bits (n + 1)
      else Inl PowExhausted)"
  by pat_completeness auto
termination by (relation "measure (\<lambda>(_, _, _, n). UINT64_LIMIT - n)") auto

declare pow_search.simps [simp del]

definition compute_pow :: "(bytes \<Rightarrow> bytes) \<Rightarrow> py_str \<Rightarrow> int \<Rightarrow> bytes result" where
  "compute_pow blake3 normalized_seed difficulty_bits =
     (if difficulty_bits < 0 then Inl ValueError
      else if DIGEST_BITS < difficulty_bits then Inl ValueError
      else r_bind (utf8_encode normalized_seed) (\<lambda>seed.
        pow_search blake3 (POW_PREFIX @ seed) difficulty_bits 0))"

section \<open>Leading zero bits\<close>

lemma bit_length_zero [simp]: "bit_length 0 = 0"
  by (subst bit_length.simps) simp

lemma bit_length_less: "n < 2 ^ k \<longleftrightarrow> bit_length n \<le> k"
proof (induction n arbitrary: k rule: bit_length.induct)
  case (1 n)
  show ?case
  proof (cases "n = 0")
    case False
    show ?thesis
    proof (cases k)
      case 0
      then show ?thesis using False by (subst bit_length.simps) simp
    next
      case (Suc j)
      have "n < 2 ^ Suc j \<longleftrightarrow> n div 2 < 2 ^ j" by auto
      then show ?thesis using 1 [OF False, of j] False Suc by (subst bit_length.simps) simp
    qed
  qed simp
qed

lemma from_be_Cons: "from_be (b # bs) = unat b * 256 ^ length bs + from_be bs"
  by (induction bs rule: rev_induct) (simp_all add: from_be_def algebra_simps)

lemma leading_zero_bits_bound:
  "d \<le> 8 * length bs \<Longrightarrow> d \<le> leading_zero_bits bs \<longleftrightarrow> from_be bs < 2 ^ (8 * length bs - d)"
proof (induction bs arbitrary: d)
  case (Cons b bs)
  have p: "(256 :: nat) ^ length bs = 2 ^ (8 * length bs)" by (simp add: power_mult)
  have low: "from_be bs < 2 ^ (8 * length bs)" using from_be_less [of bs] p by simp
  show ?case
  proof (cases "d \<le> 8")
    case True
    have l: "8 * length (b # bs) - d = (8 - d) + 8 * length bs" using True by simp
    have "from_be (b # bs) < 2 ^ (8 * length (b # bs) - d) \<longleftrightarrow> unat b < 2 ^ (8 - d)"
    proof
      assume "from_be (b # bs) < 2 ^ (8 * length (b # bs) - d)"
      then have "unat b * 2 ^ (8 * length bs) < 2 ^ (8 - d) * 2 ^ (8 * length bs)"
        unfolding l from_be_Cons power_add p by linarith
      then show "unat b < 2 ^ (8 - d)" by simp
    next
      assume "unat b < 2 ^ (8 - d)"
      then have "(unat b + 1) * 2 ^ (8 * length bs) \<le> 2 ^ (8 - d) * 2 ^ (8 * length bs)"
        by (intro mult_right_mono) simp_all
      then show "from_be (b # bs) < 2 ^ (8 * length (b # bs) - d)"
        using low unfolding l from_be_Cons power_add p by simp
    qed
    moreover have "d \<le> leading_zero_bits (b # bs) \<longleftrightarrow> bit_length (unat b) \<le> 8 - d"
    proof -
      have "bit_length (unat b) \<le> 8" using unat_byte_less [of b] bit_length_less [of "unat b" 8] by simp
      then show ?thesis using True by (cases "b = 0") auto
    qed
    ultimately show ?thesis by (simp add: bit_length_less)
  next
    case False
    have l: "8 * length (b # bs) - d = 8 * length bs - (d - 8)" using False by simp
    show ?thesis
    proof (cases "b = 0")
      case True
      have "d - 8 \<le> 8 * length bs" using Cons.prems by simp
      moreover have "d \<le> leading_zero_bits (b # bs) \<longleftrightarrow> d - 8 \<le> leading_zero_bits bs"
        using True False by (simp add: le_diff_conv) linarith
      ultimately show ?thesis using Cons.IH [of "d - 8"] True unfolding l from_be_Cons by simp
    next
      case nz: False
      then have "1 \<le> unat b" by (metis One_nat_def Suc_leI unat_gt_0 word_neq_0_conv)
      then have "1 * 2 ^ (8 * length bs) \<le> unat b * 2 ^ (8 * length bs)" by (rule mult_right_mono) simp
      then have "2 ^ (8 * length bs) \<le> from_be (b # bs)" unfolding from_be_Cons p by linarith
      moreover have "(2 :: nat) ^ (8 * length bs - (d - 8)) \<le> 2 ^ (8 * length bs)" by (intro power_increasing) simp_all
      ultimately have "\<not> from_be (b # bs) < 2 ^ (8 * length (b # bs) - d)" unfolding l by linarith
      then show ?thesis using nz False by simp
    qed
  qed
qed simp

section \<open>The search\<close>

lemma pow_search_Inr:
  "n \<le> UINT64_LIMIT \<Longrightarrow> pow_search H base d n = Inr x \<longleftrightarrow>
     (\<exists>m. n \<le> m \<and> m < UINT64_LIMIT \<and> x = pow_digest H base m \<and> d \<le> int (leading_zero_bits x) \<and>
        (\<forall>j. n \<le> j \<and> j < m \<longrightarrow> int (leading_zero_bits (pow_digest H base j)) < d))"
proof (induction H base d n rule: pow_search.induct)
  case (1 H base d n)
  show ?case
  proof (cases "n < UINT64_LIMIT")
    case False
    then show ?thesis by (subst pow_search.simps) auto
  next
    case less: True
    show ?thesis
    proof (cases "d \<le> int (leading_zero_bits (pow_digest H base n))")
      case True
      then have "pow_search H base d n = Inr (pow_digest H base n)"
        using less by (subst pow_search.simps) (simp add: Let_def)
      moreover have "m = n" if "n \<le> m" "\<forall>j. n \<le> j \<and> j < m \<longrightarrow> int (leading_zero_bits (pow_digest H base j)) < d" for m
        using that True by (metis le_neq_implies_less not_le order_refl)
      ultimately show ?thesis using less True by auto
    next
      case False
      then have "pow_search H base d n = pow_search H base d (n + 1)"
        using less by (subst pow_search.simps) (simp add: Let_def)
      moreover have "(\<exists>m. n \<le> m \<and> m < UINT64_LIMIT \<and> x = pow_digest H base m \<and> d \<le> int (leading_zero_bits x) \<and>
          (\<forall>j. n \<le> j \<and> j < m \<longrightarrow> int (leading_zero_bits (pow_digest H base j)) < d)) \<longleftrightarrow>
        (\<exists>m. n + 1 \<le> m \<and> m < UINT64_LIMIT \<and> x = pow_digest H base m \<and> d \<le> int (leading_zero_bits x) \<and>
          (\<forall>j. n + 1 \<le> j \<and> j < m \<longrightarrow> int (leading_zero_bits (pow_digest H base j)) < d))"
      proof (rule ex_cong1)
        fix m
        have "(\<forall>j. n \<le> j \<and> j < m \<longrightarrow> int (leading_zero_bits (pow_digest H base j)) < d) \<longleftrightarrow>
            (\<forall>j. n + 1 \<le> j \<and> j < m \<longrightarrow> int (leading_zero_bits (pow_digest H base j)) < d)"
        proof (intro iffI allI impI)
          fix j
          assume a: "\<forall>j. n + 1 \<le> j \<and> j < m \<longrightarrow> int (leading_zero_bits (pow_digest H base j)) < d" "n \<le> j \<and> j < m"
          show "int (leading_zero_bits (pow_digest H base j)) < d" using a False by (cases "j = n") auto
        qed auto
        moreover have "n \<le> m \<and> x = pow_digest H base m \<and> d \<le> int (leading_zero_bits x) \<longleftrightarrow>
            n + 1 \<le> m \<and> x = pow_digest H base m \<and> d \<le> int (leading_zero_bits x)"
          using False by (cases "m = n") auto
        ultimately show "n \<le> m \<and> m < UINT64_LIMIT \<and> x = pow_digest H base m \<and> d \<le> int (leading_zero_bits x) \<and>
            (\<forall>j. n \<le> j \<and> j < m \<longrightarrow> int (leading_zero_bits (pow_digest H base j)) < d) \<longleftrightarrow>
          n + 1 \<le> m \<and> m < UINT64_LIMIT \<and> x = pow_digest H base m \<and> d \<le> int (leading_zero_bits x) \<and>
            (\<forall>j. n + 1 \<le> j \<and> j < m \<longrightarrow> int (leading_zero_bits (pow_digest H base j)) < d)" by blast
      qed
      ultimately show ?thesis using 1(1) [OF less refl False] less by simp
    qed
  qed
qed

lemma pow_search_Inl: "pow_search H base d n = Inl e \<Longrightarrow> e = PowExhausted"
proof (induction H base d n rule: pow_search.induct)
  case (1 H base d n)
  show ?case
  proof (cases "n < UINT64_LIMIT \<and> \<not> d \<le> int (leading_zero_bits (pow_digest H base n))")
    case True
    then show ?thesis using 1(1) 1(2) by (subst (asm) (2) pow_search.simps) (simp add: Let_def)
  next
    case False
    then show ?thesis using 1(2) by (subst (asm) pow_search.simps) (auto simp: Let_def split: if_splits)
  qed
qed

definition pow_hit :: "(bytes \<Rightarrow> bytes) \<Rightarrow> bytes \<Rightarrow> int \<Rightarrow> nat \<Rightarrow> bool" where
  "pow_hit blake3 base d n \<longleftrightarrow> from_be (pow_digest blake3 base n) < 2 ^ nat (256 - d)"

text \<open>C38: The proof of work. A difficulty outside 0..256 is a \<open>ValueError\<close>. Otherwise the search ends,
  and it returns a digest exactly when that digest is the one of the smallest 64-bit counter whose
  digest, read as a big-endian number of 256 bits, is below \<open>2 ^ (256 - difficulty)\<close>; it raises
  \<open>PowExhausted\<close> exactly when no counter below \<open>2 ^ 64\<close> has such a digest.\<close>

theorem compute_pow_smallest:
  assumes "\<And>b. length (blake3 b) = 32" "utf8_encode seed = Inr s"
  shows "(d < 0 \<or> 256 < d \<longrightarrow> compute_pow blake3 seed d = Inl ValueError) \<and>
    (0 \<le> d \<and> d \<le> 256 \<longrightarrow>
      (compute_pow blake3 seed d = Inr x \<longleftrightarrow>
         (\<exists>n < UINT64_LIMIT. x = pow_digest blake3 (POW_PREFIX @ s) n \<and> pow_hit blake3 (POW_PREFIX @ s) d n \<and> (\<forall>m < n. \<not> pow_hit blake3 (POW_PREFIX @ s) d m))) \<and>
      (compute_pow blake3 seed d = Inl PowExhausted \<longleftrightarrow> (\<forall>n < UINT64_LIMIT. \<not> pow_hit blake3 (POW_PREFIX @ s) d n)))"
proof -
  let ?hit = "pow_hit blake3 (POW_PREFIX @ s) d"
  have out: "d < 0 \<or> 256 < d \<longrightarrow> compute_pow blake3 seed d = Inl ValueError"
    by (auto simp: compute_pow_def DIGEST_BITS_def)
  have "(compute_pow blake3 seed d = Inr x \<longleftrightarrow>
         (\<exists>n < UINT64_LIMIT. x = pow_digest blake3 (POW_PREFIX @ s) n \<and> pow_hit blake3 (POW_PREFIX @ s) d n \<and> (\<forall>m < n. \<not> pow_hit blake3 (POW_PREFIX @ s) d m))) \<and>
      (compute_pow blake3 seed d = Inl PowExhausted \<longleftrightarrow> (\<forall>n < UINT64_LIMIT. \<not> pow_hit blake3 (POW_PREFIX @ s) d n))" if d: "0 \<le> d" "d \<le> 256" for x
  proof -
    have c: "compute_pow blake3 seed d = pow_search blake3 (POW_PREFIX @ s) d 0"
      using assms(2) d by (simp add: compute_pow_def DIGEST_BITS_def)
    have h: "?hit n \<longleftrightarrow> d \<le> int (leading_zero_bits (pow_digest blake3 (POW_PREFIX @ s) n))" for n
      using leading_zero_bits_bound [of "nat d" "pow_digest blake3 (POW_PREFIX @ s) n"] assms(1) d
      by (simp add: pow_hit_def pow_digest_def nat_diff_distrib nat_le_iff)
    have found: "compute_pow blake3 seed d = Inr y \<longleftrightarrow>
        (\<exists>n < UINT64_LIMIT. y = pow_digest blake3 (POW_PREFIX @ s) n \<and> pow_hit blake3 (POW_PREFIX @ s) d n \<and> (\<forall>m < n. \<not> pow_hit blake3 (POW_PREFIX @ s) d m))" for y
      unfolding c using pow_search_Inr [of 0 blake3 "POW_PREFIX @ s" d y] by (auto simp: h not_le)
    have "compute_pow blake3 seed d = Inl PowExhausted \<longleftrightarrow> (\<forall>y. compute_pow blake3 seed d \<noteq> Inr y)"
      using pow_search_Inl [of blake3 "POW_PREFIX @ s" d 0] unfolding c by (cases "pow_search blake3 (POW_PREFIX @ s) d 0") auto
    also have "\<dots> \<longleftrightarrow> (\<forall>n < UINT64_LIMIT. \<not> pow_hit blake3 (POW_PREFIX @ s) d n)"
    proof
      assume none: "\<forall>y. compute_pow blake3 seed d \<noteq> Inr y"
      show "\<forall>n < UINT64_LIMIT. \<not> pow_hit blake3 (POW_PREFIX @ s) d n"
      proof (intro allI impI notI)
        fix n
        assume "n < UINT64_LIMIT" "?hit n"
        then have "(LEAST m. ?hit m) < UINT64_LIMIT" "?hit (LEAST m. ?hit m)" "\<forall>m < (LEAST m. ?hit m). \<not> pow_hit blake3 (POW_PREFIX @ s) d m"
          by (auto intro: LeastI dest: not_less_Least le_less_trans [OF Least_le])
        then show False using none found by blast
      qed
    qed (auto simp: found)
    finally show ?thesis using found by blast
  qed
  with out show ?thesis by blast
qed

lemma from_be_replicate: "from_be (replicate k 0) = 0" "from_be (replicate k 255) = 256 ^ k - 1"
  by (induction k) (simp_all add: from_be_Cons)

lemma compute_pow_smallest_witness:
  "compute_pow (\<lambda>b. replicate 32 0) [97] 20 = Inr (replicate 32 0) \<and>
   compute_pow (\<lambda>b. replicate 32 255) [97] 20 = Inl PowExhausted"
proof
  have s: "utf8_encode [97] = Inr [97]" by (simp add: utf8_encode_def is_scalar_def is_surrogate_def utf8_char_def)
  have l: "length (replicate 32 (v :: byte)) = 32" for v by simp
  have z: "pow_hit (\<lambda>b. replicate 32 0) base 20 n" "\<not> pow_hit (\<lambda>b. replicate 32 255) base 20 n" for base n
    unfolding pow_hit_def pow_digest_def from_be_replicate by simp_all
  have "(0 :: nat) < UINT64_LIMIT" by (simp add: UINT64_LIMIT_def)
  then have "\<exists>n < UINT64_LIMIT. replicate 32 0 = pow_digest (\<lambda>b. replicate 32 0) (POW_PREFIX @ [97]) n \<and>
      pow_hit (\<lambda>b. replicate 32 0) (POW_PREFIX @ [97]) 20 n \<and> (\<forall>m < n. \<not> pow_hit (\<lambda>b. replicate 32 0) (POW_PREFIX @ [97]) 20 m)"
    using z(1) by (intro exI [of _ 0]) (simp add: pow_digest_def)
  then show "compute_pow (\<lambda>b. replicate 32 0) [97] 20 = Inr (replicate 32 0)"
    using compute_pow_smallest [OF l s, where d = 20 and x = "replicate 32 0"] by simp
  show "compute_pow (\<lambda>b. replicate 32 255) [97] 20 = Inl PowExhausted"
    using compute_pow_smallest [OF l s, where d = 20] z(2) by simp
qed

end
