(* ===== verification/Bip32.thy ===== *)
theory Bip32
  imports Py_Hash512 Py_Str Py_Json
begin

text \<open>
  \<open>keyvault/_bip32.py\<close> and the BIP44 path of \<open>keyvault/ethereum.py\<close>: private-only hierarchical key
  derivation over secp256k1. The public key of a scalar (\<open>eth_keys\<close>) is a parameter that may raise.
\<close>

section \<open>Definitions\<close>

definition SECP256K1_N :: nat where
  "SECP256K1_N = 0xFFFFFFFFFFFFFFFFFFFFFFFFFFFFFFFEBAAEDCE6AF48A03BBFD25E8CD0364141"

definition MASTER_HMAC_KEY :: bytes where
  "MASTER_HMAC_KEY = bytes_lit ''Bitcoin seed''"

definition HARDENED_OFFSET :: nat where
  "HARDENED_OFFSET = 0x80000000"

type_synonym eth_public = "bytes \<Rightarrow> bytes result"

definition compressed_public_key :: "eth_public \<Rightarrow> bytes \<Rightarrow> bytes result" where
  "compressed_public_key P private_key =
     r_bind (P private_key) (\<lambda>pub.
       let x = take 32 pub; y = drop 32 pub
       in if y = [] then Inl IndexError
          else Inr ((if last y AND 1 = 0 then 2 else 3) # x))"

definition master_key_from_seed :: "bytes \<Rightarrow> (bytes \<times> bytes) result" where
  "master_key_from_seed seed =
     (let i = hmac_sha512 MASTER_HMAC_KEY seed; il = take 32 i; ir = drop 32 i
      in if from_be il = 0 \<or> SECP256K1_N \<le> from_be il then Inl ValueError else Inr (il, ir))"

definition ckd_data :: "eth_public \<Rightarrow> bytes \<Rightarrow> nat \<Rightarrow> bytes result" where
  "ckd_data P private_key index =
     (if HARDENED_OFFSET \<le> index then r_bind (to_be 4 index) (\<lambda>i. Inr ([0] @ private_key @ i))
      else r_bind (compressed_public_key P private_key) (\<lambda>c. r_bind (to_be 4 index) (\<lambda>i. Inr (c @ i))))"

definition ckd_priv :: "eth_public \<Rightarrow> bytes \<Rightarrow> bytes \<Rightarrow> nat \<Rightarrow> (bytes \<times> bytes) result" where
  "ckd_priv P private_key chain_code index =
     r_bind (ckd_data P private_key index) (\<lambda>data.
       let i = hmac_sha512 chain_code data; il = take 32 i; ir = drop 32 i
       in if SECP256K1_N \<le> from_be il then Inl ValueError
          else let child = (from_be il + from_be private_key) mod SECP256K1_N
               in if child = 0 then Inl ValueError
                  else r_bind (to_be 32 child) (\<lambda>k. Inr (k, ir)))"

definition parse_index :: "('x) ucd_scheme \<Rightarrow> py_str \<Rightarrow> nat result" where
  "parse_index U segment =
     (let hardened = segment \<noteq> [] \<and> last segment \<in> {39, 104, 72};
          raw = (if hardened then butlast segment else segment)
      in r_bind (py_int U raw) (\<lambda>number.
           if number < 0 \<or> int HARDENED_OFFSET \<le> number then Inl ValueError
           else Inr (if hardened then nat number + HARDENED_OFFSET else nat number)))"

fun derive_segments :: "('x) ucd_scheme \<Rightarrow> eth_public \<Rightarrow> bytes \<Rightarrow> bytes \<Rightarrow> py_str list \<Rightarrow> bytes result" where
  "derive_segments U P key chain [] = Inr key"
| "derive_segments U P key chain (segment # segments) =
     (if segment = [] then Inl ValueError
      else r_bind (parse_index U segment) (\<lambda>index.
        r_bind (ckd_priv P key chain index) (\<lambda>(key', chain').
          derive_segments U P key' chain' segments)))"

definition derive_path :: "('x) ucd_scheme \<Rightarrow> eth_public \<Rightarrow> bytes \<Rightarrow> py_str \<Rightarrow> bytes result" where
  "derive_path U P seed path =
     (let segments = split_on 47 path
      in if segments = [] \<or> hd segments \<noteq> str_lit ''m'' then Inl ValueError
         else r_bind (master_key_from_seed seed) (\<lambda>(key, chain).
           derive_segments U P key chain (tl segments)))"

text \<open>\<open>f"m/44'/60'/{account}'/{change}/{index}"\<close> for numbers that are not negative.\<close>

definition ETH_COIN_TYPE :: nat where "ETH_COIN_TYPE = 60"

definition bip44_eth_path :: "nat \<Rightarrow> nat \<Rightarrow> nat \<Rightarrow> py_str" where
  "bip44_eth_path index account change =
     str_lit ''m/44'' @ [39, 47] @ dec ETH_COIN_TYPE @ [39, 47] @ dec account @ [39, 47] @ dec change @ [47] @ dec index"

section \<open>Reading a decimal number back\<close>

lemma is_digit_iff: "is_digit c \<longleftrightarrow> 48 \<le> c \<and> c \<le> 57"
  by (auto simp: is_digit_def)

lemma int_digits_ascii:
  assumes "ucd_ok U" "\<forall>c \<in> set s. is_digit c"
  shows "int_digits U acc s = Some (foldl (\<lambda>a c. 10 * a + (c - 48)) acc s)"
  using assms(2)
proof (induction s arbitrary: acc)
  case (Cons c s)
  then have "48 \<le> c" "c \<le> 57" by (simp_all add: is_digit_iff)
  moreover from this have "uc_decimal U c = Some (c - 48)" using assms(1) by (simp add: ucd_ok_def)
  ultimately show ?case using Cons by simp
qed simp

lemma digit_not_space: "is_digit c \<Longrightarrow> \<not> is_str_space c"
  by (auto simp: is_digit_iff is_str_space_def)

lemma py_int_dec:
  assumes "ucd_ok U" "length (dec n) \<le> 4300"
  shows "py_int U (dec n) = Inr (int n)"
proof -
  obtain c s where c: "dec n = c # s" using dec_digits(2) by (cases "dec n") auto
  have d: "\<forall>x \<in> set (dec n). is_digit x" by (rule dec_digits(1))
  then have cd: "48 \<le> c" "c \<le> 57" using c by (simp_all add: is_digit_iff)
  then have u: "uc_decimal U c = Some (c - 48)" using assms(1) by (simp add: ucd_ok_def)
  have "foldl (\<lambda>a x. 10 * a + (x - 48)) (c - 48) s = n"
    using digits_value_dec [of n] c by (simp add: digits_value_def)
  then have "int_digits U (c - 48) s = Some n"
    using int_digits_ascii [OF assms(1), of s "c - 48"] d c by simp
  moreover have "length (filter (\<lambda>c. c \<noteq> 95) (dec n)) \<le> 4300"
    using assms(2) length_filter_le [of _ "dec n"] le_trans by blast
  ultimately have "int_unsigned U (dec n) = Some n"
    using u c by (simp add: int_unsigned_def)
  moreover have "strip is_str_space (dec n) = dec n" using d digit_not_space by (intro strip_none) auto
  ultimately show ?thesis using c cd by (simp add: py_int_def Let_def)
qed

lemma length_dec_index: "n < HARDENED_OFFSET \<Longrightarrow> length (dec n) \<le> 4300"
  using length_dec [of n 10] by (simp add: HARDENED_OFFSET_def)

lemma parse_index_dec:
  assumes "ucd_ok U" "n < HARDENED_OFFSET"
  shows "parse_index U (dec n) = Inr n"
proof -
  have "last (dec n) \<in> set (dec n)" using dec_digits(2) by simp
  then have "is_digit (last (dec n))" using dec_digits(1) by blast
  then have "last (dec n) \<notin> {39, 104, 72}" by (auto simp: is_digit_def)
  then show ?thesis
    using py_int_dec [OF assms(1) length_dec_index [OF assms(2)]] assms(2) by (simp add: parse_index_def Let_def)
qed

lemma parse_index_hardened:
  assumes "ucd_ok U" "n < HARDENED_OFFSET" "h \<in> {39, 104, 72}"
  shows "parse_index U (dec n @ [h]) = Inr (n + HARDENED_OFFSET)"
  using py_int_dec [OF assms(1) length_dec_index [OF assms(2)]] assms(2,3)
  by (auto simp: parse_index_def Let_def)

lemma parse_index_less: "parse_index U s = Inr i \<Longrightarrow> i < 2 ^ 32"
  by (auto simp: parse_index_def Let_def r_bind_Inr_iff HARDENED_OFFSET_def split: if_splits)

lemma py_int_raises: "raises (\<lambda>e. e = ValueError) (py_int U s)"
  by (simp add: py_int_def Let_def split: option.split)

lemma parse_index_raises: "raises (\<lambda>e. e = ValueError) (parse_index U s)"
  unfolding parse_index_def Let_def by (intro raises_bind py_int_raises) simp

lemma parse_index_dec_large:
  assumes "ucd_ok U" "\<not> n < HARDENED_OFFSET"
  shows "parse_index U (dec n @ [39]) = Inl ValueError" "parse_index U (dec n) = Inl ValueError"
proof -
  have "last (dec n) \<in> set (dec n)" using dec_digits(2) by simp
  then have "is_digit (last (dec n))" using dec_digits(1) by blast
  then have l: "last (dec n) \<notin> {39, 104, 72}" by (auto simp: is_digit_def)
  have "py_int U (dec n) = Inl ValueError \<or> py_int U (dec n) = Inr (int n)"
  proof (cases "length (dec n) \<le> 4300")
    case False
    have f: "filter (\<lambda>c. c \<noteq> 95) (dec n) = dec n"
      using dec_digits(1) [of n] by (auto simp: is_digit_def filter_id_conv)
    have d: "\<forall>x \<in> set (dec n). is_digit x" by (rule dec_digits(1))
    obtain c s where c: "dec n = c # s" using dec_digits(2) by (cases "dec n") auto
    then have "c \<notin> {43, 45}" using d by (auto simp: is_digit_def)
    moreover have "strip is_str_space (dec n) = dec n" using d digit_not_space by (intro strip_none) auto
    moreover have "int_unsigned U (dec n) = None"
      using False f c by (auto simp: int_unsigned_def split: option.splits)
    ultimately show ?thesis using c by (simp add: py_int_def Let_def)
  qed (simp add: py_int_dec assms(1))
  then show "parse_index U (dec n @ [39]) = Inl ValueError" "parse_index U (dec n) = Inl ValueError"
    using l assms(2) by (auto simp: parse_index_def Let_def)
qed

lemma parse_index_decimal:
  assumes "ucd_ok U"
  shows "parse_index U (dec n) = (if n < HARDENED_OFFSET then Inr n else Inl ValueError)"
    "parse_index U (dec n @ [39]) = (if n < HARDENED_OFFSET then Inr (n + HARDENED_OFFSET) else Inl ValueError)"
  using assms by (simp_all add: parse_index_dec parse_index_hardened parse_index_dec_large)

section \<open>Steps of a derivation\<close>

text \<open>The specification: the indices of a path and the child derivations they name, in order.\<close>

fun ckd_steps :: "eth_public \<Rightarrow> bytes \<times> bytes \<Rightarrow> nat list \<Rightarrow> (bytes \<times> bytes) result" where
  "ckd_steps P kc [] = Inr kc"
| "ckd_steps P kc (i # is) = r_bind (ckd_priv P (fst kc) (snd kc) i) (\<lambda>kc'. ckd_steps P kc' is)"

definition valid_scalar :: "bytes \<Rightarrow> bool" where
  "valid_scalar k \<longleftrightarrow> length k = 32 \<and> 0 < from_be k \<and> from_be k < SECP256K1_N"

lemma order_less: "SECP256K1_N \<le> 256 ^ 32" "0 < SECP256K1_N"
  by (simp_all add: SECP256K1_N_def)

lemma master_key_valid: "master_key_from_seed seed = Inr (k, c) \<Longrightarrow> valid_scalar k \<and> length c = 32"
  by (auto simp: master_key_from_seed_def Let_def valid_scalar_def split: if_splits)

lemma ckd_priv_valid: "ckd_priv P key chain i = Inr (k, c) \<Longrightarrow> valid_scalar k \<and> length c = 32"
  using order_less
  by (auto simp: ckd_priv_def Let_def valid_scalar_def r_bind_Inr_iff to_be_def from_be_digits split: if_splits)

lemma ckd_steps_valid: "ckd_steps P kc is = Inr (k, c) \<Longrightarrow> valid_scalar (fst kc) \<Longrightarrow> valid_scalar k"
proof (induction "is" arbitrary: kc)
  case (Cons i "is")
  then show ?case using ckd_priv_valid by (fastforce simp: r_bind_Inr_iff)
qed simp

lemma derive_segments_Inr:
  "derive_segments U P key chain ss = Inr k \<longleftrightarrow>
     (\<exists>is c. list_all2 (\<lambda>s i. s \<noteq> [] \<and> parse_index U s = Inr i) ss is \<and> ckd_steps P (key, chain) is = Inr (k, c))"
proof (induction ss arbitrary: key chain)
  case (Cons s ss)
  show ?case by (auto simp: r_bind_Inr_iff Cons.IH list_all2_Cons1 split: prod.splits) fastforce+
qed simp

lemma derive_segments_indices:
  "list_all2 (\<lambda>s i. s \<noteq> [] \<and> parse_index U s = Inr i) ss is \<Longrightarrow>
     derive_segments U P key chain ss = r_bind (ckd_steps P (key, chain) is) (\<lambda>kc. Inr (fst kc))"
proof (induction arbitrary: key chain rule: list_all2_induct)
  case (Cons s ss i "is")
  then show ?case by (cases "ckd_priv P key chain i") (auto split: prod.splits)
qed simp

lemma ckd_steps_hardened: "\<forall>i \<in> set is. HARDENED_OFFSET \<le> i \<Longrightarrow> ckd_steps P' kc is = ckd_steps P kc is"
proof (induction "is" arbitrary: kc)
  case (Cons i "is")
  then have "ckd_priv P' (fst kc) (snd kc) i = ckd_priv P (fst kc) (snd kc) i"
    by (simp add: ckd_priv_def ckd_data_def)
  then show ?case using Cons by simp
qed simp

lemma slash_not_in_dec: "47 \<notin> set (dec n)"
  using dec_digits(1) [of n] by (auto simp: is_digit_def)

lemma split_bip44:
  "split_on 47 (bip44_eth_path index account change) =
     [[109], dec 44 @ [39], dec ETH_COIN_TYPE @ [39], dec account @ [39], dec change, dec index]"
proof -
  have d: "dec 44 = [52, 52]" by (simp add: dec.simps)
  have "split_on 47 (bip44_eth_path index account change) =
     split_on 47 ([109] @ 47 # (dec 44 @ [39]) @ 47 # (dec ETH_COIN_TYPE @ [39]) @ 47 # (dec account @ [39]) @ 47 # dec change @ 47 # dec index)"
    by (simp add: bip44_eth_path_def str_lit_def d)
  also have "\<dots> = [[109], dec 44 @ [39], dec ETH_COIN_TYPE @ [39], dec account @ [39], dec change, dec index]"
    by (subst split_on_append split_on_none, simp add: slash_not_in_dec)+ simp
  finally show ?thesis .
qed

section \<open>Properties\<close>

lemma derive_path_m:
  "split_on 47 path = str_lit ''m'' # segs \<Longrightarrow>
     derive_path U P seed path =
       r_bind (master_key_from_seed seed) (\<lambda>kc. derive_segments U P (fst kc) (snd kc) segs)"
  by (cases "master_key_from_seed seed") (auto simp: derive_path_def Let_def)

text \<open>C39: \<open>derive_path\<close> returns a key exactly for a path that is \<open>m\<close> followed by non-empty segments which
  read as child numbers, where the seed has a master key and every child derivation succeeds; the key is then the
  one the child derivations reach from the master key in the order of the path. Every number is below 2 to the 32,
  and the key is a 32-byte secp256k1 scalar between 1 and n - 1.\<close>

theorem derive_path_iff:
  "derive_path U P seed path = Inr k \<longleftrightarrow>
    (\<exists>segs is kc c. split_on 47 path = str_lit ''m'' # segs \<and>
       list_all2 (\<lambda>s i. s \<noteq> [] \<and> parse_index U s = Inr i) segs is \<and> list_all (\<lambda>i. i < 2 ^ 32) is \<and>
       master_key_from_seed seed = Inr kc \<and> ckd_steps P kc is = Inr (k, c) \<and>
       length k = 32 \<and> 1 \<le> from_be k \<and> from_be k \<le> SECP256K1_N - 1)"
  (is "?l \<longleftrightarrow> ?r")
proof
  assume ?l
  obtain segs where segs: "split_on 47 path = str_lit ''m'' # segs"
    using \<open>?l\<close> by (cases "split_on 47 path") (auto simp: derive_path_def Let_def split: if_splits)
  obtain kc where kc: "master_key_from_seed seed = Inr kc" "derive_segments U P (fst kc) (snd kc) segs = Inr k"
    using \<open>?l\<close> unfolding derive_path_m [OF segs] by (auto simp: r_bind_Inr_iff)
  obtain "is" c where ix: "list_all2 (\<lambda>s i. s \<noteq> [] \<and> parse_index U s = Inr i) segs is"
      "ckd_steps P kc is = Inr (k, c)"
    using kc(2) by (auto simp: derive_segments_Inr)
  have "valid_scalar k" using ckd_steps_valid [OF ix(2)] master_key_valid [of seed "fst kc" "snd kc"] kc(1) by simp
  moreover have "list_all (\<lambda>i. i < 2 ^ 32) is"
    using ix(1) by (induction rule: list_all2_induct) (auto dest: parse_index_less)
  ultimately show ?r using segs ix kc(1) by (auto simp: valid_scalar_def)
next
  assume ?r
  then obtain segs "is" kc c where s: "split_on 47 path = str_lit ''m'' # segs"
      "list_all2 (\<lambda>s i. s \<noteq> [] \<and> parse_index U s = Inr i) segs is"
      "master_key_from_seed seed = Inr kc" "ckd_steps P kc is = Inr (k, c)" by blast
  then show ?l unfolding derive_path_m [OF s(1)] by (auto simp: derive_segments_Inr)
qed

text \<open>The BIP44 path of an Ethereum account reads back as the five child numbers
  44', 60', account', change, index, so the account key is the master key after exactly these five
  derivations; where a number needs 32 bits no key is derived.\<close>

lemma derive_bip44:
  assumes "ucd_ok U"
  shows "(account < 2 ^ 31 \<and> change < 2 ^ 31 \<and> index < 2 ^ 31 \<longrightarrow>
       derive_path U P seed (bip44_eth_path index account change) =
         r_bind (master_key_from_seed seed) (\<lambda>kc.
           r_bind (ckd_steps P kc [44 + 2 ^ 31, 60 + 2 ^ 31, account + 2 ^ 31, change, index]) (\<lambda>kc'. Inr (fst kc')))) \<and>
     (\<not> (account < 2 ^ 31 \<and> change < 2 ^ 31 \<and> index < 2 ^ 31) \<longrightarrow>
       (\<exists>e. derive_path U P seed (bip44_eth_path index account change) = Inl e))"
proof -
  let ?segs = "[dec 44 @ [39], dec ETH_COIN_TYPE @ [39], dec account @ [39], dec change, dec index]"
  have m: "split_on 47 (bip44_eth_path index account change) = str_lit ''m'' # ?segs"
    by (simp add: split_bip44 str_lit_def)
  have H: "HARDENED_OFFSET = 2 ^ 31" by (simp add: HARDENED_OFFSET_def)
  show ?thesis
  proof (cases "account < 2 ^ 31 \<and> change < 2 ^ 31 \<and> index < 2 ^ 31")
    case True
    then have "list_all2 (\<lambda>s i. s \<noteq> [] \<and> parse_index U s = Inr i) ?segs
        [44 + 2 ^ 31, 60 + 2 ^ 31, account + 2 ^ 31, change, index]"
      using assms dec_digits(2) by (simp add: parse_index_decimal H ETH_COIN_TYPE_def)
    then show ?thesis unfolding derive_path_m [OF m] using True by (simp only: derive_segments_indices prod.collapse simp_thms)
  next
    case False
    have "derive_path U P seed (bip44_eth_path index account change) \<noteq> Inr k" for k
    proof
      assume "derive_path U P seed (bip44_eth_path index account change) = Inr k"
      then have "\<exists>is. list_all2 (\<lambda>s i. s \<noteq> [] \<and> parse_index U s = Inr i) ?segs is"
        unfolding derive_path_m [OF m] r_bind_Inr_iff derive_segments_Inr by blast
      then show False using False assms by (auto simp: list_all2_Cons1 parse_index_decimal H split: if_splits)
    qed
    then show ?thesis using False by (cases "derive_path U P seed (bip44_eth_path index account change)") auto
  qed
qed

lemma derive_bip44_witness:
  "derive_path demo_ucd (\<lambda>k. Inr (replicate 64 1)) [7] (bip44_eth_path 2 1 0) =
     r_bind (master_key_from_seed [7]) (\<lambda>kc.
       r_bind (ckd_steps (\<lambda>k. Inr (replicate 64 1)) kc [44 + 2 ^ 31, 60 + 2 ^ 31, 1 + 2 ^ 31, 0, 2]) (\<lambda>kc'. Inr (fst kc')))"
  using derive_bip44 [OF demo_ucd_ok, where account = 1 and change = 0 and index = 2] by simp

end
