(* ===== verification/Proxy_Env.thy ===== *)
theory Proxy_Env
  imports Py_Str Py_Hash Py_Json
begin

text \<open>
  \<open>network/proxy_env.py\<close>: the pure mapping from a network path to the proxy environment variables. An
  environment is a map from variable names to values; \<open>urllib.parse.quote(token, safe="")\<close> is written out.
\<close>

section \<open>Definitions\<close>

definition LOCALHOST_DEFAULTS :: "py_str list" where
  "LOCALHOST_DEFAULTS = [str_lit ''localhost'', str_lit ''127.0.0.1'', str_lit ''::1'']"

definition UPPER_PROXY_KEYS :: "py_str list" where
  "UPPER_PROXY_KEYS = [str_lit ''HTTPS_PROXY'', str_lit ''HTTP_PROXY'', str_lit ''ALL_PROXY'']"

definition LOWER_PROXY_KEYS :: "py_str list" where
  "LOWER_PROXY_KEYS = [str_lit ''https_proxy'', str_lit ''http_proxy'', str_lit ''all_proxy'']"

definition PROXY_KEYS :: "py_str list" where
  "PROXY_KEYS = UPPER_PROXY_KEYS @ LOWER_PROXY_KEYS"

definition MANAGED_KEYS :: "py_str set" where
  "MANAGED_KEYS = set (PROXY_KEYS @ [str_lit ''NO_PROXY'', str_lit ''no_proxy''])"

definition DEFAULT_TOR_SOCKS_PORT :: nat where "DEFAULT_TOR_SOCKS_PORT = 9050"

definition MAX_SOCKS_CRED_LEN :: nat where "MAX_SOCKS_CRED_LEN = 255"

definition managed_var_names :: "py_str set" where
  "managed_var_names = MANAGED_KEYS"

definition ACTIVE_PATHS :: "py_str list" where
  "ACTIVE_PATHS = [str_lit ''tor'', str_lit ''vpn'', str_lit ''clearnet'']"

text \<open>\<open>quote\<close> with no safe character beyond the unreserved ones: every other byte is \<open>%XX\<close>.\<close>

definition is_unreserved :: "nat \<Rightarrow> bool" where
  "is_unreserved c \<longleftrightarrow> (48 \<le> c \<and> c \<le> 57) \<or> (65 \<le> c \<and> c \<le> 90) \<or> (97 \<le> c \<and> c \<le> 122) \<or> c \<in> {95, 46, 45, 126}"

definition upper_hex_digit :: "nat \<Rightarrow> nat" where
  "upper_hex_digit n = (if n < 10 then 48 + n else 55 + n)"

definition quote_byte :: "byte \<Rightarrow> py_str" where
  "quote_byte b =
     (if is_unreserved (unat b) then [unat b]
      else [37, upper_hex_digit (unat b div 16), upper_hex_digit (unat b mod 16)])"

definition quote :: "py_str \<Rightarrow> py_str result" where
  "quote s = r_bind (utf8_encode s) (\<lambda>bs. Inr (concat (map quote_byte bs)))"

definition tor_proxy_url :: "nat \<Rightarrow> py_str option \<Rightarrow> py_str result" where
  "tor_proxy_url socks_port isolation_token =
     (case isolation_token of
        Some (c # cs) \<Rightarrow>
          r_bind (quote (c # cs)) (\<lambda>q.
          r_bind (if MAX_SOCKS_CRED_LEN < length q
                  then r_bind (utf8_encode (c # cs)) (\<lambda>bs. Inr (sha256_hex bs)) else Inr q) (\<lambda>cred.
            Inr (str_lit ''socks5h://'' @ cred @ [58] @ cred @ str_lit ''@127.0.0.1:'' @ dec socks_port)))
      | _ \<Rightarrow> Inr (str_lit ''socks5h://127.0.0.1:'' @ dec socks_port))"

text \<open>The loop of \<open>_build_no_proxy\<close> over the entries, with \<open>seen\<close> and \<open>ordered\<close>.\<close>

fun no_proxy_loop :: "py_str set \<Rightarrow> py_str list \<Rightarrow> py_str list \<Rightarrow> py_str list" where
  "no_proxy_loop seen ordered [] = ordered"
| "no_proxy_loop seen ordered (e # es) =
     (if e \<in> seen then no_proxy_loop seen ordered es
      else no_proxy_loop (insert e seen) (ordered @ [e]) es)"

definition build_no_proxy :: "py_str list \<Rightarrow> py_str" where
  "build_no_proxy extras = py_join [44] (no_proxy_loop {} [] (LOCALHOST_DEFAULTS @ extras))"

type_synonym env = "py_str \<rightharpoonup> py_str"

fun set_keys :: "env \<Rightarrow> py_str list \<Rightarrow> py_str \<Rightarrow> env" where
  "set_keys env [] v = env"
| "set_keys env (k # ks) v = set_keys (env(k \<mapsto> v)) ks v"

definition desired_env :: "py_str \<Rightarrow> nat \<Rightarrow> py_str list \<Rightarrow> py_str option \<Rightarrow> env result" where
  "desired_env path tor_socks_port no_proxy_extra isolation_token =
     (if path \<notin> set ACTIVE_PATHS then Inl UnknownPath
      else
        r_bind (if path = str_lit ''tor''
                then r_bind (tor_proxy_url tor_socks_port isolation_token) (\<lambda>url. Inr (set_keys (\<lambda>_. None) PROXY_KEYS url))
                else Inr (\<lambda>_. None)) (\<lambda>env.
          let v = build_no_proxy no_proxy_extra
          in Inr (env(str_lit ''NO_PROXY'' \<mapsto> v, str_lit ''no_proxy'' \<mapsto> v))))"

section \<open>Percent encoding\<close>

definition is_cred_char :: "nat \<Rightarrow> bool" where
  "is_cred_char c \<longleftrightarrow> is_unreserved c \<or> c = 37"

text \<open>Reading percent-encoded text back, to show that nothing is lost.\<close>

fun unquote :: "py_str \<Rightarrow> nat list" where
  "unquote (c # h # l # s) =
     (if c = 37 then (case (hex_value h, hex_value l) of (Some x, Some y) \<Rightarrow> (16 * x + y) # unquote s | _ \<Rightarrow> c # unquote (h # l # s))
      else c # unquote (h # l # s))"
| "unquote s = s"

lemma unquote_unreserved: "c \<noteq> 37 \<Longrightarrow> unquote (c # s) = c # unquote s"
  by (cases s rule: unquote.cases) auto

lemma upper_hex_digit_value: "n < 16 \<Longrightarrow> hex_value (upper_hex_digit n) = Some n"
  by (auto simp: hex_value_def upper_hex_digit_def)

lemma unreserved_not_percent: "is_unreserved c \<Longrightarrow> c \<noteq> 37"
  by (auto simp: is_unreserved_def)

lemma unquote_quote_bytes: "unquote (concat (map quote_byte bs)) = map unat bs"
proof (induction bs)
  case (Cons b bs)
  have "unat b div 16 < 16" "unat b mod 16 < 16" using unat_byte_less [of b] by auto
  then show ?case
    using Cons by (auto simp: quote_byte_def unquote_unreserved unreserved_not_percent upper_hex_digit_value)
qed simp

lemma quote_inject: "quote s = Inr q \<Longrightarrow> quote t = Inr q \<Longrightarrow> s = t"
proof -
  assume "quote s = Inr q" "quote t = Inr q"
  then obtain bs cs where q: "utf8_encode s = Inr bs" "utf8_encode t = Inr cs"
      "concat (map quote_byte bs) = concat (map quote_byte cs)" by (auto simp: quote_def r_bind_Inr_iff)
  then have "map unat bs = map unat cs" by (metis unquote_quote_bytes)
  then have "bs = cs" by (metis map_injective injI word_unat_eq_iff)
  then show "s = t" using q utf8_encode_inject by blast
qed

lemma quote_byte_chars: "list_all is_cred_char (quote_byte b)" "quote_byte b \<noteq> []"
proof -
  have "unat b div 16 < 16" "unat b mod 16 < 16" using unat_byte_less [of b] by auto
  then show "list_all is_cred_char (quote_byte b)" "quote_byte b \<noteq> []"
    by (auto simp: quote_byte_def is_cred_char_def is_unreserved_def upper_hex_digit_def)
qed

lemma quote_Nil: "quote s = Inr [] \<Longrightarrow> s = []"
  using quote_inject [of s "[]" "[]"] by (simp add: quote_def utf8_encode_def)

lemma quote_chars: "quote s = Inr q \<Longrightarrow> list_all is_cred_char q"
  using quote_byte_chars(1) by (auto simp: quote_def r_bind_Inr_iff list_all_iff)

lemma sha256_hex_chars: "list_all is_cred_char (sha256_hex bs)"
  using hex_of_bytes_lower [of "sha256 bs"]
  by (auto simp: sha256_hex_def list_all_iff is_lower_hex_def is_cred_char_def is_unreserved_def)

lemma cred_char_delims: "list_all is_cred_char s \<Longrightarrow> 58 \<notin> set s \<and> 64 \<notin> set s \<and> 47 \<notin> set s"
  by (auto simp: list_all_iff is_cred_char_def is_unreserved_def)

text \<open>The credential of a token.\<close>

definition socks_cred :: "py_str \<Rightarrow> py_str result" where
  "socks_cred token =
     r_bind (quote token) (\<lambda>q.
       if MAX_SOCKS_CRED_LEN < length q
       then r_bind (utf8_encode token) (\<lambda>bs. Inr (sha256_hex bs)) else Inr q)"

lemma tor_proxy_url_cred:
  "tor_proxy_url port (Some t) =
     (if t = [] then Inr (str_lit ''socks5h://127.0.0.1:'' @ dec port)
      else r_bind (socks_cred t) (\<lambda>cred.
        Inr (str_lit ''socks5h://'' @ cred @ [58] @ cred @ str_lit ''@127.0.0.1:'' @ dec port)))"
  by (cases t) (simp_all add: tor_proxy_url_def socks_cred_def r_bind_assoc)

lemma socks_cred_shape:
  assumes "socks_cred t = Inr cred" "t \<noteq> []"
  shows "list_all is_cred_char cred" "cred \<noteq> []" "length cred \<le> 255"
proof -
  obtain q where q: "quote t = Inr q"
      "(if MAX_SOCKS_CRED_LEN < length q then r_bind (utf8_encode t) (\<lambda>bs. Inr (sha256_hex bs)) else Inr q) = Inr cred"
    using assms(1) by (auto simp: socks_cred_def r_bind_Inr_iff)
  have "length cred = 64 \<and> list_all is_cred_char cred" if "MAX_SOCKS_CRED_LEN < length q"
    using that q(2) sha256_hex_chars by (auto simp: r_bind_Inr_iff)
  moreover have "cred = q" if "\<not> MAX_SOCKS_CRED_LEN < length q" using that q(2) by simp
  ultimately have "list_all is_cred_char cred \<and> cred \<noteq> [] \<and> length cred \<le> 255"
    using quote_chars [OF q(1)] quote_Nil [of t] q(1) assms(2)
    by (cases "MAX_SOCKS_CRED_LEN < length q") (auto simp: MAX_SOCKS_CRED_LEN_def)
  then show "list_all is_cred_char cred" "cred \<noteq> []" "length cred \<le> 255" by simp_all
qed

lemma dec_no_at: "64 \<notin> set (dec n)"
  using dec_digits(1) [of n] by (auto simp: is_digit_def)

text \<open>A token cannot break out of the userinfo of the Tor proxy URL. The URL is \<open>socks5h://\<close>, the
  credential as user name and as password, and the loopback address with the port, whatever the token; the
  credential consists of unreserved characters and \<open>%\<close>, is between 1 and 255 characters long, and the URL has
  exactly one \<open>@\<close>.\<close>

lemma tor_proxy_url_contained:
  assumes "tor_proxy_url port (Some token) = Inr url" "token \<noteq> []"
  shows "\<exists>cred. url = str_lit ''socks5h://'' @ cred @ [58] @ cred @ str_lit ''@127.0.0.1:'' @ dec port \<and>
     list_all is_cred_char cred \<and> 58 \<notin> set cred \<and> 64 \<notin> set cred \<and> 47 \<notin> set cred \<and>
     1 \<le> length cred \<and> length cred \<le> 255 \<and> filter (\<lambda>c. c = 64) url = [64] \<and>
     (\<exists>q. quote token = Inr q \<and> (length q \<le> 255 \<longrightarrow> cred = q))"
proof -
  obtain cred where c: "socks_cred token = Inr cred"
      "url = str_lit ''socks5h://'' @ cred @ [58] @ cred @ str_lit ''@127.0.0.1:'' @ dec port"
    using assms by (auto simp: tor_proxy_url_cred r_bind_Inr_iff)
  note shape = socks_cred_shape [OF c(1) assms(2)]
  note delims = cred_char_delims [OF shape(1)]
  have none: "filter (\<lambda>c. c = 64) cred = []" "filter (\<lambda>c. c = 64) (dec port) = []"
    using delims dec_no_at [of port] by (auto simp: filter_empty_conv)
  then have "filter (\<lambda>c. c = 64) url = [64]" unfolding c(2) by simp
  moreover have "\<exists>q. quote token = Inr q \<and> (length q \<le> 255 \<longrightarrow> cred = q)"
    using c(1) by (auto simp: socks_cred_def r_bind_Inr_iff MAX_SOCKS_CRED_LEN_def split: if_splits)
  moreover have "1 \<le> length cred" using shape(2) by (simp add: Suc_le_eq)
  ultimately show ?thesis using c(2) shape delims by blast
qed

lemma tor_proxy_url_contained_witness:
  "\<exists>url. tor_proxy_url 9050 (Some (str_lit ''a@b:1/'')) = Inr url \<and> filter (\<lambda>c. c = 64) url = [64]"
proof -
  have "\<exists>url. tor_proxy_url 9050 (Some (str_lit ''a@b:1/'')) = Inr url"
    by (simp add: tor_proxy_url_def quote_def utf8_encode_ascii is_ascii_def r_bind_assoc MAX_SOCKS_CRED_LEN_def)
  then obtain url where u: "tor_proxy_url 9050 (Some (str_lit ''a@b:1/'')) = Inr url" ..
  then show ?thesis using tor_proxy_url_contained [OF u] by fastforce
qed

text \<open>Circuit isolation. Two non-empty tokens that give the same URL are the same token, or exactly one of
  them has been replaced by its digest, or their digests collide. (A token spelled as the digest of a long token does share its
  URL.)\<close>

lemma isolation_tokens:
  assumes "tor_proxy_url port (Some s) = Inr url" "tor_proxy_url port (Some t) = Inr url" "s \<noteq> []" "t \<noteq> []"
  shows "\<exists>a b p q. quote s = Inr a \<and> quote t = Inr b \<and> utf8_encode s = Inr p \<and> utf8_encode t = Inr q \<and>
     (s = t \<or> (length a \<le> 255) \<noteq> (length b \<le> 255) \<or>
      (255 < length a \<and> 255 < length b \<and> p \<noteq> q \<and> sha256 p = sha256 q))"
proof -
  obtain c d where c: "socks_cred s = Inr c" "socks_cred t = Inr d"
      "url = str_lit ''socks5h://'' @ c @ [58] @ c @ str_lit ''@127.0.0.1:'' @ dec port"
      "url = str_lit ''socks5h://'' @ d @ [58] @ d @ str_lit ''@127.0.0.1:'' @ dec port"
    using assms by (auto simp: tor_proxy_url_cred r_bind_Inr_iff)
  have "58 \<notin> set c" "58 \<notin> set d"
    using socks_cred_shape(1) [OF c(1) assms(3)] socks_cred_shape(1) [OF c(2) assms(4)] cred_char_delims by blast+
  moreover have "c @ 58 # (c @ str_lit ''@127.0.0.1:'' @ dec port) = d @ 58 # (d @ str_lit ''@127.0.0.1:'' @ dec port)"
    using c(3,4) by simp
  ultimately have cd: "c = d"
    using partition_at_append [of 58 c] partition_at_append [of 58 d] by (metis prod.inject)
  obtain a b p q where ab: "quote s = Inr a" "quote t = Inr b" "utf8_encode s = Inr p" "utf8_encode t = Inr q"
    using c(1,2) by (auto simp: socks_cred_def quote_def r_bind_Inr_iff)
  have "s = t \<or> (255 < length a \<and> 255 < length b \<and> p \<noteq> q \<and> sha256 p = sha256 q)" if "(length a \<le> 255) = (length b \<le> 255)"
  proof (cases "length a \<le> 255")
    case True
    then have "a = b" using that c(1,2) ab cd by (simp add: socks_cred_def MAX_SOCKS_CRED_LEN_def)
    then show ?thesis using quote_inject ab by blast
  next
    case False
    then have "sha256_hex p = sha256_hex q"
      using that c(1,2) ab cd by (simp add: socks_cred_def MAX_SOCKS_CRED_LEN_def)
    then show ?thesis using utf8_encode_inject ab(3,4) that False by (auto simp: sha256_hex_inject)
  qed
  then show ?thesis using ab by blast
qed

lemma quote_lower_hex: "list_all is_lower_hex s \<Longrightarrow> quote s = Inr s"
proof -
  assume s: "list_all is_lower_hex s"
  then have "is_ascii s" by (auto simp: is_ascii_def list_all_iff is_lower_hex_def)
  moreover have "concat (map quote_byte (ascii_bytes s)) = s" using s
    by (induction s) (auto simp: ascii_bytes_def quote_byte_def is_lower_hex_def is_unreserved_def unat_of_nat)
  ultimately show ?thesis by (simp add: quote_def utf8_encode_ascii)
qed

lemma isolation_shared_digest:
  assumes "quote t = Inr q" "255 < length q" "utf8_encode t = Inr bs"
  shows "tor_proxy_url port (Some (sha256_hex bs)) = tor_proxy_url port (Some t)"
proof -
  have "quote (sha256_hex bs) = Inr (sha256_hex bs)"
    by (rule quote_lower_hex) (simp add: sha256_hex_def hex_of_bytes_lower)
  moreover have "sha256_hex bs \<noteq> []" by (rule ccontr) (use length_sha256_hex [of bs] in simp)
  moreover have "t \<noteq> []" using assms(1,2) by (auto simp: quote_def utf8_encode_def)
  ultimately show ?thesis
    using assms by (simp add: tor_proxy_url_cred socks_cred_def MAX_SOCKS_CRED_LEN_def)
qed

lemma isolation_tokens_witness:
  "\<exists>url. tor_proxy_url 9050 (Some (str_lit ''work'')) = Inr url \<and> tor_proxy_url 9050 (Some (str_lit ''home'')) \<noteq> Inr url"
proof -
  have q: "quote (str_lit ''work'') = Inr (str_lit ''work'')" "quote (str_lit ''home'') = Inr (str_lit ''home'')"
    by (simp_all add: quote_def utf8_encode_ascii is_ascii_def ascii_bytes_def quote_byte_def is_unreserved_def unat_of_nat)
  then obtain url where u: "tor_proxy_url 9050 (Some (str_lit ''work'')) = Inr url"
    by (simp add: tor_proxy_url_cred socks_cred_def MAX_SOCKS_CRED_LEN_def)
  have "tor_proxy_url 9050 (Some (str_lit ''home'')) \<noteq> Inr url"
  proof
    assume "tor_proxy_url 9050 (Some (str_lit ''home'')) = Inr url"
    from isolation_tokens [OF u this] q show False by simp
  qed
  with u show ?thesis by blast
qed

section \<open>The bypass list\<close>

text \<open>The reference: every entry once, at its first occurrence.\<close>

fun first_occurrences :: "'a list \<Rightarrow> 'a list" where
  "first_occurrences [] = []"
| "first_occurrences (x # xs) = x # filter (\<lambda>y. y \<noteq> x) (first_occurrences xs)"

lemma no_proxy_loop_eq:
  "set ordered \<subseteq> seen \<Longrightarrow> no_proxy_loop seen ordered es = ordered @ filter (\<lambda>e. e \<notin> seen) (first_occurrences es)"
proof (induction seen ordered es rule: no_proxy_loop.induct)
  case (2 seen ordered e es)
  have "filter (\<lambda>x. x \<notin> seen) (filter (\<lambda>y. y \<noteq> e) (first_occurrences es)) = filter (\<lambda>x. x \<notin> insert e seen) (first_occurrences es)"
    by (simp add: conj_commute)
  moreover have "filter (\<lambda>x. x \<notin> insert e seen) xs = filter (\<lambda>x. x \<notin> seen) xs" if "e \<in> seen" for xs
    using that by (auto intro: filter_cong)
  ultimately show ?case using 2 by (auto simp del: filter_filter)
qed simp

lemma first_occurrences_set: "set (first_occurrences xs) = set xs" "distinct (first_occurrences xs)"
  by (induction xs) auto

text \<open>The bypass list names the loopback hosts first and then the user's entries, each once, at its first
  occurrence: split at its commas it is exactly that list, and no loopback host is ever missing.\<close>

lemma build_no_proxy_entries:
  assumes "list_all (\<lambda>e. 44 \<notin> set e) extras"
  shows "split_on 44 (build_no_proxy extras) =
      LOCALHOST_DEFAULTS @ filter (\<lambda>e. e \<notin> set LOCALHOST_DEFAULTS) (first_occurrences extras) \<and>
    distinct (split_on 44 (build_no_proxy extras)) \<and>
    set (split_on 44 (build_no_proxy extras)) = set LOCALHOST_DEFAULTS \<union> set extras"
proof -
  let ?es = "LOCALHOST_DEFAULTS @ filter (\<lambda>e. e \<notin> set LOCALHOST_DEFAULTS) (first_occurrences extras)"
  have loop: "no_proxy_loop {} [] (LOCALHOST_DEFAULTS @ extras) = ?es"
    by (simp add: LOCALHOST_DEFAULTS_def no_proxy_loop_eq insert_commute)
  have "list_all (\<lambda>e. 44 \<notin> set e) ?es"
    using assms by (auto simp: LOCALHOST_DEFAULTS_def list_all_iff first_occurrences_set)
  then have "split_on 44 (build_no_proxy extras) = ?es"
    unfolding build_no_proxy_def loop by (intro split_on_join) (simp add: LOCALHOST_DEFAULTS_def)
  moreover have "distinct ?es" by (auto simp: LOCALHOST_DEFAULTS_def first_occurrences_set)
  moreover have "set ?es = set LOCALHOST_DEFAULTS \<union> set extras" by (auto simp: first_occurrences_set)
  ultimately show ?thesis by simp
qed

lemma build_no_proxy_entries_witness:
  "split_on 44 (build_no_proxy [[97], str_lit ''localhost'', [98], [97]]) = LOCALHOST_DEFAULTS @ [[97], [98]]"
  using build_no_proxy_entries [of "[[97], str_lit ''localhost'', [98], [97]]"]
  by (simp add: LOCALHOST_DEFAULTS_def)

section \<open>The environment\<close>

definition no_proxy_keys :: "py_str set" where
  "no_proxy_keys = {str_lit ''NO_PROXY'', str_lit ''no_proxy''}"

lemma set_keys_apply: "set_keys env ks v k = (if k \<in> set ks then Some v else env k)"
  by (induction ks arbitrary: env) auto

lemma proxy_keys_disjoint: "no_proxy_keys \<inter> set PROXY_KEYS = {}"
  by (auto simp: no_proxy_keys_def PROXY_KEYS_def UPPER_PROXY_KEYS_def LOWER_PROXY_KEYS_def)

lemma managed_keys: "managed_var_names = set PROXY_KEYS \<union> no_proxy_keys"
  by (auto simp: managed_var_names_def MANAGED_KEYS_def no_proxy_keys_def)

definition path_env :: "py_str list \<Rightarrow> py_str option \<Rightarrow> env" where
  "path_env extra proxy k =
     (if k \<in> no_proxy_keys then Some (build_no_proxy extra) else if k \<in> set PROXY_KEYS then proxy else None)"

lemma path_env_keys:
  "no_proxy_keys = {str_lit ''NO_PROXY'', str_lit ''no_proxy''}" "k \<in> set PROXY_KEYS \<Longrightarrow> path_env extra proxy k = proxy"
  "k \<in> no_proxy_keys \<Longrightarrow> path_env extra proxy k = Some (build_no_proxy extra)"
  using proxy_keys_disjoint by (auto simp: path_env_def no_proxy_keys_def)

lemma desired_env_cases:
  "desired_env path port extra token =
     (if path \<notin> set ACTIVE_PATHS then Inl UnknownPath
      else if path = str_lit ''tor'' then r_bind (tor_proxy_url port token) (\<lambda>url. Inr (path_env extra (Some url)))
      else Inr (path_env extra None))"
proof -
  have e: "env(str_lit ''NO_PROXY'' \<mapsto> build_no_proxy extra, str_lit ''no_proxy'' \<mapsto> build_no_proxy extra) = path_env extra proxy"
    if "\<And>k. k \<notin> no_proxy_keys \<Longrightarrow> env k = (if k \<in> set PROXY_KEYS then proxy else None)" for env proxy
    using that by (auto simp: fun_eq_iff path_env_def no_proxy_keys_def simp del: str_lit_simps)
  show ?thesis
    unfolding desired_env_def Let_def
    by (cases "tor_proxy_url port token") (simp_all add: e set_keys_apply del: str_lit_simps)
qed

lemma desired_env_Inr:
  "desired_env path port extra token = Inr env \<longleftrightarrow>
     path \<in> set ACTIVE_PATHS \<and>
     (if path = str_lit ''tor'' then \<exists>url. tor_proxy_url port token = Inr url \<and> env = path_env extra (Some url)
      else env = path_env extra None)"
  unfolding desired_env_cases by (auto simp: r_bind_Inr_iff simp del: str_lit_simps)

lemma dom_path_env:
  "dom (path_env extra (Some url)) = managed_var_names" "dom (path_env extra None) = managed_var_names - set PROXY_KEYS"
  using proxy_keys_disjoint by (auto simp: path_env_def managed_keys split: if_splits)

lemma env_is_path_env:
  assumes "dom env \<subseteq> managed_var_names" "\<forall>k \<in> no_proxy_keys. env k = Some (build_no_proxy extra)"
    "\<forall>k \<in> set PROXY_KEYS. env k = proxy"
  shows "env = path_env extra proxy"
proof
  fix k
  show "env k = path_env extra proxy k"
    using assms by (cases "k \<in> managed_var_names") (auto simp: path_env_def managed_keys subset_iff domIff)
qed

lemma tor_proxy_url_raises: "raises (\<lambda>e. e = UnicodeEncodeError) (tor_proxy_url port token)"
  by (auto simp: tor_proxy_url_def quote_def utf8_encode_def split: option.split list.split intro!: raises_bind)


end
