(* ===== verification/Policy.thy ===== *)
theory Policy
  imports Prelude
begin

text \<open>
  \<open>privacy_check/policy.py\<close> with the closed string sets of \<open>_core/_policy_types.py\<close> and the reason codes
  of \<open>privacy_check/_audit_reasons.py\<close> it uses: the pure evaluator of the install-time and tool-call decisions.
\<close>

section \<open>Definitions\<close>

datatype policy_mode = Strict | Lenient | Off

datatype active_path = Tor | Vpn | Clearnet

datatype network_requirement = NeedsTor | NeedsVpn | NeedsClearnet | LocalOnly

datatype decision = Allow | Warn | Block

datatype reason_code =
    StrictUnknownMetadata | StrictClearnet | LenientUnknownMetadataWarning
  | StrictKeyvaultUninitialized | LenientKeyvaultUninitializedWarning

record policy_outcome =
  po_decision :: decision
  po_reason :: "reason_code option"

definition outcome :: "decision \<Rightarrow> reason_code option \<Rightarrow> policy_outcome" where
  "outcome d r = \<lparr>po_decision = d, po_reason = r\<rparr>"

definition evaluate_install ::
  "policy_mode \<Rightarrow> network_requirement option \<Rightarrow> bool \<Rightarrow> bool \<Rightarrow> policy_outcome" where
  "evaluate_install mode req requires_keyvault keyvault_initialized =
     (if mode = Off then outcome Allow None
      else if req = None \<and> mode = Strict then outcome Block (Some StrictUnknownMetadata)
      else if req \<noteq> None \<and> mode = Strict \<and> req = Some NeedsClearnet then outcome Block (Some StrictClearnet)
      else
        (let network_outcome =
               (if req = None then outcome Warn (Some LenientUnknownMetadataWarning) else outcome Allow None)
         in if requires_keyvault \<and> \<not> keyvault_initialized then
              (if mode = Strict then outcome Block (Some StrictKeyvaultUninitialized)
               else outcome Warn (Some LenientKeyvaultUninitializedWarning))
            else network_outcome))"

definition DEFAULT_STRICT_CLEARNET_TOOL_BLOCKLIST :: "py_str set" where
  "DEFAULT_STRICT_CLEARNET_TOOL_BLOCKLIST = {str_lit ''web_fetch'', str_lit ''web_search''}"

definition evaluate_pre_tool_call ::
  "policy_mode \<Rightarrow> py_str \<Rightarrow> active_path option \<Rightarrow> py_str set \<Rightarrow> policy_outcome" where
  "evaluate_pre_tool_call mode tool_name active_path blocklist =
     (if mode \<noteq> Strict then outcome Allow None
      else
        (let effective_path = (case active_path of Some p \<Rightarrow> p | None \<Rightarrow> Clearnet)
         in if effective_path = Clearnet \<and> tool_name \<in> blocklist then outcome Block (Some StrictClearnet)
            else outcome Allow None))"

section \<open>The order of decisions and of modes\<close>

instantiation decision :: linorder
begin

fun decision_rank :: "decision \<Rightarrow> nat" where
  "decision_rank Allow = 0"
| "decision_rank Warn = 1"
| "decision_rank Block = 2"

definition less_eq_decision :: "decision \<Rightarrow> decision \<Rightarrow> bool" where
  "d \<le> e \<longleftrightarrow> decision_rank d \<le> decision_rank e"

definition less_decision :: "decision \<Rightarrow> decision \<Rightarrow> bool" where
  "d < e \<longleftrightarrow> decision_rank d < decision_rank e"

instance
proof
  fix d e f :: decision
  show "d \<le> e \<Longrightarrow> e \<le> d \<Longrightarrow> d = e" by (cases d; cases e) (simp_all add: less_eq_decision_def)
qed (auto simp: less_eq_decision_def less_decision_def)

end

instantiation policy_mode :: linorder
begin

fun mode_rank :: "policy_mode \<Rightarrow> nat" where
  "mode_rank Off = 0"
| "mode_rank Lenient = 1"
| "mode_rank Strict = 2"

definition less_eq_policy_mode :: "policy_mode \<Rightarrow> policy_mode \<Rightarrow> bool" where
  "d \<le> e \<longleftrightarrow> mode_rank d \<le> mode_rank e"

definition less_policy_mode :: "policy_mode \<Rightarrow> policy_mode \<Rightarrow> bool" where
  "d < e \<longleftrightarrow> mode_rank d < mode_rank e"

instance
proof
  fix d e f :: policy_mode
  show "d \<le> e \<Longrightarrow> e \<le> d \<Longrightarrow> d = e" by (cases d; cases e) (simp_all add: less_eq_policy_mode_def)
qed (auto simp: less_eq_policy_mode_def less_policy_mode_def)

end

lemmas decision_order = less_eq_decision_def less_decision_def max_def
lemmas mode_order = less_eq_policy_mode_def less_policy_mode_def

section \<open>The documented tables\<close>

text \<open>The two tables of the documentation, row by row.\<close>

fun network_table :: "policy_mode \<Rightarrow> network_requirement option \<Rightarrow> decision" where
  "network_table Off req = Allow"
| "network_table Strict None = Block"
| "network_table Strict (Some NeedsClearnet) = Block"
| "network_table Strict (Some NeedsTor) = Allow"
| "network_table Strict (Some NeedsVpn) = Allow"
| "network_table Strict (Some LocalOnly) = Allow"
| "network_table Lenient None = Warn"
| "network_table Lenient (Some r) = Allow"

fun keyvault_table :: "policy_mode \<Rightarrow> bool \<Rightarrow> bool \<Rightarrow> decision" where
  "keyvault_table Off requires initialized = Allow"
| "keyvault_table Strict requires initialized = (if requires \<and> \<not> initialized then Block else Allow)"
| "keyvault_table Lenient requires initialized = (if requires \<and> \<not> initialized then Warn else Allow)"

lemmas policy_defs = evaluate_install_def evaluate_pre_tool_call_def outcome_def Let_def

text \<open>The install decision is the more severe of the two documented tables (network requirement, keyvault
  opt-in); a reason code is present exactly when the decision is not a plain allow, and it names the network
  cause whenever the network table alone already blocks.\<close>

lemma evaluate_install_tables:
  "po_decision (evaluate_install mode req requires initialized) =
     max (network_table mode req) (keyvault_table mode requires initialized) \<and>
   (po_reason (evaluate_install mode req requires initialized) = None \<longleftrightarrow>
      po_decision (evaluate_install mode req requires initialized) = Allow) \<and>
   (po_reason (evaluate_install mode req requires initialized) \<in> {Some StrictUnknownMetadata, Some StrictClearnet} \<longleftrightarrow>
      network_table mode req = Block) \<and>
   (po_reason (evaluate_install mode req requires initialized) = Some StrictKeyvaultUninitialized \<longleftrightarrow>
      network_table mode req \<noteq> Block \<and> keyvault_table mode requires initialized = Block)"
proof (cases mode)
  case Strict
  then show ?thesis
    by (cases req; cases "the req") (auto simp: policy_defs decision_order)
next
  case Lenient
  then show ?thesis by (cases req) (auto simp: policy_defs decision_order)
qed (auto simp: policy_defs decision_order)

text \<open>A stricter mode is never weaker. Both evaluators are monotone in the mode (off, lenient, strict), a
  tool call is blocked exactly in strict mode for a listed tool while the path is clearnet or not known, and no
  other call is even warned about.\<close>

lemma policy_monotone:
  assumes "mode \<le> mode'"
  shows "po_decision (evaluate_install mode req requires initialized) \<le> po_decision (evaluate_install mode' req requires initialized) \<and>
    po_decision (evaluate_pre_tool_call mode tool path blocklist) \<le> po_decision (evaluate_pre_tool_call mode' tool path blocklist) \<and>
    (po_decision (evaluate_pre_tool_call mode tool path blocklist) = Block \<longleftrightarrow>
       mode = Strict \<and> path \<in> {None, Some Clearnet} \<and> tool \<in> blocklist) \<and>
    po_decision (evaluate_pre_tool_call mode tool path blocklist) \<noteq> Warn"
proof (intro conjI)
  show "po_decision (evaluate_install mode req requires initialized) \<le> po_decision (evaluate_install mode' req requires initialized)"
    using assms by (cases mode; cases mode'; cases req) (auto simp: policy_defs decision_order mode_order)
  show "po_decision (evaluate_pre_tool_call mode tool path blocklist) \<le> po_decision (evaluate_pre_tool_call mode' tool path blocklist)"
    using assms by (cases mode; cases mode') (auto simp: policy_defs decision_order mode_order)
  show "po_decision (evaluate_pre_tool_call mode tool path blocklist) = Block \<longleftrightarrow>
      mode = Strict \<and> path \<in> {None, Some Clearnet} \<and> tool \<in> blocklist"
    by (cases path) (auto simp: policy_defs)
  show "po_decision (evaluate_pre_tool_call mode tool path blocklist) \<noteq> Warn"
    by (simp add: policy_defs)
qed

lemma policy_monotone_witness:
  "po_decision (evaluate_install Lenient None True False) \<le> po_decision (evaluate_install Strict None True False) \<and>
   po_decision (evaluate_pre_tool_call Strict (str_lit ''web_fetch'') None DEFAULT_STRICT_CLEARNET_TOOL_BLOCKLIST) = Block"
  using policy_monotone [of Lenient Strict None True False]
    policy_monotone [of Strict Strict None True False "str_lit ''web_fetch''" None DEFAULT_STRICT_CLEARNET_TOOL_BLOCKLIST]
  by (simp add: mode_order DEFAULT_STRICT_CLEARNET_TOOL_BLOCKLIST_def)

end
