(* ===== verification/Net_Runtime.thy ===== *)
theory Net_Runtime
  imports Proxy_Env Policy
begin

text \<open>
  \<open>network/runtime.py\<close>, with \<open>render_torrc\<close> and \<open>validate_port_pair\<close> of \<open>network/paths/tor.py\<close>: the
  process-wide route, its life cycle, the proxy variables it owns and its liveness worker. The daemons,
  the VPN provider and the order in which Python walks the set of managed keys answer through the record
  \<open>answers\<close>; every start and stop of a daemon is recorded in \<open>rt_calls\<close>. A thread is the number of its
  spawn; its stop event is set once it is no longer the current worker.
\<close>

section \<open>Configuration, handles and state\<close>

record runtime_config =
  rc_policy_mode :: policy_mode
  rc_default_path :: active_path
  rc_tor_binary :: py_str
  rc_tor_socks_port :: int
  rc_tor_data_dir :: py_str
  rc_vpn_provider :: py_str
  rc_wireguard_config_path :: "py_str option"
  rc_custom_up_cmd :: "py_str list"
  rc_custom_down_cmd :: "py_str list"
  rc_custom_health_cmd :: "py_str list option"
  rc_mullvad_region :: py_str
  rc_disable_ipv6 :: bool
  rc_no_proxy_extra :: "py_str list"
  rc_liveness_interval_seconds :: "int \<times> int"
  rc_liveness_failure_threshold :: int
  rc_isolation_token :: "py_str option"

datatype rt_phase = Idle | BringingUp | Ready | TearingDown | Degraded

record tor_handle =
  th_process :: nat
  th_socks_port :: int
  th_control_port :: int
  th_data_dir :: py_str

record vpn_handle =
  vh_tunnel :: nat
  vh_lockdown_applied_by_us :: bool

datatype route_handle = TorHandle tor_handle | VpnHandle vpn_handle | ClearnetHandle

fun handle_path :: "route_handle \<Rightarrow> active_path" where
  "handle_path (TorHandle h) = Tor"
| "handle_path (VpnHandle h) = Vpn"
| "handle_path ClearnetHandle = Clearnet"

datatype net_call =
    TorStarted nat | TorStop nat
  | VpnUp nat | VpnDisconnect nat bool

datatype net_audit =
    AuditUse active_path active_path nat
  | AuditUseFailed active_path active_path exn
  | AuditBringupFailed active_path
  | AuditPathDropped decision active_path int

record runtime =
  rt_config :: runtime_config
  rt_state :: rt_phase
  rt_active_path :: active_path
  rt_handle :: "route_handle option"
  rt_env :: env
  rt_env_snapshot :: "env option"
  rt_last_health :: bool
  rt_process_route_frozen :: bool
  rt_frozen_path :: "active_path option"
  rt_last_requested_path :: "active_path option"
  rt_frozen_requested_path :: "active_path option"
  rt_frozen_route_config :: "runtime_config option"
  rt_worker :: "nat option"
  rt_spawned :: nat
  rt_failure_count :: int
  rt_dropped :: bool
  rt_audit :: "net_audit list"
  rt_calls :: "net_call list"

record answers =
  an_windows :: bool
  an_pid :: int
  an_subprocesses :: nat
  an_pick_port :: "int result"
  an_tor_start :: "py_str \<Rightarrow> nat result"
  an_tor_wait :: "nat \<Rightarrow> unit result"
  an_tor_stop :: "tor_handle \<Rightarrow> unit result"
  an_vpn_killswitch :: bool
  an_vpn_capability :: "(bool \<times> bool) result"
  an_vpn_detect :: "py_str result"
  an_vpn_bring_up :: "py_str \<Rightarrow> policy_mode \<Rightarrow> vpn_handle result"
  an_vpn_wait :: "py_str \<Rightarrow> unit result"
  an_vpn_disconnect :: "vpn_handle \<Rightarrow> bool \<Rightarrow> unit result"
  an_key_order :: "py_str list"

definition initial_runtime :: "runtime_config \<Rightarrow> env \<Rightarrow> runtime" where
  "initial_runtime cfg environ =
     \<lparr>rt_config = cfg, rt_state = Idle, rt_active_path = Clearnet, rt_handle = None, rt_env = environ,
      rt_env_snapshot = None, rt_last_health = True, rt_process_route_frozen = False, rt_frozen_path = None,
      rt_last_requested_path = None, rt_frozen_requested_path = None, rt_frozen_route_config = None,
      rt_worker = None, rt_spawned = 0, rt_failure_count = 0, rt_dropped = False, rt_audit = [], rt_calls = []\<rparr>"

section \<open>Exceptions\<close>

text \<open>\<open>except OSError\<close> and \<open>except MordredNetworkError\<close>.\<close>

definition is_os_error :: "exn \<Rightarrow> bool" where
  "is_os_error e \<longleftrightarrow> e \<in> {OSError, FileNotFoundError, PermissionError}"

definition is_network_error :: "exn \<Rightarrow> bool" where
  "is_network_error e \<longleftrightarrow>
     e \<in> {MordredNetworkError, UnknownPath, BringupFailed, AlreadySwitching, PathSwitchRequiresRestart}"

section \<open>Bringing a path up\<close>

definition torrc_quoted :: "py_str \<Rightarrow> py_str result" where
  "torrc_quoted value =
     (if list_ex (\<lambda>c. c < 32 \<or> c = 127) value then Inl BringupFailed
      else Inr ([34] @ concat (map (\<lambda>c. if c = 92 then [92, 92] else if c = 34 then [92, 34] else [c]) value) @ [34]))"

definition dec_int :: "int \<Rightarrow> py_str" where
  "dec_int n = (if n < 0 then 45 # dec (nat (- n)) else dec (nat n))"

definition render_torrc :: "int \<Rightarrow> int \<Rightarrow> py_str \<Rightarrow> bool \<Rightarrow> bool \<Rightarrow> int option \<Rightarrow> py_str result" where
  "render_torrc socks_port control_port data_dir disable_ipv6 quote_paths owning_controller_pid =
     r_bind (if quote_paths then torrc_quoted data_dir else Inr data_dir) (\<lambda>directory.
     r_bind (case owning_controller_pid of None \<Rightarrow> Inr []
             | Some pid \<Rightarrow> if pid \<le> 0 then Inl BringupFailed else Inr [str_lit ''__OwningControllerProcess '' @ dec_int pid]) (\<lambda>owner.
       Inr (concat (map (\<lambda>line. line @ [10])
         ([str_lit ''SOCKSPort 127.0.0.1:'' @ dec_int socks_port @ str_lit '' IsolateSOCKSAuth'',
           str_lit ''ControlPort 127.0.0.1:'' @ dec_int control_port,
           str_lit ''CookieAuthentication 1'',
           str_lit ''DataDirectory '' @ directory] @ owner @
          (if disable_ipv6 then [str_lit ''ClientUseIPv6 0''] else []))))))"

definition validate_port_pair :: "int \<Rightarrow> unit result" where
  "validate_port_pair socks_port = (if 0 < socks_port \<and> socks_port < 65535 then Inr () else Inl BringupFailed)"

type_synonym bringup = "net_call list \<times> route_handle result"

definition tor_bootstrap :: "answers \<Rightarrow> tor_handle \<Rightarrow> bringup" where
  "tor_bootstrap A h =
     (let p = th_process h
      in case an_tor_wait A p of
           Inr u \<Rightarrow> ([TorStarted p], Inr (TorHandle h))
         | Inl e \<Rightarrow>
             if \<not> is_exception e then ([TorStarted p], Inl e)
             else ([TorStarted p, TorStop p],
                   case an_tor_stop A h of
                     Inl c \<Rightarrow> Inl (if is_exception c then BringupFailed else c)
                   | Inr v \<Rightarrow> Inl BringupFailed))"

definition bring_up_tor :: "answers \<Rightarrow> runtime_config \<Rightarrow> bringup" where
  "bring_up_tor A cfg =
     (case r_bind (if rc_tor_socks_port cfg \<noteq> 0 then Inr (rc_tor_socks_port cfg) else an_pick_port A) (\<lambda>port.
            r_bind (validate_port_pair port) (\<lambda>_.
            r_bind (render_torrc port (port + 1) (rc_tor_data_dir cfg) (rc_disable_ipv6 cfg) (an_windows A)
                      (if an_windows A then Some (an_pid A) else None)) (\<lambda>torrc.
            r_bind (case an_tor_start A torrc of Inl e \<Rightarrow> Inl (if is_os_error e then BringupFailed else e) | Inr p \<Rightarrow> Inr p) (\<lambda>p.
              Inr \<lparr>th_process = p, th_socks_port = port, th_control_port = port + 1, th_data_dir = rc_tor_data_dir cfg\<rparr>)))) of
        Inl e \<Rightarrow> ([], Inl e)
      | Inr h \<Rightarrow> tor_bootstrap A h)"

definition require_windows_vpn_capability :: "answers \<Rightarrow> unit result" where
  "require_windows_vpn_capability A =
     (case an_vpn_capability A of
        Inl e \<Rightarrow> Inl (if e = OtherError ''UnknownVpnProvider'' then BringupFailed else e)
      | Inr (supported, available) \<Rightarrow> if \<not> supported \<or> \<not> available then Inl BringupFailed else Inr ())"

definition vpn_wait :: "answers \<Rightarrow> runtime_config \<Rightarrow> py_str \<Rightarrow> vpn_handle \<Rightarrow> bringup" where
  "vpn_wait A cfg cli_path h =
     (let preserve_on_cleanup = (rc_policy_mode cfg = Strict \<or> \<not> vh_lockdown_applied_by_us h)
      in case an_vpn_wait A cli_path of
           Inr u \<Rightarrow> ([VpnUp (vh_tunnel h)], Inr (VpnHandle h))
         | Inl e \<Rightarrow>
             if e \<noteq> BringupFailed \<and> \<not> is_os_error e then ([VpnUp (vh_tunnel h)], Inl e)
             else ([VpnUp (vh_tunnel h), VpnDisconnect (vh_tunnel h) preserve_on_cleanup],
                   case an_vpn_disconnect A h preserve_on_cleanup of
                     Inl c \<Rightarrow> Inl (if is_exception c then BringupFailed else c)
                   | Inr v \<Rightarrow> Inl BringupFailed))"

definition os_to_bringup :: "'a result \<Rightarrow> 'a result" where
  "os_to_bringup m = r_catch is_os_error BringupFailed m"

definition bring_up_vpn :: "answers \<Rightarrow> runtime_config \<Rightarrow> bringup" where
  "bring_up_vpn A cfg =
     (case r_bind (if an_windows A then require_windows_vpn_capability A else Inr ()) (\<lambda>_.
            if rc_policy_mode cfg = Strict \<and> \<not> an_vpn_killswitch A then Inl BringupFailed
            else r_bind (os_to_bringup (an_vpn_detect A)) (\<lambda>cli_path.
                 r_bind (os_to_bringup (an_vpn_bring_up A cli_path (rc_policy_mode cfg))) (\<lambda>h. Inr (cli_path, h)))) of
        Inl e \<Rightarrow> ([], Inl e)
      | Inr (cli_path, h) \<Rightarrow> vpn_wait A cfg cli_path h)"

definition bring_up :: "answers \<Rightarrow> runtime_config \<Rightarrow> active_path \<Rightarrow> bringup" where
  "bring_up A cfg target =
     (case target of Clearnet \<Rightarrow> ([], Inr ClearnetHandle) | Tor \<Rightarrow> bring_up_tor A cfg | Vpn \<Rightarrow> bring_up_vpn A cfg)"

section \<open>The proxy variables\<close>

definition path_name :: "active_path \<Rightarrow> py_str" where
  "path_name p = (case p of Tor \<Rightarrow> str_lit ''tor'' | Vpn \<Rightarrow> str_lit ''vpn'' | Clearnet \<Rightarrow> str_lit ''clearnet'')"

definition path_of_name :: "py_str \<Rightarrow> active_path option" where
  "path_of_name s =
     (if s = path_name Tor then Some Tor else if s = path_name Vpn then Some Vpn
      else if s = path_name Clearnet then Some Clearnet else None)"

definition socks_port_for :: "runtime_config \<Rightarrow> route_handle option \<Rightarrow> int" where
  "socks_port_for cfg handle =
     (case handle of
        Some (TorHandle h) \<Rightarrow> th_socks_port h
      | _ \<Rightarrow> if rc_tor_socks_port cfg \<noteq> 0 then rc_tor_socks_port cfg else int DEFAULT_TOR_SOCKS_PORT)"

definition wanted_env :: "runtime_config \<Rightarrow> env \<Rightarrow> route_handle option \<Rightarrow> active_path \<Rightarrow> env result" where
  "wanted_env cfg snapshot handle target =
     (if rc_policy_mode cfg = Off \<and> target \<noteq> Tor then Inr snapshot
      else desired_env (path_name target) (nat (socks_port_for cfg handle)) (rc_no_proxy_extra cfg) (rc_isolation_token cfg))"

text \<open>One write per assignment and per \<open>pop\<close>: first every wanted value, then the removals.\<close>

definition env_writes :: "py_str list \<Rightarrow> env \<Rightarrow> (py_str \<times> py_str option) list" where
  "env_writes keys wanted =
     map (\<lambda>k. (k, wanted k)) (filter (\<lambda>k. wanted k \<noteq> None) keys) @
     map (\<lambda>k. (k, None)) (filter (\<lambda>k. wanted k = None) keys)"

fun env_put :: "env \<Rightarrow> py_str \<times> py_str option \<Rightarrow> env" where
  "env_put environ (k, v) = environ(k := v)"

definition apply_env :: "answers \<Rightarrow> active_path \<Rightarrow> runtime \<Rightarrow> runtime \<times> unit result" where
  "apply_env A target rt =
     (let snapshot = (case rt_env_snapshot rt of None \<Rightarrow> rt_env rt |` managed_var_names | Some s \<Rightarrow> s);
          rt' = rt\<lparr>rt_env_snapshot := Some snapshot\<rparr>
      in case wanted_env (rt_config rt) snapshot (rt_handle rt) target of
           Inl e \<Rightarrow> (rt', Inl e)
         | Inr wanted \<Rightarrow> (rt'\<lparr>rt_env := foldl env_put (rt_env rt) (env_writes (an_key_order A) wanted)\<rparr>, Inr ()))"

definition restore_env :: "answers \<Rightarrow> runtime \<Rightarrow> runtime" where
  "restore_env A rt =
     (case rt_env_snapshot rt of
        None \<Rightarrow> rt
      | Some s \<Rightarrow> rt\<lparr>rt_env := foldl env_put (rt_env rt) (map (\<lambda>k. (k, s k)) (an_key_order A)), rt_env_snapshot := None\<rparr>)"

section \<open>The state machine\<close>

definition reset_liveness :: "runtime \<Rightarrow> runtime" where
  "reset_liveness rt = rt\<lparr>rt_failure_count := 0, rt_dropped := False, rt_last_health := True\<rparr>"

definition start_worker :: "runtime \<Rightarrow> runtime" where
  "start_worker rt =
     (case rt_worker rt of Some w \<Rightarrow> rt | None \<Rightarrow> rt\<lparr>rt_worker := Some (rt_spawned rt), rt_spawned := rt_spawned rt + 1\<rparr>)"

definition stop_worker :: "runtime \<Rightarrow> runtime" where
  "stop_worker rt = rt\<lparr>rt_worker := None\<rparr>"

definition emit :: "net_audit \<Rightarrow> runtime \<Rightarrow> runtime" where
  "emit entry rt = rt\<lparr>rt_audit := rt_audit rt @ [entry]\<rparr>"

definition calls :: "net_call list \<Rightarrow> runtime \<Rightarrow> runtime" where
  "calls cs rt = rt\<lparr>rt_calls := rt_calls rt @ cs\<rparr>"

definition transition_needed :: "active_path \<Rightarrow> runtime \<Rightarrow> bool result" where
  "transition_needed target rt =
     (if rt_state rt \<in> {BringingUp, TearingDown} then Inl AlreadySwitching
      else if rt_process_route_frozen rt then
        (if rt_frozen_path rt \<noteq> None \<and> rt_frozen_requested_path rt \<noteq> None \<and>
            rt_frozen_requested_path rt = Some target \<and> rt_frozen_path rt = Some (rt_active_path rt) \<and>
            rt_handle rt \<noteq> None \<and> rt_state rt \<in> {Ready, Degraded} \<and> \<not> rt_dropped rt
         then Inr False else Inl PathSwitchRequiresRestart)
      else if rt_handle rt \<noteq> None \<and> rt_state rt \<in> {Ready, Degraded} \<and> target = rt_active_path rt then Inr (rt_dropped rt)
      else Inr True)"

text \<open>Tearing down: a plain exception of the daemon is logged and the handle forgotten.\<close>

definition stop_handle :: "answers \<Rightarrow> runtime_config \<Rightarrow> route_handle \<Rightarrow> net_call list \<times> unit result" where
  "stop_handle A cfg h =
     (case h of
        TorHandle t \<Rightarrow> ([TorStop (th_process t)], an_tor_stop A t)
      | VpnHandle v \<Rightarrow>
          (let preserve = (rc_policy_mode cfg = Strict \<or> \<not> vh_lockdown_applied_by_us v)
           in ([VpnDisconnect (vh_tunnel v) preserve], an_vpn_disconnect A v preserve))
      | ClearnetHandle \<Rightarrow> ([], Inr ()))"

definition teardown_current :: "answers \<Rightarrow> runtime \<Rightarrow> runtime \<times> unit result" where
  "teardown_current A rt =
     (case rt_handle rt of
        None \<Rightarrow> (rt, Inl AssertionError)
      | Some h \<Rightarrow>
          (case stop_handle A (rt_config rt) h of (cs, r) \<Rightarrow>
             let rt' = calls cs (rt\<lparr>rt_state := TearingDown\<rparr>)
             in case r of
                  Inl e \<Rightarrow> if is_exception e then (rt'\<lparr>rt_handle := None\<rparr>, Inr ()) else (rt', Inl e)
                | Inr u \<Rightarrow> (rt'\<lparr>rt_handle := None\<rparr>, Inr ())))"

text \<open>What both successful ends of a switch do, and the state without a route.\<close>

definition install :: "answers \<Rightarrow> route_handle \<Rightarrow> active_path \<Rightarrow> rt_phase \<Rightarrow> runtime \<Rightarrow> runtime \<times> unit result" where
  "install A h path phase rt =
     (case apply_env A path (rt\<lparr>rt_handle := Some h, rt_active_path := path\<rparr>) of
        (rt', Inl e) \<Rightarrow> (rt', Inl e)
      | (rt', Inr u) \<Rightarrow> (start_worker (reset_liveness (rt'\<lparr>rt_state := phase\<rparr>)), Inr ()))"

definition no_route :: "answers \<Rightarrow> runtime \<Rightarrow> runtime" where
  "no_route A rt = reset_liveness ((restore_env A (rt\<lparr>rt_handle := None\<rparr>))\<lparr>rt_active_path := Clearnet, rt_state := Idle\<rparr>)"

text \<open>
  \<open>_switch\<close> has two parts: what happens before the lock is released around the join of the worker, and
  what happens after it is taken again. In between, other threads can update the policy mode.
\<close>

definition switch_begin :: "runtime \<Rightarrow> runtime" where
  "switch_begin rt = (let rt' = rt\<lparr>rt_state := BringingUp\<rparr> in if rt_handle rt' \<noteq> None then stop_worker rt' else rt')"

definition switch_finish :: "answers \<Rightarrow> active_path \<Rightarrow> runtime \<Rightarrow> runtime \<times> unit result" where
  "switch_finish A target rt =
     (case (if rt_handle rt \<noteq> None then teardown_current A rt else (rt, Inr ())) of
        (rt1, Inl e) \<Rightarrow> (rt1, Inl e)
      | (rt1, Inr u) \<Rightarrow>
          (case bring_up A (rt_config rt1) target of (cs, r) \<Rightarrow>
             let rt2 = calls cs rt1
             in case r of
                  Inr h \<Rightarrow> install A h target Ready rt2
                | Inl e \<Rightarrow>
                    if \<not> is_exception e then (rt2, Inl e)
                    else
                      (let rt3 = no_route A rt2
                       in if rc_policy_mode (rt_config rt3) = Strict then (rt3, Inl BringupFailed)
                          else install A ClearnetHandle Clearnet Degraded (emit (AuditBringupFailed target) rt3))))"

definition use_finish :: "answers \<Rightarrow> active_path \<Rightarrow> active_path \<Rightarrow> runtime \<Rightarrow> runtime \<times> unit result" where
  "use_finish A prev target rt =
     (case switch_finish A target rt of
        (rt', Inl e) \<Rightarrow> ((if is_network_error e then emit (AuditUseFailed prev target e) rt' else rt'), Inl e)
      | (rt', Inr u) \<Rightarrow>
          (emit (AuditUse prev (rt_active_path rt') (an_subprocesses A)) (rt'\<lparr>rt_last_requested_path := Some target\<rparr>), Inr ()))"

definition runtime_use :: "answers \<Rightarrow> py_str \<Rightarrow> runtime \<Rightarrow> runtime \<times> unit result" where
  "runtime_use A path rt =
     (case path_of_name path of
        None \<Rightarrow> (rt, Inl UnknownPath)
      | Some target \<Rightarrow>
          (case transition_needed target rt of
             Inl e \<Rightarrow> (rt, Inl e)
           | Inr needed \<Rightarrow>
               if \<not> needed then (rt, Inr ())
               else use_finish A (rt_active_path rt) target (switch_begin rt)))"

definition freeze_process_route :: "py_str option \<Rightarrow> runtime \<Rightarrow> runtime \<times> unit result" where
  "freeze_process_route expected_path rt =
     (if rt_handle rt = None \<or> rt_state rt \<notin> {Ready, Degraded} then (rt, Inl MordredNetworkError)
      else if expected_path \<noteq> None \<and> map_option path_name (rt_last_requested_path rt) \<noteq> expected_path then (rt, Inl MordredNetworkError)
      else if rt_process_route_frozen rt \<and> rt_frozen_path rt \<noteq> Some (rt_active_path rt) then (rt, Inl PathSwitchRequiresRestart)
      else (rt\<lparr>rt_process_route_frozen := True, rt_frozen_path := Some (rt_active_path rt),
               rt_frozen_requested_path :=
                 (case rt_last_requested_path rt of Some p \<Rightarrow> Some p | None \<Rightarrow> Some (rt_active_path rt)),
               rt_frozen_route_config := Some (rt_config rt)\<rparr>, Inr ()))"

definition activate_and_freeze :: "answers \<Rightarrow> py_str \<Rightarrow> runtime \<Rightarrow> runtime \<times> unit result" where
  "activate_and_freeze A path rt =
     (case runtime_use A path rt of
        (rt', Inl e) \<Rightarrow> (rt', Inl e)
      | (rt', Inr u) \<Rightarrow> freeze_process_route (Some path) rt')"

definition runtime_stop :: "answers \<Rightarrow> runtime \<Rightarrow> runtime \<times> unit result" where
  "runtime_stop A rt =
     (case (let rt1 = stop_worker rt in if rt_handle rt1 \<noteq> None then teardown_current A rt1 else (rt1, Inr ())) of
        (rt', Inl e) \<Rightarrow> (rt', Inl e)
      | (rt', Inr u) \<Rightarrow> (reset_liveness ((restore_env A rt')\<lparr>rt_state := Idle, rt_active_path := Clearnet\<rparr>), Inr ()))"

definition update_policy_mode :: "policy_mode \<Rightarrow> runtime \<Rightarrow> runtime" where
  "update_policy_mode mode rt = rt\<lparr>rt_config := (rt_config rt)\<lparr>rc_policy_mode := mode\<rparr>\<rparr>"

definition set_isolation_token :: "py_str option \<Rightarrow> runtime \<Rightarrow> runtime \<times> unit result" where
  "set_isolation_token token rt =
     (if token = rc_isolation_token (rt_config rt) then (rt, Inr ())
      else if rt_process_route_frozen rt \<or> rt_handle rt \<noteq> None \<or> rt_state rt \<in> {Ready, Degraded}
      then (rt, Inl PathSwitchRequiresRestart)
      else (rt\<lparr>rt_config := (rt_config rt)\<lparr>rc_isolation_token := token\<rparr>\<rparr>, Inr ()))"

definition assert_route_config :: "runtime_config \<Rightarrow> runtime \<Rightarrow> unit result" where
  "assert_route_config cfg rt =
     (if \<not> rt_process_route_frozen rt \<or> rt_frozen_route_config rt = None then Inl PathSwitchRequiresRestart
      else if rt_frozen_route_config rt \<noteq> Some cfg then Inl PathSwitchRequiresRestart else Inr ())"

record network_status =
  ns_active_path :: active_path
  ns_ready :: bool
  ns_last_health :: bool

definition runtime_status :: "runtime \<Rightarrow> network_status" where
  "runtime_status rt =
     \<lparr>ns_active_path = rt_active_path rt, ns_ready = (rt_state rt \<in> {Ready, Degraded}), ns_last_health = rt_last_health rt\<rparr>"

text \<open>A probe answers \<open>None\<close> when it raises. A handle of clearnet is always healthy.\<close>

definition runtime_health :: "bool option \<Rightarrow> runtime \<Rightarrow> runtime \<times> bool option" where
  "runtime_health probe rt =
     (case rt_handle rt of
        None \<Rightarrow> (rt\<lparr>rt_last_health := True\<rparr>, Some True)
      | Some h \<Rightarrow>
          (case (if h = ClearnetHandle then Some True else probe) of
             None \<Rightarrow> (rt, None)
           | Some healthy \<Rightarrow> (rt\<lparr>rt_last_health := healthy\<rparr>, Some healthy)))"

text \<open>One turn of \<open>_worker_loop\<close> of the worker \<open>w\<close>.\<close>

definition worker_turn :: "nat \<Rightarrow> bool option \<Rightarrow> runtime \<Rightarrow> runtime" where
  "worker_turn w probe rt =
     (case runtime_health probe rt of (rt1, health) \<Rightarrow>
        let healthy = (case health of None \<Rightarrow> False | Some b \<Rightarrow> b)
        in if rt_worker rt1 \<noteq> Some w then rt1
           else if healthy then rt1\<lparr>rt_failure_count := 0\<rparr>
           else
             (let rt2 = rt1\<lparr>rt_failure_count := rt_failure_count rt1 + 1\<rparr>
              in if rc_liveness_failure_threshold (rt_config rt2) \<le> rt_failure_count rt2 \<and> \<not> rt_dropped rt2
                 then emit (AuditPathDropped (if rc_policy_mode (rt_config rt2) = Strict then Block else Warn)
                              (rt_active_path rt2) (rt_failure_count rt2)) (rt2\<lparr>rt_dropped := True\<rparr>)
                 else rt2))"

end
