(* ===== verification/Net_Safety.thy ===== *)
theory Net_Safety
  imports Net_Runtime
begin

text \<open>
  The runtime under interleaving. \<open>net_step\<close> is the step relation of the process: a switch is two steps, with
  the window in which the lock is released between them, and policy updates, tokens, freezes, probes, turns of
  any worker, old or current, and foreign writes to unmanaged variables may fall anywhere. \<open>net_inv\<close> holds in
  every reachable state.
\<close>

section \<open>Writing the environment\<close>

lemma foldl_env_put:
  "list_all (\<lambda>(k, v). v = f k) ws \<Longrightarrow> foldl env_put e ws k = (if k \<in> fst ` set ws then f k else e k)"
  by (induction ws arbitrary: e) auto

lemma env_writes_agree: "list_all (\<lambda>(k, v). v = wanted k) (env_writes ks wanted)"
  by (auto simp: env_writes_def list_all_iff)

lemma env_writes_keys: "fst ` set (env_writes ks wanted) = set ks"
  by (force simp: env_writes_def image_iff)

lemma env_after_writes: "foldl env_put e (env_writes ks wanted) k = (if k \<in> set ks then wanted k else e k)"
  using foldl_env_put [OF env_writes_agree] by (simp add: env_writes_keys)

lemma env_after_restore: "foldl env_put e (map (\<lambda>k. (k, s k)) ks) k = (if k \<in> set ks then s k else e k)"
  using foldl_env_put [of s "map (\<lambda>k. (k, s k)) ks" e k] by (force simp: list_all_iff)

definition answers_ok :: "answers \<Rightarrow> bool" where
  "answers_ok A \<longleftrightarrow> set (an_key_order A) = managed_var_names"

section \<open>Operations on the fields they do not touch\<close>

lemma reset_liveness_simps [simp]:
  "rt_config (reset_liveness rt) = rt_config rt" "rt_state (reset_liveness rt) = rt_state rt"
  "rt_active_path (reset_liveness rt) = rt_active_path rt" "rt_handle (reset_liveness rt) = rt_handle rt"
  "rt_env (reset_liveness rt) = rt_env rt" "rt_env_snapshot (reset_liveness rt) = rt_env_snapshot rt"
  "rt_process_route_frozen (reset_liveness rt) = rt_process_route_frozen rt"
  "rt_frozen_path (reset_liveness rt) = rt_frozen_path rt"
  "rt_frozen_requested_path (reset_liveness rt) = rt_frozen_requested_path rt"
  "rt_frozen_route_config (reset_liveness rt) = rt_frozen_route_config rt"
  "rt_last_requested_path (reset_liveness rt) = rt_last_requested_path rt"
  "rt_worker (reset_liveness rt) = rt_worker rt" "rt_spawned (reset_liveness rt) = rt_spawned rt"
  "rt_calls (reset_liveness rt) = rt_calls rt" "rt_audit (reset_liveness rt) = rt_audit rt"
  "rt_dropped (reset_liveness rt) = False" "rt_failure_count (reset_liveness rt) = 0"
  by (simp_all add: reset_liveness_def)

lemma start_worker_simps [simp]:
  "rt_config (start_worker rt) = rt_config rt" "rt_state (start_worker rt) = rt_state rt"
  "rt_active_path (start_worker rt) = rt_active_path rt" "rt_handle (start_worker rt) = rt_handle rt"
  "rt_env (start_worker rt) = rt_env rt" "rt_env_snapshot (start_worker rt) = rt_env_snapshot rt"
  "rt_process_route_frozen (start_worker rt) = rt_process_route_frozen rt"
  "rt_frozen_path (start_worker rt) = rt_frozen_path rt"
  "rt_frozen_requested_path (start_worker rt) = rt_frozen_requested_path rt"
  "rt_frozen_route_config (start_worker rt) = rt_frozen_route_config rt"
  "rt_last_requested_path (start_worker rt) = rt_last_requested_path rt"
  "rt_calls (start_worker rt) = rt_calls rt" "rt_audit (start_worker rt) = rt_audit rt"
  "rt_dropped (start_worker rt) = rt_dropped rt" "rt_failure_count (start_worker rt) = rt_failure_count rt"
  "rt_worker (start_worker rt) \<noteq> None"
  by (simp_all add: start_worker_def split: option.split)

lemmas plain_ops = stop_worker_def emit_def calls_def update_policy_mode_def

section \<open>The environment of a route\<close>

text \<open>What the variables must be while a handle carries the route: under Tor every proxy variable names its port.\<close>

definition route_env :: "runtime_config \<Rightarrow> route_handle \<Rightarrow> env \<Rightarrow> bool" where
  "route_env cfg h environ \<longleftrightarrow>
     (case h of
        TorHandle t \<Rightarrow>
          (\<exists>url. tor_proxy_url (nat (th_socks_port t)) (rc_isolation_token cfg) = Inr url \<and>
             (\<forall>k \<in> set PROXY_KEYS. environ k = Some url)) \<and>
          (\<forall>k \<in> no_proxy_keys. environ k = Some (build_no_proxy (rc_no_proxy_extra cfg)))
      | _ \<Rightarrow> True)"

lemma route_env_policy [simp]: "route_env (cfg\<lparr>rc_policy_mode := m\<rparr>) h e = route_env cfg h e"
  by (simp add: route_env_def split: route_handle.split)

lemma route_env_cong: "(\<And>k. k \<in> managed_var_names \<Longrightarrow> e k = e' k) \<Longrightarrow> route_env cfg h e = route_env cfg h e'"
  by (simp add: route_env_def managed_keys split: route_handle.split)

lemma path_name_simps [simp]:
  "path_name Tor = str_lit ''tor''" "path_name Vpn = str_lit ''vpn''" "path_name Clearnet = str_lit ''clearnet''"
  by (simp_all add: path_name_def)

lemma path_name_active: "path_name p \<in> set ACTIVE_PATHS"
  by (cases p) (simp_all add: ACTIVE_PATHS_def)

lemma path_name_tor: "path_name p = str_lit ''tor'' \<longleftrightarrow> p = Tor"
  by (cases p) simp_all

lemma path_of_name_iff: "path_of_name s = Some p \<longleftrightarrow> s = path_name p"
  by (cases p) (auto simp: path_of_name_def)

lemma wanted_env_Inr:
  "wanted_env cfg snap h p = Inr wanted \<Longrightarrow> p = Tor \<Longrightarrow>
     \<exists>url. tor_proxy_url (nat (socks_port_for cfg h)) (rc_isolation_token cfg) = Inr url \<and>
       wanted = path_env (rc_no_proxy_extra cfg) (Some url)"
  by (auto simp: wanted_env_def desired_env_Inr simp del: str_lit_simps)

lemma wanted_env_other: "p \<noteq> Tor \<Longrightarrow> \<exists>wanted. wanted_env cfg snap h p = Inr wanted"
  using path_name_active [of p] path_name_tor [of p]
  by (auto simp: wanted_env_def desired_env_cases simp del: path_name_simps str_lit_simps)

lemma apply_env_fields:
  assumes "apply_env A p rt = (rt', r)"
  shows "\<exists>e s. rt' = rt\<lparr>rt_env_snapshot := Some s, rt_env := e\<rparr>"
  using assms unfolding apply_env_def Let_def
  by (auto split: sum.splits) (metis runtime.surjective runtime.update_convs(5,6))+

lemma apply_env_route:
  assumes "apply_env A p rt = (rt', Inr u)" "answers_ok A" "rt_handle rt = Some h" "handle_path h = p"
  shows "route_env (rt_config rt) h (rt_env rt')"
proof (cases h)
  case (TorHandle t)
  with assms(4) have p: "p = Tor" by simp
  obtain wanted snap where w: "wanted_env (rt_config rt) snap (rt_handle rt) p = Inr wanted"
      "rt_env rt' = foldl env_put (rt_env rt) (env_writes (an_key_order A) wanted)"
    using assms(1) by (auto simp: apply_env_def Let_def split: sum.splits)
  then obtain url where u: "tor_proxy_url (nat (th_socks_port t)) (rc_isolation_token (rt_config rt)) = Inr url"
      "wanted = path_env (rc_no_proxy_extra (rt_config rt)) (Some url)"
    using wanted_env_Inr [OF w(1) p] assms(3) TorHandle by (auto simp: socks_port_for_def)
  then show ?thesis
    using assms(2) w(2) TorHandle path_env_keys(2,3)
    by (auto simp: route_env_def env_after_writes answers_ok_def managed_keys)
qed (simp_all add: route_env_def)

section \<open>The invariant\<close>

type_synonym net_state = "runtime \<times> (active_path \<times> active_path) option"

definition routed :: "runtime \<Rightarrow> bool" where
  "routed rt \<longleftrightarrow> rt_state rt \<in> {Ready, Degraded}"

definition frozen_ok :: "runtime \<Rightarrow> bool" where
  "frozen_ok rt \<longleftrightarrow>
     (rt_process_route_frozen rt \<longrightarrow>
        (\<exists>fc. rt_frozen_route_config rt = Some fc \<and> rt_config rt = fc\<lparr>rc_policy_mode := rc_policy_mode (rt_config rt)\<rparr>) \<and>
        (routed rt \<longrightarrow> rt_frozen_path rt = Some (rt_active_path rt)))"

definition net_inv :: "net_state \<Rightarrow> bool" where
  "net_inv s \<longleftrightarrow> (case s of (rt, pending) \<Rightarrow>
     (pending \<noteq> None \<longrightarrow> rt_state rt = BringingUp \<and> \<not> rt_process_route_frozen rt) \<and>
     (rt_state rt = Ready \<longrightarrow> (\<exists>h. rt_handle rt = Some h \<and> handle_path h = rt_active_path rt \<and>
        route_env (rt_config rt) h (rt_env rt))) \<and>
     (rt_state rt = Degraded \<longrightarrow> rt_handle rt = Some ClearnetHandle \<and> rt_active_path rt = Clearnet) \<and>
     (rt_state rt = Idle \<longrightarrow> rt_handle rt = None \<and> rt_active_path rt = Clearnet \<and> rt_env_snapshot rt = None) \<and>
     (rt_worker rt \<noteq> None \<longrightarrow> routed rt) \<and> (routed rt \<longrightarrow> rt_worker rt \<noteq> None) \<and>
     frozen_ok rt)"

text \<open>The answers of the outside world that the steps may get satisfy \<open>ok\<close>.\<close>

inductive net_step :: "(answers \<Rightarrow> bool) \<Rightarrow> net_state \<Rightarrow> net_state \<Rightarrow> bool" for ok where
  use_begin: "transition_needed target rt = Inr True \<Longrightarrow> net_step ok (rt, None) (switch_begin rt, Some (rt_active_path rt, target))"
| use_end: "ok A \<Longrightarrow> net_step ok (rt, Some (prev, target)) (fst (use_finish A prev target rt), None)"
| freeze: "net_step ok (rt, p) (fst (freeze_process_route expected rt), p)"
| stop: "ok A \<Longrightarrow> net_step ok (rt, None) (fst (runtime_stop A rt), None)"
| mode: "net_step ok (rt, p) (update_policy_mode m rt, p)"
| token: "net_step ok (rt, p) (fst (set_isolation_token t rt), p)"
| health: "net_step ok (rt, p) (fst (runtime_health probe rt), p)"
| worker: "net_step ok (rt, p) (worker_turn w probe rt, p)"
| outside: "(\<forall>k \<in> managed_var_names. e k = rt_env rt k) \<Longrightarrow> net_step ok (rt, p) (rt\<lparr>rt_env := e\<rparr>, p)"

definition net_reach :: "(answers \<Rightarrow> bool) \<Rightarrow> runtime_config \<Rightarrow> env \<Rightarrow> net_state \<Rightarrow> bool" where
  "net_reach ok cfg e s \<longleftrightarrow> (net_step ok)\<^sup>*\<^sup>* (initial_runtime cfg e, None) s"

lemma initial_inv: "net_inv (initial_runtime cfg e, None)"
  by (simp add: net_inv_def initial_runtime_def routed_def frozen_ok_def)

lemma teardown_fields:
  assumes "rt_handle rt = Some h"
  shows "teardown_current A rt =
    (case snd (stop_handle A (rt_config rt) h) of
       Inl e \<Rightarrow> (if is_exception e
                 then (rt\<lparr>rt_state := TearingDown, rt_calls := rt_calls rt @ fst (stop_handle A (rt_config rt) h), rt_handle := None\<rparr>, Inr ())
                 else (rt\<lparr>rt_state := TearingDown, rt_calls := rt_calls rt @ fst (stop_handle A (rt_config rt) h)\<rparr>, Inl e))
     | Inr u \<Rightarrow> (rt\<lparr>rt_state := TearingDown, rt_calls := rt_calls rt @ fst (stop_handle A (rt_config rt) h), rt_handle := None\<rparr>, Inr ()))"
  using assms by (simp add: teardown_current_def calls_def Let_def split: prod.split sum.split)

lemma restore_env_fields:
  "\<exists>e. restore_env A rt = rt\<lparr>rt_env := e, rt_env_snapshot := None\<rparr>"
proof (cases "rt_env_snapshot rt")
  case None
  then have "restore_env A rt = rt\<lparr>rt_env := rt_env rt, rt_env_snapshot := None\<rparr>" by (simp add: restore_env_def)
  then show ?thesis by blast
qed (auto simp: restore_env_def)

lemma no_route_fields:
  "\<exists>e. no_route A rt = reset_liveness (rt\<lparr>rt_handle := None, rt_env := e, rt_env_snapshot := None,
     rt_active_path := Clearnet, rt_state := Idle\<rparr>)"
  using restore_env_fields [of A "rt\<lparr>rt_handle := None\<rparr>"] by (auto simp: no_route_def)

lemma install_Inr:
  assumes "install A h p phase rt = (rt', Inr u)"
  shows "\<exists>rt1. apply_env A p (rt\<lparr>rt_handle := Some h, rt_active_path := p\<rparr>) = (rt1, Inr ()) \<and>
    rt' = start_worker (reset_liveness (rt1\<lparr>rt_state := phase\<rparr>))"
  using assms by (auto simp: install_def split: prod.splits sum.splits)

lemma install_ready:
  assumes "install A h p phase rt = (rt', Inr u)" "answers_ok A" "handle_path h = p" "\<not> rt_process_route_frozen rt"
    "phase = Ready \<or> phase = Degraded \<and> h = ClearnetHandle"
  shows "net_inv (rt', None) \<and> rt_state rt' = phase \<and> rt_handle rt' = Some h \<and> rt_active_path rt' = p \<and>
    rt_config rt' = rt_config rt \<and> \<not> rt_dropped rt' \<and> \<not> rt_process_route_frozen rt' \<and> rt_calls rt' = rt_calls rt"
proof -
  obtain rt1 where a: "apply_env A p (rt\<lparr>rt_handle := Some h, rt_active_path := p\<rparr>) = (rt1, Inr ())"
      "rt' = start_worker (reset_liveness (rt1\<lparr>rt_state := phase\<rparr>))"
    using install_Inr [OF assms(1)] by blast
  obtain e s where f: "rt1 = rt\<lparr>rt_handle := Some h, rt_active_path := p, rt_env_snapshot := Some s, rt_env := e\<rparr>"
    using apply_env_fields [OF a(1)] by auto
  have "route_env (rt_config rt) h (rt_env rt1)"
    using apply_env_route [OF a(1) assms(2) _ assms(3)] by simp
  then show ?thesis
    using assms(3-5) unfolding a(2) f by (auto simp: net_inv_def routed_def frozen_ok_def simp del: not_None_eq)
qed

lemma install_Inl:
  assumes "install A h p phase rt = (rt', Inl e)"
  shows "p = Tor \<and> rt_state rt' = rt_state rt \<and> rt_worker rt' = rt_worker rt \<and> rt_calls rt' = rt_calls rt \<and>
    rt_process_route_frozen rt' = rt_process_route_frozen rt \<and> rt_handle rt' = Some h \<and> rt_config rt' = rt_config rt \<and>
    rt_active_path rt' = Tor \<and> e = UnicodeEncodeError"
proof -
  have a: "apply_env A p (rt\<lparr>rt_handle := Some h, rt_active_path := p\<rparr>) = (rt', Inl e)"
    using assms by (auto simp: install_def split: prod.splits sum.splits)
  then obtain snap hd where w: "wanted_env (rt_config rt) snap hd p = Inl e"
    by (auto simp: apply_env_def Let_def split: sum.splits)
  then have p: "p = Tor" using wanted_env_other [of p "rt_config rt" snap hd] by (cases "p = Tor") auto
  have "raises (\<lambda>e. e = UnicodeEncodeError) (wanted_env (rt_config rt) snap hd p)"
    unfolding wanted_env_def desired_env_cases using path_name_active [of p] p tor_proxy_url_raises
    by (auto intro!: raises_bind simp del: path_name_simps str_lit_simps)
  then show ?thesis using w apply_env_fields [OF a] p by (auto simp: raises_def)
qed

lemma bring_up_path: "bring_up A cfg target = (cs, Inr h) \<Longrightarrow> handle_path h = target"
  by (cases target) (auto simp: bring_up_def bring_up_tor_def tor_bootstrap_def bring_up_vpn_def vpn_wait_def Let_def
      split: sum.splits if_splits prod.splits)

text \<open>How a switch can end, from the state in which its second part runs.\<close>

definition switching :: "runtime \<Rightarrow> bool" where
  "switching rt \<longleftrightarrow> rt_state rt = BringingUp \<and> rt_worker rt = None \<and> \<not> rt_process_route_frozen rt"

definition wedged :: "runtime \<Rightarrow> bool" where
  "wedged rt \<longleftrightarrow> rt_state rt \<in> {BringingUp, TearingDown} \<and> rt_worker rt = None \<and> \<not> rt_process_route_frozen rt"

lemma wedged_inv: "wedged rt \<Longrightarrow> net_inv (rt, None)"
  by (auto simp: wedged_def net_inv_def routed_def frozen_ok_def)

definition switch_ends :: "active_path \<Rightarrow> runtime \<Rightarrow> runtime \<Rightarrow> unit result \<Rightarrow> bool" where
  "switch_ends target rt rt' r \<longleftrightarrow> rt_config rt' = rt_config rt \<and> \<not> rt_process_route_frozen rt' \<and>
     (case r of
        Inr u \<Rightarrow> net_inv (rt', None) \<and> \<not> rt_dropped rt' \<and>
          (rt_state rt' = Ready \<and> rt_active_path rt' = target \<or>
           rt_state rt' = Degraded \<and> rc_policy_mode (rt_config rt) \<noteq> Strict)
      | Inl e \<Rightarrow>
          e = BringupFailed \<and> rc_policy_mode (rt_config rt) = Strict \<and> rt_state rt' = Idle \<and> rt_worker rt' = None \<and>
            net_inv (rt', None) \<or>
          wedged rt' \<and> (\<not> is_exception e \<or> e = UnicodeEncodeError))"

lemma no_route_ends:
  assumes "rt_worker rt = None" "\<not> rt_process_route_frozen rt"
  shows "net_inv (no_route A rt, None) \<and> rt_state (no_route A rt) = Idle \<and> rt_worker (no_route A rt) = None \<and>
    rt_config (no_route A rt) = rt_config rt \<and> \<not> rt_process_route_frozen (no_route A rt) \<and> rt_calls (no_route A rt) = rt_calls rt"
  using assms no_route_fields [of A rt] by (auto simp: net_inv_def routed_def frozen_ok_def)

lemma switch_finish_ends:
  assumes "switching rt" "answers_ok A" "switch_finish A target rt = (rt', r)"
  shows "switch_ends target rt rt' r"
proof -
  define rt1r where "rt1r = (if rt_handle rt \<noteq> None then teardown_current A rt else (rt, Inr ()))"
  obtain rt1 r1 where t: "rt1r = (rt1, r1)" by (cases rt1r)
  have w1: "wedged rt1" "rt_config rt1 = rt_config rt" "\<And>e. r1 = Inl e \<Longrightarrow> \<not> is_exception e"
    using t assms(1) teardown_fields [of rt _ A] unfolding rt1r_def
    by (auto simp: wedged_def switching_def split: if_splits sum.splits)
  show ?thesis
  proof (cases r1)
    case (Inl e)
    then show ?thesis using assms(3) t w1 unfolding rt1r_def
      by (auto simp: switch_finish_def switch_ends_def wedged_def)
  next
    case (Inr u)
    obtain cs b where b: "bring_up A (rt_config rt1) target = (cs, b)" by (cases "bring_up A (rt_config rt1) target")
    have w2: "wedged (calls cs rt1)" "rt_config (calls cs rt1) = rt_config rt" using w1 by (simp_all add: wedged_def calls_def)
    have s: "(case b of Inr h \<Rightarrow> install A h target Ready (calls cs rt1)
        | Inl e \<Rightarrow> if \<not> is_exception e then (calls cs rt1, Inl e)
            else let rt3 = no_route A (calls cs rt1)
              in if rc_policy_mode (rt_config rt3) = Strict then (rt3, Inl BringupFailed)
                 else install A ClearnetHandle Clearnet Degraded (emit (AuditBringupFailed target) rt3)) = (rt', r)"
      using assms(3) t b Inr unfolding switch_finish_def rt1r_def by (simp add: Let_def)
    show ?thesis
    proof (cases b)
      case (Inr h)
      then have i: "install A h target Ready (calls cs rt1) = (rt', r)" using s by simp
      show ?thesis
      proof (cases r)
        case (Inl e)
        show ?thesis using install_Inl [of A h target Ready "calls cs rt1" rt' e] i w2 Inl
          by (auto simp: switch_ends_def wedged_def)
      next
        case (Inr u)
        show ?thesis
          using install_ready [of A h target Ready "calls cs rt1" rt' u] i w2 Inr assms(2) bring_up_path [of A _ target cs h] b \<open>b = Inr h\<close>
          by (auto simp: switch_ends_def wedged_def)
      qed
    next
      case (Inl e)
      let ?rt3 = "no_route A (calls cs rt1)"
      note n = no_route_ends [of "calls cs rt1" A]
      show ?thesis
      proof (cases "is_exception e \<and> rc_policy_mode (rt_config rt) \<noteq> Strict")
        case True
        then have i: "install A ClearnetHandle Clearnet Degraded (emit (AuditBringupFailed target) ?rt3) = (rt', r)"
          using s Inl n w2 by (simp add: Let_def wedged_def)
        then obtain u where r: "r = Inr u"
          using install_Inl [of A ClearnetHandle Clearnet Degraded _ rt'] by (cases r) auto
        show ?thesis
          using install_ready [of A ClearnetHandle Clearnet Degraded "emit (AuditBringupFailed target) ?rt3" rt' u] i r n w2 assms(2) True
          by (auto simp: switch_ends_def emit_def wedged_def)
      next
        case False
        then show ?thesis using s Inl n w2 by (auto simp: switch_ends_def Let_def wedged_def split: if_splits)
      qed
    qed
  qed
qed

section \<open>Every step keeps the invariant\<close>

lemma transition_needed_True:
  assumes "transition_needed target rt = Inr True"
  shows "rt_state rt \<notin> {BringingUp, TearingDown}" "\<not> rt_process_route_frozen rt"
  using assms by (auto simp: transition_needed_def split: if_splits)

lemma begin_inv:
  assumes "net_inv (rt, None)" "transition_needed target rt = Inr True"
  shows "net_inv (switch_begin rt, Some (rt_active_path rt, target))"
  using assms(1) transition_needed_True [OF assms(2)]
  by (cases "rt_state rt") (auto simp: net_inv_def switch_begin_def stop_worker_def routed_def frozen_ok_def)

lemma pending_switching: "net_inv (rt, Some p) \<Longrightarrow> switching rt"
  by (auto simp: net_inv_def switching_def routed_def)

text \<open>Fields the invariant does not read.\<close>

lemma net_inv_cong:
  assumes "net_inv (rt, p)"
    "rt_config rt' = rt_config rt" "rt_state rt' = rt_state rt" "rt_active_path rt' = rt_active_path rt"
    "rt_handle rt' = rt_handle rt" "rt_env rt' = rt_env rt" "rt_env_snapshot rt' = rt_env_snapshot rt"
    "rt_process_route_frozen rt' = rt_process_route_frozen rt" "rt_frozen_path rt' = rt_frozen_path rt"
    "rt_frozen_route_config rt' = rt_frozen_route_config rt" "rt_worker rt' = rt_worker rt"
  shows "net_inv (rt', p)"
  using assms by (simp add: net_inv_def routed_def frozen_ok_def)

lemma use_finish_cases:
  assumes "use_finish A prev target rt = (rt', r)"
  obtains rt1 where "switch_finish A target rt = (rt1, r)" "rt_dropped rt' = rt_dropped rt1" "rt_calls rt' = rt_calls rt1"
    "rt_config rt' = rt_config rt1" "rt_state rt' = rt_state rt1" "rt_active_path rt' = rt_active_path rt1"
    "rt_handle rt' = rt_handle rt1" "rt_env rt' = rt_env rt1" "rt_env_snapshot rt' = rt_env_snapshot rt1"
    "rt_process_route_frozen rt' = rt_process_route_frozen rt1" "rt_frozen_path rt' = rt_frozen_path rt1"
    "rt_frozen_route_config rt' = rt_frozen_route_config rt1" "rt_worker rt' = rt_worker rt1"
  using assms that
  by (cases "switch_finish A target rt"; cases "snd (switch_finish A target rt)")
    (auto simp: use_finish_def emit_def split: if_splits)

lemma use_finish_ends:
  assumes "switching rt" "answers_ok A" "use_finish A prev target rt = (rt', r)"
  shows "switch_ends target rt rt' r"
proof -
  obtain rt1 where f: "switch_finish A target rt = (rt1, r)" "rt_dropped rt' = rt_dropped rt1" "rt_calls rt' = rt_calls rt1"
    "rt_config rt' = rt_config rt1" "rt_state rt' = rt_state rt1" "rt_active_path rt' = rt_active_path rt1"
    "rt_handle rt' = rt_handle rt1" "rt_env rt' = rt_env rt1" "rt_env_snapshot rt' = rt_env_snapshot rt1"
    "rt_process_route_frozen rt' = rt_process_route_frozen rt1" "rt_frozen_path rt' = rt_frozen_path rt1"
    "rt_frozen_route_config rt' = rt_frozen_route_config rt1" "rt_worker rt' = rt_worker rt1"
    using use_finish_cases [OF assms(3)] by blast
  then have "net_inv (rt', None) = net_inv (rt1, None)" "wedged rt' = wedged rt1"
    by (simp_all add: net_inv_def routed_def frozen_ok_def wedged_def)
  then show ?thesis
    using switch_finish_ends [OF assms(1,2) f(1)] f by (auto simp: switch_ends_def split: sum.splits)
qed

lemma switch_ends_inv: "switch_ends target rt rt' r \<Longrightarrow> net_inv (rt', None)"
  by (auto simp: switch_ends_def wedged_inv split: sum.splits)

lemma stop_inv:
  assumes "net_inv (rt, None)"
  shows "net_inv (fst (runtime_stop A rt), None)"
proof -
  define m where "m = (let rt1 = stop_worker rt in if rt_handle rt1 \<noteq> None then teardown_current A rt1 else (rt1, Inr ()))"
  obtain rt1 r where mr: "m = (rt1, r)" by (cases m)
  have f: "rt_worker rt1 = None" "rt_config rt1 = rt_config rt" "rt_process_route_frozen rt1 = rt_process_route_frozen rt"
      "rt_frozen_route_config rt1 = rt_frozen_route_config rt" "\<And>u. r = Inr u \<Longrightarrow> rt_handle rt1 = None"
      "\<And>e. r = Inl e \<Longrightarrow> rt_state rt1 = TearingDown"
    using mr teardown_fields [of "stop_worker rt" _ A] unfolding m_def
    by (auto simp: stop_worker_def Let_def split: if_splits sum.splits)
  show ?thesis
  proof (cases r)
    case (Inl e)
    then show ?thesis
      using mr f assms unfolding m_def runtime_stop_def
      by (auto simp: net_inv_def routed_def frozen_ok_def)
  next
    case (Inr u)
    obtain e where "restore_env A rt1 = rt1\<lparr>rt_env := e, rt_env_snapshot := None\<rparr>" using restore_env_fields by blast
    then show ?thesis
      using mr f assms Inr unfolding m_def runtime_stop_def
      by (auto simp: net_inv_def routed_def frozen_ok_def)
  qed
qed

lemma freeze_inv: "net_inv (rt, p) \<Longrightarrow> net_inv (fst (freeze_process_route expected rt), p)"
  by (auto simp: freeze_process_route_def net_inv_def routed_def frozen_ok_def split: option.splits)

lemma frozen_policy: "frozen_ok rt \<Longrightarrow> frozen_ok (update_policy_mode m rt)"
proof -
  assume f: "frozen_ok rt"
  have "(rt_config rt)\<lparr>rc_policy_mode := m\<rparr> = fc\<lparr>rc_policy_mode := m\<rparr>"
    if "rt_config rt = fc\<lparr>rc_policy_mode := rc_policy_mode (rt_config rt)\<rparr>" for fc
    by (subst that) simp
  with f show ?thesis by (simp add: frozen_ok_def update_policy_mode_def routed_def) blast
qed

lemma mode_inv: "net_inv (rt, p) \<Longrightarrow> net_inv (update_policy_mode m rt, p)"
  using frozen_policy [of rt m] by (simp add: net_inv_def) (simp add: update_policy_mode_def routed_def)

lemma token_inv: "net_inv (rt, p) \<Longrightarrow> net_inv (fst (set_isolation_token tok rt), p)"
  by (cases "rt_state rt") (auto simp: set_isolation_token_def net_inv_def routed_def frozen_ok_def)

lemma health_fields: "\<exists>b. fst (runtime_health probe rt) = rt\<lparr>rt_last_health := b\<rparr>"
proof -
  have "rt = rt\<lparr>rt_last_health := rt_last_health rt\<rparr>" by simp
  then have "\<exists>b. rt = rt\<lparr>rt_last_health := b\<rparr>" by blast
  then show ?thesis by (auto simp: runtime_health_def split: option.split)
qed

lemma worker_fields:
  "rt_config (worker_turn w probe rt) = rt_config rt" "rt_state (worker_turn w probe rt) = rt_state rt"
  "rt_active_path (worker_turn w probe rt) = rt_active_path rt" "rt_handle (worker_turn w probe rt) = rt_handle rt"
  "rt_env (worker_turn w probe rt) = rt_env rt" "rt_env_snapshot (worker_turn w probe rt) = rt_env_snapshot rt"
  "rt_process_route_frozen (worker_turn w probe rt) = rt_process_route_frozen rt"
  "rt_frozen_path (worker_turn w probe rt) = rt_frozen_path rt"
  "rt_frozen_route_config (worker_turn w probe rt) = rt_frozen_route_config rt"
  "rt_worker (worker_turn w probe rt) = rt_worker rt" "rt_calls (worker_turn w probe rt) = rt_calls rt"
  using health_fields [of probe rt]
  by (auto simp: worker_turn_def Let_def emit_def split: prod.split)

lemma step_inv: "net_step ok s s' \<Longrightarrow> ok \<le> answers_ok \<Longrightarrow> net_inv s \<Longrightarrow> net_inv s'"
proof (induction rule: net_step.induct)
  case (use_end A rt prev target)
  then have "answers_ok A" by auto
  then show ?case using use_finish_ends [OF pending_switching] use_end switch_ends_inv by (metis prod.collapse)
next
  case (health rt p probe)
  then show ?case using health_fields [of probe rt] by (auto intro: net_inv_cong)
next
  case (worker rt p w probe)
  then show ?case by (auto intro: net_inv_cong simp: worker_fields)
next
  case (outside e rt p)
  then show ?case using route_env_cong [of e "rt_env rt"] by (auto simp: net_inv_def routed_def frozen_ok_def)
qed (simp_all add: begin_inv stop_inv freeze_inv mode_inv token_inv)

lemma reach_induct:
  assumes "net_reach ok cfg e s" "P (initial_runtime cfg e, None)" "\<And>s s'. net_step ok s s' \<Longrightarrow> P s \<Longrightarrow> P s'"
  shows "P s"
  using assms(1) unfolding net_reach_def by (induction rule: rtranclp_induct) (blast intro: assms(2,3))+

lemma reach_inv: "net_reach ok cfg e s \<Longrightarrow> ok \<le> answers_ok \<Longrightarrow> net_inv s"
  by (erule reach_induct) (auto intro: initial_inv step_inv)

section \<open>The environment before the runtime\<close>

definition base_env :: "runtime \<Rightarrow> env" where
  "base_env rt = (case rt_env_snapshot rt of None \<Rightarrow> rt_env rt | Some s \<Rightarrow> s) |` managed_var_names"

lemma base_env_cong:
  "rt_env rt' = rt_env rt \<Longrightarrow> rt_env_snapshot rt' = rt_env_snapshot rt \<Longrightarrow> base_env rt' = base_env rt"
  by (simp add: base_env_def cong: option.case_cong)

lemma base_apply: "apply_env A p rt = (rt', r) \<Longrightarrow> base_env rt' = base_env rt"
  by (auto simp: apply_env_def base_env_def Let_def split: sum.splits option.splits)

lemma base_restore: "answers_ok A \<Longrightarrow> base_env (restore_env A rt) = base_env rt"
  by (auto simp: restore_env_def base_env_def answers_ok_def env_after_restore restrict_map_def split: option.split)

lemma base_install: "install A h p phase rt = (rt', r) \<Longrightarrow> base_env rt' = base_env rt"
proof -
  assume i: "install A h p phase rt = (rt', r)"
  obtain rt1 r1 where a: "apply_env A p (rt\<lparr>rt_handle := Some h, rt_active_path := p\<rparr>) = (rt1, r1)" by fastforce
  then have "base_env rt1 = base_env rt" using base_apply [OF a] by (simp add: base_env_def cong: option.case_cong)
  then show ?thesis using i a by (auto simp: install_def base_env_def cong: option.case_cong split: sum.splits)
qed

lemma base_no_route: "answers_ok A \<Longrightarrow> base_env (no_route A rt) = base_env rt"
  using base_restore [of A "rt\<lparr>rt_handle := None\<rparr>"] by (simp add: no_route_def base_env_def cong: option.case_cong)

lemma base_teardown: "teardown_current A rt = (rt', r) \<Longrightarrow> base_env rt' = base_env rt"
  by (auto simp: teardown_current_def base_env_def calls_def Let_def cong: option.case_cong split: option.splits prod.splits sum.splits if_splits)

lemma base_calls [simp]: "base_env (calls cs rt) = base_env rt" "base_env (emit a rt) = base_env rt"
  by (simp_all add: calls_def emit_def base_env_def cong: option.case_cong)

lemma base_switch_finish:
  assumes "answers_ok A" "switch_finish A target rt = (rt', r)"
  shows "base_env rt' = base_env rt"
proof -
  obtain rt1 r1 where t: "(if rt_handle rt \<noteq> None then teardown_current A rt else (rt, Inr ())) = (rt1, r1)" by fastforce
  then have b1: "base_env rt1 = base_env rt" using base_teardown [of A rt] by (auto split: if_splits)
  obtain cs b where b: "bring_up A (rt_config rt1) target = (cs, b)" by fastforce
  show ?thesis
    using assms(2) t b b1 base_no_route [OF assms(1), of "calls cs rt1"] base_install [of A _ _ _ _ rt' r]
    unfolding switch_finish_def by (auto simp: Let_def split: sum.splits if_splits)
qed

lemma base_use_finish:
  assumes "answers_ok A" "use_finish A prev target rt = (rt', r)"
  shows "base_env rt' = base_env rt"
  using use_finish_cases [OF assms(2)] base_switch_finish [OF assms(1)] base_env_cong by metis

lemma base_stop:
  assumes "answers_ok A"
  shows "base_env (fst (runtime_stop A rt)) = base_env rt"
proof -
  obtain rt1 r where m: "(let rt1 = stop_worker rt in if rt_handle rt1 \<noteq> None then teardown_current A rt1 else (rt1, Inr ())) = (rt1, r)"
    by fastforce
  then have "base_env rt1 = base_env rt"
    using base_teardown [of A "stop_worker rt"] by (auto simp: Let_def base_env_def stop_worker_def cong: option.case_cong split: if_splits)
  then show ?thesis
    using m base_restore [OF assms, of rt1] by (auto simp: runtime_stop_def base_env_def cong: option.case_cong split: sum.split)
qed

lemma step_base: "net_step ok s s' \<Longrightarrow> ok \<le> answers_ok \<Longrightarrow> base_env (fst s') = base_env (fst s)"
proof (induction rule: net_step.induct)
  case (use_end A rt prev target)
  then show ?case using base_use_finish [of A prev target rt] by (cases "use_finish A prev target rt") auto
next
  case (health rt p probe)
  then show ?case using health_fields [of probe rt] by (auto intro: base_env_cong)
next
  case (worker rt p w probe)
  then show ?case by (auto intro: base_env_cong simp: worker_fields)
next
  case (stop A rt)
  then show ?case using base_stop [of A rt] by auto
next
  case (outside e rt p)
  then show ?case by (auto simp: base_env_def restrict_map_def fun_eq_iff split: option.split)
qed (auto simp: base_env_def switch_begin_def stop_worker_def freeze_process_route_def update_policy_mode_def set_isolation_token_def Let_def cong: option.case_cong)

lemma reach_base: "net_reach ok cfg e s \<Longrightarrow> ok \<le> answers_ok \<Longrightarrow> base_env (fst s) = e |` managed_var_names"
  by (erule reach_induct) (auto simp: step_base, simp add: base_env_def initial_runtime_def)

section \<open>A concrete outside world\<close>

definition demo_config :: "policy_mode \<Rightarrow> runtime_config" where
  "demo_config m =
     \<lparr>rc_policy_mode = m, rc_default_path = Tor, rc_tor_binary = str_lit ''tor'', rc_tor_socks_port = 0,
      rc_tor_data_dir = str_lit ''/tor-data'', rc_vpn_provider = str_lit ''mullvad'', rc_wireguard_config_path = None,
      rc_custom_up_cmd = [], rc_custom_down_cmd = [], rc_custom_health_cmd = None, rc_mullvad_region = str_lit ''auto'',
      rc_disable_ipv6 = True, rc_no_proxy_extra = [], rc_liveness_interval_seconds = (30, 0),
      rc_liveness_failure_threshold = 2, rc_isolation_token = None\<rparr>"

definition demo_answers :: "unit result \<Rightarrow> answers" where
  "demo_answers bootstrap =
     \<lparr>an_windows = False, an_pid = 1, an_subprocesses = 0, an_pick_port = Inr 9050, an_tor_start = (\<lambda>_. Inr 7),
      an_tor_wait = (\<lambda>_. bootstrap), an_tor_stop = (\<lambda>_. Inr ()), an_vpn_killswitch = False,
      an_vpn_capability = Inr (False, False), an_vpn_detect = Inl BringupFailed,
      an_vpn_bring_up = (\<lambda>_ _. Inl BringupFailed), an_vpn_wait = (\<lambda>_. Inr ()), an_vpn_disconnect = (\<lambda>_ _. Inr ()),
      an_key_order = PROXY_KEYS @ [str_lit ''NO_PROXY'', str_lit ''no_proxy'']\<rparr>"

lemma demo_answers_ok: "answers_ok (demo_answers b)"
  by (simp add: answers_ok_def demo_answers_def managed_var_names_def MANAGED_KEYS_def)

definition demo_before :: "policy_mode \<Rightarrow> runtime" where
  "demo_before m = switch_begin (initial_runtime (demo_config m) (\<lambda>_. None))"

lemma demo_before_reach: "net_reach ok (demo_config m) (\<lambda>_. None) (demo_before m, Some (Clearnet, Tor))"
proof -
  let ?i = "initial_runtime (demo_config m) (\<lambda>_. None)"
  have "transition_needed Tor ?i = Inr True" by (simp add: transition_needed_def initial_runtime_def)
  from net_step.use_begin [OF this] have "net_step ok (?i, None) (demo_before m, Some (rt_active_path ?i, Tor))"
    by (simp only: demo_before_def)
  then show ?thesis by (simp add: net_reach_def initial_runtime_def)
qed

lemma demo_before_fields:
  "rt_handle (demo_before m) = None" "rt_config (demo_before m) = demo_config m" "rt_env_snapshot (demo_before m) = None"
  "rt_env (demo_before m) = (\<lambda>_. None)"
  by (simp_all add: demo_before_def switch_begin_def initial_runtime_def Let_def)

section \<open>Properties\<close>

lemma idle_env:
  assumes "net_reach ok cfg e (rt, p)" "ok \<le> answers_ok" "rt_state rt = Idle" "k \<in> managed_var_names"
  shows "rt_env rt k = e k"
proof -
  have "rt_env_snapshot rt = None" using reach_inv [OF assms(1,2)] assms(3) by (simp add: net_inv_def)
  then have "rt_env rt |` managed_var_names = e |` managed_var_names"
    using reach_base [OF assms(1,2)] by (simp add: base_env_def)
  then show ?thesis using assms(4) by (metis restrict_in)
qed

lemma reach_step: "net_reach ok cfg e s \<Longrightarrow> net_step ok s s' \<Longrightarrow> net_reach ok cfg e s'"
  by (simp add: net_reach_def)

text \<open>C4: A strict switch never falls back. Whatever happened before, and whatever policy updates, probes and
  foreign writes fell into the window in which the switch had released the lock: if the policy is strict when
  the switch goes on, it either ends with the requested path ready, its handle installed and its proxy variables
  in place, or it raises and the runtime is not ready, never degraded; and where it raises \<open>BringupFailed\<close> the runtime is idle, without a
  handle, and every proxy variable has the value it had before the runtime existed.\<close>

theorem strict_switch_fails_closed:
  assumes "net_reach answers_ok cfg e (rt, Some (prev, target))" "answers_ok A" "rc_policy_mode (rt_config rt) = Strict"
    "use_finish A prev target rt = (rt', r)"
  shows "case r of
      Inr u \<Rightarrow> rt_state rt' = Ready \<and> rt_active_path rt' = target \<and> \<not> rt_dropped rt' \<and>
        (\<exists>h. rt_handle rt' = Some h \<and> handle_path h = target \<and> route_env (rt_config rt') h (rt_env rt'))
    | Inl err \<Rightarrow> \<not> ns_ready (runtime_status rt') \<and>
        (is_exception err \<and> err \<noteq> UnicodeEncodeError \<longrightarrow> err = BringupFailed \<and> rt_state rt' = Idle \<and> rt_handle rt' = None \<and>
           (\<forall>k \<in> managed_var_names. rt_env rt' k = e k))"
proof -
  have inv: "net_inv (rt, Some (prev, target))" using reach_inv [OF assms(1)] by simp
  have ends: "switch_ends target rt rt' r" by (rule use_finish_ends [OF pending_switching [OF inv] assms(2,4)])
  have reach: "net_reach answers_ok cfg e (rt', None)"
    using reach_step [OF assms(1)] net_step.use_end [of answers_ok A rt prev target] assms(2,4) by simp
  show ?thesis
  proof (cases r)
    case (Inr u)
    then show ?thesis using ends assms(3) by (auto simp: switch_ends_def net_inv_def)
  next
    case (Inl err)
    have "rt_env rt' k = e k" if "rt_state rt' = Idle" "k \<in> managed_var_names" for k
      using idle_env [OF reach _ that] by simp
    then show ?thesis using ends Inl
      by (auto simp: switch_ends_def runtime_status_def wedged_def net_inv_def)
  qed
qed

lemma demo_torrc: "\<exists>s. render_torrc 9050 9051 d True False None = Inr s"
  by (simp add: render_torrc_def)

lemma demo_bring_up:
  "bring_up_tor (demo_answers (Inl BringupFailed)) (demo_config m) = ([TorStarted 7, TorStop 7], Inl BringupFailed)"
  "bring_up_tor (demo_answers (Inr ())) (demo_config m) =
     ([TorStarted 7], Inr (TorHandle \<lparr>th_process = 7, th_socks_port = 9050, th_control_port = 9051, th_data_dir = str_lit ''/tor-data''\<rparr>))"
  using demo_torrc [of "str_lit ''/tor-data''"]
  by (auto simp: bring_up_tor_def demo_answers_def demo_config_def validate_port_pair_def tor_bootstrap_def is_exception_def is_control_flow_def)

lemma demo_strict_failure:
  "snd (use_finish (demo_answers (Inl BringupFailed)) Clearnet Tor (demo_before Strict)) = Inl BringupFailed"
proof -
  obtain e where "no_route (demo_answers (Inl BringupFailed)) (calls [TorStarted 7, TorStop 7] (demo_before Strict)) =
      reset_liveness ((calls [TorStarted 7, TorStop 7] (demo_before Strict))\<lparr>rt_handle := None, rt_env := e,
        rt_env_snapshot := None, rt_active_path := Clearnet, rt_state := Idle\<rparr>)"
    using no_route_fields by blast
  moreover have "rc_policy_mode (demo_config Strict) = Strict" by (simp add: demo_config_def)
  ultimately show ?thesis
    by (simp add: use_finish_def switch_finish_def demo_before_fields demo_bring_up bring_up_def Let_def is_exception_def
        is_control_flow_def calls_def)
qed

lemma strict_switch_fails_closed_witness:
  "\<exists>rt'. use_finish (demo_answers (Inl BringupFailed)) Clearnet Tor (demo_before Strict) = (rt', Inl BringupFailed) \<and>
     rt_state rt' = Idle \<and> rt_handle rt' = None"
proof -
  obtain rt' where u: "use_finish (demo_answers (Inl BringupFailed)) Clearnet Tor (demo_before Strict) = (rt', Inl BringupFailed)"
    using demo_strict_failure by (metis prod.collapse)
  have "rc_policy_mode (rt_config (demo_before Strict)) = Strict" by (simp add: demo_before_fields demo_config_def)
  from strict_switch_fails_closed [OF demo_before_reach demo_answers_ok this u] u show ?thesis
    by (simp add: is_exception_def is_control_flow_def)
qed

lemma stop_Inr:
  assumes "runtime_stop A rt = (rt', Inr u)"
  shows "\<exists>rt1. rt' = reset_liveness ((restore_env A rt1)\<lparr>rt_state := Idle, rt_active_path := Clearnet\<rparr>) \<and>
    rt_handle rt1 = None \<and> rt_worker rt1 = None \<and> rt_env rt1 = rt_env rt \<and> rt_env_snapshot rt1 = rt_env_snapshot rt"
proof -
  obtain rt1 r where m: "(let rt1 = stop_worker rt in if rt_handle rt1 \<noteq> None then teardown_current A rt1 else (rt1, Inr ())) = (rt1, r)"
    by fastforce
  then have "r = Inr () \<Longrightarrow> rt_handle rt1 = None \<and> rt_worker rt1 = None \<and> rt_env rt1 = rt_env rt \<and> rt_env_snapshot rt1 = rt_env_snapshot rt"
    using teardown_fields [of "stop_worker rt" _ A]
    by (auto simp: stop_worker_def Let_def split: if_splits sum.splits)
  then show ?thesis using m assms by (auto simp: runtime_stop_def split: sum.splits)
qed

text \<open>C28: Stopping gives the environment back. A stop that does not raise, from any reachable state that is not in
  the middle of a switch, leaves the runtime idle on clearnet without a handle or a worker, every managed variable
  with the value it had before the runtime existed, and a second stop changes nothing.\<close>

theorem stop_restores:
  assumes "net_reach answers_ok cfg e (rt, None)" "answers_ok A" "runtime_stop A rt = (rt', Inr u)"
  shows "rt_state rt' = Idle \<and> rt_active_path rt' = Clearnet \<and> rt_handle rt' = None \<and> rt_worker rt' = None \<and> \<not> rt_dropped rt' \<and>
    (\<forall>k \<in> managed_var_names. rt_env rt' k = e k) \<and> runtime_stop A rt' = (rt', Inr ())"
proof -
  obtain rt1 where s: "rt' = reset_liveness ((restore_env A rt1)\<lparr>rt_state := Idle, rt_active_path := Clearnet\<rparr>)"
      "rt_handle rt1 = None" "rt_worker rt1 = None" using stop_Inr [OF assms(3)] by blast
  obtain e1 where "restore_env A rt1 = rt1\<lparr>rt_env := e1, rt_env_snapshot := None\<rparr>" using restore_env_fields by blast
  then have f: "rt' = rt1\<lparr>rt_env := e1, rt_env_snapshot := None, rt_state := Idle, rt_active_path := Clearnet,
      rt_failure_count := 0, rt_dropped := False, rt_last_health := True\<rparr>" using s(1) by (simp add: reset_liveness_def)
  have "net_reach answers_ok cfg e (rt', None)"
    using reach_step [OF assms(1)] net_step.stop [of answers_ok A rt] assms(2,3) by simp
  then have "rt_env rt' k = e k" if "k \<in> managed_var_names" for k
    using idle_env [of answers_ok cfg e rt' None k] that f by simp
  moreover have "runtime_stop A rt' = (rt', Inr ())"
    unfolding f using s(2,3)
    by (simp add: runtime_stop_def stop_worker_def restore_env_def reset_liveness_def Let_def)
  ultimately show ?thesis using f s by simp
qed

lemma stop_restores_witness:
  "\<exists>rt'. runtime_stop (demo_answers (Inr ())) (initial_runtime (demo_config Strict) (\<lambda>_. Some [49])) = (rt', Inr ()) \<and>
     rt_env rt' (str_lit ''NO_PROXY'') = Some [49]"
proof -
  let ?i = "initial_runtime (demo_config Strict) (\<lambda>_. Some [49])"
  have "net_reach answers_ok (demo_config Strict) (\<lambda>_. Some [49]) (?i, None)" by (simp add: net_reach_def)
  moreover obtain rt' where "runtime_stop (demo_answers (Inr ())) ?i = (rt', Inr ())"
    by (simp add: runtime_stop_def stop_worker_def initial_runtime_def)
  moreover have "str_lit ''NO_PROXY'' \<in> managed_var_names" by (simp add: managed_var_names_def MANAGED_KEYS_def)
  ultimately show ?thesis using stop_restores [OF _ demo_answers_ok] by blast
qed

text \<open>A child process started while the runtime rewrites the proxy variables cannot see them all gone. After any
  number of the single writes every variable has its old or its final value, and no variable has been removed before
  every variable that is to have a value has it.\<close>

lemma proxy_switch_no_gap:
  assumes "apply_env A p rt = (rt', Inr u)" "answers_ok A"
  shows "\<exists>wanted. (\<exists>snapshot. wanted_env (rt_config rt) snapshot (rt_handle rt) p = Inr wanted) \<and>
    rt_env rt' = foldl env_put (rt_env rt) (env_writes (an_key_order A) wanted) \<and>
    (\<forall>n. let mid = foldl env_put (rt_env rt) (take n (env_writes (an_key_order A) wanted))
       in (\<forall>k. mid k = rt_env rt k \<or> mid k = rt_env rt' k) \<and>
          ((\<exists>k. rt_env rt k \<noteq> None \<and> mid k = None) \<longrightarrow> (\<forall>k. rt_env rt' k \<noteq> None \<longrightarrow> mid k = rt_env rt' k)))"
proof -
  obtain wanted snapshot where w0: "wanted_env (rt_config rt) snapshot (rt_handle rt) p = Inr wanted"
      and w: "rt_env rt' = foldl env_put (rt_env rt) (env_writes (an_key_order A) wanted)"
    using assms(1) by (auto simp: apply_env_def Let_def split: sum.splits)
  let ?ks = "an_key_order A"
  let ?ws = "env_writes ?ks wanted"
  let ?sets = "map (\<lambda>k. (k, wanted k)) (filter (\<lambda>k. wanted k \<noteq> None) ?ks)"
  let ?mid = "\<lambda>n. foldl env_put (rt_env rt) (take n ?ws)"
  have agree: "list_all (\<lambda>(k, v). v = wanted k) (take n ?ws)" for n
    using env_writes_agree [of wanted ?ks] by (auto simp: list_all_iff dest: in_set_takeD)
  have mid: "?mid n k = (if k \<in> fst ` set (take n ?ws) then wanted k else rt_env rt k)" for n k
    by (rule foldl_env_put [OF agree])
  have final: "rt_env rt' k = (if k \<in> set ?ks then wanted k else rt_env rt k)" for k
    by (simp add: w env_after_writes)
  have sub: "fst ` set (take n ?ws) \<subseteq> set ?ks" for n
    using env_writes_keys [of ?ks wanted] set_take_subset [of n ?ws] by blast
  have sets: "fst ` set ?sets \<subseteq> fst ` set (take n ?ws)" if "rt_env rt k \<noteq> None" "?mid n k = None" for n k
  proof -
    have k: "k \<in> fst ` set (take n ?ws)" "wanted k = None" using that mid [of n k] by (auto split: if_splits)
    have "\<not> n \<le> length ?sets"
    proof
      assume "n \<le> length ?sets"
      then have "take n ?ws = take n ?sets" by (simp add: env_writes_def)
      then show False using k by (auto dest!: in_set_takeD)
    qed
    then have "set ?sets \<subseteq> set (take n ?ws)" by (simp add: env_writes_def)
    then show ?thesis by blast
  qed
  have "?mid n j = rt_env rt' j" if "rt_env rt k \<noteq> None" "?mid n k = None" "rt_env rt' j \<noteq> None" for n j k
  proof (cases "j \<in> set ?ks")
    case True
    then have "(j, wanted j) \<in> set ?sets" using that(3) final [of j] by simp
    then have "j \<in> fst ` set ?sets" by (rule image_eqI [rotated]) simp
    then show ?thesis using sets [OF that(1,2)] mid [of n j] final [of j] True by auto
  next
    case False
    then show ?thesis using sub [of n] mid [of n j] final [of j] by auto
  qed
  moreover have "?mid n k = rt_env rt k \<or> ?mid n k = rt_env rt' k" for n k
    using mid [of n k] final [of k] sub [of n] by auto
  ultimately show ?thesis using w0 w unfolding Let_def by blast
qed

lemma proxy_switch_no_gap_witness:
  "\<exists>wanted rt'. apply_env (demo_answers (Inr ())) Clearnet (initial_runtime (demo_config Strict) (\<lambda>_. Some [49])) = (rt', Inr ()) \<and>
     rt_env rt' = foldl env_put (\<lambda>_. Some [49]) (env_writes (an_key_order (demo_answers (Inr ()))) wanted)"
proof -
  let ?i = "initial_runtime (demo_config Strict) (\<lambda>_. Some [49])"
  obtain rt' where a: "apply_env (demo_answers (Inr ())) Clearnet ?i = (rt', Inr ())"
    using wanted_env_other [of Clearnet "rt_config ?i" "rt_env ?i |` managed_var_names" "rt_handle ?i"]
    by (auto simp: apply_env_def Let_def initial_runtime_def)
  from proxy_switch_no_gap [OF a demo_answers_ok] a show ?thesis by (auto simp: initial_runtime_def)
qed

end
