(* ===== verification/Net_Gate.thy ===== *)
theory Net_Gate
  imports Net_Safety
begin

text \<open>
  The gates around the runtime: \<open>pre_tool_call\<close>, \<open>pre_api_request\<close> and \<open>_reuse_frozen_route\<close> of
  \<open>network/hooks.py\<close>, activation and re-registration of \<open>network/_registration.py\<close>. What the readers of the
  configuration files answer or raise, and the provider part of the request gate, are arguments; the runtime
  is \<open>None\<close> while none is registered.
\<close>

section \<open>Definitions\<close>

definition PROTECTED_NETWORK_PATHS :: "active_path set" where
  "PROTECTED_NETWORK_PATHS = {Tor, Vpn}"

definition api_assert_route_config :: "runtime_config \<Rightarrow> runtime option \<Rightarrow> unit result" where
  "api_assert_route_config cfg rto =
     (case rto of None \<Rightarrow> Inl MordredNetworkError | Some rt \<Rightarrow> assert_route_config cfg rt)"

definition api_status :: "runtime option \<Rightarrow> network_status result" where
  "api_status rto = (case rto of None \<Rightarrow> Inl MordredNetworkError | Some rt \<Rightarrow> Inr (runtime_status rt))"

definition api_is_dropped :: "runtime option \<Rightarrow> bool" where
  "api_is_dropped rto = (case rto of None \<Rightarrow> False | Some rt \<Rightarrow> rt_dropped rt)"

definition handle_transport_gate_error :: "active_path \<Rightarrow> active_path \<Rightarrow> policy_mode \<Rightarrow> unit result" where
  "handle_transport_gate_error target_path active_path mode =
     (if mode = Strict \<and> (target_path \<in> PROTECTED_NETWORK_PATHS \<or> active_path \<in> PROTECTED_NETWORK_PATHS)
      then Inl MordredPathBringupFailed else Inr ())"

definition pre_tool_call ::
  "policy_mode \<Rightarrow> active_path result \<Rightarrow> runtime_config result \<Rightarrow> runtime option \<Rightarrow> unit result" where
  "pre_tool_call mode configured current rto =
     (if mode \<noteq> Strict then Inr ()
      else case configured of
        Inl e \<Rightarrow> if is_exception e then handle_transport_gate_error Tor Tor mode else Inl e
      | Inr configured_path \<Rightarrow>
          (case r_bind current (\<lambda>cfg. r_bind (api_assert_route_config cfg rto) (\<lambda>_. api_status rto)) of
             Inl e \<Rightarrow> if is_exception e then handle_transport_gate_error configured_path Tor mode else Inl e
           | Inr status \<Rightarrow>
               let active_path = ns_active_path status
               in if configured_path \<in> PROTECTED_NETWORK_PATHS \<and> active_path \<noteq> configured_path
                  then handle_transport_gate_error configured_path active_path mode
                  else if active_path \<in> PROTECTED_NETWORK_PATHS \<and> \<not> ns_ready status
                  then handle_transport_gate_error configured_path active_path mode
                  else if active_path \<in> PROTECTED_NETWORK_PATHS \<and> api_is_dropped rto
                  then Inl MordredPathDropped else Inr ()))"

definition pre_api_request ::
  "policy_mode \<Rightarrow> active_path result \<Rightarrow> runtime_config result \<Rightarrow> runtime option \<Rightarrow> unit result \<Rightarrow> unit result" where
  "pre_api_request mode configured current rto provider_gate =
     (if mode \<noteq> Strict then Inr ()
      else case configured of
        Inl e \<Rightarrow> if is_exception e then handle_transport_gate_error Tor Tor mode else Inl e
      | Inr configured_path \<Rightarrow>
          (case r_bind current (\<lambda>cfg. r_bind (api_assert_route_config cfg rto) (\<lambda>_. api_status rto)) of
             Inl e \<Rightarrow> if is_exception e then handle_transport_gate_error configured_path Tor mode else Inl e
           | Inr status \<Rightarrow>
               let active_path = ns_active_path status
               in if configured_path \<in> PROTECTED_NETWORK_PATHS \<and> active_path \<noteq> configured_path
                  then handle_transport_gate_error configured_path active_path mode
                  else if active_path \<in> PROTECTED_NETWORK_PATHS \<and> \<not> ns_ready status
                  then handle_transport_gate_error configured_path active_path mode
                  else if active_path \<in> PROTECTED_NETWORK_PATHS \<and> api_is_dropped rto
                  then handle_transport_gate_error configured_path active_path mode
                  else if active_path \<noteq> Tor then Inr ()
                  else case provider_gate of
                         Inl e \<Rightarrow> if is_exception e then handle_transport_gate_error configured_path active_path mode else Inl e
                       | Inr u \<Rightarrow> Inr ()))"

text \<open>What \<open>on_session_start\<close> makes of an exception of the route.\<close>

definition route_refusal :: "policy_mode \<Rightarrow> exn \<Rightarrow> unit result" where
  "route_refusal mode e =
     (if e = PathSwitchRequiresRestart then Inl MordredPathBringupFailed
      else if e = BringupFailed then (if mode \<noteq> Strict then Inr () else Inl MordredPathBringupFailed)
      else if is_network_error e then (if mode = Strict then Inl MordredPathBringupFailed else Inr ())
      else if is_exception e then Inl MordredPathBringupFailed else Inl e)"

definition reuse_frozen_route ::
  "answers \<Rightarrow> policy_mode \<Rightarrow> active_path \<Rightarrow> runtime_config result \<Rightarrow> runtime \<Rightarrow> runtime \<times> unit result" where
  "reuse_frozen_route A mode target current rt =
     (case r_bind current (\<lambda>cfg. assert_route_config cfg rt) of
        Inl e \<Rightarrow> (rt, route_refusal mode e)
      | Inr u \<Rightarrow>
          (case runtime_use A (path_name target) (update_policy_mode mode rt) of
             (rt', Inl e) \<Rightarrow> (rt', route_refusal mode e)
           | (rt', Inr u) \<Rightarrow> (rt', Inr ())))"

definition activate_process_route :: "answers \<Rightarrow> runtime_config \<Rightarrow> runtime \<Rightarrow> runtime \<times> unit result" where
  "activate_process_route A cfg rt =
     (case activate_and_freeze A (path_name (rc_default_path cfg)) rt of
        (rt', Inr u) \<Rightarrow> (rt', Inr ())
      | (rt', Inl e) \<Rightarrow>
          if \<not> is_exception e then (rt', Inl e)
          else (case runtime_stop A rt' of
                  (rt'', Inl e') \<Rightarrow> (rt'', Inl (if is_exception e' then MordredPathBringupFailed else e'))
                | (rt'', Inr u) \<Rightarrow> (rt'', Inl MordredPathBringupFailed)))"

definition validate_reusable_process_route :: "runtime_config \<Rightarrow> runtime \<Rightarrow> unit result" where
  "validate_reusable_process_route cfg rt =
     (if \<not> (rt_process_route_frozen rt \<and> rt_frozen_path rt \<noteq> None) then Inl MordredPathBringupFailed
      else if rt_frozen_route_config rt \<noteq> Some cfg then Inl MordredPathBringupFailed
      else if rt_frozen_requested_path rt \<noteq> Some (rc_default_path cfg) then Inl MordredPathBringupFailed
      else if \<not> ns_ready (runtime_status rt) then Inl MordredPathBringupFailed
      else if \<not> ns_last_health (runtime_status rt) then Inl MordredPathBringupFailed
      else if rt_dropped rt then Inl MordredPathBringupFailed
      else Inr ())"

section \<open>What a passed gate means\<close>

lemma gate_error_protected:
  "path \<in> PROTECTED_NETWORK_PATHS \<Longrightarrow> handle_transport_gate_error path q Strict = Inl MordredPathBringupFailed"
  by (simp add: handle_transport_gate_error_def)

lemma tool_gate_Inr:
  assumes "pre_tool_call Strict (Inr path) current rto = Inr ()" "path \<in> PROTECTED_NETWORK_PATHS"
  shows "\<exists>rt cfg. rto = Some rt \<and> current = Inr cfg \<and> assert_route_config cfg rt = Inr () \<and>
    rt_active_path rt = path \<and> routed rt \<and> \<not> rt_dropped rt"
  using assms gate_error_protected [OF assms(2)]
  by (auto simp: pre_tool_call_def Let_def api_assert_route_config_def api_status_def api_is_dropped_def
      runtime_status_def routed_def r_bind_Inr_iff split: sum.splits if_splits option.splits)

lemma request_gate_Inr:
  assumes "pre_api_request Strict (Inr path) current rto gate = Inr ()" "path \<in> PROTECTED_NETWORK_PATHS"
  shows "pre_tool_call Strict (Inr path) current rto = Inr () \<and> (path = Tor \<longrightarrow> gate = Inr ())"
  using assms gate_error_protected [OF assms(2)]
  by (auto simp: pre_tool_call_def pre_api_request_def Let_def split: sum.splits if_splits)

lemma assert_route_Inr:
  "assert_route_config cfg rt = Inr () \<longleftrightarrow> rt_process_route_frozen rt \<and> rt_frozen_route_config rt = Some cfg"
  by (auto simp: assert_route_config_def)

text \<open>C3: What a strict gate lets through goes through the protected route. In every reachable state of the
  process, also in the middle of a switch: where a tool call or a provider request passes the gate in strict mode while
  Tor or the VPN is configured, the runtime is ready, not degraded, on exactly that path, its liveness is watched, it
  has not been dropped, its route was frozen with exactly the configuration on disk, and under Tor every proxy variable
  is the socks5h URL of the port of the installed Tor handle with the configured token.\<close>

theorem strict_gate_route:
  assumes "net_reach answers_ok cfg0 e (rt, p)" "path \<in> {Tor, Vpn}"
    "pre_tool_call Strict (Inr path) (Inr cfg) (Some rt) = Inr () \<or>
     pre_api_request Strict (Inr path) (Inr cfg) (Some rt) gate = Inr ()"
  shows "p = None \<and> rt_state rt = Ready \<and> rt_active_path rt = path \<and> rt_worker rt \<noteq> None \<and> \<not> rt_dropped rt \<and>
    rt_frozen_route_config rt = Some cfg \<and>
    (\<exists>h. rt_handle rt = Some h \<and> handle_path h = path \<and>
      (path = Tor \<longrightarrow> (\<exists>t url. h = TorHandle t \<and>
         tor_proxy_url (nat (th_socks_port t)) (rc_isolation_token cfg) = Inr url \<and>
         (\<forall>k \<in> set PROXY_KEYS. rt_env rt k = Some url))))"
proof -
  have inv: "net_inv (rt, p)" using reach_inv [OF assms(1)] by simp
  have prot: "path \<in> PROTECTED_NETWORK_PATHS" using assms(2) by (simp add: PROTECTED_NETWORK_PATHS_def)
  have "pre_tool_call Strict (Inr path) (Inr cfg) (Some rt) = Inr ()"
    using assms(3) request_gate_Inr [OF _ prot] by blast
  from tool_gate_Inr [OF this prot] have g: "rt_process_route_frozen rt" "rt_frozen_route_config rt = Some cfg"
      "rt_active_path rt = path" "routed rt" "\<not> rt_dropped rt"
    by (auto simp: assert_route_Inr)
  have ready: "rt_state rt = Ready"
    using g(3,4) inv assms(2) by (auto simp: net_inv_def routed_def)
  then obtain h where h: "rt_handle rt = Some h" "handle_path h = path" "route_env (rt_config rt) h (rt_env rt)"
    using inv g(3) by (auto simp: net_inv_def)
  have c: "rt_config rt = cfg\<lparr>rc_policy_mode := rc_policy_mode (rt_config rt)\<rparr>"
    using inv g(1,2) by (auto simp: net_inv_def frozen_ok_def)
  then have tok: "rc_isolation_token (rt_config rt) = rc_isolation_token cfg"
    by (metis runtime_config.select_convs(16) runtime_config.surjective runtime_config.update_convs(1))
  have "path = Tor \<longrightarrow> (\<exists>t url. h = TorHandle t \<and> tor_proxy_url (nat (th_socks_port t)) (rc_isolation_token cfg) = Inr url \<and>
         (\<forall>k \<in> set PROXY_KEYS. rt_env rt k = Some url))"
    using h(2,3) tok by (cases h) (auto simp: route_env_def)
  moreover have "p = None" using inv g(1) unfolding net_inv_def by (cases p) auto
  moreover have "rt_worker rt \<noteq> None" using inv g(4) unfolding net_inv_def by blast
  ultimately show ?thesis using ready g h by blast
qed

definition demo_ready :: "runtime" where
  "demo_ready = fst (use_finish (demo_answers (Inr ())) Clearnet Tor (demo_before Strict))"

lemma demo_activation: "use_finish (demo_answers (Inr ())) Clearnet Tor (demo_before Strict) = (demo_ready, Inr ())"
proof -
  have "wanted_env (demo_config Strict) snap (Some (TorHandle t)) Tor = Inr
      (path_env [] (Some (str_lit ''socks5h://127.0.0.1:'' @ dec (nat (th_socks_port t)))))" for snap t
    by (simp add: wanted_env_def demo_config_def desired_env_cases ACTIVE_PATHS_def tor_proxy_url_def socks_port_for_def)
  then have "snd (use_finish (demo_answers (Inr ())) Clearnet Tor (demo_before Strict)) = Inr ()"
    by (simp add: use_finish_def switch_finish_def demo_before_fields demo_bring_up bring_up_def Let_def install_def apply_env_def
        calls_def emit_def)
  then show ?thesis by (simp add: demo_ready_def prod_eq_iff)
qed

definition demo_frozen :: "runtime" where
  "demo_frozen = fst (freeze_process_route None demo_ready)"

lemma demo_frozen_ready:
  "net_reach answers_ok (demo_config Strict) (\<lambda>_. None) (demo_frozen, None)"
  "pre_tool_call Strict (Inr Tor) (Inr (demo_config Strict)) (Some demo_frozen) = Inr ()"
proof -
  have "net_step answers_ok (demo_before Strict, Some (Clearnet, Tor)) (demo_ready, None)"
    using net_step.use_end [of answers_ok "demo_answers (Inr ())" "demo_before Strict" Clearnet Tor] demo_activation demo_answers_ok by simp
  then have r: "net_reach answers_ok (demo_config Strict) (\<lambda>_. None) (demo_ready, None)"
    by (rule reach_step [OF demo_before_reach])
  then show "net_reach answers_ok (demo_config Strict) (\<lambda>_. None) (demo_frozen, None)"
    unfolding demo_frozen_def by (rule reach_step) (rule net_step.freeze)
  have "switching (demo_before Strict)" using reach_inv [OF demo_before_reach [of answers_ok]] pending_switching by blast
  from use_finish_ends [OF this demo_answers_ok demo_activation]
  have "rt_state demo_ready = Ready" "rt_active_path demo_ready = Tor" "rt_handle demo_ready \<noteq> None"
    "rt_config demo_ready = demo_config Strict" "\<not> rt_process_route_frozen demo_ready" "\<not> rt_dropped demo_ready"
    by (auto simp: switch_ends_def demo_before_fields demo_config_def net_inv_def)
  then show "pre_tool_call Strict (Inr Tor) (Inr (demo_config Strict)) (Some demo_frozen) = Inr ()"
    by (auto simp: demo_frozen_def freeze_process_route_def pre_tool_call_def Let_def api_assert_route_config_def
        assert_route_config_def api_status_def runtime_status_def api_is_dropped_def split: option.split)
qed

lemma strict_gate_route_witness:
  "\<exists>t url. rt_handle demo_frozen = Some (TorHandle t) \<and> (\<forall>k \<in> set PROXY_KEYS. rt_env demo_frozen k = Some url)"
  using strict_gate_route [OF demo_frozen_ready(1), of Tor "demo_config Strict"] demo_frozen_ready(2) by blast

lemma stop_not_routed:
  "\<not> routed (fst (runtime_stop A rt))" "rt_config (fst (runtime_stop A rt)) = rt_config rt"
  "rt_process_route_frozen (fst (runtime_stop A rt)) = rt_process_route_frozen rt"
  "rt_frozen_route_config (fst (runtime_stop A rt)) = rt_frozen_route_config rt"
proof -
  obtain rt1 r where m: "(let rt1 = stop_worker rt in if rt_handle rt1 \<noteq> None then teardown_current A rt1 else (rt1, Inr ())) = (rt1, r)"
    by fastforce
  then have f: "rt_config rt1 = rt_config rt" "rt_process_route_frozen rt1 = rt_process_route_frozen rt"
      "rt_frozen_route_config rt1 = rt_frozen_route_config rt" "\<And>e. r = Inl e \<Longrightarrow> rt_state rt1 = TearingDown"
    using teardown_fields [of "stop_worker rt" _ A] by (auto simp: stop_worker_def Let_def split: if_splits sum.splits)
  obtain e1 where "restore_env A rt1 = rt1\<lparr>rt_env := e1, rt_env_snapshot := None\<rparr>" using restore_env_fields by blast
  then show "\<not> routed (fst (runtime_stop A rt))" "rt_config (fst (runtime_stop A rt)) = rt_config rt"
    "rt_process_route_frozen (fst (runtime_stop A rt)) = rt_process_route_frozen rt"
    "rt_frozen_route_config (fst (runtime_stop A rt)) = rt_frozen_route_config rt"
    using m f by (cases r; simp add: runtime_stop_def routed_def)+
qed

text \<open>A frozen route is never exchanged. Once the route is frozen, whatever step follows keeps it frozen, with
  the same configuration but for the policy mode and with the same isolation token; as long as it is up it is the same
  handle on the same path with the same proxy variables, and once it is down it never comes up again: only a restart of
  the process can bring it back.\<close>

lemma frozen_route_fixed:
  assumes "net_reach answers_ok cfg e (rt, p)" "rt_process_route_frozen rt" "net_step answers_ok (rt, p) (rt', p')"
  shows "rt_process_route_frozen rt' \<and> p' = None \<and>
    (\<exists>fc m. rt_frozen_route_config rt = Some fc \<and> rt_frozen_route_config rt' = Some (fc\<lparr>rc_policy_mode := m\<rparr>)) \<and>
    rc_isolation_token (rt_config rt') = rc_isolation_token (rt_config rt) \<and>
    (routed rt' \<longrightarrow> routed rt \<and> rt_handle rt' = rt_handle rt \<and> rt_active_path rt' = rt_active_path rt \<and>
       (\<forall>k \<in> managed_var_names. rt_env rt' k = rt_env rt k))"
proof -
  have inv: "net_inv (rt, p)" using reach_inv [OF assms(1)] by simp
  then have p: "p = None" using assms(2) unfolding net_inv_def by (cases p) auto
  obtain fc where fc: "rt_frozen_route_config rt = Some fc" "rt_config rt = fc\<lparr>rc_policy_mode := rc_policy_mode (rt_config rt)\<rparr>"
    using inv assms(2) unfolding net_inv_def frozen_ok_def by auto
  have self: "fc = fc\<lparr>rc_policy_mode := rc_policy_mode fc\<rparr>" by simp
  have keep: "\<exists>fc m. rt_frozen_route_config rt = Some fc \<and> q = Some (fc\<lparr>rc_policy_mode := m\<rparr>)"
    if "q = rt_frozen_route_config rt \<or> q = Some (rt_config rt)" for q
    using that fc self by metis
  from assms(3) show ?thesis
  proof (cases rule: net_step.cases)
    case (use_begin target)
    then show ?thesis using transition_needed_True(2) assms(2) by blast
  next
    case (freeze expected)
    then show ?thesis using p assms(2) keep [of "rt_frozen_route_config rt'"]
      by (auto simp: freeze_process_route_def routed_def split: if_splits)
  next
    case (stop A)
    then show ?thesis using stop_not_routed [of A rt] assms(2) keep by auto
  next
    case (health probe)
    obtain b where "rt' = rt\<lparr>rt_last_health := b\<rparr>" "p' = p" using health health_fields [of probe rt] by auto
    then show ?thesis using p assms(2) keep by (simp add: routed_def)
  next
    case (worker w probe)
    then show ?thesis using p assms(2) keep by (auto simp: routed_def worker_fields)
  next
    case (outside e)
    then show ?thesis using p assms(2) keep by (auto simp: routed_def)
  qed (use p assms(2) keep in \<open>auto simp: routed_def update_policy_mode_def set_isolation_token_def\<close>)
qed

lemma frozen_route_fixed_witness:
  "rt_process_route_frozen (update_policy_mode Off demo_frozen) \<and> routed (update_policy_mode Off demo_frozen) \<and>
   rt_handle (update_policy_mode Off demo_frozen) = rt_handle demo_frozen"
proof -
  have g: "rt_process_route_frozen demo_frozen" "routed demo_frozen"
    using tool_gate_Inr [OF demo_frozen_ready(2)] by (auto simp: assert_route_Inr PROTECTED_NETWORK_PATHS_def)
  have "routed (update_policy_mode Off demo_frozen)" using g(2) by (simp add: update_policy_mode_def routed_def)
  then show ?thesis using frozen_route_fixed [OF demo_frozen_ready(1) g(1) net_step.mode [of answers_ok demo_frozen None Off]] by simp
qed

section \<open>Liveness\<close>

lemma failing_turn:
  assumes "rt_worker rt = Some w" "rt_handle rt = Some h" "h \<noteq> ClearnetHandle"
  shows "worker_turn w None rt =
    (let rt2 = rt\<lparr>rt_failure_count := rt_failure_count rt + 1\<rparr>
     in if rc_liveness_failure_threshold (rt_config rt) \<le> rt_failure_count rt + 1 \<and> \<not> rt_dropped rt
        then emit (AuditPathDropped (if rc_policy_mode (rt_config rt) = Strict then Block else Warn) (rt_active_path rt) (rt_failure_count rt + 1))
               (rt2\<lparr>rt_dropped := True\<rparr>)
        else rt2)"
  using assms by (simp add: worker_turn_def runtime_health_def Let_def)

lemma failing_turns:
  assumes "rt_worker rt = Some w" "rt_handle rt = Some h" "h \<noteq> ClearnetHandle"
  shows "let rt' = ((worker_turn w None) ^^ n) rt in
    rt_failure_count rt' = rt_failure_count rt + int n \<and>
    rt_dropped rt' = (rt_dropped rt \<or> (0 < n \<and> rc_liveness_failure_threshold (rt_config rt) \<le> rt_failure_count rt + int n)) \<and>
    rt_worker rt' = Some w \<and> rt_handle rt' = Some h \<and> rt_config rt' = rt_config rt \<and> rt_state rt' = rt_state rt \<and>
    rt_active_path rt' = rt_active_path rt \<and> rt_process_route_frozen rt' = rt_process_route_frozen rt \<and>
    rt_frozen_route_config rt' = rt_frozen_route_config rt"
  using assms
proof (induction n)
  case (Suc n)
  let ?r = "((worker_turn w None) ^^ n) rt"
  have "rt_worker ?r = Some w" "rt_handle ?r = Some h" using Suc by (simp_all add: Let_def)
  then show ?case
    using Suc failing_turn [of ?r w h] by (auto simp: Let_def emit_def)
qed simp



end
