(* ===== verification/Transport.thy ===== *)
theory Transport
  imports Net_Gate
begin

text \<open>
  \<open>network/provider_transport_flagger.py\<close> with \<open>_core/_provider_identity.py\<close>, the override parser of
  \<open>network/settings.py\<close> and the provider part of the request gate in \<open>network/hooks.py\<close>: which providers may
  be reached over which path. \<open>str.lower\<close> beyond ASCII is the Unicode database's answer.
\<close>

section \<open>Provider names\<close>

definition alias_rows :: "(string \<times> string) list" where
  "alias_rows = [
    (''glm'', ''zai''), (''z-ai'', ''zai''), (''z.ai'', ''zai''),
    (''zhipu'', ''zai''), (''github'', ''copilot''), (''github-copilot'', ''copilot''),
    (''github-models'', ''copilot''), (''github-model'', ''copilot''), (''github-copilot-acp'', ''copilot-acp''),
    (''copilot-acp-agent'', ''copilot-acp''), (''google'', ''gemini''), (''google-gemini'', ''gemini''),
    (''google-ai-studio'', ''gemini''), (''google-vertex'', ''vertex''), (''vertex-ai'', ''vertex''),
    (''gcp-vertex'', ''vertex''), (''vertexai'', ''vertex''), (''kimi'', ''kimi-coding''),
    (''moonshot'', ''kimi-coding''), (''kimi-cn'', ''kimi-coding-cn''), (''moonshot-cn'', ''kimi-coding-cn''),
    (''step'', ''stepfun''), (''stepfun-coding-plan'', ''stepfun''), (''arcee-ai'', ''arcee''),
    (''arceeai'', ''arcee''), (''gmi-cloud'', ''gmi''), (''gmicloud'', ''gmi''),
    (''fireworks-ai'', ''fireworks''), (''fw'', ''fireworks''), (''minimax-china'', ''minimax-cn''),
    (''minimax_cn'', ''minimax-cn''), (''minimax-portal'', ''minimax-oauth''), (''minimax-global'', ''minimax-oauth''),
    (''minimax_oauth'', ''minimax-oauth''), (''claude'', ''anthropic''), (''claude-code'', ''anthropic''),
    (''deep-seek'', ''deepseek''), (''opencode'', ''opencode-zen''), (''zen'', ''opencode-zen''),
    (''go'', ''opencode-go''), (''opencode-go-sub'', ''opencode-go''), (''kilo'', ''kilocode''),
    (''kilo-code'', ''kilocode''), (''kilo-gateway'', ''kilocode''), (''dashscope'', ''alibaba''),
    (''aliyun'', ''alibaba''), (''qwen'', ''alibaba''), (''alibaba-cloud'', ''alibaba''),
    (''qwen-portal'', ''qwen-oauth''), (''hf'', ''huggingface''), (''hugging-face'', ''huggingface''),
    (''huggingface-hub'', ''huggingface''), (''novita-ai'', ''novita''), (''novitaai'', ''novita''),
    (''mimo'', ''xiaomi''), (''xiaomi-mimo'', ''xiaomi''), (''tencent'', ''tencent-tokenhub''),
    (''tokenhub'', ''tencent-tokenhub''), (''tencent-cloud'', ''tencent-tokenhub''), (''tencentmaas'', ''tencent-tokenhub''),
    (''aws'', ''bedrock''), (''aws-bedrock'', ''bedrock''), (''amazon-bedrock'', ''bedrock''),
    (''amazon'', ''bedrock''), (''grok'', ''xai''), (''grok-oauth'', ''xai-oauth''),
    (''xai-oauth'', ''xai-oauth''), (''x-ai-oauth'', ''xai-oauth''), (''xai-grok-oauth'', ''xai-oauth''),
    (''x-ai'', ''xai''), (''x.ai'', ''xai''), (''nim'', ''nvidia''),
    (''nvidia-nim'', ''nvidia''), (''build-nvidia'', ''nvidia''), (''nemotron'', ''nvidia''),
    (''lmstudio'', ''lmstudio''), (''lm-studio'', ''lmstudio''), (''lm_studio'', ''lmstudio''),
    (''ollama'', ''custom''), (''ollama_cloud'', ''ollama-cloud'')]"

definition PROVIDER_ALIASES :: "(py_str \<times> py_str) list" where
  "PROVIDER_ALIASES = map (\<lambda>(a, b). (str_lit a, str_lit b)) alias_rows"

definition canonicalize_provider :: "('x) ucd_case_scheme \<Rightarrow> py_str \<Rightarrow> py_str" where
  "canonicalize_provider U name =
     (let key = uc_lower U (strip is_str_space name)
      in case map_of PROVIDER_ALIASES key of None \<Rightarrow> key | Some slug \<Rightarrow> slug)"

section \<open>The catalog\<close>

datatype proxy_support = ProxyYes | ProxyNo | ProxyPartial

datatype transport_class = Http | Tcp | Udp | Quic | Grpc | Websocket

datatype severity = AbortSeverity | WarningSeverity

record provider_entry =
  pe_name :: py_str
  pe_transport :: py_str
  pe_respects_proxy :: proxy_support
  pe_respects_socks5h :: bool
  pe_localhost_only :: bool
  pe_dns_quirk :: bool
  pe_unverified_baseline :: bool
  pe_transport_class :: transport_class
  pe_respects_ipv6_proxy :: bool

text \<open>Why a flag is raised; the messages themselves are not modelled.\<close>

datatype flag_reason = UnknownProvider | NoSocks5h | IgnoresProxy | Unverified | Ipv6Bypass bool | NonHttp

record flag =
  fl_provider :: py_str
  fl_severity :: severity
  fl_reason :: flag_reason

definition entry :: "string \<Rightarrow> string \<Rightarrow> proxy_support \<Rightarrow> bool \<Rightarrow> bool \<Rightarrow> bool \<Rightarrow> bool \<Rightarrow> transport_class \<Rightarrow> bool \<Rightarrow> provider_entry" where
  "entry name transport proxy socks5h localhost quirk unverified tclass ipv6 =
     \<lparr>pe_name = str_lit name, pe_transport = str_lit transport, pe_respects_proxy = proxy, pe_respects_socks5h = socks5h,
      pe_localhost_only = localhost, pe_dns_quirk = quirk, pe_unverified_baseline = unverified,
      pe_transport_class = tclass, pe_respects_ipv6_proxy = ipv6\<rparr>"

definition known_entries :: "provider_entry list" where
  "known_entries = [
    entry ''anthropic'' ''httpx'' ProxyYes True False False False Http True,
    entry ''openai'' ''httpx'' ProxyYes True False False False Http True,
    entry ''gemini'' ''httpx'' ProxyYes True False False False Http True,
    entry ''mordred-local'' ''httpx'' ProxyYes True True False False Http True,
    entry ''bedrock'' ''boto3'' ProxyYes False False True True Http False,
    entry ''vertex'' ''google-cloud'' ProxyPartial False False False True Http False,
    entry ''openrouter'' ''httpx'' ProxyYes True False False True Http False,
    entry ''nous'' ''httpx'' ProxyYes True False False True Http False,
    entry ''deepseek'' ''httpx'' ProxyYes True False False True Http False,
    entry ''xai'' ''httpx'' ProxyYes True False False True Http False,
    entry ''zai'' ''httpx'' ProxyYes True False False True Http False,
    entry ''novita'' ''httpx'' ProxyYes True False False True Http False,
    entry ''minimax'' ''httpx'' ProxyYes True False False True Http False,
    entry ''alibaba'' ''httpx'' ProxyYes True False False True Http False]"

definition KNOWN_PROVIDERS :: "(py_str \<times> provider_entry) list" where
  "KNOWN_PROVIDERS = map (\<lambda>e. (pe_name e, e)) known_entries"

fun add_overrides :: "(py_str \<times> provider_entry) list \<Rightarrow> (py_str \<times> provider_entry) list \<Rightarrow> (py_str \<times> provider_entry) list result" where
  "add_overrides catalog [] = Inr catalog"
| "add_overrides catalog ((name, e) # overrides) =
     (if name \<in> fst ` set KNOWN_PROVIDERS then Inl ValueError else add_overrides (dict_put name e catalog) overrides)"

definition resolve_catalog :: "(py_str \<times> provider_entry) list \<Rightarrow> (py_str \<times> provider_entry) list result" where
  "resolve_catalog overrides = add_overrides KNOWN_PROVIDERS overrides"

section \<open>Flags\<close>

definition downgrade :: "severity \<Rightarrow> policy_mode \<Rightarrow> severity" where
  "downgrade s mode = (if mode = Lenient \<and> s = AbortSeverity then WarningSeverity else s)"

definition mk_flag :: "py_str \<Rightarrow> severity \<Rightarrow> flag_reason \<Rightarrow> flag" where
  "mk_flag p s r = \<lparr>fl_provider = p, fl_severity = s, fl_reason = r\<rparr>"

definition flag_for_socks5h :: "provider_entry \<Rightarrow> active_path \<Rightarrow> policy_mode \<Rightarrow> flag option" where
  "flag_for_socks5h e path mode =
     (if path = Tor \<and> \<not> pe_respects_socks5h e then Some (mk_flag (pe_name e) (downgrade AbortSeverity mode) NoSocks5h) else None)"

definition flag_for_clearnet_proxy :: "provider_entry \<Rightarrow> active_path \<Rightarrow> flag option" where
  "flag_for_clearnet_proxy e path =
     (if path = Clearnet \<and> pe_respects_proxy e = ProxyNo then Some (mk_flag (pe_name e) WarningSeverity IgnoresProxy) else None)"

definition flag_for_unverified :: "provider_entry \<Rightarrow> active_path \<Rightarrow> policy_mode \<Rightarrow> flag option" where
  "flag_for_unverified e path mode =
     (if path \<noteq> Tor \<or> \<not> pe_unverified_baseline e then None
      else Some (mk_flag (pe_name e) (downgrade AbortSeverity mode) Unverified))"

definition flag_for_ipv6 :: "provider_entry \<Rightarrow> active_path \<Rightarrow> policy_mode \<Rightarrow> bool \<Rightarrow> flag option" where
  "flag_for_ipv6 e path mode disable_ipv6 =
     (if path \<noteq> Tor then None
      else if pe_respects_ipv6_proxy e then None
      else Some (mk_flag (pe_name e) (downgrade AbortSeverity mode) (Ipv6Bypass disable_ipv6)))"

definition flag_for_non_http :: "provider_entry \<Rightarrow> active_path \<Rightarrow> policy_mode \<Rightarrow> flag option" where
  "flag_for_non_http e path mode =
     (if pe_transport_class e = Http then None
      else Some (mk_flag (pe_name e) (downgrade (if path = Tor then AbortSeverity else WarningSeverity) mode) NonHttp))"

fun option_list :: "'a option \<Rightarrow> 'a list" where
  "option_list None = []"
| "option_list (Some x) = [x]"

definition flag_for_all :: "provider_entry \<Rightarrow> active_path \<Rightarrow> policy_mode \<Rightarrow> bool \<Rightarrow> flag list" where
  "flag_for_all e path mode disable_ipv6 =
     option_list (flag_for_socks5h e path mode) @ option_list (flag_for_clearnet_proxy e path) @
     option_list (flag_for_unverified e path mode) @ option_list (flag_for_ipv6 e path mode disable_ipv6) @
     option_list (flag_for_non_http e path mode)"

text \<open>The flags of one provider name, as the loop of \<open>evaluate\<close> adds them.\<close>

definition provider_flags ::
  "('x) ucd_case_scheme \<Rightarrow> (py_str \<times> provider_entry) list \<Rightarrow> active_path \<Rightarrow> policy_mode \<Rightarrow> bool \<Rightarrow> py_str \<Rightarrow> flag list" where
  "provider_flags U catalog path mode disable_ipv6 provider =
     (case map_of catalog (canonicalize_provider U provider) of
        None \<Rightarrow> [mk_flag provider (downgrade (if path = Tor then AbortSeverity else WarningSeverity) mode) UnknownProvider]
      | Some e \<Rightarrow> if pe_localhost_only e then [] else flag_for_all e path mode disable_ipv6)"

definition evaluate_transport ::
  "('x) ucd_case_scheme \<Rightarrow> active_path \<Rightarrow> py_str list \<Rightarrow> policy_mode \<Rightarrow> (py_str \<times> provider_entry) list \<Rightarrow> bool \<Rightarrow> flag list result" where
  "evaluate_transport U path providers mode overrides disable_ipv6 =
     (if mode = Off then Inr []
      else r_bind (resolve_catalog overrides) (\<lambda>catalog.
        Inr (concat (map (provider_flags U catalog path mode disable_ipv6) providers))))"

definition flag_transport_compat ::
  "('x) ucd_case_scheme \<Rightarrow> active_path \<Rightarrow> py_str list \<Rightarrow> policy_mode \<Rightarrow> bool \<Rightarrow> (py_str \<times> provider_entry) list \<Rightarrow> unit result" where
  "flag_transport_compat U path providers mode disable_ipv6 overrides =
     r_bind (evaluate_transport U path providers mode overrides disable_ipv6) (\<lambda>flags.
       if list_ex (\<lambda>f. fl_severity f = AbortSeverity) flags \<and> mode = Strict then Inl MordredPathBringupFailed else Inr ())"

section \<open>Reading overrides\<close>

definition OVERRIDE_FIELDS :: "py_str list" where
  "OVERRIDE_FIELDS = map str_lit [''transport'', ''respects_proxy'', ''respects_socks5h'', ''localhost_only'', ''dns_quirk'',
     ''unverified_baseline'', ''transport_class'', ''respects_ipv6_proxy'']"

definition TRANSPORT_CLASSES :: "(py_str \<times> transport_class) list" where
  "TRANSPORT_CLASSES = [(str_lit ''http'', Http), (str_lit ''tcp'', Tcp), (str_lit ''udp'', Udp), (str_lit ''quic'', Quic),
     (str_lit ''grpc'', Grpc), (str_lit ''websocket'', Websocket)]"

definition get_field :: "(py_str \<times> json) list \<Rightarrow> string \<Rightarrow> json \<Rightarrow> json" where
  "get_field kvs k d = (case map_of kvs (str_lit k) of None \<Rightarrow> d | Some v \<Rightarrow> v)"

definition read_override_bool :: "(py_str \<times> json) list \<Rightarrow> string \<Rightarrow> bool \<Rightarrow> bool result" where
  "read_override_bool kvs k d = (case get_field kvs k (JBool d) of JBool b \<Rightarrow> Inr b | _ \<Rightarrow> Inl ValueError)"

definition parse_proxy_support :: "json \<Rightarrow> proxy_support result" where
  "parse_proxy_support j =
     (case j of
        JBool b \<Rightarrow> Inr (if b then ProxyYes else ProxyNo)
      | JStr s \<Rightarrow> if s = str_lit ''partial'' then Inr ProxyPartial else Inl ValueError
      | _ \<Rightarrow> Inl ValueError)"

definition parse_transport_class :: "json \<Rightarrow> transport_class result" where
  "parse_transport_class j =
     (case j of
        JStr s \<Rightarrow> (case map_of TRANSPORT_CLASSES s of None \<Rightarrow> Inl ValueError | Some c \<Rightarrow> Inr c)
      | _ \<Rightarrow> Inl ValueError)"

definition parse_provider_override :: "py_str \<Rightarrow> json \<Rightarrow> provider_entry result" where
  "parse_provider_override name raw_entry =
     (case raw_entry of
        JObj kvs \<Rightarrow>
          if list_ex (\<lambda>(k, v). k \<notin> set OVERRIDE_FIELDS) kvs then Inl ValueError
          else r_bind (case get_field kvs ''transport'' (JStr (str_lit ''unknown'')) of
                         JStr s \<Rightarrow> if strip is_str_space s = [] then Inl ValueError else Inr (strip is_str_space s)
                       | _ \<Rightarrow> Inl ValueError) (\<lambda>transport.
               r_bind (parse_proxy_support (get_field kvs ''respects_proxy'' (JBool False))) (\<lambda>proxy.
               r_bind (parse_transport_class (get_field kvs ''transport_class'' (JStr (str_lit ''http'')))) (\<lambda>tclass.
               r_bind (read_override_bool kvs ''respects_socks5h'' False) (\<lambda>socks5h.
               r_bind (read_override_bool kvs ''localhost_only'' False) (\<lambda>localhost.
               r_bind (read_override_bool kvs ''dns_quirk'' False) (\<lambda>quirk.
               r_bind (read_override_bool kvs ''unverified_baseline'' True) (\<lambda>unverified.
               r_bind (read_override_bool kvs ''respects_ipv6_proxy'' False) (\<lambda>ipv6.
                 Inr \<lparr>pe_name = name, pe_transport = transport, pe_respects_proxy = proxy, pe_respects_socks5h = socks5h,
                      pe_localhost_only = localhost, pe_dns_quirk = quirk, pe_unverified_baseline = unverified,
                      pe_transport_class = tclass, pe_respects_ipv6_proxy = ipv6\<rparr>))))))))
      | _ \<Rightarrow> Inl ValueError)"

fun parse_overrides_loop :: "('x) ucd_case_scheme \<Rightarrow> (py_str \<times> provider_entry) list \<Rightarrow> (py_str \<times> json) list \<Rightarrow> (py_str \<times> provider_entry) list result" where
  "parse_overrides_loop U overrides [] = Inr overrides"
| "parse_overrides_loop U overrides ((raw_name, raw_entry) # items) =
     (if strip is_str_space raw_name = [] then Inl ValueError
      else let name = uc_lower U (strip is_str_space raw_name)
           in if name \<in> fst ` set overrides then Inl ValueError
              else r_bind (parse_provider_override name raw_entry) (\<lambda>e. parse_overrides_loop U (overrides @ [(name, e)]) items))"

definition parse_provider_overrides :: "('x) ucd_case_scheme \<Rightarrow> (py_str \<times> json) list \<Rightarrow> (py_str \<times> provider_entry) list result" where
  "parse_provider_overrides U data =
     (case map_of data (str_lit ''provider_overrides'') of
        None \<Rightarrow> Inr []
      | Some (JObj items) \<Rightarrow> parse_overrides_loop U [] items
      | Some j \<Rightarrow> Inl ValueError)"

definition resolve_disable_ipv6 :: "(py_str \<times> json) list \<Rightarrow> policy_mode \<Rightarrow> bool" where
  "resolve_disable_ipv6 data mode =
     (case map_of data (str_lit ''disable_ipv6'') of Some (JBool b) \<Rightarrow> b | _ \<Rightarrow> mode = Strict)"

section \<open>The provider part of the request gate\<close>

definition UNRESOLVED_PROVIDER :: py_str where
  "UNRESOLVED_PROVIDER = str_lit ''<unresolved>''"

text \<open>The provider of the hook's payload: \<open>None\<close> where it is not a string.\<close>

definition runtime_provider :: "('x) ucd_case_scheme \<Rightarrow> py_str option \<Rightarrow> py_str" where
  "runtime_provider U provider =
     (case provider of
        None \<Rightarrow> UNRESOLVED_PROVIDER
      | Some s \<Rightarrow> if strip is_str_space s = [] then UNRESOLVED_PROVIDER else uc_lower U (strip is_str_space s))"

definition request_provider_gate :: "('x) ucd_case_scheme \<Rightarrow> (py_str \<times> json) list result \<Rightarrow> py_str option \<Rightarrow> unit result" where
  "request_provider_gate U policy_data provider =
     r_bind policy_data (\<lambda>data.
     r_bind (parse_provider_overrides U data) (\<lambda>overrides.
       flag_transport_compat U Tor [runtime_provider U provider] Strict (resolve_disable_ipv6 data Strict) overrides))"

section \<open>Overrides cannot touch the baseline\<close>

lemma known_names: "fst ` set KNOWN_PROVIDERS = pe_name ` set known_entries" "distinct (map pe_name known_entries)"
  by (force simp: KNOWN_PROVIDERS_def, simp add: known_entries_def entry_def)

lemma add_overrides_known:
  "add_overrides catalog overrides = Inr c \<Longrightarrow> k \<in> fst ` set KNOWN_PROVIDERS \<Longrightarrow> map_of c k = map_of catalog k"
proof (induction overrides arbitrary: catalog)
  case (Cons x overrides)
  obtain n e where x: "x = (n, e)" by (cases x)
  then have n: "n \<notin> fst ` set KNOWN_PROVIDERS" "add_overrides (dict_put n e catalog) overrides = Inr c"
    using Cons(2) by (cases "n \<in> fst ` set KNOWN_PROVIDERS"; simp)+
  then have "n \<noteq> k" using Cons(3) by metis
  then show ?case using Cons(1) [OF n(2) Cons(3)] by (simp add: map_of_dict_put)
qed simp

lemma add_overrides_Inl:
  "add_overrides catalog overrides = Inl e \<longleftrightarrow> e = ValueError \<and> fst ` set overrides \<inter> fst ` set KNOWN_PROVIDERS \<noteq> {}"
proof (induction overrides arbitrary: catalog)
  case (Cons x overrides)
  obtain n e' where x: "x = (n, e')" by (cases x)
  show ?case by (cases "n \<in> fst ` set KNOWN_PROVIDERS") (auto simp only: x add_overrides.simps Cons.IH if_True if_False
        list.set image_insert fst_conv Int_insert_left sum.inject simp_thms insert_not_empty)
qed simp

lemma resolve_known:
  assumes "resolve_catalog overrides = Inr catalog" "e \<in> set known_entries"
  shows "map_of catalog (pe_name e) = Some e"
proof -
  have "map_of KNOWN_PROVIDERS (pe_name e) = Some e"
    using known_names(2) assms(2) by (force simp: KNOWN_PROVIDERS_def comp_def intro!: map_of_is_SomeI)
  moreover have "pe_name e \<in> fst ` set KNOWN_PROVIDERS" using assms(2) known_names(1) by blast
  ultimately show ?thesis using add_overrides_known assms(1) by (simp add: resolve_catalog_def)
qed

section \<open>Severity\<close>

text \<open>Evidence enough for an anonymous route.\<close>

definition carries_tor :: "provider_entry \<Rightarrow> bool" where
  "carries_tor e \<longleftrightarrow> pe_localhost_only e \<or>
     (pe_respects_socks5h e \<and> \<not> pe_unverified_baseline e \<and> pe_respects_ipv6_proxy e \<and> pe_transport_class e = Http)"

lemmas flag_defs = flag_for_all_def flag_for_socks5h_def flag_for_clearnet_proxy_def flag_for_unverified_def
  flag_for_ipv6_def flag_for_non_http_def downgrade_def mk_flag_def

lemma provider_flags_abort:
  "list_ex (\<lambda>f. fl_severity f = AbortSeverity) (provider_flags U catalog path mode d p) \<longleftrightarrow>
     mode \<noteq> Lenient \<and> path = Tor \<and>
     (case map_of catalog (canonicalize_provider U p) of None \<Rightarrow> True | Some e \<Rightarrow> \<not> carries_tor e)"
  by (auto simp: provider_flags_def flag_defs carries_tor_def split: option.split)

text \<open>The severity matrix. A flag that aborts is raised exactly in strict mode on Tor for a provider whose canonical name
  is not in the catalog or whose entry lacks evidence: SOCKS5h with remote DNS, IPv6 through the proxy, HTTP transport and packet-capture
  verification, unless it is localhost only. Off raises no flag at all, and the evaluation fails exactly where an override names a
  baseline provider.\<close>

lemma transport_severity:
  "(evaluate_transport U path providers mode overrides d = Inl e \<longleftrightarrow>
      mode \<noteq> Off \<and> e = ValueError \<and> fst ` set overrides \<inter> pe_name ` set known_entries \<noteq> {}) \<and>
   (evaluate_transport U path providers mode overrides d = Inr flags \<and> list_ex (\<lambda>f. fl_severity f = AbortSeverity) flags \<longleftrightarrow>
      mode = Strict \<and> path = Tor \<and>
      (\<exists>catalog. resolve_catalog overrides = Inr catalog \<and> flags = concat (map (provider_flags U catalog path mode d) providers) \<and>
         list_ex (\<lambda>p. case map_of catalog (canonicalize_provider U p) of None \<Rightarrow> True | Some e \<Rightarrow> \<not> carries_tor e) providers)) \<and>
   evaluate_transport U path providers Off overrides d = Inr []"
proof (intro conjI)
  have any: "list_ex (\<lambda>f. fl_severity f = AbortSeverity) (concat (map (provider_flags U catalog path mode d) providers)) \<longleftrightarrow>
      mode \<noteq> Lenient \<and> path = Tor \<and>
      list_ex (\<lambda>p. case map_of catalog (canonicalize_provider U p) of None \<Rightarrow> True | Some e \<Rightarrow> \<not> carries_tor e) providers" for catalog
    by (induction providers) (auto simp: provider_flags_abort)
  show "evaluate_transport U path providers mode overrides d = Inl e \<longleftrightarrow>
      mode \<noteq> Off \<and> e = ValueError \<and> fst ` set overrides \<inter> pe_name ` set known_entries \<noteq> {}"
    by (auto simp: evaluate_transport_def r_bind_Inl_iff resolve_catalog_def add_overrides_Inl known_names(1))
  show "evaluate_transport U path providers mode overrides d = Inr flags \<and> list_ex (\<lambda>f. fl_severity f = AbortSeverity) flags \<longleftrightarrow>
      mode = Strict \<and> path = Tor \<and>
      (\<exists>catalog. resolve_catalog overrides = Inr catalog \<and> flags = concat (map (provider_flags U catalog path mode d) providers) \<and>
         list_ex (\<lambda>p. case map_of catalog (canonicalize_provider U p) of None \<Rightarrow> True | Some e \<Rightarrow> \<not> carries_tor e) providers)"
    using any by (cases mode) (auto simp: evaluate_transport_def r_bind_Inr_iff)
  show "evaluate_transport U path providers Off overrides d = Inr []" by (simp add: evaluate_transport_def)
qed

section \<open>The request gate with its provider part\<close>

lemma flag_compat_Inr:
  assumes "flag_transport_compat U Tor [p] Strict d overrides = Inr ()"
  shows "\<exists>catalog e. resolve_catalog overrides = Inr catalog \<and> map_of catalog (canonicalize_provider U p) = Some e \<and> carries_tor e"
proof -
  obtain catalog where c: "resolve_catalog overrides = Inr catalog"
      "\<not> list_ex (\<lambda>f. fl_severity f = AbortSeverity) (provider_flags U catalog Tor Strict d p)"
    using assms by (auto simp: flag_transport_compat_def evaluate_transport_def r_bind_Inr_iff split: if_splits)
  then show ?thesis by (cases "map_of catalog (canonicalize_provider U p)") (auto simp: provider_flags_abort)
qed

lemma known_carriers: "e \<in> set known_entries \<Longrightarrow> carries_tor e \<Longrightarrow>
    pe_name e \<in> {str_lit ''anthropic'', str_lit ''openai'', str_lit ''gemini'', str_lit ''mordred-local''}"
  by (auto simp: known_entries_def entry_def carries_tor_def simp del: str_lit_simps)

text \<open>C7: No request leaves a strict Tor session for a provider without evidence. If the strict request gate passes while Tor
  is configured, the provider the request names has, under its canonical name, a catalog entry that carries the route;
  for a provider of the baseline it is one of the four that have been verified, whatever overrides the policy file contains.\<close>

theorem strict_tor_request:
  assumes "pre_api_request Strict (Inr Tor) current rto (request_provider_gate U policy_data provider) = Inr ()"
  shows "\<exists>data overrides catalog e. policy_data = Inr data \<and> parse_provider_overrides U data = Inr overrides \<and>
    resolve_catalog overrides = Inr catalog \<and>
    map_of catalog (canonicalize_provider U (runtime_provider U provider)) = Some e \<and> carries_tor e \<and>
    (canonicalize_provider U (runtime_provider U provider) \<in> pe_name ` set known_entries \<longrightarrow>
       canonicalize_provider U (runtime_provider U provider) \<in>
         {str_lit ''anthropic'', str_lit ''openai'', str_lit ''gemini'', str_lit ''mordred-local''})"
proof -
  have "Tor \<in> PROTECTED_NETWORK_PATHS" by (simp add: PROTECTED_NETWORK_PATHS_def)
  from request_gate_Inr [OF assms this] have "request_provider_gate U policy_data provider = Inr ()" by simp
  then obtain data overrides where d: "policy_data = Inr data" "parse_provider_overrides U data = Inr overrides"
      "flag_transport_compat U Tor [runtime_provider U provider] Strict (resolve_disable_ipv6 data Strict) overrides = Inr ()"
    by (auto simp: request_provider_gate_def r_bind_Inr_iff)
  from flag_compat_Inr [OF d(3)] obtain catalog e where e: "resolve_catalog overrides = Inr catalog"
      "map_of catalog (canonicalize_provider U (runtime_provider U provider)) = Some e" "carries_tor e" by blast
  have "canonicalize_provider U (runtime_provider U provider) \<in>
         {str_lit ''anthropic'', str_lit ''openai'', str_lit ''gemini'', str_lit ''mordred-local''}"
    if k: "canonicalize_provider U (runtime_provider U provider) \<in> pe_name ` set known_entries"
  proof -
    obtain x where x: "x \<in> set known_entries" "pe_name x = canonicalize_provider U (runtime_provider U provider)" using k by force
    then have "x = e" using resolve_known [OF e(1) x(1)] e(2) by simp
    then show ?thesis using known_carriers [OF x(1)] x(2) e(3) by simp
  qed
  then show ?thesis using d(1,2) e by blast
qed

lemma demo_claude: "canonicalize_provider demo_case (runtime_provider demo_case (Some (str_lit ''Claude''))) = str_lit ''anthropic''"
  by (simp add: canonicalize_provider_def runtime_provider_def strip_def rstrip_def is_str_space_def demo_case_def demo_ucd_def
      ucd.defs ascii_lower_def PROVIDER_ALIASES_def alias_rows_def Let_def)

lemma demo_request:
  "pre_api_request Strict (Inr Tor) (Inr (demo_config Strict)) (Some demo_frozen) (request_provider_gate demo_case (Inr []) (Some (str_lit ''Claude''))) = Inr ()"
proof -
  have "map_of KNOWN_PROVIDERS (str_lit ''anthropic'') = Some (entry ''anthropic'' ''httpx'' ProxyYes True False False False Http True)"
    by (simp add: KNOWN_PROVIDERS_def known_entries_def entry_def)
  then have "request_provider_gate demo_case (Inr []) (Some (str_lit ''Claude'')) = Inr ()"
    unfolding request_provider_gate_def parse_provider_overrides_def flag_transport_compat_def evaluate_transport_def
    by (simp add: resolve_catalog_def provider_flags_def demo_claude entry_def flag_defs del: str_lit_simps)
  then show ?thesis using demo_frozen_ready(2) tool_gate_Inr [OF demo_frozen_ready(2)]
    by (auto simp: pre_tool_call_def pre_api_request_def Let_def PROTECTED_NETWORK_PATHS_def api_is_dropped_def
        split: sum.splits if_splits)
qed

lemma strict_tor_request_witness:
  "\<exists>catalog e. resolve_catalog [] = Inr catalog \<and> map_of catalog (str_lit ''anthropic'') = Some e \<and> carries_tor e"
  using strict_tor_request [OF demo_request] by (auto simp: demo_claude parse_provider_overrides_def simp del: str_lit_simps)

end
