(* ===== verification/Net_Daemons.thy ===== *)
theory Net_Daemons
  imports Net_Safety
begin

text \<open>
  Which daemons are alive. The recorded starts and stops give the Tor processes and VPN tunnels that were
  started and never stopped; in every reachable state they are exactly the one the runtime has a handle for,
  as long as the outside world raises only what the code is prepared for.
\<close>

section \<open>Alive daemons\<close>

fun tor_upd :: "nat list \<Rightarrow> net_call \<Rightarrow> nat list" where
  "tor_upd ps (TorStarted p) = p # ps"
| "tor_upd ps (TorStop p) = remove1 p ps"
| "tor_upd ps c = ps"

fun vpn_upd :: "nat list \<Rightarrow> net_call \<Rightarrow> nat list" where
  "vpn_upd ts (VpnUp t) = t # ts"
| "vpn_upd ts (VpnDisconnect t preserve) = remove1 t ts"
| "vpn_upd ts c = ts"

definition alive_tors :: "net_call list \<Rightarrow> nat list" where
  "alive_tors cs = foldl tor_upd [] cs"

definition alive_tunnels :: "net_call list \<Rightarrow> nat list" where
  "alive_tunnels cs = foldl vpn_upd [] cs"

definition held_tors :: "route_handle option \<Rightarrow> nat list" where
  "held_tors h = (case h of Some (TorHandle t) \<Rightarrow> [th_process t] | _ \<Rightarrow> [])"

definition held_tunnels :: "route_handle option \<Rightarrow> nat list" where
  "held_tunnels h = (case h of Some (VpnHandle v) \<Rightarrow> [vh_tunnel v] | _ \<Rightarrow> [])"

definition accounted :: "runtime \<Rightarrow> bool" where
  "accounted rt \<longleftrightarrow>
     alive_tors (rt_calls rt) = held_tors (rt_handle rt) \<and> alive_tunnels (rt_calls rt) = held_tunnels (rt_handle rt)"

text \<open>The daemons raise what the code catches where it cleans up after them.\<close>

definition contained :: "answers \<Rightarrow> bool" where
  "contained A \<longleftrightarrow>
     (\<forall>p. raises is_exception (an_tor_wait A p)) \<and> (\<forall>t. raises is_exception (an_tor_stop A t)) \<and>
     (\<forall>c. raises (\<lambda>e. e = BringupFailed \<or> is_os_error e) (an_vpn_wait A c)) \<and>
     (\<forall>v b. raises is_exception (an_vpn_disconnect A v b))"

lemmas alive_defs = alive_tors_def alive_tunnels_def held_tors_def held_tunnels_def

lemma accounted_cong: "rt_calls rt' = rt_calls rt \<Longrightarrow> rt_handle rt' = rt_handle rt \<Longrightarrow> accounted rt' = accounted rt"
  by (simp add: accounted_def)

lemma alive_append:
  "alive_tors (cs @ ds) = foldl tor_upd (alive_tors cs) ds" "alive_tunnels (cs @ ds) = foldl vpn_upd (alive_tunnels cs) ds"
  by (simp_all add: alive_tors_def alive_tunnels_def)

lemma stop_handle_alive:
  assumes "contained A" "accounted rt" "rt_handle rt = Some h"
  shows "alive_tors (rt_calls rt @ fst (stop_handle A cfg h)) = []" "alive_tunnels (rt_calls rt @ fst (stop_handle A cfg h)) = []"
    "raises is_exception (snd (stop_handle A cfg h))"
  using assms
  by (cases h; simp add: stop_handle_def accounted_def alive_append held_tors_def held_tunnels_def contained_def Let_def)+

lemma teardown_accounted:
  assumes "contained A" "accounted rt" "rt_handle rt = Some h" "teardown_current A rt = (rt', r)"
  shows "r = Inr () \<and> accounted rt' \<and> rt_handle rt' = None"
proof (cases "snd (stop_handle A (rt_config rt) h)")
  case (Inl e)
  then have "is_exception e" using stop_handle_alive(3) [OF assms(1-3)] by (metis raisesD)
  then show ?thesis using Inl assms(4) stop_handle_alive(1,2) [OF assms(1-3)]
    by (auto simp: teardown_fields [OF assms(3)] accounted_def held_tors_def held_tunnels_def)
next
  case (Inr u)
  then show ?thesis using assms(4) stop_handle_alive(1,2) [OF assms(1-3)]
    by (auto simp: teardown_fields [OF assms(3)] accounted_def held_tors_def held_tunnels_def)
qed

definition brought_up :: "bringup \<Rightarrow> bool" where
  "brought_up b \<longleftrightarrow>
     (case snd b of
        Inr h \<Rightarrow> alive_tors (fst b) = held_tors (Some h) \<and> alive_tunnels (fst b) = held_tunnels (Some h)
      | Inl e \<Rightarrow> alive_tors (fst b) = [] \<and> alive_tunnels (fst b) = [])"

lemma brought_up_case: "(\<And>x. brought_up (f x)) \<Longrightarrow> brought_up (case m of Inl e \<Rightarrow> ([], Inl e) | Inr x \<Rightarrow> f x)"
  by (cases m) (simp_all add: brought_up_def alive_defs)

lemma brought_up_bootstrap: "contained A \<Longrightarrow> brought_up (tor_bootstrap A h)"
proof (cases "an_tor_wait A (th_process h)")
  case (Inl e)
  assume "contained A"
  then have "is_exception e" using Inl by (auto simp: contained_def dest: raisesD)
  then show ?thesis using Inl by (cases "an_tor_stop A h") (simp_all add: tor_bootstrap_def brought_up_def alive_defs Let_def)
qed (simp add: tor_bootstrap_def brought_up_def alive_defs Let_def)

lemma brought_up_wait: "contained A \<Longrightarrow> brought_up (vpn_wait A cfg cli h)"
proof (cases "an_vpn_wait A cli")
  case (Inl e)
  assume "contained A"
  then have "e = BringupFailed \<or> is_os_error e" using Inl unfolding contained_def raises_def by blast
  then show ?thesis using Inl
    by (cases "an_vpn_disconnect A h (rc_policy_mode cfg = Strict \<or> \<not> vh_lockdown_applied_by_us h)")
      (auto simp: vpn_wait_def brought_up_def alive_defs Let_def)
qed (simp add: vpn_wait_def brought_up_def alive_defs Let_def)

lemma brought_up_tor: "contained A \<Longrightarrow> brought_up (bring_up_tor A cfg)"
  unfolding bring_up_tor_def by (rule brought_up_case) (rule brought_up_bootstrap)

lemma brought_up_vpn: "contained A \<Longrightarrow> brought_up (bring_up_vpn A cfg)"
  unfolding bring_up_vpn_def by (rule brought_up_case) (simp add: brought_up_wait split: prod.split)

lemma brought_up: "contained A \<Longrightarrow> brought_up (bring_up A cfg target)"
  using brought_up_tor brought_up_vpn
  by (cases target) (simp_all add: bring_up_def, simp add: brought_up_def alive_defs)

lemma calls_accounted:
  assumes "accounted rt" "rt_handle rt = None" "brought_up (cs, r)"
  shows "case r of Inr h \<Rightarrow> alive_tors (rt_calls (calls cs rt)) = held_tors (Some h) \<and> alive_tunnels (rt_calls (calls cs rt)) = held_tunnels (Some h)
    | Inl e \<Rightarrow> accounted (calls cs rt)"
  using assms by (auto simp: accounted_def calls_def alive_append brought_up_def held_tors_def held_tunnels_def alive_tors_def
      alive_tunnels_def split: sum.split)

lemma install_accounted:
  assumes "install A h p phase rt = (rt', r)" "alive_tors (rt_calls rt) = held_tors (Some h)" "alive_tunnels (rt_calls rt) = held_tunnels (Some h)"
  shows "accounted rt'"
proof -
  obtain rt1 r1 where a: "apply_env A p (rt\<lparr>rt_handle := Some h, rt_active_path := p\<rparr>) = (rt1, r1)" by fastforce
  obtain e s where "rt1 = rt\<lparr>rt_handle := Some h, rt_active_path := p, rt_env_snapshot := Some s, rt_env := e\<rparr>"
    using apply_env_fields [OF a] by auto
  then have "accounted rt1" using assms(2,3) by (simp add: accounted_def)
  then show ?thesis using assms(1) a by (auto simp: install_def accounted_def split: sum.splits)
qed

lemma switch_finish_accounted:
  assumes "contained A" "accounted rt" "switch_finish A target rt = (rt', r)"
  shows "accounted rt'"
proof -
  obtain rt1 r1 where t: "(if rt_handle rt \<noteq> None then teardown_current A rt else (rt, Inr ())) = (rt1, r1)" by fastforce
  then have t1: "r1 = Inr ()" "accounted rt1" "rt_handle rt1 = None"
    using teardown_accounted [OF assms(1,2)] assms(2) by (auto split: if_splits)
  obtain cs b where b: "bring_up A (rt_config rt1) target = (cs, b)" by fastforce
  note c = calls_accounted [OF t1(2,3), of cs b]
  have bu: "brought_up (cs, b)" using brought_up [OF assms(1)] b by metis
  show ?thesis
  proof (cases b)
    case (Inr h)
    then show ?thesis using assms(3) t t1(1) b c bu install_accounted [of A h target Ready "calls cs rt1" rt' r]
      by (simp add: switch_finish_def Let_def)
  next
    case (Inl e)
    obtain e1 where n: "no_route A (calls cs rt1) = reset_liveness ((calls cs rt1)\<lparr>rt_handle := None, rt_env := e1, rt_env_snapshot := None,
       rt_active_path := Clearnet, rt_state := Idle\<rparr>)" using no_route_fields by blast
    have acc: "accounted (calls cs rt1)" "rt_handle (calls cs rt1) = None" using c bu Inl t1(3) by (simp_all add: calls_def)
    then have n2: "accounted (no_route A (calls cs rt1))" "alive_tors (rt_calls (no_route A (calls cs rt1))) = []"
      "alive_tunnels (rt_calls (no_route A (calls cs rt1))) = []"
      unfolding n by (simp_all add: accounted_def held_tors_def held_tunnels_def)
    then show ?thesis
      using assms(3) t t1(1) b Inl acc
        install_accounted [of A ClearnetHandle Clearnet Degraded "emit (AuditBringupFailed target) (no_route A (calls cs rt1))" rt' r]
      by (auto simp: switch_finish_def Let_def emit_def held_tors_def held_tunnels_def split: if_splits)
  qed
qed

lemma stop_accounted:
  assumes "contained A" "accounted rt"
  shows "accounted (fst (runtime_stop A rt))"
proof -
  have a: "accounted (stop_worker rt)" using assms(2) by (simp add: accounted_def stop_worker_def)
  obtain rt1 r where m: "(let rt1 = stop_worker rt in if rt_handle rt1 \<noteq> None then teardown_current A rt1 else (rt1, Inr ())) = (rt1, r)"
    by fastforce
  then have r: "r = Inr ()" "accounted rt1"
    using teardown_accounted [OF assms(1) a] a by (auto simp: Let_def split: if_splits)
  obtain e1 where "restore_env A rt1 = rt1\<lparr>rt_env := e1, rt_env_snapshot := None\<rparr>" using restore_env_fields by blast
  then show ?thesis using m r by (simp add: runtime_stop_def accounted_def)
qed

definition tame :: "answers \<Rightarrow> bool" where
  "tame A \<longleftrightarrow> answers_ok A \<and> contained A"

lemma step_accounted: "net_step tame s s' \<Longrightarrow> accounted (fst s) \<Longrightarrow> accounted (fst s')"
proof (induction rule: net_step.induct)
  case (use_end A rt prev target)
  obtain rt' r where u: "use_finish A prev target rt = (rt', r)" by fastforce
  from use_finish_cases [OF u] obtain rt1 where f: "switch_finish A target rt = (rt1, r)" "rt_calls rt' = rt_calls rt1"
      "rt_handle rt' = rt_handle rt1" by metis
  then show ?case using switch_finish_accounted [of A rt target rt1 r] use_end u accounted_cong [of rt' rt1]
    by (simp add: tame_def)
next
  case (stop A rt)
  then show ?case using stop_accounted [of A rt] by (simp add: tame_def)
next
  case (health rt p probe)
  then show ?case using health_fields [of probe rt] by (auto simp: accounted_def)
next
  case (worker rt p w probe)
  then show ?case by (simp add: accounted_def worker_fields)
qed (auto simp: accounted_def switch_begin_def stop_worker_def freeze_process_route_def update_policy_mode_def
    set_isolation_token_def Let_def)



text \<open>
  The wait for the VPN cleans up after \<open>BringupFailed\<close> and \<open>OSError\<close> only. Any other exception, for instance of decoding
  what the provider's command printed, leaves the tunnel up while the runtime holds no handle for it.
\<close>

lemma vpn_tunnel_left_up:
  assumes "an_vpn_wait A cli = Inl UnicodeDecodeError"
  shows "vpn_wait A cfg cli h = ([VpnUp (vh_tunnel h)], Inl UnicodeDecodeError)" "alive_tunnels (fst (vpn_wait A cfg cli h)) = [vh_tunnel h]"
  using assms by (simp_all add: vpn_wait_def is_os_error_def alive_tunnels_def)

end
