(* ===== verification/E2E_Crypto.thy ===== *)
theory E2E_Crypto
  imports Py_Str Py_Base64 Py_Json Py_Hash Providers
begin

text \<open>
  \<open>extension/crypto.py\<close>: unpadded base64url, the pairing key agreement, and the message tokens that
  the gateway and the browser extension exchange. Random draws are arguments; X25519 and HKDF with a
  salt extend the cryptographic provider.
\<close>

section \<open>Unpadded base64url\<close>

definition b64u_encode :: "bytes \<Rightarrow> py_str" where
  "b64u_encode raw = rstrip (\<lambda>c. c = 61) (urlsafe_b64encode raw)"

definition b64u_decode :: "py_str \<Rightarrow> bytes result" where
  "b64u_decode s = urlsafe_b64decode_str (s @ replicate (nat (- int (length s) mod 4)) 61)"

definition is_b64u :: "nat \<Rightarrow> bool" where
  "is_b64u c \<longleftrightarrow> 65 \<le> c \<and> c \<le> 90 \<or> 97 \<le> c \<and> c \<le> 122 \<or> 48 \<le> c \<and> c \<le> 57 \<or> c = 45 \<or> c = 95"

section \<open>Key agreement\<close>

record e2e_crypto = crypto +
  hkdf_salted :: "bytes \<Rightarrow> bytes \<Rightarrow> bytes \<Rightarrow> bytes"
  x25519_public :: "bytes \<Rightarrow> bytes"
  x25519_exchange :: "bytes \<Rightarrow> bytes \<Rightarrow> bytes result"

text \<open>
  Argument orders: \<open>hkdf_salted salt info material\<close> gives 32 bytes; \<open>x25519_exchange priv pub\<close> is
  \<open>from_public_bytes\<close> followed by \<open>exchange\<close>.
\<close>

definition HKDF_SALT :: bytes where
  "HKDF_SALT = bytes_lit ''mordred-extension-v1''"

definition derive_shared_key :: "('x) e2e_crypto_scheme \<Rightarrow> bytes \<Rightarrow> py_str \<Rightarrow> py_str \<Rightarrow> bytes result" where
  "derive_shared_key C priv ext_pubkey_b64 code =
     r_bind (b64u_decode ext_pubkey_b64) (\<lambda>pub.
     r_bind (x25519_exchange C priv pub) (\<lambda>raw_shared.
     r_bind (utf8_encode code) (\<lambda>info. Inr (hkdf_salted C HKDF_SALT info raw_shared))))"

definition hkdf_subkey :: "('x) e2e_crypto_scheme \<Rightarrow> bytes \<Rightarrow> py_str \<Rightarrow> py_str \<Rightarrow> bytes result" where
  "hkdf_subkey C raw_key salt info =
     r_bind (utf8_encode salt) (\<lambda>s. r_bind (utf8_encode info) (\<lambda>i. Inr (hkdf_salted C s i raw_key)))"

definition key_id :: "bytes \<Rightarrow> py_str" where
  "key_id raw_key = b64u_encode (take 6 (sha256 raw_key))"

section \<open>Tokens of version 3\<close>

definition LOCK :: nat where "LOCK = 0x1F512"

definition ENC_PREFIX_V1 :: py_str where "ENC_PREFIX_V1 = LOCK # str_lit ''ENC:v1:''"
definition ENC_PREFIX_V2 :: py_str where "ENC_PREFIX_V2 = LOCK # str_lit ''ENC:v2:''"
definition ENC_PREFIX_V3 :: py_str where "ENC_PREFIX_V3 = LOCK # str_lit ''ENC:v3:''"

definition is_encrypted :: "py_str \<Rightarrow> bool" where
  "is_encrypted text =
     (let t = dropWhile is_str_space text
      in list_ex (\<lambda>p. starts_with_list p t) [ENC_PREFIX_V1, ENC_PREFIX_V2, ENC_PREFIX_V3])"

text \<open>Each field behind its length in four bytes.\<close>

fun encode_fields :: "bytes list \<Rightarrow> bytes result" where
  "encode_fields [] = Inr []"
| "encode_fields (f # fs) =
     r_bind (to_be 4 (length f)) (\<lambda>n. r_bind (encode_fields fs) (\<lambda>rest. Inr (n @ f @ rest)))"

definition ascii_encode :: "py_str \<Rightarrow> bytes result" where
  "ascii_encode s = (if is_ascii s then Inr (ascii_bytes s) else Inl UnicodeEncodeError)"

definition thread_text :: "py_str option \<Rightarrow> py_str" where
  "thread_text thread_root = (case thread_root of None \<Rightarrow> [] | Some t \<Rightarrow> t)"

definition v3_aad :: "('u) ucd_case_scheme \<Rightarrow> py_str \<Rightarrow> py_str \<Rightarrow> py_str \<Rightarrow> py_str option \<Rightarrow> py_str \<Rightarrow> int \<Rightarrow> int \<Rightarrow> bytes result" where
  "v3_aad U direction platform chat_id thread_root message_id seq tot =
     (if direction \<notin> {str_lit ''command'', str_lit ''reply''} then Inl ValueError
      else if platform = [] \<or> chat_id = [] then Inl ValueError
      else if \<not> (0 \<le> seq \<and> seq < tot \<and> tot \<le> 65535) then Inl ValueError
      else r_bind (utf8_encode direction) (\<lambda>d. r_bind (utf8_encode (uc_lower U platform)) (\<lambda>p.
           r_bind (utf8_encode chat_id) (\<lambda>c. r_bind (utf8_encode (thread_text thread_root)) (\<lambda>t.
           r_bind (ascii_encode message_id) (\<lambda>m.
           r_bind (encode_fields [bytes_lit ''mordred-e2e-v3'', d, p, c, t, m]) (\<lambda>encoded.
             Inr (encoded @ be_digits 2 (nat seq) @ be_digits 2 (nat tot)))))))))"

definition validate_v3_message_id :: "py_str \<Rightarrow> unit result" where
  "validate_v3_message_id message_id =
     (case b64u_decode message_id of
        Inl e \<Rightarrow> Inl ValueError
      | Inr raw \<Rightarrow> if length raw \<noteq> 16 \<or> b64u_encode raw \<noteq> message_id then Inl ValueError else Inr ())"

text \<open>\<open>len(kid) != 8 or b64u_encode(b64u_decode(kid)) != kid\<close>; the decoding may raise.\<close>

definition bad_key_id :: "py_str \<Rightarrow> bool result" where
  "bad_key_id kid = (if length kid \<noteq> 8 then Inr True else r_bind (b64u_decode kid) (\<lambda>raw. Inr (b64u_encode raw \<noteq> kid)))"

definition encrypt_message_v3 ::
  "('x) e2e_crypto_scheme \<Rightarrow> ('u) ucd_case_scheme \<Rightarrow> bytes \<Rightarrow> py_str \<Rightarrow> py_str \<Rightarrow> py_str \<Rightarrow> py_str \<Rightarrow> py_str \<Rightarrow> py_str option \<Rightarrow>
   py_str \<Rightarrow> int \<Rightarrow> int \<Rightarrow> bytes \<Rightarrow> py_str result" where
  "encrypt_message_v3 C U aes_key plaintext kid direction platform chat_id thread_root message_id seq tot nonce =
     r_bind (bad_key_id kid) (\<lambda>bad.
       if bad then Inl ValueError
       else r_bind (validate_v3_message_id message_id) (\<lambda>_.
         if length nonce \<noteq> 12 then Inl ValueError
         else r_bind (v3_aad U direction platform chat_id thread_root message_id seq tot) (\<lambda>aad.
              r_bind (utf8_encode plaintext) (\<lambda>p.
              r_bind (gcm_seal C aes_key nonce p aad) (\<lambda>ct.
                Inr (ENC_PREFIX_V3 @ py_join [58] [kid, message_id, dec (nat seq), dec (nat tot), b64u_encode nonce, b64u_encode ct]))))))"

text \<open>\<open>isascii() and isdecimal()\<close>, then \<open>int(s)\<close>.\<close>

definition parse_decimal :: "py_str \<Rightarrow> int result" where
  "parse_decimal raw =
     (if raw = [] \<or> \<not> list_all is_digit raw \<or> 4300 < length raw then Inl ValueError else Inr (int (digits_value raw)))"

definition parse_token_v3 :: "py_str \<Rightarrow> (py_str \<times> py_str \<times> int \<times> int \<times> bytes \<times> bytes) result" where
  "parse_token_v3 formatted =
     (let body = dropWhile is_str_space formatted
      in if \<not> starts_with_list ENC_PREFIX_V3 body then Inl (DecryptError ''malformed'')
         else case split_on 58 (drop (length ENC_PREFIX_V3) body) of
           [kid, message_id, sequence_raw, total_raw, nonce_raw, ciphertext_raw] \<Rightarrow>
             r_bind (r_catch is_value_error (DecryptError ''malformed'')
               (r_bind (parse_decimal sequence_raw) (\<lambda>seq. r_bind (parse_decimal total_raw) (\<lambda>tot.
                r_bind (validate_v3_message_id message_id) (\<lambda>_.
                r_bind (b64u_decode nonce_raw) (\<lambda>nonce. r_bind (b64u_decode ciphertext_raw) (\<lambda>ct.
                  Inr (seq, tot, nonce, ct)))))))) (\<lambda>(seq, tot, nonce, ct).
             r_bind (bad_key_id kid) (\<lambda>bad.
               if bad then Inl (DecryptError ''malformed'')
               else if \<not> (0 \<le> seq \<and> seq < tot \<and> tot \<le> 65535) then Inl (DecryptError ''malformed'')
               else Inr (kid, message_id, seq, tot, nonce, ct)))
         | _ \<Rightarrow> Inl (DecryptError ''malformed''))"

definition decrypt_message_v3 ::
  "('x) e2e_crypto_scheme \<Rightarrow> ('u) ucd_case_scheme \<Rightarrow> bytes \<Rightarrow> py_str \<Rightarrow> py_str \<Rightarrow> py_str \<Rightarrow> py_str \<Rightarrow> py_str option \<Rightarrow> py_str result" where
  "decrypt_message_v3 C U aes_key formatted direction platform chat_id thread_root =
     r_bind (parse_token_v3 formatted) (\<lambda>(kid, message_id, seq, tot, nonce, ct).
     r_bind (v3_aad U direction platform chat_id thread_root message_id seq tot) (\<lambda>aad.
     r_bind (r_catch (\<lambda>e. e = InvalidTag) (DecryptError ''tampered'') (gcm_open C aes_key nonce ct aad)) (\<lambda>p.
       r_catch (\<lambda>e. e = UnicodeDecodeError) (DecryptError ''malformed'') (utf8_decode p))))"

section \<open>Tokens of versions 1 and 2\<close>

definition encrypt_message :: "('x) e2e_crypto_scheme \<Rightarrow> bytes \<Rightarrow> py_str \<Rightarrow> bytes \<Rightarrow> py_str result" where
  "encrypt_message C aes_key plaintext nonce =
     r_bind (utf8_encode plaintext) (\<lambda>p. r_bind (gcm_seal C aes_key nonce p []) (\<lambda>ct.
       Inr (ENC_PREFIX_V1 @ py_join [58] [b64u_encode nonce, b64u_encode ct])))"

definition encrypt_message_v2 :: "('x) e2e_crypto_scheme \<Rightarrow> bytes \<Rightarrow> py_str \<Rightarrow> py_str \<Rightarrow> bytes \<Rightarrow> py_str result" where
  "encrypt_message_v2 C aes_key plaintext kid nonce =
     r_bind (utf8_encode plaintext) (\<lambda>p. r_bind (gcm_seal C aes_key nonce p []) (\<lambda>ct.
       Inr (ENC_PREFIX_V2 @ py_join [58] [kid, b64u_encode nonce, b64u_encode ct])))"

definition parse_token :: "py_str \<Rightarrow> (nat \<times> py_str option \<times> bytes \<times> bytes) result" where
  "parse_token formatted =
     (let body = dropWhile is_str_space formatted; decode = (\<lambda>s. case b64u_decode s of Inl e \<Rightarrow> Inl (DecryptError ''malformed'') | Inr b \<Rightarrow> Inr b)
      in if starts_with_list ENC_PREFIX_V2 body then
           (case split_on 58 (drop (length ENC_PREFIX_V2) body) of
              [kid, n, c] \<Rightarrow> r_bind (decode n) (\<lambda>nonce. r_bind (decode c) (\<lambda>ct. Inr (2, Some kid, nonce, ct)))
            | _ \<Rightarrow> Inl (DecryptError ''malformed''))
         else if starts_with_list ENC_PREFIX_V1 body then
           (case split_on 58 (drop (length ENC_PREFIX_V1) body) of
              [n, c] \<Rightarrow> r_bind (decode n) (\<lambda>nonce. r_bind (decode c) (\<lambda>ct. Inr (1, None, nonce, ct)))
            | _ \<Rightarrow> Inl (DecryptError ''malformed''))
         else Inl (DecryptError ''malformed''))"

definition decrypt_message :: "('x) e2e_crypto_scheme \<Rightarrow> bytes \<Rightarrow> py_str \<Rightarrow> py_str result" where
  "decrypt_message C aes_key formatted =
     r_bind (parse_token formatted) (\<lambda>(ver, kid, nonce, ct).
     r_bind (r_catch (\<lambda>e. e = InvalidTag) (DecryptError ''tampered'') (gcm_open C aes_key nonce ct [])) utf8_decode)"

section \<open>base64url is a bijection on its image\<close>

lemma rstrip_run: "\<forall>c \<in> set s. \<not> p c \<Longrightarrow> p x \<Longrightarrow> rstrip p (s @ replicate k x) = s"
proof -
  assume s: "\<forall>c \<in> set s. \<not> p c" and x: "p x"
  have "dropWhile p (replicate k x @ t) = dropWhile p t" for t using x by (induction k) simp_all
  then show ?thesis using dropWhile_none [of "rev s" p] s by (simp add: rstrip_def)
qed

lemma b64_chars_body:
  "\<forall>b \<in> set bs. b < 256 \<Longrightarrow> \<exists>body k. b64_chars bs = body @ replicate k 61 \<and> 61 \<notin> set body \<and> k \<le> 2 \<and>
     length body = (4 * length bs + 2) div 3"
proof (induction bs rule: b64_chars.induct)
  case (2 a)
  then show ?case
    by (intro exI [of _ "[b64_char (a div 4), b64_char (a mod 4 * 16)]"] exI [of _ "2 :: nat"])
      (auto simp: numeral_2_eq_2 sextet_less b64_char_not_pad dest: sym [of 61])
next
  case (3 a b)
  then show ?case
    by (intro exI [of _ "[b64_char (a div 4), b64_char (a mod 4 * 16 + b div 16), b64_char (b mod 16 * 4)]"] exI [of _ "1 :: nat"])
      (auto simp: sextet_less b64_char_not_pad dest: sym [of 61])
next
  case (4 a b c s)
  then obtain body k where i: "b64_chars s = body @ replicate k 61" "61 \<notin> set body" "k \<le> 2"
      "length body = (4 * length s + 2) div 3"
    by auto
  then show ?case
    using 4(2)
    by (intro exI [of _ "b64_char (a div 4) # b64_char (a mod 4 * 16 + b div 16)
        # b64_char (b mod 16 * 4 + c div 64) # b64_char (c mod 64) # body"] exI [of _ k])
      (auto simp: sextet_less b64_char_not_pad dest: sym [of 61])
qed simp

lemma urlsafe_body:
  obtains k where "urlsafe_b64encode b = b64u_encode b @ replicate k 61" "61 \<notin> set (b64u_encode b)" "k \<le> 2"
    "length (b64u_encode b) = (4 * length b + 2) div 3"
proof -
  obtain body k where b: "b64encode b = body @ replicate k 61" "61 \<notin> set body" "k \<le> 2" "length body = (4 * length b + 2) div 3"
    using b64_chars_body [OF bytes_less [of b]] by (auto simp: b64encode_def)
  have u: "to_urlsafe c = 61 \<longleftrightarrow> c = 61" for c by (simp add: to_urlsafe_def)
  have e: "urlsafe_b64encode b = map to_urlsafe body @ replicate k 61"
    by (simp add: urlsafe_b64encode_def b(1) to_urlsafe_def)
  moreover have n: "61 \<notin> set (map to_urlsafe body)" using b(2) u by auto
  ultimately have "b64u_encode b = map to_urlsafe body"
    unfolding b64u_encode_def by (simp only: e) (rule rstrip_run; use n in \<open>auto simp: image_iff\<close>)
  then show ?thesis using that e n b(3,4) by simp
qed

lemma length_b64u_encode [layout]: "length (b64u_encode b) = (4 * length b + 2) div 3"
  by (rule urlsafe_body [of b]) simp

lemma pad_count:
  assumes "(n + k) mod 4 = 0" "k \<le> (2 :: nat)"
  shows "nat (- int n mod 4) = k"
proof -
  have "int k = - int n mod 4"
    using assms by presburger
  then show ?thesis by simp
qed

lemma b64u_decode_encode [simp]: "b64u_decode (b64u_encode b) = Inr b"
proof -
  obtain k where k: "urlsafe_b64encode b = b64u_encode b @ replicate k 61" "k \<le> 2" by (rule urlsafe_body [of b])
  have "length (urlsafe_b64encode b) mod 4 = 0" by (simp add: urlsafe_b64encode_def length_b64encode_mod4)
  then have "nat (- int (length (b64u_encode b)) mod 4) = k" using k(2) by (intro pad_count) (simp_all only: k(1) length_append length_replicate)
  then have "b64u_decode (b64u_encode b) = urlsafe_b64decode_str (urlsafe_b64encode b)"
    by (simp only: b64u_decode_def k(1))
  then show ?thesis
    by (simp add: urlsafe_b64decode_str_def urlsafe_ascii urlsafe_back a2b_base64_encode)
qed

lemma b64u_encode_inject: "b64u_encode a = b64u_encode b \<Longrightarrow> a = b"
  by (metis b64u_decode_encode sum.inject(2))

lemma b64u_alphabet: "c \<in> set (b64u_encode b) \<Longrightarrow> is_b64u c"
proof -
  assume c: "c \<in> set (b64u_encode b)"
  obtain k where k: "urlsafe_b64encode b = b64u_encode b @ replicate k 61" "61 \<notin> set (b64u_encode b)"
    by (rule urlsafe_body [of b])
  then have "c \<in> set (urlsafe_b64encode b)" "c \<noteq> 61" using c by auto
  then obtain d where d: "c = to_urlsafe d" "d \<in> set (b64encode b)" by (auto simp: urlsafe_b64encode_def)
  with \<open>c \<noteq> 61\<close> have "d \<noteq> 61" by (auto simp: to_urlsafe_def)
  then obtain n where n: "n < 64" "d = b64_char n" using b64encode_alphabet d(2) by blast
  then consider "n < 26" | "26 \<le> n" "n < 52" | "52 \<le> n" "n < 62" | "n = 62" | "n = 63" by linarith
  then show ?thesis
    unfolding d(1) n(2) by cases (simp_all add: is_b64u_def to_urlsafe_def b64_char_def, arith)
qed

lemma b64u_decode_raises: "raises is_value_error (b64u_decode s)"
  using raises_mono [OF a2b_base64_raises [of False "map from_urlsafe (s @ replicate (nat (- int (length s) mod 4)) 61)"], of is_value_error]
  by (auto simp: b64u_decode_def urlsafe_b64decode_str_def is_value_error_def)

lemma b64u_plain:
  assumes "c \<in> set (b64u_encode b)"
  shows "c < 128" "c \<noteq> 58" "\<not> is_str_space c"
  using b64u_alphabet [OF assms] by (auto simp: is_b64u_def is_str_space_def)

lemma key_id_facts: "length (key_id k) = 8" "bad_key_id (key_id k) = Inr False"
  by (simp_all add: key_id_def length_b64u_encode bad_key_id_def)

section \<open>The associated data is unambiguous\<close>

lemma encode_fields_inject:
  "encode_fields xs = Inr a \<Longrightarrow> encode_fields ys = Inr b \<Longrightarrow> length xs = length ys \<Longrightarrow> a @ u = b @ v \<Longrightarrow> xs = ys \<and> u = v"
proof (induction xs arbitrary: ys a b)
  case (Cons x xs)
  then obtain y ys' where y: "ys = y # ys'" by (cases ys) auto
  from Cons.prems(1) obtain a' where a: "encode_fields xs = Inr a'" "length x < 256 ^ 4" "a = be_digits 4 (length x) @ x @ a'"
    by (auto simp: result_iffs to_be_def split: if_splits)
  from Cons.prems(2) y obtain b' where b: "encode_fields ys' = Inr b'" "length y < 256 ^ 4" "b = be_digits 4 (length y) @ y @ b'"
    by (auto simp: result_iffs to_be_def split: if_splits)
  have e: "be_digits 4 (length x) @ (x @ a' @ u) = be_digits 4 (length y) @ (y @ b' @ v)"
    using Cons.prems(4) a(3) b(3) by simp
  then have "be_digits 4 (length x) = be_digits 4 (length y)" and r: "x @ a' @ u = y @ b' @ v"
    by (simp_all add: append_eq_append_conv)
  then have "length x = length y" using from_be_digits a(2) b(2) by metis
  with r have "x = y" "a' @ u = b' @ v" by (simp_all add: append_eq_append_conv)
  then show ?case using Cons.IH [OF a(1) b(1)] Cons.prems(3) y by simp
qed simp

lemma v3_aad_InrE:
  assumes "v3_aad U direction platform chat thread mid seq tot = Inr a"
  obtains d p c t enc where "utf8_encode direction = Inr d" "utf8_encode (uc_lower U platform) = Inr p" "utf8_encode chat = Inr c"
    "utf8_encode (thread_text thread) = Inr t" "encode_fields [bytes_lit ''mordred-e2e-v3'', d, p, c, t, ascii_bytes mid] = Inr enc"
    "a = enc @ be_digits 2 (nat seq) @ be_digits 2 (nat tot)"
    "is_ascii mid" "0 \<le> seq" "seq < tot" "tot \<le> 65535"
proof -
  from assms have g: "0 \<le> seq \<and> seq < tot \<and> tot \<le> 65535"
    unfolding v3_aad_def by (metis sum.distinct(1))
  from assms have "r_bind (utf8_encode direction) (\<lambda>d. r_bind (utf8_encode (uc_lower U platform)) (\<lambda>p.
           r_bind (utf8_encode chat) (\<lambda>c. r_bind (utf8_encode (thread_text thread)) (\<lambda>t.
           r_bind (ascii_encode mid) (\<lambda>m.
           r_bind (encode_fields [bytes_lit ''mordred-e2e-v3'', d, p, c, t, m]) (\<lambda>encoded.
             Inr (encoded @ be_digits 2 (nat seq) @ be_digits 2 (nat tot)))))))) = Inr a"
    unfolding v3_aad_def if_Inl_Inr_iff by (elim conjE)
  then obtain d p c t m enc where e: "utf8_encode direction = Inr d" "utf8_encode (uc_lower U platform) = Inr p" "utf8_encode chat = Inr c"
    "utf8_encode (thread_text thread) = Inr t" "ascii_encode mid = Inr m" "encode_fields [bytes_lit ''mordred-e2e-v3'', d, p, c, t, m] = Inr enc"
    "Inr (enc @ be_digits 2 (nat seq) @ be_digits 2 (nat tot)) = (Inr a :: bytes result)"
    unfolding r_bind_Inr_iff by (elim exE conjE) (rule that)
  from e(5) have "is_ascii mid" "m = ascii_bytes mid" by (simp_all add: ascii_encode_def split: if_splits)
  with that e(1-4,6,7) g show ?thesis by blast
qed

lemma ascii_bytes_inject: "is_ascii s \<Longrightarrow> is_ascii t \<Longrightarrow> ascii_bytes s = ascii_bytes t \<Longrightarrow> s = t"
  by (metis map_unat_ascii)

text \<open>C22: The associated data of a version 3 token determines its whole context: two contexts with the same bytes have the
  same direction, the same platform up to case, the same channel and thread, the same message id and the same position,
  whatever delimiters the identifiers contain.\<close>

theorem v3_aad_unambiguous:
  assumes "v3_aad U direction platform chat thread mid seq tot = Inr a"
    "v3_aad U direction' platform' chat' thread' mid' seq' tot' = Inr a"
  shows "direction = direction' \<and> uc_lower U platform = uc_lower U platform' \<and> chat = chat' \<and>
    thread_text thread = thread_text thread' \<and> mid = mid' \<and> seq = seq' \<and> tot = tot'"
proof -
  obtain d p c t e where x: "utf8_encode direction = Inr d" "utf8_encode (uc_lower U platform) = Inr p" "utf8_encode chat = Inr c"
      "utf8_encode (thread_text thread) = Inr t" "encode_fields [bytes_lit ''mordred-e2e-v3'', d, p, c, t, ascii_bytes mid] = Inr e"
      "a = e @ be_digits 2 (nat seq) @ be_digits 2 (nat tot)" "is_ascii mid" "0 \<le> seq" "seq < tot" "tot \<le> 65535"
    by (rule v3_aad_InrE [OF assms(1)])
  obtain d' p' c' t' e' where y: "utf8_encode direction' = Inr d'" "utf8_encode (uc_lower U platform') = Inr p'" "utf8_encode chat' = Inr c'"
      "utf8_encode (thread_text thread') = Inr t'" "encode_fields [bytes_lit ''mordred-e2e-v3'', d', p', c', t', ascii_bytes mid'] = Inr e'"
      "a = e' @ be_digits 2 (nat seq') @ be_digits 2 (nat tot')" "is_ascii mid'" "0 \<le> seq'" "seq' < tot'" "tot' \<le> 65535"
    by (rule v3_aad_InrE [OF assms(2)])
  have f: "d = d' \<and> p = p' \<and> c = c' \<and> t = t' \<and> ascii_bytes mid = ascii_bytes mid'"
    and n: "be_digits 2 (nat seq) @ be_digits 2 (nat tot) = be_digits 2 (nat seq') @ be_digits 2 (nat tot')"
    using encode_fields_inject [OF x(5) y(5) _ trans [OF sym [OF x(6)] y(6)]] by simp_all
  have eq: "i = j" if "be_digits 2 (nat i) = be_digits 2 (nat j)" "0 \<le> i" "i \<le> 65535" "0 \<le> j" "j \<le> 65535" for i j :: int
  proof -
    have "nat i < 256 ^ 2" "nat j < 256 ^ 2" using that(2-5) by simp_all
    then have "nat i = nat j" using from_be_digits that(1) by metis
    then show ?thesis using that(2,4) by simp
  qed
  have "be_digits 2 (nat seq) = be_digits 2 (nat seq')" "be_digits 2 (nat tot) = be_digits 2 (nat tot')"
    using append_eq_append_conv [THEN iffD1, OF _ n] length_be_digits by simp_all
  then have "seq = seq'" "tot = tot'"
    using eq [of seq seq'] eq [of tot tot'] x(8-10) y(8-10) by linarith+
  moreover have "direction = direction'" "uc_lower U platform = uc_lower U platform'" "chat = chat'" "thread_text thread = thread_text thread'"
    using f x(1-4) y(1-4) utf8_encode_inject by blast+
  moreover have "mid = mid'" using f x(7) y(7) ascii_bytes_inject by blast
  ultimately show ?thesis by blast
qed

section \<open>Round trip\<close>

text \<open>What a writer of version 3 tokens may pass.\<close>

definition v3_writable ::
  "('x) e2e_crypto_scheme \<Rightarrow> ('u) ucd_case_scheme \<Rightarrow> bytes \<Rightarrow> py_str \<Rightarrow> py_str \<Rightarrow> py_str \<Rightarrow> py_str option \<Rightarrow> bytes \<Rightarrow> int \<Rightarrow> int \<Rightarrow>
   bytes \<Rightarrow> py_str \<Rightarrow> bool" where
  "v3_writable C U key direction platform chat thread rid seq tot nonce text \<longleftrightarrow>
     gcm_ok C \<and> length key = 32 \<and> length rid = 16 \<and> length nonce = 12 \<and>
     (\<exists>a. v3_aad U direction platform chat thread (b64u_encode rid) seq tot = Inr a \<and> length a \<le> gcm_limit) \<and>
     (\<exists>p. utf8_encode text = Inr p \<and> length p + 16 \<le> gcm_limit)"

lemma starts_with_prefix [simp]: "starts_with_list p (p @ s)"
  by (simp add: starts_with_list_def)

lemma parse_decimal_dec: "n < 65536 \<Longrightarrow> parse_decimal (dec n) = Inr (int n)"
  using length_dec [of n 5] dec_digits [of n] by (auto simp: parse_decimal_def digits_value_dec list_all_iff)

lemma b64u_no_colon: "58 \<notin> set (b64u_encode b)"
  using b64u_plain(2) by blast

lemma dec_no_colon: "58 \<notin> set (dec n)"
  using dec_digits(1) [of n] by (auto simp: is_digit_def)

lemma parse_token_v3_of:
  assumes "length rid = 16" "0 \<le> seq" "seq < tot" "tot \<le> 65535"
  shows "parse_token_v3 (ENC_PREFIX_V3 @ py_join [58]
      [key_id k, b64u_encode rid, dec (nat seq), dec (nat tot), b64u_encode nonce, b64u_encode ct]) =
    Inr (key_id k, b64u_encode rid, seq, tot, nonce, ct)"
proof -
  let ?ws = "[key_id k, b64u_encode rid, dec (nat seq), dec (nat tot), b64u_encode nonce, b64u_encode ct]"
  have "split_on 58 (py_join [58] ?ws) = ?ws"
    by (rule split_on_join) (simp_all add: key_id_def b64u_no_colon dec_no_colon)
  moreover have "dropWhile is_str_space (ENC_PREFIX_V3 @ s) = ENC_PREFIX_V3 @ s" for s
    by (simp add: ENC_PREFIX_V3_def LOCK_def is_str_space_def)
  moreover have "validate_v3_message_id (b64u_encode rid) = Inr ()"
    using assms(1) by (simp add: validate_v3_message_id_def)
  moreover have "parse_decimal (dec (nat seq)) = Inr seq" "parse_decimal (dec (nat tot)) = Inr tot"
    using assms(2-4) by (simp_all add: parse_decimal_dec)
  ultimately show ?thesis
    using assms(2-4) by (simp add: parse_token_v3_def Let_def key_id_facts del: py_join.simps)
qed

lemma v3_round_trip:
  assumes "v3_writable C U key direction platform chat thread rid seq tot nonce text"
  obtains ct where
    "encrypt_message_v3 C U key text (key_id k) direction platform chat thread (b64u_encode rid) seq tot nonce =
       Inr (ENC_PREFIX_V3 @ py_join [58] [key_id k, b64u_encode rid, dec (nat seq), dec (nat tot), b64u_encode nonce, b64u_encode ct])"
    "decrypt_message_v3 C U key (ENC_PREFIX_V3 @ py_join [58] [key_id k, b64u_encode rid, dec (nat seq), dec (nat tot), b64u_encode nonce, b64u_encode ct])
       direction platform chat thread = Inr text"
    "\<exists>p. utf8_encode text = Inr p \<and> length ct = length p + 16"
proof -
  obtain a p where a: "v3_aad U direction platform chat thread (b64u_encode rid) seq tot = Inr a" "length a \<le> gcm_limit"
      "utf8_encode text = Inr p" "length p + 16 \<le> gcm_limit"
    using assms by (auto simp: v3_writable_def)
  obtain ct where ct: "gcm_seal C key nonce p a = Inr ct" "length ct = length p + 16" "gcm_open C key nonce ct a = Inr p"
    by (rule gcm_okE [of C key nonce p a]) (use assms a in \<open>auto simp: v3_writable_def\<close>)
  have r: "length rid = 16" "length nonce = 12" using assms by (simp_all add: v3_writable_def)
  have b: "0 \<le> seq" "seq < tot" "tot \<le> 65535" by (rule v3_aad_InrE [OF a(1)], assumption)+
  have "validate_v3_message_id (b64u_encode rid) = Inr ()" using r by (simp add: validate_v3_message_id_def)
  then have "encrypt_message_v3 C U key text (key_id k) direction platform chat thread (b64u_encode rid) seq tot nonce =
       Inr (ENC_PREFIX_V3 @ py_join [58] [key_id k, b64u_encode rid, dec (nat seq), dec (nat tot), b64u_encode nonce, b64u_encode ct])"
    using a ct r by (simp add: encrypt_message_v3_def key_id_facts del: py_join.simps)
  moreover have "decrypt_message_v3 C U key (ENC_PREFIX_V3 @ py_join [58] [key_id k, b64u_encode rid, dec (nat seq), dec (nat tot), b64u_encode nonce, b64u_encode ct])
       direction platform chat thread = Inr text"
    using a ct utf8_decode_encode [OF a(3)] parse_token_v3_of [OF r(1) b] by (simp add: decrypt_message_v3_def del: py_join.simps)
  ultimately show ?thesis using that ct(2) a(3) by blast
qed

interpretation v3_token: codec "v3_writable C U key direction platform chat thread rid seq tot nonce"
  "\<lambda>text. encrypt_message_v3 C U key text (key_id key) direction platform chat thread (b64u_encode rid) seq tot nonce"
  "\<lambda>wire. decrypt_message_v3 C U key wire direction platform chat thread"
  for C U key direction platform chat thread rid seq tot nonce
proof
  fix x
  assume "v3_writable C U key direction platform chat thread rid seq tot nonce x"
  then show "\<exists>b. encrypt_message_v3 C U key x (key_id key) direction platform chat thread (b64u_encode rid) seq tot nonce = Inr b \<and>
      decrypt_message_v3 C U key b direction platform chat thread = Inr x"
    by (rule v3_round_trip) blast
qed

lemma encode_fields_total:
  "list_all (\<lambda>f. length f < 256 ^ 4) fs \<Longrightarrow> \<exists>e. encode_fields fs = Inr e \<and> length e = sum_list (map (\<lambda>f. 4 + length f) fs)"
  by (induction fs) (auto simp: to_be_def)

lemma b64u_ascii: "is_ascii (b64u_encode b)"
  using b64u_plain(1) by (auto simp: is_ascii_def list_all_iff)

lemma v3_aad_total:
  assumes "direction \<in> {str_lit ''command'', str_lit ''reply''}" "platform \<noteq> []" "chat \<noteq> []" "0 \<le> seq" "seq < tot" "tot \<le> 65535"
    "utf8_encode (uc_lower U platform) = Inr p" "utf8_encode chat = Inr c" "utf8_encode (thread_text thread) = Inr t"
    "length p < 2 ^ 28" "length c < 2 ^ 28" "length t < 2 ^ 28" "length rid = 16"
  shows "\<exists>a. v3_aad U direction platform chat thread (b64u_encode rid) seq tot = Inr a \<and> length a \<le> gcm_limit"
proof -
  have "is_ascii direction" "length direction \<le> 7" using assms(1) by (auto simp: is_ascii_def str_lit_def)
  then have d: "utf8_encode direction = Inr (ascii_bytes direction)" "length (ascii_bytes direction) \<le> 7"
    by (simp_all add: utf8_encode_ascii ascii_bytes_def)
  have m: "length (ascii_bytes (b64u_encode rid)) = 22" by (simp add: ascii_bytes_def length_b64u_encode assms(13))
  have x: "length (bytes_lit ''mordred-e2e-v3'') = 14" by (simp add: bytes_lit_def)
  obtain e where e: "encode_fields [bytes_lit ''mordred-e2e-v3'', ascii_bytes direction, p, c, t, ascii_bytes (b64u_encode rid)] = Inr e"
      "length e = 14 + length (ascii_bytes direction) + length p + length c + length t + 22 + 24"
    using encode_fields_total [of "[bytes_lit ''mordred-e2e-v3'', ascii_bytes direction, p, c, t, ascii_bytes (b64u_encode rid)]"]
      assms(10-12) d(2) m x by (auto simp del: encode_fields.simps)
  have "v3_aad U direction platform chat thread (b64u_encode rid) seq tot = Inr (e @ be_digits 2 (nat seq) @ be_digits 2 (nat tot))"
    using assms(1-9) d(1) e(1) by (simp add: v3_aad_def ascii_encode_def b64u_ascii del: encode_fields.simps)
  moreover have "length (e @ be_digits 2 (nat seq) @ be_digits 2 (nat tot)) \<le> gcm_limit"
    using e(2) d(2) assms(10-12) by (simp add: gcm_limit_def)
  ultimately show ?thesis by blast
qed

lemma v3_aad_lower:
  "uc_lower U p = uc_lower U p' \<Longrightarrow> p = [] \<longleftrightarrow> p' = [] \<Longrightarrow> v3_aad U d p c t m i n = v3_aad U d p' c t m i n"
  by (simp add: v3_aad_def)

text \<open>One context, its platform spelled in two ways.\<close>

lemma v3_aad_unambiguous_witness:
  "\<exists>a. v3_aad demo_case (str_lit ''reply'') (str_lit ''Slack'') (str_lit ''C1'') None (b64u_encode (replicate 16 0)) 0 1 = Inr a \<and>
     uc_lower demo_case (str_lit ''Slack'') = uc_lower demo_case (str_lit ''slack'')"
proof -
  have l: "uc_lower demo_case (str_lit ''Slack'') = str_lit ''slack''" "uc_lower demo_case (str_lit ''slack'') = str_lit ''slack''"
    by (simp_all add: demo_case_def ucd.defs ascii_lower_def str_lit_def)
  have e: "utf8_encode (str_lit x) = Inr (ascii_bytes (str_lit x))" if "x \<in> {''slack'', ''C1'', []}" for x
    using that by (intro utf8_encode_ascii) (auto simp: is_ascii_def str_lit_def)
  have u: "utf8_encode (uc_lower demo_case (str_lit ''Slack'')) = Inr (ascii_bytes (str_lit ''slack''))" unfolding l by (rule e) simp
  have v: "utf8_encode (thread_text None) = Inr (ascii_bytes [])" by (simp add: thread_text_def utf8_encode_ascii is_ascii_def)
  have c: "utf8_encode (str_lit ''C1'') = Inr (ascii_bytes (str_lit ''C1''))" by (rule e) simp
  have "\<exists>a. v3_aad demo_case (str_lit ''reply'') (str_lit ''Slack'') (str_lit ''C1'') None (b64u_encode (replicate 16 0)) 0 1 = Inr a \<and> length a \<le> gcm_limit"
    by (rule v3_aad_total [OF _ _ _ _ _ _ u c v]) (simp_all add: str_lit_def ascii_bytes_def)
  then obtain a where a: "v3_aad demo_case (str_lit ''reply'') (str_lit ''Slack'') (str_lit ''C1'') None (b64u_encode (replicate 16 0)) 0 1 = Inr a" by blast
  then have b: "v3_aad demo_case (str_lit ''reply'') (str_lit ''slack'') (str_lit ''C1'') None (b64u_encode (replicate 16 0)) 0 1 = Inr a"
    by (subst v3_aad_lower [of _ "str_lit ''slack''" "str_lit ''Slack''"]) (simp_all only: l, simp_all add: str_lit_def)
  show ?thesis using a v3_aad_unambiguous [OF a b] by blast
qed

end
