(* ===== verification/E2E_Gateway.thy ===== *)
theory E2E_Gateway
  imports E2E_Crypto
begin

text \<open>
  The inbound half of \<open>extension/e2e.py\<close>: what the gateway makes of a chat message that claims to be
  encrypted. The regular expressions are matchers on code points; each is deterministic, because no
  alternative can match where another one does and no repeated class contains what follows it. The key
  store \<open>load_channel_keys()\<close> is an argument: the stored pairs in their order, or what reading them raises.
\<close>

section \<open>Matchers\<close>

definition strip_prefix :: "py_str \<Rightarrow> py_str \<Rightarrow> py_str option" where
  "strip_prefix p s = (if starts_with_list p s then Some (drop (length p) s) else None)"

definition run1 :: "(nat \<Rightarrow> bool) \<Rightarrow> py_str \<Rightarrow> py_str option" where
  "run1 p s = (if takeWhile p s = [] then None else Some (dropWhile p s))"

fun first_of :: "'a option list \<Rightarrow> 'a option" where
  "first_of [] = None"
| "first_of (None # os) = first_of os"
| "first_of (Some x # os) = Some x"

definition lit :: "string \<Rightarrow> py_str \<Rightarrow> py_str option" where
  "lit w = strip_prefix (str_lit w)"

definition white :: "py_str \<Rightarrow> py_str option" where
  "white s = (case s of [] \<Rightarrow> None | c # r \<Rightarrow> if is_str_space c then Some r else None)"

definition upper_alnum :: "nat \<Rightarrow> bool" where
  "upper_alnum c \<longleftrightarrow> 65 \<le> c \<and> c \<le> 90 \<or> is_digit c"

definition word_char :: "nat \<Rightarrow> bool" where
  "word_char c \<longleftrightarrow> upper_alnum c \<or> 97 \<le> c \<and> c \<le> 122 \<or> c = 95"

text \<open>\<open>(?:\|[^>]*)?>\<close>\<close>

definition label_end :: "py_str \<Rightarrow> py_str option" where
  "label_end s = lit ''>'' (case lit ''|'' s of None \<Rightarrow> s | Some r \<Rightarrow> dropWhile (\<lambda>c. c \<noteq> 62) r)"

section \<open>Mentions\<close>

text \<open>One round of the group that each prefix expression repeats: what is left after it.\<close>

definition slack_mention :: "py_str \<Rightarrow> py_str option" where
  "slack_mention s = first_of [
     Option.bind (Option.bind (lit ''<@'' s) (run1 upper_alnum)) (lit ''>''),
     lit ''<!here>'' s, lit ''<!channel>'' s, lit ''<!everyone>'' s,
     Option.bind (Option.bind (lit ''<!subteam^'' s) (run1 upper_alnum)) label_end,
     Option.bind (Option.bind (lit ''<#'' s) (run1 upper_alnum)) label_end,
     white s]"

definition decimal :: "('u) ucd_case_scheme \<Rightarrow> nat \<Rightarrow> bool" where
  "decimal U c \<longleftrightarrow> uc_decimal U c \<noteq> None"

definition discord_mention :: "('u) ucd_case_scheme \<Rightarrow> py_str \<Rightarrow> py_str option" where
  "discord_mention U s = first_of [
     Option.bind (Option.bind (lit ''<@'' s) (\<lambda>r. run1 (decimal U) (case r of [] \<Rightarrow> r | c # r' \<Rightarrow> if c = 33 \<or> c = 38 then r' else r))) (lit ''>''),
     Option.bind (Option.bind (lit ''<#'' s) (run1 (decimal U))) (lit ''>''),
     lit ''@everyone'' s, lit ''@here'' s, white s]"

definition lit_ignorecase :: "string \<Rightarrow> py_str \<Rightarrow> py_str option" where
  "lit_ignorecase w s = (if map ascii_lower (take (length w) s) = str_lit w then Some (drop (length w) s) else None)"

definition teams_mention :: "py_str \<Rightarrow> py_str option" where
  "teams_mention s = first_of [
     Option.bind (lit_ignorecase ''<at>'' s) (\<lambda>r. lit_ignorecase ''</at>'' (dropWhile (\<lambda>c. c \<noteq> 60) r)),
     white s]"

definition MENTION_PREFIXES :: "('u) ucd_case_scheme \<Rightarrow> py_str \<Rightarrow> (py_str \<Rightarrow> py_str option) option" where
  "MENTION_PREFIXES U platform =
     (if platform = str_lit ''slack'' then Some slack_mention
      else if platform = str_lit ''discord'' then Some (discord_mention U)
      else if platform = str_lit ''teams'' then Some teams_mention else None)"

function skip_mentions :: "(py_str \<Rightarrow> py_str option) \<Rightarrow> py_str \<Rightarrow> py_str" where
  "skip_mentions f s = (case f s of None \<Rightarrow> s | Some r \<Rightarrow> if length r < length s then skip_mentions f r else s)"
  by pat_completeness auto
termination by (relation "measure (\<lambda>(f, s). length s)") auto

declare skip_mentions.simps [simp del]

text \<open>What follows the plaintext prefix.\<close>

definition after_gateway_prefix :: "('u) ucd_case_scheme \<Rightarrow> py_str \<Rightarrow> py_str \<Rightarrow> py_str" where
  "after_gateway_prefix U text platform =
     (case Option.bind (MENTION_PREFIXES U platform) (\<lambda>f. if f text = None then None else Some (skip_mentions f text)) of
        Some rest \<Rightarrow> rest
      | None \<Rightarrow> dropWhile is_str_space text)"

section \<open>The claim to be encrypted\<close>

text \<open>One position of the search; \<open>before\<close> is the character in front of it.\<close>

definition claim_here :: "nat option \<Rightarrow> py_str \<Rightarrow> bool" where
  "claim_here before s \<longleftrightarrow>
     (case s of [] \<Rightarrow> False
      | c # r \<Rightarrow> c = LOCK \<and> (starts_with_list (str_lit ''ENC'') r \<or> starts_with_list (0xFE0F # str_lit ''ENC'') r)) \<or>
     (case before of None \<Rightarrow> True | Some b \<Rightarrow> \<not> word_char b) \<and> starts_with_list (str_lit ''ENC:'') s"

fun claim_from :: "nat option \<Rightarrow> py_str \<Rightarrow> bool" where
  "claim_from before [] = False"
| "claim_from before (c # s) \<longleftrightarrow> claim_here before (c # s) \<or> claim_from (Some c) s"

definition enc_claim :: "py_str \<Rightarrow> bool" where
  "enc_claim text = claim_from None text"

section \<open>One canonical token\<close>

definition counter_text :: "py_str \<Rightarrow> bool" where
  "counter_text s \<longleftrightarrow> s \<noteq> [] \<and> length s \<le> 5 \<and> list_all is_digit s \<and> hd s \<noteq> 48"

definition CANONICAL_V3_TOKEN :: "py_str \<Rightarrow> (py_str \<times> py_str \<times> py_str \<times> py_str \<times> py_str \<times> py_str) option" where
  "CANONICAL_V3_TOKEN token =
     (let core = (case strip_prefix [LOCK] token of Some r \<Rightarrow> r
                  | None \<Rightarrow> (case lit '':lock:'' token of Some r \<Rightarrow> r | None \<Rightarrow> token))
      in case split_on 58 core of
           [enc, ver, kid, mid, sq, tt, nn, cc] \<Rightarrow>
             if enc = str_lit ''ENC'' \<and> ver = str_lit ''v3'' \<and> length kid = 8 \<and> list_all is_b64u kid \<and>
                length mid = 22 \<and> list_all is_b64u mid \<and> (sq = [48] \<or> counter_text sq) \<and> counter_text tt \<and>
                nn \<noteq> [] \<and> list_all is_b64u nn \<and> cc \<noteq> [] \<and> list_all is_b64u cc
             then Some (kid, mid, sq, tt, nn, cc) else None
         | _ \<Rightarrow> None)"

definition normalize_v3_token :: "py_str \<Rightarrow> py_str" where
  "normalize_v3_token token =
     (case lit '':lock:'' token of
        Some r \<Rightarrow> LOCK # r
      | None \<Rightarrow> if starts_with_list [LOCK] token then token else LOCK # token)"

type_synonym replay_claim = "py_str \<times> py_str"

definition message_identity :: "py_str \<Rightarrow> py_str \<Rightarrow> py_str" where
  "message_identity kid mid = sha256_hex (bytes_lit ''mordred-e2e-v3-message'' @ [0] @ ascii_bytes kid @ [0] @ ascii_bytes mid)"

definition nonce_identity :: "py_str \<Rightarrow> bytes \<Rightarrow> py_str" where
  "nonce_identity kid nonce = sha256_hex (bytes_lit ''mordred-e2e-v3-nonce'' @ [0] @ ascii_bytes kid @ [0] @ nonce)"

definition canonical_v3_parts :: "py_str \<Rightarrow> (py_str \<times> py_str \<times> replay_claim) result" where
  "canonical_v3_parts token =
     (case CANONICAL_V3_TOKEN token of
        None \<Rightarrow> Inl (InvalidEncryptedEnvelope ''legacy_or_malformed_token'')
      | Some (g_kid, g_mid, g_seq, g_tot, g_nonce, g_ct) \<Rightarrow>
          (let normalized = normalize_v3_token token
           in r_bind (r_catch is_exception (InvalidEncryptedEnvelope ''malformed_token'') (parse_token_v3 normalized))
              (\<lambda>(kid, message_id, seq, tot, nonce, ct).
                 if length nonce \<noteq> 12 \<or> length ct < 16 then Inl (InvalidEncryptedEnvelope ''malformed_token'')
                 else if b64u_encode nonce \<noteq> g_nonce \<or> b64u_encode ct \<noteq> g_ct \<or> kid \<noteq> g_kid \<or> message_id \<noteq> g_mid \<or>
                         dec (nat seq) \<noteq> g_seq \<or> dec (nat tot) \<noteq> g_tot
                 then Inl (InvalidEncryptedEnvelope ''noncanonical_token'')
                 else if seq \<noteq> 0 \<or> tot \<noteq> 1 then Inl (InvalidEncryptedEnvelope ''multi_token_not_supported'')
                 else Inr (kid, normalized, (message_identity kid message_id, nonce_identity kid nonce)))))"

section \<open>The key of the channel\<close>

type_synonym channel_keys = "(py_str \<times> bytes) list"

definition channel_key_matches ::
  "('u) ucd_case_scheme \<Rightarrow> py_str \<Rightarrow> py_str \<Rightarrow> py_str \<Rightarrow> py_str option \<Rightarrow> py_str set option \<Rightarrow> bool" where
  "channel_key_matches U stored_id platform chat_id scope_id slack_connect_host_scope_ids =
     (if stored_id = chat_id then True
      else let segments = split_on 58 stored_id
           in if length segments < 2 \<or> uc_lower U (hd segments) \<noteq> platform \<or> last segments \<noteq> chat_id then False
              else case scope_id of
                Some scope \<Rightarrow>
                  if scope \<noteq> [] \<and> 2 < length segments then
                    (let stored_scope = py_join [58] (butlast (tl segments))
                     in stored_scope = scope \<or>
                        platform = str_lit ''slack'' \<and> slack_connect_host_scope_ids \<noteq> None \<and>
                        stored_scope \<in> the slack_connect_host_scope_ids)
                  else True
              | None \<Rightarrow> True)"

definition context_channel_key ::
  "('u) ucd_case_scheme \<Rightarrow> channel_keys result \<Rightarrow> py_str \<Rightarrow> py_str \<Rightarrow> py_str \<Rightarrow> py_str option \<Rightarrow> py_str option \<Rightarrow> py_str set option \<Rightarrow> bytes result" where
  "context_channel_key U ring kid platform chat_id parent_chat_id scope_id hosts =
     r_bind ring (\<lambda>channel_keys.
       let candidates = [chat_id] @ (case parent_chat_id of Some p \<Rightarrow> if p \<noteq> [] \<and> p \<noteq> chat_id then [p] else [] | None \<Rightarrow> []);
           bound = concat (map (\<lambda>ch. filter (\<lambda>(stored_id, raw_key). channel_key_matches U stored_id platform ch scope_id hosts) channel_keys) candidates)
       in case find (\<lambda>(stored_id, raw_key). key_id raw_key = kid) bound of
            None \<Rightarrow> Inl (InvalidEncryptedEnvelope ''key_not_bound_to_channel'')
          | Some (stored_id, raw_key) \<Rightarrow> Inr raw_key)"

section \<open>The envelope\<close>

definition is_decrypt_error :: "exn \<Rightarrow> bool" where
  "is_decrypt_error e \<longleftrightarrow> (case e of DecryptError r \<Rightarrow> True | _ \<Rightarrow> False)"

definition is_envelope_error :: "exn \<Rightarrow> bool" where
  "is_envelope_error e \<longleftrightarrow> (case e of InvalidEncryptedEnvelope r \<Rightarrow> True | _ \<Rightarrow> False)"

definition decrypt_gateway_claim ::
  "('x) e2e_crypto_scheme \<Rightarrow> ('u) ucd_case_scheme \<Rightarrow> channel_keys result \<Rightarrow> py_str \<Rightarrow> py_str \<Rightarrow> py_str \<Rightarrow> py_str option \<Rightarrow>
   py_str option \<Rightarrow> py_str option \<Rightarrow> py_str set option \<Rightarrow> (py_str \<times> py_str \<times> replay_claim) result" where
  "decrypt_gateway_claim C U ring text platform chat_id thread_root parent_chat_id scope_id hosts =
     (let rest = dropWhile is_str_space (after_gateway_prefix U text platform);
          token = takeWhile (\<lambda>c. \<not> is_str_space c) rest
      in if token = [] then Inl (InvalidEncryptedEnvelope ''missing_token'')
         else if strip is_str_space (dropWhile (\<lambda>c. \<not> is_str_space c) rest) \<noteq> []
         then Inl (InvalidEncryptedEnvelope ''mixed_or_multiple_content'')
         else r_bind (canonical_v3_parts token) (\<lambda>(kid, normalized, replay).
              r_bind (context_channel_key U ring kid platform chat_id parent_chat_id scope_id hosts) (\<lambda>raw_key.
              r_bind (r_catch (\<lambda>e. is_decrypt_error e \<or> is_value_error e) (InvalidEncryptedEnvelope ''authentication_failed'')
                (decrypt_message_v3 C U raw_key normalized (str_lit ''command'') platform chat_id thread_root)) (\<lambda>plaintext.
                  Inr (plaintext, kid, replay)))))"

definition decrypt_gateway_envelope ::
  "('x) e2e_crypto_scheme \<Rightarrow> ('u) ucd_case_scheme \<Rightarrow> channel_keys result \<Rightarrow> py_str \<Rightarrow> py_str \<Rightarrow> py_str \<Rightarrow> py_str option \<Rightarrow>
   py_str option \<Rightarrow> py_str option \<Rightarrow> py_str set option \<Rightarrow> (py_str \<times> py_str \<times> replay_claim) option result" where
  "decrypt_gateway_envelope C U ring text platform chat_id thread_root parent_chat_id scope_id hosts =
     (if text = [] \<or> \<not> enc_claim text then Inr None
      else r_catch (\<lambda>e. is_exception e \<and> \<not> is_envelope_error e) (InvalidEncryptedEnvelope ''internal_error'')
        (if platform = [] \<or> chat_id = [] then Inl (InvalidEncryptedEnvelope ''missing_context'')
         else r_bind (decrypt_gateway_claim C U ring text (uc_lower U platform) chat_id thread_root parent_chat_id scope_id hosts)
                (\<lambda>r. Inr (Some r))))"

section \<open>What is accepted\<close>

lemma split_on_not_Nil: "split_on sep s \<noteq> []"
  by (induction s) (auto split: list.split)

lemma find_SomeD: "find P xs = Some x \<Longrightarrow> x \<in> set xs \<and> P x"
  by (induction xs) (auto split: if_splits)

lemma find_append_Some: "\<exists>x \<in> set xs. P x \<Longrightarrow> \<exists>y \<in> set xs. P y \<and> (\<forall>ys. find P (xs @ ys) = Some y)"
  by (induction xs) auto

lemma join_split [simp]: "py_join [sep] (split_on sep s) = s"
proof (induction s)
  case (Cons c s)
  obtain w ws where w: "split_on sep s = w # ws" using split_on_not_Nil [of sep s] by (cases "split_on sep s") auto
  then show ?case using Cons by (cases ws) auto
qed simp

lemma claim_from_append: "claim_here (Some b) s \<Longrightarrow> claim_from p (a @ b # s)"
proof (induction a arbitrary: p)
  case Nil
  then have "s \<noteq> []" by (auto simp: claim_here_def starts_with_list_def str_lit_def)
  then show ?case using Nil by (cases s) simp_all
qed simp

lemma lock_claims: "enc_claim (a @ LOCK # str_lit ''ENC'' @ b)"
proof -
  have "claim_here p (LOCK # str_lit ''ENC'' @ b)" for p by (simp add: claim_here_def starts_with_list_def str_lit_def)
  then show ?thesis
    by (cases a rule: rev_cases) (simp_all add: enc_claim_def claim_from_append)
qed

text \<open>The one wire form of a token with these parts, up to the spelling of the lock.\<close>

definition v3_wire :: "py_str \<Rightarrow> py_str \<Rightarrow> bytes \<Rightarrow> bytes \<Rightarrow> py_str" where
  "v3_wire kid mid nonce ct = ENC_PREFIX_V3 @ py_join [58] [kid, mid, dec 0, dec 1, b64u_encode nonce, b64u_encode ct]"

lemma canonical_core:
  assumes "CANONICAL_V3_TOKEN token = Some (kid, mid, sq, tt, nn, cc)"
  shows "normalize_v3_token token = ENC_PREFIX_V3 @ py_join [58] [kid, mid, sq, tt, nn, cc]"
    "list_all is_b64u kid" "list_all is_b64u mid"
proof -
  define core where "core = (case strip_prefix [LOCK] token of Some r \<Rightarrow> r
                  | None \<Rightarrow> (case lit '':lock:'' token of Some r \<Rightarrow> r | None \<Rightarrow> token))"
  from assms have sp: "split_on 58 core = [str_lit ''ENC'', str_lit ''v3'', kid, mid, sq, tt, nn, cc]"
    and b: "list_all is_b64u kid" "list_all is_b64u mid"
    unfolding CANONICAL_V3_TOKEN_def core_def [symmetric] Let_def by (auto split: list.splits if_splits)
  show "list_all is_b64u kid" "list_all is_b64u mid" by fact+
  have "normalize_v3_token token = LOCK # core"
    by (cases token) (auto simp: normalize_v3_token_def core_def strip_prefix_def lit_def starts_with_list_def str_lit_def LOCK_def split: option.split)
  moreover have "core = py_join [58] [str_lit ''ENC'', str_lit ''v3'', kid, mid, sq, tt, nn, cc]"
    using join_split [of 58 core] unfolding sp by simp
  ultimately show "normalize_v3_token token = ENC_PREFIX_V3 @ py_join [58] [kid, mid, sq, tt, nn, cc]"
    by (simp add: ENC_PREFIX_V3_def str_lit_def)
qed

lemma canonical_v3_Inr:
  assumes "canonical_v3_parts token = Inr (kid, wire, replay)"
  obtains mid nonce ct where "wire = normalize_v3_token token" "wire = v3_wire kid mid nonce ct"
    "parse_token_v3 wire = Inr (kid, mid, 0, 1, nonce, ct)" "length nonce = 12" "16 \<le> length ct"
    "replay = (message_identity kid mid, nonce_identity kid nonce)" "is_ascii kid" "is_ascii mid"
proof -
  from assms obtain g_kid g_mid sq tt nn cc seq tot kid' mid nonce ct where
    g: "CANONICAL_V3_TOKEN token = Some (g_kid, g_mid, sq, tt, nn, cc)"
      "parse_token_v3 (normalize_v3_token token) = Inr (kid', mid, seq, tot, nonce, ct)"
      "length nonce = 12" "16 \<le> length ct" "b64u_encode nonce = nn" "b64u_encode ct = cc" "kid' = g_kid" "mid = g_mid"
      "dec (nat seq) = sq" "dec (nat tot) = tt" "seq = 0" "tot = 1" "kid = kid'" "wire = normalize_v3_token token"
      "replay = (message_identity kid' mid, nonce_identity kid' nonce)"
    unfolding canonical_v3_parts_def Let_def
    by (auto simp: r_bind_Inr_iff split: option.splits prod.splits if_splits)
  have a: "list_all is_b64u x \<Longrightarrow> is_ascii x" for x by (auto simp: list_all_iff is_ascii_def is_b64u_def)
  show ?thesis
    by (rule that [of mid nonce ct])
      (use g canonical_core [OF g(1)] a in \<open>simp_all add: v3_wire_def del: py_join.simps\<close>)
qed

lemma context_channel_key_Inr:
  assumes "context_channel_key U ring kid platform chat parent scope hosts = Inr key"
  obtains keys stored where "ring = Inr keys" "(stored, key) \<in> set keys" "key_id key = kid"
    "channel_key_matches U stored platform chat scope hosts \<or>
     (\<exists>p. parent = Some p \<and> p \<noteq> [] \<and> channel_key_matches U stored platform p scope hosts)"
proof -
  from assms obtain keys where k: "ring = Inr keys" by (auto simp: context_channel_key_def r_bind_Inr_iff)
  obtain stored where
    "find (\<lambda>(stored_id, raw_key). key_id raw_key = kid) (concat (map (\<lambda>ch. filter (\<lambda>(stored_id, raw_key). channel_key_matches U stored_id platform ch scope hosts) keys)
       ([chat] @ (case parent of Some p \<Rightarrow> if p \<noteq> [] \<and> p \<noteq> chat then [p] else [] | None \<Rightarrow> [])))) = Some (stored, key)"
    using assms k by (auto simp: context_channel_key_def Let_def split: option.splits prod.splits)
  from find_SomeD [OF this] show ?thesis using that [OF k] by (auto split: option.splits if_splits)
qed

lemma envelope_authentic:
  assumes "decrypt_gateway_envelope C U ring text platform chat thread parent scope hosts = Inr (Some (plaintext, kid, replay))"
  shows "enc_claim text \<and> (\<exists>token keys stored key mid nonce ct aad p.
    takeWhile (\<lambda>c. \<not> is_str_space c) (dropWhile is_str_space (after_gateway_prefix U text (uc_lower U platform))) = token \<and>
    normalize_v3_token token = v3_wire kid mid nonce ct \<and> length nonce = 12 \<and> 16 \<le> length ct \<and>
    replay = (message_identity kid mid, nonce_identity kid nonce) \<and>
    ring = Inr keys \<and> (stored, key) \<in> set keys \<and> key_id key = kid \<and>
    (channel_key_matches U stored (uc_lower U platform) chat scope hosts \<or>
     (\<exists>q. parent = Some q \<and> q \<noteq> [] \<and> channel_key_matches U stored (uc_lower U platform) q scope hosts)) \<and>
    v3_aad U (str_lit ''command'') (uc_lower U platform) chat thread mid 0 1 = Inr aad \<and>
    gcm_open C key nonce ct aad = Inr p \<and> utf8_decode p = Inr plaintext)"
proof -
  let ?p = "uc_lower U platform"
  let ?rest = "dropWhile is_str_space (after_gateway_prefix U text ?p)"
  let ?token = "takeWhile (\<lambda>c. \<not> is_str_space c) ?rest"
  have c: "enc_claim text" "decrypt_gateway_claim C U ring text ?p chat thread parent scope hosts = Inr (plaintext, kid, replay)"
    using assms by (auto simp: decrypt_gateway_envelope_def r_bind_Inr_iff split: if_splits)
  from c(2) obtain wire key where w: "canonical_v3_parts ?token = Inr (kid, wire, replay)"
      "context_channel_key U ring kid ?p chat parent scope hosts = Inr key"
      "decrypt_message_v3 C U key wire (str_lit ''command'') ?p chat thread = Inr plaintext"
    unfolding decrypt_gateway_claim_def Let_def by (auto simp: r_bind_Inr_iff split: if_splits)
  obtain mid nonce ct where t: "wire = normalize_v3_token ?token" "wire = v3_wire kid mid nonce ct"
    "parse_token_v3 wire = Inr (kid, mid, 0, 1, nonce, ct)" "length nonce = 12" "16 \<le> length ct"
    "replay = (message_identity kid mid, nonce_identity kid nonce)"
    by (rule canonical_v3_Inr [OF w(1)])
  obtain keys stored where k: "ring = Inr keys" "(stored, key) \<in> set keys" "key_id key = kid"
    "channel_key_matches U stored ?p chat scope hosts \<or> (\<exists>q. parent = Some q \<and> q \<noteq> [] \<and> channel_key_matches U stored ?p q scope hosts)"
    by (rule context_channel_key_Inr [OF w(2)])
  from w(3) t(3) obtain aad p where "v3_aad U (str_lit ''command'') ?p chat thread mid 0 1 = Inr aad"
    "gcm_open C key nonce ct aad = Inr p" "utf8_decode p = Inr plaintext"
    by (auto simp: decrypt_message_v3_def r_bind_Inr_iff)
  with c(1) t k show ?thesis by blast
qed

text \<open>What the gateway releases was written by a holder of the channel's key for exactly this conversation. The message is the
  allowed prefix, one token and white space; the token's key id is that of a key the store binds to this channel (or its parent) on
  this platform; AES-GCM accepted the ciphertext under that key and the associated data of a command in exactly this channel and
  thread; the token is the only spelling of its parts, and the replay claim is the digest pair of its key id with its message id
  and with its nonce.\<close>

lemma gateway_envelope_authentic:
  assumes "decrypt_gateway_envelope C U ring text platform chat thread parent scope hosts = Inr (Some (plaintext, kid, replay))"
  shows "enc_claim text \<and> (\<exists>token keys stored key mid nonce ct aad p.
    takeWhile (\<lambda>c. \<not> is_str_space c) (dropWhile is_str_space (after_gateway_prefix U text (uc_lower U platform))) = token \<and>
    normalize_v3_token token = v3_wire kid mid nonce ct \<and> length nonce = 12 \<and> 16 \<le> length ct \<and>
    replay = (message_identity kid mid, nonce_identity kid nonce) \<and>
    ring = Inr keys \<and> (stored, key) \<in> set keys \<and> key_id key = kid \<and>
    (channel_key_matches U stored (uc_lower U platform) chat scope hosts \<or>
     (\<exists>q. parent = Some q \<and> q \<noteq> [] \<and> channel_key_matches U stored (uc_lower U platform) q scope hosts)) \<and>
    v3_aad U (str_lit ''command'') (uc_lower U platform) chat thread mid 0 1 = Inr aad \<and>
    gcm_open C key nonce ct aad = Inr p \<and> utf8_decode p = Inr plaintext)"
  by (rule envelope_authentic [OF assms])

section \<open>What is refused\<close>

lemma strip_Nil_iff: "strip p s = [] \<longleftrightarrow> list_all p s"
proof -
  have "rstrip p t = [] \<longleftrightarrow> list_all p t" for t
    by (simp add: rstrip_def dropWhile_eq_Nil_conv list_all_iff)
  moreover have "list_all p (dropWhile p s) \<longleftrightarrow> list_all p s" by (induction s) auto
  ultimately show ?thesis by (simp add: strip_def)
qed

lemma starts_withD: "starts_with_list p s \<Longrightarrow> \<exists>r. s = p @ r"
  by (metis append_take_drop_id starts_with_list_def)

lemma legacy_not_canonical:
  assumes "starts_with_list ENC_PREFIX_V1 s \<or> starts_with_list ENC_PREFIX_V2 s"
  shows "CANONICAL_V3_TOKEN s = None"
proof -
  obtain v r where s: "s = LOCK # str_lit ''ENC'' @ 58 # v @ 58 # r" "v = str_lit ''v1'' \<or> v = str_lit ''v2''"
  proof -
    obtain r where "s = ENC_PREFIX_V1 @ r \<or> s = ENC_PREFIX_V2 @ r" using assms starts_withD by blast
    then show ?thesis
      using that [of "str_lit ''v1''" r] that [of "str_lit ''v2''" r]
      by (auto simp: ENC_PREFIX_V1_def ENC_PREFIX_V2_def str_lit_def)
  qed
  have "58 \<notin> set v" "58 \<notin> set (str_lit ''ENC'')" "v \<noteq> str_lit ''v3''" using s(2) by (auto simp: str_lit_def)
  then have "split_on 58 (str_lit ''ENC'' @ 58 # v @ 58 # r) = str_lit ''ENC'' # v # split_on 58 r"
    by (simp add: split_on_append)
  moreover have "strip_prefix [LOCK] s = Some (str_lit ''ENC'' @ 58 # v @ 58 # r)"
    by (simp add: s(1) strip_prefix_def starts_with_list_def)
  ultimately show ?thesis
    using \<open>v \<noteq> str_lit ''v3''\<close> by (simp add: CANONICAL_V3_TOKEN_def split: list.split)
qed

lemma gateway_claim_one_word:
  assumes "decrypt_gateway_claim C U ring text platform chat thread parent scope hosts = Inr r"
  obtains w ws where "dropWhile is_str_space (after_gateway_prefix U text platform) = w @ ws" "is_word w" "list_all is_str_space ws"
    "CANONICAL_V3_TOKEN w \<noteq> None"
proof -
  let ?rest = "dropWhile is_str_space (after_gateway_prefix U text platform)"
  let ?w = "takeWhile (\<lambda>c. \<not> is_str_space c) ?rest"
  have w: "?w \<noteq> []" "strip is_str_space (dropWhile (\<lambda>c. \<not> is_str_space c) ?rest) = []" and "\<exists>x. canonical_v3_parts ?w = Inr x"
    using assms unfolding decrypt_gateway_claim_def Let_def by (auto simp: r_bind_Inr_iff split: if_splits)
  have "CANONICAL_V3_TOKEN u = None \<Longrightarrow> \<exists>e. canonical_v3_parts u = Inl e" for u by (simp add: canonical_v3_parts_def)
  with \<open>\<exists>x. canonical_v3_parts ?w = Inr x\<close> have "CANONICAL_V3_TOKEN ?w \<noteq> None" by (metis sum.distinct(1))
  moreover have "is_word ?w" using w(1) by (auto simp: is_word_def list_all_iff dest: set_takeWhileD)
  ultimately show ?thesis
    using that [of ?w "dropWhile (\<lambda>c. \<not> is_str_space c) ?rest"] w(2) by (simp add: strip_Nil_iff)
qed

lemma starts_with_word:
  assumes "starts_with_list p (w @ ws)" "list_all (\<lambda>c. \<not> is_str_space c) p" "list_all is_str_space ws"
  shows "starts_with_list p w"
proof -
  have "take (length p) (w @ ws) = p" using assms(1) by (simp add: starts_with_list_def)
  then have p: "p = take (length p) w @ take (length p - length w) ws" by simp
  have "take (length p - length w) ws = []"
  proof (rule ccontr)
    assume n: "take (length p - length w) ws \<noteq> []"
    then obtain c where "c \<in> set (take (length p - length w) ws)" by (meson last_in_set)
    then have "c \<in> set ws" "c \<in> set p" by (rule in_set_takeD) (subst p, use \<open>c \<in> set (take _ ws)\<close> in simp)
    then show False using assms(2,3) by (auto simp: list_all_iff)
  qed
  then show ?thesis using p unfolding starts_with_list_def by (metis append_Nil2)
qed

lemma prefixes_no_space:
  "list_all (\<lambda>c. \<not> is_str_space c) ENC_PREFIX_V1" "list_all (\<lambda>c. \<not> is_str_space c) ENC_PREFIX_V2" "list_all (\<lambda>c. \<not> is_str_space c) ENC_PREFIX_V3"
  by (simp_all add: ENC_PREFIX_V1_def ENC_PREFIX_V2_def ENC_PREFIX_V3_def LOCK_def str_lit_def is_str_space_def)

lemma envelope_errors:
  "raises (\<lambda>e. is_exception e \<longrightarrow> is_envelope_error e)
     (r_catch (\<lambda>e. is_exception e \<and> \<not> is_envelope_error e) (InvalidEncryptedEnvelope r) m)"
  by (rule raises_catch) (simp add: raises_def is_envelope_error_def)

text \<open>A message that claims to be encrypted never falls back to plaintext. Whatever contains the lock and \<open>ENC\<close> makes the claim;
  with the claim the gateway either releases an authenticated command or raises, and every ordinary exception it raises, also one of
  the key store, is an \<open>InvalidEncryptedEnvelope\<close>; without the claim it does nothing. Behind the allowed prefix, anything but
  a single word and white space, and every token of version 1 or 2, is refused, and so is a message without platform or channel.\<close>

lemma gateway_fail_closed:
  "let run = decrypt_gateway_envelope C U ring text platform chat thread parent scope hosts;
      rest = dropWhile is_str_space (after_gateway_prefix U text (uc_lower U platform)) in
    enc_claim (a @ LOCK # str_lit ''ENC'' @ b) \<and>
    (\<not> enc_claim text \<longrightarrow> run = Inr None) \<and>
    (enc_claim text \<longrightarrow> run \<noteq> Inr None \<and>
       raises (\<lambda>e. is_exception e \<longrightarrow> is_envelope_error e) run) \<and>
    (enc_claim text \<and>
        (starts_with_list ENC_PREFIX_V1 rest \<or> starts_with_list ENC_PREFIX_V2 rest \<or>
         \<not> (\<exists>w ws. rest = w @ ws \<and> is_word w \<and> list_all is_str_space ws) \<or> platform = [] \<or> chat = []) \<longrightarrow>
        (\<exists>e. run = Inl e))"
proof -
  let ?run = "decrypt_gateway_envelope C U ring text platform chat thread parent scope hosts"
  let ?claim = "decrypt_gateway_claim C U ring text (uc_lower U platform) chat thread parent scope hosts"
  let ?rest = "dropWhile is_str_space (after_gateway_prefix U text (uc_lower U platform))"
  have neg: "\<not> enc_claim text \<longrightarrow> ?run = Inr None"
    by (simp add: decrypt_gateway_envelope_def)
  have none: "enc_claim text \<longrightarrow> ?run \<noteq> Inr None"
    by (auto simp: decrypt_gateway_envelope_def r_bind_Inr_iff enc_claim_def)
  have err: "raises (\<lambda>e. is_exception e \<longrightarrow> is_envelope_error e) (?run)"
  proof (cases "enc_claim text")
    case True
    then have "text \<noteq> []" by (auto simp: enc_claim_def)
    with True show ?thesis by (simp add: decrypt_gateway_envelope_def envelope_errors split del: if_split)
  qed (simp add: decrypt_gateway_envelope_def)
  have word: "\<exists>r. ?run = Inr (Some r) \<Longrightarrow>
      platform \<noteq> [] \<and> chat \<noteq> [] \<and> (\<exists>r. ?claim = Inr r)"
    by (auto simp: decrypt_gateway_envelope_def r_bind_Inr_iff split: if_splits)
  have last: "\<exists>e. ?run = Inl e"
    if c1: "enc_claim text" and c2: "starts_with_list ENC_PREFIX_V1 ?rest \<or> starts_with_list ENC_PREFIX_V2 ?rest \<or>
         \<not> (\<exists>w ws. ?rest = w @ ws \<and> is_word w \<and> list_all is_str_space ws) \<or> platform = [] \<or> chat = []"
  proof (rule ccontr)
    assume "\<not> ?thesis"
    then obtain r where r: "?run = Inr (Some r)"
      using none c1 by (cases "?run") auto
    from word r obtain x where x: "platform \<noteq> []" "chat \<noteq> []" "?claim = Inr x" by blast
    obtain w ws where w: "?rest = w @ ws" "is_word w" "list_all is_str_space ws" "CANONICAL_V3_TOKEN w \<noteq> None"
      by (rule gateway_claim_one_word [OF x(3)])
    have one: "\<exists>w ws. ?rest = w @ ws \<and> is_word w \<and> list_all is_str_space ws" using w(1-3) by blast
    have "starts_with_list ENC_PREFIX_V1 ?rest \<or> starts_with_list ENC_PREFIX_V2 ?rest"
      using c2
    proof (elim disjE)
      assume "\<not> (\<exists>w ws. ?rest = w @ ws \<and> is_word w \<and> list_all is_str_space ws)"
      then show ?thesis using one by contradiction
    qed (use x(1,2) in \<open>simp_all only: simp_thms\<close>)
    then show False
    proof
      assume "starts_with_list ENC_PREFIX_V1 ?rest"
      then have "starts_with_list ENC_PREFIX_V1 w"
        unfolding w(1) by (rule starts_with_word [OF _ prefixes_no_space(1) w(3)])
      then have "CANONICAL_V3_TOKEN w = None" by (intro legacy_not_canonical) simp
      then show False using w(4) by contradiction
    next
      assume "starts_with_list ENC_PREFIX_V2 ?rest"
      then have "starts_with_list ENC_PREFIX_V2 w"
        unfolding w(1) by (rule starts_with_word [OF _ prefixes_no_space(2) w(3)])
      then have "CANONICAL_V3_TOKEN w = None" by (intro legacy_not_canonical) simp
      then show False using w(4) by contradiction
    qed
  qed
  show ?thesis
    unfolding Let_def
    by (intro conjI impI lock_claims neg [rule_format] none [rule_format] err; (elim conjE; rule last; assumption)?)
qed

section \<open>What the extension writes is read\<close>

lemma canonical_of_wire:
  assumes "length rid = 16" "length nonce = 12" "16 \<le> length ct"
    "token = v3_wire (key_id k) (b64u_encode rid) nonce ct \<or> token = str_lit '':lock:'' @ tl (v3_wire (key_id k) (b64u_encode rid) nonce ct)"
  shows "canonical_v3_parts token = Inr (key_id k, v3_wire (key_id k) (b64u_encode rid) nonce ct,
    (message_identity (key_id k) (b64u_encode rid), nonce_identity (key_id k) nonce))"
proof -
  let ?ws = "[str_lit ''ENC'', str_lit ''v3'', key_id k, b64u_encode rid, dec 0, dec 1, b64u_encode nonce, b64u_encode ct]"
  let ?wire = "v3_wire (key_id k) (b64u_encode rid) nonce ct"
  have wire: "?wire = LOCK # py_join [58] ?ws"
    by (simp add: v3_wire_def ENC_PREFIX_V3_def str_lit_def)
  have sp: "split_on 58 (py_join [58] ?ws) = ?ws"
    by (rule split_on_join) (simp_all add: key_id_def b64u_no_colon dec_no_colon str_lit_def)
  have b: "list_all is_b64u (b64u_encode x)" for x using b64u_alphabet by (auto simp: list_all_iff)
  have n: "b64u_encode nonce \<noteq> []" "b64u_encode ct \<noteq> []"
    using assms(2,3) length_b64u_encode [of nonce] length_b64u_encode [of ct] by (auto simp del: length_0_conv)
  have d: "dec 0 = [48]" "dec 1 = [49]" "dec (Suc 0) = [49]" "counter_text [49]" by (simp_all add: dec.simps counter_text_def is_digit_def)
  have core: "(case strip_prefix [LOCK] token of Some r \<Rightarrow> r | None \<Rightarrow> (case lit '':lock:'' token of Some r \<Rightarrow> r | None \<Rightarrow> token)) = py_join [58] ?ws"
    using assms(4) by (auto simp: wire strip_prefix_def lit_def starts_with_list_def str_lit_def LOCK_def)
  have norm: "normalize_v3_token token = ?wire"
    using assms(4) by (auto simp: wire normalize_v3_token_def strip_prefix_def lit_def starts_with_list_def str_lit_def LOCK_def)
  have "CANONICAL_V3_TOKEN token = Some (key_id k, b64u_encode rid, dec 0, dec 1, b64u_encode nonce, b64u_encode ct)"
    unfolding CANONICAL_V3_TOKEN_def core Let_def sp
    using assms(1) n b [of "take 6 (sha256 k)"] by (simp add: key_id_facts length_b64u_encode b d flip: key_id_def)
  moreover have "parse_token_v3 ?wire = Inr (key_id k, b64u_encode rid, 0, 1, nonce, ct)"
    using parse_token_v3_of [OF assms(1), of 0 1 k nonce ct] by (simp add: v3_wire_def del: py_join.simps)
  ultimately show ?thesis
    using assms(2,3) by (simp add: canonical_v3_parts_def norm Let_def)
qed

lemma wire_is_word:
  assumes "token = v3_wire (key_id k) (b64u_encode rid) nonce ct \<or> token = str_lit '':lock:'' @ tl (v3_wire (key_id k) (b64u_encode rid) nonce ct)"
  shows "is_word token"
proof -
  have b: "list_all (\<lambda>c. \<not> is_str_space c) (b64u_encode x)" for x using b64u_plain(3) by (auto simp: list_all_iff)
  have d: "list_all (\<lambda>c. \<not> is_str_space c) (dec n)" for n
    using dec_digits(1) [of n] by (auto simp: list_all_iff is_digit_def is_str_space_def)
  define wire where "wire = v3_wire (key_id k) (b64u_encode rid) nonce ct"
  have w: "list_all (\<lambda>c. \<not> is_str_space c) wire"
    using prefixes_no_space(3) b [of "take 6 (sha256 k)"] b d
    by (simp add: wire_def v3_wire_def is_str_space_def flip: key_id_def)
  then have "list_all (\<lambda>c. \<not> is_str_space c) (str_lit '':lock:'' @ tl wire)"
    by (cases wire) (simp_all add: str_lit_def is_str_space_def)
  moreover have "wire \<noteq> []" by (simp add: wire_def v3_wire_def ENC_PREFIX_V3_def)
  moreover have "token = wire \<or> token = str_lit '':lock:'' @ tl wire" "str_lit '':lock:'' \<noteq> []"
    using assms by (simp_all add: wire_def str_lit_def)
  ultimately show ?thesis using w unfolding is_word_def by blast
qed

lemma takeWhile_word:
  assumes "is_word w" "list_all is_str_space ws"
  shows "takeWhile (\<lambda>c. \<not> is_str_space c) (w @ ws) = w" "dropWhile (\<lambda>c. \<not> is_str_space c) (w @ ws) = ws"
    "dropWhile is_str_space (w @ ws) = w @ ws"
proof -
  have w: "\<forall>c \<in> set w. \<not> is_str_space c" "w \<noteq> []" using assms(1) by (simp_all add: is_word_def list_all_iff)
  have "takeWhile (\<lambda>c. \<not> is_str_space c) ws = []" "dropWhile (\<lambda>c. \<not> is_str_space c) ws = ws"
    using assms(2) by (cases ws; simp)+
  then show "takeWhile (\<lambda>c. \<not> is_str_space c) (w @ ws) = w" "dropWhile (\<lambda>c. \<not> is_str_space c) (w @ ws) = ws"
    using w(1) by simp_all
  show "dropWhile is_str_space (w @ ws) = w @ ws" using w by (cases w) simp_all
qed

lemma gateway_reads_token:
  assumes "v3_writable C U key (str_lit ''command'') (uc_lower U platform) chat thread rid 0 1 nonce text"
    "encrypt_message_v3 C U key text (key_id key) (str_lit ''command'') (uc_lower U platform) chat thread (b64u_encode rid) 0 1 nonce = Inr wire"
    "token = wire \<or> token = str_lit '':lock:'' @ tl wire" "list_all is_str_space ws" "platform \<noteq> []" "chat \<noteq> []"
    "after_gateway_prefix U (prefix @ token @ ws) (uc_lower U platform) = token @ ws"
    "(stored, key) \<in> set keys" "channel_key_matches U stored (uc_lower U platform) chat scope hosts"
    "\<forall>(s, k) \<in> set keys. key_id k = key_id key \<longrightarrow> k = key"
  shows "decrypt_gateway_envelope C U (Inr keys) (prefix @ token @ ws) platform chat thread parent scope hosts =
    Inr (Some (text, key_id key, (message_identity (key_id key) (b64u_encode rid), nonce_identity (key_id key) nonce)))"
proof -
  obtain ct where ct: "wire = v3_wire (key_id key) (b64u_encode rid) nonce ct"
      "decrypt_message_v3 C U key wire (str_lit ''command'') (uc_lower U platform) chat thread = Inr text" "16 \<le> length ct"
    by (rule v3_round_trip [OF assms(1), of key]) (use assms(2) in \<open>auto simp: v3_wire_def simp del: py_join.simps\<close>)
  have l: "length rid = 16" "length nonce = 12" using assms(1) by (simp_all add: v3_writable_def)
  have tok: "token = v3_wire (key_id key) (b64u_encode rid) nonce ct \<or> token = str_lit '':lock:'' @ tl (v3_wire (key_id key) (b64u_encode rid) nonce ct)"
    using assms(3) ct(1) by simp
  note tw = takeWhile_word [OF wire_is_word [OF tok] assms(4)]
  have "enc_claim (prefix @ token @ ws)"
  proof -
    obtain r where r: "wire = LOCK # str_lit ''ENC'' @ str_lit '':'' @ r"
      by (simp add: ct(1) v3_wire_def ENC_PREFIX_V3_def str_lit_def)
    have "claim_from None ((prefix @ str_lit '':lock'') @ 58 # str_lit ''ENC:'' @ r @ ws)"
      by (rule claim_from_append) (simp add: claim_here_def word_char_def upper_alnum_def is_digit_def starts_with_list_def str_lit_def)
    then show ?thesis using lock_claims [of prefix] assms(3) r by (auto simp: enc_claim_def str_lit_def)
  qed
  moreover have "prefix @ token @ ws \<noteq> []" using wire_is_word [OF tok] by (simp add: is_word_def)
  moreover have "context_channel_key U (Inr keys) (key_id key) (uc_lower U platform) chat parent scope hosts = Inr key"
  proof -
    let ?b = "filter (\<lambda>(stored_id, raw_key). channel_key_matches U stored_id (uc_lower U platform) chat scope hosts) keys"
    have "\<exists>x \<in> set ?b. case x of (s, k) \<Rightarrow> key_id k = key_id key" using assms(8,9) by (intro bexI [of _ "(stored, key)"]) auto
    from find_append_Some [OF this] obtain s k where f: "(s, k) \<in> set ?b" "key_id k = key_id key"
      "\<And>ys. find (\<lambda>(stored_id, raw_key). key_id raw_key = key_id key) (?b @ ys) = Some (s, k)"
      by (auto simp: case_prod_unfold)
    then have "k = key" using assms(10) by auto
    then show ?thesis using f(3) by (simp add: context_channel_key_def Let_def)
  qed
  ultimately show ?thesis
    using assms(5,6) ct(2) tw canonical_of_wire [OF l ct(3) tok] wire_is_word [OF tok] assms(4)
    by (simp add: decrypt_gateway_envelope_def decrypt_gateway_claim_def assms(7) strip_Nil_iff is_word_def flip: ct(1))
qed

text \<open>C14: The extension and the gateway speak the same format. A command for a conversation encrypts under a key the store binds to it;
  behind any prefix the platform's grammar discards, with the lock as a character or as Slack's \<open>:lock:\<close>, and before any white
  space, the token is released as exactly the text that was encrypted, with the key id and the replay claim of its message id and
  nonce.\<close>

theorem gateway_reads_extension:
  assumes "v3_writable C U key (str_lit ''command'') (uc_lower U platform) chat thread rid 0 1 nonce text" "platform \<noteq> []" "chat \<noteq> []"
    "(stored, key) \<in> set keys" "channel_key_matches U stored (uc_lower U platform) chat scope hosts"
    "\<forall>(s, k) \<in> set keys. key_id k = key_id key \<longrightarrow> k = key"
  shows "\<exists>wire. encrypt_message_v3 C U key text (key_id key) (str_lit ''command'') (uc_lower U platform) chat thread (b64u_encode rid) 0 1 nonce = Inr wire \<and>
    (\<forall>token prefix ws. token \<in> {wire, str_lit '':lock:'' @ tl wire} \<and> list_all is_str_space ws \<and>
       after_gateway_prefix U (prefix @ token @ ws) (uc_lower U platform) = token @ ws \<longrightarrow>
       decrypt_gateway_envelope C U (Inr keys) (prefix @ token @ ws) platform chat thread parent scope hosts =
         Inr (Some (text, key_id key, (message_identity (key_id key) (b64u_encode rid), nonce_identity (key_id key) nonce))))"
proof -
  obtain wire where w: "encrypt_message_v3 C U key text (key_id key) (str_lit ''command'') (uc_lower U platform) chat thread (b64u_encode rid) 0 1 nonce = Inr wire"
    by (rule v3_round_trip [OF assms(1), of key])
  show ?thesis
    using w gateway_reads_token [OF assms(1) w _ _ assms(2,3) _ assms(4,5,6)] by (intro exI [of _ wire]) auto
qed

definition demo_e2e :: e2e_crypto where
  "demo_e2e = crypto.extend demo_crypto
     \<lparr>hkdf_salted = (\<lambda>s i m. fit 32 (s @ i @ m)), x25519_public = (\<lambda>a. fit 32 a), x25519_exchange = (\<lambda>a b. Inr (map2 xor (fit 32 a) b))\<rparr>"

lemma demo_e2e_ok: "gcm_ok demo_e2e"
  using crypto_okD(1) [OF demo_crypto_ok] by (simp add: gcm_ok_def demo_e2e_def crypto.defs)

definition demo_channel_key :: bytes where "demo_channel_key = replicate 32 7"
definition demo_rid :: bytes where "demo_rid = replicate 16 3"
definition demo_nonce :: bytes where "demo_nonce = replicate 12 5"

lemma demo_writable_text:
  assumes "direction \<in> {str_lit ''command'', str_lit ''reply''}" "is_ascii text" "length text \<le> 1000"
  shows "v3_writable demo_e2e demo_case demo_channel_key direction (str_lit ''slack'') (str_lit ''C1'') None demo_rid 0 1 demo_nonce text"
proof -
  have a: "is_ascii (str_lit ''slack'')" "is_ascii (str_lit ''C1'')" "is_ascii []"
    by (simp_all add: is_ascii_def str_lit_def)
  have l: "uc_lower demo_case (str_lit ''slack'') = str_lit ''slack''"
    by (simp add: demo_case_def ucd.defs ascii_lower_def str_lit_def)
  have "\<exists>a. v3_aad demo_case direction (str_lit ''slack'') (str_lit ''C1'') None (b64u_encode demo_rid) 0 1 = Inr a \<and> length a \<le> gcm_limit"
    by (rule v3_aad_total [OF assms(1) _ _ _ _ _ _ utf8_encode_ascii [OF a(2)]])
      (use a in \<open>simp_all only: l utf8_encode_ascii thread_text_def option.case\<close>, simp_all add: ascii_bytes_def str_lit_def demo_rid_def)
  moreover have "utf8_encode text = Inr (ascii_bytes text)" by (rule utf8_encode_ascii [OF assms(2)])
  ultimately show ?thesis
    using demo_e2e_ok assms(3) by (simp add: v3_writable_def demo_channel_key_def demo_rid_def demo_nonce_def) (simp add: ascii_bytes_def gcm_limit_def)
qed

lemma demo_writable:
  "v3_writable demo_e2e demo_case demo_channel_key (str_lit ''command'') (str_lit ''slack'') (str_lit ''C1'') None demo_rid 0 1 demo_nonce (str_lit ''hi'')"
  by (rule demo_writable_text) (simp_all add: is_ascii_def str_lit_def)

lemma demo_prefix: "after_gateway_prefix demo_case (str_lit ''<@U1> '' @ LOCK # r) (str_lit ''slack'') = LOCK # r"
  by (simp add: after_gateway_prefix_def MENTION_PREFIXES_def slack_mention_def lit_def strip_prefix_def starts_with_list_def str_lit_def run1_def
      upper_alnum_def is_digit_def white_def skip_mentions.simps [of slack_mention] LOCK_def is_str_space_def)

definition demo_keys :: channel_keys where "demo_keys = [(str_lit ''slack:T1:C1'', demo_channel_key)]"

lemma demo_matches: "channel_key_matches demo_case (str_lit ''slack:T1:C1'') (uc_lower demo_case (str_lit ''Slack'')) (str_lit ''C1'') (Some (str_lit ''T1'')) None"
  by (simp add: channel_key_matches_def demo_case_def ucd.defs ascii_lower_def str_lit_def)

lemma demo_lower: "uc_lower demo_case (str_lit ''Slack'') = str_lit ''slack''"
  by (simp add: demo_case_def ucd.defs ascii_lower_def str_lit_def)

text \<open>The message \<open><@U1> \<close> and a token.\<close>

lemma gateway_reads_extension_witness:
  "\<exists>wire. decrypt_gateway_envelope demo_e2e demo_case (Inr demo_keys) (str_lit ''<@U1> '' @ wire @ []) (str_lit ''Slack'') (str_lit ''C1'') None None
     (Some (str_lit ''T1'')) None =
   Inr (Some (str_lit ''hi'', key_id demo_channel_key, (message_identity (key_id demo_channel_key) (b64u_encode demo_rid), nonce_identity (key_id demo_channel_key) demo_nonce)))"
proof -
  obtain wire where w: "encrypt_message_v3 demo_e2e demo_case demo_channel_key (str_lit ''hi'') (key_id demo_channel_key) (str_lit ''command'') (str_lit ''slack'')
      (str_lit ''C1'') None (b64u_encode demo_rid) 0 1 demo_nonce = Inr wire"
    "\<And>token prefix ws. token \<in> {wire, str_lit '':lock:'' @ tl wire} \<and> list_all is_str_space ws \<and>
       after_gateway_prefix demo_case (prefix @ token @ ws) (str_lit ''slack'') = token @ ws \<Longrightarrow>
       decrypt_gateway_envelope demo_e2e demo_case (Inr demo_keys) (prefix @ token @ ws) (str_lit ''Slack'') (str_lit ''C1'') None None (Some (str_lit ''T1'')) None =
         Inr (Some (str_lit ''hi'', key_id demo_channel_key, (message_identity (key_id demo_channel_key) (b64u_encode demo_rid), nonce_identity (key_id demo_channel_key) demo_nonce)))"
    using gateway_reads_extension [of demo_e2e demo_case demo_channel_key "str_lit ''Slack''" "str_lit ''C1''" None demo_rid demo_nonce "str_lit ''hi''"
        "str_lit ''slack:T1:C1''" demo_keys "Some (str_lit ''T1'')" None None] demo_writable demo_matches
    unfolding demo_lower by (force simp: demo_keys_def str_lit_def)
  obtain r where r: "wire = LOCK # r"
    by (rule v3_round_trip [OF demo_writable, of demo_channel_key]) (use w(1) in \<open>auto simp: ENC_PREFIX_V3_def\<close>)
  show ?thesis
    using w(2) [of wire "[]" "str_lit ''<@U1> ''"] demo_prefix [of r] r by (intro exI [of _ wire]) simp
qed

lemma demo_accepted:
  "\<exists>wire. decrypt_gateway_envelope demo_e2e demo_case (Inr demo_keys) (str_lit ''<@U1> '' @ wire @ []) (str_lit ''Slack'') (str_lit ''C1'') None None
     (Some (str_lit ''T1'')) None =
   Inr (Some (str_lit ''hi'', key_id demo_channel_key, (message_identity (key_id demo_channel_key) (b64u_encode demo_rid), nonce_identity (key_id demo_channel_key) demo_nonce)))"
proof -
  obtain wire where w: "encrypt_message_v3 demo_e2e demo_case demo_channel_key (str_lit ''hi'') (key_id demo_channel_key) (str_lit ''command'') (str_lit ''slack'')
      (str_lit ''C1'') None (b64u_encode demo_rid) 0 1 demo_nonce = Inr wire" and r: "\<exists>r. wire = LOCK # r"
    by (rule v3_round_trip [OF demo_writable, of demo_channel_key]) (auto simp: ENC_PREFIX_V3_def)
  have "after_gateway_prefix demo_case (str_lit ''<@U1> '' @ wire @ []) (str_lit ''slack'') = wire @ []"
    using r demo_prefix by auto
  then show ?thesis
    using gateway_reads_token [of demo_e2e demo_case demo_channel_key "str_lit ''Slack''" "str_lit ''C1''" None demo_rid demo_nonce "str_lit ''hi''" wire wire "[]"
        "str_lit ''<@U1> ''" "str_lit ''slack:T1:C1''" demo_keys "Some (str_lit ''T1'')" None None] demo_writable demo_matches w
    unfolding demo_lower by (intro exI [of _ wire]) (auto simp: demo_keys_def str_lit_def)
qed

lemma gateway_envelope_authentic_witness:
  "\<exists>stored key nonce ct aad p. (stored, key) \<in> set demo_keys \<and> gcm_open demo_e2e key nonce ct aad = Inr p \<and> utf8_decode p = Inr (str_lit ''hi'')"
proof -
  obtain wire where w: "decrypt_gateway_envelope demo_e2e demo_case (Inr demo_keys) (str_lit ''<@U1> '' @ wire @ []) (str_lit ''Slack'') (str_lit ''C1'') None None
     (Some (str_lit ''T1'')) None =
   Inr (Some (str_lit ''hi'', key_id demo_channel_key, (message_identity (key_id demo_channel_key) (b64u_encode demo_rid), nonce_identity (key_id demo_channel_key) demo_nonce)))"
    using demo_accepted by blast
  show ?thesis using gateway_envelope_authentic [OF w] by fastforce
qed

lemma gateway_fail_closed_witness:
  "\<exists>e. decrypt_gateway_envelope demo_e2e demo_case (Inr demo_keys) (LOCK # str_lit ''ENC:v1:AAAA:AAAA'') (str_lit ''Slack'') (str_lit ''C1'') None None None None = Inl e"
proof -
  let ?t = "LOCK # str_lit ''ENC:v1:AAAA:AAAA''"
  have "enc_claim ?t" using lock_claims [of "[]" "str_lit '':v1:AAAA:AAAA''"] by (simp add: str_lit_def)
  moreover have "after_gateway_prefix demo_case ?t (str_lit ''slack'') = ?t"
    by (simp add: after_gateway_prefix_def MENTION_PREFIXES_def slack_mention_def lit_def strip_prefix_def starts_with_list_def str_lit_def run1_def
      white_def LOCK_def is_str_space_def)
  moreover have "dropWhile is_str_space ?t = ?t" "starts_with_list ENC_PREFIX_V1 ?t"
    by (simp_all add: LOCK_def is_str_space_def ENC_PREFIX_V1_def starts_with_list_def str_lit_def)
  ultimately show ?thesis
    using gateway_fail_closed [of demo_e2e demo_case "Inr demo_keys" ?t "str_lit ''Slack''" "str_lit ''C1''" None None None None]
    unfolding demo_lower Let_def by presburger
qed

end
