(* ===== verification/E2E_Reply.thy ===== *)
theory E2E_Reply
  imports E2E_Gateway
begin

text \<open>
  The pure part of the outbound half of \<open>extension/e2e.py\<close>: cutting a reply into pieces whose encrypted
  wires fit a platform's message limit, and encrypting them. The random message id and nonce of the
  \<open>i\<close>-th piece are an argument, \<open>draws i\<close>.
\<close>

section \<open>The budget\<close>

definition unpadded_b64_length :: "int \<Rightarrow> int" where
  "unpadded_b64_length raw_length = (4 * raw_length + 2) div 3"

function budget_search :: "int \<Rightarrow> int \<Rightarrow> int \<Rightarrow> int \<Rightarrow> int" where
  "budget_search fixed max_len low high =
     (if low < high then
        (let candidate = (low + high + 1) div 2
         in if fixed + unpadded_b64_length (candidate + 16) \<le> max_len then budget_search fixed max_len candidate high
            else budget_search fixed max_len low (candidate - 1))
      else low)"
  by pat_completeness auto
termination by (relation "measure (\<lambda>(f, m, low, high). nat (high - low))") auto

declare budget_search.simps [simp del]

definition v3_fixed :: "py_str \<Rightarrow> int" where
  "v3_fixed prefix =
     int (length prefix) + (if prefix \<noteq> [] then 1 else 0) + int (length ENC_PREFIX_V3) + 8 + 1 + 22 + 1 + 1 + 1 + 1 + 1 + 16 + 1"

definition v3_plaintext_budget :: "int \<Rightarrow> py_str \<Rightarrow> int" where
  "v3_plaintext_budget max_len prefix =
     (if max_len < v3_fixed prefix + unpadded_b64_length 16 then -1
      else budget_search (v3_fixed prefix) max_len 0 max_len)"

section \<open>The pieces\<close>

fun split_loop :: "int \<Rightarrow> py_str \<Rightarrow> py_str \<Rightarrow> int \<Rightarrow> int \<Rightarrow> py_str list result" where
  "split_loop later_budget [] current used budget = Inr (if current \<noteq> [] then [current] else [])"
| "split_loop later_budget (character # body) current used budget =
     r_bind (utf8_encode [character]) (\<lambda>b.
       let size = int (length b)
       in if budget < used + size then
            (if later_budget < size then Inl ValueError
             else r_bind (split_loop later_budget body [character] size later_budget) (\<lambda>pieces. Inr (current # pieces)))
          else if budget < size then Inl ValueError
          else split_loop later_budget body (current @ [character]) (used + size) budget)"

definition split_utf8 :: "py_str \<Rightarrow> int \<Rightarrow> int \<Rightarrow> py_str list result" where
  "split_utf8 body first_budget later_budget =
     (if first_budget < 0 \<or> later_budget < 0 then Inl ValueError
      else if body = [] then Inr [[]]
      else split_loop later_budget body [] 0 first_budget)"

section \<open>The plaintext prefix\<close>

text \<open>What follows \<open>(<!(?:subteam)\^[A-Z0-9]+|<#[A-Z0-9]+)\|[^>]*(>)\<close> at the start of \<open>s\<close>, with the first group.\<close>

definition slack_label :: "py_str \<Rightarrow> (py_str \<times> py_str) option" where
  "slack_label s =
     Option.bind (Option.bind (first_of [lit ''<!subteam^'' s, lit ''<#'' s]) (run1 upper_alnum)) (\<lambda>bar.
     Option.bind (Option.bind (lit ''|'' bar) (\<lambda>label. lit ''>'' (dropWhile (\<lambda>c. c \<noteq> 62) label))) (\<lambda>rest.
       Some (take (length s - length bar) s, rest)))"

function SLACK_FREE_TEXT_LABEL_sub :: "py_str \<Rightarrow> py_str" where
  "SLACK_FREE_TEXT_LABEL_sub s =
     (case s of [] \<Rightarrow> []
      | c # r \<Rightarrow> (case slack_label s of
            Some (group1, rest) \<Rightarrow> if length rest < length s then group1 @ 62 # SLACK_FREE_TEXT_LABEL_sub rest else s
          | None \<Rightarrow> c # SLACK_FREE_TEXT_LABEL_sub r))"
  by pat_completeness auto
termination by (relation "measure length") auto

declare SLACK_FREE_TEXT_LABEL_sub.simps [simp del]

definition teams_name :: "py_str \<Rightarrow> py_str option" where
  "teams_name s = Option.bind (lit_ignorecase ''<at>'' s) (\<lambda>r. lit_ignorecase ''</at>'' (dropWhile (\<lambda>c. c \<noteq> 60) r))"

function TEAMS_FREE_TEXT_MENTION_sub :: "py_str \<Rightarrow> py_str" where
  "TEAMS_FREE_TEXT_MENTION_sub s =
     (case s of [] \<Rightarrow> []
      | c # r \<Rightarrow> (case teams_name s of
            Some rest \<Rightarrow> if length rest < length s then TEAMS_FREE_TEXT_MENTION_sub rest else s
          | None \<Rightarrow> c # TEAMS_FREE_TEXT_MENTION_sub r))"
  by pat_completeness auto
termination by (relation "measure length") auto

declare TEAMS_FREE_TEXT_MENTION_sub.simps [simp del]

text \<open>The prefix that stays readable and the body that does not.\<close>

definition reply_prefix :: "(py_str \<Rightarrow> py_str option) option \<Rightarrow> py_str \<Rightarrow> py_str \<times> py_str" where
  "reply_prefix mention_prefix_re content =
     (case Option.bind mention_prefix_re (\<lambda>f. if f content = None then None else Some (skip_mentions f content)) of
        None \<Rightarrow> ([], content)
      | Some body \<Rightarrow>
          (let prefix = strip is_str_space (take (length content - length body) content)
           in (strip is_str_space (TEAMS_FREE_TEXT_MENTION_sub (SLACK_FREE_TEXT_LABEL_sub prefix)), body)))"

section \<open>The reply\<close>

fun encrypt_pieces ::
  "('x) e2e_crypto_scheme \<Rightarrow> ('u) ucd_case_scheme \<Rightarrow> bytes \<Rightarrow> int \<Rightarrow> py_str \<Rightarrow> py_str \<Rightarrow> py_str \<Rightarrow> py_str option \<Rightarrow>
   (nat \<Rightarrow> bytes \<times> bytes) \<Rightarrow> nat \<Rightarrow> py_str list \<Rightarrow> py_str list result" where
  "encrypt_pieces C U raw_key max_len prefix platform chat_id thread_root draws i [] = Inr []"
| "encrypt_pieces C U raw_key max_len prefix platform chat_id thread_root draws i (piece # pieces) =
     r_bind (encrypt_message_v3 C U raw_key piece (key_id raw_key) (str_lit ''reply'') platform chat_id thread_root
               (b64u_encode (fst (draws i))) 0 1 (snd (draws i))) (\<lambda>enc.
       let wire = (if i = 0 \<and> prefix \<noteq> [] then prefix @ 32 # enc else enc)
       in if max_len < int (length wire) then Inl ValueError
          else r_bind (encrypt_pieces C U raw_key max_len prefix platform chat_id thread_root draws (Suc i) pieces) (\<lambda>out.
                 Inr (wire # out)))"

definition encrypt_reply ::
  "('x) e2e_crypto_scheme \<Rightarrow> ('u) ucd_case_scheme \<Rightarrow> bytes \<Rightarrow> py_str \<Rightarrow> int \<Rightarrow> (py_str \<Rightarrow> py_str option) option \<Rightarrow>
   py_str \<Rightarrow> py_str \<Rightarrow> py_str option \<Rightarrow> (nat \<Rightarrow> bytes \<times> bytes) \<Rightarrow> py_str list result" where
  "encrypt_reply C U raw_key content max_len mention_prefix_re platform chat_id thread_root draws =
     (let (prefix, body) = reply_prefix mention_prefix_re content
      in r_bind (split_utf8 body (v3_plaintext_budget max_len prefix) (v3_plaintext_budget max_len [])) (\<lambda>pieces.
         encrypt_pieces C U raw_key max_len prefix platform chat_id thread_root draws 0 pieces))"

section \<open>The search finds the greatest size that fits\<close>

lemma unpadded_mono: "m \<le> n \<Longrightarrow> unpadded_b64_length m \<le> unpadded_b64_length n"
  by (simp add: unpadded_b64_length_def zdiv_mono1)

lemma budget_search_fits:
  "low \<le> high \<Longrightarrow> fixed + unpadded_b64_length (low + 16) \<le> max_len \<Longrightarrow>
   (\<And>n. high < n \<Longrightarrow> max_len < fixed + unpadded_b64_length (n + 16)) \<Longrightarrow>
   low \<le> budget_search fixed max_len low high \<and>
   (n \<le> budget_search fixed max_len low high \<longleftrightarrow> fixed + unpadded_b64_length (n + 16) \<le> max_len)"
proof (induction fixed max_len low high rule: budget_search.induct)
  case (1 fixed max_len low high)
  let ?c = "(low + high + 1) div 2"
  show ?case
  proof (cases "low < high")
    case False
    then have "budget_search fixed max_len low high = low"
      using budget_search.simps [of fixed max_len low high] by simp
    moreover have "low = high" using False "1.prems"(1) by simp
    moreover have "n \<le> low \<Longrightarrow> fixed + unpadded_b64_length (n + 16) \<le> max_len"
      using unpadded_mono [of "n + 16" "low + 16"] "1.prems"(2) by simp
    ultimately show ?thesis
      using "1.prems"(3) [of n] by (metis not_le order_refl)
  next
    case True
    then have c: "low \<le> ?c" "?c \<le> high" "low \<le> ?c - 1" by linarith+
    show ?thesis
    proof (cases "fixed + unpadded_b64_length (?c + 16) \<le> max_len")
      case fits: True
      have "budget_search fixed max_len low high = budget_search fixed max_len ?c high"
        using True fits by (simp add: budget_search.simps [of fixed max_len low high] Let_def)
      then show ?thesis using "1.IH"(1) [OF True refl fits _ fits "1.prems"(3)] c by simp
    next
      case False
      have "max_len < fixed + unpadded_b64_length (m + 16)" if "?c - 1 < m" for m
        using unpadded_mono [of "?c + 16" "m + 16"] False that by simp
      moreover have "budget_search fixed max_len low high = budget_search fixed max_len low (?c - 1)"
        using True False by (simp add: budget_search.simps [of fixed max_len low high] Let_def)
      ultimately show ?thesis using "1.IH"(2) [OF True refl False _ "1.prems"(2)] c by simp
    qed
  qed
qed

lemma v3_fixed_pos: "0 < v3_fixed prefix"
  by (simp add: v3_fixed_def)

lemma budget_fits_iff:
  "(int n \<le> v3_plaintext_budget max_len prefix \<longleftrightarrow> v3_fixed prefix + unpadded_b64_length (int n + 16) \<le> max_len) \<and>
   - 1 \<le> v3_plaintext_budget max_len prefix"
proof (cases "max_len < v3_fixed prefix + unpadded_b64_length 16")
  case True
  then show ?thesis using unpadded_mono [of 16 "int n + 16"] by (simp add: v3_plaintext_budget_def)
next
  case False
  have l: "x \<le> unpadded_b64_length x" if "0 \<le> x" for x
    using that unfolding unpadded_b64_length_def by presburger
  have m: "0 \<le> max_len" using False v3_fixed_pos [of prefix] by (simp add: unpadded_b64_length_def)
  have "max_len < v3_fixed prefix + unpadded_b64_length (m + 16)" if "max_len < m" for m
    using that m l [of "m + 16"] v3_fixed_pos [of prefix] by linarith
  moreover note m
  ultimately show ?thesis
    using False budget_search_fits [of 0 max_len "v3_fixed prefix" max_len "int n"] by (simp add: v3_plaintext_budget_def)
qed



section \<open>Pieces lose nothing\<close>

definition utf8_size :: "py_str \<Rightarrow> int" where
  "utf8_size s = int (length (concat (map utf8_char s)))"

lemma utf8_size_simps [simp]: "utf8_size [] = 0" "utf8_size (s @ t) = utf8_size s + utf8_size t"
  by (simp_all add: utf8_size_def)

lemma utf8_size_char: "1 \<le> utf8_size [c]" "utf8_size [c] \<le> 4"
  by (simp_all add: utf8_size_def utf8_char_def)

lemma utf8_encode_size: "list_all is_scalar s \<Longrightarrow> \<exists>b. utf8_encode s = Inr b \<and> int (length b) = utf8_size s"
  by (simp add: utf8_encode_def utf8_size_def)

lemma split_loop_keeps:
  "list_all is_scalar body \<Longrightarrow> 4 \<le> later \<Longrightarrow> utf8_size current \<le> budget \<Longrightarrow> current \<noteq> [] \<or> body \<noteq> [] \<Longrightarrow>
   \<exists>piece pieces. split_loop later body current (utf8_size current) budget = Inr (piece # pieces) \<and> concat (piece # pieces) = current @ body \<and>
     utf8_size piece \<le> budget \<and> (\<forall>p \<in> set pieces. utf8_size p \<le> later)"
proof (induction body arbitrary: current budget)
  case (Cons c body)
  have c: "\<exists>b. utf8_encode [c] = Inr b \<and> int (length b) = utf8_size [c]" "1 \<le> utf8_size [c]" "utf8_size [c] \<le> 4"
    using Cons.prems(1) utf8_encode_size [of "[c]"] utf8_size_char by simp_all
  show ?case
  proof (cases "budget < utf8_size current + utf8_size [c]")
    case True
    then show ?thesis using Cons.IH [of "[c]" later] Cons.prems c by (auto simp: Let_def)
  next
    case False
    have "0 \<le> utf8_size current" by (simp add: utf8_size_def)
    then show ?thesis
      using False Cons.IH [of "current @ [c]" budget] Cons.prems c by (auto simp: Let_def)
  qed
qed auto

lemma split_utf8_keeps:
  assumes "list_all is_scalar body" "0 \<le> first" "4 \<le> later"
  shows "\<exists>piece pieces. split_utf8 body first later = Inr (piece # pieces) \<and> concat (piece # pieces) = body \<and>
    utf8_size piece \<le> first \<and> (\<forall>p \<in> set pieces. utf8_size p \<le> later)"
  using assms split_loop_keeps [of body later "[]" first] by (auto simp: split_utf8_def)

section \<open>A reply arrives whole\<close>

lemma int_b64u_length: "int (length (b64u_encode b)) = unpadded_b64_length (int (length b))"
  by (simp add: length_b64u_encode unpadded_b64_length_def zdiv_int)

lemma dec_digit: "dec 0 = [48]" "dec (Suc 0) = [49]"
  by (simp_all add: dec.simps)

lemma reply_wire:
  assumes "v3_writable C U key direction platform chat thread rid 0 1 nonce []" "list_all is_scalar text" "utf8_size text + 16 \<le> int gcm_limit"
  shows "\<exists>enc. encrypt_message_v3 C U key text (key_id key) direction platform chat thread (b64u_encode rid) 0 1 nonce = Inr enc \<and>
    decrypt_message_v3 C U key enc direction platform chat thread = Inr text \<and>
    int (length enc) = v3_fixed [] + unpadded_b64_length (utf8_size text + 16)"
proof -
  obtain b where b: "utf8_encode text = Inr b" "int (length b) = utf8_size text" using utf8_encode_size [OF assms(2)] by blast
  have "v3_writable C U key direction platform chat thread rid 0 1 nonce text"
    using assms(1,3) b by (simp add: v3_writable_def)
  then obtain ct where ct:
    "encrypt_message_v3 C U key text (key_id key) direction platform chat thread (b64u_encode rid) 0 1 nonce =
       Inr (ENC_PREFIX_V3 @ py_join [58] [key_id key, b64u_encode rid, dec (nat 0), dec (nat 1), b64u_encode nonce, b64u_encode ct])"
    "decrypt_message_v3 C U key (ENC_PREFIX_V3 @ py_join [58] [key_id key, b64u_encode rid, dec (nat 0), dec (nat 1), b64u_encode nonce, b64u_encode ct])
       direction platform chat thread = Inr text"
    "\<exists>p. utf8_encode text = Inr p \<and> length ct = length p + 16"
    by (rule v3_round_trip)
  have "int (length (b64u_encode ct)) = unpadded_b64_length (utf8_size text + 16)" using ct(3) b by (simp add: int_b64u_length)
  moreover have "length rid = 16" "length nonce = 12" using assms(1) by (simp_all add: v3_writable_def)
  ultimately have "int (length (ENC_PREFIX_V3 @ py_join [58] [key_id key, b64u_encode rid, dec (nat 0), dec (nat 1), b64u_encode nonce, b64u_encode ct])) =
      v3_fixed [] + unpadded_b64_length (utf8_size text + 16)"
    by (simp add: v3_fixed_def key_id_facts dec_digit length_b64u_encode [of rid] length_b64u_encode [of nonce])
  then show ?thesis using ct(1,2) by blast
qed

lemma v3_fixed_prefix: "v3_fixed prefix = v3_fixed [] + int (length prefix) + (if prefix \<noteq> [] then 1 else 0)"
  by (simp add: v3_fixed_def)

lemma fits_budget: "0 \<le> n \<Longrightarrow> n \<le> v3_plaintext_budget max_len prefix \<Longrightarrow> v3_fixed prefix + unpadded_b64_length (n + 16) \<le> max_len"
  using budget_fits_iff [of "nat n" max_len prefix] by simp

lemma utf8_size_nonneg: "0 \<le> utf8_size s"
  by (simp add: utf8_size_def)

lemma size_limit: "n \<le> v3_plaintext_budget max_len prefix \<Longrightarrow> 0 \<le> n \<Longrightarrow> max_len \<le> 2 ^ 30 \<Longrightarrow> n + 16 \<le> int gcm_limit"
proof -
  assume a: "n \<le> v3_plaintext_budget max_len prefix" "0 \<le> n" "max_len \<le> 2 ^ 30"
  then have "v3_fixed prefix + unpadded_b64_length (n + 16) \<le> max_len" using fits_budget by simp
  moreover have "n + 16 \<le> unpadded_b64_length (n + 16)" using a(2) unfolding unpadded_b64_length_def by presburger
  ultimately show ?thesis using v3_fixed_pos [of prefix] a(3) by (simp add: gcm_limit_def)
qed

text \<open>What the \<open>i\<close>-th wire carries.\<close>

definition carries ::
  "('x) e2e_crypto_scheme \<Rightarrow> ('u) ucd_case_scheme \<Rightarrow> bytes \<Rightarrow> py_str \<Rightarrow> py_str \<Rightarrow> py_str \<Rightarrow> py_str option \<Rightarrow> py_str \<Rightarrow> py_str \<Rightarrow> bool" where
  "carries C U key prefix platform chat thread wire piece \<longleftrightarrow>
     (\<exists>enc. wire = (if prefix \<noteq> [] then prefix @ 32 # enc else enc) \<and>
        decrypt_message_v3 C U key enc (str_lit ''reply'') platform chat thread = Inr piece)"

lemma encrypt_pieces_deliver:
  assumes "\<And>i. v3_writable C U key (str_lit ''reply'') platform chat thread (fst (draws i)) 0 1 (snd (draws i)) []" "max_len \<le> 2 ^ 30"
  shows "list_all is_scalar (concat pieces) \<Longrightarrow> \<forall>p \<in> set pieces. utf8_size p \<le> v3_plaintext_budget max_len [] \<Longrightarrow> 0 < i \<Longrightarrow>
    \<exists>wires. encrypt_pieces C U key max_len prefix platform chat thread draws i pieces = Inr wires \<and>
      list_all2 (\<lambda>w p. int (length w) \<le> max_len \<and> carries C U key [] platform chat thread w p) wires pieces"
proof (induction pieces arbitrary: i)
  case (Cons piece pieces)
  have s: "utf8_size piece \<le> v3_plaintext_budget max_len []" using Cons.prems by simp
  obtain enc where e: "encrypt_message_v3 C U key piece (key_id key) (str_lit ''reply'') platform chat thread (b64u_encode (fst (draws i))) 0 1 (snd (draws i)) = Inr enc"
      "decrypt_message_v3 C U key enc (str_lit ''reply'') platform chat thread = Inr piece"
      "int (length enc) = v3_fixed [] + unpadded_b64_length (utf8_size piece + 16)"
    using reply_wire [OF assms(1) _ size_limit [OF s utf8_size_nonneg assms(2)]] Cons.prems(1) by auto
  have "int (length enc) \<le> max_len" using fits_budget [OF utf8_size_nonneg s] e(3) by simp
  then show ?case using Cons.IH [of "Suc i"] Cons.prems e by (auto simp: Let_def carries_def)
qed simp

lemma encrypt_reply_whole:
  assumes "\<forall>i. v3_writable C U key (str_lit ''reply'') platform chat thread (fst (draws i)) 0 1 (snd (draws i)) []"
    "reply_prefix mention_re content = (prefix, body)" "list_all is_scalar body"
    "88 \<le> max_len" "84 + int (length prefix) \<le> max_len" "max_len \<le> 2 ^ 30"
  shows "\<exists>wire wires piece pieces. encrypt_reply C U key content max_len mention_re platform chat thread draws = Inr (wire # wires) \<and>
    concat (piece # pieces) = body \<and> int (length wire) \<le> max_len \<and> carries C U key prefix platform chat thread wire piece \<and>
    list_all2 (\<lambda>w p. int (length w) \<le> max_len \<and> carries C U key [] platform chat thread w p) wires pieces"
proof -
  have first: "0 \<le> v3_plaintext_budget max_len prefix"
    using budget_fits_iff [of 0 max_len prefix] assms(4,5) v3_fixed_prefix [of prefix]
    by (simp add: v3_fixed_def unpadded_b64_length_def ENC_PREFIX_V3_def str_lit_def split: if_splits)
  have later: "4 \<le> v3_plaintext_budget max_len []"
    using budget_fits_iff [of 4 max_len "[]"] assms(4) by (simp add: v3_fixed_def unpadded_b64_length_def ENC_PREFIX_V3_def str_lit_def)
  obtain piece pieces where s: "split_utf8 body (v3_plaintext_budget max_len prefix) (v3_plaintext_budget max_len []) = Inr (piece # pieces)"
      "concat (piece # pieces) = body" "utf8_size piece \<le> v3_plaintext_budget max_len prefix"
      "\<forall>p \<in> set pieces. utf8_size p \<le> v3_plaintext_budget max_len []"
    using split_utf8_keeps [OF assms(3) first later] by blast
  have w: "v3_writable C U key (str_lit ''reply'') platform chat thread (fst (draws i)) 0 1 (snd (draws i)) []" for i
    using assms(1) by blast
  have scalar: "list_all is_scalar piece" "list_all is_scalar (concat pieces)" using assms(3) s(2) by auto
  obtain enc where e: "encrypt_message_v3 C U key piece (key_id key) (str_lit ''reply'') platform chat thread (b64u_encode (fst (draws 0))) 0 1 (snd (draws 0)) = Inr enc"
      "decrypt_message_v3 C U key enc (str_lit ''reply'') platform chat thread = Inr piece"
      "int (length enc) = v3_fixed [] + unpadded_b64_length (utf8_size piece + 16)"
    using reply_wire [OF w scalar(1) size_limit [OF s(3) utf8_size_nonneg assms(6)]] by auto
  obtain wires where ws: "encrypt_pieces C U key max_len prefix platform chat thread draws (Suc 0) pieces = Inr wires"
      "list_all2 (\<lambda>w p. int (length w) \<le> max_len \<and> carries C U key [] platform chat thread w p) wires pieces"
    using encrypt_pieces_deliver [of C U key platform chat thread draws max_len pieces "Suc 0" prefix, OF w assms(6) scalar(2) s(4)] by blast
  let ?wire = "if prefix \<noteq> [] then prefix @ 32 # enc else enc"
  have l: "int (length ?wire) \<le> max_len"
    using fits_budget [OF utf8_size_nonneg s(3)] e(3) v3_fixed_prefix [of prefix] by (auto split: if_splits)
  have "encrypt_reply C U key content max_len mention_re platform chat thread draws = Inr (?wire # wires)"
    using assms(2) s(1) e(1) ws(1) l by (simp add: encrypt_reply_def Let_def)
  moreover have "carries C U key prefix platform chat thread ?wire piece" using e(2) by (auto simp: carries_def)
  ultimately show ?thesis using s(2) l ws(2) by blast
qed


text \<open>Whatever is returned is within the limit and ends in a token for the reply context.\<close>

definition is_reply_wire ::
  "('x) e2e_crypto_scheme \<Rightarrow> ('u) ucd_case_scheme \<Rightarrow> bytes \<Rightarrow> py_str \<Rightarrow> py_str \<Rightarrow> py_str option \<Rightarrow> py_str \<Rightarrow> bool" where
  "is_reply_wire C U key platform chat thread wire \<longleftrightarrow>
     (\<exists>before piece mid nonce enc. wire = before @ enc \<and>
        encrypt_message_v3 C U key piece (key_id key) (str_lit ''reply'') platform chat thread mid 0 1 nonce = Inr enc)"

lemma encrypt_pieces_wires:
  "encrypt_pieces C U key max_len prefix platform chat thread draws i pieces = Inr out \<Longrightarrow>
   length out = length pieces \<and> (\<forall>w \<in> set out. int (length w) \<le> max_len \<and> is_reply_wire C U key platform chat thread w)"
proof (induction pieces arbitrary: i out)
  case (Cons piece pieces)
  then obtain enc rest where e: "encrypt_message_v3 C U key piece (key_id key) (str_lit ''reply'') platform chat thread
        (b64u_encode (fst (draws i))) 0 1 (snd (draws i)) = Inr enc"
      "encrypt_pieces C U key max_len prefix platform chat thread draws (Suc i) pieces = Inr rest"
      "out = (if i = 0 \<and> prefix \<noteq> [] then prefix @ 32 # enc else enc) # rest" "int (length (hd out)) \<le> max_len"
    by (auto simp: result_iffs Let_def split: if_splits)
  have "is_reply_wire C U key platform chat thread (before @ enc)" for before
    using e(1) unfolding is_reply_wire_def by blast
  from this [of "[]"] this [of "prefix @ [32]"] have "is_reply_wire C U key platform chat thread (hd out)" using e(3) by simp
  then show ?case using Cons.IH [OF e(2)] e(3,4) by auto
qed simp

lemma encrypt_reply_wires:
  "encrypt_reply C U key content max_len mention_re platform chat thread draws = Inr out \<Longrightarrow> w \<in> set out \<Longrightarrow>
   int (length w) \<le> max_len \<and> is_reply_wire C U key platform chat thread w"
  by (auto simp: encrypt_reply_def result_iffs split: prod.splits dest!: encrypt_pieces_wires)

text \<open>The reply \<open><@U1> hi\<close> on Slack.\<close>

lemma demo_reply_prefix: "reply_prefix (Some slack_mention) (str_lit ''<@U1> hi'') = (str_lit ''<@U1>'', str_lit ''hi'')"
  by (simp add: reply_prefix_def slack_mention_def lit_def strip_prefix_def starts_with_list_def str_lit_def run1_def upper_alnum_def is_digit_def
      white_def skip_mentions.simps [of slack_mention] is_str_space_def strip_def rstrip_def SLACK_FREE_TEXT_LABEL_sub.simps slack_label_def
      TEAMS_FREE_TEXT_MENTION_sub.simps teams_name_def lit_ignorecase_def ascii_lower_def)


end
