(* ===== verification/E2E_Outbound.thy ===== *)
theory E2E_Outbound
  imports E2E_Reply Complex_Main
begin

text \<open>
  The outbound policy of \<open>extension/e2e.py\<close> and the senders that apply it: the wrapped \<open>send\<close> of the live Slack and
  Discord adapters (\<open>outbound.py\<close>) and the guard of the standalone sender (\<open>standalone_outbound.py\<close>). Every
  reading of the clock and of the key store is an argument of its own, so that the store may change between two
  readings; \<open>reads i\<close> is the \<open>i\<close>-th one. A send returns the texts it handed to the platform, in order.
\<close>

section \<open>Conversations that received ciphertext\<close>

type_synonym enc_threads = "py_str \<times> py_str \<times> py_str option \<Rightarrow> (real \<times> py_str option) option"

definition ENC_TTL :: real where "ENC_TTL = 24 * 3600"

definition mark_encrypted_thread ::
  "enc_threads \<Rightarrow> real \<Rightarrow> py_str \<Rightarrow> py_str \<Rightarrow> py_str option \<Rightarrow> py_str option \<Rightarrow> bool \<times> enc_threads" where
  "mark_encrypted_thread T now platform channel_id thread_root kid =
     (if channel_id = [] then (False, T) else (True, T((platform, channel_id, thread_root) \<mapsto> (now + ENC_TTL, kid))))"

definition prune :: "enc_threads \<Rightarrow> real \<Rightarrow> enc_threads" where
  "prune T now = (\<lambda>k. case T k of None \<Rightarrow> None | Some (expiry, kid) \<Rightarrow> if expiry < now then None else Some (expiry, kid))"

definition thread_entry :: "enc_threads \<Rightarrow> py_str \<Rightarrow> py_str \<Rightarrow> py_str option \<Rightarrow> real \<times> py_str option" where
  "thread_entry T platform channel_id tr = (case T (platform, channel_id, tr) of None \<Rightarrow> (0, None) | Some e \<Rightarrow> e)"

definition is_encrypted_thread :: "enc_threads \<Rightarrow> real \<Rightarrow> py_str \<Rightarrow> py_str \<Rightarrow> py_str option \<Rightarrow> bool \<times> enc_threads" where
  "is_encrypted_thread T now platform channel_id thread_root =
     (let T' = prune T now
      in (now < fst (thread_entry T' platform channel_id thread_root) \<or> now < fst (thread_entry T' platform channel_id None), T'))"

definition truthy :: "py_str option \<Rightarrow> bool" where
  "truthy s \<longleftrightarrow> s \<noteq> None \<and> s \<noteq> Some []"

definition thread_key_id :: "enc_threads \<Rightarrow> real \<Rightarrow> py_str \<Rightarrow> py_str \<Rightarrow> py_str option \<Rightarrow> py_str option \<times> enc_threads" where
  "thread_key_id T now platform channel_id thread_root =
     (let T' = prune T now;
          usable = (\<lambda>tr. case thread_entry T' platform channel_id tr of (expiry, kid) \<Rightarrow> if now < expiry \<and> truthy kid then kid else None)
      in (case usable thread_root of Some kid \<Rightarrow> Some kid | None \<Rightarrow> usable None, T'))"

section \<open>The keys bound to a channel\<close>

definition MANDATORY_ENCRYPTION_PLATFORMS :: "py_str list" where
  "MANDATORY_ENCRYPTION_PLATFORMS = [str_lit ''slack'', str_lit ''discord'']"

definition add_new :: "'a list \<Rightarrow> 'a \<Rightarrow> 'a list" where
  "add_new found x = (if x \<in> set found then found else found @ [x])"

definition bound_channel_key_ids :: "('u) ucd_case_scheme \<Rightarrow> channel_keys result \<Rightarrow> py_str \<Rightarrow> py_str \<Rightarrow> py_str list result" where
  "bound_channel_key_ids U ring platform channel_id =
     (if platform = [] \<or> channel_id = [] then Inr []
      else r_bind ring (\<lambda>channel_keys.
        Inr (foldl (\<lambda>found (stored_id, raw_key).
               if channel_key_matches U stored_id platform channel_id None None then add_new found (key_id raw_key) else found) [] channel_keys)))"

definition bound_channel_key_id :: "('u) ucd_case_scheme \<Rightarrow> channel_keys result \<Rightarrow> py_str \<Rightarrow> py_str \<Rightarrow> py_str option result" where
  "bound_channel_key_id U ring platform channel_id =
     r_bind (bound_channel_key_ids U ring platform channel_id) (\<lambda>kids. Inr (if length kids \<noteq> 1 then None else Some (hd kids)))"

definition outbound_must_encrypt ::
  "('u) ucd_case_scheme \<Rightarrow> bool \<Rightarrow> enc_threads \<Rightarrow> real \<times> channel_keys result \<Rightarrow> py_str \<Rightarrow> py_str \<Rightarrow> py_str option \<Rightarrow> bool result \<times> enc_threads" where
  "outbound_must_encrypt U in_control_notice T read platform channel_id thread_root =
     (case is_encrypted_thread T (fst read) platform channel_id thread_root of (known, T') \<Rightarrow>
       (if known then Inr True
        else if platform \<notin> set MANDATORY_ENCRYPTION_PLATFORMS \<or> in_control_notice then Inr False
        else r_bind (bound_channel_key_ids U (snd read) platform channel_id) (\<lambda>kids. Inr (kids \<noteq> [])), T'))"

text \<open>\<open>except Exception: return d\<close>\<close>

fun or_else :: "'a \<Rightarrow> 'a result \<Rightarrow> 'a result" where
  "or_else d (Inr x) = Inr x"
| "or_else d (Inl e) = (if is_exception e then Inr d else Inl e)"

definition outbound_key_id ::
  "('u) ucd_case_scheme \<Rightarrow> enc_threads \<Rightarrow> real \<times> channel_keys result \<Rightarrow> py_str \<Rightarrow> py_str \<Rightarrow> py_str option \<Rightarrow> py_str option result \<times> enc_threads" where
  "outbound_key_id U T read platform channel_id thread_root =
     (case thread_key_id T (fst read) platform channel_id thread_root of (kid, T') \<Rightarrow>
       (if truthy kid then Inr kid else or_else None (bound_channel_key_id U (snd read) platform channel_id), T'))"

section \<open>The key itself\<close>

text \<open>\<open>pairing\<close> is \<open>load_pairing()\<close>, reduced to its \<open>aes_key\<close>.\<close>

definition key_index :: "channel_keys result \<Rightarrow> bytes option result \<Rightarrow> (py_str \<Rightarrow> bytes option) result" where
  "key_index ring pairing =
     r_bind ring (\<lambda>channel_keys.
       let idx = foldl (\<lambda>m (stored_id, raw). m(key_id raw \<mapsto> raw)) Map.empty channel_keys
       in r_bind pairing (\<lambda>p. Inr (case p of None \<Rightarrow> idx
            | Some aes_key \<Rightarrow> if idx (key_id aes_key) = None then idx(key_id aes_key \<mapsto> aes_key) else idx)))"

definition reply_key :: "channel_keys result \<Rightarrow> bytes option result \<Rightarrow> py_str option \<Rightarrow> bytes option result" where
  "reply_key ring pairing key_id_hint =
     (case key_id_hint of
        None \<Rightarrow> Inr None
      | Some hint \<Rightarrow> if hint = [] then Inr None
                     else or_else None (r_bind (key_index ring pairing) (\<lambda>idx. Inr (idx hint))))"

definition channel_key :: "channel_keys result \<Rightarrow> bytes option result \<Rightarrow> py_str \<Rightarrow> bytes option result" where
  "channel_key ring pairing channel_id =
     or_else None (r_bind ring (\<lambda>channel_keys. case map_of channel_keys channel_id of Some ck \<Rightarrow> Inr (Some ck) | None \<Rightarrow> pairing))"

section \<open>The live Slack adapter\<close>

text \<open>
  What a send hands out: the text given to the original, unencrypted \<open>send\<close>, or a text posted by the wrapper itself. \<open>Returned\<close> is a
  \<open>SendResult\<close>: the id of the last (Slack) or first (Discord) message, or the error code.
\<close>

datatype send_effect = Original py_str | Posted py_str

datatype send_out = Returned "string + py_str option" | Delegated | Raised exn

record send_world =
  w_live :: bool
  w_notice :: bool
  w_max :: int
  w_reads :: "nat \<Rightarrow> real \<times> channel_keys result"
  w_pairing :: "bytes option result"
  w_draws :: "nat \<Rightarrow> bytes \<times> bytes"
  w_post :: "nat \<Rightarrow> py_str option result"

definition LOCKED_NOTICE :: py_str where
  "LOCKED_NOTICE = [0x1F512, 32, 40, 0x6697, 0x53F7, 0x5316, 0x3067, 0x304D, 0x306A, 0x3044, 0x305F, 0x3081, 0x672C, 0x6587, 0x3092,
     0x9001, 0x4FE1, 0x3067, 0x304D, 0x307E, 0x305B, 0x3093, 0x3067, 0x3057, 0x305F, 41]"

text \<open>Posting the chunks in order until the platform raises: the texts handed over, with the ids, or what was raised.\<close>

fun post_chunks :: "(nat \<Rightarrow> py_str option result) \<Rightarrow> nat \<Rightarrow> py_str list \<Rightarrow> send_effect list \<times> py_str option list \<times> exn option" where
  "post_chunks post i [] = ([], [], None)"
| "post_chunks post i (chunk # chunks) =
     (case post i of
        Inl e \<Rightarrow> ([Posted chunk], [], Some e)
      | Inr ident \<Rightarrow> (case post_chunks post (Suc i) chunks of (es, ids, r) \<Rightarrow> (Posted chunk # es, ident # ids, r)))"

definition slack_encrypted_send ::
  "('x) e2e_crypto_scheme \<Rightarrow> ('u) ucd_case_scheme \<Rightarrow> ('w) send_world_scheme \<Rightarrow> unit result \<Rightarrow> enc_threads \<Rightarrow> py_str \<Rightarrow> py_str \<Rightarrow> py_str option \<Rightarrow>
   send_effect list \<times> send_out \<times> enc_threads" where
  "slack_encrypted_send C U w client T chat_id content thread_ts =
     (case client of Inl e \<Rightarrow> ([], Raised e, T)
      | Inr _ \<Rightarrow>
     (case outbound_key_id U T (w_reads w 1) (str_lit ''slack'') chat_id thread_ts of (kid, T') \<Rightarrow>
     (case r_bind kid (reply_key (snd (w_reads w 2)) (w_pairing w)) of
        Inl e \<Rightarrow> ([], Raised e, T')
      | Inr None \<Rightarrow>
          (case w_post w 0 of
             Inl e \<Rightarrow> if is_exception e then ([Posted LOCKED_NOTICE], Returned (Inl ''mordred_encrypt_unavailable''), T')
                      else ([Posted LOCKED_NOTICE], Raised e, T')
           | Inr _ \<Rightarrow> ([Posted LOCKED_NOTICE], Returned (Inl ''mordred_encrypt_unavailable''), T'))
      | Inr (Some key) \<Rightarrow>
          (case encrypt_reply C U key content (w_max w) (Some slack_mention) (str_lit ''slack'') chat_id thread_ts (w_draws w) of
             Inl e \<Rightarrow> ([], Raised e, T')
           | Inr chunks \<Rightarrow>
               (case post_chunks (w_post w) 0 chunks of
                  (es, ids, Some e) \<Rightarrow> (es, Raised e, T')
                | (es, ids, None) \<Rightarrow> (es, Returned (Inr (if ids = [] then None else last ids)), T'))))))"

text \<open>\<open>thread\<close> is \<open>self._resolve_thread_ts(reply_to, metadata)\<close>.\<close>

definition slack_send ::
  "('x) e2e_crypto_scheme \<Rightarrow> ('u) ucd_case_scheme \<Rightarrow> ('w) send_world_scheme \<Rightarrow> py_str option result \<Rightarrow> unit result \<Rightarrow> enc_threads \<Rightarrow> py_str \<Rightarrow> py_str \<Rightarrow>
   send_effect list \<times> send_out \<times> enc_threads" where
  "slack_send C U w thread client T chat_id content =
     (if \<not> w_live w then ([Original content], Delegated, T)
      else case thread of
        Inl e \<Rightarrow> ([], if is_exception e then Returned (Inl ''mordred_encrypt_context_unavailable'') else Raised e, T)
      | Inr thread_ts \<Rightarrow>
          (case outbound_must_encrypt U (w_notice w) T (w_reads w 0) (str_lit ''slack'') chat_id thread_ts of
             (Inl e, T') \<Rightarrow> ([], if is_exception e then Returned (Inl ''mordred_encrypt_context_unavailable'') else Raised e, T')
           | (Inr encrypted, T') \<Rightarrow>
               if encrypted then slack_encrypted_send C U w client T' chat_id content thread_ts
               else ([Original content], Delegated, T')))"

section \<open>The live Discord adapter\<close>

definition dedupe :: "'a list \<Rightarrow> 'a list" where
  "dedupe xs = foldl add_new [] xs"

fun any_must_encrypt ::
  "('u) ucd_case_scheme \<Rightarrow> bool \<Rightarrow> (nat \<Rightarrow> real \<times> channel_keys result) \<Rightarrow> py_str \<Rightarrow> py_str option \<Rightarrow> nat \<Rightarrow> enc_threads \<Rightarrow> py_str list \<Rightarrow>
   bool result \<times> enc_threads" where
  "any_must_encrypt U notice reads platform thread i T [] = (Inr False, T)"
| "any_must_encrypt U notice reads platform thread i T (x # ids) =
     (case outbound_must_encrypt U notice T (reads i) platform x thread of
        (Inr False, T') \<Rightarrow> any_must_encrypt U notice reads platform thread (Suc i) T' ids
      | r \<Rightarrow> r)"

fun discord_key_id ::
  "('u) ucd_case_scheme \<Rightarrow> (nat \<Rightarrow> real \<times> channel_keys result) \<Rightarrow> py_str option \<Rightarrow> nat \<Rightarrow> enc_threads \<Rightarrow> py_str option \<Rightarrow> py_str list \<Rightarrow>
   py_str option result \<times> enc_threads" where
  "discord_key_id U reads thread i T kid [] = (Inr kid, T)"
| "discord_key_id U reads thread i T kid (cid # ids) =
     (case outbound_key_id U T (reads i) (str_lit ''discord'') cid thread of
        (Inl e, T') \<Rightarrow> (Inl e, T')
      | (Inr kid', T') \<Rightarrow>
          if truthy kid' then (Inr kid', T')
          else (case bound_channel_key_ids U (snd (reads (Suc i))) (str_lit ''discord'') cid of
             Inl e \<Rightarrow> (Inl e, T')
           | Inr kids \<Rightarrow> if kids \<noteq> [] then (Inr kid', T')
                           else discord_key_id U reads thread (Suc (Suc i)) T' kid' ids))"

definition discord_encrypted_send ::
  "('x) e2e_crypto_scheme \<Rightarrow> ('u) ucd_case_scheme \<Rightarrow> ('w) send_world_scheme \<Rightarrow> enc_threads \<Rightarrow> py_str \<Rightarrow> py_str option \<Rightarrow> py_str list \<Rightarrow>
   send_effect list \<times> send_out \<times> enc_threads" where
  "discord_encrypted_send C U w T content thread_id ids =
     (case discord_key_id U (\<lambda>i. w_reads w (length ids + i)) thread_id 0 T None ids of
        (Inl e, T') \<Rightarrow> ([], if is_exception e then Returned (Inl ''mordred_encrypt_unavailable'') else Raised e, T')
      | (Inr kid, T') \<Rightarrow>
     (case reply_key (snd (w_reads w (3 * length ids))) (w_pairing w) kid of
        Inl e \<Rightarrow> ([], Raised e, T')
      | Inr None \<Rightarrow> ([], Returned (Inl ''mordred_encrypt_unavailable''), T')
      | Inr (Some key) \<Rightarrow>
          (let failed = (\<lambda>e. if is_exception e then Returned (Inl ''mordred_encrypt_send_failed'') else Raised e)
           in case encrypt_reply C U key content (w_max w) (Some (discord_mention U)) (str_lit ''discord'') (hd ids) thread_id (w_draws w) of
                Inl e \<Rightarrow> ([], failed e, T')
              | Inr chunks \<Rightarrow>
                  (case post_chunks (w_post w) 0 chunks of
                     (es, mids, Some e) \<Rightarrow> (es, failed e, T')
                   | (es, mids, None) \<Rightarrow> (es, Returned (Inr (if mids = [] then None else hd mids)), T')))))"

text \<open>\<open>channel\<close> is the resolution of the destination: what it raised (a missing channel included), or the channel's parent.\<close>

definition discord_ids :: "py_str \<Rightarrow> py_str option \<Rightarrow> py_str option \<Rightarrow> py_str list" where
  "discord_ids chat_id thread_id parent =
     dedupe (filter (\<lambda>x. x \<noteq> []) ([case thread_id of Some t \<Rightarrow> t | None \<Rightarrow> chat_id, chat_id] @ (case parent of Some p \<Rightarrow> [p] | None \<Rightarrow> [])))"

definition discord_send ::
  "('x) e2e_crypto_scheme \<Rightarrow> ('u) ucd_case_scheme \<Rightarrow> ('w) send_world_scheme \<Rightarrow> py_str option result \<Rightarrow> enc_threads \<Rightarrow> py_str \<Rightarrow> py_str \<Rightarrow> py_str option \<Rightarrow>
   send_effect list \<times> send_out \<times> enc_threads" where
  "discord_send C U w channel T chat_id content raw_thread_id =
     (if \<not> w_live w then ([Original content], Delegated, T)
      else let thread_id = (if raw_thread_id = Some [] then None else raw_thread_id)
           in case channel of
                Inl e \<Rightarrow> ([], if is_exception e then Returned (Inl ''mordred_encrypt_context_unavailable'') else Raised e, T)
              | Inr parent \<Rightarrow>
                  (let ids = discord_ids chat_id thread_id parent
                   in case any_must_encrypt U (w_notice w) (w_reads w) (str_lit ''discord'') thread_id 0 T ids of
                        (Inl e, T') \<Rightarrow> ([], if is_exception e then Returned (Inl ''mordred_encrypt_context_unavailable'') else Raised e, T')
                      | (Inr encrypted, T') \<Rightarrow>
                          if encrypted then discord_encrypted_send C U w T' content thread_id ids
                          else ([Original content], Delegated, T')))"

section \<open>The standalone sender\<close>

definition refused :: "string \<Rightarrow> exn" where
  "refused code = OtherError (''_Refused: '' @ code)"

definition refusal_code :: "exn \<Rightarrow> string option" where
  "refusal_code e = (case e of OtherError s \<Rightarrow> if take 10 s = ''_Refused: '' then Some (drop 10 s) else None | _ \<Rightarrow> None)"

fun choose_key ::
  "('u) ucd_case_scheme \<Rightarrow> (nat \<Rightarrow> real \<times> channel_keys result) \<Rightarrow> bytes option result \<Rightarrow> py_str \<Rightarrow> py_str option \<Rightarrow> nat \<Rightarrow> enc_threads \<Rightarrow> py_str list \<Rightarrow>
   bytes result \<times> enc_threads" where
  "choose_key U reads pairing platform thread i T [] = (Inl (refused ''mordred_encrypt_unavailable''), T)"
| "choose_key U reads pairing platform thread i T (cid # ids) =
     (case outbound_key_id U T (reads i) platform cid thread of
        (Inl e, T1) \<Rightarrow> (Inl e, T1)
      | (Inr kid, T1) \<Rightarrow>
          (let use = r_bind (reply_key (snd (reads (i + 3))) pairing kid)
                       (\<lambda>key. case key of None \<Rightarrow> Inl (refused ''mordred_encrypt_unavailable'') | Some k \<Rightarrow> Inr k)
           in if truthy kid then (use, T1)
              else case bound_channel_key_ids U (snd (reads (i + 1))) platform cid of
                Inl e \<Rightarrow> (Inl e, T1)
              | Inr kids \<Rightarrow>
                  if kids \<noteq> [] then (use, T1)
                  else (case is_encrypted_thread T1 (fst (reads (i + 2))) platform cid thread of (known, T2) \<Rightarrow>
                          if known then (use, T2) else choose_key U reads pairing platform thread (i + 4) T2 ids)))"

definition standalone_key ::
  "('u) ucd_case_scheme \<Rightarrow> ('w) send_world_scheme \<Rightarrow> enc_threads \<Rightarrow> py_str \<Rightarrow> py_str list \<Rightarrow> py_str option \<Rightarrow> bool \<Rightarrow> bytes option result \<times> enc_threads" where
  "standalone_key U w T platform ids thread media_files =
     (case any_must_encrypt U (w_notice w) (w_reads w) platform thread 0 T ids of
        (Inl e, T') \<Rightarrow> (Inl e, T')
      | (Inr False, T') \<Rightarrow> (Inr None, T')
      | (Inr True, T') \<Rightarrow>
          if media_files then (Inl (refused ''mordred_encrypt_attachments_unsupported''), T')
          else (case choose_key U (\<lambda>i. w_reads w (length ids + i)) (w_pairing w) platform thread 0 T' ids of
                  (k, T'') \<Rightarrow> (r_bind k (\<lambda>key. Inr (Some key)), T'')))"

definition checked_post :: "(nat \<Rightarrow> py_str option result) \<Rightarrow> nat \<Rightarrow> py_str option result" where
  "checked_post post i = r_bind (post i) (\<lambda>ident. if truthy ident then Inr ident else Inl (refused ''mordred_encrypt_send_failed''))"

definition post_text ::
  "('x) e2e_crypto_scheme \<Rightarrow> ('u) ucd_case_scheme \<Rightarrow> ('w) send_world_scheme \<Rightarrow> py_str \<Rightarrow> py_str \<Rightarrow> py_str option \<Rightarrow> py_str \<Rightarrow> bytes \<Rightarrow>
   send_effect list \<times> py_str option result" where
  "post_text C U w platform chat thread message key =
     (let slack = (platform = str_lit ''slack'');
          failed = (\<lambda>e. if is_exception e then refused ''mordred_encrypt_send_failed'' else e)
      in case encrypt_reply C U key message (if slack then 39000 else 2000) (Some (if slack then slack_mention else discord_mention U))
                platform chat thread (w_draws w) of
           Inl e \<Rightarrow> ([], Inl (failed e))
         | Inr chunks \<Rightarrow>
             (case post_chunks (checked_post (w_post w)) 0 chunks of
                (es, ids, Some e) \<Rightarrow> (es, Inl (failed e))
              | (es, ids, None) \<Rightarrow> (es, Inr (if ids = [] then None else last ids))))"

text \<open>\<open>[CGD][A-Z0-9]+\<close>, \<open>U[A-Z0-9]+\<close> and \<open>[0-9]{1,20}\<close> as full matches.\<close>

definition tagged_id :: "nat list \<Rightarrow> py_str \<Rightarrow> bool" where
  "tagged_id tags s = (case s of c # r \<Rightarrow> c \<in> set tags \<and> r \<noteq> [] \<and> list_all upper_alnum r | [] \<Rightarrow> False)"

definition SLACK_CHANNEL :: "py_str \<Rightarrow> bool" where "SLACK_CHANNEL = tagged_id [67, 71, 68]"
definition SLACK_USER :: "py_str \<Rightarrow> bool" where "SLACK_USER = tagged_id [85]"

definition SNOWFLAKE :: "py_str \<Rightarrow> bool" where
  "SNOWFLAKE s \<longleftrightarrow> s \<noteq> [] \<and> length s \<le> 20 \<and> list_all is_digit s"

definition THREAD_TYPES :: "int set" where "THREAD_TYPES = {10, 11, 12}"

text \<open>
  \<open>sa_client\<close>: opening the session (token, route). \<open>sa_open\<close>: the answer of \<open>conversations.open\<close>, as the test \<open>ok is True\<close> and the id
  when it is a string. \<open>sa_info\<close>: the answer about a Discord channel: its id, its type when it is an int, its parent.
\<close>

datatype parent_field = No_parent | Parent py_str | Bad_parent

record standalone_world = send_world +
  sa_client :: "unit result"
  sa_open :: "(bool \<times> py_str option) result"
  sa_info :: "(py_str option \<times> int option \<times> parent_field) result"

type_synonym delivery = "send_effect list \<times> py_str option option result \<times> enc_threads"

definition delivered :: "send_effect list \<times> py_str option result \<Rightarrow> enc_threads \<Rightarrow> delivery" where
  "delivered p T = (fst p, r_bind (snd p) (\<lambda>ident. Inr (Some ident)), T)"

definition no_context :: exn where "no_context = refused ''mordred_encrypt_context_unavailable''"

definition slack_standalone ::
  "('x) e2e_crypto_scheme \<Rightarrow> ('u) ucd_case_scheme \<Rightarrow> ('w) standalone_world_scheme \<Rightarrow> enc_threads \<Rightarrow> py_str \<Rightarrow> py_str \<Rightarrow> py_str option \<Rightarrow> bool \<Rightarrow> delivery" where
  "slack_standalone C U w T chat message thread media =
     (if \<not> SLACK_CHANNEL chat then
        (if \<not> SLACK_USER chat then ([], Inl no_context, T)
         else case r_bind (sa_client w) (\<lambda>_. sa_open w) of
           Inl e \<Rightarrow> ([], Inl e, T)
         | Inr (True, Some resolved) \<Rightarrow>
             (if \<not> SLACK_CHANNEL resolved then ([], Inl no_context, T)
              else case standalone_key U w T (str_lit ''slack'') [resolved] thread media of
                (Inl e, T') \<Rightarrow> ([], Inl e, T')
              | (Inr None, T') \<Rightarrow> ([], Inr None, T')
              | (Inr (Some key), T') \<Rightarrow> delivered (post_text C U w (str_lit ''slack'') resolved thread message key) T')
         | Inr _ \<Rightarrow> ([], Inl no_context, T))
      else case standalone_key U w T (str_lit ''slack'') [chat] thread media of
        (Inl e, T') \<Rightarrow> ([], Inl e, T')
      | (Inr None, T') \<Rightarrow> ([], Inr None, T')
      | (Inr (Some key), T') \<Rightarrow>
          (case sa_client w of Inl e \<Rightarrow> ([], Inl e, T')
           | Inr _ \<Rightarrow> delivered (post_text C U w (str_lit ''slack'') chat thread message key) T'))"

definition discord_context :: "py_str \<Rightarrow> py_str \<Rightarrow> py_str option \<Rightarrow> py_str option \<times> int option \<times> parent_field \<Rightarrow> (int \<times> py_str option) result" where
  "discord_context tid chat thread info =
     (case info of (ident, kind, parent) \<Rightarrow>
       if ident \<noteq> Some tid \<or> kind = None then Inl no_context
       else if parent = Bad_parent \<or> (\<exists>p. parent = Parent p \<and> \<not> SNOWFLAKE p) then Inl no_context
       else if the kind \<in> THREAD_TYPES \<and> parent = No_parent then Inl no_context
       else if truthy thread \<and> (the kind \<notin> THREAD_TYPES \<or> chat \<noteq> tid \<and> parent \<noteq> Parent chat) then Inl no_context
       else Inr (the kind, case parent of Parent p \<Rightarrow> Some p | _ \<Rightarrow> None))"

definition discord_standalone ::
  "('x) e2e_crypto_scheme \<Rightarrow> ('u) ucd_case_scheme \<Rightarrow> ('w) standalone_world_scheme \<Rightarrow> enc_threads \<Rightarrow> py_str \<Rightarrow> py_str \<Rightarrow> py_str option \<Rightarrow> bool \<Rightarrow> delivery" where
  "discord_standalone C U w T chat message thread media =
     (let tid = (case thread of Some t \<Rightarrow> if t \<noteq> [] then t else chat | None \<Rightarrow> chat)
      in if \<not> SNOWFLAKE tid \<or> \<not> SNOWFLAKE chat then ([], Inl no_context, T)
         else case r_bind (r_bind (sa_client w) (\<lambda>_. sa_info w)) (discord_context tid chat thread) of
           Inl e \<Rightarrow> ([], Inl e, T)
         | Inr (kind, parent) \<Rightarrow>
             (case standalone_key U w T (str_lit ''discord'') (discord_ids chat (Some tid) parent) thread media of
                (Inl e, T') \<Rightarrow> ([], Inl e, T')
              | (Inr None, T') \<Rightarrow> ([], Inr None, T')
              | (Inr (Some key), T') \<Rightarrow>
                  if kind \<in> {15, 16} then ([], Inl no_context, T')
                  else delivered (post_text C U w (str_lit ''discord'') tid thread message key) T'))"

text \<open>
  The arguments as the caller passes them: \<open>None\<close> for a chat or a message that is not a string, \<open>Some None\<close> for a thread that is neither
  \<open>None\<close> nor a string.
\<close>

datatype guard_out = Guard_error string | Guard_sent "py_str option" | Guard_original | Guard_raised exn

definition checked_delivery ::
  "('x) e2e_crypto_scheme \<Rightarrow> ('u) ucd_case_scheme \<Rightarrow> ('w) standalone_world_scheme \<Rightarrow> enc_threads \<Rightarrow> py_str \<Rightarrow> py_str option \<Rightarrow> py_str option \<Rightarrow>
   py_str option option \<Rightarrow> bool \<Rightarrow> delivery" where
  "checked_delivery C U w T platform chat_id message thread_id media =
     (if chat_id = None \<or> chat_id = Some [] \<or> message = None \<or> thread_id = Some None \<or> thread_id = Some (Some []) then ([], Inl no_context, T)
      else (if platform = str_lit ''slack'' then slack_standalone C U w else discord_standalone C U w) T (the chat_id) (the message)
             (Option.bind thread_id id) media)"

definition guarded ::
  "('x) e2e_crypto_scheme \<Rightarrow> ('u) ucd_case_scheme \<Rightarrow> ('w) standalone_world_scheme \<Rightarrow> enc_threads \<Rightarrow> py_str \<Rightarrow> py_str option \<Rightarrow> py_str option \<Rightarrow>
   py_str option option \<Rightarrow> bool \<Rightarrow> send_effect list \<times> guard_out \<times> enc_threads" where
  "guarded C U w T platform chat_id message thread_id media =
     (let original = Original (case message of Some m \<Rightarrow> m | None \<Rightarrow> [])
      in if platform \<notin> {str_lit ''slack'', str_lit ''discord''} then ([original], Guard_original, T)
         else case checked_delivery C U w T platform chat_id message thread_id media of
           (es, Inl e, T') \<Rightarrow>
             (es, (case refusal_code e of Some code \<Rightarrow> Guard_error code
                   | None \<Rightarrow> if is_exception e then Guard_error ''mordred_encrypt_context_unavailable'' else Guard_raised e), T')
         | (es, Inr (Some ident), T') \<Rightarrow> (es, Guard_sent ident, T')
         | (es, Inr None, T') \<Rightarrow> (es @ [original], Guard_original, T'))"

section \<open>When cleartext is allowed\<close>

text \<open>The two reasons to encrypt.\<close>

definition marked :: "enc_threads \<Rightarrow> real \<Rightarrow> py_str \<Rightarrow> py_str \<Rightarrow> py_str option \<Rightarrow> bool" where
  "marked T now platform channel tr \<longleftrightarrow>
     (\<exists>root \<in> {tr, None}. \<exists>expiry kid. T (platform, channel, root) = Some (expiry, kid) \<and> now < expiry)"

definition bound :: "('u) ucd_case_scheme \<Rightarrow> channel_keys result \<Rightarrow> py_str \<Rightarrow> py_str \<Rightarrow> bool" where
  "bound U ring platform channel \<longleftrightarrow>
     platform \<noteq> [] \<and> channel \<noteq> [] \<and> (\<exists>keys. ring = Inr keys \<and> (\<exists>(s, k) \<in> set keys. channel_key_matches U s platform channel None None))"

lemma or_else_Inr_iff: "or_else d m = Inr x \<longleftrightarrow> m = Inr x \<or> (\<exists>e. m = Inl e \<and> is_exception e \<and> x = d)"
  by (cases m) (auto split: if_splits)

lemma set_add_new [simp]: "set (add_new found x) = insert x (set found)"
  by (auto simp: add_new_def)

lemma set_dedupe: "set (dedupe xs) = set xs"
proof -
  have "set (foldl add_new acc xs) = set acc \<union> set xs" for acc by (induction xs arbitrary: acc) auto
  then show ?thesis by (simp add: dedupe_def)
qed

lemma bound_ids_set:
  "set (foldl (\<lambda>found (s, k). if P s then add_new found (f k) else found) acc keys) = set acc \<union> {f k |s k. (s, k) \<in> set keys \<and> P s}"
  by (induction keys arbitrary: acc) (auto split: if_splits)

lemma bound_ids_Inr:
  "bound_channel_key_ids U ring platform channel = Inr kids \<Longrightarrow>
   set kids = (if platform = [] \<or> channel = [] then {} else {key_id k |s k. (s, k) \<in> set (projr ring) \<and> channel_key_matches U s platform channel None None})
   \<and> (platform \<noteq> [] \<and> channel \<noteq> [] \<longrightarrow> (\<exists>keys. ring = Inr keys))"
  by (auto simp: bound_channel_key_ids_def result_iffs bound_ids_set split: if_splits) blast

lemma bound_ids_Nil: "bound_channel_key_ids U ring platform channel = Inr [] \<Longrightarrow> \<not> bound U ring platform channel"
  using bound_ids_Inr [of U ring platform channel "[]"] by (fastforce simp: bound_def split: if_splits)

lemma bound_ids_of: "bound U ring platform channel \<Longrightarrow> \<exists>kids. bound_channel_key_ids U ring platform channel = Inr kids \<and> kids \<noteq> []"
  using bound_ids_Nil [of U ring platform channel] by (auto simp: bound_def bound_channel_key_ids_def)

lemma known_marked: "marked T now platform channel tr \<Longrightarrow> fst (is_encrypted_thread T now platform channel tr)"
  by (auto simp: marked_def is_encrypted_thread_def Let_def thread_entry_def prune_def split: option.splits)

definition must_protect ::
  "('u) ucd_case_scheme \<Rightarrow> bool \<Rightarrow> enc_threads \<Rightarrow> real \<times> channel_keys result \<Rightarrow> py_str \<Rightarrow> py_str \<Rightarrow> py_str option \<Rightarrow> bool" where
  "must_protect U notice T read platform channel tr \<longleftrightarrow>
     marked T (fst read) platform channel tr \<or>
     platform \<in> set MANDATORY_ENCRYPTION_PLATFORMS \<and> \<not> notice \<and>
       (bound U (snd read) platform channel \<or> channel \<noteq> [] \<and> (\<exists>e. snd read = Inl e))"

lemma mandatory_nonempty: "platform \<in> set MANDATORY_ENCRYPTION_PLATFORMS \<Longrightarrow> platform \<noteq> []"
  by (auto simp: MANDATORY_ENCRYPTION_PLATFORMS_def str_lit_def)

lemma must_encrypt_clear:
  assumes "outbound_must_encrypt U notice T read platform channel tr = (Inr False, T')"
  shows "\<not> must_protect U notice T read platform channel tr"
proof -
  obtain known T1 where k: "is_encrypted_thread T (fst read) platform channel tr = (known, T1)" by fastforce
  then have "\<not> known" using assms by (auto simp: outbound_must_encrypt_def split: if_splits)
  moreover from this have "platform \<in> set MANDATORY_ENCRYPTION_PLATFORMS \<and> \<not> notice \<longrightarrow> bound_channel_key_ids U (snd read) platform channel = Inr []"
    using assms k by (auto simp: outbound_must_encrypt_def r_bind_Inr_iff)
  ultimately show ?thesis
    using known_marked [of T "fst read" platform channel tr] k bound_ids_Nil [of U "snd read" platform channel] bound_ids_Inr [of U "snd read" platform channel "[]"] mandatory_nonempty [of platform]
    by (auto simp: must_protect_def)
qed

lemma must_encrypt_state: "outbound_must_encrypt U notice T read platform channel tr = (r, T') \<Longrightarrow> T' = prune T (fst read)"
  by (auto simp: outbound_must_encrypt_def is_encrypted_thread_def Let_def)

text \<open>The key ids a conversation may be answered under: those it was addressed with, or the only one bound to the channel.\<close>

definition conversation_key ::
  "('u) ucd_case_scheme \<Rightarrow> enc_threads \<Rightarrow> channel_keys result \<Rightarrow> py_str \<Rightarrow> py_str \<Rightarrow> py_str option \<Rightarrow> py_str \<Rightarrow> bool" where
  "conversation_key U T ring platform channel tr kid \<longleftrightarrow>
     (\<exists>root \<in> {tr, None}. \<exists>expiry. T (platform, channel, root) = Some (expiry, Some kid)) \<or>
     bound_channel_key_ids U ring platform channel = Inr [kid]"

lemma prune_keeps: "prune T now k = Some v \<Longrightarrow> T k = Some v"
  by (auto simp: prune_def split: option.splits prod.splits if_splits)

lemma conversation_key_prune: "conversation_key U (prune T now) ring platform channel tr kid \<Longrightarrow> conversation_key U T ring platform channel tr kid"
  using prune_keeps by (fastforce simp: conversation_key_def)

lemma thread_key_conversation:
  "thread_key_id T now platform channel tr = (Some kid, T') \<Longrightarrow> conversation_key U T ring platform channel tr kid"
  using prune_keeps [of T now]
  by (fastforce simp: thread_key_id_def Let_def conversation_key_def thread_entry_def split: option.splits prod.splits if_splits)

lemma outbound_key_state: "outbound_key_id U T read platform channel tr = (r, T') \<Longrightarrow> T' = prune T (fst read)"
  by (auto simp: outbound_key_id_def thread_key_id_def Let_def)

lemma outbound_key_conversation:
  assumes "outbound_key_id U T read platform channel tr = (Inr (Some kid), T')"
  shows "conversation_key U T (snd read) platform channel tr kid"
proof -
  obtain tk T1 where k: "thread_key_id T (fst read) platform channel tr = (tk, T1)" by fastforce
  show ?thesis
  proof (cases "truthy tk")
    case True
    then have "tk = Some kid" using assms k by (simp add: outbound_key_id_def)
    then show ?thesis using thread_key_conversation k by blast
  next
    case False
    then have "bound_channel_key_id U (snd read) platform channel = Inr (Some kid)"
      using assms k by (auto simp: outbound_key_id_def or_else_Inr_iff)
    then obtain kids where "bound_channel_key_ids U (snd read) platform channel = Inr kids" "length kids = 1" "hd kids = kid"
      by (auto simp: bound_channel_key_id_def r_bind_Inr_iff split: if_splits)
    then show ?thesis by (cases kids) (auto simp: conversation_key_def)
  qed
qed

section \<open>What a protected send hands out\<close>

lemma key_index_held:
  "key_index ring pairing = Inr idx \<Longrightarrow> idx h = Some key \<Longrightarrow>
   h = key_id key \<and> ((\<exists>keys s. ring = Inr keys \<and> (s, key) \<in> set keys) \<or> pairing = Inr (Some key))"
proof -
  have "foldl (\<lambda>m (s, raw). m(key_id raw \<mapsto> raw)) m keys h = Some key \<Longrightarrow> m h = Some key \<or> h = key_id key \<and> (\<exists>s. (s, key) \<in> set keys)" for m and keys :: channel_keys
    by (induction keys arbitrary: m) (fastforce split: if_splits)+
  note fold = this [of Map.empty]
  assume "key_index ring pairing = Inr idx" and k: "idx h = Some key"
  then obtain keys p where e: "ring = Inr keys" "pairing = Inr p"
      "idx = (let i = foldl (\<lambda>m (s, raw). m(key_id raw \<mapsto> raw)) Map.empty keys in case p of None \<Rightarrow> i
         | Some aes_key \<Rightarrow> if i (key_id aes_key) = None then i(key_id aes_key \<mapsto> aes_key) else i)"
    by (auto simp: key_index_def result_iffs Let_def)
  then have "foldl (\<lambda>m (s, raw). m(key_id raw \<mapsto> raw)) Map.empty keys h = Some key \<or> p = Some key \<and> h = key_id key"
    using k by (simp add: Let_def split: option.splits if_splits)
  then show "h = key_id key \<and> ((\<exists>keys s. ring = Inr keys \<and> (s, key) \<in> set keys) \<or> pairing = Inr (Some key))"
    using fold [of keys] e(1,2) by auto
qed

definition held :: "channel_keys result \<Rightarrow> bytes option result \<Rightarrow> bytes \<Rightarrow> bool" where
  "held ring pairing key \<longleftrightarrow> (\<exists>keys s. ring = Inr keys \<and> (s, key) \<in> set keys) \<or> pairing = Inr (Some key)"

lemma reply_key_held: "reply_key ring pairing hint = Inr (Some key) \<Longrightarrow> hint = Some (key_id key) \<and> held ring pairing key"
  using key_index_held by (fastforce simp: reply_key_def held_def or_else_Inr_iff result_iffs split: option.splits if_splits)

lemma post_chunks_effects: "post_chunks post i chunks = (es, ids, r) \<Longrightarrow> set es \<subseteq> Posted ` set chunks"
  by (induction chunks arbitrary: i es ids r) (fastforce split: sum.splits prod.splits)+

definition protected ::
  "('x) e2e_crypto_scheme \<Rightarrow> ('u) ucd_case_scheme \<Rightarrow> (bytes \<Rightarrow> bool) \<Rightarrow> py_str \<Rightarrow> py_str \<Rightarrow> py_str option \<Rightarrow> send_effect \<Rightarrow> bool" where
  "protected C U usable platform chat thread x \<longleftrightarrow>
     (\<exists>key wire. x = Posted wire \<and> is_reply_wire C U key platform chat thread wire \<and> usable key)"

lemma posted_protected:
  assumes "encrypt_reply C U key content max_len mention_re platform chat thread draws = Inr chunks" "post_chunks post i chunks = (es, ids, r)"
    "x \<in> set es" "usable key"
  shows "protected C U usable platform chat thread x"
proof -
  obtain wire where w: "x = Posted wire" "wire \<in> set chunks" using post_chunks_effects [OF assms(2)] assms(3) by auto
  with encrypt_reply_wires [OF assms(1)] assms(4) show ?thesis unfolding protected_def by metis
qed

lemma slack_encrypted_effects:
  assumes "slack_encrypted_send C U w client T chat content tr = (es, out, T')" "x \<in> set es"
  shows "x = Posted LOCKED_NOTICE \<or>
    protected C U (\<lambda>key. held (snd (w_reads w 2)) (w_pairing w) key \<and>
      conversation_key U T (snd (w_reads w 1)) (str_lit ''slack'') chat tr (key_id key)) (str_lit ''slack'') chat tr x"
proof -
  obtain kid T1 where k: "outbound_key_id U T (w_reads w 1) (str_lit ''slack'') chat tr = (kid, T1)" by fastforce
  show ?thesis
  proof (cases "r_bind kid (reply_key (snd (w_reads w 2)) (w_pairing w))")
    case (Inr key)
    show ?thesis
    proof (cases key)
      case None
      then show ?thesis using assms k Inr by (auto simp: slack_encrypted_send_def split: sum.splits if_splits)
    next
      case (Some raw)
      have u: "held (snd (w_reads w 2)) (w_pairing w) raw" "kid = Inr (Some (key_id raw))"
        using Inr Some reply_key_held by (auto simp: r_bind_Inr_iff)
      then have c: "conversation_key U T (snd (w_reads w 1)) (str_lit ''slack'') chat tr (key_id raw)"
        using k outbound_key_conversation by blast
      from assms k Inr Some obtain chunks ids r where
        "encrypt_reply C U raw content (w_max w) (Some slack_mention) (str_lit ''slack'') chat tr (w_draws w) = Inr chunks"
        "post_chunks (w_post w) 0 chunks = (es, ids, r)"
        by (auto simp: slack_encrypted_send_def split: sum.splits prod.splits option.splits)
      then show ?thesis by (intro disjI2 posted_protected [OF _ _ assms(2)]) (use u c in auto)
    qed
  qed (use assms k in \<open>auto simp: slack_encrypted_send_def split: sum.splits\<close>)
qed

lemma slack_effects:
  assumes "slack_send C U w thread client T chat content = (es, out, T')" "w_live w" "x \<in> set es"
  shows "\<exists>tr. thread = Inr tr \<and>
    (x = Original content \<and> \<not> must_protect U (w_notice w) T (w_reads w 0) (str_lit ''slack'') chat tr \<or>
     x = Posted LOCKED_NOTICE \<or>
     protected C U (\<lambda>key. held (snd (w_reads w 2)) (w_pairing w) key \<and>
       conversation_key U T (snd (w_reads w 1)) (str_lit ''slack'') chat tr (key_id key)) (str_lit ''slack'') chat tr x)"
proof (cases thread)
  case (Inr tr)
  obtain m T1 where m: "outbound_must_encrypt U (w_notice w) T (w_reads w 0) (str_lit ''slack'') chat tr = (m, T1)" by fastforce
  show ?thesis
  proof (cases "m = Inr False")
    case True
    then have "x = Original content" using assms m Inr by (auto simp: slack_send_def)
    then show ?thesis using must_encrypt_clear m True Inr by blast
  next
    case False
    then have "slack_encrypted_send C U w client T1 chat content tr = (es, out, T')"
      using assms m Inr by (auto simp: slack_send_def split: sum.splits if_splits)
    from slack_encrypted_effects [OF this assms(3)] show ?thesis
      using conversation_key_prune must_encrypt_state [OF m] Inr by (force simp: protected_def)
  qed
qed (use assms in \<open>simp add: slack_send_def\<close>)

section \<open>Several names of one destination\<close>

lemma marked_prune: "marked T now platform channel tr \<Longrightarrow> before \<le> now \<Longrightarrow> marked (prune T before) now platform channel tr"
  by (fastforce simp: marked_def prune_def)

lemma marked_earlier: "marked T now platform channel tr \<Longrightarrow> before \<le> now \<Longrightarrow> marked T before platform channel tr"
  unfolding marked_def by (meson le_less_trans)

lemma any_must_encrypt_clear:
  "any_must_encrypt U notice reads platform tr i T ids = (Inr False, T') \<Longrightarrow> \<forall>k. fst (reads k) \<le> now \<Longrightarrow> j < length ids \<Longrightarrow>
   \<not> must_protect U notice T (now, snd (reads (i + j))) platform (ids ! j) tr"
proof (induction ids arbitrary: i j T)
  case (Cons x ids)
  obtain m T1 where m: "outbound_must_encrypt U notice T (reads i) platform x tr = (m, T1)" by fastforce
  with Cons.prems(1) have f: "m = Inr False" by (auto split: sum.splits bool.splits)
  with Cons.prems(1) m have r: "any_must_encrypt U notice reads platform tr (Suc i) T1 ids = (Inr False, T')" by simp
  show ?case
  proof (cases j)
    case 0
    then show ?thesis using must_encrypt_clear [of U notice T "reads i"] m f Cons.prems(2) marked_earlier by (fastforce simp: must_protect_def)
  next
    case (Suc j')
    then show ?thesis
      using Cons.IH [OF r Cons.prems(2), of j'] Cons.prems(2,3) marked_prune [of T now platform "ids ! j'" tr "fst (reads i)"] must_encrypt_state [OF m]
      by (auto simp: must_protect_def)
  qed
qed simp

definition narrows :: "enc_threads \<Rightarrow> enc_threads \<Rightarrow> bool" where
  "narrows T T' \<longleftrightarrow> (\<forall>k v. T' k = Some v \<longrightarrow> T k = Some v)"

lemma narrows_refl [simp]: "narrows T T"
  by (simp add: narrows_def)

lemma narrows_trans: "narrows T T1 \<Longrightarrow> narrows T1 T2 \<Longrightarrow> narrows T T2"
  by (simp add: narrows_def)

lemma narrows_prune [simp]: "narrows T (prune T now)"
  using prune_keeps by (simp add: narrows_def)

lemma conversation_key_narrows: "narrows T T' \<Longrightarrow> conversation_key U T' ring platform channel tr kid \<Longrightarrow> conversation_key U T ring platform channel tr kid"
  by (auto simp: narrows_def conversation_key_def)

lemma any_must_encrypt_narrows: "any_must_encrypt U notice reads platform tr i T ids = (r, T') \<Longrightarrow> narrows T T'"
proof (induction ids arbitrary: i T)
  case (Cons x ids)
  obtain m T1 where m: "outbound_must_encrypt U notice T (reads i) platform x tr = (m, T1)" by fastforce
  have "narrows T T1" using must_encrypt_state [OF m] by simp
  then show ?case using Cons m narrows_trans by (fastforce split: sum.splits bool.splits)
qed simp

text \<open>Keys a send to one of several names may use.\<close>

definition usable_key ::
  "('u) ucd_case_scheme \<Rightarrow> enc_threads \<Rightarrow> (nat \<Rightarrow> real \<times> channel_keys result) \<Rightarrow> bytes option result \<Rightarrow> py_str \<Rightarrow> py_str list \<Rightarrow> py_str option \<Rightarrow> bytes \<Rightarrow> bool" where
  "usable_key U T reads pairing platform ids tr key \<longleftrightarrow>
     (\<exists>i. held (snd (reads i)) pairing key) \<and>
     (\<exists>cid \<in> set ids. \<exists>i. conversation_key U T (snd (reads i)) platform cid tr (key_id key))"

lemma discord_key_conversation:
  "discord_key_id U reads tr i T kid0 ids = (Inr (Some kid), T') \<Longrightarrow> kid \<noteq> [] \<Longrightarrow> \<not> truthy kid0 \<Longrightarrow>
   \<exists>cid \<in> set ids. \<exists>k. conversation_key U T (snd (reads k)) (str_lit ''discord'') cid tr kid"
proof (induction ids arbitrary: i T kid0)
  case (Cons cid ids)
  obtain r T1 where r: "outbound_key_id U T (reads i) (str_lit ''discord'') cid tr = (r, T1)" by fastforce
  then obtain kid1 where k: "r = Inr kid1" using Cons.prems(1) by (cases r) auto
  show ?case
  proof (cases "truthy kid1")
    case True
    then have "conversation_key U T (snd (reads i)) (str_lit ''discord'') cid tr kid"
      using Cons.prems(1) r k outbound_key_conversation by simp
    then show ?thesis by auto
  next
    case False
    then have "discord_key_id U reads tr (Suc (Suc i)) T1 kid1 ids = (Inr (Some kid), T')"
      using Cons.prems r k by (auto simp: truthy_def split: sum.splits if_splits)
    from Cons.IH [OF this Cons.prems(2) False] show ?thesis
      using conversation_key_narrows [of T T1] outbound_key_state [OF r] by fastforce
  qed
qed (simp add: truthy_def)

lemma key_id_nonempty: "key_id k \<noteq> []"
  using key_id_facts(1) [of k] by force

lemma discord_encrypted_effects:
  assumes "discord_encrypted_send C U w T content tr ids = (es, out, T')" "x \<in> set es"
  shows "protected C U (usable_key U T (w_reads w) (w_pairing w) (str_lit ''discord'') ids tr) (str_lit ''discord'') (hd ids) tr x"
proof -
  obtain r T1 where k: "discord_key_id U (\<lambda>i. w_reads w (length ids + i)) tr 0 T None ids = (r, T1)" by fastforce
  then obtain kid where r: "r = Inr kid" using assms by (cases r) (auto simp: discord_encrypted_send_def)
  obtain key where key: "reply_key (snd (w_reads w (3 * length ids))) (w_pairing w) kid = Inr (Some key)"
    using assms k r by (auto simp: discord_encrypted_send_def split: sum.splits option.splits)
  from reply_key_held [OF this] have h: "kid = Some (key_id key)" "held (snd (w_reads w (3 * length ids))) (w_pairing w) key" by simp_all
  have "\<not> truthy None" by (simp add: truthy_def)
  then have "\<exists>cid \<in> set ids. \<exists>i. conversation_key U T (snd (w_reads w (length ids + i))) (str_lit ''discord'') cid tr (key_id key)"
    using discord_key_conversation [of U "\<lambda>i. w_reads w (length ids + i)"] k r h(1) key_id_nonempty by blast
  then have u: "usable_key U T (w_reads w) (w_pairing w) (str_lit ''discord'') ids tr key"
    using h(2) unfolding usable_key_def by blast
  obtain chunks mids e where
    "encrypt_reply C U key content (w_max w) (Some (discord_mention U)) (str_lit ''discord'') (hd ids) tr (w_draws w) = Inr chunks"
    "post_chunks (w_post w) 0 chunks = (es, mids, e)"
    using assms k r key by (auto simp: discord_encrypted_send_def Let_def split: sum.splits prod.splits option.splits)
  then show ?thesis by (rule posted_protected [where x = x, OF _ _ assms(2)]) (rule u)
qed

lemma usable_key_narrows: "narrows T T' \<Longrightarrow> usable_key U T' reads pairing platform ids tr key \<Longrightarrow> usable_key U T reads pairing platform ids tr key"
  unfolding usable_key_def using conversation_key_narrows by blast

lemma protected_mono: "protected C U P platform chat tr x \<Longrightarrow> (\<And>k. P k \<Longrightarrow> Q k) \<Longrightarrow> protected C U Q platform chat tr x"
  unfolding protected_def by blast

lemma discord_effects:
  assumes "discord_send C U w channel T chat content thread = (es, out, T')" "w_live w" "x \<in> set es"
    "\<forall>k. fst (w_reads w k) \<le> now" "tr = (if thread = Some [] then None else thread)"
  shows "\<exists>parent ids. channel = Inr parent \<and> ids = discord_ids chat tr parent \<and>
    (x = Original content \<and> (\<forall>j < length ids. \<not> must_protect U (w_notice w) T (now, snd (w_reads w j)) (str_lit ''discord'') (ids ! j) tr) \<or>
     protected C U (usable_key U T (w_reads w) (w_pairing w) (str_lit ''discord'') ids tr) (str_lit ''discord'') (hd ids) tr x)"
proof (cases channel)
  case (Inr parent)
  let ?ids = "discord_ids chat tr parent"
  obtain m T1 where m: "any_must_encrypt U (w_notice w) (w_reads w) (str_lit ''discord'') tr 0 T ?ids = (m, T1)" by fastforce
  show ?thesis
  proof (cases "m = Inr False")
    case True
    then have "x = Original content" using assms m Inr by (auto simp: discord_send_def Let_def split: if_splits)
    moreover have "\<forall>j < length ?ids. \<not> must_protect U (w_notice w) T (now, snd (w_reads w j)) (str_lit ''discord'') (?ids ! j) tr"
      using any_must_encrypt_clear [of U "w_notice w" "w_reads w" _ tr 0 T ?ids T1] m True assms(4) by fastforce
    ultimately show ?thesis using Inr by blast
  next
    case False
    then have "discord_encrypted_send C U w T1 content tr ?ids = (es, out, T')"
      using assms m Inr by (auto simp: discord_send_def Let_def split: sum.splits if_splits)
    from discord_encrypted_effects [OF this assms(3)]
    have "protected C U (usable_key U T (w_reads w) (w_pairing w) (str_lit ''discord'') ?ids tr) (str_lit ''discord'') (hd ?ids) tr x"
      by (rule protected_mono) (rule usable_key_narrows [OF any_must_encrypt_narrows [OF m]])
    then show ?thesis using Inr by (intro exI [of _ parent] exI [of _ ?ids]) simp
  qed
qed (use assms in \<open>simp add: discord_send_def Let_def split: if_splits\<close>)

section \<open>The standalone sender protects as much\<close>

lemma choose_key_usable:
  "choose_key U reads pairing platform tr i T ids = (Inr key, T') \<Longrightarrow> usable_key U T reads pairing platform ids tr key"
proof (induction ids arbitrary: i T)
  case (Cons cid ids)
  obtain r T1 where r: "outbound_key_id U T (reads i) platform cid tr = (r, T1)" by fastforce
  then obtain kid where k: "r = Inr kid" using Cons.prems by (cases r) auto
  obtain known T2 where e: "is_encrypted_thread T1 (fst (reads (i + 2))) platform cid tr = (known, T2)" by fastforce
  let ?use = "r_bind (reply_key (snd (reads (i + 3))) pairing kid)
                (\<lambda>key. case key of None \<Rightarrow> Inl (refused ''mordred_encrypt_unavailable'') | Some k \<Rightarrow> Inr k)"
  have "?use = Inr key \<or> choose_key U reads pairing platform tr (i + 4) T2 ids = (Inr key, T')"
    using Cons.prems r k e by (simp add: Let_def split: if_splits sum.splits)
  then show ?case
  proof
    assume "?use = Inr key"
    then have "reply_key (snd (reads (i + 3))) pairing kid = Inr (Some key)" by (auto simp: r_bind_Inr_iff split: option.splits)
    from reply_key_held [OF this] have h: "kid = Some (key_id key)" "held (snd (reads (i + 3))) pairing key" by simp_all
    with r k outbound_key_conversation have "conversation_key U T (snd (reads i)) platform cid tr (key_id key)" by blast
    then show ?thesis using h(2) by (auto simp: usable_key_def)
  next
    assume "choose_key U reads pairing platform tr (i + 4) T2 ids = (Inr key, T')"
    from Cons.IH [OF this] have u: "usable_key U T2 reads pairing platform ids tr key" .
    have "narrows T T2"
      using narrows_trans [of T T1 T2] outbound_key_state [OF r] e by (auto simp: is_encrypted_thread_def Let_def)
    from usable_key_narrows [OF this u] show ?thesis by (auto simp: usable_key_def)
  qed
qed simp

lemma standalone_key_Some:
  assumes "standalone_key U w T platform ids tr media = (Inr (Some key), T')"
  shows "usable_key U T (w_reads w) (w_pairing w) platform ids tr key \<and> \<not> media"
proof -
  obtain m T1 where m: "any_must_encrypt U (w_notice w) (w_reads w) platform tr 0 T ids = (m, T1)" by fastforce
  then have t: "m = Inr True" using assms by (auto simp: standalone_key_def split: sum.splits bool.splits)
  obtain k T2 where k: "choose_key U (\<lambda>i. w_reads w (length ids + i)) (w_pairing w) platform tr 0 T1 ids = (k, T2)" by fastforce
  then have "k = Inr key" "\<not> media" using assms m t by (auto simp: standalone_key_def r_bind_Inr_iff split: if_splits)
  then have "usable_key U T1 (\<lambda>i. w_reads w (length ids + i)) (w_pairing w) platform ids tr key" using k choose_key_usable by blast
  then have "usable_key U T1 (w_reads w) (w_pairing w) platform ids tr key" unfolding usable_key_def by blast
  then show ?thesis using usable_key_narrows [OF any_must_encrypt_narrows [OF m]] \<open>\<not> media\<close> by blast
qed

lemma standalone_key_None:
  assumes "standalone_key U w T platform ids tr media = (Inr None, T')" "\<forall>k. fst (w_reads w k) \<le> now" "j < length ids"
  shows "\<not> must_protect U (w_notice w) T (now, snd (w_reads w j)) platform (ids ! j) tr"
proof -
  obtain m T1 where m: "any_must_encrypt U (w_notice w) (w_reads w) platform tr 0 T ids = (m, T1)" by fastforce
  then have "m = Inr False" using assms(1) by (auto simp: standalone_key_def r_bind_Inr_iff split: sum.splits bool.splits if_splits prod.splits)
  then show ?thesis using any_must_encrypt_clear [of U "w_notice w" "w_reads w" platform tr 0 T ids T1] m assms(2,3) by fastforce
qed

text \<open>Where a standalone send goes: every name the destination is checked under, the one it is posted to first.\<close>

definition standalone_ids :: "('w) standalone_world_scheme \<Rightarrow> py_str \<Rightarrow> py_str \<Rightarrow> py_str option \<Rightarrow> py_str list option" where
  "standalone_ids w platform chat tr =
     (if platform = str_lit ''slack'' then
        (if SLACK_CHANNEL chat then Some [chat] else case sa_open w of Inr (True, Some resolved) \<Rightarrow> Some [resolved] | _ \<Rightarrow> None)
      else let tid = (case tr of Some t \<Rightarrow> if t \<noteq> [] then t else chat | None \<Rightarrow> chat)
           in case r_bind (sa_info w) (discord_context tid chat tr) of
                Inr (kind, parent) \<Rightarrow> Some (discord_ids chat (Some tid) parent)
              | Inl e \<Rightarrow> None)"

lemma discord_ids_hd: "tid \<noteq> [] \<Longrightarrow> hd (discord_ids chat (Some tid) parent) = tid"
proof -
  have h: "acc \<noteq> [] \<Longrightarrow> hd (foldl add_new acc xs) = hd acc" for acc and xs :: "py_str list"
    by (induction xs arbitrary: acc) (auto simp: add_new_def)
  have "tid \<noteq> [] \<Longrightarrow> discord_ids chat (Some tid) parent = foldl add_new [tid] (filter (\<lambda>x. x \<noteq> []) ([chat] @ (case parent of Some p \<Rightarrow> [p] | None \<Rightarrow> [])))"
    by (simp add: discord_ids_def dedupe_def add_new_def)
  then show "tid \<noteq> [] \<Longrightarrow> hd (discord_ids chat (Some tid) parent) = tid" using h [of "[tid]"] by simp
qed

lemma post_text_effects:
  assumes "x \<in> set (fst (post_text C U w platform chat tr message key))" "usable key"
  shows "protected C U usable platform chat tr x"
proof -
  from assms(1) obtain re max_len chunks es ids r where
    "encrypt_reply C U key message max_len re platform chat tr (w_draws w) = Inr chunks"
    "post_chunks (checked_post (w_post w)) 0 chunks = (es, ids, r)" "x \<in> set es"
    by (auto simp: post_text_def Let_def split: sum.splits prod.splits option.splits)
  then show ?thesis by (rule posted_protected [where x = x]) (rule assms(2))
qed

text \<open>One handler's result: nothing handed out and delegation, or encrypted texts only.\<close>

definition handled ::
  "('x) e2e_crypto_scheme \<Rightarrow> ('u) ucd_case_scheme \<Rightarrow> ('w) standalone_world_scheme \<Rightarrow> enc_threads \<Rightarrow> real \<Rightarrow> py_str \<Rightarrow> py_str \<Rightarrow> py_str option \<Rightarrow> bool \<Rightarrow>
   delivery \<Rightarrow> bool" where
  "handled C U w T now platform chat tr media d \<longleftrightarrow>
     (case d of (es, r, T') \<Rightarrow>
       (r = Inr None \<longrightarrow> es = [] \<and> (\<exists>ids. standalone_ids w platform chat tr = Some ids \<and>
          (\<forall>j < length ids. \<not> must_protect U (w_notice w) T (now, snd (w_reads w j)) platform (ids ! j) tr))) \<and>
       (\<forall>x \<in> set es. \<not> media \<and> (\<exists>ids. standalone_ids w platform chat tr = Some ids \<and>
          protected C U (usable_key U T (w_reads w) (w_pairing w) platform ids tr) platform (hd ids) tr x)))"

lemma handled_nothing [simp]: "handled C U w T now platform chat tr media ([], Inl e, T')"
  by (simp add: handled_def)

lemma handled_clear:
  assumes "standalone_ids w platform chat tr = Some ids" "standalone_key U w T platform ids tr media = (Inr None, T')" "\<forall>k. fst (w_reads w k) \<le> now"
  shows "handled C U w T now platform chat tr media ([], Inr None, T')"
  using standalone_key_None [OF assms(2,3)] assms(1) by (simp add: handled_def)

lemma handled_post:
  assumes "standalone_ids w platform chat tr = Some ids" "standalone_key U w T platform ids tr media = (Inr (Some key), T')"
  shows "handled C U w T now platform chat tr media (delivered (post_text C U w platform (hd ids) tr message key) T')"
proof -
  have "protected C U (usable_key U T (w_reads w) (w_pairing w) platform ids tr) platform (hd ids) tr x"
    if "x \<in> set (fst (post_text C U w platform (hd ids) tr message key))" for x
    by (rule post_text_effects [OF that]) (use standalone_key_Some [OF assms(2)] in simp)
  moreover have "r_bind m (\<lambda>i. Inr (Some i)) \<noteq> Inr None" for m :: "py_str option result" by (cases m) simp_all
  ultimately show ?thesis using assms(1) standalone_key_Some [OF assms(2)] by (auto simp: handled_def delivered_def)
qed

lemma slack_handled:
  assumes "\<forall>k. fst (w_reads w k) \<le> now"
  shows "handled C U w T now (str_lit ''slack'') chat tr media (slack_standalone C U w T chat message tr media)"
proof (cases "SLACK_CHANNEL chat")
  case True
  then have ids: "standalone_ids w (str_lit ''slack'') chat tr = Some [chat]" by (simp add: standalone_ids_def)
  show ?thesis
    using True handled_clear [OF ids _ assms] handled_post [OF ids]
    by (auto simp: slack_standalone_def split: prod.split sum.split option.split)
next
  case False
  show ?thesis
  proof (cases "\<exists>resolved. SLACK_USER chat \<and> r_bind (sa_client w) (\<lambda>_. sa_open w) = Inr (True, Some resolved) \<and> SLACK_CHANNEL resolved")
    case True
    then obtain resolved where o: "SLACK_USER chat" "r_bind (sa_client w) (\<lambda>_. sa_open w) = Inr (True, Some resolved)" "SLACK_CHANNEL resolved" by blast
    then have ids: "standalone_ids w (str_lit ''slack'') chat tr = Some [resolved]"
      using False by (auto simp: standalone_ids_def r_bind_Inr_iff)
    show ?thesis
      using False o handled_clear [OF ids _ assms] handled_post [OF ids]
      by (auto simp: slack_standalone_def split: prod.split sum.split option.split)
  qed (use False in \<open>auto simp: slack_standalone_def split: prod.split sum.split option.split bool.split\<close>)
qed

lemma discord_handled:
  assumes "\<forall>k. fst (w_reads w k) \<le> now"
  shows "handled C U w T now (str_lit ''discord'') chat tr media (discord_standalone C U w T chat message tr media)"
proof -
  define tid where "tid = (case tr of Some t \<Rightarrow> if t \<noteq> [] then t else chat | None \<Rightarrow> chat)"
  show ?thesis
  proof (cases "\<exists>kind parent. SNOWFLAKE tid \<and> r_bind (r_bind (sa_client w) (\<lambda>_. sa_info w)) (discord_context tid chat tr) = Inr (kind, parent)")
    case True
    then obtain kind parent where o: "SNOWFLAKE tid" "r_bind (r_bind (sa_client w) (\<lambda>_. sa_info w)) (discord_context tid chat tr) = Inr (kind, parent)" by blast
    then have "r_bind (sa_info w) (discord_context tid chat tr) = Inr (kind, parent)" by (auto simp: r_bind_Inr_iff)
    moreover have "str_lit ''discord'' \<noteq> str_lit ''slack''" by (simp add: str_lit_def)
    ultimately have ids: "standalone_ids w (str_lit ''discord'') chat tr = Some (discord_ids chat (Some tid) parent)"
      by (simp add: standalone_ids_def flip: tid_def)
    have h: "hd (discord_ids chat (Some tid) parent) = tid" using o(1) by (simp add: discord_ids_hd SNOWFLAKE_def)
    show ?thesis
      using o handled_clear [OF ids _ assms] handled_post [OF ids, unfolded h]
      by (auto simp: discord_standalone_def Let_def split: prod.split sum.split option.split simp flip: tid_def)
  qed (auto simp: discord_standalone_def Let_def split: prod.split sum.split option.split simp flip: tid_def)
qed

lemma guarded_effects:
  assumes "guarded C U w T platform chat_id message thread_id media = (es, out, T')" "platform \<in> {str_lit ''slack'', str_lit ''discord''}"
    "x \<in> set es" "\<forall>k. fst (w_reads w k) \<le> now"
  shows "\<exists>chat m tr ids. chat_id = Some chat \<and> message = Some m \<and> tr = Option.bind thread_id id \<and> standalone_ids w platform chat tr = Some ids \<and>
    (x = Original m \<and> (\<forall>j < length ids. \<not> must_protect U (w_notice w) T (now, snd (w_reads w j)) platform (ids ! j) tr) \<or>
     \<not> media \<and> protected C U (usable_key U T (w_reads w) (w_pairing w) platform ids tr) platform (hd ids) tr x)"
proof -
  obtain es1 r T1 where d: "checked_delivery C U w T platform chat_id message thread_id media = (es1, r, T1)" by (cases "checked_delivery C U w T platform chat_id message thread_id media")
  have g: "x \<in> set es1 \<or> r = Inr None \<and> x = Original (case message of Some m \<Rightarrow> m | None \<Rightarrow> [])"
    using assms(1-3) d by (auto simp: guarded_def Let_def split: sum.splits option.splits)
  have ok: "\<not> (chat_id = None \<or> chat_id = Some [] \<or> message = None \<or> thread_id = Some None \<or> thread_id = Some (Some []))"
  proof
    assume "chat_id = None \<or> chat_id = Some [] \<or> message = None \<or> thread_id = Some None \<or> thread_id = Some (Some [])"
    then have "checked_delivery C U w T platform chat_id message thread_id media = ([], Inl no_context, T)" by (simp add: checked_delivery_def)
    then show False using d g by simp
  qed
  then obtain chat m where c: "chat_id = Some chat" "message = Some m" by auto
  have "handled C U w T now platform chat (Option.bind thread_id id) media (checked_delivery C U w T platform chat_id message thread_id media)"
    using assms(2) slack_handled [OF assms(4)] discord_handled [OF assms(4)] ok c unfolding checked_delivery_def
    by (cases "platform = str_lit ''slack''") simp_all
  then have h: "r = Inr None \<longrightarrow> (\<exists>ids. standalone_ids w platform chat (Option.bind thread_id id) = Some ids \<and>
        (\<forall>j < length ids. \<not> must_protect U (w_notice w) T (now, snd (w_reads w j)) platform (ids ! j) (Option.bind thread_id id)))"
      "x \<in> set es1 \<longrightarrow> \<not> media \<and> (\<exists>ids. standalone_ids w platform chat (Option.bind thread_id id) = Some ids \<and>
        protected C U (usable_key U T (w_reads w) (w_pairing w) platform ids (Option.bind thread_id id)) platform (hd ids) (Option.bind thread_id id) x)"
    unfolding handled_def d by simp_all
  from g show ?thesis
  proof
    assume "x \<in> set es1"
    then show ?thesis using h(2) c by blast
  next
    assume r: "r = Inr None \<and> x = Original (case message of Some m \<Rightarrow> m | None \<Rightarrow> [])"
    then have "x = Original m" using c by simp
    then show ?thesis using h(1) r c by blast
  qed
qed

end
