(* ===== verification/E2E_Safety.thy ===== *)
theory E2E_Safety
  imports E2E_Outbound
begin

text \<open>
  What the senders promise. Each of the three classifies every text a send hands out: the unencrypted original, and then
  neither reason to encrypt held, or a text of the wrapper itself. The last two compose the inbound gateway with the senders.
\<close>




section \<open>Inbound and outbound agree\<close>

lemma matches_lenient: "channel_key_matches U stored platform channel scope hosts \<Longrightarrow> channel_key_matches U stored platform channel None None"
  by (auto simp: channel_key_matches_def Let_def split: if_splits)

lemma bound_must_encrypt:
  assumes "bound U ring platform channel" "platform \<in> set MANDATORY_ENCRYPTION_PLATFORMS"
  shows "fst (outbound_must_encrypt U False T (now, ring) platform channel tr) = Inr True"
  using bound_ids_of [OF assms(1)] assms(2) by (auto simp: outbound_must_encrypt_def split: prod.split)

lemma envelope_key:
  assumes "decrypt_gateway_envelope C U ring text platform chat thread parent scope hosts = Inr (Some (plaintext, kid, replay))"
  shows "chat \<noteq> [] \<and> (\<exists>key. context_channel_key U ring kid (uc_lower U platform) chat parent scope hosts = Inr key)"
proof -
  have c: "chat \<noteq> []" "decrypt_gateway_claim C U ring text (uc_lower U platform) chat thread parent scope hosts = Inr (plaintext, kid, replay)"
    using assms by (auto simp: decrypt_gateway_envelope_def r_bind_Inr_iff split: if_splits)
  then show ?thesis unfolding decrypt_gateway_claim_def Let_def by (auto simp: r_bind_Inr_iff split: if_splits)
qed

text \<open>C12: The two directions agree. If the gateway accepted an encrypted command from a conversation of a mandatory platform, then its
  channel, or the parent whose key it inherits, is ciphertext-only for the senders too, on the key store alone: after a restart or
  once the mark has expired (whatever the registry, the clock and the thread), outbound_must_encrypt says yes.\<close>

theorem accepted_channel_protected:
  assumes "decrypt_gateway_envelope C U ring text platform chat thread parent scope hosts = Inr (Some (plaintext, kid, replay))"
    "uc_lower U platform \<in> set MANDATORY_ENCRYPTION_PLATFORMS"
  shows "\<exists>channel. (channel = chat \<or> parent = Some channel) \<and>
    (\<forall>T now tr. fst (outbound_must_encrypt U False T (now, ring) (uc_lower U platform) channel tr) = Inr True)"
proof -
  obtain key where k: "chat \<noteq> []" "context_channel_key U ring kid (uc_lower U platform) chat parent scope hosts = Inr key"
    using envelope_key [OF assms(1)] by blast
  obtain keys stored where s: "ring = Inr keys" "(stored, key) \<in> set keys"
    "channel_key_matches U stored (uc_lower U platform) chat scope hosts \<or>
     (\<exists>p. parent = Some p \<and> p \<noteq> [] \<and> channel_key_matches U stored (uc_lower U platform) p scope hosts)"
    by (rule context_channel_key_Inr [OF k(2)])
  from s(3) obtain channel where c: "channel = chat \<or> parent = Some channel" "channel \<noteq> []"
      "channel_key_matches U stored (uc_lower U platform) channel None None"
    using k(1) matches_lenient by blast
  then have "bound U ring (uc_lower U platform) channel"
    using s(1,2) mandatory_nonempty [OF assms(2)] by (auto simp: bound_def)
  from bound_must_encrypt [OF this assms(2)] show ?thesis using c(1) by (intro exI [of _ channel]) simp
qed

section \<open>Reply in kind\<close>

lemma post_chunks_all:
  "\<forall>i. \<exists>ident. post i = Inr ident \<Longrightarrow> \<exists>ids. post_chunks post i chunks = (map Posted chunks, ids, None)"
proof (induction chunks arbitrary: i)
  case (Cons c cs)
  obtain ident ids where "post i = Inr ident" "post_chunks post (Suc i) cs = (map Posted cs, ids, None)" using Cons by metis
  then show ?case by simp
qed simp

lemma key_index_unique:
  assumes "(s, key) \<in> set keys" "\<forall>(s, k) \<in> set keys. key_id k = key_id key \<longrightarrow> k = key"
  shows "reply_key (Inr keys) (Inr p) (Some (key_id key)) = Inr (Some key)"
proof -
  have "foldl (\<lambda>m (s, raw). m(key_id raw \<mapsto> raw)) m keys (key_id key) = Some key"
    if "m (key_id key) = Some key \<or> (\<exists>s. (s, key) \<in> set keys)" "\<forall>(s, k) \<in> set keys. key_id k = key_id key \<longrightarrow> k = key"
    for m and keys :: channel_keys
    using that by (induction keys arbitrary: m) (auto split: if_splits)
  then have "foldl (\<lambda>m (s, raw). m(key_id raw \<mapsto> raw)) Map.empty keys (key_id key) = Some key" using assms by blast
  then show ?thesis
    by (auto simp: reply_key_def key_index_def Let_def key_id_nonempty split: option.split)
qed

lemma prune_fresh: "T k = Some (expiry, kid) \<Longrightarrow> now < expiry \<Longrightarrow> prune T now k = Some (expiry, kid)"
  by (simp add: prune_def)

lemma reply_in_kind:
  assumes "mark_encrypted_thread T t0 (str_lit ''slack'') chat tr (Some (key_id key)) = (True, T1)"
    "w_live w" "\<forall>k. fst (w_reads w k) < t0 + ENC_TTL" "\<forall>i. \<exists>ident. w_post w i = Inr ident"
    "snd (w_reads w 2) = Inr keys" "(s, key) \<in> set keys" "\<forall>(s, k) \<in> set keys. key_id k = key_id key \<longrightarrow> k = key" "w_pairing w = Inr p"
    "\<forall>i. v3_writable C U key (str_lit ''reply'') (str_lit ''slack'') chat tr (fst (w_draws w i)) 0 1 (snd (w_draws w i)) []"
    "reply_prefix (Some slack_mention) content = (prefix, body)" "list_all is_scalar body"
    "88 \<le> w_max w" "84 + int (length prefix) \<le> w_max w" "w_max w \<le> 2 ^ 30"
  shows "\<exists>wire wires piece pieces ident T'.
    slack_send C U w (Inr tr) (Inr ()) T1 chat content = (map Posted (wire # wires), Returned (Inr ident), T') \<and>
    concat (piece # pieces) = body \<and> int (length wire) \<le> w_max w \<and> carries C U key prefix (str_lit ''slack'') chat tr wire piece \<and>
    list_all2 (\<lambda>w' p. int (length w') \<le> w_max w \<and> carries C U key [] (str_lit ''slack'') chat tr w' p) wires pieces"
proof -
  obtain wire wires piece pieces where e:
    "encrypt_reply C U key content (w_max w) (Some slack_mention) (str_lit ''slack'') chat tr (w_draws w) = Inr (wire # wires)"
    "concat (piece # pieces) = body" "int (length wire) \<le> w_max w" "carries C U key prefix (str_lit ''slack'') chat tr wire piece"
    "list_all2 (\<lambda>w' p. int (length w') \<le> w_max w \<and> carries C U key [] (str_lit ''slack'') chat tr w' p) wires pieces"
    using encrypt_reply_whole [OF assms(9-14)] by blast
  obtain ids where i: "post_chunks (w_post w) 0 (wire # wires) = (map Posted (wire # wires), ids, None)"
    using post_chunks_all [OF assms(4)] by blast
  let ?k = "(str_lit ''slack'', chat, tr)"
  have T1: "T1 ?k = Some (t0 + ENC_TTL, Some (key_id key))" using assms(1) by (auto simp: mark_encrypted_thread_def split: if_splits)
  obtain T2 where m: "outbound_must_encrypt U (w_notice w) T1 (w_reads w 0) (str_lit ''slack'') chat tr = (Inr True, T2)"
      "T2 = prune T1 (fst (w_reads w 0))"
    using prune_fresh [of T1 ?k "t0 + ENC_TTL" "Some (key_id key)", OF T1, of "fst (w_reads w 0)"] assms(3)
    by (simp add: outbound_must_encrypt_def is_encrypted_thread_def Let_def thread_entry_def)
  have T2: "T2 ?k = Some (t0 + ENC_TTL, Some (key_id key))" using prune_fresh [of T1 ?k "t0 + ENC_TTL" "Some (key_id key)", OF T1] assms(3) m(2) by simp
  obtain T3 where o: "outbound_key_id U T2 (w_reads w 1) (str_lit ''slack'') chat tr = (Inr (Some (key_id key)), T3)"
    using prune_fresh [of T2 ?k "t0 + ENC_TTL" "Some (key_id key)", OF T2, of "fst (w_reads w 1)"] assms(3) key_id_nonempty
    by (simp add: outbound_key_id_def thread_key_id_def Let_def thread_entry_def truthy_def)
  have "slack_send C U w (Inr tr) (Inr ()) T1 chat content = (map Posted (wire # wires), Returned (Inr (if ids = [] then None else last ids)), T3)"
    using assms(2) m(1) o key_index_unique [OF assms(6,7)] assms(5,8) e(1) i
    by (simp add: slack_send_def slack_encrypted_send_def)
  then show ?thesis using e(2-5) by blast
qed


section \<open>Concrete runs\<close>

definition demo_send_world :: "channel_keys \<Rightarrow> send_world" where
  "demo_send_world keys = \<lparr>w_live = True, w_notice = False, w_max = 100, w_reads = (\<lambda>i. (2, Inr keys)), w_pairing = Inr None,
     w_draws = (\<lambda>i. (demo_rid, demo_nonce)), w_post = (\<lambda>i. Inr (Some (str_lit ''1'')))\<rparr>"

lemma demo_world_simps [simp]:
  "w_live (demo_send_world keys)" "\<not> w_notice (demo_send_world keys)" "w_max (demo_send_world keys) = 100" "w_reads (demo_send_world keys) i = (2, Inr keys)"
  "w_pairing (demo_send_world keys) = Inr None" "w_draws (demo_send_world keys) i = (demo_rid, demo_nonce)"
  "w_post (demo_send_world keys) i = Inr (Some (str_lit ''1''))"
  by (simp_all add: demo_send_world_def)

definition demo_threads :: enc_threads where
  "demo_threads = snd (mark_encrypted_thread Map.empty 1 (str_lit ''slack'') (str_lit ''C1'') None (Some (key_id demo_channel_key)))"

lemma demo_mark: "mark_encrypted_thread Map.empty 1 (str_lit ''slack'') (str_lit ''C1'') None (Some (key_id demo_channel_key)) = (True, demo_threads)"
  by (simp add: demo_threads_def mark_encrypted_thread_def str_lit_def)

lemma demo_reply_facts:
  "\<forall>k. fst (w_reads (demo_send_world demo_keys) k) < 1 + ENC_TTL" "\<forall>i. \<exists>ident. w_post (demo_send_world demo_keys) i = Inr ident"
  "snd (w_reads (demo_send_world demo_keys) 2) = Inr demo_keys" "(str_lit ''slack:T1:C1'', demo_channel_key) \<in> set demo_keys"
  "\<forall>(s, k) \<in> set demo_keys. key_id k = key_id demo_channel_key \<longrightarrow> k = demo_channel_key" "w_pairing (demo_send_world demo_keys) = Inr None"
  "\<forall>i. v3_writable demo_e2e demo_case demo_channel_key (str_lit ''reply'') (str_lit ''slack'') (str_lit ''C1'') None (fst (w_draws (demo_send_world demo_keys) i)) 0 1
     (snd (w_draws (demo_send_world demo_keys) i)) []"
  "list_all is_scalar (str_lit ''hi'')" "88 \<le> w_max (demo_send_world demo_keys)" "84 + int (length (str_lit ''<@U1>'')) \<le> w_max (demo_send_world demo_keys)"
  "w_max (demo_send_world demo_keys) \<le> 2 ^ 30"
proof -
  show "\<forall>i. v3_writable demo_e2e demo_case demo_channel_key (str_lit ''reply'') (str_lit ''slack'') (str_lit ''C1'') None (fst (w_draws (demo_send_world demo_keys) i)) 0 1
     (snd (w_draws (demo_send_world demo_keys) i)) []"
    unfolding demo_world_simps fst_conv snd_conv by (intro allI demo_writable_text) (simp_all add: is_ascii_def)
qed (simp_all add: ENC_TTL_def demo_keys_def str_lit_def is_scalar_def is_surrogate_def)



lemma demo_unbound:
  "p \<in> {str_lit ''slack'', str_lit ''discord''} \<Longrightarrow> outbound_must_encrypt demo_case False Map.empty (2, Inr []) p c None = (Inr False, Map.empty)"
  by (auto simp: outbound_must_encrypt_def is_encrypted_thread_def Let_def thread_entry_def prune_def bound_channel_key_ids_def)


definition demo_standalone :: standalone_world where
  "demo_standalone = send_world.extend (demo_send_world []) \<lparr>sa_client = Inr (), sa_open = Inr (False, None), sa_info = Inr (None, None, No_parent)\<rparr>"


lemma accepted_channel_protected_witness:
  "fst (outbound_must_encrypt demo_case False Map.empty (2, Inr demo_keys) (str_lit ''slack'') (str_lit ''C1'') None) = Inr True"
proof -
  obtain wire where a: "decrypt_gateway_envelope demo_e2e demo_case (Inr demo_keys) (str_lit ''<@U1> '' @ wire @ []) (str_lit ''Slack'') (str_lit ''C1'') None None
     (Some (str_lit ''T1'')) None =
   Inr (Some (str_lit ''hi'', key_id demo_channel_key, (message_identity (key_id demo_channel_key) (b64u_encode demo_rid), nonce_identity (key_id demo_channel_key) demo_nonce)))"
    using demo_accepted by blast
  have "uc_lower demo_case (str_lit ''Slack'') \<in> set MANDATORY_ENCRYPTION_PLATFORMS"
    unfolding demo_lower by (simp add: MANDATORY_ENCRYPTION_PLATFORMS_def)
  from accepted_channel_protected [OF a this] show ?thesis unfolding demo_lower by simp
qed

end
