(* ===== verification/Py_Dict.thy ===== *)
theory Py_Dict
  imports Py_Json
begin

text \<open>
  A parsed JSON object as the \<open>dict\<close> it is in Python: reading, assigning, updating and popping keys, and the truth value of
  a JSON value.
\<close>

type_synonym kvs = "(py_str \<times> json) list"

definition jstr :: "string \<Rightarrow> json" where "jstr s = JStr (str_lit s)"

definition json_truthy :: "json \<Rightarrow> bool" where
  "json_truthy v = (case v of JNull \<Rightarrow> False | JBool b \<Rightarrow> b | JInt i \<Rightarrow> i \<noteq> 0 | JFloat m e \<Rightarrow> m \<noteq> 0 | JNaN \<Rightarrow> True | JInf _ \<Rightarrow> True
     | JStr s \<Rightarrow> s \<noteq> [] | JList xs \<Rightarrow> xs \<noteq> [] | JObj d \<Rightarrow> d \<noteq> [])"

definition dict_pop :: "string \<Rightarrow> kvs \<Rightarrow> kvs" where
  "dict_pop k d = filter (\<lambda>(k', v). k' \<noteq> str_lit k) d"

definition dict_update :: "kvs \<Rightarrow> (string \<times> json) list \<Rightarrow> kvs" where
  "dict_update d upd = foldl (\<lambda>d (k, v). dict_put (str_lit k) v d) d upd"

lemma dget_put: "obj_get (dict_put (str_lit k) v d) k' = (if k' = k then v else obj_get d k')"
  by (simp add: obj_get_def map_of_dict_put str_lit_inject)

lemma jstr_not_null [simp]: "jstr s \<noteq> JNull" "JNull \<noteq> jstr s"
  by (simp_all add: jstr_def)

lemma truthy_True [simp]: "json_truthy (JBool True)" "\<not> json_truthy JNull"
  by (simp_all add: json_truthy_def)

lemma dget_update:
  "k' \<notin> fst ` set upd \<Longrightarrow> obj_get (dict_update d upd) k' = obj_get d k'"
proof (induction upd arbitrary: d)
  case (Cons p upd)
  then show ?case by (cases p) (simp add: dict_update_def dget_put)
qed (simp add: dict_update_def)

lemma dget_update1: "obj_get (dict_update d [(k, v)]) k' = (if k' = k then v else obj_get d k')"
  by (simp add: dict_update_def dget_put)

lemma dget_pop: "k' \<noteq> k \<Longrightarrow> obj_get (dict_pop k d) k' = obj_get d k'"
proof -
  assume "k' \<noteq> k"
  then have "str_lit k' \<noteq> str_lit k" by (simp add: str_lit_inject)
  then have "map_of (dict_pop k d) (str_lit k') = map_of d (str_lit k')" by (induction d) (auto simp: dict_pop_def)
  then show ?thesis by (simp add: obj_get_def)
qed

lemma map_of_update: "map_of (dict_update d [(k, v)]) k' = (if k' = str_lit k then Some v else map_of d k')"
  by (simp add: dict_update_def map_of_dict_put)

end
