(* ===== verification/Pairing.thy ===== *)
theory Pairing
  imports E2E_Outbound Py_Dict
begin

text \<open>
  \<open>extension/pairing.py\<close> on POSIX: the two JSON stores behind the cross-process lock, pairing codes, the
  pairing commit, channel keys and the replay cache. A locked section is one step from the stores to a
  result and the stores; a store is what a read finds (nothing, something unusable, or a JSON object), and
  every write has an outcome of its own, because \<open>atomic_write\<close> may raise before or after the new content is
  in place. The clock reads whole microseconds; the rounding of \<open>float\<close> is left out. Random draws, clock
  readings and outcomes are arguments.
\<close>

section \<open>Stores\<close>

datatype store = Missing | Unreadable | Parsed kvs

datatype write_outcome = Written | Failed_before | Failed_after

record pair_stores =
  ps_pending :: store
  ps_state :: store
  ps_webauthn :: bool

definition read_json :: "store \<Rightarrow> kvs result" where
  "read_json s = (case s of Missing \<Rightarrow> Inr [] | Unreadable \<Rightarrow> Inl RuntimeError | Parsed d \<Rightarrow> Inr d)"

definition read_json_strict :: "store \<Rightarrow> kvs result" where
  "read_json_strict s = (case s of Parsed d \<Rightarrow> Inr d | _ \<Rightarrow> Inl RuntimeError)"

definition after_write :: "write_outcome \<Rightarrow> kvs \<Rightarrow> store \<Rightarrow> store" where
  "after_write w d s = (if w = Failed_before then s else Parsed d)"

definition write_result :: "write_outcome \<Rightarrow> unit result" where
  "write_result w = (if w = Written then Inr () else Inl OSError)"

text \<open>\<open>v.get(k)\<close> and \<open>v[k] = x\<close> on a value that may not be a \<open>dict\<close>.\<close>

definition entry_get :: "json \<Rightarrow> string \<Rightarrow> json result" where
  "entry_get e k = (case e of JObj d \<Rightarrow> Inr (obj_get d k) | _ \<Rightarrow> Inl (OtherError ''AttributeError''))"

definition entry_put :: "json \<Rightarrow> string \<Rightarrow> json \<Rightarrow> json result" where
  "entry_put e k v = (case e of JObj d \<Rightarrow> Inr (JObj (dict_put (str_lit k) v d)) | _ \<Rightarrow> Inl TypeError)"

section \<open>Times\<close>

text \<open>A clock reading in microseconds as the JSON number that stands for it in seconds.\<close>

definition stamp :: "int \<Rightarrow> json" where "stamp t = JFloat t (- 6)"

definition secs :: "int \<Rightarrow> real" where "secs t = of_int t / 10 ^ 6"

definition json_num :: "json \<Rightarrow> real option" where
  "json_num v = (case v of JInt i \<Rightarrow> Some (of_int i) | JFloat m e \<Rightarrow> Some (of_int m * 10 powi e) | JBool b \<Rightarrow> Some (if b then 1 else 0) | _ \<Rightarrow> None)"

text \<open>\<open>v < x\<close> and \<open>v > x\<close> for a finite \<open>x\<close>.\<close>

definition num_less :: "json \<Rightarrow> real \<Rightarrow> bool result" where
  "num_less v x = (case v of JNaN \<Rightarrow> Inr False | JInf neg \<Rightarrow> Inr neg
     | _ \<Rightarrow> (case json_num v of Some y \<Rightarrow> Inr (y < x) | None \<Rightarrow> Inl TypeError))"

definition num_greater :: "json \<Rightarrow> real \<Rightarrow> bool result" where
  "num_greater v x = (case v of JNaN \<Rightarrow> Inr False | JInf neg \<Rightarrow> Inr (\<not> neg)
     | _ \<Rightarrow> (case json_num v of Some y \<Rightarrow> Inr (x < y) | None \<Rightarrow> Inl TypeError))"

text \<open>\<open>v.get("expires_at", 0)\<close>\<close>

definition expires_of :: "json \<Rightarrow> json result" where
  "expires_of e = (case e of JObj d \<Rightarrow> Inr (case map_of d (str_lit ''expires_at'') of None \<Rightarrow> JInt 0 | Some v \<Rightarrow> v)
     | _ \<Rightarrow> Inl (OtherError ''AttributeError''))"

section \<open>Pairing codes\<close>

definition CODE_ALPHABET :: py_str where "CODE_ALPHABET = str_lit ''ABCDEFGHJKLMNPQRSTUVWXYZ23456789''"
definition CODE_TTL :: int where "CODE_TTL = 10 * 60 * 10 ^ 6"

definition format_code :: "py_str \<Rightarrow> py_str" where
  "format_code raw16 = str_lit ''MORT-'' @ take 8 raw16 @ str_lit ''-'' @ slice 8 16 raw16"

definition normalize_code :: "('u) ucd_case_scheme \<Rightarrow> py_str \<Rightarrow> py_str" where
  "normalize_code U code =
     (let upper = uc_upper U code;
          upper = (if starts_with_list (str_lit ''MORT'') upper then drop 4 upper else upper)
      in format_code (take 16 (filter (\<lambda>c. c \<in> set CODE_ALPHABET) upper)))"

definition pairing_code_digest :: "py_str \<Rightarrow> py_str result" where
  "pairing_code_digest code = r_bind (ascii_encode code) (\<lambda>b. Inr (sha256_hex b))"

fun unexpired :: "real \<Rightarrow> kvs \<Rightarrow> kvs result" where
  "unexpired now [] = Inr []"
| "unexpired now ((k, v) # d) =
     r_bind (expires_of v) (\<lambda>x. r_bind (num_greater x now) (\<lambda>keep.
       r_bind (unexpired now d) (\<lambda>rest. Inr (if keep then (k, v) # rest else rest))))"

text \<open>\<open>raw\<close>: the sixteen draws of \<open>secrets.choice\<close>.\<close>

definition generate_code :: "py_str \<Rightarrow> int \<Rightarrow> int \<Rightarrow> write_outcome \<Rightarrow> pair_stores \<Rightarrow> (py_str \<times> int) result \<times> pair_stores" where
  "generate_code raw now1 now2 w S =
     (let code = format_code raw; expires_at = now1 + CODE_TTL
      in case r_bind (read_json (ps_pending S)) (unexpired (secs now2)) of
           Inl e \<Rightarrow> (Inl e, S)
         | Inr pending \<Rightarrow>
             (let pending = dict_put code (JObj [(str_lit ''expires_at'', stamp expires_at), (str_lit ''used'', JBool False),
                    (str_lit ''paired_at'', JNull)]) pending
              in (r_bind (write_result w) (\<lambda>_. Inr (code, expires_at)), S\<lparr>ps_pending := after_write w pending (ps_pending S)\<rparr>)))"

definition put_pending :: "write_outcome \<Rightarrow> py_str \<Rightarrow> json \<Rightarrow> kvs \<Rightarrow> pair_stores \<Rightarrow> unit result \<times> pair_stores" where
  "put_pending w code entry pending S =
     (write_result w, S\<lparr>ps_pending := after_write w (dict_put code entry pending) (ps_pending S)\<rparr>)"

definition PAIRING_CODE_DIGEST_FIELD :: string where "PAIRING_CODE_DIGEST_FIELD = ''paired_code_sha256''"

definition pending_entry :: "kvs \<Rightarrow> py_str \<Rightarrow> json" where
  "pending_entry pending code = (case map_of pending code of None \<Rightarrow> JNull | Some e \<Rightarrow> e)"

text \<open>\<open>entry\<close> with the fields of \<open>upd\<close> assigned in order.\<close>

definition assign :: "kvs \<Rightarrow> (string \<times> json) list \<Rightarrow> json" where
  "assign d upd = JObj (foldl (\<lambda>d (k, v). dict_put (str_lit k) v d) d upd)"

definition revoke_code :: "('u) ucd_case_scheme \<Rightarrow> py_str \<Rightarrow> int \<Rightarrow> write_outcome \<Rightarrow> pair_stores \<Rightarrow> bool result \<times> pair_stores" where
  "revoke_code U raw_code now w S =
     (let code = normalize_code U raw_code
      in case read_json (ps_pending S) of
           Inl e \<Rightarrow> (Inl e, S)
         | Inr pending \<Rightarrow>
             (case pending_entry pending code of
                JObj d \<Rightarrow>
                  if obj_get d ''result'' \<noteq> JNull then (Inr False, S)
                  else (case r_bind (read_json (ps_state S)) (\<lambda>state. r_bind (pairing_code_digest code) (\<lambda>h.
                               Inr (obj_get state PAIRING_CODE_DIGEST_FIELD = JStr h))) of
                     Inl e \<Rightarrow> (Inl e, S)
                   | Inr True \<Rightarrow> (Inr False, S)
                   | Inr False \<Rightarrow>
                       (case put_pending w code (assign d [(''used'', JBool True), (''cancelled_at'', stamp now), (''result'', jstr ''failed''),
                                (''fail_reason'', jstr ''cancelled'')]) pending S of
                          (r, S') \<Rightarrow> (r_bind r (\<lambda>_. Inr True), S')))
              | _ \<Rightarrow> (Inr False, S)))"

definition consume_code :: "py_str \<Rightarrow> int \<Rightarrow> int \<Rightarrow> write_outcome \<Rightarrow> pair_stores \<Rightarrow> unit result \<times> pair_stores" where
  "consume_code code now1 now2 w S =
     (case read_json (ps_pending S) of
        Inl e \<Rightarrow> (Inl e, S)
      | Inr pending \<Rightarrow>
          (let entry = pending_entry pending code
           in if entry = JNull then (Inl (PairError (str_lit ''invalid_code'')), S)
              else case r_bind (entry_get entry ''used'') (\<lambda>used.
                     if json_truthy used then Inl (PairError (str_lit ''already_used''))
                     else r_bind (expires_of entry) (\<lambda>x. r_bind (num_less x (secs now1)) (\<lambda>old.
                       if old then Inl (PairError (str_lit ''expired''))
                       else r_bind (entry_put entry ''used'' (JBool True)) (\<lambda>e. entry_put e ''paired_at'' (stamp now2))))) of
                Inl e \<Rightarrow> (Inl e, S)
              | Inr entry' \<Rightarrow> put_pending w code entry' pending S))"

definition code_consumed :: "py_str \<Rightarrow> pair_stores \<Rightarrow> bool result" where
  "code_consumed code S =
     r_bind (read_json (ps_pending S)) (\<lambda>pending.
       let entry = pending_entry pending code
       in if json_truthy entry then r_bind (entry_get entry ''used'') (\<lambda>u. Inr (json_truthy u)) else Inr False)"

definition mark_pair_result :: "py_str \<Rightarrow> json \<Rightarrow> json option \<Rightarrow> write_outcome \<Rightarrow> pair_stores \<Rightarrow> unit result \<times> pair_stores" where
  "mark_pair_result code result fail_reason w S =
     (case read_json (ps_pending S) of
        Inl e \<Rightarrow> (Inl e, S)
      | Inr pending \<Rightarrow>
          (let entry = pending_entry pending code
           in if entry = JNull then (Inr (), S)
              else case r_bind (entry_put entry ''result'' result) (\<lambda>e. case fail_reason of None \<Rightarrow> Inr e | Some r \<Rightarrow> entry_put e ''fail_reason'' r) of
                Inl e \<Rightarrow> (Inl e, S)
              | Inr entry' \<Rightarrow> put_pending w code entry' pending S))"

datatype pair_status = Pending | Paired | Failed json | Consumed

definition pair_outcome :: "('u) ucd_case_scheme \<Rightarrow> py_str \<Rightarrow> pair_stores \<Rightarrow> pair_status result" where
  "pair_outcome U raw_code S =
     (let code = normalize_code U raw_code
      in r_bind (read_json (ps_pending S)) (\<lambda>pending. r_bind (read_json (ps_state S)) (\<lambda>state. r_bind (pairing_code_digest code) (\<lambda>h.
           let entry = pending_entry pending code
           in if obj_get state PAIRING_CODE_DIGEST_FIELD = JStr h then Inr Paired
              else if \<not> json_truthy entry then Inr Pending
              else r_bind (entry_get entry ''used'') (\<lambda>used.
                if \<not> json_truthy used then Inr Pending
                else r_bind (entry_get entry ''result'') (\<lambda>result.
                  if result = jstr ''paired'' then Inr Paired
                  else if result = jstr ''failed'' then
                    r_bind (entry_get entry ''fail_reason'') (\<lambda>r. Inr (Failed (if json_truthy r then r else jstr ''unknown'')))
                  else Inr Consumed))))))"

section \<open>The active pairing\<close>

record pairing =
  pr_aes_key :: bytes
  pr_ext_token :: py_str
  pr_ext_pubkey :: py_str
  pr_hermes_pubkey :: py_str
  pr_paired_at :: int

text \<open>What \<open>load_pairing\<close> returns; only the key is decoded.\<close>

record loaded_pairing =
  lp_aes_key :: bytes
  lp_ext_token :: json
  lp_ext_pubkey :: json
  lp_hermes_pubkey :: json
  lp_paired_at :: json

definition decode_json_b64u :: "json \<Rightarrow> bytes result" where
  "decode_json_b64u v = (case v of JStr s \<Rightarrow> b64u_decode s | _ \<Rightarrow> Inl TypeError)"

definition dget_or :: "kvs \<Rightarrow> string \<Rightarrow> json \<Rightarrow> json" where
  "dget_or d k v = (case map_of d (str_lit k) of None \<Rightarrow> v | Some x \<Rightarrow> x)"

definition load_pairing :: "pair_stores \<Rightarrow> loaded_pairing option result" where
  "load_pairing S =
     r_bind (read_json (ps_state S)) (\<lambda>data.
       case map_of data (str_lit ''aes_key'') of
         None \<Rightarrow> Inr None
       | Some k \<Rightarrow> r_bind (decode_json_b64u k) (\<lambda>aes.
           case map_of data (str_lit ''ext_token'') of
             None \<Rightarrow> Inl KeyError
           | Some token \<Rightarrow> Inr (Some \<lparr>lp_aes_key = aes, lp_ext_token = token, lp_ext_pubkey = dget_or data ''ext_pubkey'' (JStr []),
               lp_hermes_pubkey = dget_or data ''hermes_pubkey'' (JStr []), lp_paired_at = dget_or data ''paired_at'' (JFloat 0 0)\<rparr>)))"

definition pairing_fields :: "pairing \<Rightarrow> (string \<times> json) list" where
  "pairing_fields p = [(''aes_key'', JStr (b64u_encode (pr_aes_key p))), (''ext_token'', JStr (pr_ext_token p)), (''ext_pubkey'', JStr (pr_ext_pubkey p)),
     (''hermes_pubkey'', JStr (pr_hermes_pubkey p)), (''paired_at'', stamp (pr_paired_at p)), (''reject_unbound_webauthn'', JBool True)]"

text \<open>\<open>unlinked\<close>: whether the removal of the old WebAuthn credential succeeds.\<close>

definition write_pairing_locked :: "pairing \<Rightarrow> py_str option \<Rightarrow> write_outcome \<Rightarrow> bool \<Rightarrow> pair_stores \<Rightarrow> unit result \<times> pair_stores" where
  "write_pairing_locked p paired_code_digest w unlinked S =
     (case read_json (ps_state S) of
        Inl e \<Rightarrow> (Inl e, S)
      | Inr data \<Rightarrow>
          (let data = dict_update data (pairing_fields p);
               data = (case paired_code_digest of None \<Rightarrow> dict_pop PAIRING_CODE_DIGEST_FIELD data
                         | Some h \<Rightarrow> dict_update data [(PAIRING_CODE_DIGEST_FIELD, JStr h)]);
               S' = S\<lparr>ps_state := after_write w data (ps_state S)\<rparr>
           in case write_result w of
                Inl e \<Rightarrow> (Inl e, S')
              | Inr _ \<Rightarrow> (Inr (), if unlinked then S'\<lparr>ps_webauthn := False\<rparr> else S')))"

text \<open>\<open>py_str_of\<close> is \<open>str\<close> of a JSON value that is not a string.\<close>

definition commit_reason :: "(json \<Rightarrow> py_str) \<Rightarrow> kvs \<Rightarrow> py_str" where
  "commit_reason py_str_of entry =
     (let reason = (if obj_get entry ''result'' = jstr ''failed'' then obj_get entry ''fail_reason'' else jstr ''already_used'')
      in if \<not> json_truthy reason then str_lit ''already_used'' else case reason of JStr s \<Rightarrow> s | v \<Rightarrow> py_str_of v)"

definition commit_pairing ::
  "(json \<Rightarrow> py_str) \<Rightarrow> py_str \<Rightarrow> pairing \<Rightarrow> write_outcome \<Rightarrow> bool \<Rightarrow> write_outcome \<Rightarrow> pair_stores \<Rightarrow> unit result \<times> pair_stores" where
  "commit_pairing py_str_of code p w unlinked w' S =
     (case read_json (ps_pending S) of
        Inl e \<Rightarrow> (Inl e, S)
      | Inr pending \<Rightarrow>
          (case pending_entry pending code of
             JObj entry \<Rightarrow>
               if \<not> json_truthy (obj_get entry ''used'') then (Inl (PairError (str_lit ''invalid_code'')), S)
               else if obj_get entry ''result'' \<noteq> JNull then (Inl (PairError (commit_reason py_str_of entry)), S)
               else (case pairing_code_digest code of
                  Inl e \<Rightarrow> (Inl e, S)
                | Inr h \<Rightarrow> (case write_pairing_locked p (Some h) w unlinked S of
                     (Inl e, S1) \<Rightarrow> (Inl e, S1)
                   | (Inr _, S1) \<Rightarrow> (Inr (), snd (put_pending w' code (assign entry [(''result'', jstr ''paired'')]) pending S1))))
           | _ \<Rightarrow> (Inl (PairError (str_lit ''invalid_code'')), S)))"

definition clear_pairing :: "bool \<Rightarrow> bool \<Rightarrow> pair_stores \<Rightarrow> pair_stores" where
  "clear_pairing unlinked_state unlinked_webauthn S =
     S\<lparr>ps_state := (if unlinked_state then Missing else ps_state S), ps_webauthn := (ps_webauthn S \<and> \<not> unlinked_webauthn)\<rparr>"

definition validate_token :: "py_str \<Rightarrow> pair_stores \<Rightarrow> bool result" where
  "validate_token ext_token S =
     r_bind (load_pairing S) (\<lambda>p. case p of
        None \<Rightarrow> Inr False
      | Some p \<Rightarrow> if ext_token = [] then Inr False
          else (case lp_ext_token p of
             JStr token \<Rightarrow> if is_ascii token \<and> is_ascii ext_token then Inr (token = ext_token) else Inl TypeError
           | _ \<Rightarrow> Inl TypeError))"

section \<open>Channel keys\<close>

definition CHANNEL_KEY_LEN :: nat where "CHANNEL_KEY_LEN = 32"

text \<open>\<open>data.get("channel_keys") or {}\<close> as a mapping; on any other value \<open>items()\<close> raises.\<close>

definition channel_keys_field :: "kvs \<Rightarrow> kvs result" where
  "channel_keys_field data =
     (case obj_get data ''channel_keys'' of JObj d \<Rightarrow> Inr d | v \<Rightarrow> if json_truthy v then Inl (OtherError ''AttributeError'') else Inr [])"

fun decodable :: "kvs \<Rightarrow> channel_keys result" where
  "decodable [] = Inr []"
| "decodable ((cid, kb) # d) =
     (case decode_json_b64u kb of
        Inr k \<Rightarrow> r_bind (decodable d) (\<lambda>out. Inr ((cid, k) # out))
      | Inl e \<Rightarrow> if is_exception e then decodable d else Inl e)"

definition load_channel_keys :: "pair_stores \<Rightarrow> channel_keys result" where
  "load_channel_keys S = r_bind (read_json (ps_state S)) (\<lambda>data. r_bind (channel_keys_field data) decodable)"

text \<open>A truthy \<open>channel_keys\<close> that is not an object is refused here; \<open>dict()\<close> of a list of pairs is left out.\<close>

definition save_channel_key :: "py_str \<Rightarrow> bytes \<Rightarrow> write_outcome \<Rightarrow> pair_stores \<Rightarrow> unit result \<times> pair_stores" where
  "save_channel_key channel_id raw_key w S =
     (if length raw_key \<noteq> CHANNEL_KEY_LEN then (Inl ValueError, S)
      else case r_bind (read_json (ps_state S)) (\<lambda>data. r_bind (channel_keys_field data) (\<lambda>ck. Inr (data, ck))) of
        Inl e \<Rightarrow> (Inl e, S)
      | Inr (data, ck) \<Rightarrow>
          (write_result w,
           S\<lparr>ps_state := after_write w (dict_update data [(''channel_keys'', JObj (dict_put channel_id (JStr (b64u_encode raw_key)) ck))]) (ps_state S)\<rparr>))"

section \<open>The replay cache\<close>

definition E2E_REPLAY_TTL :: real where "E2E_REPLAY_TTL = 30 * 24 * 3600"
definition E2E_REPLAY_MAX_IDENTITIES :: nat where "E2E_REPLAY_MAX_IDENTITIES = 32768"
definition E2E_REPLAY_FIELD :: string where "E2E_REPLAY_FIELD = ''e2e_replay_v3''"

definition is_replay_identity :: "py_str \<Rightarrow> bool" where
  "is_replay_identity s \<longleftrightarrow> length s = 64 \<and> list_all is_lower_hex s"

text \<open>The first magnitude that \<open>float\<close> rounds to infinity.\<close>

definition float_overflow :: real where "float_overflow = 2 ^ 1024 - 2 ^ 970"

definition replay_timestamp :: "json \<Rightarrow> json option result" where
  "replay_timestamp v = (case v of
     JInt i \<Rightarrow> if float_overflow \<le> \<bar>of_int i\<bar> then Inl OverflowError else Inr (Some (JFloat i 0))
   | JFloat m e \<Rightarrow> Inr (if float_overflow \<le> \<bar>of_int m * 10 powi e\<bar> then None else Some v)
   | _ \<Rightarrow> Inr None)"

definition active_replay_state :: "kvs \<Rightarrow> bool" where
  "active_replay_state data \<longleftrightarrow>
     (case obj_get data ''ext_token'' of JStr t \<Rightarrow> t \<noteq> [] | _ \<Rightarrow> False) \<and>
     (case obj_get data ''aes_key'' of JStr s \<Rightarrow> (case b64u_decode s of Inr k \<Rightarrow> length k = 32 \<and> b64u_encode k = s | Inl _ \<Rightarrow> False) | _ \<Rightarrow> False)"

definition replay_entry :: "py_str \<Rightarrow> json \<Rightarrow> json" where
  "replay_entry identity ts = JObj [(str_lit ''id'', JStr identity), (str_lit ''accepted_at'', ts)]"

fun retained :: "real \<Rightarrow> json list \<Rightarrow> (py_str \<times> json) list result" where
  "retained accepted_at [] = Inr []"
| "retained accepted_at (raw # raws) =
     (case raw of
        JObj d \<Rightarrow>
          r_bind (replay_timestamp (obj_get d ''accepted_at'')) (\<lambda>timestamp.
            case (obj_get d ''id'', timestamp) of
              (JStr identity, Some ts) \<Rightarrow>
                if \<not> is_replay_identity identity then Inl RuntimeError
                else r_bind (retained accepted_at raws) (\<lambda>kept.
                  let x = the (json_num ts)
                  in Inr (if accepted_at - E2E_REPLAY_TTL \<le> x \<or> accepted_at < x then (identity, ts) # kept else kept))
            | _ \<Rightarrow> Inl RuntimeError)
      | _ \<Rightarrow> Inl RuntimeError)"

definition retained_replay_entries :: "json \<Rightarrow> real \<Rightarrow> (py_str \<times> json) list result" where
  "retained_replay_entries raw_entries accepted_at =
     (case raw_entries of JNull \<Rightarrow> Inr [] | JList raws \<Rightarrow> retained accepted_at raws | _ \<Rightarrow> Inl RuntimeError)"

definition claim_e2e_replay_identities :: "py_str list \<Rightarrow> int \<Rightarrow> write_outcome \<Rightarrow> pair_stores \<Rightarrow> bool result \<times> pair_stores" where
  "claim_e2e_replay_identities identities now w S =
     (if identities = [] \<or> \<not> list_all is_replay_identity identities then (Inl ValueError, S)
      else if \<not> distinct identities then (Inl ValueError, S)
      else case r_bind (read_json_strict (ps_state S)) (\<lambda>data.
             if \<not> active_replay_state data then Inl RuntimeError
             else r_bind (retained_replay_entries (obj_get data E2E_REPLAY_FIELD) (secs now)) (\<lambda>kept. Inr (data, kept))) of
        Inl e \<Rightarrow> (Inl e, S)
      | Inr (data, kept) \<Rightarrow>
          if list_ex (\<lambda>i. i \<in> fst ` set kept) identities then (Inr False, S)
          else if E2E_REPLAY_MAX_IDENTITIES < length kept + length identities then (Inl RuntimeError, S)
          else (r_bind (write_result w) (\<lambda>_. Inr True),
                S\<lparr>ps_state := after_write w (dict_update data [(E2E_REPLAY_FIELD,
                  JList (map (\<lambda>(i, ts). replay_entry i ts) (kept @ map (\<lambda>i. (i, stamp now)) identities)))]) (ps_state S)\<rparr>))"

section \<open>The handshake\<close>

text \<open>
  What the host answers during one \<open>pair_init\<close>: the clock readings and outcomes of the three locked sections, the fresh X25519 key and
  token, the attestation (its key file is not modelled), and what other processes did to the stores between the sections.
\<close>

record init_world =
  iw_consume :: "int \<times> int \<times> write_outcome"
  iw_priv :: bytes
  iw_token :: bytes
  iw_sign :: "bytes \<Rightarrow> py_str result"
  iw_spki :: "py_str result"
  iw_se :: bool
  iw_time :: int
  iw_commit :: "write_outcome \<times> bool \<times> write_outcome"
  iw_mark :: write_outcome
  iw_between :: "pair_stores \<Rightarrow> pair_stores"
  iw_between2 :: "pair_stores \<Rightarrow> pair_stores"

record pair_complete =
  pc_hermes_pubkey :: py_str
  pc_ext_token :: py_str
  pc_signed_challenge :: py_str
  pc_se_pubkey :: py_str
  pc_se_available :: bool

definition os_error :: "exn \<Rightarrow> bool" where
  "os_error e \<longleftrightarrow> e \<in> {OSError, PermissionError, FileNotFoundError}"

definition fail_reason_of :: "exn \<Rightarrow> json" where
  "fail_reason_of e = (case e of PairError r \<Rightarrow> JStr r | _ \<Rightarrow> jstr ''internal_error'')"

definition pair_secrets ::
  "('x) e2e_crypto_scheme \<Rightarrow> ('w) init_world_scheme \<Rightarrow> py_str \<Rightarrow> py_str \<Rightarrow> py_str \<Rightarrow> (pairing \<times> pair_complete) result" where
  "pair_secrets C w code ext_pubkey_b64 challenge_b64 =
     r_bind (r_catch is_exception (PairError (str_lit ''invalid_challenge'')) (b64u_decode challenge_b64)) (\<lambda>challenge.
       if length challenge < 16 then Inl (PairError (str_lit ''invalid_challenge''))
       else r_bind (r_catch is_exception (PairError (str_lit ''invalid_pubkey'')) (derive_shared_key C (iw_priv w) ext_pubkey_b64 code)) (\<lambda>aes_key.
            let hermes_pub = b64u_encode (x25519_public C (iw_priv w)); ext_token = b64u_encode (iw_token w)
            in r_bind (iw_sign w challenge) (\<lambda>signature. r_bind (iw_spki w) (\<lambda>spki.
                 Inr (\<lparr>pr_aes_key = aes_key, pr_ext_token = ext_token, pr_ext_pubkey = ext_pubkey_b64, pr_hermes_pubkey = hermes_pub, pr_paired_at = iw_time w\<rparr>,
                   \<lparr>pc_hermes_pubkey = hermes_pub, pc_ext_token = ext_token, pc_signed_challenge = signature, pc_se_pubkey = spki, pc_se_available = iw_se w\<rparr>)))))"

definition pair_init_failed :: "('w) init_world_scheme \<Rightarrow> py_str \<Rightarrow> exn \<Rightarrow> pair_stores \<Rightarrow> pair_complete result \<times> pair_stores" where
  "pair_init_failed w code e S =
     (if \<not> is_exception e then (Inl e, S)
      else case mark_pair_result code (jstr ''failed'') (Some (fail_reason_of e)) (iw_mark w) (iw_between2 w S) of
        (Inl e', S') \<Rightarrow> (Inl (if os_error e' then e else e'), S')
      | (Inr _, S') \<Rightarrow> (Inl e, S'))"

definition handle_pair_init ::
  "('x) e2e_crypto_scheme \<Rightarrow> ('u) ucd_case_scheme \<Rightarrow> (json \<Rightarrow> py_str) \<Rightarrow> ('w) init_world_scheme \<Rightarrow> py_str \<Rightarrow> py_str \<Rightarrow> py_str \<Rightarrow> pair_stores \<Rightarrow>
   pair_complete result \<times> pair_stores" where
  "handle_pair_init C U py_str_of w raw_code ext_pubkey_b64 challenge_b64 S =
     (let code = normalize_code U raw_code
      in case iw_consume w of (now1, now2, wo) \<Rightarrow>
         (case consume_code code now1 now2 wo S of
            (Inl e, S1) \<Rightarrow> (Inl e, S1)
          | (Inr _, S1) \<Rightarrow>
              (let S2 = iw_between w S1
               in case pair_secrets C w code ext_pubkey_b64 challenge_b64 of
                    Inl e \<Rightarrow> pair_init_failed w code e S2
                  | Inr (p, payload) \<Rightarrow>
                      (case iw_commit w of (wc, unlinked, wa) \<Rightarrow>
                       (case commit_pairing py_str_of code p wc unlinked wa S2 of
                          (Inl e, S3) \<Rightarrow> pair_init_failed w code e S3
                        | (Inr _, S3) \<Rightarrow> (Inr payload, S3))))))"

section \<open>Any order of locked sections\<close>

datatype pair_op =
    Generate py_str int int write_outcome
  | Revoke py_str int write_outcome
  | Consume py_str int int write_outcome
  | Mark_failed py_str json write_outcome
  | Commit py_str pairing write_outcome bool write_outcome
  | Save_key py_str bytes write_outcome
  | Claim "py_str list" int write_outcome
  | Clear bool bool

fun pair_step :: "('u) ucd_case_scheme \<Rightarrow> pair_op \<Rightarrow> pair_stores \<Rightarrow> pair_stores" where
  "pair_step U (Generate raw t t' w) S = snd (generate_code raw t t' w S)"
| "pair_step U (Revoke code t w) S = snd (revoke_code U code t w S)"
| "pair_step U (Consume code t t' w) S = snd (consume_code code t t' w S)"
| "pair_step U (Mark_failed code reason w) S = snd (mark_pair_result code (jstr ''failed'') (Some reason) w S)"
| "pair_step U (Commit code p w u w') S = snd (commit_pairing (\<lambda>_. []) code p w u w' S)"
| "pair_step U (Save_key channel key w) S = snd (save_channel_key channel key w S)"
| "pair_step U (Claim ids t w) S = snd (claim_e2e_replay_identities ids t w S)"
| "pair_step U (Clear u u') S = clear_pairing u u' S"

definition pair_run :: "('u) ucd_case_scheme \<Rightarrow> pair_op list \<Rightarrow> pair_stores \<Rightarrow> pair_stores" where
  "pair_run U ops S = foldl (\<lambda>S p. pair_step U p S) S ops"

end
