(* ===== verification/Pairing_Safety.thy ===== *)
theory Pairing_Safety
  imports Pairing
begin

text \<open>
  What the pairing stores promise under any order of locked sections: a code pairs at most once and not after its
  revocation, an accepted command is not accepted again, and both ends of a handshake hold the same key.
\<close>

declare str_lit_simps [simp del]

section \<open>Entries of the pending store\<close>

text \<open>Every entry that a read can find under the code satisfies \<open>P\<close>.\<close>

definition entries_ok :: "(json \<Rightarrow> bool) \<Rightarrow> py_str \<Rightarrow> store \<Rightarrow> bool" where
  "entries_ok P code s \<longleftrightarrow> (\<forall>pending. s = Parsed pending \<longrightarrow> (\<forall>e. (code, e) \<in> set pending \<longrightarrow> P e))"

definition used_up :: "json \<Rightarrow> bool" where
  "used_up e \<longleftrightarrow> e = JNull \<or> (\<exists>d. e = JObj d \<and> json_truthy (obj_get d ''used''))"

definition dead :: "json \<Rightarrow> bool" where
  "dead e \<longleftrightarrow> e = JNull \<or> (\<exists>d. e = JObj d \<and> json_truthy (obj_get d ''used'') \<and> obj_get d ''result'' \<noteq> JNull)"

lemma entry_get_Inr: "entry_get e k = Inr v \<longleftrightarrow> (\<exists>d. e = JObj d \<and> v = obj_get d k)"
  by (cases e) (auto simp: entry_get_def)

lemma entry_put_Inr: "entry_put e k v = Inr e' \<longleftrightarrow> (\<exists>d. e = JObj d \<and> e' = JObj (dict_put (str_lit k) v d))"
  by (cases e) (auto simp: entry_put_def)

lemma set_dict_putD: "x \<in> set (dict_put k v d) \<Longrightarrow> x = (k, v) \<or> x \<in> set d"
  by (induction d) (auto split: if_splits)

lemma pending_entry_in: "pending_entry pending code = e \<Longrightarrow> e \<noteq> JNull \<Longrightarrow> (code, e) \<in> set pending"
  by (auto simp: pending_entry_def dest: map_of_SomeD split: option.splits)

lemma unexpired_subset: "unexpired now d = Inr d' \<Longrightarrow> set d' \<subseteq> set d"
  by (induction now d arbitrary: d' rule: unexpired.induct) (auto simp: r_bind_Inr_iff split: if_splits)

lemma entries_ok_put:
  assumes "entries_ok P code s" "s = Parsed pending \<or> (s = Missing \<and> pending = [])" "set pending' \<subseteq> set pending" "code' = code \<Longrightarrow> P entry"
  shows "entries_ok P code (after_write w (dict_put code' entry pending') s)"
  using assms by (auto simp: entries_ok_def after_write_def dest!: set_dict_putD)

lemma read_json_Inr: "read_json s = Inr pending \<Longrightarrow> s = Parsed pending \<or> (s = Missing \<and> pending = [])"
  by (cases s) (auto simp: read_json_def)

text \<open>An invariant of entries under every step that does not create the code anew.\<close>

definition creates :: "py_str \<Rightarrow> pair_op \<Rightarrow> bool" where
  "creates code p \<longleftrightarrow> (case p of Generate raw _ _ _ \<Rightarrow> format_code raw = code | _ \<Rightarrow> False)"

lemma unchanged_pending:
  "ps_pending (snd (write_pairing_locked p h w u S)) = ps_pending S"
  "ps_pending (snd (save_channel_key channel key w S)) = ps_pending S"
  "ps_pending (snd (claim_e2e_replay_identities ids t w S)) = ps_pending S"
  "ps_pending (clear_pairing u u' S) = ps_pending S"
  by (auto simp: write_pairing_locked_def save_channel_key_def claim_e2e_replay_identities_def clear_pairing_def Let_def
      split: sum.split option.split prod.split)

lemma put_pending_ok:
  assumes "read_json (ps_pending S) = Inr pending" "entries_ok P code (ps_pending S)" "c = code \<Longrightarrow> P entry" "ps_pending S' = ps_pending S"
  shows "entries_ok P code (ps_pending (snd (put_pending w c entry pending S')))"
  using entries_ok_put [OF assms(2) read_json_Inr [OF assms(1)] order_refl] assms(3,4) by (simp add: put_pending_def)

lemma found_ok:
  assumes "entries_ok P code (ps_pending S)" "read_json (ps_pending S) = Inr pending" "pending_entry pending code = e" "e \<noteq> JNull"
  shows "P e"
  using assms(1) read_json_Inr [OF assms(2)] pending_entry_in [OF assms(3,4)] by (auto simp: entries_ok_def)

definition entry_invariant :: "(json \<Rightarrow> bool) \<Rightarrow> bool" where
  "entry_invariant P \<longleftrightarrow>
     (\<forall>d. P (JObj d) \<longrightarrow> json_truthy (obj_get d ''used'')) \<and>
     (\<forall>d d'. P (JObj d) \<and> json_truthy (obj_get d' ''used'') \<and> obj_get d' ''result'' \<noteq> JNull \<longrightarrow> P (JObj d'))"

lemma entry_upd: "entry_invariant P \<Longrightarrow> P (JObj d) \<Longrightarrow> json_truthy (obj_get d' ''used'') \<Longrightarrow> obj_get d' ''result'' \<noteq> JNull \<Longrightarrow> P (JObj d')"
  unfolding entry_invariant_def by blast

lemma entry_used: "entry_invariant P \<Longrightarrow> P (JObj d) \<Longrightarrow> json_truthy (obj_get d ''used'')"
  unfolding entry_invariant_def by blast

lemma used_up_invariant: "entry_invariant used_up"
  by (auto simp: entry_invariant_def used_up_def)

lemma dead_invariant: "entry_invariant dead"
  by (auto simp: entry_invariant_def dead_def)

lemma revoke_ok:
  assumes "entry_invariant P" "entries_ok P code (ps_pending S)"
  shows "entries_ok P code (ps_pending (snd (revoke_code U raw t w S)))"
proof -
  define c where "c = normalize_code U raw"
  have *: "entries_ok P code (ps_pending (snd (put_pending w c (assign d [(''used'', JBool True), (''cancelled_at'', stamp t), (''result'', jstr ''failed''),
      (''fail_reason'', jstr ''cancelled'')]) pending S)))"
    if r: "read_json (ps_pending S) = Inr pending" "pending_entry pending c = JObj d" for pending d
  proof (rule put_pending_ok [OF r(1) assms(2) _ refl])
    assume "c = code"
    then have "P (JObj d)" using found_ok [OF assms(2) r(1)] r(2) by auto
    then show "P (assign d [(''used'', JBool True), (''cancelled_at'', stamp t), (''result'', jstr ''failed''), (''fail_reason'', jstr ''cancelled'')])"
      unfolding assign_def by (rule entry_upd [OF assms(1)]) (simp_all add: dget_put)
  qed
  show ?thesis
    unfolding revoke_code_def Let_def c_def [symmetric] using assms(2) *
    by (auto simp: split_beta split: sum.split json.split bool.split)
qed

lemma consume_ok:
  assumes "entry_invariant P" "entries_ok P code (ps_pending S)"
  shows "entries_ok P code (ps_pending (snd (consume_code c t t' w S)))"
proof (cases "read_json (ps_pending S)")
  case (Inr pending)
  let ?e = "pending_entry pending c"
  define r where "r = r_bind (entry_get ?e ''used'') (\<lambda>used.
     if json_truthy used then Inl (PairError (str_lit ''already_used''))
     else r_bind (expires_of ?e) (\<lambda>x. r_bind (num_less x (secs t)) (\<lambda>old.
       if old then Inl (PairError (str_lit ''expired''))
       else r_bind (entry_put ?e ''used'' (JBool True)) (\<lambda>e. entry_put e ''paired_at'' (stamp t')))))"
  have c: "consume_code c t t' w S = (if ?e = JNull then (Inl (PairError (str_lit ''invalid_code'')), S)
      else case r of Inl e \<Rightarrow> (Inl e, S) | Inr entry' \<Rightarrow> put_pending w c entry' pending S)"
    by (simp add: consume_code_def Inr r_def Let_def)
  have "c \<noteq> code" if r: "r = Inr entry'" for entry'
  proof
    assume "c = code"
    obtain d where d: "?e = JObj d" "\<not> json_truthy (obj_get d ''used'')"
      using r by (auto simp: r_def r_bind_Inr_iff entry_get_Inr split: if_splits)
    then have "P (JObj d)" using found_ok [OF assms(2) Inr] \<open>c = code\<close> by auto
    then show False using entry_used [OF assms(1)] d(2) by blast
  qed
  then show ?thesis using c assms(2) put_pending_ok [OF Inr assms(2) _ refl] by (auto split: sum.split)
qed (simp add: consume_code_def assms(2))

lemma mark_ok:
  assumes "entry_invariant P" "entries_ok P code (ps_pending S)"
  shows "entries_ok P code (ps_pending (snd (mark_pair_result c (jstr ''failed'') (Some reason) w S)))"
proof (cases "read_json (ps_pending S)")
  case (Inr pending)
  let ?e = "pending_entry pending c"
  define r where "r = r_bind (entry_put ?e ''result'' (jstr ''failed'')) (\<lambda>e. entry_put e ''fail_reason'' reason)"
  have c: "mark_pair_result c (jstr ''failed'') (Some reason) w S = (if ?e = JNull then (Inr (), S)
      else case r of Inl e \<Rightarrow> (Inl e, S) | Inr entry' \<Rightarrow> put_pending w c entry' pending S)"
    by (simp add: mark_pair_result_def Inr r_def Let_def)
  have "P entry'" if r: "r = Inr entry'" "c = code" for entry'
  proof -
    obtain d where d: "?e = JObj d" "entry' = JObj (dict_put (str_lit ''fail_reason'') reason (dict_put (str_lit ''result'') (jstr ''failed'') d))"
      using r(1) by (auto simp: r_def r_bind_Inr_iff entry_put_Inr)
    then have p: "P (JObj d)" using found_ok [OF assms(2) Inr] r(2) by auto
    then show ?thesis unfolding d(2) by (rule entry_upd [OF assms(1)]) (use entry_used [OF assms(1) p] in \<open>simp_all add: dget_put\<close>)
  qed
  then show ?thesis using c assms(2) put_pending_ok [OF Inr assms(2) _ refl] by (auto split: sum.split)
qed (simp add: mark_pair_result_def assms(2))

lemma commit_ok:
  assumes "entry_invariant P" "entries_ok P code (ps_pending S)"
  shows "entries_ok P code (ps_pending (snd (commit_pairing R c p w u w' S)))"
proof -
  have *: "entries_ok P code (ps_pending (snd (put_pending w' c (assign d [(''result'', jstr ''paired'')]) pending S1)))"
    if r: "read_json (ps_pending S) = Inr pending" "pending_entry pending c = JObj d" "json_truthy (obj_get d ''used'')" "ps_pending S1 = ps_pending S" for pending d S1
  proof (rule put_pending_ok [OF r(1) assms(2) _ r(4)])
    assume "c = code"
    then have "P (JObj d)" using found_ok [OF assms(2) r(1)] r(2) by auto
    then show "P (assign d [(''result'', jstr ''paired'')])"
      unfolding assign_def by (rule entry_upd [OF assms(1)]) (use r(3) in \<open>simp_all add: dget_put\<close>)
  qed
  have **: "ps_pending S1 = ps_pending S" if "write_pairing_locked p h w u S = (x, S1)" for h x S1
    using unchanged_pending(1) [of p h w u S] that by simp
  show ?thesis
    unfolding commit_pairing_def using assms(2) * by (auto split: sum.split json.split prod.split dest!: **)
qed

lemma generate_ok:
  assumes "entries_ok P code (ps_pending S)" "format_code raw \<noteq> code"
  shows "entries_ok P code (ps_pending (snd (generate_code raw t t' w S)))"
proof (cases "r_bind (read_json (ps_pending S)) (unexpired (secs t'))")
  case (Inr kept)
  then obtain pending where p: "read_json (ps_pending S) = Inr pending" "unexpired (secs t') pending = Inr kept" by (auto simp: r_bind_Inr_iff)
  show ?thesis
    using entries_ok_put [OF assms(1) read_json_Inr [OF p(1)] unexpired_subset [OF p(2)]] assms(2) Inr by (simp add: generate_code_def Let_def)
qed (simp add: generate_code_def Let_def assms(1))

lemma pair_step_ok:
  assumes "entry_invariant P" "entries_ok P code (ps_pending S)" "\<not> creates code p"
  shows "entries_ok P code (ps_pending (pair_step U p S))"
  using assms revoke_ok consume_ok mark_ok commit_ok generate_ok unchanged_pending by (cases p) (auto simp: creates_def)

lemma pair_run_ok:
  "entry_invariant P \<Longrightarrow> entries_ok P code (ps_pending S) \<Longrightarrow> list_all (\<lambda>p. \<not> creates code p) ops \<Longrightarrow>
   entries_ok P code (ps_pending (pair_run U ops S))"
  by (induction ops arbitrary: S) (auto simp: pair_run_def pair_step_ok)

section \<open>A code pairs at most once\<close>

definition unique_codes :: "store \<Rightarrow> bool" where
  "unique_codes s \<longleftrightarrow> (\<forall>pending. s = Parsed pending \<longrightarrow> distinct (map fst pending))"

lemma put_only: "distinct (map fst d) \<Longrightarrow> (k, e) \<in> set (dict_put k v d) \<Longrightarrow> e = v"
proof (induction d)
  case (Cons p d)
  then show ?case by (cases p) (auto split: if_splits simp: image_iff)
qed simp

lemma after_put:
  assumes "unique_codes (ps_pending S)" "read_json (ps_pending S) = Inr pending" "P entry" "w \<noteq> Failed_before" "ps_pending S' = ps_pending S"
  shows "entries_ok P code (ps_pending (snd (put_pending w code entry pending S')))"
proof -
  have "distinct (map fst pending)" using assms(1) read_json_Inr [OF assms(2)] by (auto simp: unique_codes_def)
  then show ?thesis using put_only [of pending code _ entry] assms(3,4) by (auto simp: entries_ok_def put_pending_def after_write_def)
qed

lemma write_result_Inr: "write_result w = Inr () \<longleftrightarrow> w = Written"
  by (simp add: write_result_def)

lemma consume_burns:
  assumes "unique_codes (ps_pending S)" "consume_code code t t' w S = (Inr (), S1)"
  shows "entries_ok used_up code (ps_pending S1)"
proof -
  obtain pending where p: "read_json (ps_pending S) = Inr pending" using assms(2) by (cases "read_json (ps_pending S)") (auto simp: consume_code_def)
  from assms(2) p obtain e where e: "put_pending w code e pending S = (Inr (), S1)" "\<exists>d. e = JObj d \<and> json_truthy (obj_get d ''used'')"
    by (auto simp: consume_code_def Let_def r_bind_Inr_iff entry_put_Inr dget_put split: if_splits sum.splits)
  have "w \<noteq> Failed_before" using e(1) by (auto simp: put_pending_def write_result_def)
  from after_put [OF assms(1) p _ this refl, of used_up e code] e show ?thesis by (simp add: used_up_def)
qed

lemma revoke_kills:
  assumes "unique_codes (ps_pending S)" "revoke_code U raw t w S = (Inr True, S1)"
  shows "entries_ok dead (normalize_code U raw) (ps_pending S1)"
proof -
  obtain pending where p: "read_json (ps_pending S) = Inr pending" using assms(2) by (cases "read_json (ps_pending S)") (auto simp: revoke_code_def)
  let ?code = "normalize_code U raw"
  obtain d where d: "pending_entry pending ?code = JObj d"
    using assms(2) p by (cases "pending_entry pending ?code") (simp_all add: revoke_code_def)
  let ?e = "assign d [(''used'', JBool True), (''cancelled_at'', stamp t), (''result'', jstr ''failed''), (''fail_reason'', jstr ''cancelled'')]"
  from assms(2) p d have e: "snd (put_pending w ?code ?e pending S) = S1" "write_result w = Inr ()"
    by (auto simp: revoke_code_def Let_def put_pending_def r_bind_Inr_iff split: if_splits sum.splits bool.splits)
  have "dead ?e" by (simp add: dead_def assign_def dget_put)
  moreover have "w \<noteq> Failed_before" using e(2) by (auto simp: write_result_def)
  ultimately show ?thesis using after_put [OF assms(1) p, of dead ?e w S ?code] e(1) by simp
qed

lemma commit_kills:
  assumes "unique_codes (ps_pending S)" "commit_pairing R code p w u w' S = (Inr (), S1)" "w' \<noteq> Failed_before"
  shows "entries_ok dead code (ps_pending S1)"
proof -
  obtain pending where p: "read_json (ps_pending S) = Inr pending" using assms(2) by (cases "read_json (ps_pending S)") (auto simp: commit_pairing_def)
  obtain d where d: "pending_entry pending code = JObj d" "json_truthy (obj_get d ''used'')"
    using assms(2) p by (cases "pending_entry pending code") (auto simp: commit_pairing_def split: if_splits)
  from assms(2) p d obtain h S2 where e: "write_pairing_locked p h w u S = (Inr (), S2)"
      "S1 = snd (put_pending w' code (assign d [(''result'', jstr ''paired'')]) pending S2)"
    by (auto simp: commit_pairing_def split: if_splits sum.splits prod.splits)
  have "dead (assign d [(''result'', jstr ''paired'')])" using d(2) by (simp add: dead_def assign_def dget_put)
  moreover have "ps_pending S2 = ps_pending S" using unchanged_pending(1) [of p h w u S] e(1) by simp
  ultimately show ?thesis using after_put [OF assms(1) p _ assms(3)] e(2) by simp
qed

lemma used_up_refused: "entries_ok used_up code (ps_pending S) \<Longrightarrow> fst (consume_code code t t' w S) \<noteq> Inr ()"
proof
  assume u: "entries_ok used_up code (ps_pending S)" and "fst (consume_code code t t' w S) = Inr ()"
  then obtain pending d where p: "read_json (ps_pending S) = Inr pending" "pending_entry pending code = JObj d" "\<not> json_truthy (obj_get d ''used'')"
    by (auto simp: consume_code_def Let_def r_bind_Inr_iff entry_get_Inr split: if_splits sum.splits)
  with found_ok [OF u p(1,2)] show False by (simp add: used_up_def)
qed

lemma dead_refused:
  assumes "entries_ok dead code (ps_pending S)"
  shows "fst (consume_code code t t' w S) \<noteq> Inr ()" "fst (commit_pairing R code p w u w' S) \<noteq> Inr ()"
    "normalize_code U raw = code \<Longrightarrow> fst (revoke_code U raw t w S) \<noteq> Inr True"
proof -
  have "entries_ok used_up code (ps_pending S)" using assms by (auto simp: entries_ok_def dead_def used_up_def)
  then show "fst (consume_code code t t' w S) \<noteq> Inr ()" by (rule used_up_refused)
  have r: "\<not> (\<exists>pending d. read_json (ps_pending S) = Inr pending \<and> pending_entry pending code = JObj d \<and> obj_get d ''result'' = JNull)"
  proof clarify
    fix pending d
    assume f: "read_json (ps_pending S) = Inr pending" "pending_entry pending code = JObj d" "obj_get d ''result'' = JNull"
    have "dead (JObj d)" using found_ok [OF assms f(1,2)] by simp
    then show False using f(3) by (simp add: dead_def)
  qed
  then show "fst (commit_pairing R code p w u w' S) \<noteq> Inr ()"
    by (auto simp: commit_pairing_def split: sum.split json.split)
  show "normalize_code U raw = code \<Longrightarrow> fst (revoke_code U raw t w S) \<noteq> Inr True"
    using r by (auto simp: revoke_code_def Let_def split: sum.split json.split)
qed

lemma single_use:
  assumes "unique_codes (ps_pending S)" "list_all (\<lambda>p. \<not> creates code p) ops" "normalize_code U raw = code"
  shows
    "fst (consume_code code t t' w S) = Inr () \<longrightarrow> fst (consume_code code v v' x (pair_run U ops (snd (consume_code code t t' w S)))) \<noteq> Inr ()"
    "fst (revoke_code U raw t w S) = Inr True \<longrightarrow>
       fst (consume_code code v v' x (pair_run U ops (snd (revoke_code U raw t w S)))) \<noteq> Inr () \<and>
       fst (commit_pairing R code p x un x' (pair_run U ops (snd (revoke_code U raw t w S)))) \<noteq> Inr ()"
    "fst (commit_pairing R code p w un w' S) = Inr () \<and> w' \<noteq> Failed_before \<longrightarrow>
       fst (revoke_code U raw v x (pair_run U ops (snd (commit_pairing R code p w un w' S)))) \<noteq> Inr True \<and>
       fst (commit_pairing R code q x un' x' (pair_run U ops (snd (commit_pairing R code p w un w' S)))) \<noteq> Inr ()"
proof -
  show "fst (consume_code code t t' w S) = Inr () \<longrightarrow> fst (consume_code code v v' x (pair_run U ops (snd (consume_code code t t' w S)))) \<noteq> Inr ()"
    using used_up_refused [OF pair_run_ok [OF used_up_invariant consume_burns [OF assms(1)] assms(2)]] by (metis prod.collapse)
  show "fst (revoke_code U raw t w S) = Inr True \<longrightarrow>
       fst (consume_code code v v' x (pair_run U ops (snd (revoke_code U raw t w S)))) \<noteq> Inr () \<and>
       fst (commit_pairing R code p x un x' (pair_run U ops (snd (revoke_code U raw t w S)))) \<noteq> Inr ()"
    using dead_refused(1,2) [OF pair_run_ok [OF dead_invariant _ assms(2)]] revoke_kills [OF assms(1)] assms(3) by (metis prod.collapse)
  show "fst (commit_pairing R code p w un w' S) = Inr () \<and> w' \<noteq> Failed_before \<longrightarrow>
       fst (revoke_code U raw v x (pair_run U ops (snd (commit_pairing R code p w un w' S)))) \<noteq> Inr True \<and>
       fst (commit_pairing R code q x un' x' (pair_run U ops (snd (commit_pairing R code p w un w' S)))) \<noteq> Inr ()"
    using dead_refused(2,3) [OF pair_run_ok [OF dead_invariant _ assms(2)]] commit_kills [OF assms(1)] assms(3) by (metis prod.collapse)
qed


section \<open>An accepted command is not accepted again\<close>

text \<open>The replay cache holds the identity with a time of \<open>t\<close> microseconds.\<close>

definition evidence :: "py_str \<Rightarrow> int \<Rightarrow> store \<Rightarrow> bool" where
  "evidence i t s \<longleftrightarrow> (\<exists>data raws d. s = Parsed data \<and> obj_get data E2E_REPLAY_FIELD = JList raws \<and> JObj d \<in> set raws \<and>
     obj_get d ''id'' = JStr i \<and> json_num (obj_get d ''accepted_at'') = Some (secs t))"

lemma json_num_stamp [simp]: "json_num (stamp t) = Some (secs t)"
  by (simp add: json_num_def stamp_def secs_def power_int_def power_one_over)

lemma replay_timestamp_num: "replay_timestamp v = Inr (Some ts) \<Longrightarrow> json_num ts = json_num v"
proof (cases v)
  case (JInt i)
  assume "replay_timestamp v = Inr (Some ts)"
  then have "ts = JFloat i 0" by (simp add: replay_timestamp_def JInt split: if_splits)
  then show ?thesis by (simp add: json_num_def JInt)
qed (simp_all add: replay_timestamp_def split: if_splits)

lemma retained_keeps:
  "retained now raws = Inr kept \<Longrightarrow> JObj d \<in> set raws \<Longrightarrow> obj_get d ''id'' = JStr i \<Longrightarrow> json_num (obj_get d ''accepted_at'') = Some x \<Longrightarrow>
   now - E2E_REPLAY_TTL \<le> x \<or> now < x \<Longrightarrow> \<exists>ts. (i, ts) \<in> set kept \<and> json_num ts = Some x"
proof (induction raws arbitrary: kept)
  case (Cons raw raws)
  obtain d' where d': "raw = JObj d'" using Cons.prems(1) by (cases raw) simp_all
  from Cons.prems(1) obtain timestamp where ts: "replay_timestamp (obj_get d' ''accepted_at'') = Inr timestamp"
    by (auto simp: d' r_bind_Inr_iff)
  from Cons.prems(1) ts obtain identity ts' where i: "obj_get d' ''id'' = JStr identity" "timestamp = Some ts'" "is_replay_identity identity"
    by (simp add: d' split: json.splits option.splits if_splits)
  with Cons.prems(1) ts obtain rest where r: "retained now raws = Inr rest"
      "kept = (if now - E2E_REPLAY_TTL \<le> the (json_num ts') \<or> now < the (json_num ts') then (identity, ts') # rest else rest)"
    by (auto simp: d' r_bind_Inr_iff Let_def)
  show ?case
  proof (cases "d = d'")
    case True
    then have "json_num ts' = Some x" "identity = i" using replay_timestamp_num ts i Cons.prems(3,4) by auto
    then show ?thesis using r(2) Cons.prems(5) by auto
  next
    case False
    then have "JObj d \<in> set raws" using Cons.prems(2) d' by simp
    from Cons.IH [OF r(1) this Cons.prems(3-5)] show ?thesis using r(2) by auto
  qed
qed simp

lemma evidence_same:
  "evidence i t s \<Longrightarrow> (\<And>data. s = Parsed data \<Longrightarrow> s' = s \<or> (\<exists>data'. s' = Parsed data' \<and> obj_get data' E2E_REPLAY_FIELD = obj_get data E2E_REPLAY_FIELD)) \<Longrightarrow>
   evidence i t s'"
  unfolding evidence_def by metis

lemma unchanged_state:
  "ps_state (snd (generate_code raw t t' w S)) = ps_state S"
  "ps_state (snd (put_pending w c e pending S)) = ps_state S"
  "ps_state (snd (consume_code c t t' w S)) = ps_state S"
  "ps_state (snd (mark_pair_result c r f w S)) = ps_state S"
  by (auto simp: generate_code_def consume_code_def mark_pair_result_def put_pending_def Let_def split: sum.split)

lemma revoke_state: "ps_state (snd (revoke_code U raw t w S)) = ps_state S"
  by (auto simp: revoke_code_def put_pending_def Let_def split: sum.split json.split bool.split)

lemma write_pairing_state:
  "ps_state S = Parsed data \<Longrightarrow> \<exists>data'. (ps_state (snd (write_pairing_locked p h w u S)) = ps_state S \<or>
     ps_state (snd (write_pairing_locked p h w u S)) = Parsed data') \<and> obj_get data' E2E_REPLAY_FIELD = obj_get data E2E_REPLAY_FIELD"
proof -
  assume s: "ps_state S = Parsed data"
  let ?d = "dict_update data (pairing_fields p)"
  let ?d' = "case h of None \<Rightarrow> dict_pop PAIRING_CODE_DIGEST_FIELD ?d | Some h \<Rightarrow> dict_update ?d [(PAIRING_CODE_DIGEST_FIELD, JStr h)]"
  have "obj_get ?d E2E_REPLAY_FIELD = obj_get data E2E_REPLAY_FIELD"
    by (rule dget_update) (simp add: pairing_fields_def E2E_REPLAY_FIELD_def)
  then have "obj_get ?d' E2E_REPLAY_FIELD = obj_get data E2E_REPLAY_FIELD"
    by (simp add: dget_pop dget_update1 E2E_REPLAY_FIELD_def PAIRING_CODE_DIGEST_FIELD_def split: option.split)
  moreover have "ps_state (snd (write_pairing_locked p h w u S)) = after_write w ?d' (ps_state S)"
    by (simp add: write_pairing_locked_def s read_json_def Let_def split: sum.split)
  ultimately show ?thesis by (auto simp: after_write_def)
qed

lemma commit_state:
  "ps_state (snd (commit_pairing R c p w u w' S)) = ps_state S \<or>
   (\<exists>h. ps_state (snd (commit_pairing R c p w u w' S)) = ps_state (snd (write_pairing_locked p h w u S)))"
proof (cases "\<exists>pending entry h. read_json (ps_pending S) = Inr pending \<and> pending_entry pending c = JObj entry \<and> json_truthy (obj_get entry ''used'') \<and>
    obj_get entry ''result'' = JNull \<and> pairing_code_digest c = Inr h")
  case True
  then obtain pending entry h where c: "read_json (ps_pending S) = Inr pending" "pending_entry pending c = JObj entry" "json_truthy (obj_get entry ''used'')"
      "obj_get entry ''result'' = JNull" "pairing_code_digest c = Inr h" by blast
  obtain r S1 where w: "write_pairing_locked p (Some h) w u S = (r, S1)" by fastforce
  then have "ps_state (snd (commit_pairing R c p w u w' S)) = ps_state S1"
    by (simp add: commit_pairing_def c unchanged_state(2) split: sum.split)
  then show ?thesis using w by (intro disjI2 exI [of _ "Some h"]) simp
qed (auto simp: commit_pairing_def split: sum.split json.split)

lemma commit_keeps: "evidence i t (ps_state S) \<Longrightarrow> evidence i t (ps_state (snd (commit_pairing R c p w u w' S)))"
proof (rule evidence_same)
  fix data
  assume "ps_state S = Parsed data"
  from write_pairing_state [OF this, of p _ w u] commit_state [of R c p w u w' S]
  show "ps_state (snd (commit_pairing R c p w u w' S)) = ps_state S \<or> (\<exists>data'. ps_state (snd (commit_pairing R c p w u w' S)) = Parsed data' \<and>
      obj_get data' E2E_REPLAY_FIELD = obj_get data E2E_REPLAY_FIELD)"
    by metis
qed

lemma save_keeps: "evidence i t (ps_state S) \<Longrightarrow> evidence i t (ps_state (snd (save_channel_key ch key w S)))"
proof (rule evidence_same)
  fix data
  assume "ps_state S = Parsed data"
  then show "ps_state (snd (save_channel_key ch key w S)) = ps_state S \<or> (\<exists>data'. ps_state (snd (save_channel_key ch key w S)) = Parsed data' \<and>
      obj_get data' E2E_REPLAY_FIELD = obj_get data E2E_REPLAY_FIELD)"
    by (auto simp: save_channel_key_def read_json_def after_write_def dget_update1 E2E_REPLAY_FIELD_def r_bind_Inr_iff split: sum.split)
qed

lemma retained_evidence:
  assumes "evidence i t (Parsed data)" "retained_replay_entries (obj_get data E2E_REPLAY_FIELD) (secs now) = Inr kept" "secs now \<le> secs t + E2E_REPLAY_TTL"
  shows "\<exists>ts. (i, ts) \<in> set kept \<and> json_num ts = Some (secs t)"
proof -
  from assms(1) obtain raws d where e: "obj_get data E2E_REPLAY_FIELD = JList raws" "JObj d \<in> set raws" "obj_get d ''id'' = JStr i"
      "json_num (obj_get d ''accepted_at'') = Some (secs t)"
    by (auto simp: evidence_def)
  have "secs now - E2E_REPLAY_TTL \<le> secs t \<or> secs now < secs t" using assms(3) by linarith
  from retained_keeps [OF _ e(2-4) this] assms(2) e(1) show ?thesis by (simp add: retained_replay_entries_def)
qed

lemma replay_entry_fields: "replay_entry i ts = JObj d \<Longrightarrow> obj_get d ''id'' = JStr i \<and> obj_get d ''accepted_at'' = ts"
  by (auto simp: replay_entry_def obj_get_def str_lit_inject)

lemma evidence_written:
  assumes "(i, ts) \<in> set entries" "json_num ts = Some (secs t)"
  shows "evidence i t (Parsed (dict_update data [(E2E_REPLAY_FIELD, JList (map (\<lambda>(i, ts). replay_entry i ts) entries))]))"
proof -
  obtain d where d: "replay_entry i ts = JObj d" by (simp add: replay_entry_def)
  have "JObj d \<in> set (map (\<lambda>(i, ts). replay_entry i ts) entries)" using assms(1) d by force
  then show ?thesis using replay_entry_fields [OF d] assms(2) unfolding evidence_def by (force simp: dget_update1)
qed

lemma claim_shape:
  "claim_e2e_replay_identities ids now w S = (r, S') \<Longrightarrow> S' \<noteq> S \<or> r = Inr True \<Longrightarrow>
   \<exists>data kept. ps_state S = Parsed data \<and> retained_replay_entries (obj_get data E2E_REPLAY_FIELD) (secs now) = Inr kept \<and>
     (\<forall>i \<in> set ids. i \<notin> fst ` set kept) \<and> r = r_bind (write_result w) (\<lambda>_. Inr True) \<and>
     ps_state S' = after_write w (dict_update data [(E2E_REPLAY_FIELD,
       JList (map (\<lambda>(i, ts). replay_entry i ts) (kept @ map (\<lambda>i. (i, stamp now)) ids)))]) (Parsed data)"
  by (auto simp: claim_e2e_replay_identities_def r_bind_Inr_iff read_json_strict_def list_ex_iff split: if_splits sum.splits store.splits)

lemma claim_keeps:
  assumes "evidence i t (ps_state S)" "secs now \<le> secs t + E2E_REPLAY_TTL"
  shows "evidence i t (ps_state (snd (claim_e2e_replay_identities ids now w S)))"
proof (cases "snd (claim_e2e_replay_identities ids now w S) = S")
  case False
  obtain r S' where c: "claim_e2e_replay_identities ids now w S = (r, S')" by fastforce
  obtain data kept where k: "ps_state S = Parsed data" "retained_replay_entries (obj_get data E2E_REPLAY_FIELD) (secs now) = Inr kept"
     "ps_state S' = after_write w (dict_update data [(E2E_REPLAY_FIELD,
       JList (map (\<lambda>(i, ts). replay_entry i ts) (kept @ map (\<lambda>i. (i, stamp now)) ids)))]) (Parsed data)"
    using claim_shape [OF c] False c by auto
  obtain ts where ts: "(i, ts) \<in> set (kept @ map (\<lambda>i. (i, stamp now)) ids)" "json_num ts = Some (secs t)"
    using retained_evidence [OF _ k(2) assms(2)] assms(1) k(1) by auto
  show ?thesis
    using evidence_written [OF ts] assms(1) k(1,3) c by (simp add: after_write_def split: if_splits)
qed (simp add: assms(1))

lemma claim_leaves:
  assumes "claim_e2e_replay_identities ids now w S = (Inr True, S')" "i \<in> set ids"
  shows "evidence i now (ps_state S')"
proof -
  obtain data kept where k: "r_bind (write_result w) (\<lambda>_. Inr True) = Inr True"
     "ps_state S' = after_write w (dict_update data [(E2E_REPLAY_FIELD,
       JList (map (\<lambda>(i, ts). replay_entry i ts) (kept @ map (\<lambda>i. (i, stamp now)) ids)))]) (Parsed data)"
    using claim_shape [OF assms(1)] by auto
  have "w \<noteq> Failed_before" using k(1) by (auto simp: write_result_def)
  moreover have "(i, stamp now) \<in> set (kept @ map (\<lambda>i. (i, stamp now)) ids)" using assms(2) by simp
  from evidence_written [OF this json_num_stamp, of data]
  have "evidence i now (after_write Written (dict_update data [(E2E_REPLAY_FIELD,
       JList (map (\<lambda>(i, ts). replay_entry i ts) (kept @ map (\<lambda>i. (i, stamp now)) ids)))]) (Parsed data))"
    unfolding after_write_def by simp
  ultimately show ?thesis unfolding k(2) by (simp add: after_write_def)
qed

text \<open>Steps that keep the evidence of a claim made at \<open>t\<close>: anything but removing the pairing, with the clock of every claim within the retention.\<close>

definition in_retention :: "int \<Rightarrow> pair_op \<Rightarrow> bool" where
  "in_retention t p \<longleftrightarrow> (case p of Claim _ now _ \<Rightarrow> secs now \<le> secs t + E2E_REPLAY_TTL | Clear _ _ \<Rightarrow> False | _ \<Rightarrow> True)"

lemma evidence_step: "evidence i t (ps_state S) \<Longrightarrow> in_retention t p \<Longrightarrow> evidence i t (ps_state (pair_step U p S))"
  by (cases p) (simp_all add: unchanged_state revoke_state commit_keeps save_keeps claim_keeps in_retention_def)

lemma evidence_run: "evidence i t (ps_state S) \<Longrightarrow> list_all (in_retention t) ops \<Longrightarrow> evidence i t (ps_state (pair_run U ops S))"
  by (induction ops arbitrary: S) (simp_all add: pair_run_def evidence_step)

lemma replay_once:
  assumes "claim_e2e_replay_identities ids t w S = (Inr True, S1)" "list_all (in_retention t) ops"
    "i \<in> set ids" "i \<in> set ids'" "secs now \<le> secs t + E2E_REPLAY_TTL"
  shows "fst (claim_e2e_replay_identities ids' now w' (pair_run U ops S1)) \<noteq> Inr True"
proof
  assume "fst (claim_e2e_replay_identities ids' now w' (pair_run U ops S1)) = Inr True"
  then obtain S2 where c: "claim_e2e_replay_identities ids' now w' (pair_run U ops S1) = (Inr True, S2)" by (metis prod.collapse)
  obtain data kept where k: "ps_state (pair_run U ops S1) = Parsed data"
      "retained_replay_entries (obj_get data E2E_REPLAY_FIELD) (secs now) = Inr kept" "\<forall>i \<in> set ids'. i \<notin> fst ` set kept"
    using claim_shape [OF c] by blast
  have "evidence i t (Parsed data)" using evidence_run [OF claim_leaves [OF assms(1,3)] assms(2), of U] k(1) by simp
  from retained_evidence [OF this k(2) assms(5)] k(3) assms(4) show False by force
qed

text \<open>A command that was accepted is not accepted again. Once its replay identities were claimed, then for thirty days, whatever locked
  sections of any process come in between (claims of other commands, failing writes, new keys, even a new pairing, a clock that goes
  back) except the removal of the pairing or a clock that leaps past the retention, no claim that shares an identity returns True.\<close>

lemma replay_at_most_once:
  assumes "claim_e2e_replay_identities ids t w S = (Inr True, S1)" "list_all (in_retention t) ops"
    "i \<in> set ids" "i \<in> set ids'" "secs now \<le> secs t + E2E_REPLAY_TTL"
  shows "fst (claim_e2e_replay_identities ids' now w' (pair_run U ops S1)) \<noteq> Inr True"
  by (rule replay_once [OF assms])

section \<open>The handshake\<close>

lemma paired_fields:
  "map_of (dict_update (dict_update data (pairing_fields p)) [(PAIRING_CODE_DIGEST_FIELD, JStr h)]) (str_lit ''aes_key'') = Some (JStr (b64u_encode (pr_aes_key p)))"
  "map_of (dict_update (dict_update data (pairing_fields p)) [(PAIRING_CODE_DIGEST_FIELD, JStr h)]) (str_lit ''ext_token'') = Some (JStr (pr_ext_token p))"
  "obj_get (dict_update (dict_update data (pairing_fields p)) [(PAIRING_CODE_DIGEST_FIELD, JStr h)]) PAIRING_CODE_DIGEST_FIELD = JStr h"
  "obj_get (dict_update (dict_update data (pairing_fields p)) [(PAIRING_CODE_DIGEST_FIELD, JStr h)]) ''channel_keys'' = obj_get data ''channel_keys''"
  by (simp_all add: dict_update_def pairing_fields_def map_of_dict_put str_lit_inject PAIRING_CODE_DIGEST_FIELD_def obj_get_def)

lemma write_pairing_Inr:
  assumes "write_pairing_locked p (Some h) w u S = (Inr (), S')"
  obtains data where "read_json (ps_state S) = Inr data"
    "ps_state S' = Parsed (dict_update (dict_update data (pairing_fields p)) [(PAIRING_CODE_DIGEST_FIELD, JStr h)])" "ps_pending S' = ps_pending S"
  using assms by (cases "read_json (ps_state S)")
    (auto simp: write_pairing_locked_def Let_def write_result_def after_write_def split: if_splits)

lemma commit_Inr:
  assumes "commit_pairing R code p w u w' S = (Inr (), S')"
  obtains pending h S1 e where "read_json (ps_pending S) = Inr pending" "pairing_code_digest code = Inr h"
    "write_pairing_locked p (Some h) w u S = (Inr (), S1)" "S' = snd (put_pending w' code e pending S1)"
proof -
  obtain pending where r: "read_json (ps_pending S) = Inr pending" using assms by (cases "read_json (ps_pending S)") (auto simp: commit_pairing_def)
  obtain d where d: "pending_entry pending code = JObj d" using assms r by (cases "pending_entry pending code") (auto simp: commit_pairing_def)
  show ?thesis using assms r d that [OF r] by (auto simp: commit_pairing_def split: if_splits sum.splits prod.splits)
qed

text \<open>Pairing again does not touch the channel keys.\<close>

lemma pairing_keeps_channel_keys: "write_pairing_locked p (Some h) w u S = (Inr (), S') \<Longrightarrow> load_channel_keys S' = load_channel_keys S"
  by (erule write_pairing_Inr) (simp add: load_channel_keys_def read_json_def channel_keys_field_def paired_fields)

lemma pending_readable: "read_json (ps_pending S) = Inr pending \<Longrightarrow> ps_pending S1 = ps_pending S \<Longrightarrow>
   \<exists>d. read_json (ps_pending (snd (put_pending w code e pending S1))) = Inr d"
  by (simp add: put_pending_def after_write_def read_json_def)

text \<open>C24: Both ends of a successful handshake hold the same secrets: when pair_init succeeds for an extension with the private key
  \<open>ext\<close>, what the gateway stores as the active pairing is the key that the extension derives from the answer and the code, and the
  token in the answer, which validate_token then accepts; the polling CLI sees the code as paired, whether or not the outcome could
  be noted.\<close>

theorem pair_init_agrees:
  assumes "\<forall>a b. x25519_exchange C a (x25519_public C b) = x25519_exchange C b (x25519_public C a)" "iw_token w \<noteq> []"
    "handle_pair_init C U R w raw (b64u_encode (x25519_public C ext)) challenge S = (Inr payload, S')"
  shows "\<exists>p. load_pairing S' = Inr (Some p) \<and> derive_shared_key C ext (pc_hermes_pubkey payload) (normalize_code U raw) = Inr (lp_aes_key p) \<and>
    lp_ext_token p = JStr (pc_ext_token payload) \<and> validate_token (pc_ext_token payload) S' = Inr True \<and> pair_outcome U raw S' = Inr Paired"
proof -
  let ?code = "normalize_code U raw"
  obtain n1 n2 wo wc un wa where io: "iw_consume w = (n1, n2, wo)" "iw_commit w = (wc, un, wa)" by (metis prod_cases3)
  obtain S1 where s1: "consume_code ?code n1 n2 wo S = (Inr (), S1)"
    using assms(3) io by (auto simp: handle_pair_init_def Let_def split: sum.splits prod.splits)
  have bad: "pair_init_failed w c e T \<noteq> (Inr x, T')" for c e T x T'
    by (auto simp: pair_init_failed_def split: sum.splits prod.splits)
  obtain p where p: "pair_secrets C w ?code (b64u_encode (x25519_public C ext)) challenge = Inr (p, payload)"
      "commit_pairing R ?code p wc un wa (iw_between w S1) = (Inr (), S')"
    using assms(3) io s1 bad by (auto simp: handle_pair_init_def Let_def split: sum.splits prod.splits)
  obtain aes where a: "derive_shared_key C (iw_priv w) (b64u_encode (x25519_public C ext)) ?code = Inr aes" "pr_aes_key p = aes"
      "pr_ext_token p = b64u_encode (iw_token w)" "pc_ext_token payload = b64u_encode (iw_token w)" "pc_hermes_pubkey payload = b64u_encode (x25519_public C (iw_priv w))"
    using p(1) by (auto simp: pair_secrets_def r_bind_Inr_iff Let_def split: if_splits)
  obtain pending h S3 e where c: "read_json (ps_pending (iw_between w S1)) = Inr pending" "pairing_code_digest ?code = Inr h"
    "write_pairing_locked p (Some h) wc un (iw_between w S1) = (Inr (), S3)" "S' = snd (put_pending wa ?code e pending S3)"
    by (rule commit_Inr [OF p(2)])
  obtain data where d: "ps_state S3 = Parsed (dict_update (dict_update data (pairing_fields p)) [(PAIRING_CODE_DIGEST_FIELD, JStr h)])"
      "ps_pending S3 = ps_pending (iw_between w S1)"
    by (rule write_pairing_Inr [OF c(3)])
  have st: "read_json (ps_state S') = Inr (dict_update (dict_update data (pairing_fields p)) [(PAIRING_CODE_DIGEST_FIELD, JStr h)])"
    using d(1) c(4) unchanged_state(2) by (simp add: read_json_def)
  obtain q where q: "load_pairing S' = Inr (Some q)" "lp_aes_key q = aes" "lp_ext_token q = JStr (b64u_encode (iw_token w))"
    using a(2,3) by (simp add: load_pairing_def st paired_fields decode_json_b64u_def)
  have "derive_shared_key C ext (pc_hermes_pubkey payload) ?code = Inr aes"
    using a(1,5) assms(1) by (simp add: derive_shared_key_def)
  moreover have "b64u_encode (iw_token w) \<noteq> []"
    using length_b64u_encode [of "iw_token w"] assms(2) by (cases "iw_token w") auto
  then have "validate_token (pc_ext_token payload) S' = Inr True"
    using q(1,3) a(4) b64u_ascii by (simp add: validate_token_def)
  moreover obtain d' where "read_json (ps_pending S') = Inr d'" using pending_readable [OF c(1) d(2)] c(4) by blast
  then have "pair_outcome U raw S' = Inr Paired" by (simp add: pair_outcome_def Let_def st c(2) paired_fields)
  ultimately show ?thesis using q a(4) by simp
qed

lemma failed_keeps_state:
  "(\<And>S. ps_state (iw_between2 w S) = ps_state S) \<Longrightarrow> ps_state (snd (pair_init_failed w code e S)) = ps_state S"
  by (auto simp: pair_init_failed_def split: sum.split prod.split) (metis snd_conv unchanged_state(4))+

lemma commit_Inl_state:
  assumes "commit_pairing R code p w u w' S = (Inl e, S')" "w \<noteq> Failed_after"
  shows "ps_state S' = ps_state S"
proof -
  have "ps_state S1 = ps_state S" if "write_pairing_locked p h w u S = (Inl e', S1)" for h e' S1
    using that assms(2) by (cases w; cases "read_json (ps_state S)") (auto simp: write_pairing_locked_def Let_def write_result_def after_write_def split: if_splits)
  then show ?thesis using assms(1) unfolding commit_pairing_def
    by (auto split: sum.splits json.splits prod.splits if_splits)
qed

text \<open>C25: A handshake that fails never replaces a working pairing: if pair_init raises, for any reason (a bad code, challenge or public key,
  a failing attestation, a cancellation, a write that did not happen) and nobody else changes the state meanwhile, state.json is what
  it was; only a write that raises after the new content is in place can leave the new pairing.\<close>

theorem pair_init_failure_keeps_pairing:
  assumes "handle_pair_init C U R w raw ext_pubkey challenge S = (Inl e, S')"
    "\<forall>S. ps_state (iw_between w S) = ps_state S" "\<forall>S. ps_state (iw_between2 w S) = ps_state S" "fst (iw_commit w) \<noteq> Failed_after"
  shows "ps_state S' = ps_state S"
proof -
  let ?code = "normalize_code U raw"
  obtain n1 n2 wo wc un wa where io: "iw_consume w = (n1, n2, wo)" "iw_commit w = (wc, un, wa)" by (metis prod_cases3)
  obtain r1 S1 where s1: "consume_code ?code n1 n2 wo S = (r1, S1)" by fastforce
  then have st1: "ps_state S1 = ps_state S" using unchanged_state(3) [of ?code n1 n2 wo S] by simp
  have f: "ps_state (snd (pair_init_failed w ?code e' T)) = ps_state T" for e' T
    by (rule failed_keeps_state) (use assms(3) in simp)
  show ?thesis
  proof (cases r1)
    case (Inr x)
    show ?thesis
    proof (cases "pair_secrets C w ?code ext_pubkey challenge")
      case (Inl e')
      then have "S' = snd (pair_init_failed w ?code e' (iw_between w S1))"
        using assms(1) io s1 Inr by (simp add: handle_pair_init_def Let_def)
      then show ?thesis using f assms(2) st1 by simp
    next
      case (Inr pp)
      obtain r3 S3 where c: "commit_pairing R ?code (fst pp) wc un wa (iw_between w S1) = (r3, S3)" by fastforce
      obtain e3 where e3: "r3 = Inl e3" "S' = snd (pair_init_failed w ?code e3 S3)"
        using assms(1) io s1 \<open>r1 = Inr x\<close> Inr c by (cases r3) (auto simp: handle_pair_init_def Let_def split: prod.splits)
      have "ps_state S3 = ps_state (iw_between w S1)" using commit_Inl_state c e3(1) assms(4) io(2) by fastforce
      then show ?thesis using e3(2) f assms(2) st1 by simp
    qed
  qed (use assms(1) io s1 st1 in \<open>simp add: handle_pair_init_def Let_def\<close>)
qed

section \<open>Concrete runs\<close>

definition demo_code :: py_str where "demo_code = format_code (replicate 16 65)"

definition demo_entry :: kvs where
  "demo_entry = [(str_lit ''expires_at'', stamp CODE_TTL), (str_lit ''used'', JBool False), (str_lit ''paired_at'', JNull)]"

definition demo_data :: kvs where
  "demo_data = [(str_lit ''aes_key'', JStr (b64u_encode (replicate 32 1))), (str_lit ''ext_token'', JStr (str_lit ''t''))]"

definition demo_stores :: pair_stores where
  "demo_stores = \<lparr>ps_pending = Parsed [(demo_code, JObj demo_entry)], ps_state = Parsed demo_data, ps_webauthn = False\<rparr>"

lemma demo_stores_simps [simp]:
  "ps_pending demo_stores = Parsed [(demo_code, JObj demo_entry)]" "ps_state demo_stores = Parsed demo_data"
  by (simp_all add: demo_stores_def)

lemma demo_normal: "normalize_code demo_case demo_code = demo_code"
  by code_simp

lemma demo_ascii: "is_ascii demo_code"
  by code_simp

lemma demo_dget: "obj_get demo_entry ''used'' = JBool False" "obj_get demo_entry ''result'' = JNull"
  by (simp_all add: obj_get_def demo_entry_def str_lit_inject)

lemma num_less_stamp: "num_less (stamp t) x = Inr (secs t < x)"
  using json_num_stamp [of t] by (simp add: num_less_def stamp_def)

lemma demo_consume:
  "consume_code demo_code 0 0 Written demo_stores = (Inr (), demo_stores\<lparr>ps_pending :=
     Parsed [(demo_code, JObj (dict_put (str_lit ''paired_at'') (stamp 0) (dict_put (str_lit ''used'') (JBool True) demo_entry)))]\<rparr>)"
proof -
  have "expires_of (JObj demo_entry) = Inr (stamp CODE_TTL)" by (simp add: expires_of_def demo_entry_def)
  then show ?thesis
    by (simp add: consume_code_def read_json_def pending_entry_def entry_get_def demo_dget json_truthy_def num_less_stamp secs_def CODE_TTL_def
        entry_put_def put_pending_def write_result_def after_write_def)
qed


definition demo_identity :: py_str where "demo_identity = replicate 64 97"

lemma demo_claim: "\<exists>S1. claim_e2e_replay_identities [demo_identity] 0 Written demo_stores = (Inr True, S1)"
proof -
  have "is_replay_identity demo_identity" by code_simp
  moreover have "active_replay_state demo_data"
    by (simp add: active_replay_state_def demo_data_def obj_get_def str_lit_inject) (simp add: str_lit_def)
  moreover have "obj_get demo_data E2E_REPLAY_FIELD = JNull"
    by (simp add: obj_get_def demo_data_def str_lit_inject E2E_REPLAY_FIELD_def)
  ultimately show ?thesis
    by (simp add: claim_e2e_replay_identities_def read_json_strict_def retained_replay_entries_def E2E_REPLAY_MAX_IDENTITIES_def write_result_def)
qed

lemma replay_at_most_once_witness:
  "\<exists>S1. fst (claim_e2e_replay_identities [demo_identity] 2 Written (pair_run demo_case [Save_key [] [] Written, Claim [demo_identity] 1 Failed_after] S1)) \<noteq> Inr True"
proof -
  obtain S1 where "claim_e2e_replay_identities [demo_identity] 0 Written demo_stores = (Inr True, S1)" using demo_claim by blast
  from replay_at_most_once [OF this, of "[Save_key [] [] Written, Claim [demo_identity] 1 Failed_after]" demo_identity "[demo_identity]" 2 Written demo_case]
  show ?thesis by (auto simp: in_retention_def secs_def E2E_REPLAY_TTL_def)
qed

definition demo_init :: "pair_stores \<Rightarrow> init_world" where
  "demo_init T = \<lparr>iw_consume = (0, 0, Written), iw_priv = replicate 32 9, iw_token = replicate 32 4, iw_sign = (\<lambda>c. Inr []), iw_spki = Inr [], iw_se = False,
     iw_time = 0, iw_commit = (Written, True, Failed_before), iw_mark = Written, iw_between = id, iw_between2 = id\<rparr>"

lemma demo_commutes: "x25519_exchange demo_e2e a (x25519_public demo_e2e b) = x25519_exchange demo_e2e b (x25519_public demo_e2e a)"
proof -
  have "map2 xor x y = map2 xor y (x :: bytes)" for x y
    by (induction x y rule: list_induct2') (simp_all add: xor.commute)
  then show ?thesis by (simp add: demo_e2e_def crypto.defs)
qed

lemma demo_pair_init:
  "\<exists>payload S'. handle_pair_init demo_e2e demo_case (\<lambda>_. []) (demo_init demo_stores) demo_code (b64u_encode (x25519_public demo_e2e (replicate 32 8)))
     (b64u_encode (replicate 16 0)) demo_stores = (Inr payload, S')"
proof -
  have x: "\<exists>s. x25519_exchange demo_e2e a b = Inr s" for a b by (simp add: demo_e2e_def crypto.defs)
  obtain s where s: "x25519_exchange demo_e2e (replicate 32 9) (x25519_public demo_e2e (replicate 32 8)) = Inr s" using x by blast
  obtain p payload where p: "pair_secrets demo_e2e (demo_init demo_stores) demo_code (b64u_encode (x25519_public demo_e2e (replicate 32 8))) (b64u_encode (replicate 16 0)) =
      Inr (p, payload)"
    using s utf8_encode_ascii [OF demo_ascii] by (simp add: pair_secrets_def derive_shared_key_def demo_init_def Let_def)
  let ?e = "dict_put (str_lit ''paired_at'') (stamp 0) (dict_put (str_lit ''used'') (JBool True) demo_entry)"
  have e: "obj_get ?e ''used'' = JBool True" "obj_get ?e ''result'' = JNull" by (simp_all add: dget_put demo_dget)
  have w: "\<exists>S'. write_pairing_locked p (Some h) Written True (demo_stores\<lparr>ps_pending := x\<rparr>) = (Inr (), S')" for h x
    by (simp add: write_pairing_locked_def read_json_def write_result_def Let_def)
  have "\<exists>S'. commit_pairing (\<lambda>_. []) demo_code p Written True Failed_before (demo_stores\<lparr>ps_pending := Parsed [(demo_code, JObj ?e)]\<rparr>) = (Inr (), S')"
    using w [of "sha256_hex (ascii_bytes demo_code)" "Parsed [(demo_code, JObj ?e)]"] demo_ascii
    by (auto simp: commit_pairing_def read_json_def pending_entry_def e pairing_code_digest_def ascii_encode_def)
  then show ?thesis
    using p demo_consume demo_normal by (auto simp: handle_pair_init_def Let_def demo_init_def split: prod.split)
qed

lemma pair_init_agrees_witness:
  "\<exists>(payload :: pair_complete) S' p. load_pairing S' = Inr (Some p) \<and>
     derive_shared_key demo_e2e (replicate 32 8) (pc_hermes_pubkey payload) (normalize_code demo_case demo_code) = Inr (lp_aes_key p)"
proof -
  obtain payload S' where r: "handle_pair_init demo_e2e demo_case (\<lambda>_. []) (demo_init demo_stores) demo_code (b64u_encode (x25519_public demo_e2e (replicate 32 8)))
     (b64u_encode (replicate 16 0)) demo_stores = (Inr payload, S')"
    using demo_pair_init by blast
  have "\<forall>a b. x25519_exchange demo_e2e a (x25519_public demo_e2e b) = x25519_exchange demo_e2e b (x25519_public demo_e2e a)" using demo_commutes by blast
  from pair_init_agrees [OF this _ r] have "\<exists>p. load_pairing S' = Inr (Some p) \<and>
     derive_shared_key demo_e2e (replicate 32 8) (pc_hermes_pubkey payload) (normalize_code demo_case demo_code) = Inr (lp_aes_key p)"
    by (auto simp: demo_init_def)
  then show ?thesis by blast
qed

lemma pair_init_failure_keeps_pairing_witness:
  "\<exists>S'. handle_pair_init demo_e2e demo_case (\<lambda>_. []) (demo_init demo_stores) demo_code [] [] demo_stores = (Inl (PairError (str_lit ''invalid_challenge'')), S') \<and>
     ps_state S' = Parsed demo_data"
proof -
  have "b64u_encode [] = []" using length_b64u_encode [of "[]"] by simp
  then have "b64u_decode [] = Inr []" using b64u_decode_encode [of "[]"] by (simp only:)
  then have "pair_secrets demo_e2e (demo_init demo_stores) demo_code [] [] = Inl (PairError (str_lit ''invalid_challenge''))"
    by (simp add: pair_secrets_def)
  moreover have "\<exists>S'. pair_init_failed (demo_init demo_stores) demo_code (PairError (str_lit ''invalid_challenge'')) S = (Inl (PairError (str_lit ''invalid_challenge'')), S')"
    if "ps_pending S = Parsed [(demo_code, JObj d)]" for S d
    using that by (simp add: pair_init_failed_def is_exception_def is_control_flow_def mark_pair_result_def read_json_def pending_entry_def demo_init_def
        entry_put_def put_pending_def write_result_def)
  ultimately obtain S' where r: "handle_pair_init demo_e2e demo_case (\<lambda>_. []) (demo_init demo_stores) demo_code [] [] demo_stores =
      (Inl (PairError (str_lit ''invalid_challenge'')), S')"
    using demo_consume demo_normal by (fastforce simp: handle_pair_init_def Let_def demo_init_def)
  from pair_init_failure_keeps_pairing [OF this] show ?thesis using r by (auto simp: demo_init_def)
qed

end
