(* ===== verification/E2E_Dispatch.thy ===== *)
theory E2E_Dispatch
  imports Pairing_Safety
begin

text \<open>
  The hook \<open>pre_gateway_dispatch\<close> of \<open>extension/gateway_plugin.py\<close>, with the adapter wrapping of \<open>outbound.py\<close> it relies
  on: what becomes of one inbound message. The event and the gateway are the host's objects; the model has
  the attributes the code reads, after \<open>getattr\<close> with its default and \<open>str\<close>. A verdict is \<open>Continue\<close> (\<open>None\<close>, normal
  dispatch), \<open>Skip\<close> or \<open>Rewrite\<close>.
\<close>

section \<open>Key exchange\<close>

text \<open>A match of \<open>(?:REQ|GRANT):v[12]:\S+\<close> at the front; the optional key symbol before it changes nothing for a search.\<close>

definition keyexch_here :: "py_str \<Rightarrow> bool" where
  "keyexch_here s \<longleftrightarrow>
     (case first_of [lit ''REQ:v1:'' s, lit ''REQ:v2:'' s, lit ''GRANT:v1:'' s, lit ''GRANT:v2:'' s] of
        Some (c # r) \<Rightarrow> \<not> is_str_space c | _ \<Rightarrow> False)"

fun is_key_exchange :: "py_str \<Rightarrow> bool" where
  "is_key_exchange [] = False"
| "is_key_exchange (c # s) \<longleftrightarrow> keyexch_here (c # s) \<or> is_key_exchange s"

section \<open>The event\<close>

datatype profile_field = No_profile | Profile py_str | Bad_profile
datatype auto_field = No_auto | Auto bool | Bad_auto

record event =
  ev_text :: "py_str option"
  ev_src_platform :: "py_str option"
  ev_platform :: "py_str option"
  ev_profile :: profile_field
  ev_src_chat :: "py_str option"
  ev_chat :: "py_str option"
  ev_src_thread :: "py_str option"
  ev_thread :: "py_str option"
  ev_src_parent :: "py_str option"
  ev_parent :: "py_str option"
  ev_scope :: "py_str option"
  ev_guild :: "py_str option"
  ev_message_id :: "py_str option"
  ev_reply_to :: "py_str option"
  ev_auto :: auto_field
  ev_raw_channel :: "py_str option"
  ev_raw_slack :: "(py_str \<times> py_str option) option"

definition or_str :: "py_str option \<Rightarrow> py_str option \<Rightarrow> py_str" where
  "or_str a b = (if truthy a then the a else case b of Some s \<Rightarrow> s | None \<Rightarrow> [])"

definition platform_name :: "('u) ucd_case_scheme \<Rightarrow> event \<Rightarrow> py_str" where
  "platform_name U ev = uc_lower U (or_str (ev_src_platform ev) (ev_platform ev))"

definition INVALID_PROFILE :: py_str where "INVALID_PROFILE = 0 # str_lit ''mordred-invalid-profile''"

definition nonempty :: "py_str \<Rightarrow> py_str option" where
  "nonempty s = (if s = [] then None else Some s)"

definition profile_name :: "event \<Rightarrow> py_str option" where
  "profile_name ev = (case ev_profile ev of No_profile \<Rightarrow> None | Bad_profile \<Rightarrow> Some INVALID_PROFILE | Profile p \<Rightarrow> nonempty (strip is_str_space p))"

definition scope_id_of :: "event \<Rightarrow> py_str option" where
  "scope_id_of ev = nonempty (strip is_str_space (or_str (ev_scope ev) (ev_guild ev)))"

definition no_empty :: "py_str option \<Rightarrow> py_str option" where
  "no_empty s = (if s = Some [] then None else s)"

definition or_else_none :: "py_str option \<Rightarrow> py_str option \<Rightarrow> py_str option" where
  "or_else_none a b = (if a = None then b else a)"

type_synonym reply_context = "py_str \<times> py_str \<times> py_str option \<times> py_str option"

definition thread_ctx :: "('u) ucd_case_scheme \<Rightarrow> event \<Rightarrow> reply_context" where
  "thread_ctx U ev =
     (platform_name U ev, or_str (ev_src_chat ev) (ev_chat ev), no_empty (or_else_none (ev_src_thread ev) (ev_thread ev)),
      no_empty (or_else_none (ev_src_parent ev) (ev_parent ev)))"

definition slack_command_thread_root :: "event \<Rightarrow> py_str option \<Rightarrow> py_str option" where
  "slack_command_thread_root ev thread_root =
     (if thread_root \<noteq> None \<and> truthy (ev_message_id ev) \<and> ev_message_id ev = thread_root \<and> no_empty (ev_reply_to ev) = None then None
      else thread_root)"

definition discord_command_ctx :: "event \<Rightarrow> reply_context \<Rightarrow> (py_str \<times> py_str \<times> py_str option) result" where
  "discord_command_ctx ev routed_context =
     (case routed_context of (platform, chat_id, thread_root, parent_chat_id) \<Rightarrow>
       let raw_channel_id = no_empty (ev_raw_channel ev);
           parent = (case parent_chat_id of Some p \<Rightarrow> p | None \<Rightarrow> []);
           routed_thread = (parent \<noteq> [] \<and> truthy thread_root \<and> Some chat_id = thread_root);
           inferred_auto = (routed_thread \<and> raw_channel_id = Some parent \<and> raw_channel_id \<noteq> Some chat_id)
       in if ev_auto ev = Bad_auto then Inl ValueError
          else if ev_auto ev = Auto True then (if \<not> inferred_auto then Inl ValueError else Inr (platform, parent, None))
          else if ev_auto ev = Auto False \<and> inferred_auto then Inl ValueError
          else if inferred_auto then Inr (platform, parent, None)
          else if routed_thread \<and> ev_auto ev = No_auto \<and> raw_channel_id \<noteq> Some chat_id then Inl ValueError
          else Inr (platform, chat_id, thread_root))"

definition command_aad_ctx :: "event \<Rightarrow> reply_context \<Rightarrow> (py_str \<times> py_str \<times> py_str option) result" where
  "command_aad_ctx ev routed_context =
     (case routed_context of (platform, chat_id, thread_root, parent_chat_id) \<Rightarrow>
       if platform = str_lit ''slack'' then Inr (platform, chat_id, slack_command_thread_root ev thread_root)
       else if platform \<noteq> str_lit ''discord'' then Inr (platform, chat_id, thread_root)
       else discord_command_ctx ev routed_context)"

section \<open>Live adapters\<close>

text \<open>
  An adapter is its platform name and the number of its class; \<open>gw_profiles\<close> is \<open>None\<close> when the gateway has no registry of secondary
  profiles. \<open>gw_wrappable\<close>: the class has a \<open>send\<close> and lets it be replaced. \<open>gw_team_clients\<close>: the \<open>str\<close> keys of a Slack adapter's clients.
\<close>

type_synonym adapters = "(py_str \<times> nat) list"

record gateway =
  gw_adapters :: "adapters option"
  gw_profiles :: "(py_str \<Rightarrow> adapters option) option"
  gw_wrappable :: "nat \<Rightarrow> bool"
  gw_team_clients :: "nat \<Rightarrow> py_str list option"

definition live_adapter_items :: "gateway \<Rightarrow> py_str option \<Rightarrow> adapters" where
  "live_adapter_items g profile =
     (let profile_name = (case profile of Some p \<Rightarrow> strip is_str_space p | None \<Rightarrow> [])
      in case (if profile_name \<noteq> [] \<and> profile_name \<noteq> str_lit ''default'' then Option.bind (gw_profiles g) (\<lambda>reg. reg profile_name) else gw_adapters g) of
           None \<Rightarrow> [] | Some items \<Rightarrow> items)"

definition live_adapter_for :: "('u) ucd_case_scheme \<Rightarrow> gateway \<Rightarrow> py_str \<Rightarrow> py_str option \<Rightarrow> nat option" where
  "live_adapter_for U g platform profile =
     map_option snd (find (\<lambda>(name, cls). uc_lower U name = uc_lower U platform) (live_adapter_items g profile))"

definition wrap_live_adapters :: "('u) ucd_case_scheme \<Rightarrow> gateway \<Rightarrow> py_str option \<Rightarrow> nat set \<Rightarrow> nat set" where
  "wrap_live_adapters U g profile wrapped =
     foldl (\<lambda>ws (name, cls). if uc_lower U name \<in> {str_lit ''slack'', str_lit ''discord''} \<and> gw_wrappable g cls then insert cls ws else ws)
       wrapped (live_adapter_items g profile)"

definition live_adapter_is_wrapped :: "('u) ucd_case_scheme \<Rightarrow> gateway \<Rightarrow> nat set \<Rightarrow> py_str \<Rightarrow> py_str option \<Rightarrow> bool" where
  "live_adapter_is_wrapped U g wrapped platform profile =
     (case live_adapter_for U g platform profile of None \<Rightarrow> False | Some cls \<Rightarrow> cls \<in> wrapped)"

definition slack_connect_host_scope_ids ::
  "('u) ucd_case_scheme \<Rightarrow> event \<Rightarrow> gateway option \<Rightarrow> py_str option \<Rightarrow> py_str \<Rightarrow> py_str \<Rightarrow> py_str option \<Rightarrow> py_str set" where
  "slack_connect_host_scope_ids U ev gw profile platform chat_id scope_id =
     (if platform \<noteq> str_lit ''slack'' \<or> \<not> truthy scope_id \<or> (case chat_id of c # _ \<Rightarrow> c \<noteq> 67 \<and> c \<noteq> 71 | [] \<Rightarrow> True) then {}
      else case (ev_raw_slack ev, gw) of
        (Some (channel, Some team), Some g) \<Rightarrow>
          if channel \<noteq> chat_id \<or> Some (strip is_str_space team) \<noteq> scope_id then {}
          else (case Option.bind (live_adapter_for U g (str_lit ''slack'') profile) (gw_team_clients g) of
             None \<Rightarrow> {}
           | Some teams \<Rightarrow>
               (let installed = {strip is_str_space t |t. t \<in> set teams \<and> strip is_str_space t \<noteq> []}
                in if installed = {} \<or> the scope_id \<in> installed then {} else installed))
      | _ \<Rightarrow> {})"

section \<open>The notice\<close>

type_synonym notice_times = "py_str \<times> py_str option \<times> py_str \<Rightarrow> real option"

definition NEEDS_KEY_RATE_LIMIT :: real where "NEEDS_KEY_RATE_LIMIT = 60"

definition notice_rate_limited :: "notice_times \<Rightarrow> real \<Rightarrow> py_str \<Rightarrow> py_str option \<Rightarrow> py_str \<Rightarrow> bool \<times> notice_times" where
  "notice_rate_limited N now platform profile chat_id =
     (let N' = (\<lambda>k. case N k of None \<Rightarrow> None | Some sent_at \<Rightarrow> if NEEDS_KEY_RATE_LIMIT \<le> now - sent_at then None else Some sent_at);
          last_sent = (case N' (platform, profile, chat_id) of None \<Rightarrow> 0 | Some t \<Rightarrow> t)
      in (now - last_sent < NEEDS_KEY_RATE_LIMIT, N'))"

section \<open>The hook\<close>

record dispatch_state =
  ds_threads :: enc_threads
  ds_stores :: pair_stores
  ds_wrapped :: "nat set"
  ds_notices :: notice_times

text \<open>Clock readings, the outcome of the replay write, whether the outbound module loads and whether an event loop runs.\<close>

record dispatch_world =
  dw_now :: real
  dw_notice :: "real \<times> real"
  dw_claim :: "int \<times> write_outcome"
  dw_outbound :: bool
  dw_loop :: bool

datatype verdict = Continue | Skip string | Rewrite py_str

definition notify_needs_key ::
  "('u) ucd_case_scheme \<Rightarrow> dispatch_world \<Rightarrow> gateway option \<Rightarrow> event \<Rightarrow> py_str option \<Rightarrow> dispatch_state \<Rightarrow> bool \<times> dispatch_state" where
  "notify_needs_key U w gw ev profile S =
     (let chat_id = or_str (ev_src_chat ev) (ev_chat ev); platform = platform_name U ev
      in if chat_id = [] then (False, S)
         else case notice_rate_limited (ds_notices S) (fst (dw_notice w)) platform profile chat_id of (limited, N) \<Rightarrow>
           let S' = S\<lparr>ds_notices := N\<rparr>;
               adapter = Option.bind gw (\<lambda>g. if dw_outbound w then live_adapter_for U g platform profile else None)
           in if limited \<or> adapter = None \<or> \<not> dw_loop w then (False, S')
              else (True, S'\<lparr>ds_notices := N((platform, profile, chat_id) \<mapsto> snd (dw_notice w))\<rparr>))"

definition rewrite_encrypted ::
  "('u) ucd_case_scheme \<Rightarrow> dispatch_world \<Rightarrow> reply_context \<Rightarrow> gateway option \<Rightarrow> py_str \<Rightarrow> py_str \<Rightarrow> replay_claim \<Rightarrow> py_str option \<Rightarrow> dispatch_state \<Rightarrow>
   verdict \<times> dispatch_state" where
  "rewrite_encrypted U w context gw decrypted kid replay profile S =
     (case context of (platform, chat_id, thread, parent) \<Rightarrow>
       if platform = [] \<or> chat_id = [] \<or> kid = [] then (Skip ''mordred-outbound-encryption-unavailable'', S)
       else if \<not> dw_outbound w \<or> (case gw of None \<Rightarrow> True | Some g \<Rightarrow> \<not> live_adapter_is_wrapped U g (ds_wrapped S) platform profile)
       then (Skip ''mordred-outbound-encryption-unavailable'', S)
       else case mark_encrypted_thread (ds_threads S) (dw_now w) platform chat_id thread (Some kid) of
         (False, T) \<Rightarrow> (Skip ''mordred-outbound-encryption-unavailable'', S\<lparr>ds_threads := T\<rparr>)
       | (True, T) \<Rightarrow>
           (case claim_e2e_replay_identities [fst replay, snd replay] (fst (dw_claim w)) (snd (dw_claim w)) (ds_stores S) of
              (Inl e, P) \<Rightarrow> (Skip ''mordred-invalid-encrypted-envelope'', S\<lparr>ds_threads := T, ds_stores := P\<rparr>)
            | (Inr False, P) \<Rightarrow> (Skip ''mordred-replayed-encrypted-envelope'', S\<lparr>ds_threads := T, ds_stores := P\<rparr>)
            | (Inr True, P) \<Rightarrow> (Rewrite decrypted, S\<lparr>ds_threads := T, ds_stores := P\<rparr>)))"

definition open_envelope ::
  "('x) e2e_crypto_scheme \<Rightarrow> ('u) ucd_case_scheme \<Rightarrow> gateway option \<Rightarrow> event \<Rightarrow> py_str \<Rightarrow> dispatch_state \<Rightarrow> (py_str \<times> py_str \<times> replay_claim) option result" where
  "open_envelope C U gw ev text S =
     (let context = thread_ctx U ev
      in r_bind (command_aad_ctx ev context) (\<lambda>(platform, chat_id, thread_root).
           decrypt_gateway_envelope C U (load_channel_keys (ds_stores S)) text platform chat_id thread_root (snd (snd (snd context))) (scope_id_of ev)
             (Some (slack_connect_host_scope_ids U ev gw (profile_name ev) platform chat_id (scope_id_of ev)))))"

definition pre_gateway_dispatch ::
  "('x) e2e_crypto_scheme \<Rightarrow> ('u) ucd_case_scheme \<Rightarrow> dispatch_world \<Rightarrow> gateway option \<Rightarrow> event \<Rightarrow> dispatch_state \<Rightarrow> verdict \<times> dispatch_state" where
  "pre_gateway_dispatch C U w gw ev S0 =
     (let profile = profile_name ev;
          S = (case gw of Some g \<Rightarrow> if dw_outbound w then S0\<lparr>ds_wrapped := wrap_live_adapters U g profile (ds_wrapped S0)\<rparr> else S0 | None \<Rightarrow> S0);
          unencrypted =
            (if platform_name U ev \<in> set MANDATORY_ENCRYPTION_PLATFORMS
             then (Skip ''mordred-encryption-required'', snd (notify_needs_key U w gw ev profile S))
             else (Continue, S))
      in case ev_text ev of
           None \<Rightarrow> unencrypted
         | Some text \<Rightarrow>
             if text = [] then unencrypted
             else if is_key_exchange text then (Skip ''mordred-key-exchange'', S)
             else (case open_envelope C U gw ev text S of
                Inl e \<Rightarrow> (Skip ''mordred-invalid-encrypted-envelope'', S)
              | Inr (Some (decrypted, kid, replay)) \<Rightarrow> rewrite_encrypted U w (thread_ctx U ev) gw decrypted kid replay profile S
              | Inr None \<Rightarrow> unencrypted))"

section \<open>What the agent is given\<close>

lemma notify_no_verdict [simp]: "ds_stores (snd (notify_needs_key U w gw ev profile S)) = ds_stores S"
  by (auto simp: notify_needs_key_def Let_def split: prod.split)

lemma rewrite_cases:
  assumes "rewrite_encrypted U w (platform, chat, thread, parent) gw decrypted kid replay profile S = (Rewrite t, S')"
  shows "t = decrypted \<and> chat \<noteq> [] \<and> (\<exists>g. gw = Some g \<and> live_adapter_is_wrapped U g (ds_wrapped S') platform profile) \<and>
    mark_encrypted_thread (ds_threads S) (dw_now w) platform chat thread (Some kid) = (True, ds_threads S') \<and>
    claim_e2e_replay_identities [fst replay, snd replay] (fst (dw_claim w)) (snd (dw_claim w)) (ds_stores S) = (Inr True, ds_stores S')"
proof -
  obtain m T where m: "mark_encrypted_thread (ds_threads S) (dw_now w) platform chat thread (Some kid) = (m, T)" by fastforce
  obtain r P where r: "claim_e2e_replay_identities [fst replay, snd replay] (fst (dw_claim w)) (snd (dw_claim w)) (ds_stores S) = (r, P)" by fastforce
  show ?thesis
    using assms m r unfolding rewrite_encrypted_def by (auto split: if_splits bool.splits sum.splits option.splits)
qed

lemma mark_marks:
  "mark_encrypted_thread T t platform chan thread kid = (True, T') \<Longrightarrow> \<forall>now < t + ENC_TTL. marked T' now platform chan thread"
proof -
  assume "mark_encrypted_thread T t platform chan thread kid = (True, T')"
  then have "T' (platform, chan, thread) = Some (t + ENC_TTL, kid)" by (auto simp: mark_encrypted_thread_def split: if_splits)
  then show ?thesis by (auto simp: marked_def)
qed

lemma dispatch_cases:
  assumes "pre_gateway_dispatch C U w gw ev S = (v, S')" "v = Continue \<or> (\<exists>t. v = Rewrite t)"
  obtains (clear) "v = Continue" "platform_name U ev \<notin> set MANDATORY_ENCRYPTION_PLATFORMS"
      "\<And>text. ev_text ev = Some text \<Longrightarrow> text \<noteq> [] \<Longrightarrow> \<exists>W. open_envelope C U gw ev text (S\<lparr>ds_wrapped := W\<rparr>) = Inr None"
  | (opened) msg decrypted kid replay W where "ev_text ev = Some msg" "open_envelope C U gw ev msg (S\<lparr>ds_wrapped := W\<rparr>) = Inr (Some (decrypted, kid, replay))"
      "rewrite_encrypted U w (thread_ctx U ev) gw decrypted kid replay (profile_name ev) (S\<lparr>ds_wrapped := W\<rparr>) = (v, S')" "v = Rewrite decrypted"
proof -
  obtain W where W: "(case gw of Some g \<Rightarrow> if dw_outbound w then S\<lparr>ds_wrapped := wrap_live_adapters U g (profile_name ev) (ds_wrapped S)\<rparr> else S | None \<Rightarrow> S) =
      S\<lparr>ds_wrapped := W\<rparr>"
  proof (cases gw)
    case None
    show thesis by (rule that [of "ds_wrapped S"]) (simp add: None)
  next
    case (Some g)
    show thesis
      by (rule that [of "if dw_outbound w then wrap_live_adapters U g (profile_name ev) (ds_wrapped S) else ds_wrapped S"]) (simp add: Some)
  qed
  note d = pre_gateway_dispatch_def [of C U w gw ev S, unfolded W Let_def]
  let ?plain = "if platform_name U ev \<in> set MANDATORY_ENCRYPTION_PLATFORMS
     then (Skip ''mordred-encryption-required'', snd (notify_needs_key U w gw ev (profile_name ev) (S\<lparr>ds_wrapped := W\<rparr>)))
     else (Continue, S\<lparr>ds_wrapped := W\<rparr>)"
  have plain: "v = Continue \<and> platform_name U ev \<notin> set MANDATORY_ENCRYPTION_PLATFORMS" if "?plain = (v, S')"
    using that assms(2) by (auto split: if_splits)
  show thesis
  proof (cases "ev_text ev")
    case None
    then have "?plain = (v, S')" using assms(1) d by simp
    then show thesis using clear plain None by simp
  next
    case (Some msg)
    show thesis
    proof (cases "msg = []")
      case True
      then have "?plain = (v, S')" using assms(1) d Some by simp
      then show thesis using clear plain Some True by simp
    next
      case False
      have k: "\<not> is_key_exchange msg" using assms d Some False by auto
      show thesis
      proof (cases "open_envelope C U gw ev msg (S\<lparr>ds_wrapped := W\<rparr>)")
        case (Inl e)
        then show thesis using assms d Some False k by auto
      next
        case (Inr r)
        show thesis
        proof (cases r)
          case None
          then have "?plain = (v, S')" using assms(1) d Some False k Inr by simp
          then show thesis using clear plain Some Inr None by auto
        next
          case (Some x)
          obtain decrypted kid replay where x: "x = (decrypted, kid, replay)" by (cases x) auto
          have r: "rewrite_encrypted U w (thread_ctx U ev) gw decrypted kid replay (profile_name ev) (S\<lparr>ds_wrapped := W\<rparr>) = (v, S')"
            using assms(1) d \<open>ev_text ev = Some msg\<close> False k Inr Some x by simp
          obtain a b c e where ctx: "thread_ctx U ev = (a, b, c, e)" by (cases "thread_ctx U ev") auto
          have "v \<noteq> Continue"
            using r unfolding ctx rewrite_encrypted_def by (auto split: if_splits bool.splits sum.splits prod.splits)
          then obtain t where t: "v = Rewrite t" using assms(2) by auto
          have "t = decrypted" using rewrite_cases [OF r [unfolded ctx t]] by simp
          then show thesis using opened [OF \<open>ev_text ev = Some msg\<close> _ r] Inr Some x t by simp
        qed
      qed
    qed
  qed
qed

lemma open_envelope_Some:
  assumes "open_envelope C U gw ev text S = Inr (Some (decrypted, kid, replay))"
  obtains platform chat tr hosts where "command_aad_ctx ev (thread_ctx U ev) = Inr (platform, chat, tr)"
    "decrypt_gateway_envelope C U (load_channel_keys (ds_stores S)) text platform chat tr (snd (snd (snd (thread_ctx U ev)))) (scope_id_of ev) hosts =
       Inr (Some (decrypted, kid, replay))"
  using assms by (auto simp: open_envelope_def Let_def r_bind_Inr_iff)

lemma open_envelope_wrapped [simp]: "open_envelope C U gw ev text (S\<lparr>ds_wrapped := W\<rparr>) = open_envelope C U gw ev text S"
  by (simp add: open_envelope_def)

text \<open>C5: The gate in front of the agent. On a platform where encryption is mandatory no message is passed on as it came; anywhere, what is
  passed on unchanged does not claim to be encrypted. And the agent is given decrypted text only if it was decrypted under a channel
  key and the associated data of a command in the context the sender knew, the live adapter of the profile is wrapped, the routed
  conversation is marked with that key, so that replies must be encrypted until the mark expires, and the replay claim was fresh and
  is recorded.\<close>

theorem gateway_gate:
  assumes "pre_gateway_dispatch C U w gw ev S = (v, S')"
  shows "(v = Continue \<longrightarrow> platform_name U ev \<notin> set MANDATORY_ENCRYPTION_PLATFORMS \<and> (\<forall>text. ev_text ev = Some text \<longrightarrow> \<not> enc_claim text)) \<and>
    (\<forall>t. v = Rewrite t \<longrightarrow> (\<exists>text g stored keys key kid mid nonce ct aad p platform chat tr.
       ev_text ev = Some text \<and> enc_claim text \<and> command_aad_ctx ev (thread_ctx U ev) = Inr (platform, chat, tr) \<and>
       load_channel_keys (ds_stores S) = Inr keys \<and> (stored, key) \<in> set keys \<and> key_id key = kid \<and>
       v3_aad U (str_lit ''command'') (uc_lower U platform) chat tr mid 0 1 = Inr aad \<and> gcm_open C key nonce ct aad = Inr p \<and> utf8_decode p = Inr t \<and>
       gw = Some g \<and> live_adapter_is_wrapped U g (ds_wrapped S') (platform_name U ev) (profile_name ev) \<and>
       (case thread_ctx U ev of (routed, chan, thread, parent) \<Rightarrow> \<forall>now < dw_now w + ENC_TTL. marked (ds_threads S') now routed chan thread) \<and>
       claim_e2e_replay_identities [message_identity kid mid, nonce_identity kid nonce] (fst (dw_claim w)) (snd (dw_claim w)) (ds_stores S) =
         (Inr True, ds_stores S')))"
proof (cases "v = Continue \<or> (\<exists>t. v = Rewrite t)")
  case True
  show ?thesis
  proof (rule dispatch_cases [OF assms True])
    assume c: "v = Continue" "platform_name U ev \<notin> set MANDATORY_ENCRYPTION_PLATFORMS"
      "\<And>text. ev_text ev = Some text \<Longrightarrow> text \<noteq> [] \<Longrightarrow> \<exists>W. open_envelope C U gw ev text (S\<lparr>ds_wrapped := W\<rparr>) = Inr None"
    have "\<not> enc_claim msg" if m: "ev_text ev = Some msg" for msg
    proof (cases "msg = []")
      case False
      then have "open_envelope C U gw ev msg S = Inr None" using c(3) [OF m] by simp
      then show ?thesis using False
        by (auto simp: open_envelope_def Let_def decrypt_gateway_envelope_def r_bind_Inr_iff split: if_splits)
    qed (simp add: enc_claim_def)
    then show ?thesis using c(1,2) by simp
  next
    fix msg decrypted kid replay W
    assume o: "ev_text ev = Some msg" "open_envelope C U gw ev msg (S\<lparr>ds_wrapped := W\<rparr>) = Inr (Some (decrypted, kid, replay))"
      "rewrite_encrypted U w (thread_ctx U ev) gw decrypted kid replay (profile_name ev) (S\<lparr>ds_wrapped := W\<rparr>) = (v, S')" "v = Rewrite decrypted"
    obtain chan thread parent where ctx: "thread_ctx U ev = (platform_name U ev, chan, thread, parent)" by (simp add: thread_ctx_def)
    from rewrite_cases [OF o(3) [unfolded ctx o(4)]] obtain g where g: "gw = Some g" "live_adapter_is_wrapped U g (ds_wrapped S') (platform_name U ev) (profile_name ev)"
      "mark_encrypted_thread (ds_threads S) (dw_now w) (platform_name U ev) chan thread (Some kid) = (True, ds_threads S')"
      "claim_e2e_replay_identities [fst replay, snd replay] (fst (dw_claim w)) (snd (dw_claim w)) (ds_stores S) = (Inr True, ds_stores S')"
      by auto
    have m: "\<forall>now < dw_now w + ENC_TTL. marked (ds_threads S') now (platform_name U ev) chan thread"
      by (rule mark_marks [OF g(3)])
    obtain platform chat tr hosts where e: "command_aad_ctx ev (thread_ctx U ev) = Inr (platform, chat, tr)"
      "decrypt_gateway_envelope C U (load_channel_keys (ds_stores S)) msg platform chat tr (snd (snd (snd (thread_ctx U ev)))) (scope_id_of ev) hosts =
         Inr (Some (decrypted, kid, replay))"
      using open_envelope_Some [OF o(2) [simplified]] by metis
    from envelope_authentic [OF e(2)] obtain keys stored key mid nonce ct aad p where a: "enc_claim msg"
      "replay = (message_identity kid mid, nonce_identity kid nonce)" "load_channel_keys (ds_stores S) = Inr keys" "(stored, key) \<in> set keys" "key_id key = kid"
      "v3_aad U (str_lit ''command'') (uc_lower U platform) chat tr mid 0 1 = Inr aad" "gcm_open C key nonce ct aad = Inr p" "utf8_decode p = Inr decrypted"
      by blast
    have "claim_e2e_replay_identities [message_identity kid mid, nonce_identity kid nonce] (fst (dw_claim w)) (snd (dw_claim w)) (ds_stores S) =
        (Inr True, ds_stores S')"
      using g(4) a(2) by simp
    note c = this
    have "\<exists>text g stored keys key kid mid nonce ct aad p platform chat tr.
       ev_text ev = Some text \<and> enc_claim text \<and> command_aad_ctx ev (thread_ctx U ev) = Inr (platform, chat, tr) \<and>
       load_channel_keys (ds_stores S) = Inr keys \<and> (stored, key) \<in> set keys \<and> key_id key = kid \<and>
       v3_aad U (str_lit ''command'') (uc_lower U platform) chat tr mid 0 1 = Inr aad \<and> gcm_open C key nonce ct aad = Inr p \<and> utf8_decode p = Inr decrypted \<and>
       gw = Some g \<and> live_adapter_is_wrapped U g (ds_wrapped S') (platform_name U ev) (profile_name ev) \<and>
       (case thread_ctx U ev of (routed, chan, thread, parent) \<Rightarrow> \<forall>now < dw_now w + ENC_TTL. marked (ds_threads S') now routed chan thread) \<and>
       claim_e2e_replay_identities [message_identity kid mid, nonce_identity kid nonce] (fst (dw_claim w)) (snd (dw_claim w)) (ds_stores S) =
         (Inr True, ds_stores S')"
      unfolding ctx prod.case
      by (rule exI [of _ msg], rule exI [of _ g], rule exI [of _ stored], rule exI [of _ keys], rule exI [of _ key], rule exI [of _ kid], rule exI [of _ mid], rule exI [of _ nonce], rule exI [of _ ct], rule exI [of _ aad], rule exI [of _ p], rule exI [of _ platform], rule exI [of _ chat], rule exI [of _ tr],
          intro conjI) (rule o(1) a e(1) [unfolded ctx] g(1,2) m c)+
    then show ?thesis unfolding o(4) by simp
  qed
qed auto

lemma dispatched:
  assumes "pre_gateway_dispatch C U w gw ev S = (Rewrite t, S')" "ev_text ev = Some msg" "open_envelope C U gw ev msg S = Inr (Some (decrypted, kid, replay))"
  shows "claim_e2e_replay_identities [fst replay, snd replay] (fst (dw_claim w)) (snd (dw_claim w)) (ds_stores S) = (Inr True, ds_stores S')"
proof (rule dispatch_cases [OF assms(1)])
  show "Rewrite t = Continue \<or> (\<exists>t'. Rewrite t = Rewrite t')" by simp
next
  fix m d k r W
  assume o: "ev_text ev = Some m" "open_envelope C U gw ev m (S\<lparr>ds_wrapped := W\<rparr>) = Inr (Some (d, k, r))"
    "rewrite_encrypted U w (thread_ctx U ev) gw d k r (profile_name ev) (S\<lparr>ds_wrapped := W\<rparr>) = (Rewrite t, S')"
  obtain chan thread parent where ctx: "thread_ctx U ev = (platform_name U ev, chan, thread, parent)" by (simp add: thread_ctx_def)
  have "r = replay" using o(1,2) assms(2,3) by simp
  then show ?thesis using rewrite_cases [OF o(3) [unfolded ctx]] by simp
qed simp

definition released :: "verdict \<Rightarrow> bool" where
  "released v \<longleftrightarrow> (case v of Rewrite _ \<Rightarrow> True | _ \<Rightarrow> False)"


section \<open>A concrete run\<close>

definition demo_event :: "py_str \<Rightarrow> event" where
  "demo_event wire = \<lparr>ev_text = Some (str_lit ''<@U1> '' @ wire @ []), ev_src_platform = Some (str_lit ''Slack''), ev_platform = None, ev_profile = No_profile,
     ev_src_chat = Some (str_lit ''C1''), ev_chat = None, ev_src_thread = None, ev_thread = None, ev_src_parent = None, ev_parent = None,
     ev_scope = Some (str_lit ''T1''), ev_guild = None, ev_message_id = None, ev_reply_to = None, ev_auto = No_auto, ev_raw_channel = None, ev_raw_slack = None\<rparr>"

definition demo_gateway :: gateway where
  "demo_gateway = \<lparr>gw_adapters = Some [(str_lit ''slack'', 0)], gw_profiles = None, gw_wrappable = (\<lambda>_. True), gw_team_clients = (\<lambda>_. None)\<rparr>"

definition demo_dispatch_world :: "int \<Rightarrow> dispatch_world" where
  "demo_dispatch_world t = \<lparr>dw_now = 1, dw_notice = (1, 1), dw_claim = (t, Written), dw_outbound = True, dw_loop = True\<rparr>"

definition demo_keyring :: kvs where
  "demo_keyring = (str_lit ''channel_keys'', JObj [(str_lit ''slack:T1:C1'', JStr (b64u_encode demo_channel_key))]) # demo_data"

definition demo_dispatch :: dispatch_state where
  "demo_dispatch = \<lparr>ds_threads = Map.empty, ds_stores = demo_stores\<lparr>ps_state := Parsed demo_keyring\<rparr>, ds_wrapped = {}, ds_notices = Map.empty\<rparr>"

lemma demo_keyring_loads: "load_channel_keys (ds_stores demo_dispatch) = Inr demo_keys"
  by (simp add: load_channel_keys_def demo_dispatch_def read_json_def channel_keys_field_def demo_keyring_def obj_get_def decode_json_b64u_def demo_keys_def)

lemma demo_lower_slack: "uc_lower demo_case (str_lit ''slack'') = str_lit ''slack''"
  by (simp add: demo_case_def ucd.defs ascii_lower_def str_lit_def)

lemma demo_ctx: "thread_ctx demo_case (demo_event wire) = (str_lit ''slack'', str_lit ''C1'', None, None)" "scope_id_of (demo_event wire) = Some (str_lit ''T1'')"
  "profile_name (demo_event wire) = None" "platform_name demo_case (demo_event wire) = str_lit ''slack''"
proof -
  have p: "platform_name demo_case (demo_event wire) = str_lit ''slack''"
    by (simp add: platform_name_def demo_event_def or_str_def truthy_def demo_lower str_lit_def [of "''Slack''"])
       (simp add: demo_case_def ucd.defs ascii_lower_def str_lit_def)
  show "platform_name demo_case (demo_event wire) = str_lit ''slack''" by (rule p)
  show "thread_ctx demo_case (demo_event wire) = (str_lit ''slack'', str_lit ''C1'', None, None)"
    unfolding thread_ctx_def p by (simp add: demo_event_def or_str_def truthy_def no_empty_def or_else_none_def str_lit_def)
  show "scope_id_of (demo_event wire) = Some (str_lit ''T1'')"
    by (simp add: scope_id_of_def demo_event_def or_str_def truthy_def nonempty_def strip_def rstrip_def str_lit_def is_str_space_def)
  show "profile_name (demo_event wire) = None" by (simp add: profile_name_def demo_event_def)
qed

lemma demo_opens:
  "\<exists>wire. \<forall>S. ds_stores S = ds_stores demo_dispatch \<longrightarrow> open_envelope demo_e2e demo_case (Some demo_gateway) (demo_event wire) (str_lit ''<@U1> '' @ wire @ []) S =
     Inr (Some (str_lit ''hi'', key_id demo_channel_key, (message_identity (key_id demo_channel_key) (b64u_encode demo_rid), nonce_identity (key_id demo_channel_key) demo_nonce)))"
proof -
  obtain wire where w: "encrypt_message_v3 demo_e2e demo_case demo_channel_key (str_lit ''hi'') (key_id demo_channel_key) (str_lit ''command'') (str_lit ''slack'')
      (str_lit ''C1'') None (b64u_encode demo_rid) 0 1 demo_nonce = Inr wire" and r: "\<exists>r. wire = LOCK # r"
    by (rule v3_round_trip [OF demo_writable, of demo_channel_key]) (auto simp: ENC_PREFIX_V3_def)
  have a: "after_gateway_prefix demo_case (str_lit ''<@U1> '' @ wire @ []) (str_lit ''slack'') = wire @ []"
    using r demo_prefix by auto
  have m: "channel_key_matches demo_case (str_lit ''slack:T1:C1'') (str_lit ''slack'') (str_lit ''C1'') (Some (str_lit ''T1'')) (Some hosts)" for hosts
    by (simp add: channel_key_matches_def demo_case_def ucd.defs ascii_lower_def str_lit_def)
  have "decrypt_gateway_envelope demo_e2e demo_case (Inr demo_keys) (str_lit ''<@U1> '' @ wire @ []) (str_lit ''slack'') (str_lit ''C1'') None None
     (Some (str_lit ''T1'')) (Some hosts) =
     Inr (Some (str_lit ''hi'', key_id demo_channel_key, (message_identity (key_id demo_channel_key) (b64u_encode demo_rid), nonce_identity (key_id demo_channel_key) demo_nonce)))" for hosts
    by (rule gateway_reads_token [of demo_e2e demo_case demo_channel_key "str_lit ''slack''" "str_lit ''C1''" None demo_rid demo_nonce "str_lit ''hi''" wire wire "[]"
        "str_lit ''<@U1> ''" "str_lit ''slack:T1:C1''" demo_keys "Some (str_lit ''T1'')" "Some hosts" None, unfolded demo_lower_slack, OF demo_writable w])
      (use a m in \<open>simp_all add: demo_keys_def\<close>, simp_all add: str_lit_def)
  then show ?thesis
    using demo_keyring_loads by (intro exI [of _ wire]) (auto simp: open_envelope_def demo_ctx command_aad_ctx_def slack_command_thread_root_def)
qed

lemma claim_no_channel_keys: "load_channel_keys (snd (claim_e2e_replay_identities ids now w S)) = load_channel_keys S"
proof (cases "snd (claim_e2e_replay_identities ids now w S) = S")
  case False
  obtain r S' where c: "claim_e2e_replay_identities ids now w S = (r, S')" by fastforce
  with claim_shape [OF c] False obtain data kept where k: "ps_state S = Parsed data"
     "ps_state S' = after_write w (dict_update data [(E2E_REPLAY_FIELD,
       JList (map (\<lambda>(i, ts). replay_entry i ts) (kept @ map (\<lambda>i. (i, stamp now)) ids)))]) (Parsed data)"
    by auto
  then show ?thesis
    using c by (auto simp: load_channel_keys_def after_write_def read_json_def channel_keys_field_def dget_update1 E2E_REPLAY_FIELD_def)
qed simp

lemma dispatch_channel_keys: "load_channel_keys (ds_stores (snd (pre_gateway_dispatch C U w gw ev S))) = load_channel_keys (ds_stores S)"
proof -
  have r: "load_channel_keys (ds_stores (snd (rewrite_encrypted U w ctx gw d k r p T))) = load_channel_keys (ds_stores T)" for ctx gw d k r p T
  proof -
    have "load_channel_keys P = load_channel_keys (ds_stores T)"
      if "claim_e2e_replay_identities ids now wo (ds_stores T) = (x, P)" for ids now wo x P
      using claim_no_channel_keys [of ids now wo "ds_stores T"] that by simp
    then show ?thesis by (auto simp: rewrite_encrypted_def split: prod.split sum.split bool.split)
  qed
  show ?thesis
    by (auto simp: pre_gateway_dispatch_def Let_def r split: option.split sum.split prod.split)
qed

lemma open_envelope_keys: "load_channel_keys (ds_stores S) = load_channel_keys (ds_stores S') \<Longrightarrow> open_envelope C U gw ev msg S = open_envelope C U gw ev msg S'"
  by (simp add: open_envelope_def)


text \<open>A message in clear on a platform without mandatory encryption.\<close>

lemma gateway_gate_witness:
  "\<exists>ev. platform_name demo_case ev \<notin> set MANDATORY_ENCRYPTION_PLATFORMS \<and> (\<forall>msg. ev_text ev = Some msg \<longrightarrow> \<not> enc_claim msg)"
proof -
  let ?ev = "(demo_event [])\<lparr>ev_text := Some (str_lit ''hello''), ev_src_platform := Some (str_lit ''irc'')\<rparr>"
  have k: "\<not> is_key_exchange (str_lit ''hello'')"
    by (simp add: str_lit_def keyexch_here_def lit_def strip_prefix_def starts_with_list_def)
  have k2: "\<not> enc_claim (str_lit ''hello'')"
    by (simp add: str_lit_def enc_claim_def claim_here_def starts_with_list_def LOCK_def)
  have p1: "platform_name demo_case ?ev = str_lit ''irc''"
    by (simp add: platform_name_def or_str_def truthy_def demo_case_def ucd.defs ascii_lower_def str_lit_def)
  have p: "platform_name demo_case ?ev \<notin> set MANDATORY_ENCRYPTION_PLATFORMS"
    unfolding p1 by (simp add: MANDATORY_ENCRYPTION_PLATFORMS_def str_lit_def)
  have c: "\<exists>x. command_aad_ctx ?ev (thread_ctx demo_case ?ev) = Inr x"
    using p by (auto simp: command_aad_ctx_def thread_ctx_def MANDATORY_ENCRYPTION_PLATFORMS_def)
  have "\<exists>S'. pre_gateway_dispatch demo_e2e demo_case (demo_dispatch_world 0) None ?ev demo_dispatch = (Continue, S')"
    using k k2 p c by (auto simp: pre_gateway_dispatch_def Let_def open_envelope_def decrypt_gateway_envelope_def str_lit_def split: prod.split)
  then obtain S' where d: "pre_gateway_dispatch demo_e2e demo_case (demo_dispatch_world 0) None ?ev demo_dispatch = (Continue, S')" by blast
  show ?thesis using gateway_gate [OF d] by (intro exI [of _ ?ev]) simp
qed

end
