(* ===== verification/State_Cache.thy ===== *)
theory State_Cache
  imports Main
begin

text \<open>
  The parse cache of \<open>state.json\<close> in \<open>extension/pairing.py\<close>, with its readers and writers interleaved. The file is
  its history of versions, each with the key a \<open>stat\<close> of it gives; a parsed snapshot is the number of a version. A
  reader takes no state lock: it runs the four sections of \<open>_read_state_cached\<close> one at a time, and anything may
  happen between them. \<open>retired\<close>, which the code does not have, is the version that was current when
  \<open>_invalidate_state_cache\<close> last ran.
\<close>

datatype 'k reader =
    Idle
  | Keyed nat "'k option"
  | Looked nat "'k option" nat
  | Read nat "'k option" nat nat
  | Done nat nat

record ('k, 'd) cache_state =
  history :: "('k option \<times> 'd) list"
  state_cache :: "('k \<times> nat) option"
  generation :: nat
  retired :: nat
  readers :: "nat \<Rightarrow> 'k reader"

definition current :: "('k, 'd) cache_state \<Rightarrow> nat" where
  "current s = length (history s) - 1"

definition invalidate_state_cache :: "('k, 'd) cache_state \<Rightarrow> ('k, 'd) cache_state" where
  "invalidate_state_cache s = s\<lparr>state_cache := None, generation := generation s + 1, retired := current s\<rparr>"

text \<open>\<open>key = _state_stat_key()\<close>\<close>

definition take_key :: "nat \<Rightarrow> ('k, 'd) cache_state \<Rightarrow> ('k, 'd) cache_state" where
  "take_key p s = s\<lparr>readers := (readers s)(p := Keyed (retired s) (fst (history s ! current s)))\<rparr>"

text \<open>The first section under the cache lock, and the return of a hit.\<close>

definition look_up :: "nat \<Rightarrow> nat \<Rightarrow> 'k option \<Rightarrow> ('k, 'd) cache_state \<Rightarrow> ('k, 'd) cache_state" where
  "look_up p since key s =
     s\<lparr>readers := (readers s)(p :=
        (case state_cache s of
           Some (k, i) \<Rightarrow> if key = Some k then Done since i else Looked since key (generation s)
         | None \<Rightarrow> Looked since key (generation s)))\<rparr>"

text \<open>\<open>data = _read_json(_state_path())\<close>\<close>

definition parse_file :: "nat \<Rightarrow> nat \<Rightarrow> 'k option \<Rightarrow> nat \<Rightarrow> ('k, 'd) cache_state \<Rightarrow> ('k, 'd) cache_state" where
  "parse_file p since key gen s = s\<lparr>readers := (readers s)(p := Read since key gen (current s))\<rparr>"

text \<open>The second section under the cache lock, and the return.\<close>

definition publish :: "nat \<Rightarrow> nat \<Rightarrow> 'k option \<Rightarrow> nat \<Rightarrow> nat \<Rightarrow> ('k, 'd) cache_state \<Rightarrow> ('k, 'd) cache_state" where
  "publish p since key gen i s =
     s\<lparr>state_cache := (if generation s \<noteq> gen then None else case key of Some k \<Rightarrow> Some (k, i) | None \<Rightarrow> None),
       readers := (readers s)(p := Done since i)\<rparr>"

inductive cache_step :: "('k, 'd) cache_state \<Rightarrow> ('k, 'd) cache_state \<Rightarrow> bool" where
  new_version: "cache_step s (s\<lparr>history := history s @ [v]\<rparr>)"
| invalidate: "cache_step s (invalidate_state_cache s)"
| begin_read: "readers s p = Idle \<or> readers s p = Done r i \<Longrightarrow> cache_step s (take_key p s)"
| look: "readers s p = Keyed since key \<Longrightarrow> cache_step s (look_up p since key s)"
| parse: "readers s p = Looked since key gen \<Longrightarrow> cache_step s (parse_file p since key gen s)"
| store_back: "readers s p = Read since key gen i \<Longrightarrow> cache_step s (publish p since key gen i s)"

inductive reachable :: "('k, 'd) cache_state \<Rightarrow> bool" where
  start: "history s = [v] \<Longrightarrow> state_cache s = None \<Longrightarrow> generation s = 0 \<Longrightarrow> retired s = 0 \<Longrightarrow> (\<forall>p. readers s p = Idle) \<Longrightarrow> reachable s"
| step: "reachable s \<Longrightarrow> cache_step s s' \<Longrightarrow> reachable s'"

text \<open>What one reader knows.\<close>

definition reader_ok :: "nat \<Rightarrow> nat \<Rightarrow> nat \<Rightarrow> 'k reader \<Rightarrow> bool" where
  "reader_ok cur ret gen rd \<longleftrightarrow> (case rd of
     Idle \<Rightarrow> True
   | Keyed since key \<Rightarrow> since \<le> ret
   | Looked since key g \<Rightarrow> since \<le> ret \<and> g \<le> gen
   | Read since key g i \<Rightarrow> since \<le> i \<and> i \<le> cur \<and> g \<le> gen \<and> (g = gen \<longrightarrow> ret \<le> i)
   | Done since i \<Rightarrow> since \<le> i \<and> i \<le> cur)"

definition cache_ok :: "('k, 'd) cache_state \<Rightarrow> bool" where
  "cache_ok s \<longleftrightarrow> history s \<noteq> [] \<and> retired s \<le> current s \<and>
     (\<forall>k i. state_cache s = Some (k, i) \<longrightarrow> retired s \<le> i \<and> i \<le> current s) \<and>
     (\<forall>p. reader_ok (current s) (retired s) (generation s) (readers s p))"

lemma reader_ok_simps [simp]:
  "reader_ok cur ret gen Idle"
  "reader_ok cur ret gen (Keyed since key) \<longleftrightarrow> since \<le> ret"
  "reader_ok cur ret gen (Looked since key g) \<longleftrightarrow> since \<le> ret \<and> g \<le> gen"
  "reader_ok cur ret gen (Read since key g i) \<longleftrightarrow> since \<le> i \<and> i \<le> cur \<and> g \<le> gen \<and> (g = gen \<longrightarrow> ret \<le> i)"
  "reader_ok cur ret gen (Done since i) \<longleftrightarrow> since \<le> i \<and> i \<le> cur"
  by (simp_all add: reader_ok_def)

lemma reader_ok_write: "reader_ok cur ret gen rd \<Longrightarrow> cur \<le> cur' \<Longrightarrow> reader_ok cur' ret gen rd"
  by (cases rd) auto

lemma reader_ok_invalidate: "reader_ok cur ret gen rd \<Longrightarrow> ret \<le> cur \<Longrightarrow> reader_ok cur cur (Suc gen) rd"
  by (cases rd) auto

lemma cache_ok_step: "cache_step s s' \<Longrightarrow> cache_ok s \<Longrightarrow> cache_ok s'"
proof (induction rule: cache_step.induct)
  case (new_version s v)
  have "current s \<le> current (s\<lparr>history := history s @ [v]\<rparr>)" by (simp add: current_def)
  then show ?case using new_version reader_ok_write by (fastforce simp: cache_ok_def)
next
  case (invalidate s)
  have c: "current (invalidate_state_cache s) = current s" by (simp add: invalidate_state_cache_def current_def)
  have "reader_ok (current s) (current s) (Suc (generation s)) (readers s p)" for p
    by (rule reader_ok_invalidate) (use invalidate in \<open>auto simp: cache_ok_def\<close>)
  then show ?case using invalidate c by (simp add: cache_ok_def) (simp add: invalidate_state_cache_def)
next
  case (begin_read s p r i)
  then show ?case by (auto simp: cache_ok_def take_key_def current_def)
next
  case (look s p since key)
  then have "reader_ok (current s) (retired s) (generation s) (Keyed since key)" by (metis cache_ok_def)
  then show ?case using look(2) by (fastforce simp: cache_ok_def look_up_def current_def split: option.split prod.split)
next
  case (parse s p since key gen)
  then have "reader_ok (current s) (retired s) (generation s) (Looked since key gen)" by (metis cache_ok_def)
  then show ?case using parse(2) by (fastforce simp: cache_ok_def parse_file_def current_def)
next
  case (store_back s p since key gen i)
  then have "reader_ok (current s) (retired s) (generation s) (Read since key gen i)" by (metis cache_ok_def)
  then show ?case using store_back(2) by (auto simp: cache_ok_def publish_def current_def split: option.splits if_splits)
qed

lemma cache_ok_reachable: "reachable s \<Longrightarrow> cache_ok s"
proof (induction rule: reachable.induct)
  case (start s v)
  then show ?case by (simp add: cache_ok_def current_def)
next
  case (step s s')
  then show ?case using cache_ok_step by blast
qed

text \<open>C26: The lock-free cache of state.json never serves a retired snapshot. In every interleaving of readers, writers (of this or another
  process) and invalidations, a read that has returned gives a version no older than the one current at the last invalidation
  before the read began, and what the cache holds is never older than the last invalidation: a reader that was overtaken between
  its parse and its store does not bring an old snapshot back.\<close>

theorem state_cache_fresh:
  assumes "reachable s"
  shows "(readers s p = Done since i \<longrightarrow> since \<le> i \<and> i < length (history s)) \<and>
    (state_cache s = Some (k, j) \<longrightarrow> retired s \<le> j \<and> j < length (history s))"
proof -
  have ok: "cache_ok s" using cache_ok_reachable [OF assms] .
  then have "current s < length (history s)" "reader_ok (current s) (retired s) (generation s) (readers s p)"
    by (auto simp: cache_ok_def current_def)
  then show ?thesis using ok by (cases "readers s p") (auto simp: cache_ok_def)
qed

definition demo_cache :: "(nat, nat) cache_state" where
  "demo_cache = \<lparr>history = [(Some 3, 7)], state_cache = None, generation = 0, retired = 0, readers = (\<lambda>_. Idle)\<rparr>"

text \<open>One reader, undisturbed.\<close>

lemma state_cache_fresh_witness:
  "\<exists>s :: (nat, nat) cache_state. reachable s \<and> readers s 0 = Done 0 0 \<and> state_cache s = Some (3, 0) \<and> retired s \<le> 0"
proof -
  define s1 where "s1 = take_key 0 demo_cache"
  define s2 where "s2 = look_up 0 0 (Some 3) s1"
  define s3 where "s3 = parse_file 0 0 (Some 3) 0 s2"
  define s4 where "s4 = publish 0 0 (Some 3) 0 0 s3"
  note defs = s1_def s2_def s3_def s4_def take_key_def look_up_def parse_file_def publish_def current_def demo_cache_def
  have "reachable demo_cache" by (rule reachable.start) (simp_all add: demo_cache_def)
  moreover have "cache_step demo_cache s1" unfolding s1_def by (rule cache_step.begin_read) (simp add: demo_cache_def)
  moreover have "cache_step s1 s2" unfolding s2_def by (rule cache_step.look) (simp add: defs)
  moreover have "cache_step s2 s3" unfolding s3_def by (rule cache_step.parse) (simp add: defs)
  moreover have "cache_step s3 s4" unfolding s4_def by (rule cache_step.store_back) (simp add: defs)
  ultimately have r: "reachable s4" by (blast intro: reachable.step)
  have f: "readers s4 0 = Done 0 0" "state_cache s4 = Some (3, 0)" by (simp_all add: defs)
  show ?thesis using state_cache_fresh [OF r, of 0 0 0 3 0] r f by (intro exI [of _ s4]) simp
qed

end
