(* ===== verification/Native_Key_Id.thy ===== *)
theory Native_Key_Id
  imports Wrap Py_Dict
begin

text \<open>
  The ownership records of \<open>keyvault/_native_key_id.py\<close>: which physical key of a machine-wide native store belongs to which
  logical key of which profile. A profile is its directory in two spellings, both as \<open>os.fsencode\<close> gives them: the canonical one,
  and the absolute one that older versions used. \<open>meta\<close> is the parsed metadata. \<open>NATIVE_KEY_ID_FIELD\<close> is
  \<open>native_key_id\<close>.
\<close>

record profile_root =
  pr_canonical :: bytes
  pr_absolute :: bytes

definition NATIVE_KEY_ID_FIELD :: string where "NATIVE_KEY_ID_FIELD = ''native_key_id''"
definition PENDING_NATIVE_KEY_FIELD :: string where "PENDING_NATIVE_KEY_FIELD = ''pending_native_key''"
definition AUDIT_KEY_FIELD :: string where "AUDIT_KEY_FIELD = ''audit_key''"
definition PENDING_AUDIT_KEY_FIELD :: string where "PENDING_AUDIT_KEY_FIELD = ''pending_audit_key''"
definition NATIVE_KEY_ID_PREFIX :: py_str where "NATIVE_KEY_ID_PREFIX = str_lit ''mordred-hermes.native.v1.''"

definition RESERVED_MAIN_KEY_IDS :: "py_str list" where
  "RESERVED_MAIN_KEY_IDS = [str_lit ''mordred.audit-log'', str_lit ''mordred-hermes.mail.credentials.v1'']"

definition has_field :: "kvs \<Rightarrow> string \<Rightarrow> bool" where
  "has_field meta f \<longleftrightarrow> map_of meta (str_lit f) \<noteq> None"

definition validate_main_key_id :: "json \<Rightarrow> py_str result" where
  "validate_main_key_id logical_key_id =
     (case logical_key_id of
        JStr k \<Rightarrow>
          if k = [] then Inl InvalidMainKeyId
          else (case utf8_encode k of
             Inl e \<Rightarrow> Inl (if e = UnicodeEncodeError then InvalidMainKeyId else e)
           | Inr _ \<Rightarrow> if k \<in> set RESERVED_MAIN_KEY_IDS then Inl InvalidMainKeyId else Inr k)
      | _ \<Rightarrow> Inl InvalidMainKeyId)"

definition has_native_key_ownership_state :: "kvs \<Rightarrow> bool" where
  "has_native_key_ownership_state meta \<longleftrightarrow>
     json_truthy (obj_get meta ''keys'') \<or> list_ex (has_field meta) [PENDING_NATIVE_KEY_FIELD, AUDIT_KEY_FIELD, PENDING_AUDIT_KEY_FIELD]"

section \<open>Physical ids\<close>

definition short_digest :: "string \<Rightarrow> bytes \<Rightarrow> py_str" where
  "short_digest domain b = take 32 (sha256_hex (bytes_lit domain @ [0] @ b))"

definition native_key_id_for_root_name :: "bytes \<Rightarrow> py_str \<Rightarrow> py_str result" where
  "native_key_id_for_root_name root_bytes logical_key_id =
     (if logical_key_id = [] then Inl NativeKeyIdMismatch
      else case utf8_encode logical_key_id of
        Inl e \<Rightarrow> Inl (if e = UnicodeEncodeError then NativeKeyIdMismatch else e)
      | Inr logical_bytes \<Rightarrow>
          Inr (NATIVE_KEY_ID_PREFIX @ short_digest ''mordred-hermes.native-profile.v1'' root_bytes @ [46] @
               short_digest ''mordred-hermes.native-logical.v1'' logical_bytes))"

definition scoped_native_key_id :: "profile_root \<Rightarrow> py_str \<Rightarrow> py_str result" where
  "scoped_native_key_id root logical_key_id = native_key_id_for_root_name (pr_canonical root) logical_key_id"

definition persisted_native_key_id :: "profile_root \<Rightarrow> py_str \<Rightarrow> json \<Rightarrow> py_str result" where
  "persisted_native_key_id root logical_key_id persisted =
     r_bind (scoped_native_key_id root logical_key_id) (\<lambda>expected.
       if persisted = JStr expected then Inr expected
       else r_bind (native_key_id_for_root_name (pr_absolute root) logical_key_id) (\<lambda>legacy_expected.
         if persisted \<noteq> JStr legacy_expected then Inl NativeKeyIdMismatch else Inr legacy_expected))"

definition native_key_id_from_row :: "profile_root \<Rightarrow> py_str \<Rightarrow> kvs \<Rightarrow> py_str result" where
  "native_key_id_from_row root logical_key_id row =
     (if \<not> has_field row NATIVE_KEY_ID_FIELD then Inr logical_key_id
      else persisted_native_key_id root logical_key_id (obj_get row NATIVE_KEY_ID_FIELD))"

section \<open>Ownership records\<close>

text \<open>A mapping with exactly the two fields of a record.\<close>

definition ownership_record :: "json \<Rightarrow> kvs option" where
  "ownership_record v =
     (case v of JObj d \<Rightarrow> if fst ` set d = {str_lit ''key_id'', str_lit NATIVE_KEY_ID_FIELD} then Some d else None | _ \<Rightarrow> None)"

definition new_record :: "py_str \<Rightarrow> py_str \<Rightarrow> json" where
  "new_record logical physical = JObj [(str_lit ''key_id'', JStr logical), (str_lit NATIVE_KEY_ID_FIELD, JStr physical)]"

definition pending_native_key_from_meta :: "profile_root \<Rightarrow> kvs \<Rightarrow> (py_str \<times> py_str) option result" where
  "pending_native_key_from_meta root meta =
     (if \<not> has_field meta PENDING_NATIVE_KEY_FIELD then Inr None
      else case ownership_record (obj_get meta PENDING_NATIVE_KEY_FIELD) of
        None \<Rightarrow> Inl NativeKeyIdMismatch
      | Some pending \<Rightarrow>
          (case obj_get pending ''key_id'' of
             JStr logical \<Rightarrow>
               if logical = [] then Inl NativeKeyIdMismatch
               else r_bind (persisted_native_key_id root logical (obj_get pending NATIVE_KEY_ID_FIELD)) (\<lambda>physical. Inr (Some (logical, physical)))
           | _ \<Rightarrow> Inl NativeKeyIdMismatch))"

text \<open>\<open>add_*\<close> change \<open>meta\<close> in place: the result and the new metadata.\<close>

definition add_pending_native_key :: "profile_root \<Rightarrow> kvs \<Rightarrow> json \<Rightarrow> py_str result \<times> kvs" where
  "add_pending_native_key root meta logical_key_id =
     (case r_bind (validate_main_key_id logical_key_id) (\<lambda>logical.
             if has_field meta PENDING_NATIVE_KEY_FIELD then Inl NativeKeyIdMismatch
             else r_bind (scoped_native_key_id root logical) (\<lambda>physical. Inr (logical, physical))) of
        Inl e \<Rightarrow> (Inl e, meta)
      | Inr (logical, physical) \<Rightarrow> (Inr physical, dict_update meta [(PENDING_NATIVE_KEY_FIELD, new_record logical physical)]))"

definition audit_key_record_from_meta :: "profile_root \<Rightarrow> kvs \<Rightarrow> string \<Rightarrow> py_str \<Rightarrow> py_str option result" where
  "audit_key_record_from_meta root meta field logical_key_id =
     (if \<not> has_field meta field then Inr None
      else case ownership_record (obj_get meta field) of
        None \<Rightarrow> Inl NativeKeyIdMismatch
      | Some rec \<Rightarrow>
          if obj_get rec ''key_id'' \<noteq> JStr logical_key_id then Inl NativeKeyIdMismatch
          else r_bind (persisted_native_key_id root logical_key_id (obj_get rec NATIVE_KEY_ID_FIELD)) (\<lambda>p. Inr (Some p)))"

definition pending_audit_key_from_meta :: "profile_root \<Rightarrow> kvs \<Rightarrow> py_str \<Rightarrow> py_str option result" where
  "pending_audit_key_from_meta root meta logical_key_id = audit_key_record_from_meta root meta PENDING_AUDIT_KEY_FIELD logical_key_id"

definition committed_audit_key_from_meta :: "profile_root \<Rightarrow> kvs \<Rightarrow> py_str \<Rightarrow> py_str option result" where
  "committed_audit_key_from_meta root meta logical_key_id = audit_key_record_from_meta root meta AUDIT_KEY_FIELD logical_key_id"

definition add_pending_audit_key :: "profile_root \<Rightarrow> kvs \<Rightarrow> py_str \<Rightarrow> py_str result \<times> kvs" where
  "add_pending_audit_key root meta logical_key_id =
     (if has_field meta PENDING_AUDIT_KEY_FIELD then (Inl NativeKeyIdMismatch, meta)
      else case scoped_native_key_id root logical_key_id of
        Inl e \<Rightarrow> (Inl e, meta)
      | Inr physical \<Rightarrow> (Inr physical, dict_update meta [(PENDING_AUDIT_KEY_FIELD, new_record logical_key_id physical)]))"

definition add_committed_audit_key :: "profile_root \<Rightarrow> kvs \<Rightarrow> py_str \<Rightarrow> py_str \<Rightarrow> unit result \<times> kvs" where
  "add_committed_audit_key root meta logical_key_id native_key_id =
     (case r_bind (pending_audit_key_from_meta root meta logical_key_id) (\<lambda>expected_pending.
             if expected_pending \<noteq> Some native_key_id then Inl NativeKeyIdMismatch
             else persisted_native_key_id root logical_key_id (JStr native_key_id)) of
        Inl e \<Rightarrow> (Inl e, meta)
      | Inr _ \<Rightarrow> (Inr (), dict_update meta [(AUDIT_KEY_FIELD, new_record logical_key_id native_key_id)]))"

text \<open>\<open>_LegacyReadFallbackBackend\<close>: reads fall back when the bound store has no such key; a refused prompt does not.\<close>

definition missing_key :: "exn \<Rightarrow> bool" where
  "missing_key e \<longleftrightarrow> e \<in> {WrapKeyNotFound, WrapKeyAlreadyExists}"

definition legacy_read_fallback :: "'d native \<Rightarrow> 'd native \<Rightarrow> 'd native" where
  "legacy_read_fallback primary fallback = \<lparr>
     nb_public = (\<lambda>d k. case nb_public primary d k of
        Inl e \<Rightarrow> if missing_key e then nb_public fallback d k else Inl e
      | Inr p \<Rightarrow> Inr p),
     nb_ecdh = (\<lambda>d k peer. case nb_ecdh primary d k peer of
        (Raised e, d') \<Rightarrow> if missing_key e then nb_ecdh fallback d' k peer else (Raised e, d')
      | r \<Rightarrow> r),
     nb_generate = nb_generate primary \<rparr>"

text \<open>\<open>bound\<close> is \<open>bind_backend_to_root(backend, root)\<close>; \<open>None\<close> when it is the backend itself.\<close>

definition backend_for_persisted_key :: "'d native \<Rightarrow> 'd native option \<Rightarrow> py_str \<Rightarrow> py_str \<Rightarrow> 'd native" where
  "backend_for_persisted_key backend bound logical_key_id native_key_id =
     (case bound of None \<Rightarrow> backend
      | Some b \<Rightarrow> if native_key_id \<noteq> logical_key_id then b else legacy_read_fallback b backend)"

section \<open>Who owns a key\<close>

declare str_lit_simps [simp del]

lemma length_short_digest: "length (short_digest d b) = 32"
  by (simp add: short_digest_def length_sha256_hex)

lemma root_name_id:
  "native_key_id_for_root_name r l = Inr p \<longleftrightarrow> l \<noteq> [] \<and> (\<exists>b. utf8_encode l = Inr b \<and>
     p = NATIVE_KEY_ID_PREFIX @ short_digest ''mordred-hermes.native-profile.v1'' r @ [46] @ short_digest ''mordred-hermes.native-logical.v1'' b)"
  by (auto simp: native_key_id_for_root_name_def split: sum.splits)

lemma persisted_Inr:
  "persisted_native_key_id root l v = Inr p \<longleftrightarrow>
     v = JStr p \<and> (\<exists>q. scoped_native_key_id root l = Inr q \<and> (p = q \<or> native_key_id_for_root_name (pr_absolute root) l = Inr p))"
  by (auto simp: persisted_native_key_id_def r_bind_Inr_iff split: if_splits)

lemma has_field_update: "has_field (dict_update meta [(f, v)]) g \<longleftrightarrow> g = f \<or> has_field meta g"
  by (auto simp: has_field_def map_of_update str_lit_inject)

lemma ownership_new: "ownership_record (new_record l p) = Some [(str_lit ''key_id'', JStr l), (str_lit NATIVE_KEY_ID_FIELD, JStr p)]"
  by (simp add: ownership_record_def new_record_def)

lemma dget_new: "obj_get [(str_lit ''key_id'', v), (str_lit NATIVE_KEY_ID_FIELD, w)] ''key_id'' = v"
  "obj_get [(str_lit ''key_id'', v), (str_lit NATIVE_KEY_ID_FIELD, w)] NATIVE_KEY_ID_FIELD = w"
  by (simp_all add: obj_get_def str_lit_inject NATIVE_KEY_ID_FIELD_def)

lemma record_written:
  "persisted_native_key_id root l (JStr p) = Inr p \<Longrightarrow>
     audit_key_record_from_meta root (dict_update meta [(f, new_record l p)]) f l = Inr (Some p)"
  by (simp add: audit_key_record_from_meta_def has_field_update dget_update1 ownership_new dget_new)

lemma record_kept: "f \<noteq> g \<Longrightarrow> audit_key_record_from_meta root (dict_update meta [(f, v)]) g l = audit_key_record_from_meta root meta g l"
  by (simp add: audit_key_record_from_meta_def has_field_update dget_update1)

text \<open>A physical key has one owner. An id found in metadata is accepted only if it is, letter for letter, the id that this profile
  derives for this logical key; two profiles or two logical keys with the same id have the same truncated digest. The audit key's
  journal and its commit agree: a commit with any other id than the journalled one is refused and changes nothing, and after the
  journalled one both records name it.\<close>

lemma native_key_ownership:
  "(persisted_native_key_id root l v = Inr p \<longrightarrow>
      v = JStr p \<and> (scoped_native_key_id root l = Inr p \<or> native_key_id_for_root_name (pr_absolute root) l = Inr p)) \<and>
   (native_key_id_for_root_name r l = Inr p \<and> native_key_id_for_root_name r' l' = Inr p \<longrightarrow>
      short_digest ''mordred-hermes.native-profile.v1'' r = short_digest ''mordred-hermes.native-profile.v1'' r' \<and>
      (\<exists>b b'. utf8_encode l = Inr b \<and> utf8_encode l' = Inr b' \<and>
         short_digest ''mordred-hermes.native-logical.v1'' b = short_digest ''mordred-hermes.native-logical.v1'' b')) \<and>
   (add_pending_audit_key root meta l = (Inr p, meta') \<longrightarrow>
      pending_audit_key_from_meta root meta' l = Inr (Some p) \<and>
      (\<forall>q \<noteq> p. \<exists>e. add_committed_audit_key root meta' l q = (Inl e, meta')) \<and>
      (\<exists>meta''. add_committed_audit_key root meta' l p = (Inr (), meta'') \<and>
         committed_audit_key_from_meta root meta'' l = Inr (Some p) \<and> pending_audit_key_from_meta root meta'' l = Inr (Some p)))"
proof (intro conjI impI)
  assume "persisted_native_key_id root l v = Inr p"
  then show "v = JStr p" "scoped_native_key_id root l = Inr p \<or> native_key_id_for_root_name (pr_absolute root) l = Inr p"
    by (auto simp: persisted_Inr)
next
  assume "native_key_id_for_root_name r l = Inr p \<and> native_key_id_for_root_name r' l' = Inr p"
  then show "short_digest ''mordred-hermes.native-profile.v1'' r = short_digest ''mordred-hermes.native-profile.v1'' r'"
    "\<exists>b b'. utf8_encode l = Inr b \<and> utf8_encode l' = Inr b' \<and>
       short_digest ''mordred-hermes.native-logical.v1'' b = short_digest ''mordred-hermes.native-logical.v1'' b'"
    by (auto simp: root_name_id length_short_digest)
next
  assume "add_pending_audit_key root meta l = (Inr p, meta')"
  then have p: "scoped_native_key_id root l = Inr p" and m: "meta' = dict_update meta [(PENDING_AUDIT_KEY_FIELD, new_record l p)]"
    by (auto simp: add_pending_audit_key_def split: if_splits sum.splits)
  have k: "persisted_native_key_id root l (JStr p) = Inr p" using p by (simp add: persisted_Inr)
  show pend: "pending_audit_key_from_meta root meta' l = Inr (Some p)"
    unfolding pending_audit_key_from_meta_def m by (rule record_written [OF k])
  show "\<forall>q \<noteq> p. \<exists>e. add_committed_audit_key root meta' l q = (Inl e, meta')"
    using pend by (simp add: add_committed_audit_key_def)
  let ?m = "dict_update meta' [(AUDIT_KEY_FIELD, new_record l p)]"
  have "PENDING_AUDIT_KEY_FIELD \<noteq> AUDIT_KEY_FIELD" by (simp add: PENDING_AUDIT_KEY_FIELD_def AUDIT_KEY_FIELD_def)
  then have "pending_audit_key_from_meta root ?m l = Inr (Some p)"
    using pend record_kept [of AUDIT_KEY_FIELD PENDING_AUDIT_KEY_FIELD] by (simp add: pending_audit_key_from_meta_def)
  then show "\<exists>meta''. add_committed_audit_key root meta' l p = (Inr (), meta'') \<and>
         committed_audit_key_from_meta root meta'' l = Inr (Some p) \<and> pending_audit_key_from_meta root meta'' l = Inr (Some p)"
    using pend k record_written [OF k] by (simp add: add_committed_audit_key_def committed_audit_key_from_meta_def)
qed

text \<open>A fresh profile journals its audit key.\<close>

lemma native_key_ownership_witness:
  "\<exists>p meta'. add_pending_audit_key \<lparr>pr_canonical = [47], pr_absolute = [47]\<rparr> [] (str_lit ''mordred.audit-log'') = (Inr p, meta') \<and>
     pending_audit_key_from_meta \<lparr>pr_canonical = [47], pr_absolute = [47]\<rparr> meta' (str_lit ''mordred.audit-log'') = Inr (Some p)"
proof -
  let ?r = "\<lparr>pr_canonical = [47], pr_absolute = [47]\<rparr>" and ?l = "str_lit ''mordred.audit-log''"
  have "\<exists>b. utf8_encode ?l = Inr b" by (simp add: utf8_encode_def is_scalar_def is_surrogate_def str_lit_def)
  then obtain p where "scoped_native_key_id ?r ?l = Inr p"
    by (force simp: scoped_native_key_id_def root_name_id str_lit_def)
  then have a: "add_pending_audit_key ?r [] ?l = (Inr p, dict_update [] [(PENDING_AUDIT_KEY_FIELD, new_record ?l p)])"
    by (simp add: add_pending_audit_key_def has_field_def)
  then show ?thesis using native_key_ownership [of ?r ?l _ p _ _ _ "[]" "dict_update [] [(PENDING_AUDIT_KEY_FIELD, new_record ?l p)]"] by blast
qed

end
