(* ===== verification/Audit_Format.thy ===== *)
theory Audit_Format
  imports Native_Key_Id Kek Py_Base64
begin

text \<open>
  The encrypted audit log of \<open>keyvault/log_encryption.py\<close>: the \<open>MRAL\<close> header, the entry lines bound to it, and
  \<open>decrypt_log_file\<close>. \<open>gunzip\<close> is \<open>gzip.decompress\<close>; \<open>gate\<close> is what the lifecycle checks give and \<open>snapshot\<close> the bytes
  passed in or read from the path. \<open>bound\<close> and the backend are the key store as in \<open>Native_Key_Id\<close>. An entry is a dict.
\<close>

definition MRAL_MAGIC :: bytes where "MRAL_MAGIC = [0x4d, 0x52, 0x41, 0x4c]"
definition MRAL_FMT :: string where "MRAL_FMT = ''MRAL''"
definition FORMAT_VERSION :: nat where "FORMAT_VERSION = 1"
definition AUDIT_LOG_KEY_ID :: py_str where "AUDIT_LOG_KEY_ID = str_lit ''mordred.audit-log''"
definition LEGACY_HEADER_FIELDS :: "string list" where "LEGACY_HEADER_FIELDS = [''fmt'', ''ver'', ''key_id'', ''wdek'']"
definition MAX_ENTRY_BYTES :: nat where "MAX_ENTRY_BYTES = 4000"
definition GZIP_MAGIC :: bytes where "GZIP_MAGIC = [0x1f, 0x8b]"

section \<open>Writing\<close>

text \<open>\<open>{"ts": _utcnow_iso(), **entry}\<close>\<close>

definition with_ts :: "py_str \<Rightarrow> kvs \<Rightarrow> kvs" where
  "with_ts now entry = foldl (\<lambda>d (k, v). dict_put k v d) [(str_lit ''ts'', JStr now)] entry"

definition serialize_entry :: "kvs \<Rightarrow> bytes result" where
  "serialize_entry entry =
     r_bind (dumps_utf8 (JObj entry)) (\<lambda>data. if MAX_ENTRY_BYTES < length data then Inl ValueError else Inr data)"

definition log_header :: "bytes \<Rightarrow> py_str \<Rightarrow> py_str option \<Rightarrow> kvs" where
  "log_header wrapped key_id nkid =
     [(str_lit ''fmt'', jstr MRAL_FMT), (str_lit ''ver'', JInt (int FORMAT_VERSION)), (str_lit ''key_id'', JStr key_id),
      (str_lit ''wdek'', JStr (b64encode wrapped))] @
     (case nkid of None \<Rightarrow> [] | Some n \<Rightarrow> [(str_lit NATIVE_KEY_ID_FIELD, JStr n)])"

definition make_log_header :: "bytes \<Rightarrow> py_str \<Rightarrow> py_str option \<Rightarrow> bytes result" where
  "make_log_header wrapped key_id nkid = dumps (JObj (log_header wrapped key_id nkid))"

definition entry_aad :: "bytes \<Rightarrow> bytes" where
  "entry_aad header_bytes = MRAL_MAGIC @ [of_nat FORMAT_VERSION] @ sha256 header_bytes"

definition encrypted_line_len :: "nat \<Rightarrow> nat" where
  "encrypted_line_len n = (12 + n + 16 + 2) div 3 * 4 + 1"

text \<open>The line \<open>append\<close> writes: \<open>token + b"\\n"\<close>.\<close>

definition entry_line :: "('x) crypto_scheme \<Rightarrow> bytes \<Rightarrow> bytes \<Rightarrow> bytes \<Rightarrow> bytes \<Rightarrow> bytes result" where
  "entry_line C nonce dek aad plaintext =
     r_bind (aead_encrypt C nonce dek plaintext aad) (\<lambda>blob. Inr (ascii_bytes (b64encode blob) @ [10]))"

section \<open>Reading\<close>

text \<open>\<open>bytes.splitlines()\<close>, with the line being collected.\<close>

function split_lines :: "bytes \<Rightarrow> bytes \<Rightarrow> bytes list" where
  "split_lines line [] = (if line = [] then [] else [line])"
| "split_lines line (c # s) =
     (if c = 10 then line # split_lines [] s
      else if c = 13 then line # split_lines [] (if take 1 s = [10] then drop 1 s else s)
      else split_lines (line @ [c]) s)"
  by pat_completeness auto
termination by (relation "measure (\<lambda>(l, s). length s)") auto

definition splitlines :: "bytes \<Rightarrow> bytes list" where
  "splitlines s = split_lines [] s"

fun reject_duplicates :: "kvs \<Rightarrow> kvs \<Rightarrow> json result" where
  "reject_duplicates parsed [] = Inr (JObj parsed)"
| "reject_duplicates parsed ((field, v) # pairs) =
     (if field \<in> fst ` set parsed then Inl AuditLogDecryptError else reject_duplicates (parsed @ [(field, v)]) pairs)"

definition reject_duplicate_header_fields :: "kvs \<Rightarrow> json result" where
  "reject_duplicate_header_fields pairs = reject_duplicates [] pairs"

definition not_json :: "exn \<Rightarrow> bool" where
  "not_json e \<longleftrightarrow> e \<in> {JSONDecodeError, UnicodeDecodeError}"

definition mral_fields :: "string list \<Rightarrow> kvs \<Rightarrow> bool" where
  "mral_fields fs d \<longleftrightarrow> fst ` set d = str_lit ` set fs"

definition check_log_header :: "json \<Rightarrow> (kvs \<times> bytes) result" where
  "check_log_header j =
     (case j of
        JObj d \<Rightarrow>
          if obj_get d ''fmt'' \<noteq> jstr MRAL_FMT \<or> obj_get d ''ver'' \<noteq> JInt (int FORMAT_VERSION) then Inl AuditLogDecryptError
          else if \<not> (mral_fields LEGACY_HEADER_FIELDS d \<or> mral_fields (NATIVE_KEY_ID_FIELD # LEGACY_HEADER_FIELDS) d) then Inl AuditLogDecryptError
          else if obj_get d ''key_id'' \<noteq> JStr AUDIT_LOG_KEY_ID then Inl AuditLogDecryptError
          else (case obj_get d ''wdek'' of
             JStr w \<Rightarrow>
               r_bind (r_catch is_value_error AuditLogDecryptError (b64decode_str True w)) (\<lambda>wrapped.
                 if b64encode wrapped \<noteq> w then Inl AuditLogDecryptError else Inr (d, wrapped))
           | _ \<Rightarrow> Inl AuditLogDecryptError)
      | _ \<Rightarrow> Inl AuditLogDecryptError)"

definition parse_log_header :: "bytes \<Rightarrow> (kvs \<times> bytes) result" where
  "parse_log_header header_bytes =
     r_bind (r_catch not_json AuditLogDecryptError (loads_with reject_duplicate_header_fields (\<lambda>_. None) header_bytes))
       check_log_header"

definition is_wrap_error :: "exn \<Rightarrow> bool" where
  "is_wrap_error e \<longleftrightarrow> e \<in> {WrapParseError, WrapIntegrityError, WrapAuthCancelled, WrapKeyNotFound, WrapKeyAlreadyExists,
     OtherError ''WrapError'', OtherError ''WrapNativeUnavailable''}"

text \<open>The first \<open>except\<close> lets the refused prompt and the missing key pass, with the subclass of the latter.\<close>

definition unwrap_failure :: "exn \<Rightarrow> bool" where
  "unwrap_failure e \<longleftrightarrow> is_wrap_error e \<and> e \<notin> {WrapAuthCancelled, WrapKeyNotFound, WrapKeyAlreadyExists}"

definition log_native_key_id :: "profile_root \<Rightarrow> kvs \<Rightarrow> py_str result" where
  "log_native_key_id root header =
     r_catch (\<lambda>e. e = NativeKeyIdMismatch) AuditLogDecryptError (native_key_id_from_row root AUDIT_LOG_KEY_ID header)"

definition unwrap_log_dek :: "('x) crypto_scheme \<Rightarrow> 'd native \<Rightarrow> 'd native option \<Rightarrow> profile_root \<Rightarrow> 'd \<Rightarrow> audit_sink \<Rightarrow> audit_log \<Rightarrow>
    bytes \<Rightarrow> bytes result \<times> 'd \<times> audit_log" where
  "unwrap_log_dek C backend bound root d sink log header_bytes =
     (case r_bind (parse_log_header header_bytes) (\<lambda>(header, wrapped). r_bind (log_native_key_id root header) (\<lambda>n. Inr (wrapped, n))) of
        Inl e \<Rightarrow> (Inl e, d, log)
      | Inr (wrapped, n) \<Rightarrow>
          (case unwrap_dek C (backend_for_persisted_key backend bound AUDIT_LOG_KEY_ID n) d sink log wrapped AUDIT_LOG_KEY_ID (Some n) of
             (r, d', log') \<Rightarrow> (r_catch unwrap_failure AuditLogDecryptError r, d', log')))"

definition decode_entry :: "('x) crypto_scheme \<Rightarrow> bytes \<Rightarrow> bytes \<Rightarrow> bytes \<Rightarrow> kvs result" where
  "decode_entry C dek aad line =
     r_bind (r_catch is_value_error AuditLogDecryptError (b64decode True line)) (\<lambda>blob.
     r_bind (r_catch (\<lambda>e. e = InvalidTag) AuditLogDecryptError (aead_decrypt C dek blob aad)) (\<lambda>plaintext.
     r_bind (r_catch not_json AuditLogDecryptError (loads plaintext)) (\<lambda>entry.
       case entry of JObj d \<Rightarrow> Inr d | _ \<Rightarrow> Inl AuditLogDecryptError)))"

text \<open>The lines after the header.\<close>

fun decode_log_entries :: "('x) crypto_scheme \<Rightarrow> bytes \<Rightarrow> bytes \<Rightarrow> bytes list \<Rightarrow> kvs list result" where
  "decode_log_entries C dek aad [] = Inr []"
| "decode_log_entries C dek aad (line # lines) =
     (if line = [] then decode_log_entries C dek aad lines
      else r_bind (decode_entry C dek aad line) (\<lambda>e. r_bind (decode_log_entries C dek aad lines) (\<lambda>es. Inr (e # es))))"

definition decrypt_log_bytes :: "('x) crypto_scheme \<Rightarrow> 'd native \<Rightarrow> 'd native option \<Rightarrow> profile_root \<Rightarrow> 'd \<Rightarrow> audit_sink \<Rightarrow> audit_log \<Rightarrow>
    bytes \<Rightarrow> kvs list result \<times> 'd \<times> audit_log" where
  "decrypt_log_bytes C backend bound root d sink log raw =
     (case splitlines raw of
        [] \<Rightarrow> (Inl AuditLogDecryptError, d, log)
      | header_bytes # lines \<Rightarrow>
          (case unwrap_log_dek C backend bound root d sink log header_bytes of
             (r, d', log') \<Rightarrow> (r_bind r (\<lambda>dek. decode_log_entries C dek (entry_aad header_bytes) lines), d', log')))"

definition decrypt_log_file :: "('x) crypto_scheme \<Rightarrow> (bytes \<Rightarrow> bytes result) \<Rightarrow> 'd native \<Rightarrow> 'd native option \<Rightarrow> profile_root \<Rightarrow> 'd \<Rightarrow>
    audit_sink \<Rightarrow> audit_log \<Rightarrow> unit result \<Rightarrow> bytes result \<Rightarrow> kvs list result \<times> 'd \<times> audit_log" where
  "decrypt_log_file C gunzip backend bound root d sink log gate snapshot =
     (case r_bind gate (\<lambda>_. r_bind snapshot (\<lambda>raw. if take 2 raw = GZIP_MAGIC then gunzip raw else Inr raw)) of
        Inl e \<Rightarrow> (Inl e, d, log)
      | Inr raw \<Rightarrow> decrypt_log_bytes C backend bound root d sink log raw)"

section \<open>What the writer wrote is read back\<close>

declare str_lit_simps [simp del]

lemma split_lines_line:
  "10 \<notin> set l \<Longrightarrow> 13 \<notin> set l \<Longrightarrow> split_lines pre (l @ 10 # s) = (pre @ l) # split_lines [] s"
  by (induction l arbitrary: pre) auto

lemma split_lines_end: "10 \<notin> set l \<Longrightarrow> 13 \<notin> set l \<Longrightarrow> l \<noteq> [] \<Longrightarrow> split_lines pre l = [pre @ l]"
  by (induction l arbitrary: pre) (force split: if_splits)+

lemma splitlines_cons: "10 \<notin> set l \<Longrightarrow> 13 \<notin> set l \<Longrightarrow> splitlines (l @ 10 # s) = l # splitlines s"
  by (simp add: splitlines_def split_lines_line)

lemma splitlines_lines:
  "\<forall>l \<in> set ls. 10 \<notin> set l \<and> 13 \<notin> set l \<Longrightarrow> splitlines (concat (map (\<lambda>l. l @ [10]) ls)) = ls"
  by (induction ls) (simp_all add: splitlines_cons, simp add: splitlines_def)

lemma reject_duplicates_distinct:
  "distinct (map fst (parsed @ pairs)) \<Longrightarrow> reject_duplicates parsed pairs = Inr (JObj (parsed @ pairs))"
proof (induction pairs arbitrary: parsed)
  case (Cons p pairs)
  then show ?case by (cases p) (auto simp: image_iff dest!: bspec)
qed simp

lemma reject_hook_ok: "hook_ok reject_duplicate_header_fields"
  by (simp add: hook_ok_def reject_duplicate_header_fields_def reject_duplicates_distinct)

lemma printable_line:
  assumes "dumps j = Inr bs" "json_ok j"
  shows "10 \<notin> set bs \<and> 13 \<notin> set bs"
proof -
  obtain t where t: "jprint True (sort_json j) = Inr t" "bs = ascii_bytes t"
    using assms(1) by (auto simp: dumps_def r_bind_Inr_iff)
  have p: "\<forall>d \<in> set t. 32 \<le> d \<and> d \<le> 126" using jprint_printable(1) [OF t(1)] json_ok_sort [OF assms(2)] by blast
  have a: "is_ascii t" using jprint_text(1) [OF t(1) json_ok_sort [OF assms(2)]] .
  have "unat b \<in> set t" if "b \<in> set bs" for b
    using that map_unat_ascii [OF a] t(2) by (metis imageI list.set_map)
  then have "32 \<le> unat b" if "b \<in> set bs" for b using p that by blast
  moreover have "\<not> 32 \<le> unat (10 :: byte)" "\<not> 32 \<le> unat (13 :: byte)" by simp_all
  ultimately show ?thesis by blast
qed

lemma b64_line: "10 \<notin> set (ascii_bytes (b64encode b)) \<and> 13 \<notin> set (ascii_bytes (b64encode b))"
proof -
  have "c \<noteq> 10 \<and> c \<noteq> 13" if "c \<in> set (b64encode b)" for c
    using b64encode_alphabet [OF that] by (auto simp: b64_char_def split: if_splits)
  moreover have "unat w \<in> set (b64encode b)" if "w \<in> set (ascii_bytes (b64encode b))" for w
    using that map_unat_ascii [OF b64encode_ascii] by (metis imageI list.set_map)
  moreover have "unat (10 :: byte) = 10" "unat (13 :: byte) = 13" by simp_all
  ultimately show ?thesis by metis
qed

lemma header_keys: "map fst (log_header w k n) = map str_lit (LEGACY_HEADER_FIELDS @ (case n of None \<Rightarrow> [] | Some _ \<Rightarrow> [NATIVE_KEY_ID_FIELD]))"
  by (simp add: log_header_def LEGACY_HEADER_FIELDS_def split: option.split)

lemma header_distinct: "distinct (map fst (log_header w k n))"
  by (simp add: log_header_def str_lit_inject NATIVE_KEY_ID_FIELD_def split: option.split)

lemma header_sorted: "map (\<lambda>(k, j). (k, sort_json j)) (log_header w k n) = log_header w k n"
  by (simp add: log_header_def jstr_def split: option.split)

lemma is_scalar_str_lit: "list_all (\<lambda>c. of_char c < (128 :: nat)) s \<Longrightarrow> list_all is_scalar (str_lit s)"
  by (induction s) (auto simp: str_lit_def is_scalar_def is_surrogate_def)

lemma ascii_scalar: "is_ascii s \<Longrightarrow> list_all is_scalar s"
  by (auto simp: is_ascii_def list_all_iff is_scalar_def is_surrogate_def)

lemma header_json_ok:
  assumes "list_all is_scalar k" "\<And>p. n = Some p \<Longrightarrow> list_all is_scalar p"
  shows "json_ok (JObj (log_header w k n))"
proof -
  have "list_all is_scalar (b64encode w)" by (simp add: ascii_scalar b64encode_ascii)
  then show ?thesis
    using assms header_distinct [of w k n]
    by (auto simp: log_header_def jstr_def MRAL_FMT_def NATIVE_KEY_ID_FIELD_def is_scalar_str_lit str_lit_inject split: option.splits)
qed

lemma header_get:
  "obj_get (sort_key fst (log_header w k n)) f = obj_get (log_header w k n) f"
  by (simp add: obj_get_def map_of_sort_key header_distinct)

lemma header_gets:
  "obj_get (log_header w k n) ''fmt'' = jstr MRAL_FMT" "obj_get (log_header w k n) ''ver'' = JInt (int FORMAT_VERSION)"
  "obj_get (log_header w k n) ''key_id'' = JStr k" "obj_get (log_header w k n) ''wdek'' = JStr (b64encode w)"
  "obj_get (log_header w k (Some p)) NATIVE_KEY_ID_FIELD = JStr p"
  by (simp_all add: obj_get_def log_header_def str_lit_inject NATIVE_KEY_ID_FIELD_def)

lemma check_own_header:
  "check_log_header (JObj (sort_key fst (log_header w AUDIT_LOG_KEY_ID n))) = Inr (sort_key fst (log_header w AUDIT_LOG_KEY_ID n), w)"
proof -
  have "fst ` set (log_header w AUDIT_LOG_KEY_ID n) = str_lit ` set (case n of None \<Rightarrow> LEGACY_HEADER_FIELDS | Some _ \<Rightarrow> NATIVE_KEY_ID_FIELD # LEGACY_HEADER_FIELDS)"
    using arg_cong [OF header_keys, of set w AUDIT_LOG_KEY_ID n] by (auto split: option.splits)
  then have "mral_fields LEGACY_HEADER_FIELDS (sort_key fst (log_header w AUDIT_LOG_KEY_ID n)) \<or>
      mral_fields (NATIVE_KEY_ID_FIELD # LEGACY_HEADER_FIELDS) (sort_key fst (log_header w AUDIT_LOG_KEY_ID n))"
    unfolding mral_fields_def set_sort by (cases n) simp_all
  then show ?thesis by (simp add: check_log_header_def header_get header_gets)
qed

lemma parse_own_header:
  assumes "make_log_header w AUDIT_LOG_KEY_ID n = Inr h" "\<And>p. n = Some p \<Longrightarrow> list_all is_scalar p"
  shows "parse_log_header h = Inr (sort_key fst (log_header w AUDIT_LOG_KEY_ID n), w) \<and> 10 \<notin> set h \<and> 13 \<notin> set h"
proof -
  have ok: "json_ok (JObj (log_header w AUDIT_LOG_KEY_ID n))"
    by (rule header_json_ok) (simp_all add: assms(2) AUDIT_LOG_KEY_ID_def is_scalar_str_lit)
  have d: "dumps (JObj (log_header w AUDIT_LOG_KEY_ID n)) = Inr h" using assms(1) by (simp add: make_log_header_def)
  show ?thesis
    using loads_dumps [OF d ok _ reject_hook_ok, of "\<lambda>_. None"] printable_line [OF d ok]
    by (simp add: parse_log_header_def header_sorted check_own_header)
qed

text \<open>A line that \<open>append\<close> writes for an entry, and the entry as it is read back: with sorted keys.\<close>

definition writes_line :: "('x) crypto_scheme \<Rightarrow> bytes \<Rightarrow> bytes \<Rightarrow> kvs \<Rightarrow> bytes \<Rightarrow> bool" where
  "writes_line C dek aad e line \<longleftrightarrow> json_ok (JObj e) \<and>
     (\<exists>nonce p. length nonce = 12 \<and> serialize_entry e = Inr p \<and> entry_line C nonce dek aad p = Inr line)"

definition sorted_entry :: "kvs \<Rightarrow> kvs" where
  "sorted_entry e = sort_key fst (map (\<lambda>(k, j). (k, sort_json j)) e)"

lemma length_aad: "length (entry_aad h) = 37"
  by (simp add: entry_aad_def MRAL_MAGIC_def length_sha256)

lemma line_read_back:
  assumes "gcm_ok C" "length dek = 32" "writes_line C dek (entry_aad h) e line"
  shows "\<exists>l. line = l @ [10] \<and> l \<noteq> [] \<and> 10 \<notin> set l \<and> 13 \<notin> set l \<and> decode_entry C dek (entry_aad h) l = Inr (sorted_entry e)"
proof -
  obtain nonce p where n: "length nonce = 12" "serialize_entry e = Inr p" "entry_line C nonce dek (entry_aad h) p = Inr line"
    and ok: "json_ok (JObj e)" using assms(3) by (auto simp: writes_line_def)
  have d: "dumps_utf8 (JObj e) = Inr p" "length p \<le> 4000"
    using n(2) by (auto simp: serialize_entry_def r_bind_Inr_iff MAX_ENTRY_BYTES_def split: if_splits)
  have "sealable C nonce dek (entry_aad h) p"
    using assms(1,2) n(1) d(2) by (simp add: sealable_def length_aad gcm_limit_def)
  then obtain b where b: "aead_encrypt C nonce dek p (entry_aad h) = Inr b" "length b = length p + 28"
    "aead_decrypt C dek b (entry_aad h) = Inr p" using aead_decrypt_encrypt by blast
  have "b64encode b \<noteq> []"
  proof
    assume "b64encode b = []"
    then have "b64decode_str True [] = Inr b" by (metis b64decode_str_encode)
    then have "b = []" by (simp add: b64decode_str_def a2b_base64_def a2b.simps is_ascii_def)
    then show False using b(2) by simp
  qed
  then have l: "line = ascii_bytes (b64encode b) @ [10]" "ascii_bytes (b64encode b) \<noteq> []"
    using n(3) b(1) by (simp_all add: entry_line_def ascii_bytes_def)
  have "decode_entry C dek (entry_aad h) (ascii_bytes (b64encode b)) = Inr (sorted_entry e)"
    using loads_dumps_utf8 [OF d(1) ok] b(3) by (simp add: decode_entry_def sorted_entry_def)
  then show ?thesis using l b64_line by blast
qed

lemma lines_read_back:
  assumes "gcm_ok C" "length dek = 32" "list_all2 (writes_line C dek (entry_aad h)) es lines"
  shows "\<exists>ls. concat lines = concat (map (\<lambda>l. l @ [10]) ls) \<and> (\<forall>l \<in> set ls. 10 \<notin> set l \<and> 13 \<notin> set l) \<and>
     decode_log_entries C dek (entry_aad h) ls = Inr (map sorted_entry es)"
  using assms(3)
proof (induction es lines rule: list_all2_induct)
  case Nil
  then show ?case by (intro exI [of _ "[]"]) simp
next
  case (Cons e es line lines)
  obtain l where l: "line = l @ [10]" "l \<noteq> []" "10 \<notin> set l" "13 \<notin> set l" "decode_entry C dek (entry_aad h) l = Inr (sorted_entry e)"
    using line_read_back [OF assms(1,2) Cons(1)] by blast
  obtain ls where "concat lines = concat (map (\<lambda>l. l @ [10]) ls)" "\<forall>l \<in> set ls. 10 \<notin> set l \<and> 13 \<notin> set l"
    "decode_log_entries C dek (entry_aad h) ls = Inr (map sorted_entry es)" using Cons(3) by blast
  with l show ?case by (intro exI [of _ "l # ls"]) simp
qed

text \<open>The physical key of the header, on the writer's side and as the reader finds it.\<close>

definition log_key :: "profile_root \<Rightarrow> py_str option \<Rightarrow> py_str \<Rightarrow> bool" where
  "log_key root nkid n \<longleftrightarrow> (case nkid of
     None \<Rightarrow> n = AUDIT_LOG_KEY_ID
   | Some p \<Rightarrow> n = p \<and> persisted_native_key_id root AUDIT_LOG_KEY_ID (JStr p) = Inr p)"

lemma sha256_hex_ascii: "is_ascii (sha256_hex b)"
proof -
  have "unat x div 16 < 16" for x :: byte using unat_byte_less [of x] by simp
  moreover have "hex_digit n < 128" if "n < 16" for n using that by (simp add: hex_digit_def)
  ultimately have "hex_digit (unat x div 16) < 128 \<and> hex_digit (unat x mod 16) < 128" for x :: byte by simp
  then show ?thesis by (auto simp: sha256_hex_def hex_of_bytes_def hex_of_byte_def is_ascii_def list_all_iff)
qed

lemma short_digest_ascii: "is_ascii (short_digest s b)"
  unfolding short_digest_def is_ascii_def list_all_iff
  using sha256_hex_ascii by (fastforce simp: is_ascii_def list_all_iff dest: in_set_takeD)

lemma root_name_ascii: "native_key_id_for_root_name r l = Inr p \<Longrightarrow> is_ascii p"
  using short_digest_ascii by (auto simp: root_name_id is_ascii_def NATIVE_KEY_ID_PREFIX_def str_lit_def)

lemma persisted_ascii: "persisted_native_key_id root l v = Inr p \<Longrightarrow> is_ascii p"
  using root_name_ascii by (auto simp: persisted_Inr scoped_native_key_id_def)

lemma log_key_read:
  assumes "log_key root nkid n"
  shows "log_native_key_id root (sort_key fst (log_header w AUDIT_LOG_KEY_ID nkid)) = Inr n"
proof -
  have "map_of (sort_key fst (log_header w AUDIT_LOG_KEY_ID nkid)) = map_of (log_header w AUDIT_LOG_KEY_ID nkid)"
    by (rule map_of_sort_key [OF header_distinct])
  then have "has_field (sort_key fst (log_header w AUDIT_LOG_KEY_ID nkid)) NATIVE_KEY_ID_FIELD \<longleftrightarrow> nkid \<noteq> None"
    unfolding has_field_def by (cases nkid) (simp_all add: log_header_def str_lit_inject NATIVE_KEY_ID_FIELD_def)
  then show ?thesis
    using assms by (auto simp: log_native_key_id_def native_key_id_from_row_def log_key_def header_get header_gets split: option.splits)
qed

lemma native_id_log_key: "log_key root nkid n \<Longrightarrow> native_id nkid AUDIT_LOG_KEY_ID = n"
  by (auto simp: native_id_def log_key_def split: option.splits)

lemma audit_key_id_scalar: "list_all is_scalar AUDIT_LOG_KEY_ID"
  by (simp add: AUDIT_LOG_KEY_ID_def is_scalar_str_lit)

lemma unwrap_own_header:
  assumes "crypto_ok C K" "eph \<in> K" "b \<in> K" "log_key root nkid n" "operational sink" "length dek = 32"
    "holds_key C (backend_for_persisted_key backend bound AUDIT_LOG_KEY_ID n) d n b"
    "wrap_dek C (backend_for_persisted_key backend bound AUDIT_LOG_KEY_ID n) d eph dek AUDIT_LOG_KEY_ID nkid = Inr wrapped"
    "parse_log_header h = Inr (sort_key fst (log_header wrapped AUDIT_LOG_KEY_ID nkid), wrapped)"
  shows "\<exists>d' a. unwrap_log_dek C backend bound root d sink log h = (Inr dek, d', log @ [authorized_entry a])"
proof -
  let ?N = "backend_for_persisted_key backend bound AUDIT_LOG_KEY_ID n"
  obtain kh where kh: "key_id_hash AUDIT_LOG_KEY_ID = Inr kh" using key_id_hash_ok audit_key_id_scalar by blast
  have id: "native_id nkid AUDIT_LOG_KEY_ID = n" "native_id (Some n) AUDIT_LOG_KEY_ID = n"
    using native_id_log_key [OF assms(4)] by (simp_all add: native_id_def)
  have pub: "nb_public ?N d (native_id nkid AUDIT_LOG_KEY_ID) = Inr (ec_public C b)"
    using assms(7) by (simp add: id holds_key_def)
  obtain w where w: "wrapped = wrap_blob \<lparr>ph_key_id_hash = kh, ph_ephemeral_pub = ec_public C eph, ph_wrapped_dek = w\<rparr>"
    "length w = 40" "kw_unwrap C (derive_kek C (ec_exchange C b (ec_public C eph)) (build_hkdf_info kh (ec_public C eph))) w = Inr dek"
    by (rule wrap_dek_blob [OF assms(1-3) pub assms(6) kh]) (use assms(8) in \<open>simp only: sum.inject\<close>)
  have held: "holds_key C ?N d (native_id (Some n) AUDIT_LOG_KEY_ID) b" using assms(7) by (simp add: id)
  have "unwrap_dek C ?N d sink log wrapped AUDIT_LOG_KEY_ID (Some n) =
      (Inr dek, snd (nb_ecdh ?N d (native_id (Some n) AUDIT_LOG_KEY_ID) (ec_public C eph)), log @ [authorized_entry (hex_of_bytes (take 8 kh))])"
    unfolding w(1) by (rule unwrap_of_blob [OF crypto_okD(5) [OF assms(1)] assms(2) held kh w(2) assms(5) w(3)])
  then show ?thesis
    unfolding unwrap_log_dek_def assms(9) by (simp add: log_key_read [OF assms(4)]) blast
qed

lemma decrypt_written:
  assumes "gcm_ok C" "length dek = 32" "unwrap_log_dek C backend bound root d sink log h = (Inr dek, d', log')"
    "10 \<notin> set h \<and> 13 \<notin> set h" "list_all2 (writes_line C dek (entry_aad h)) es lines"
  shows "decrypt_log_bytes C backend bound root d sink log (h @ 10 # concat lines) = (Inr (map sorted_entry es), d', log')"
proof -
  obtain ls where ls: "concat lines = concat (map (\<lambda>l. l @ [10]) ls)" "\<forall>l \<in> set ls. 10 \<notin> set l \<and> 13 \<notin> set l"
    "decode_log_entries C dek (entry_aad h) ls = Inr (map sorted_entry es)"
    using lines_read_back [OF assms(1,2,5)] by blast
  have "splitlines (h @ 10 # concat lines) = h # ls"
    using assms(4) splitlines_lines [OF ls(2)] by (simp add: splitlines_cons ls(1))
  then show ?thesis by (simp add: decrypt_log_bytes_def assms(3) ls(3))
qed

lemma header_no_gzip: "dumps (JObj d) = Inr h \<Longrightarrow> take 2 (h @ 10 # s) \<noteq> GZIP_MAGIC"
  by (auto simp: dumps_def r_bind_Inr_iff ascii_bytes_def GZIP_MAGIC_def)

text \<open>C16: An encrypted audit log is read back completely. A file of a fresh header and one line per appended entry, plain or gzipped,
  is decrypted on the device that holds the audit key to exactly the appended entries, in order, with sorted keys; the unwrap leaves
  exactly one audit entry.\<close>

theorem audit_log_roundtrip:
  assumes "crypto_ok C K" "eph \<in> K" "b \<in> K" "log_key root nkid n" "operational sink" "length dek = 32"
    "holds_key C (backend_for_persisted_key backend bound AUDIT_LOG_KEY_ID n) d n b"
    "wrap_dek C (backend_for_persisted_key backend bound AUDIT_LOG_KEY_ID n) d eph dek AUDIT_LOG_KEY_ID nkid = Inr wrapped"
    "make_log_header wrapped AUDIT_LOG_KEY_ID nkid = Inr h"
    "list_all2 (writes_line C dek (entry_aad h)) es lines"
    "content = h @ 10 # concat lines \<or> take 2 content = GZIP_MAGIC \<and> gunzip content = Inr (h @ 10 # concat lines)"
  shows "\<exists>d' a. decrypt_log_file C gunzip backend bound root d sink log (Inr ()) (Inr content) =
    (Inr (map sorted_entry es), d', log @ [authorized_entry a])"
proof -
  have "nkid = Some p \<Longrightarrow> list_all is_scalar p" for p
    using assms(4) persisted_ascii ascii_scalar by (auto simp: log_key_def)
  note h = parse_own_header [OF assms(9) this]
  obtain d' a where u: "unwrap_log_dek C backend bound root d sink log h = (Inr dek, d', log @ [authorized_entry a])"
    using unwrap_own_header [OF assms(1-8)] h by blast
  have "decrypt_log_bytes C backend bound root d sink log (h @ 10 # concat lines) = (Inr (map sorted_entry es), d', log @ [authorized_entry a])"
    using decrypt_written [OF crypto_okD(1) [OF assms(1)] assms(6) u _ assms(10)] h by simp
  moreover have "take 2 (h @ 10 # concat lines) \<noteq> GZIP_MAGIC"
    using assms(9) header_no_gzip by (simp add: make_log_header_def)
  ultimately show ?thesis using assms(11) by (auto simp: decrypt_log_file_def)
qed

lemma demo_line:
  assumes "length dek = 32"
  shows "\<exists>line. writes_line demo_crypto dek (entry_aad h) [(str_lit ''ok'', JBool True)] line"
proof -
  have p: "serialize_entry [(str_lit ''ok'', JBool True)] = Inr (bytes_lit ''{\"ok\":true}'')"
    by (simp add: serialize_entry_def dumps_utf8_def json_quote_def escape_char_def utf8_encode_def utf8_char_def str_lit_def bytes_lit_def
        is_scalar_def is_surrogate_def MAX_ENTRY_BYTES_def)
  have "sealable demo_crypto (replicate 12 1) dek (entry_aad h) (bytes_lit ''{\"ok\":true}'')"
    using crypto_okD(1) [OF demo_crypto_ok] assms by (simp add: sealable_def length_aad gcm_limit_def bytes_lit_def)
  then obtain b where "aead_encrypt demo_crypto (replicate 12 1) dek (bytes_lit ''{\"ok\":true}'') (entry_aad h) = Inr b"
    using aead_decrypt_encrypt by blast
  then have "entry_line demo_crypto (replicate 12 1) dek (entry_aad h) (bytes_lit ''{\"ok\":true}'') = Inr (ascii_bytes (b64encode b) @ [10])"
    by (simp add: entry_line_def)
  moreover have "json_ok (JObj [(str_lit ''ok'', JBool True)])" by (simp add: is_scalar_str_lit)
  ultimately show ?thesis unfolding writes_line_def using p by (metis length_replicate)
qed

lemma demo_wrapped:
  obtains wrapped h where
    "wrap_dek demo_crypto (backend_for_persisted_key (demo_native [7]) None AUDIT_LOG_KEY_ID AUDIT_LOG_KEY_ID) () [9] (replicate 32 5)
       AUDIT_LOG_KEY_ID None = Inr wrapped"
    "make_log_header wrapped AUDIT_LOG_KEY_ID None = Inr h"
proof -
  obtain kh where kh: "key_id_hash AUDIT_LOG_KEY_ID = Inr kh" using key_id_hash_ok audit_key_id_scalar by blast
  have pub: "nb_public (demo_native [7]) () (native_id None AUDIT_LOG_KEY_ID) = Inr (ec_public demo_crypto [7])"
    by (simp add: demo_native_def)
  obtain wrapped where w: "wrap_dek demo_crypto (demo_native [7]) () [9] (replicate 32 5) AUDIT_LOG_KEY_ID None = Inr wrapped"
    using wrap_dek_blob [OF demo_crypto_ok [of UNIV] UNIV_I UNIV_I pub _ kh, of "replicate 32 5" "[9]"] by auto
  have "length (dec 1) \<le> max_str_digits" by (simp add: dec.simps [of "Suc 0"] max_str_digits_def)
  then have "json_printable (JObj (log_header wrapped AUDIT_LOG_KEY_ID None))"
    by (simp add: log_header_def jstr_def FORMAT_VERSION_def)
  from dumps_total [OF this] obtain h where "make_log_header wrapped AUDIT_LOG_KEY_ID None = Inr h"
    unfolding make_log_header_def by blast
  then show ?thesis using that w by (simp add: backend_for_persisted_key_def)
qed

lemma audit_log_roundtrip_witness:
  "\<exists>content d' log'. decrypt_log_file demo_crypto (\<lambda>_. Inl OSError) (demo_native [7]) None \<lparr>pr_canonical = [], pr_absolute = []\<rparr> () demo_sink []
     (Inr ()) (Inr content) = (Inr [[(str_lit ''ok'', JBool True)]], d', log')"
proof -
  obtain wrapped h where w: "wrap_dek demo_crypto (backend_for_persisted_key (demo_native [7]) None AUDIT_LOG_KEY_ID AUDIT_LOG_KEY_ID) () [9]
      (replicate 32 5) AUDIT_LOG_KEY_ID None = Inr wrapped" "make_log_header wrapped AUDIT_LOG_KEY_ID None = Inr h" by (rule demo_wrapped)
  obtain line where l: "writes_line demo_crypto (replicate 32 5) (entry_aad h) [(str_lit ''ok'', JBool True)] line"
    using demo_line [of "replicate 32 5" h] by auto
  have held: "holds_key demo_crypto (backend_for_persisted_key (demo_native [7]) None AUDIT_LOG_KEY_ID AUDIT_LOG_KEY_ID) () AUDIT_LOG_KEY_ID [7]"
    by (simp add: backend_for_persisted_key_def demo_native_holds)
  have "list_all2 (writes_line demo_crypto (replicate 32 5) (entry_aad h)) [[(str_lit ''ok'', JBool True)]] [line]" using l by simp
  from audit_log_roundtrip [OF demo_crypto_ok [of UNIV] UNIV_I UNIV_I _ demo_sink_operational _ held w this, where log = "[]"
      and root = "\<lparr>pr_canonical = [], pr_absolute = []\<rparr>" and content = "h @ 10 # concat [line]" and gunzip = "\<lambda>_. Inl OSError"]
  show ?thesis by (auto simp: log_key_def sorted_entry_def)
qed

section \<open>How reading fails\<close>

definition log_error :: "exn \<Rightarrow> bool" where
  "log_error e \<longleftrightarrow> e \<in> {AuditLogDecryptError, WrapAuthCancelled, WrapKeyNotFound, ValueError}"

lemma log_error_simps [simp]: "log_error AuditLogDecryptError" "log_error ValueError" "log_error WrapKeyNotFound" "log_error WrapAuthCancelled"
  by (simp_all add: log_error_def)

lemma reject_duplicates_raises: "raises (\<lambda>e. e = AuditLogDecryptError) (reject_duplicates p kvs)"
  by (induction p kvs rule: reject_duplicates.induct) auto

lemma check_log_header_raises: "raises (\<lambda>e. e = AuditLogDecryptError) (check_log_header j)"
proof -
  have "raises (\<lambda>e. e = AuditLogDecryptError) (r_catch is_value_error AuditLogDecryptError (b64decode_str True w))" for w
    by (rule raises_catch) (rule raises_mono [OF b64decode_str_raises], simp)
  then show ?thesis by (auto simp: check_log_header_def intro!: raises_bind split: json.split)
qed

lemma parse_log_header_raises: "raises (\<lambda>e. e \<in> {AuditLogDecryptError, ValueError}) (parse_log_header h)"
proof -
  let ?P = "\<lambda>e. e \<in> {AuditLogDecryptError, JSONDecodeError, UnicodeDecodeError, ValueError}"
  have "raises ?P (loads_with reject_duplicate_header_fields (\<lambda>_. None) h)"
    by (rule loads_with_raises) (auto simp: reject_duplicate_header_fields_def intro: raises_mono [OF reject_duplicates_raises])
  then show ?thesis
    unfolding parse_log_header_def
    by (intro raises_bind raises_catch) (auto elim: raises_mono simp: not_json_def intro: raises_mono [OF check_log_header_raises])
qed

lemma audit_scoped: "\<exists>q. native_key_id_for_root_name r AUDIT_LOG_KEY_ID = Inr q"
proof -
  obtain b where "utf8_encode AUDIT_LOG_KEY_ID = Inr b" using audit_key_id_scalar by (auto simp: utf8_encode_def)
  moreover have "AUDIT_LOG_KEY_ID \<noteq> []" by (simp add: AUDIT_LOG_KEY_ID_def str_lit_def)
  ultimately show ?thesis by (simp add: native_key_id_for_root_name_def)
qed

lemma log_native_key_id_raises: "raises (\<lambda>e. e = AuditLogDecryptError) (log_native_key_id root d)"
proof -
  obtain q q' where "native_key_id_for_root_name (pr_canonical root) AUDIT_LOG_KEY_ID = Inr q"
    "native_key_id_for_root_name (pr_absolute root) AUDIT_LOG_KEY_ID = Inr q'" using audit_scoped by metis
  then show ?thesis
    by (auto simp: log_native_key_id_def native_key_id_from_row_def persisted_native_key_id_def scoped_native_key_id_def)
qed

text \<open>Providers that raise only what they document: AES-GCM \<open>InvalidTag\<close> under a key of legal size, the key unwrap
  \<open>InvalidUnwrap\<close>, and a native store that grants or denies.\<close>

definition provider_documented :: "('x) crypto_scheme \<Rightarrow> bool" where
  "provider_documented C \<longleftrightarrow> ec_decode_raises_value_errors C \<and>
     (\<forall>k n c a e. length k = 32 \<longrightarrow> gcm_open C k n c a = Inl e \<longrightarrow> e = InvalidTag) \<and>
     (\<forall>k w e. kw_unwrap C k w = Inl e \<longrightarrow> is_invalid_unwrap e) \<and>
     (\<forall>k w p. length w = 40 \<longrightarrow> kw_unwrap C k w = Inr p \<longrightarrow> length p = 32)"

definition store_documented :: "'d native \<Rightarrow> bool" where
  "store_documented N \<longleftrightarrow> (\<forall>d k peer e. fst (nb_ecdh N d k peer) \<noteq> Raised e)"

lemma store_documented_fallback:
  assumes "store_documented backend" "\<And>b. bound = Some b \<Longrightarrow> store_documented b"
  shows "store_documented (backend_for_persisted_key backend bound l n)"
proof (cases bound)
  case (Some b)
  then have b: "store_documented b" using assms(2) by blast
  have "nb_ecdh (legacy_read_fallback b backend) d k peer = nb_ecdh b d k peer" for d k peer
    using b by (auto simp: legacy_read_fallback_def store_documented_def split: prod.split native_outcome.split) (metis fst_conv)
  then have "store_documented (legacy_read_fallback b backend)" using b by (simp add: store_documented_def)
  then show ?thesis using b Some by (simp add: backend_for_persisted_key_def)
qed (simp add: backend_for_persisted_key_def assms(1))

lemma decode_entry_raises:
  assumes "provider_documented C" "length dek = 32"
  shows "raises log_error (decode_entry C dek aad line)"
proof -
  have "raises (\<lambda>e. e = AuditLogDecryptError) (r_catch is_value_error AuditLogDecryptError (b64decode True line))"
    by (rule raises_catch) (rule raises_mono [OF b64decode_raises], simp add: is_value_error_def)
  moreover have "raises log_error (r_catch (\<lambda>e. e = InvalidTag) AuditLogDecryptError (aead_decrypt C dek b aad))" for b
    using assms by (auto simp: aead_decrypt_def provider_documented_def raises_def r_catch_Inl_iff split: if_splits)
  moreover have "raises log_error (r_catch not_json AuditLogDecryptError (loads p))" for p
    by (rule raises_catch) (rule raises_mono [OF loads_raises], auto simp: loads_error_def not_json_def)
  ultimately show ?thesis
    unfolding decode_entry_def by (auto intro!: raises_bind split: json.split elim: raises_mono)
qed

lemma decode_log_entries_raises:
  "provider_documented C \<Longrightarrow> length dek = 32 \<Longrightarrow> raises log_error (decode_log_entries C dek aad lines)"
  by (induction lines) (auto intro!: raises_bind decode_entry_raises)

lemma unwrap_log_dek_outcome:
  assumes "provider_documented C" "store_documented backend" "\<And>b. bound = Some b \<Longrightarrow> store_documented b" "operational sink"
    "unwrap_log_dek C backend bound root d sink log h = (r, d', log')"
  shows "raises log_error r \<and> (\<forall>dek. r = Inr dek \<longrightarrow> length dek = 32)"
proof (cases "r_bind (parse_log_header h) (\<lambda>(header, wrapped). r_bind (log_native_key_id root header) (\<lambda>n. Inr (wrapped, n)))")
  case (Inl e)
  then have "e \<in> {AuditLogDecryptError, ValueError}"
    using raisesD [OF parse_log_header_raises] raisesD [OF log_native_key_id_raises] by (fastforce simp: r_bind_Inl_iff)
  then show ?thesis using assms(5) Inl by (auto simp: unwrap_log_dek_def)
next
  case (Inr wn)
  then obtain wrapped n where wn: "wn = (wrapped, n)" by (cases wn)
  let ?N = "backend_for_persisted_key backend bound AUDIT_LOG_KEY_ID n"
  have doc: "fst (nb_ecdh ?N d k peer) \<noteq> Raised e" for k peer e
    using store_documented_fallback [OF assms(2,3)] by (simp add: store_documented_def)
  obtain kh where kh: "key_id_hash AUDIT_LOG_KEY_ID = Inr kh" using key_id_hash_ok audit_key_id_scalar by blast
  obtain u where u: "unwrap_dek C ?N d sink log wrapped AUDIT_LOG_KEY_ID (Some n) = (u, d', log')" "r = r_catch unwrap_failure AuditLogDecryptError u"
    using assms(5) Inr wn by (auto simp: unwrap_log_dek_def split: prod.splits)
  have "raises (\<lambda>e. e \<in> {WrapParseError, WrapKeyNotFound, WrapAuthCancelled, WrapIntegrityError}) u \<and> (\<forall>dek. u = Inr dek \<longrightarrow> length dek = 32)"
  proof (cases "parse_header C wrapped AUDIT_LOG_KEY_ID")
    case (Inl e)
    have "e = WrapParseError"
      using parse_header_error [OF _ audit_key_id_scalar Inl] assms(1) by (simp add: provider_documented_def)
    then show ?thesis using u(1) Inl by (auto simp: unwrap_dek_def)
  next
    case (Inr p)
    then have len: "length (ph_wrapped_dek p) = 40" by (simp add: parse_header_iff)
    have opened: "open_wrapped C s p = Inl e \<Longrightarrow> e = WrapIntegrityError" "open_wrapped C s p = Inr dek \<Longrightarrow> length dek = 32" for s dek e
      using assms(1) len by (auto simp: provider_documented_def open_wrapped_def raises_def r_catch_Inl_iff)
    obtain out d1 where o1: "nb_ecdh ?N d (native_id (Some n) AUDIT_LOG_KEY_ID) (ph_ephemeral_pub p) = (out, d1)" by (cases "nb_ecdh ?N d (native_id (Some n) AUDIT_LOG_KEY_ID) (ph_ephemeral_pub p)")
    note den = raise_denied_operational [OF assms(4) kh]
    show ?thesis
    proof (cases out)
      case (Secret s)
      then have "u = open_wrapped C s p"
        using u(1) Inr o1 emit_authorized_operational [OF assms(4) kh]
        by (auto simp: unwrap_dek_def split: sum.splits)
      then show ?thesis using opened [of s] by (simp add: raises_def)
    next
      case (Denied c)
      then show ?thesis using u(1) Inr o1 by (cases c) (auto simp: unwrap_dek_def den)
    next
      case (Raised e)
      then show ?thesis using o1 doc by (metis fst_conv)
    qed
  qed
  then show ?thesis
    unfolding u(2) by (cases u) (auto simp: unwrap_failure_def is_wrap_error_def)
qed


lemma demo_provider_documented: "provider_documented demo_crypto"
  by (auto simp: provider_documented_def ec_decode_raises_value_errors_def demo_crypto_def is_invalid_unwrap_def is_value_error_def split: if_splits)


end
