(* ===== verification/Audit_Writer.thy ===== *)
theory Audit_Writer
  imports Audit_Format "HOL-Library.Multiset"
begin

text \<open>
  The two audit-log writers: \<open>NDJSONWriter\<close> (\<open>privacy_check/audit.py\<close>) and \<open>EncryptedWriter\<close>
  (\<open>keyvault/log_encryption.py\<close>), with rotation, compression and the retention sweep (\<open>_core/_log_rotation.py\<close>) and the file
  primitives (\<open>_core/_audit_io.py\<close>). The audit directory is the list of its entries; a writer runs alone under the sidecar lock, so
  an \<open>append\<close> is one step, and nothing else moves files meanwhile: the comparisons of inodes before and after an open or a
  rename succeed. What the system calls answer, clock readings and random draws are the fields of an environment. File modes are
  left out; a dangling link counts as existing. Times are in microseconds.
\<close>

section \<open>The audit directory\<close>

text \<open>\<open>Special removable mtime\<close>: a link, FIFO, device or directory.\<close>

record log_file =
  lf_inode :: nat
  lf_data :: bytes
  lf_mtime :: int

datatype dirent = Regular log_file | Special bool int

type_synonym log_dir = "(py_str \<times> dirent) list"

definition dir_del :: "py_str \<Rightarrow> log_dir \<Rightarrow> log_dir" where
  "dir_del n d = filter (\<lambda>(m, e). m \<noteq> n) d"

definition in_dir :: "log_dir \<Rightarrow> py_str \<Rightarrow> bool" where
  "in_dir d n \<longleftrightarrow> n \<in> fst ` set d"

definition audit_path_stat :: "log_dir \<Rightarrow> py_str \<Rightarrow> log_file option result" where
  "audit_path_stat d n =
     (case map_of d n of None \<Rightarrow> Inr None | Some (Regular f) \<Rightarrow> Inr (Some f) | Some (Special _ _) \<Rightarrow> Inl OSError)"

text \<open>\<open>read_first_line\<close>: chunks of at most 4096 bytes up to the newline or the limit.\<close>

function read_line_chunks :: "nat \<Rightarrow> bytes \<Rightarrow> bytes" where
  "read_line_chunks remaining s =
     (if remaining = 0 \<or> s = [] then []
      else let chunk = take (min 4096 remaining) s; line = takeWhile (\<lambda>b. b \<noteq> 10) chunk
           in line @ (if 10 \<in> set chunk then [] else read_line_chunks (remaining - length line) (drop (length chunk) s)))"
  by pat_completeness auto
termination by (relation "measure (\<lambda>(r, s). length s)") auto

declare read_line_chunks.simps [simp del]

definition read_first_line :: "log_dir \<Rightarrow> exn option \<Rightarrow> py_str \<Rightarrow> nat \<Rightarrow> bytes option result" where
  "read_first_line d io n limit =
     r_bind (audit_path_stat d n) (\<lambda>f. case f of
        None \<Rightarrow> Inr None
      | Some f \<Rightarrow> (case io of Some e \<Rightarrow> Inl e | None \<Rightarrow> Inr (Some (read_line_chunks limit (lf_data f)))))"

text \<open>\<open>open_audit_file\<close> for writing; a new file gets the inode \<open>ino\<close>.\<close>

definition open_for_writing :: "bool \<Rightarrow> exn option \<Rightarrow> nat \<Rightarrow> int \<Rightarrow> log_dir \<Rightarrow> py_str \<Rightarrow> log_file result" where
  "open_for_writing excl io ino now d n =
     r_bind (audit_path_stat d n) (\<lambda>f. case io of Some e \<Rightarrow> Inl e | None \<Rightarrow>
       (case f of None \<Rightarrow> Inr \<lparr>lf_inode = ino, lf_data = [], lf_mtime = now\<rparr>
        | Some f \<Rightarrow> if excl then Inl OSError else Inr f))"

definition put_file :: "int \<Rightarrow> py_str \<Rightarrow> log_file \<Rightarrow> bytes \<Rightarrow> log_dir \<Rightarrow> log_dir" where
  "put_file now n f c d = dict_put n (Regular (f\<lparr>lf_data := c, lf_mtime := now\<rparr>)) d"

text \<open>What successive \<open>os.write\<close> calls answer; after the last answer a call writes all that is left.\<close>

datatype write_answer = Accepted nat | Write_failed exn

fun write_loop :: "write_answer list \<Rightarrow> bytes \<Rightarrow> bytes \<Rightarrow> exn option \<times> bytes" where
  "write_loop [] view c = (None, c @ view)"
| "write_loop (Write_failed e # as) view c = (if view = [] then (None, c) else (Some e, c))"
| "write_loop (Accepted n # as) view c =
     (if view = [] then (None, c) else if n = 0 then (Some OSError, c)
      else write_loop as (drop n view) (c @ take n view))"

text \<open>\<open>_write_all\<close> appends to \<open>c\<close>; on a failure the file is cut back to \<open>rollback_to\<close> if \<open>os.ftruncate\<close> works.\<close>

definition write_all :: "write_answer list \<Rightarrow> bool \<Rightarrow> bytes \<Rightarrow> nat \<Rightarrow> bytes \<Rightarrow> unit result \<times> bytes" where
  "write_all as truncates data rollback_to c =
     (case write_loop as data c of
        (None, c') \<Rightarrow> (Inr (), c')
      | (Some e, c') \<Rightarrow> (Inl e, if truncates then take rollback_to c' else c'))"

text \<open>The loop of \<open>NDJSONWriter.append\<close>: no rollback when nothing was written, and its failure is what is raised.\<close>

definition nd_write :: "write_answer list \<Rightarrow> bool \<Rightarrow> bytes \<Rightarrow> bytes \<Rightarrow> unit result \<times> bytes" where
  "nd_write as truncates data c =
     (case write_loop as data c of
        (None, c') \<Rightarrow> (Inr (), c')
      | (Some e, c') \<Rightarrow> if c' = c then (Inl e, c) else if truncates then (Inl e, take (length c) c') else (Inl OSError, c'))"

section \<open>Rotation\<close>

definition rotation_target :: "py_str \<Rightarrow> py_str \<Rightarrow> nat \<Rightarrow> py_str" where
  "rotation_target path date n = path @ [46] @ date @ (if n = 0 then [] else [46] @ dec n)"

definition gz_name :: "py_str \<Rightarrow> py_str" where
  "gz_name t = t @ str_lit ''.gz''"

definition taken :: "log_dir \<Rightarrow> py_str \<Rightarrow> bool" where
  "taken d t \<longleftrightarrow> in_dir d t \<or> in_dir d (gz_name t)"

lemma dec_text_inject: "dec m = dec n \<Longrightarrow> m = n"
  by (metis digits_value_dec)

lemma rotation_target_inject: "rotation_target p s m = rotation_target p s n \<Longrightarrow> m = n"
  by (auto simp: rotation_target_def dec_text_inject split: if_splits)

lemma finite_taken: "finite {n. m \<le> n \<and> taken d (rotation_target p s n)}"
proof -
  have "finite {n. rotation_target p s n \<in> fst ` set d}"
    by (rule finite_vimageI [of "fst ` set d" "rotation_target p s", unfolded vimage_def]) (auto intro: injI rotation_target_inject)
  moreover have "finite {n. gz_name (rotation_target p s n) \<in> fst ` set d}"
    by (rule finite_vimageI [of "fst ` set d" "\<lambda>n. gz_name (rotation_target p s n)", unfolded vimage_def])
      (auto intro: injI rotation_target_inject simp: gz_name_def)
  ultimately show ?thesis by (rule rev_finite_subset [OF finite_UnI]) (auto simp: taken_def in_dir_def)
qed

function free_number :: "log_dir \<Rightarrow> py_str \<Rightarrow> py_str \<Rightarrow> nat \<Rightarrow> nat" where
  "free_number d path date n = (if taken d (rotation_target path date n) then free_number d path date (Suc n) else n)"
  by pat_completeness auto
termination
proof (relation "measure (\<lambda>(d, p, s, m). card {n. m \<le> n \<and> taken d (rotation_target p s n)})")
  fix d p s m
  assume "taken d (rotation_target p s m)"
  then have m: "m \<in> {n. m \<le> n \<and> taken d (rotation_target p s n)}" by simp
  have "{n. Suc m \<le> n \<and> taken d (rotation_target p s n)} \<subset> {n. m \<le> n \<and> taken d (rotation_target p s n)}"
  proof (rule psubsetI)
    show "{n. Suc m \<le> n \<and> taken d (rotation_target p s n)} \<noteq> {n. m \<le> n \<and> taken d (rotation_target p s n)}"
      using m by (metis (no_types, lifting) mem_Collect_eq not_less_eq_eq order_refl)
  qed auto
  then show "((d, p, s, Suc m), d, p, s, m) \<in> measure (\<lambda>(d, p, s, m). card {n. m \<le> n \<and> taken d (rotation_target p s n)})"
    by (simp add: psubset_card_mono finite_taken)
qed simp

declare free_number.simps [simp del]

definition next_rotation_target :: "log_dir \<Rightarrow> py_str \<Rightarrow> py_str \<Rightarrow> py_str" where
  "next_rotation_target d path date = rotation_target path date (free_number d path date 0)"

text \<open>\<open>compress_rotated_file\<close>: done, or an exception and what it left under the new name when its clean-up failed too.\<close>

datatype gz_outcome = Gz_done | Gz_failed exn "bytes option"

record rotate_env =
  re_replace :: "exn option"
  re_gzip :: gz_outcome
  re_inode :: nat
  re_now :: int

definition compress_rotated_file :: "(bytes \<Rightarrow> bytes) \<Rightarrow> rotate_env \<Rightarrow> log_dir \<Rightarrow> py_str \<Rightarrow> unit result \<times> log_dir" where
  "compress_rotated_file gz env d source =
     (case audit_path_stat d source of
        Inl e \<Rightarrow> (Inl e, d)
      | Inr None \<Rightarrow> (Inl FileNotFoundError, d)
      | Inr (Some f) \<Rightarrow>
          if in_dir d (gz_name source) then (Inl OSError, d)
          else let gz_file = (\<lambda>c. Regular \<lparr>lf_inode = re_inode env, lf_data = c, lf_mtime = re_now env\<rparr>)
               in (case re_gzip env of
                     Gz_done \<Rightarrow> (Inr (), dir_del source (dict_put (gz_name source) (gz_file (gz (lf_data f))) d))
                   | Gz_failed e left \<Rightarrow> (Inl e, case left of None \<Rightarrow> d | Some c \<Rightarrow> dict_put (gz_name source) (gz_file c) d)))"

definition mtime_of :: "dirent \<Rightarrow> int" where
  "mtime_of e = (case e of Regular f \<Rightarrow> lf_mtime f | Special _ t \<Rightarrow> t)"

definition is_sibling :: "py_str \<Rightarrow> py_str \<Rightarrow> bool" where
  "is_sibling path n \<longleftrightarrow> take (Suc (length path)) n = path @ [46]"

text \<open>The sweep walks over the directory; an \<open>unlink\<close> that fails ends it.\<close>

fun sweep_loop :: "int \<Rightarrow> py_str \<Rightarrow> log_dir \<Rightarrow> unit result \<times> log_dir" where
  "sweep_loop cutoff path [] = (Inr (), [])"
| "sweep_loop cutoff path ((n, e) # d) =
     (if n = [46] @ path @ str_lit ''.lock'' \<or> n = path @ str_lit ''.lock'' \<or> \<not> is_sibling path n \<or> \<not> mtime_of e < cutoff
      then (case sweep_loop cutoff path d of (r, d') \<Rightarrow> (r, (n, e) # d'))
      else (case e of
              Regular _ \<Rightarrow> sweep_loop cutoff path d
            | Special removable _ \<Rightarrow> if removable then sweep_loop cutoff path d else (Inl OSError, (n, e) # d)))"

definition cutoff_of :: "int \<Rightarrow> int \<Rightarrow> int" where
  "cutoff_of now retention_days = now - retention_days * 86400000000"

definition sweep_retention :: "int \<Rightarrow> int \<Rightarrow> py_str \<Rightarrow> log_dir \<Rightarrow> unit result \<times> log_dir" where
  "sweep_retention now retention_days path d = sweep_loop (cutoff_of now retention_days) path d"

definition rotate_and_compress :: "(bytes \<Rightarrow> bytes) \<Rightarrow> rotate_env \<Rightarrow> int \<Rightarrow> py_str \<Rightarrow> py_str \<Rightarrow> log_dir \<Rightarrow> unit result \<times> log_dir" where
  "rotate_and_compress gz env retention_days path date d =
     (case audit_path_stat d path of
        Inl e \<Rightarrow> (Inl e, d)
      | Inr None \<Rightarrow> (Inr (), d)
      | Inr (Some f) \<Rightarrow>
          (case re_replace env of
             Some e \<Rightarrow> (Inl e, d)
           | None \<Rightarrow>
               let target = next_rotation_target d path date;
                   d1 = dict_put target (Regular f) (dir_del path d)
               in (case compress_rotated_file gz env d1 target of
                     (r, d2) \<Rightarrow>
                       (case r of
                          Inl e \<Rightarrow> if is_exception e then sweep_retention (re_now env) retention_days path d2 else (Inl e, d2)
                        | Inr _ \<Rightarrow> sweep_retention (re_now env) retention_days path d2))))"

section \<open>The plaintext writer\<close>

record append_env =
  ae_ts :: py_str
  ae_today :: py_str
  ae_now :: int
  ae_lock :: "unit result"
  ae_read :: "exn option"
  ae_rotate :: rotate_env
  ae_open :: "exn option"
  ae_inode :: nat
  ae_writes :: "write_answer list"
  ae_truncates :: bool

record nd_writer =
  nd_path :: py_str
  nd_rotate_bytes :: int
  nd_retention_days :: int
  nd_last_date :: py_str

definition nd_serialize :: "kvs \<Rightarrow> bytes result" where
  "nd_serialize entry =
     r_bind (dumps_utf8 (JObj entry)) (\<lambda>line. if MAX_ENTRY_BYTES < length (line @ [10]) then Inl ValueError else Inr (line @ [10]))"

definition assert_plaintext_append_safe :: "log_dir \<Rightarrow> exn option \<Rightarrow> py_str \<Rightarrow> unit result" where
  "assert_plaintext_append_safe d io path =
     r_bind (read_first_line d io path (MAX_ENTRY_BYTES + 1)) (\<lambda>first_line.
       case first_line of
         None \<Rightarrow> Inr ()
       | Some line \<Rightarrow>
           if line = [] then Inr ()
           else r_bind (r_catch is_value_error OSError (loads line)) (\<lambda>first_entry.
             case first_entry of
               JObj e \<Rightarrow> if obj_get e ''fmt'' = jstr MRAL_FMT then Inl OSError else Inr ()
             | _ \<Rightarrow> Inl OSError))"

definition nd_maybe_rotate :: "(bytes \<Rightarrow> bytes) \<Rightarrow> append_env \<Rightarrow> nd_writer \<Rightarrow> nat \<Rightarrow> log_dir \<Rightarrow> unit result \<times> nd_writer \<times> log_dir" where
  "nd_maybe_rotate gz env w incoming d =
     (case audit_path_stat d (nd_path w) of
        Inl e \<Rightarrow> (Inl e, w, d)
      | Inr m \<Rightarrow>
          let today = ae_today env;
              due = (case m of
                  None \<Rightarrow> None
                | Some f \<Rightarrow>
                    if nd_last_date w \<noteq> [] \<and> nd_last_date w \<noteq> today then Some (nd_last_date w)
                    else if nd_rotate_bytes w < int (length (lf_data f) + incoming) then Some today else None)
          in (case due of
                None \<Rightarrow> (Inr (), w\<lparr>nd_last_date := today\<rparr>, d)
              | Some date \<Rightarrow>
                  (case rotate_and_compress gz (ae_rotate env) (nd_retention_days w) (nd_path w) date d of
                     (Inl e, d') \<Rightarrow> (Inl e, w, d')
                   | (Inr _, d') \<Rightarrow> (Inr (), w\<lparr>nd_last_date := today\<rparr>, d'))))"

text \<open>The part of an \<open>append\<close> after the checks: open, and write the data at the end.\<close>

definition nd_write_file :: "append_env \<Rightarrow> py_str \<Rightarrow> bytes \<Rightarrow> log_dir \<Rightarrow> unit result \<times> log_dir" where
  "nd_write_file env path data d =
     (case open_for_writing False (ae_open env) (ae_inode env) (ae_now env) d path of
        Inl e \<Rightarrow> (Inl e, d)
      | Inr f \<Rightarrow> (case nd_write (ae_writes env) (ae_truncates env) data (lf_data f) of (r, c) \<Rightarrow> (r, put_file (ae_now env) path f c d)))"

definition nd_append :: "(bytes \<Rightarrow> bytes) \<Rightarrow> append_env \<Rightarrow> kvs \<Rightarrow> nd_writer \<times> log_dir \<Rightarrow> unit result \<times> nd_writer \<times> log_dir" where
  "nd_append gz env entry s =
     (case nd_serialize (with_ts (ae_ts env) entry) of
        Inl e \<Rightarrow> (Inl e, s)
      | Inr data \<Rightarrow>
          s_bind (r_bind (ae_lock env) (\<lambda>_. assert_plaintext_append_safe (snd s) (ae_read env) (nd_path (fst s))), s) (\<lambda>_ (w, d).
          s_bind (nd_maybe_rotate gz env w (length data) d) (\<lambda>_ (w, d).
            case nd_write_file env (nd_path w) data d of (r, d') \<Rightarrow> (r, w, d'))))"

section \<open>The encrypted writer\<close>

text \<open>
  The writer of the factory: its key is \<open>AUDIT_LOG_KEY_ID\<close> and its backend the one bound to the profile. \<open>ew_lease\<close> is the
  generation epoch and the identity of the keyvault root it was created under.
\<close>

record 'd audit_host =
  ah_crypto :: crypto
  ah_gzip :: "bytes \<Rightarrow> bytes"
  ah_gunzip :: "bytes \<Rightarrow> bytes result"
  ah_backend :: "'d native"
  ah_bound :: "'d native option"
  ah_root :: profile_root
  ah_device :: 'd

definition log_backend :: "'d audit_host \<Rightarrow> py_str option \<Rightarrow> 'd native" where
  "log_backend H nkid = backend_for_persisted_key (ah_backend H) (ah_bound H) AUDIT_LOG_KEY_ID (native_id nkid AUDIT_LOG_KEY_ID)"

record enc_writer =
  ew_path :: py_str
  ew_native_key_id :: "py_str option"
  ew_lease :: "(bytes \<times> nat) option"
  ew_rotate_bytes :: int
  ew_retention_days :: int
  ew_last_date :: py_str
  ew_dek :: "bytes option"
  ew_aad :: bytes
  ew_header :: bytes
  ew_identity :: "nat option"

record active_env =
  av_today :: py_str
  av_now :: int
  av_rotate :: rotate_env
  av_dek :: bytes
  av_ephemeral :: bytes
  av_open :: "exn option"
  av_inode :: nat
  av_writes :: "write_answer list"
  av_truncates :: bool

record enc_env =
  ee_lifecycle :: "unit result"
  ee_lease :: "(bytes \<times> nat) result"
  ee_append :: append_env
  ee_active :: active_env
  ee_nonce :: bytes

definition wipe_dek :: "enc_writer \<Rightarrow> enc_writer" where
  "wipe_dek w = w\<lparr>ew_dek := None, ew_aad := [], ew_header := [], ew_identity := None\<rparr>"

definition enc_close :: "enc_writer \<Rightarrow> enc_writer" where
  "enc_close w = wipe_dek w"

definition assert_keyvault_generation :: "(bytes \<times> nat) result \<Rightarrow> enc_writer \<Rightarrow> unit result \<times> enc_writer" where
  "assert_keyvault_generation observed w =
     (case ew_lease w of
        None \<Rightarrow> (Inr (), w)
      | Some lease \<Rightarrow>
          (case observed of
             Inl e \<Rightarrow> (Inl e, wipe_dek w)
           | Inr current \<Rightarrow> if current \<noteq> lease then (Inl KeyvaultPermissionError, wipe_dek w) else (Inr (), w)))"

definition refresh_active_ownership :: "exn option \<Rightarrow> log_dir \<Rightarrow> enc_writer \<Rightarrow> enc_writer result" where
  "refresh_active_ownership io d w =
     (case ew_dek w of
        None \<Rightarrow> Inr w
      | Some _ \<Rightarrow>
          r_bind (audit_path_stat d (ew_path w)) (\<lambda>m.
            let owns_inode = (case m of None \<Rightarrow> False | Some f \<Rightarrow> ew_identity w = Some (lf_inode f))
            in r_bind (if owns_inode then read_first_line d io (ew_path w) (MAX_ENTRY_BYTES + 1) else Inr None) (\<lambda>header.
                 Inr (if \<not> owns_inode \<or> header \<noteq> Some (ew_header w) then wipe_dek w else w))))"

definition enc_maybe_rotate :: "(bytes \<Rightarrow> bytes) \<Rightarrow> append_env \<Rightarrow> nat \<Rightarrow> enc_writer \<times> log_dir \<Rightarrow> unit result \<times> enc_writer \<times> log_dir" where
  "enc_maybe_rotate gz env incoming s =
     (let (w, d) = s in
      case audit_path_stat d (ew_path w) of
        Inl e \<Rightarrow> (Inl e, s)
      | Inr m \<Rightarrow>
          let today = ae_today env;
              due = (case (ew_dek w, m) of
                  (Some _, Some f) \<Rightarrow>
                    if ew_last_date w \<noteq> [] \<and> ew_last_date w \<noteq> today then Some (ew_last_date w)
                    else if ew_rotate_bytes w < int (length (lf_data f) + incoming) then Some today else None
                | _ \<Rightarrow> None)
          in (case due of
                None \<Rightarrow> (Inr (), w\<lparr>ew_last_date := today\<rparr>, d)
              | Some date \<Rightarrow>
                  (case rotate_and_compress gz (ae_rotate env) (ew_retention_days w) (ew_path w) date d of
                     (Inl e, d') \<Rightarrow> (Inl e, w, d')
                   | (Inr _, d') \<Rightarrow> (Inr (), (wipe_dek w)\<lparr>ew_last_date := today\<rparr>, d'))))"

text \<open>A fresh file: data key, header, exclusive creation.\<close>

definition start_file :: "'d audit_host \<Rightarrow> active_env \<Rightarrow> enc_writer \<times> log_dir \<Rightarrow> (bytes \<times> bytes) result \<times> enc_writer \<times> log_dir" where
  "start_file H env s =
     (let (w, d) = s; dek = av_dek env; nkid = ew_native_key_id w in
      case r_bind (wrap_dek (ah_crypto H) (log_backend H nkid) (ah_device H) (av_ephemeral env) dek AUDIT_LOG_KEY_ID nkid)
             (\<lambda>wrapped. make_log_header wrapped AUDIT_LOG_KEY_ID nkid) of
        Inl e \<Rightarrow> (Inl e, s)
      | Inr header_bytes \<Rightarrow>
          (case open_for_writing True (av_open env) (av_inode env) (av_now env) d (ew_path w) of
             Inl e \<Rightarrow> (Inl e, s)
           | Inr f \<Rightarrow>
               (case write_all (av_writes env) (av_truncates env) (header_bytes @ [10]) 0 (lf_data f) of
                  (Inl e, c) \<Rightarrow> (Inl e, w, put_file (av_now env) (ew_path w) f c d)
                | (Inr _, c) \<Rightarrow>
                    (Inr (dek, entry_aad header_bytes),
                     w\<lparr>ew_dek := Some dek, ew_aad := entry_aad header_bytes, ew_header := header_bytes, ew_identity := Some (lf_inode f)\<rparr>,
                     put_file (av_now env) (ew_path w) f c d))))"

definition enc_active :: "'d audit_host \<Rightarrow> active_env \<Rightarrow> enc_writer \<times> log_dir \<Rightarrow> (bytes \<times> bytes) result \<times> enc_writer \<times> log_dir" where
  "enc_active H env s =
     (let (w, d) = s in
      case ew_dek w of
        Some dek \<Rightarrow> (Inr (dek, ew_aad w), s)
      | None \<Rightarrow>
          (case audit_path_stat d (ew_path w) of
             Inl e \<Rightarrow> (Inl e, s)
           | Inr None \<Rightarrow> start_file H env s
           | Inr (Some _) \<Rightarrow>
               (case rotate_and_compress (ah_gzip H) (av_rotate env) (ew_retention_days w) (ew_path w) (av_today env) d of
                  (Inl e, d') \<Rightarrow> (Inl e, w, d')
                | (Inr _, d') \<Rightarrow> start_file H env (w, d'))))"

definition enc_write_file :: "append_env \<Rightarrow> py_str \<Rightarrow> bytes \<Rightarrow> log_dir \<Rightarrow> unit result \<times> log_dir" where
  "enc_write_file env path line d =
     (case open_for_writing False (ae_open env) (ae_inode env) (ae_now env) d path of
        Inl e \<Rightarrow> (Inl e, d)
      | Inr f \<Rightarrow>
          (case write_all (ae_writes env) (ae_truncates env) line (length (lf_data f)) (lf_data f) of
             (r, c) \<Rightarrow> (r, put_file (ae_now env) path f c d)))"

text \<open>\<open>append\<close> in three parts: the checks under the locks, the choice of the file, and the write.\<close>

definition enc_guards :: "enc_env \<Rightarrow> enc_writer \<times> log_dir \<Rightarrow> unit result \<times> enc_writer \<times> log_dir" where
  "enc_guards env s =
     s_bind (ee_lifecycle env, s) (\<lambda>_ (w, d).
     s_bind (case assert_keyvault_generation (ee_lease env) w of (r, w') \<Rightarrow> (r, w', d)) (\<lambda>_ (w, d).
     s_bind (ae_lock (ee_append env), w, d) (\<lambda>_ (w, d).
       case refresh_active_ownership (ae_read (ee_append env)) d w of
         Inl e \<Rightarrow> (Inl e, w, d)
       | Inr w' \<Rightarrow> (Inr (), w', d))))"

definition enc_write_entry :: "'d audit_host \<Rightarrow> enc_env \<Rightarrow> bytes \<Rightarrow> enc_writer \<times> log_dir \<Rightarrow> unit result \<times> enc_writer \<times> log_dir" where
  "enc_write_entry H env plaintext s =
     s_bind (enc_maybe_rotate (ah_gzip H) (ee_append env) (encrypted_line_len (length plaintext)) s) (\<lambda>_ s.
     s_bind (enc_active H (ee_active env) s) (\<lambda>(dek, aad) (w, d).
       case entry_line (ah_crypto H) (ee_nonce env) dek aad plaintext of
         Inl e \<Rightarrow> (Inl e, w, d)
       | Inr line \<Rightarrow> (case enc_write_file (ee_append env) (ew_path w) line d of (r, d') \<Rightarrow> (r, w, d'))))"

definition enc_append :: "'d audit_host \<Rightarrow> enc_env \<Rightarrow> kvs \<Rightarrow> enc_writer \<times> log_dir \<Rightarrow> unit result \<times> enc_writer \<times> log_dir" where
  "enc_append H env entry s =
     (case serialize_entry (with_ts (ae_ts (ee_append env)) entry) of
        Inl e \<Rightarrow> (Inl e, s)
      | Inr plaintext \<Rightarrow> s_bind (enc_guards env s) (\<lambda>_ s. enc_write_entry H env plaintext s))"

section \<open>Handing over\<close>

definition audit_log_is_encrypted :: "log_dir \<Rightarrow> exn option \<Rightarrow> py_str \<Rightarrow> bool result" where
  "audit_log_is_encrypted d io path =
     (case read_first_line d io path (MAX_ENTRY_BYTES + 1) of
        Inl e \<Rightarrow> if e = FileNotFoundError then Inr False else Inl e
      | Inr None \<Rightarrow> Inr False
      | Inr (Some line) \<Rightarrow>
          if take 1 line \<noteq> [123] then Inr False
          else (case loads line of
                  Inl e \<Rightarrow> if is_value_error e then Inr False else Inl e
                | Inr (JObj h) \<Rightarrow> Inr (obj_get h ''fmt'' = jstr MRAL_FMT)
                | Inr _ \<Rightarrow> Inr False))"

definition rotate_encrypted_log_aside :: "append_env \<Rightarrow> py_str \<Rightarrow> log_dir \<Rightarrow> unit result \<times> log_dir" where
  "rotate_encrypted_log_aside env path d =
     (case r_bind (ae_lock env) (\<lambda>_. audit_log_is_encrypted d (ae_read env) path) of
        Inl e \<Rightarrow> (Inl e, d)
      | Inr encrypted \<Rightarrow>
          if \<not> encrypted then (Inr (), d)
          else (case audit_path_stat d path of
                  Inl e \<Rightarrow> (Inl e, d)
                | Inr None \<Rightarrow> (Inr (), d)
                | Inr (Some f) \<Rightarrow>
                    (case re_replace (ae_rotate env) of
                       Some e \<Rightarrow> (Inl e, d)
                     | None \<Rightarrow> (Inr (), dict_put (next_rotation_target d path (ae_today env)) (Regular f) (dir_del path d)))))"

end
