(* ===== verification/Audit_Safety.thy ===== *)
theory Audit_Safety
  imports Audit_Writer
begin

text \<open>
  What the audit log holds. A file of the log is read by \<open>decrypt_log_file\<close> or, when it is plaintext, line by line; the log is the
  multiset of the entries of the active file and its dated siblings. An append adds its entry whole or not at all, and only the
  retention sweep takes entries away.
\<close>

section \<open>Reading a file\<close>

definition raw_log :: "'d audit_host \<Rightarrow> bytes \<Rightarrow> bytes" where
  "raw_log H c = (if take 2 c = GZIP_MAGIC then (case ah_gunzip H c of Inr r \<Rightarrow> r | Inl _ \<Rightarrow> []) else c)"

definition decrypted :: "'d audit_host \<Rightarrow> bytes \<Rightarrow> kvs list result" where
  "decrypted H raw = fst (decrypt_log_bytes (ah_crypto H) (ah_backend H) (ah_bound H) (ah_root H) (ah_device H) noop_audit [] raw)"

definition plain_entries :: "bytes \<Rightarrow> kvs list" where
  "plain_entries raw = concat (map (\<lambda>l. case loads l of Inr (JObj e) \<Rightarrow> [e] | _ \<Rightarrow> []) (splitlines raw))"

definition log_entries :: "'d audit_host \<Rightarrow> bytes \<Rightarrow> kvs list" where
  "log_entries H c = (case decrypted H (raw_log H c) of Inr es \<Rightarrow> es | Inl _ \<Rightarrow> plain_entries (raw_log H c))"

text \<open>The host of the log: working primitives, a gzip that can be undone, and the audit key in the native store.\<close>

definition host_ok :: "'d audit_host \<Rightarrow> bytes set \<Rightarrow> bool" where
  "host_ok H K \<longleftrightarrow> crypto_ok (ah_crypto H) K \<and>
     (\<forall>c. ah_gunzip H (ah_gzip H c) = Inr c \<and> take 2 (ah_gzip H c) = GZIP_MAGIC) \<and>
     (\<forall>nkid n. log_key (ah_root H) nkid n \<longrightarrow> (\<exists>b \<in> K. holds_key (ah_crypto H) (log_backend H nkid) (ah_device H) n b))"

definition own_header :: "'d audit_host \<Rightarrow> bytes set \<Rightarrow> bytes \<Rightarrow> bytes \<Rightarrow> bool" where
  "own_header H K h dek \<longleftrightarrow> length dek = 32 \<and>
     (\<exists>nkid n eph wrapped. eph \<in> K \<and> log_key (ah_root H) nkid n \<and>
        wrap_dek (ah_crypto H) (log_backend H nkid) (ah_device H) eph dek AUDIT_LOG_KEY_ID nkid = Inr wrapped \<and>
        make_log_header wrapped AUDIT_LOG_KEY_ID nkid = Inr h)"

definition mral_file :: "'d audit_host \<Rightarrow> bytes set \<Rightarrow> bytes \<Rightarrow> bytes \<Rightarrow> bytes \<Rightarrow> kvs list \<Rightarrow> bool" where
  "mral_file H K h dek c es \<longleftrightarrow> own_header H K h dek \<and>
     (\<exists>lines. c = h @ 10 # concat lines \<and> list_all2 (writes_line (ah_crypto H) dek (entry_aad h)) es lines)"

definition plain_line :: "kvs \<Rightarrow> bytes \<Rightarrow> bool" where
  "plain_line e p \<longleftrightarrow> json_ok (JObj e) \<and> str_lit ''ts'' \<in> fst ` set e \<and> dumps_utf8 (JObj e) = Inr p \<and> length p < 4000"

definition plain_file :: "bytes \<Rightarrow> kvs list \<Rightarrow> bool" where
  "plain_file c es \<longleftrightarrow> (\<exists>ps. c = concat (map (\<lambda>p. p @ [10]) ps) \<and> list_all2 plain_line es ps)"

definition good_log :: "'d audit_host \<Rightarrow> bytes set \<Rightarrow> bytes \<Rightarrow> kvs list \<Rightarrow> bool" where
  "good_log H K c es \<longleftrightarrow> plain_file c es \<or> (\<exists>h dek. mral_file H K h dek c es)"

lemma log_backend_key: "log_key root nkid n \<Longrightarrow> log_backend H nkid = backend_for_persisted_key (ah_backend H) (ah_bound H) AUDIT_LOG_KEY_ID n"
  by (simp add: log_backend_def native_id_log_key)

lemma length_json_quote: "length (json_quote ea s) \<le> 12 * length s + 2"
proof -
  have e: "length (escape_char ea c) \<le> 12" for c by (simp add: escape_char_def u_escape_def)
  have "length (concat (map (escape_char ea) s)) \<le> 12 * length s"
  proof (induction s)
    case (Cons c s)
    then show ?case using e [of c] by simp
  qed simp
  then show ?thesis by (simp add: json_quote_def)
qed

lemma wrap_dek_length: "wrap_dek C N d eph dek kid nkid = Inr w \<Longrightarrow> crypto_ok C K \<Longrightarrow> eph \<in> K \<Longrightarrow> length dek = 32 \<Longrightarrow> length w = 127"
proof -
  assume w: "wrap_dek C N d eph dek kid nkid = Inr w" and ok: "crypto_ok C K" "eph \<in> K" "length dek = 32"
  obtain h s wr where h: "key_id_hash kid = Inr h" "w = build_hkdf_info h (ec_public C eph) @ wr"
    "kw_wrap C (derive_kek C s (build_hkdf_info h (ec_public C eph))) dek = Inr wr"
    using w by (auto simp: wrap_dek_def r_bind_Inr_iff Let_def split: if_splits)
  have "length (derive_kek C s (build_hkdf_info h (ec_public C eph))) = 32" using ok(1) by (simp add: crypto_ok_def derive_kek_def length_hkdf)
  then have "length wr = 40" using h(3) ok by (metis crypto_okD(2) kw_okE sum.inject(2))
  moreover have "length (ec_public C eph) = 65" using ok by (simp add: crypto_ok_def ec_ok_def)
  ultimately show ?thesis using h(2) length_key_id_hash [OF h(1)] by (simp add: build_hkdf_info_def MRKW_MAGIC_def)
qed

lemma length_b64_chars_exact: "length (b64_chars s) = (length s + 2) div 3 * 4"
proof (induction s rule: b64_chars.induct)
  case (4 a b c s)
  have "(length s + 3 + 2) div 3 = (length s + 2) div 3 + 1" by presburger
  then show ?case using 4 by simp
qed auto

lemma length_b64encode: "length (b64encode bs) = (length bs + 2) div 3 * 4"
  by (simp add: b64encode_def length_b64_chars_exact)

definition item_weight :: "py_str \<times> json \<Rightarrow> nat" where
  "item_weight kv = 12 * length (fst kv) + 6 + (case snd kv of JStr s \<Rightarrow> 12 * length s | _ \<Rightarrow> 0)"

lemma length_items:
  "jprint_items ea kvs = Inr t \<Longrightarrow> \<forall>kv \<in> set kvs. (\<exists>s. snd kv = JStr s) \<or> snd kv = JInt 1 \<Longrightarrow> length t \<le> sum_list (map item_weight kvs)"
proof (induction kvs arbitrary: t)
  case (Cons kv kvs)
  obtain k v where kv: "kv = (k, v)" by (cases kv)
  have one: "int_repr 1 = Inr [49]" by (simp add: int_repr_def dec.simps [of "Suc 0"] max_str_digits_def)
  have v: "jprint ea v = Inr u \<Longrightarrow> length u \<le> 2 + (case v of JStr s \<Rightarrow> 12 * length s | _ \<Rightarrow> 0)" for u
    using Cons(3) kv one length_json_quote [of ea] by (auto split: json.split)
  obtain u r where u: "jprint ea v = Inr u" "jprint_items ea kvs = Inr r" "length t \<le> length (json_quote ea k) + 1 + length u + 1 + length r"
    using Cons(2) kv by (cases kvs) (auto simp: r_bind_Inr_iff)
  have "length r \<le> sum_list (map item_weight kvs)" using Cons(1) [OF u(2)] Cons(3) by simp
  moreover have "sum_list (map item_weight (kv # kvs)) = 12 * length k + 6 + (case v of JStr s \<Rightarrow> 12 * length s | _ \<Rightarrow> 0) + sum_list (map item_weight kvs)"
    by (simp add: item_weight_def kv)
  ultimately show ?case using u(3) v [OF u(1)] length_json_quote [of ea k] by linarith
qed simp

lemma log_key_length: "log_key root (Some p) n \<Longrightarrow> length p \<le> 91"
  by (auto simp: log_key_def persisted_Inr scoped_native_key_id_def root_name_id length_short_digest NATIVE_KEY_ID_PREFIX_def)

lemma header_length:
  assumes "make_log_header wrapped AUDIT_LOG_KEY_ID nkid = Inr h" "length wrapped = 127" "log_key root nkid n"
  shows "length h \<le> 4000"
proof -
  let ?kvs = "log_header wrapped AUDIT_LOG_KEY_ID nkid"
  obtain t where t: "jprint True (JObj (sort_key fst ?kvs)) = Inr t" "h = ascii_bytes t"
    using assms(1) by (auto simp: make_log_header_def dumps_def header_sorted r_bind_Inr_iff)
  obtain u where u: "jprint_items True (sort_key fst ?kvs) = Inr u" "t = 123 # u @ [125]" using t(1) by (auto simp: r_bind_Inr_iff)
  have "\<forall>kv \<in> set (sort_key fst ?kvs). (\<exists>s. snd kv = JStr s) \<or> snd kv = JInt 1"
    unfolding set_sort by (auto simp: log_header_def jstr_def FORMAT_VERSION_def split: option.split)
  from length_items [OF u(1) this] have "length u \<le> sum_list (map item_weight (sort_key fst ?kvs))" .
  also have "\<dots> = sum_list (map item_weight ?kvs)"
    by (metis mset_map mset_sort sum_mset_sum_list)
  also have "\<dots> \<le> 3990"
    using assms(2,3)
    by (cases nkid) (auto dest: log_key_length simp: log_header_def item_weight_def jstr_def MRAL_FMT_def AUDIT_LOG_KEY_ID_def NATIVE_KEY_ID_FIELD_def length_b64encode)
  finally show ?thesis by (simp add: t(2) u(2) ascii_bytes_def)
qed

lemma own_header_unwrap:
  assumes "host_ok H K" "own_header H K h dek"
  shows "(\<exists>d' l. unwrap_log_dek (ah_crypto H) (ah_backend H) (ah_bound H) (ah_root H) (ah_device H) noop_audit [] h = (Inr dek, d', l)) \<and>
    10 \<notin> set h \<and> 13 \<notin> set h \<and> length h \<le> 4000 \<and> (\<exists>s. h = 123 # s) \<and>
    (\<exists>hd. loads h = Inr (JObj hd) \<and> obj_get hd ''fmt'' = jstr MRAL_FMT \<and> str_lit ''ts'' \<notin> fst ` set hd)"
proof -
  obtain nkid n eph wrapped where o: "eph \<in> K" "log_key (ah_root H) nkid n" "length dek = 32"
    "wrap_dek (ah_crypto H) (log_backend H nkid) (ah_device H) eph dek AUDIT_LOG_KEY_ID nkid = Inr wrapped"
    "make_log_header wrapped AUDIT_LOG_KEY_ID nkid = Inr h" using assms(2) by (auto simp: own_header_def)
  obtain b where b: "b \<in> K" "holds_key (ah_crypto H) (log_backend H nkid) (ah_device H) n b" using assms(1) o(2) unfolding host_ok_def by blast
  have ok: "crypto_ok (ah_crypto H) K" using assms(1) by (simp add: host_ok_def)
  have sc: "nkid = Some p \<Longrightarrow> list_all is_scalar p" for p using o(2) persisted_ascii ascii_scalar by (auto simp: log_key_def)
  note h = parse_own_header [OF o(5) sc]
  have "\<exists>d' a. unwrap_log_dek (ah_crypto H) (ah_backend H) (ah_bound H) (ah_root H) (ah_device H) noop_audit [] h = (Inr dek, d', [] @ [authorized_entry a])"
    by (rule unwrap_own_header [OF ok o(1) b(1) o(2) noop_operational o(3)])
      (use b(2) o(4) h log_backend_key [OF o(2), of H] in simp_all)
  moreover have "length h \<le> 4000" using header_length [OF o(5) wrap_dek_length [OF o(4) ok o(1) o(3)] o(2)] .
  moreover have d: "dumps (JObj (log_header wrapped AUDIT_LOG_KEY_ID nkid)) = Inr h" using o(5) by (simp add: make_log_header_def)
  moreover have "json_ok (JObj (log_header wrapped AUDIT_LOG_KEY_ID nkid))" by (rule header_json_ok [OF audit_key_id_scalar sc])
  with d have "loads h = Inr (JObj (sort_key fst (log_header wrapped AUDIT_LOG_KEY_ID nkid)))"
    using loads_dumps [OF d, of "\<lambda>_. None" as_dict] by (simp add: loads_def header_sorted)
  moreover have "obj_get (sort_key fst (log_header wrapped AUDIT_LOG_KEY_ID nkid)) ''fmt'' = jstr MRAL_FMT" by (simp add: header_get header_gets)
  moreover have "str_lit ''ts'' \<notin> fst ` set (sort_key fst (log_header wrapped AUDIT_LOG_KEY_ID nkid))"
    unfolding set_sort by (auto simp: log_header_def str_lit_inject NATIVE_KEY_ID_FIELD_def split: option.splits)
  moreover have "\<exists>s. h = 123 # s" using d by (auto simp: dumps_def r_bind_Inr_iff ascii_bytes_def)
  ultimately show ?thesis using h by blast
qed

lemma own_header_dek: "host_ok H K \<Longrightarrow> own_header H K h dek \<Longrightarrow> own_header H K h dek' \<Longrightarrow> dek = dek'"
  using own_header_unwrap [of H K h dek] own_header_unwrap [of H K h dek'] by auto

lemma not_gzip: "c = [] \<or> (\<exists>s. c = 123 # s) \<Longrightarrow> raw_log H c = c"
  by (auto simp: raw_log_def GZIP_MAGIC_def)

lemma mral_read:
  assumes "host_ok H K" "mral_file H K h dek c es"
  shows "raw_log H c = c \<and> decrypted H c = Inr (map sorted_entry es)"
proof -
  obtain lines where c: "own_header H K h dek" "c = h @ 10 # concat lines" "list_all2 (writes_line (ah_crypto H) dek (entry_aad h)) es lines"
    using assms(2) by (auto simp: mral_file_def)
  note u = own_header_unwrap [OF assms(1) c(1)]
  have "gcm_ok (ah_crypto H)" "length dek = 32" using assms(1) c(1) by (auto simp: host_ok_def crypto_ok_def own_header_def)
  then have "decrypted H c = Inr (map sorted_entry es)"
    unfolding decrypted_def c(2) using u decrypt_written c(3) by (metis fst_conv)
  moreover have "\<exists>s. c = 123 # s" using u c(2) by auto
  ultimately show ?thesis using not_gzip by blast
qed

lemma plain_line_read:
  assumes "plain_line e p"
  shows "10 \<notin> set p \<and> 13 \<notin> set p \<and> (\<exists>s. p = 123 # s) \<and> loads p = Inr (JObj (sorted_entry e)) \<and>
    loads_with reject_duplicate_header_fields (\<lambda>_. None) p = Inr (JObj (sorted_entry e)) \<and> str_lit ''ts'' \<in> fst ` set (sorted_entry e)"
proof -
  have e: "json_ok (JObj e)" "dumps_utf8 (JObj e) = Inr p" "str_lit ''ts'' \<in> fst ` set e" using assms by (auto simp: plain_line_def)
  have "fst ` set (sorted_entry e) = fst ` set e" unfolding sorted_entry_def set_sort by force
  then show ?thesis
    using dumps_utf8_line [OF e(2)] loads_with_dumps_utf8 [OF e(2,1) reject_hook_ok] loads_with_dumps_utf8 [OF e(2,1) as_dict_ok] e(3)
    by (simp add: loads_def sorted_entry_def)
qed

lemma ts_no_header: "str_lit ''ts'' \<in> fst ` set d \<Longrightarrow> check_log_header (JObj d) = Inl AuditLogDecryptError"
proof -
  assume ts: "str_lit ''ts'' \<in> fst ` set d"
  have "\<not> mral_fields fs d" if "''ts'' \<notin> set fs" for fs
  proof
    assume "mral_fields fs d"
    then have "str_lit ''ts'' \<in> str_lit ` set fs" using ts by (simp add: mral_fields_def)
    then show False using that by (auto simp: str_lit_inject)
  qed
  then have "\<not> mral_fields LEGACY_HEADER_FIELDS d" "\<not> mral_fields (NATIVE_KEY_ID_FIELD # LEGACY_HEADER_FIELDS) d"
    by (simp_all add: LEGACY_HEADER_FIELDS_def NATIVE_KEY_ID_FIELD_def)
  then show ?thesis by (simp add: check_log_header_def)
qed

lemma plain_read:
  assumes "plain_file c es"
  shows "raw_log H c = c \<and> (\<exists>e. decrypted H c = Inl e) \<and> plain_entries c = map sorted_entry es"
proof -
  obtain ps where ps: "c = concat (map (\<lambda>p. p @ [10]) ps)" "list_all2 plain_line es ps" using assms by (auto simp: plain_file_def)
  have lines: "\<forall>p \<in> set ps. 10 \<notin> set p \<and> 13 \<notin> set p"
    using ps(2) plain_line_read by (metis in_set_conv_nth list_all2_conv_all_nth)
  then have sp: "splitlines c = ps" unfolding ps(1) by (rule splitlines_lines)
  have "concat (map (\<lambda>l. case loads l of Inr (JObj e) \<Rightarrow> [e] | _ \<Rightarrow> []) ps) = map sorted_entry es"
    using ps(2) by (induction rule: list_all2_induct) (simp_all add: plain_line_read)
  then have "plain_entries c = map sorted_entry es" by (simp add: plain_entries_def sp)
  moreover have "(\<exists>e. decrypted H c = Inl e) \<and> (c = [] \<or> (\<exists>s. c = 123 # s))"
  proof (cases ps)
    case Nil
    then show ?thesis using sp ps(1) by (simp add: decrypted_def decrypt_log_bytes_def)
  next
    case (Cons p ps')
    then obtain e where "plain_line e p" using ps(2) by (auto simp: list_all2_Cons2)
    note p = plain_line_read [OF this]
    then have "parse_log_header p = Inl AuditLogDecryptError" by (simp add: parse_log_header_def ts_no_header)
    then show ?thesis using p sp ps(1) Cons by (auto simp: decrypted_def decrypt_log_bytes_def unwrap_log_dek_def)
  qed
  ultimately show ?thesis using not_gzip by blast
qed

lemma good_entries: "host_ok H K \<Longrightarrow> good_log H K c es \<Longrightarrow> log_entries H c = map sorted_entry es \<and> log_entries H (ah_gzip H c) = map sorted_entry es"
proof -
  assume h: "host_ok H K" and g: "good_log H K c es"
  have r: "raw_log H c = c" "log_entries H c = map sorted_entry es"
    using g mral_read [OF h] plain_read [of c es H] by (auto simp: good_log_def log_entries_def)
  have "raw_log H (ah_gzip H c) = c" using h by (simp add: host_ok_def raw_log_def)
  then show ?thesis using r(2) unfolding log_entries_def by (simp only: r(1))
qed

section \<open>The directory as a multiset of entries\<close>

definition tracked :: "py_str \<Rightarrow> py_str \<Rightarrow> bool" where
  "tracked path n \<longleftrightarrow> n = path \<or> is_sibling path n"

definition dirent_entries :: "'d audit_host \<Rightarrow> dirent \<Rightarrow> kvs multiset" where
  "dirent_entries H e = (case e of Regular f \<Rightarrow> mset (log_entries H (lf_data f)) | Special _ _ \<Rightarrow> {#})"

definition weigh :: "(py_str \<Rightarrow> dirent \<Rightarrow> kvs multiset) \<Rightarrow> log_dir \<Rightarrow> kvs multiset" where
  "weigh f d = sum_list (map (\<lambda>(n, e). f n e) d)"

definition entries_in :: "'d audit_host \<Rightarrow> py_str \<Rightarrow> py_str \<Rightarrow> dirent \<Rightarrow> kvs multiset" where
  "entries_in H path n e = (if tracked path n then dirent_entries H e else {#})"

definition old_in :: "'d audit_host \<Rightarrow> py_str \<Rightarrow> int \<Rightarrow> py_str \<Rightarrow> dirent \<Rightarrow> kvs multiset" where
  "old_in H path cutoff n e = (if mtime_of e < cutoff then entries_in H path n e else {#})"

text \<open>All entries of the log, and those in files not modified since \<open>cutoff\<close>.\<close>

definition entries :: "'d audit_host \<Rightarrow> py_str \<Rightarrow> log_dir \<Rightarrow> kvs multiset" where
  "entries H path d = weigh (entries_in H path) d"

definition old_entries :: "'d audit_host \<Rightarrow> py_str \<Rightarrow> int \<Rightarrow> log_dir \<Rightarrow> kvs multiset" where
  "old_entries H path cutoff d = weigh (old_in H path cutoff) d"

definition file_ok :: "'d audit_host \<Rightarrow> bytes set \<Rightarrow> bool \<Rightarrow> dirent \<Rightarrow> bool" where
  "file_ok H K active e \<longleftrightarrow> (\<forall>f. e = Regular f \<longrightarrow>
     (\<exists>c es. good_log H K c es \<and> (lf_data f = c \<or> \<not> active \<and> lf_data f = ah_gzip H c)))"

definition dir_ok :: "'d audit_host \<Rightarrow> bytes set \<Rightarrow> py_str \<Rightarrow> log_dir \<Rightarrow> bool" where
  "dir_ok H K path d \<longleftrightarrow> distinct (map fst d) \<and> (\<forall>(n, e) \<in> set d. tracked path n \<longrightarrow> file_ok H K (n = path) e)"

lemma weigh_simps [simp]: "weigh f [] = {#}" "weigh f ((n, e) # d) = f n e + weigh f d"
  by (simp_all add: weigh_def)

lemma weigh_append: "weigh f (d @ d') = weigh f d + weigh f d'"
  by (simp add: weigh_def)

lemma dict_put_new: "\<not> in_dir d n \<Longrightarrow> dict_put n e d = d @ [(n, e)]"
  by (simp add: in_dir_def dict_put_fresh)

lemma weigh_put: "\<not> in_dir d n \<Longrightarrow> weigh f (dict_put n e d) = weigh f d + f n e"
  by (simp add: dict_put_new weigh_append)

lemma weigh_replace:
  "map_of d n = Some e0 \<Longrightarrow> weigh f (dict_put n e d) + f n e0 = weigh f d + f n e"
  by (induction d) (auto simp: ac_simps split: if_splits)

lemma dir_del_absent: "\<not> in_dir d n \<Longrightarrow> dir_del n d = d"
  by (induction d) (auto simp: dir_del_def in_dir_def)

lemma weigh_del:
  "distinct (map fst d) \<Longrightarrow> map_of d n = Some e \<Longrightarrow> weigh f (dir_del n d) + f n e = weigh f d"
proof (induction d)
  case (Cons p d)
  obtain m e' where p: "p = (m, e')" by (cases p)
  show ?case
  proof (cases "m = n")
    case True
    then have "\<not> in_dir d n" using Cons(2) p by (simp add: in_dir_def)
    then show ?thesis using True Cons(3) p dir_del_absent [of d n] by (simp add: dir_del_def add.commute)
  next
    case False
    then show ?thesis using Cons p by (simp add: dir_del_def ac_simps)
  qed
qed simp

lemma keys_put: "fst ` set (dict_put n e d) = insert n (fst ` set d)"
  unfolding dom_map_of_conv_image_fst [symmetric] by (simp add: map_of_dict_put)

lemma distinct_put: "distinct (map fst d) \<Longrightarrow> distinct (map fst (dict_put n e d))"
  by (induction d) (auto simp: keys_put)

lemma distinct_del: "distinct (map fst d) \<Longrightarrow> distinct (map fst (dir_del n d))"
  by (auto simp: dir_del_def distinct_map_filter)

lemma in_dir_simps [simp]:
  "in_dir (dict_put n e d) m \<longleftrightarrow> m = n \<or> in_dir d m" "in_dir (dir_del n d) m \<longleftrightarrow> m \<noteq> n \<and> in_dir d m"
  by (simp add: in_dir_def keys_put) (force simp: in_dir_def dir_del_def)

lemma set_put_subset: "set (dict_put n e d) \<subseteq> insert (n, e) (set d)"
  by (induction d) (auto split: if_splits)

lemma dir_ok_put: "dir_ok H K path d \<Longrightarrow> (tracked path n \<Longrightarrow> file_ok H K (n = path) e) \<Longrightarrow> dir_ok H K path (dict_put n e d)"
  using set_put_subset [of n e d] by (fastforce simp: dir_ok_def distinct_put)

lemma dir_ok_del: "dir_ok H K path d \<Longrightarrow> dir_ok H K path (dir_del n d)"
  by (auto simp: dir_ok_def distinct_del) (auto simp: dir_del_def)

lemma map_of_del: "map_of (dir_del n d) m = (if m = n then None else map_of d m)"
  by (induction d) (auto simp: dir_del_def)

lemma in_dir_iff: "in_dir d n \<longleftrightarrow> map_of d n \<noteq> None"
  by (simp add: in_dir_def map_of_eq_None_iff)

lemma sibling_not_path: "\<not> is_sibling path path"
  by (simp add: is_sibling_def)

lemma target_sibling: "is_sibling path (rotation_target path date n)" "is_sibling path (gz_name (rotation_target path date n))"
  by (simp_all add: is_sibling_def rotation_target_def gz_name_def)

lemma free_number_free: "\<not> taken d (rotation_target path date (free_number d path date n))"
proof (induction d path date n rule: free_number.induct)
  case (1 d path date n)
  then show ?case by (subst free_number.simps) (auto simp: Let_def)
qed

lemma next_target:
  "\<not> in_dir d (next_rotation_target d path date) \<and> \<not> in_dir d (gz_name (next_rotation_target d path date)) \<and>
   is_sibling path (next_rotation_target d path date) \<and> is_sibling path (gz_name (next_rotation_target d path date))"
  using free_number_free [of d path date 0] target_sibling by (simp add: next_rotation_target_def taken_def)

section \<open>Rotation loses only what the sweep may take\<close>

definition lossy :: "'d audit_host \<Rightarrow> py_str \<Rightarrow> int \<Rightarrow> log_dir \<Rightarrow> log_dir \<Rightarrow> kvs multiset \<Rightarrow> bool" where
  "lossy H path cutoff d d' new \<longleftrightarrow> (\<exists>lost. lost \<subseteq># old_entries H path cutoff d \<and> entries H path d' + lost = entries H path d + new)"

lemma lossy_refl: "lossy H path cutoff d d {#}"
  by (auto simp: lossy_def intro: exI [of _ "{#}"])

lemma lossy_mono: "lossy H path cutoff d d' new \<Longrightarrow> old_entries H path cutoff d \<subseteq># old_entries H path cutoff' d0 \<Longrightarrow>
    entries H path d = entries H path d0 \<Longrightarrow> lossy H path cutoff' d0 d' new"
  by (auto simp: lossy_def intro: subset_mset.order_trans)

lemma lossy_then: "lossy H path cutoff d d' new \<Longrightarrow> entries H path d'' = entries H path d' + extra \<Longrightarrow> lossy H path cutoff d d'' (new + extra)"
  by (auto simp: lossy_def ac_simps)

lemma sub_add: "A \<subseteq># B \<Longrightarrow> A \<subseteq># C + (B :: 'a multiset)"
  by (metis mset_subset_eq_add_right subset_mset.order_trans)

lemma old_cutoff: "c \<le> c' \<Longrightarrow> old_entries H path c d \<subseteq># old_entries H path c' d"
  by (induction d) (auto simp: old_entries_def old_in_def intro: sub_add)

lemma sweep_loop_lossy:
  "sweep_loop cutoff path d = (r, d') \<Longrightarrow>
     lossy H path cutoff d d' {#} \<and> set d' \<subseteq> set d \<and> (distinct (map fst d) \<longrightarrow> distinct (map fst d')) \<and> (in_dir d' path \<longleftrightarrow> in_dir d path)"
proof (induction cutoff path d arbitrary: r d' rule: sweep_loop.induct)
  case (1 cutoff path)
  then show ?case by (simp add: lossy_refl)
next
  case (2 cutoff path n e d)
  let ?skip = "n = [46] @ path @ str_lit ''.lock'' \<or> n = path @ str_lit ''.lock'' \<or> \<not> is_sibling path n \<or> \<not> mtime_of e < cutoff"
  show ?case
  proof (cases ?skip)
    case True
    obtain r1 d1 where s: "sweep_loop cutoff path d = (r1, d1)" by (cases "sweep_loop cutoff path d")
    then have d': "d' = (n, e) # d1" using 2(4) True by simp
    note ih = 2(1) [OF True s]
    have "lossy H path cutoff ((n, e) # d) d' {#}"
    proof -
      obtain lost where l: "lost \<subseteq># old_entries H path cutoff d" "entries H path d1 + lost = entries H path d" using ih by (auto simp: lossy_def)
      have "lost \<subseteq># old_entries H path cutoff ((n, e) # d)" using l(1) by (simp add: old_entries_def sub_add)
      moreover have "entries H path d' + lost = entries H path ((n, e) # d)" using l(2) by (simp add: entries_def d' ac_simps)
      ultimately show ?thesis by (auto simp: lossy_def)
    qed
    then show ?thesis using ih by (auto simp: d' in_dir_def)
  next
    case False
    then have n: "is_sibling path n" "mtime_of e < cutoff" "n \<noteq> path" using sibling_not_path by auto
    let ?ih = "lossy H path cutoff d d' {#} \<and> set d' \<subseteq> set d \<and> (distinct (map fst d) \<longrightarrow> distinct (map fst d')) \<and> (in_dir d' path \<longleftrightarrow> in_dir d path)"
    have drop: ?thesis if ih: ?ih
    proof -
      from ih obtain lost where l: "lost \<subseteq># old_entries H path cutoff d" "entries H path d' + lost = entries H path d" by (auto simp: lossy_def)
      have "entries_in H path n e + lost \<subseteq># old_entries H path cutoff ((n, e) # d)"
        using l(1) n by (simp add: old_entries_def old_in_def)
      moreover have "entries H path d' + (entries_in H path n e + lost) = entries H path ((n, e) # d)"
        using l(2) by (simp add: entries_def ac_simps)
      ultimately have "lossy H path cutoff ((n, e) # d) d' {#}" by (auto simp: lossy_def)
      then show ?thesis using ih n by (auto simp: in_dir_def)
    qed
    show ?thesis
    proof (cases e)
      case (Regular f)
      then have "sweep_loop cutoff path d = (r, d')" using 2(4) False by simp
      then show ?thesis using drop 2(2) [OF False Regular] by simp
    next
      case (Special removable t)
      show ?thesis
      proof (cases removable)
        case True
        then have "sweep_loop cutoff path d = (r, d')" using 2(4) False Special by simp
        then show ?thesis using drop 2(3) [OF False Special True] by simp
      next
        case False
        then show ?thesis using 2(4) \<open>\<not> ?skip\<close> Special lossy_refl by simp
      qed
    qed
  qed
qed

lemma sweep_ok:
  assumes "dir_ok H K path d" "sweep_retention now days path d = (r, d')"
  shows "dir_ok H K path d' \<and> lossy H path (cutoff_of now days) d d' {#} \<and> (in_dir d' path \<longleftrightarrow> in_dir d path)"
  using sweep_loop_lossy [of "cutoff_of now days" path d r d' H] assms by (auto simp: dir_ok_def sweep_retention_def)

lemma file_ok_rotated: "file_ok H K True (Regular f) \<Longrightarrow> file_ok H K False (Regular f)"
  by (auto simp: file_ok_def)

lemma gz_entries:
  assumes "host_ok H K" "file_ok H K True (Regular f)"
  shows "dirent_entries H (Regular \<lparr>lf_inode = i, lf_data = ah_gzip H (lf_data f), lf_mtime = t\<rparr>) = dirent_entries H (Regular f) \<and>
    file_ok H K False (Regular \<lparr>lf_inode = i, lf_data = ah_gzip H (lf_data f), lf_mtime = t\<rparr>)"
  using assms good_entries [OF assms(1)] by (auto simp: file_ok_def dirent_entries_def)

text \<open>The rename, and the compression when its clean-up works: the same entries, none of them older than before.\<close>

definition moves :: "'d audit_host \<Rightarrow> bytes set \<Rightarrow> py_str \<Rightarrow> int \<Rightarrow> log_dir \<Rightarrow> log_dir \<Rightarrow> bool" where
  "moves H K path cutoff d d' \<longleftrightarrow> dir_ok H K path d' \<and> entries H path d' = entries H path d \<and>
     old_entries H path cutoff d' \<subseteq># old_entries H path cutoff d \<and> \<not> in_dir d' path"

lemma rename_moves:
  assumes "dir_ok H K path d" "map_of d path = Some (Regular f)" "is_sibling path t" "\<not> in_dir d t"
  shows "moves H K path cutoff d (dict_put t (Regular f) (dir_del path d)) \<and> file_ok H K True (Regular f)"
proof -
  let ?d = "dict_put t (Regular f) (dir_del path d)"
  have dist: "distinct (map fst d)" using assms(1) by (simp add: dir_ok_def)
  have tp: "t \<noteq> path" using assms(3) sibling_not_path by blast
  have g: "weigh g ?d = weigh g d" if "g t (Regular f) = g path (Regular f)" for g
    using weigh_put [of "dir_del path d" t g "Regular f"] weigh_del [OF dist assms(2), of g] assms(4) that by simp
  have ok: "file_ok H K True (Regular f)"
    using assms(1) map_of_SomeD [OF assms(2)] by (auto simp: dir_ok_def tracked_def)
  have "dir_ok H K path ?d" by (rule dir_ok_put [OF dir_ok_del [OF assms(1)]]) (use tp file_ok_rotated [OF ok] in simp)
  then show ?thesis
    using tp assms(3) ok by (simp add: moves_def entries_def old_entries_def g entries_in_def old_in_def tracked_def)
qed

lemma compress_moves:
  assumes "host_ok H K" "moves H K path cutoff d0 d" "map_of d t = Some (Regular f)" "file_ok H K True (Regular f)"
    "is_sibling path t" "is_sibling path (gz_name t)" "\<not> in_dir d (gz_name t)" "cutoff \<le> re_now env"
    "re_gzip env \<noteq> Gz_done \<Longrightarrow> \<exists>e. re_gzip env = Gz_failed e None"
    "compress_rotated_file (ah_gzip H) env d t = (r, d')"
  shows "moves H K path cutoff d0 d'"
proof (cases "re_gzip env")
  case Gz_done
  let ?gz = "Regular \<lparr>lf_inode = re_inode env, lf_data = ah_gzip H (lf_data f), lf_mtime = re_now env\<rparr>"
  let ?d1 = "dict_put (gz_name t) ?gz d"
  have d': "d' = dir_del t ?d1" using assms(3,7,10) Gz_done by (simp add: compress_rotated_file_def audit_path_stat_def Let_def)
  have ok: "dir_ok H K path d" using assms(2) by (simp add: moves_def)
  have ne: "gz_name t \<noteq> t" "t \<noteq> path" "gz_name t \<noteq> path" using assms(5,6) sibling_not_path by (auto simp: gz_name_def str_lit_def)
  note gz = gz_entries [OF assms(1,4), of "re_inode env" "re_now env"]
  have ok1: "dir_ok H K path ?d1" by (rule dir_ok_put [OF ok]) (use gz ne in simp)
  have "map_of ?d1 t = Some (Regular f)" using assms(3) ne by (simp add: map_of_dict_put)
  then have w: "weigh g d' + g t (Regular f) = weigh g d + g (gz_name t) ?gz" for g
    using weigh_del [of ?d1 t "Regular f" g] weigh_put [OF assms(7), of g ?gz] ok1 by (simp add: d' dir_ok_def)
  have "entries H path d' = entries H path d"
    using w [of "entries_in H path"] gz assms(5,6) by (simp add: entries_def entries_in_def tracked_def)
  moreover have "old_entries H path cutoff d' \<subseteq># old_entries H path cutoff d"
    using w [of "old_in H path cutoff"] assms(8) by (simp add: old_entries_def old_in_def mtime_of_def) (metis mset_subset_eq_add_left)
  moreover have "dir_ok H K path d'" unfolding d' by (rule dir_ok_del [OF ok1])
  moreover have "\<not> in_dir d' path" using assms(2) ne by (simp add: d' moves_def)
  ultimately show ?thesis using assms(2) by (auto simp: moves_def intro: subset_mset.order_trans)
next
  case (Gz_failed e left)
  then have "d' = d" using assms(9,10) by (auto simp: compress_rotated_file_def Let_def split: sum.splits option.splits if_splits)
  then show ?thesis using assms(2) by simp
qed

definition rotate_clean :: "rotate_env \<Rightarrow> bool" where
  "rotate_clean env \<longleftrightarrow> re_gzip env = Gz_done \<or> (\<exists>e. re_gzip env = Gz_failed e None)"

lemma rotate_ok:
  assumes "host_ok H K" "dir_ok H K path d" "rotate_clean env" "0 \<le> days"
    "rotate_and_compress (ah_gzip H) env days path date d = (r, d')"
  shows "dir_ok H K path d' \<and> lossy H path (cutoff_of (re_now env) days) d d' {#} \<and> (r = Inr () \<longrightarrow> \<not> in_dir d' path)"
proof (cases "map_of d path")
  case None
  then have "r = Inr ()" "d' = d" using assms(5) by (auto simp: rotate_and_compress_def audit_path_stat_def)
  then show ?thesis using assms(2) lossy_refl None by (simp add: in_dir_iff)
next
  case (Some e)
  let ?c = "cutoff_of (re_now env) days"
  show ?thesis
  proof (cases e)
    case (Special rm t)
    then show ?thesis using Some assms(2,5) lossy_refl by (auto simp: rotate_and_compress_def audit_path_stat_def)
  next
    case (Regular f)
    show ?thesis
    proof (cases "re_replace env")
      case (Some e')
      then show ?thesis using \<open>map_of d path = Some e\<close> Regular assms(2,5) lossy_refl by (auto simp: rotate_and_compress_def audit_path_stat_def)
    next
      case None
      let ?t = "next_rotation_target d path date"
      let ?d1 = "dict_put ?t (Regular f) (dir_del path d)"
      note t = next_target [of d path date]
      have m1: "moves H K path ?c d ?d1" "file_ok H K True (Regular f)"
        using rename_moves [OF assms(2) Some [unfolded Regular], of ?t] t by auto
      obtain r2 d2 where c: "compress_rotated_file (ah_gzip H) env ?d1 ?t = (r2, d2)" by (cases "compress_rotated_file (ah_gzip H) env ?d1 ?t")
      have "cutoff_of (re_now env) days \<le> re_now env" using assms(4) by (simp add: cutoff_of_def)
      then have m2: "moves H K path ?c d d2"
        using compress_moves [OF assms(1) m1(1) _ m1(2) _ _ _ _ _ c] t assms(3)
        by (auto simp: map_of_dict_put rotate_clean_def gz_name_def str_lit_def)
      have res: "(\<exists>e. r2 = Inl e \<and> \<not> is_exception e \<and> r = Inl e \<and> d' = d2) \<or> sweep_retention (re_now env) days path d2 = (r, d')"
        using assms(5) Some Regular None c by (auto simp: rotate_and_compress_def audit_path_stat_def Let_def split: sum.splits if_splits)
      then show ?thesis
      proof
        assume "\<exists>e. r2 = Inl e \<and> \<not> is_exception e \<and> r = Inl e \<and> d' = d2"
        then show ?thesis using m2 by (auto simp: moves_def lossy_def intro: exI [of _ "{#}"])
      next
        assume "sweep_retention (re_now env) days path d2 = (r, d')"
        then show ?thesis
          using sweep_ok [of H K path d2 "re_now env" days r d'] m2 lossy_mono [of H path ?c d2 d' "{#}" ?c d] by (auto simp: moves_def)
      qed
    qed
  qed
qed

end
