(* ===== verification/Audit_Append.thy ===== *)
theory Audit_Append
  imports Audit_Safety
begin

text \<open>
  The contract of the \<open>Writer\<close> protocol as a locale, and both writers as its instances: an append adds exactly its entry or
  nothing, whatever the system calls answer, as long as the roll-back of a failed write and the clean-up of a failed compression
  work; entries are lost only to the retention sweep.
\<close>

text \<open>
  \<open>held\<close> is what the log holds, \<open>old\<close> what the sweep of this call may take.
\<close>

locale entry_log =
  fixes append :: "'x \<Rightarrow> 'e \<Rightarrow> 's \<Rightarrow> unit result \<times> 's" and inv :: "'s \<Rightarrow> bool" and admissible :: "'x \<Rightarrow> 'e \<Rightarrow> bool"
    and held :: "'s \<Rightarrow> 'r multiset" and old :: "'x \<Rightarrow> 's \<Rightarrow> 'r multiset" and stored :: "'x \<Rightarrow> 'e \<Rightarrow> 'r"
  assumes step: "inv s \<Longrightarrow> admissible x e \<Longrightarrow> append x e s = (r, s') \<Longrightarrow>
      inv s' \<and> (\<exists>lost. lost \<subseteq># old x s \<and> held s' + lost = held s + (if r = Inr () then {#stored x e#} else {#}))"
    and old_held: "old x s \<subseteq># held s"
begin

lemma append_exact:
  assumes "inv s" "admissible x e" "append x e s = (r, s')"
  shows "\<exists>lost. lost \<subseteq># old x s \<and> held s' = held s - lost + (if r = Inr () then {#stored x e#} else {#})"
proof -
  obtain lost where l: "lost \<subseteq># old x s" "held s' + lost = held s + (if r = Inr () then {#stored x e#} else {#})"
    using step [OF assms] by blast
  have "lost \<subseteq># held s" using l(1) old_held subset_mset.order_trans by blast
  then have "held s - lost + lost = held s" by simp
  then have "held s' + lost = (held s - lost + (if r = Inr () then {#stored x e#} else {#})) + lost"
    using l(2) by (simp add: ac_simps)
  then have "held s' = held s - lost + (if r = Inr () then {#stored x e#} else {#})" by (simp only: add_right_cancel)
  then show ?thesis using l(1) by blast
qed

definition run :: "('x \<times> 'e) list \<Rightarrow> 's \<Rightarrow> 's" where
  "run xs s = foldl (\<lambda>s (x, e). snd (append x e s)) s xs"

lemma run_bound:
  "inv s \<Longrightarrow> \<forall>(x, e) \<in> set xs. admissible x e \<Longrightarrow> inv (run xs s) \<and> held (run xs s) \<subseteq># held s + mset (map (\<lambda>(x, e). stored x e) xs)"
proof (induction xs arbitrary: s)
  case (Cons p xs)
  obtain x e where p: "p = (x, e)" by (cases p)
  obtain r s' where a: "append x e s = (r, s')" by (cases "append x e s")
  have adm: "admissible x e" using Cons(3) p by simp
  obtain lost where l: "held s' = held s - lost + (if r = Inr () then {#stored x e#} else {#})"
    using append_exact [OF Cons(2) adm a] by blast
  have "held s' \<subseteq># held s + {#stored x e#}"
    unfolding l by (intro subset_mset.add_mono) auto
  moreover have "inv (run xs s') \<and> held (run xs s') \<subseteq># held s' + mset (map (\<lambda>(x, e). stored x e) xs)"
    using Cons(1) [of s'] Cons(3) step [OF Cons(2) adm a] by simp
  ultimately have "held (run xs s') \<subseteq># held s + {#stored x e#} + mset (map (\<lambda>(x, e). stored x e) xs)"
    by (meson subset_mset.add_right_mono subset_mset.order_trans)
  then show ?case using \<open>inv (run xs s') \<and> _\<close> by (simp add: run_def p a ac_simps)
qed (simp add: run_def)

end

section \<open>Entries and lines\<close>

lemma s_bind_assoc: "s_bind (s_bind m f) g = s_bind m (\<lambda>x s. s_bind (f x s) g)"
  by (cases "(m, f)" rule: s_bind.cases) auto

lemma json_ok_put: "json_ok (JObj d) \<Longrightarrow> list_all is_scalar k \<Longrightarrow> json_ok v \<Longrightarrow> json_ok (JObj (dict_put k v d))"
  using set_put_subset [of k v d] by (auto simp: distinct_put)

lemma with_ts_ok:
  assumes "json_ok (JObj entry)" "list_all is_scalar now"
  shows "json_ok (JObj (with_ts now entry)) \<and> str_lit ''ts'' \<in> fst ` set (with_ts now entry)"
proof -
  have step: "json_ok (JObj (foldl (\<lambda>d (k, v). dict_put k v d) d es)) \<and> str_lit ''ts'' \<in> fst ` set (foldl (\<lambda>d (k, v). dict_put k v d) d es)"
    if "json_ok (JObj d)" "str_lit ''ts'' \<in> fst ` set d" "\<forall>(k, v) \<in> set es. list_all is_scalar k \<and> json_ok v" for d es
    using that
  proof (induction es arbitrary: d)
    case (Cons p es)
    obtain k v where p: "p = (k, v)" by (cases p)
    have "json_ok (JObj (dict_put k v d))" using Cons p by (intro json_ok_put) auto
    moreover have "str_lit ''ts'' \<in> fst ` set (dict_put k v d)" using Cons(3) by (simp add: keys_put)
    ultimately show ?case using Cons.IH [of "dict_put k v d"] Cons.prems(3) p by simp
  qed simp
  have "json_ok (JObj [(str_lit ''ts'', JStr now)])" using assms(2) by (simp add: is_scalar_str_lit)
  then show ?thesis
    unfolding with_ts_def by (rule step) (use assms(1) in auto)
qed

lemma nd_serialize_line:
  assumes "nd_serialize (with_ts now entry) = Inr data" "json_ok (JObj entry)" "list_all is_scalar now"
  shows "\<exists>p. data = p @ [10] \<and> plain_line (with_ts now entry) p"
  using assms(1) with_ts_ok [OF assms(2,3)]
  by (auto simp: nd_serialize_def plain_line_def MAX_ENTRY_BYTES_def r_bind_Inr_iff split: if_splits)

lemma read_line_chunks_eq: "read_line_chunks n s = takeWhile (\<lambda>b. b \<noteq> 10) (take n s)"
proof (induction n s rule: read_line_chunks.induct)
  case (1 n s)
  show ?case
  proof (cases "n = 0 \<or> s = []")
    case True
    have "read_line_chunks n s = []" by (subst read_line_chunks.simps) (use True in simp)
    then show ?thesis using True by auto
  next
    case False
    let ?k = "min 4096 n"
    let ?chunk = "take ?k s"
    have split: "take n s = ?chunk @ take (n - ?k) (drop ?k s)"
      by (metis take_add le_add_diff_inverse min.cobounded2)
    show ?thesis
    proof (cases "10 \<in> set ?chunk")
      case True
      have "takeWhile (\<lambda>b. b \<noteq> 10) (?chunk @ take (n - ?k) (drop ?k s)) = takeWhile (\<lambda>b. b \<noteq> 10) ?chunk"
        by (rule takeWhile_append1 [OF True]) simp
      then have "takeWhile (\<lambda>b. b \<noteq> 10) (take n s) = takeWhile (\<lambda>b. b \<noteq> 10) ?chunk"
        by (simp only: split [symmetric])
      then show ?thesis using False True by (subst read_line_chunks.simps) (simp add: Let_def)
    next
      case no: False
      then have line: "takeWhile (\<lambda>b. b \<noteq> 10) ?chunk = ?chunk" by (metis (mono_tags, lifting) takeWhile_eq_all_conv)
      have "read_line_chunks (n - length ?chunk) (drop (length ?chunk) s) = takeWhile (\<lambda>b. b \<noteq> 10) (take (n - length ?chunk) (drop (length ?chunk) s))"
        using 1 [OF False refl refl no] by (simp only: line)
      moreover have "takeWhile (\<lambda>b. b \<noteq> 10) (take n s) = ?chunk @ takeWhile (\<lambda>b. b \<noteq> 10) (take (n - length ?chunk) (drop (length ?chunk) s))"
      proof (cases "length s \<le> ?k")
        case True
        then show ?thesis using no by (auto simp: takeWhile_eq_all_conv)
      next
        case False
        then have "?k \<le> length s" by linarith
        then have "length ?chunk = ?k" by (simp only: length_take min.absorb2)
        have "takeWhile (\<lambda>b. b \<noteq> 10) (?chunk @ take (n - ?k) (drop ?k s)) = ?chunk @ takeWhile (\<lambda>b. b \<noteq> 10) (take (n - ?k) (drop ?k s))"
          by (rule takeWhile_append2) (use no in blast)
        then show ?thesis unfolding split [symmetric] using \<open>length ?chunk = ?k\<close> by (simp only:)
      qed
      ultimately show ?thesis using False no by (subst read_line_chunks.simps) (simp add: Let_def line)
    qed
  qed
qed

lemma write_loop_prefix: "write_loop as data c = (out, c') \<Longrightarrow> (\<exists>k. c' = c @ take k data) \<and> (out = None \<longrightarrow> c' = c @ data)"
proof (induction as data c arbitrary: c' rule: write_loop.induct)
  case (3 n as view c)
  show ?case
  proof (cases "view = [] \<or> n = 0")
    case True
    then show ?thesis using 3(2) by (auto intro: exI [of _ 0] split: if_splits)
  next
    case False
    then have "write_loop as (drop n view) (c @ take n view) = (out, c')" using 3(2) by simp
    from 3(1) [OF _ _ this] False obtain k where k: "c' = (c @ take n view) @ take k (drop n view)" "out = None \<longrightarrow> c' = (c @ take n view) @ drop n view"
      by blast
    then have "c' = c @ take (n + k) view" by (simp add: take_add)
    then show ?thesis using k(2) by auto
  qed
next
  case (1 view c)
  then show ?case by (auto intro: exI [of _ "length view"])
qed (auto intro: exI [of _ 0] split: if_splits)

lemma write_all_whole:
  assumes "write_all as True data (length c) c = (r, c')"
  shows "(r = Inr () \<and> c' = c @ data) \<or> (\<exists>e. r = Inl e) \<and> c' = c"
proof -
  obtain out c1 where w: "write_loop as data c = (out, c1)" by (cases "write_loop as data c")
  then show ?thesis using assms write_loop_prefix [OF w] by (auto simp: write_all_def split: option.splits)
qed

lemma nd_write_whole:
  assumes "nd_write as True data c = (r, c')"
  shows "(r = Inr () \<and> c' = c @ data) \<or> (\<exists>e. r = Inl e) \<and> c' = c"
proof -
  obtain out c1 where w: "write_loop as data c = (out, c1)" by (cases "write_loop as data c")
  then show ?thesis using assms write_loop_prefix [OF w] by (auto simp: nd_write_def split: option.splits if_splits)
qed

section \<open>The plaintext writer\<close>

lemma good_append: "plain_file c es \<Longrightarrow> plain_line e p \<Longrightarrow> plain_file (c @ p @ [10]) (es @ [e])"
proof -
  assume "plain_file c es" "plain_line e p"
  then obtain ps where ps: "c = concat (map (\<lambda>p. p @ [10]) ps)" "list_all2 plain_line es ps" by (auto simp: plain_file_def)
  then have "c @ p @ [10] = concat (map (\<lambda>p. p @ [10]) (ps @ [p]))" "list_all2 plain_line (es @ [e]) (ps @ [p])"
    using \<open>plain_line e p\<close> by (simp_all add: list_all2_appendI)
  then show ?thesis unfolding plain_file_def by blast
qed

lemma plain_empty: "plain_file [] []"
  by (auto simp: plain_file_def intro: exI [of _ "[]"])

text \<open>The active file is replaced or created with well-formed content.\<close>

lemma put_active:
  assumes "host_ok H K" "dir_ok H K path d" "good_log H K c0 es0" "good_log H K (lf_data f) es"
    "(\<exists>f0. map_of d path = Some (Regular f0) \<and> lf_data f0 = c0) \<or> (\<not> in_dir d path \<and> es0 = [])"
  shows "dir_ok H K path (dict_put path (Regular f) d) \<and>
    entries H path (dict_put path (Regular f) d) + mset (map sorted_entry es0) = entries H path d + mset (map sorted_entry es)"
proof -
  have e: "entries_in H path path (Regular f) = mset (map sorted_entry es)" "\<And>f0. lf_data f0 = c0 \<Longrightarrow> entries_in H path path (Regular f0) = mset (map sorted_entry es0)"
    using good_entries [OF assms(1,4)] good_entries [OF assms(1,3)] by (auto simp: entries_in_def tracked_def dirent_entries_def)
  have "dir_ok H K path (dict_put path (Regular f) d)"
    by (rule dir_ok_put [OF assms(2)]) (use assms(4) in \<open>auto simp: file_ok_def\<close>)
  moreover have "entries H path (dict_put path (Regular f) d) + mset (map sorted_entry es0) = entries H path d + mset (map sorted_entry es)"
    using assms(5)
  proof
    assume "\<exists>f0. map_of d path = Some (Regular f0) \<and> lf_data f0 = c0"
    then obtain f0 where "map_of d path = Some (Regular f0)" "lf_data f0 = c0" by blast
    then show ?thesis using weigh_replace [of d path "Regular f0" "entries_in H path" "Regular f"] e by (simp add: entries_def)
  next
    assume "\<not> in_dir d path \<and> es0 = []"
    then show ?thesis using weigh_put [of d path "entries_in H path" "Regular f"] e by (simp add: entries_def)
  qed
  ultimately show ?thesis by blast
qed

lemma active_good: "dir_ok H K path d \<Longrightarrow> map_of d path = Some (Regular f) \<Longrightarrow> \<exists>es. good_log H K (lf_data f) es"
  using map_of_SomeD by (fastforce simp: dir_ok_def tracked_def file_ok_def)

text \<open>What an open for writing gives: the active file, or a new empty one.\<close>

lemma open_for_writing_Inr:
  "open_for_writing excl io ino now d path = Inr f \<longleftrightarrow> io = None \<and>
     ((map_of d path = Some (Regular f) \<and> \<not> excl) \<or> (map_of d path = None \<and> f = \<lparr>lf_inode = ino, lf_data = [], lf_mtime = now\<rparr>))"
  by (auto simp: open_for_writing_def audit_path_stat_def r_bind_Inr_iff split: option.splits dirent.splits)

lemma first_line: "10 \<notin> set h \<Longrightarrow> takeWhile (\<lambda>b. b \<noteq> 10) (h @ (10 :: byte) # s) = h"
  by (induction h) auto

lemma first_line_mral:
  assumes "host_ok H K" "mral_file H K h dek c es"
  shows "read_line_chunks 4001 c = h"
proof -
  obtain lines where m: "own_header H K h dek" "c = h @ 10 # concat lines" using assms(2) by (auto simp: mral_file_def)
  note h = own_header_unwrap [OF assms(1) m(1)]
  then have "take 4001 (h @ 10 # concat lines) = h @ 10 # take (4000 - length h) (concat lines)" by (simp add: take_Cons')
  then show ?thesis using h first_line by (simp add: read_line_chunks_eq m(2))
qed

text \<open>The check before a plaintext append accepts plaintext files only.\<close>

lemma safe_is_plain:
  assumes "host_ok H K" "dir_ok H K path d" "assert_plaintext_append_safe d io path = Inr ()" "map_of d path = Some (Regular f)"
  shows "\<exists>es. plain_file (lf_data f) es"
proof -
  obtain es where g: "good_log H K (lf_data f) es" using active_good [OF assms(2,4)] by blast
  have "\<not> mral_file H K h dek (lf_data f) es" for h dek
  proof
    assume mral: "mral_file H K h dek (lf_data f) es"
    then have m: "own_header H K h dek" by (simp add: mral_file_def)
    note h = own_header_unwrap [OF assms(1) m]
    have "read_line_chunks 4001 (lf_data f) = h" using first_line_mral [OF assms(1) mral] .
    moreover obtain hd where "loads h = Inr (JObj hd)" "obj_get hd ''fmt'' = jstr MRAL_FMT" "h \<noteq> []" using h by auto
    ultimately have "assert_plaintext_append_safe d io path \<noteq> Inr ()"
      using assms(4) by (auto simp: assert_plaintext_append_safe_def read_first_line_def audit_path_stat_def MAX_ENTRY_BYTES_def r_bind_Inr_iff split: option.splits)
    then show False using assms(3) by simp
  qed
  then show ?thesis using g by (auto simp: good_log_def)
qed

definition nd_inv :: "'d audit_host \<Rightarrow> bytes set \<Rightarrow> nd_writer \<times> log_dir \<Rightarrow> bool" where
  "nd_inv H K s \<longleftrightarrow> dir_ok H K (nd_path (fst s)) (snd s) \<and> 0 \<le> nd_retention_days (fst s)"

definition nd_admissible :: "append_env \<Rightarrow> kvs \<Rightarrow> bool" where
  "nd_admissible env entry \<longleftrightarrow> json_ok (JObj entry) \<and> list_all is_scalar (ae_ts env) \<and> ae_truncates env \<and> rotate_clean (ae_rotate env)"

definition nd_cutoff :: "append_env \<Rightarrow> nd_writer \<Rightarrow> int" where
  "nd_cutoff env w = cutoff_of (re_now (ae_rotate env)) (nd_retention_days w)"

lemma nd_write_file_ok:
  assumes "host_ok H K" "dir_ok H K path d" "plain_line e p" "ae_truncates env"
    "\<And>f. map_of d path = Some (Regular f) \<Longrightarrow> \<exists>es. plain_file (lf_data f) es"
    "nd_write_file env path (p @ [10]) d = (r, d')"
  shows "dir_ok H K path d' \<and> entries H path d' = entries H path d + (if r = Inr () then {#sorted_entry e#} else {#})"
proof (cases "open_for_writing False (ae_open env) (ae_inode env) (ae_now env) d path")
  case (Inl x)
  then show ?thesis using assms(2,6) by (auto simp: nd_write_file_def)
next
  case (Inr f)
  obtain c where c: "nd_write (ae_writes env) True (p @ [10]) (lf_data f) = (r, c)" "d' = dict_put path (Regular (f\<lparr>lf_data := c, lf_mtime := ae_now env\<rparr>)) d"
    using assms(4,6) Inr by (auto simp: nd_write_file_def put_file_def split: prod.splits)
  obtain es where es: "plain_file (lf_data f) es" "(\<exists>f0. map_of d path = Some (Regular f0) \<and> lf_data f0 = lf_data f) \<or> (\<not> in_dir d path \<and> es = [])"
    using Inr assms(5) plain_empty by (fastforce simp: open_for_writing_Inr in_dir_iff)
  have g0: "good_log H K (lf_data f) es" using es(1) by (simp add: good_log_def)
  from nd_write_whole [OF c(1)] show ?thesis
  proof
    assume w: "r = Inr () \<and> c = lf_data f @ p @ [10]"
    then have "good_log H K c (es @ [e])" using good_append [OF es(1) assms(3)] by (simp add: good_log_def)
    then show ?thesis
      using put_active [OF assms(1,2) g0, of "f\<lparr>lf_data := c, lf_mtime := ae_now env\<rparr>" "es @ [e]"] es(2) w c(2)
      by (simp add: ac_simps)
  next
    assume w: "(\<exists>x. r = Inl x) \<and> c = lf_data f"
    then show ?thesis
      using put_active [OF assms(1,2) g0, of "f\<lparr>lf_data := c, lf_mtime := ae_now env\<rparr>" es] es(2) g0 c(2) by auto
  qed
qed

lemma nd_maybe_rotate_ok:
  assumes "host_ok H K" "nd_inv H K (w, d)" "rotate_clean (ae_rotate env)" "nd_maybe_rotate (ah_gzip H) env w incoming d = (r, w', d')"
  shows "nd_inv H K (w', d') \<and> lossy H (nd_path w) (nd_cutoff env w) d d' {#} \<and> nd_path w' = nd_path w \<and>
    (r = Inr () \<longrightarrow> d' = d \<or> \<not> in_dir d' (nd_path w))"
proof -
  have same: "r = r' \<Longrightarrow> w' = w \<or> w' = w\<lparr>nd_last_date := ae_today env\<rparr> \<Longrightarrow> d' = d \<Longrightarrow> ?thesis" for r'
    using assms(2) lossy_refl by (auto simp: nd_inv_def)
  have rot: "?thesis" if "rotate_and_compress (ah_gzip H) (ae_rotate env) (nd_retention_days w) (nd_path w) date d = (r1, d')"
    "r = r1" "w' = w \<or> w' = w\<lparr>nd_last_date := ae_today env\<rparr>" for date r1
    using rotate_ok [OF assms(1) _ assms(3) _ that(1)] assms(2) that(2,3) by (auto simp: nd_inv_def nd_cutoff_def)
  show ?thesis
  proof (cases "audit_path_stat d (nd_path w)")
    case (Inl e)
    then have "r = Inl e" "w' = w" "d' = d" using assms(4) by (simp_all add: nd_maybe_rotate_def)
    then show ?thesis by (intro same) auto
  next
    case (Inr m)
    define due where "due = (case m of
        None \<Rightarrow> None
      | Some f \<Rightarrow> if nd_last_date w \<noteq> [] \<and> nd_last_date w \<noteq> ae_today env then Some (nd_last_date w)
                   else if nd_rotate_bytes w < int (length (lf_data f) + incoming) then Some (ae_today env) else None)"
    have m: "nd_maybe_rotate (ah_gzip H) env w incoming d = (case due of
        None \<Rightarrow> (Inr (), w\<lparr>nd_last_date := ae_today env\<rparr>, d)
      | Some date \<Rightarrow>
          (case rotate_and_compress (ah_gzip H) (ae_rotate env) (nd_retention_days w) (nd_path w) date d of
             (Inl e, d') \<Rightarrow> (Inl e, w, d')
           | (Inr _, d') \<Rightarrow> (Inr (), w\<lparr>nd_last_date := ae_today env\<rparr>, d')))"
      by (simp add: nd_maybe_rotate_def Inr due_def Let_def)
    show ?thesis
    proof (cases due)
      case None
      then have "r = Inr ()" "w' = w\<lparr>nd_last_date := ae_today env\<rparr>" "d' = d" using m assms(4) by simp_all
      then show ?thesis by (intro same) auto
    next
      case (Some date)
      obtain r1 d1 where rc: "rotate_and_compress (ah_gzip H) (ae_rotate env) (nd_retention_days w) (nd_path w) date d = (r1, d1)"
        by (cases "rotate_and_compress (ah_gzip H) (ae_rotate env) (nd_retention_days w) (nd_path w) date d")
      have "r = r1 \<and> d' = d1 \<and> (w' = w \<or> w' = w\<lparr>nd_last_date := ae_today env\<rparr>)"
        using assms(4) m Some rc by (cases r1) simp_all
      then show ?thesis using rc by (intro rot [of date r1]) auto
    qed
  qed
qed

lemma nd_append_ok:
  assumes "host_ok H K" "nd_inv H K (w, d)" "nd_admissible env entry" "nd_append (ah_gzip H) env entry (w, d) = (r, w', d')"
  shows "nd_inv H K (w', d') \<and> nd_path w' = nd_path w \<and>
    lossy H (nd_path w) (nd_cutoff env w) d d' (if r = Inr () then {#sorted_entry (with_ts (ae_ts env) entry)#} else {#})"
proof -
  let ?e = "with_ts (ae_ts env) entry"
  have adm: "json_ok (JObj entry)" "list_all is_scalar (ae_ts env)" "ae_truncates env" "rotate_clean (ae_rotate env)"
    using assms(3) by (auto simp: nd_admissible_def)
  have same: ?thesis if "r = Inl x" "w' = w" "d' = d" for x using that assms(2) lossy_refl by auto
  show ?thesis
  proof (cases "nd_serialize ?e")
    case (Inl x)
    then show ?thesis using assms(4) by (intro same [of x]) (auto simp: nd_append_def)
  next
    case (Inr data)
    then obtain p where p: "data = p @ [10]" "plain_line ?e p" using nd_serialize_line adm by blast
    let ?g = "r_bind (ae_lock env) (\<lambda>_. assert_plaintext_append_safe d (ae_read env) (nd_path w))"
    show ?thesis
    proof (cases ?g)
      case (Inl x)
      then show ?thesis using assms(4) Inr by (intro same [of x]) (auto simp: nd_append_def)
    next
      case ok: (Inr u)
      obtain r1 w1 d1 where m: "nd_maybe_rotate (ah_gzip H) env w (length data) d = (r1, w1, d1)" by (metis prod_cases3)
      note rot = nd_maybe_rotate_ok [OF assms(1,2) adm(4) m]
      show ?thesis
      proof (cases r1)
        case (Inl x)
        then have "r = Inl x" "w' = w1" "d' = d1" using assms(4) Inr ok m by (auto simp: nd_append_def)
        then show ?thesis using rot by simp
      next
        case (Inr u')
        obtain r2 d2 where wr: "nd_write_file env (nd_path w1) data d1 = (r2, d2)" by (cases "nd_write_file env (nd_path w1) data d1")
        have res: "r = r2" "w' = w1" "d' = d2" using assms(4) \<open>nd_serialize ?e = Inr data\<close> ok m Inr wr by (auto simp: nd_append_def)
        have plain: "\<exists>es. plain_file (lf_data f) es" if "map_of d1 (nd_path w) = Some (Regular f)" for f
        proof -
          have "d1 = d" using rot Inr that by (auto simp: in_dir_iff)
          moreover have "assert_plaintext_append_safe d (ae_read env) (nd_path w) = Inr ()" using ok by (auto simp: r_bind_Inr_iff)
          ultimately show ?thesis using safe_is_plain [OF assms(1) _ _ ] assms(2) that by (auto simp: nd_inv_def)
        qed
        have d1: "dir_ok H K (nd_path w) d1" "nd_path w1 = nd_path w" using rot by (auto simp: nd_inv_def)
        have "dir_ok H K (nd_path w) d2 \<and> entries H (nd_path w) d2 = entries H (nd_path w) d1 + (if r2 = Inr () then {#sorted_entry ?e#} else {#})"
          by (rule nd_write_file_ok [OF assms(1) d1(1) p(2) adm(3) plain]) (use wr d1 p(1) in auto)
        then show ?thesis
          using rot lossy_then [of H "nd_path w" _ d d1 "{#}" d2] res by (auto simp: nd_inv_def)
      qed
    qed
  qed
qed

lemma old_sub: "old_entries H path c d \<subseteq># entries H path d"
proof (induction d)
  case (Cons p d)
  obtain n e where p: "p = (n, e)" by (cases p)
  show ?case
    using Cons by (auto simp: p old_entries_def entries_def old_in_def intro: sub_add)
qed (simp add: old_entries_def entries_def)

text \<open>The instance; the invariant needs the host's laws, so a host without them has an empty instance.\<close>

interpretation nd: entry_log "nd_append (ah_gzip H)" "\<lambda>s. host_ok H K \<and> nd_inv H K s" nd_admissible
  "\<lambda>s. entries H (nd_path (fst s)) (snd s)" "\<lambda>env s. old_entries H (nd_path (fst s)) (nd_cutoff env (fst s)) (snd s)"
  "\<lambda>env entry. sorted_entry (with_ts (ae_ts env) entry)" for H K
proof (unfold_locales, goal_cases)
  case (1 s env entry r s')
  obtain w d w' d' where s: "s = (w, d)" "s' = (w', d')" by (cases s, cases s')
  show ?case using nd_append_ok [of H K w d env entry r w' d'] 1 by (auto simp: s lossy_def)
qed (simp add: old_sub)

section \<open>The encrypted writer\<close>

definition enc_ok :: "'d audit_host \<Rightarrow> bytes set \<Rightarrow> enc_writer \<Rightarrow> bool" where
  "enc_ok H K w \<longleftrightarrow> 0 \<le> ew_retention_days w \<and> (\<exists>n. log_key (ah_root H) (ew_native_key_id w) n) \<and>
     (\<forall>dek. ew_dek w = Some dek \<longrightarrow> own_header H K (ew_header w) dek \<and> ew_aad w = entry_aad (ew_header w))"

definition enc_inv :: "'d audit_host \<Rightarrow> bytes set \<Rightarrow> enc_writer \<times> log_dir \<Rightarrow> bool" where
  "enc_inv H K s \<longleftrightarrow> dir_ok H K (ew_path (fst s)) (snd s) \<and> enc_ok H K (fst s)"

definition enc_admissible :: "bytes set \<Rightarrow> enc_env \<Rightarrow> kvs \<Rightarrow> bool" where
  "enc_admissible K env entry \<longleftrightarrow> nd_admissible (ee_append env) entry \<and> length (ee_nonce env) = 12 \<and>
     av_truncates (ee_active env) \<and> rotate_clean (av_rotate (ee_active env)) \<and> length (av_dek (ee_active env)) = 32 \<and> av_ephemeral (ee_active env) \<in> K"

definition enc_cutoff :: "enc_env \<Rightarrow> enc_writer \<Rightarrow> int" where
  "enc_cutoff env w = max (cutoff_of (re_now (ae_rotate (ee_append env))) (ew_retention_days w))
     (cutoff_of (re_now (av_rotate (ee_active env))) (ew_retention_days w))"

text \<open>The active file is the one the cached key belongs to.\<close>

definition owned :: "'d audit_host \<Rightarrow> bytes set \<Rightarrow> enc_writer \<times> log_dir \<Rightarrow> bool" where
  "owned H K s \<longleftrightarrow> (\<forall>dek. ew_dek (fst s) = Some dek \<longrightarrow>
     (\<exists>f es. map_of (snd s) (ew_path (fst s)) = Some (Regular f) \<and> mral_file H K (ew_header (fst s)) dek (lf_data f) es))"

lemma wipe_ok: "enc_ok H K w \<Longrightarrow> enc_ok H K (wipe_dek w)"
  by (simp add: enc_ok_def wipe_dek_def)

lemma wipe_simps [simp]: "ew_path (wipe_dek w) = ew_path w" "ew_dek (wipe_dek w) = None" "ew_retention_days (wipe_dek w) = ew_retention_days w"
  by (simp_all add: wipe_dek_def)

text \<open>A file whose first line is a header of this host is encrypted under the header's key.\<close>

lemma header_line_owned:
  assumes "host_ok H K" "good_log H K c es" "own_header H K h dek" "read_line_chunks 4001 c = h"
  shows "mral_file H K h dek c es"
proof -
  note h = own_header_unwrap [OF assms(1,3)]
  have "\<not> plain_file c es"
  proof
    assume "plain_file c es"
    then obtain ps where ps: "c = concat (map (\<lambda>p. p @ [10]) ps)" "list_all2 plain_line es ps" by (auto simp: plain_file_def)
    show False
    proof (cases ps)
      case Nil
      then show False using assms(4) ps(1) h by (auto simp: read_line_chunks_eq)
    next
      case (Cons p ps')
      then obtain e where e: "plain_line e p" using ps(2) by (auto simp: list_all2_Cons2)
      note p = plain_line_read [OF e]
      have "length p < 4000" using e by (simp add: plain_line_def)
      then have "take 4001 c = p @ 10 # take (4000 - length p) (concat (map (\<lambda>p. p @ [10]) ps'))"
        by (simp add: ps(1) Cons take_Cons')
      then have "h = p" using assms(4) p first_line by (simp add: read_line_chunks_eq)
      then show False using h p by auto
    qed
  qed
  then obtain h' dek' where m: "mral_file H K h' dek' c es" using assms(2) by (auto simp: good_log_def)
  then have "h' = h" using first_line_mral [OF assms(1) m] assms(4) by simp
  moreover have "dek' = dek" using own_header_dek [OF assms(1) _ assms(3)] m \<open>h' = h\<close> by (auto simp: mral_file_def)
  ultimately show ?thesis using m by simp
qed

lemma refresh_ok:
  assumes "host_ok H K" "enc_inv H K (w, d)" "refresh_active_ownership io d w = Inr w'"
  shows "enc_inv H K (w', d) \<and> owned H K (w', d) \<and> ew_path w' = ew_path w \<and> ew_retention_days w' = ew_retention_days w"
proof (cases "w' = wipe_dek w")
  case True
  then show ?thesis using assms(2) wipe_ok by (auto simp: enc_inv_def owned_def)
next
  case False
  show ?thesis
  proof (cases "ew_dek w")
    case None
    then show ?thesis using assms(2,3) by (auto simp: refresh_active_ownership_def owned_def)
  next
    case (Some dek)
    then obtain f where f: "map_of d (ew_path w) = Some (Regular f)" "read_line_chunks 4001 (lf_data f) = ew_header w" "w' = w"
      using assms(3) False
      by (auto simp: refresh_active_ownership_def r_bind_Inr_iff audit_path_stat_def read_first_line_def Let_def MAX_ENTRY_BYTES_def
          split: option.splits dirent.splits if_splits)
    obtain es where "good_log H K (lf_data f) es" using active_good [of H K "ew_path w" d f] assms(2) f(1) by (auto simp: enc_inv_def)
    moreover have "own_header H K (ew_header w) dek" using assms(2) Some by (auto simp: enc_inv_def enc_ok_def)
    ultimately have "mral_file H K (ew_header w) dek (lf_data f) es" using header_line_owned [OF assms(1)] f(2) by blast
    then show ?thesis using assms(2) f Some by (auto simp: owned_def)
  qed
qed

lemma enc_maybe_rotate_ok:
  assumes "host_ok H K" "enc_inv H K (w, d)" "owned H K (w, d)" "rotate_clean (ae_rotate env)"
    "enc_maybe_rotate (ah_gzip H) env incoming (w, d) = (r, w', d')"
  shows "enc_inv H K (w', d') \<and> lossy H (ew_path w) (cutoff_of (re_now (ae_rotate env)) (ew_retention_days w)) d d' {#} \<and>
    ew_path w' = ew_path w \<and> ew_retention_days w' = ew_retention_days w \<and>
    (r = Inr () \<longrightarrow> owned H K (w', d') \<and> (d' = d \<or> ew_dek w' = None \<and> \<not> in_dir d' (ew_path w)))"
proof (cases "audit_path_stat d (ew_path w)")
  case (Inl e)
  then have "r = Inl e" "w' = w" "d' = d" using assms(5) by (simp_all add: enc_maybe_rotate_def)
  then show ?thesis using assms(2) lossy_refl by simp
next
  case (Inr m)
  define due where "due = (case (ew_dek w, m) of
      (Some _, Some f) \<Rightarrow> if ew_last_date w \<noteq> [] \<and> ew_last_date w \<noteq> ae_today env then Some (ew_last_date w)
                     else if ew_rotate_bytes w < int (length (lf_data f) + incoming) then Some (ae_today env) else None
    | _ \<Rightarrow> None)"
  have m: "enc_maybe_rotate (ah_gzip H) env incoming (w, d) = (case due of
      None \<Rightarrow> (Inr (), w\<lparr>ew_last_date := ae_today env\<rparr>, d)
    | Some date \<Rightarrow>
        (case rotate_and_compress (ah_gzip H) (ae_rotate env) (ew_retention_days w) (ew_path w) date d of
           (Inl e, d') \<Rightarrow> (Inl e, w, d')
         | (Inr _, d') \<Rightarrow> (Inr (), (wipe_dek w)\<lparr>ew_last_date := ae_today env\<rparr>, d')))"
    by (simp add: enc_maybe_rotate_def Inr due_def Let_def)
  show ?thesis
  proof (cases due)
    case None
    then have "r = Inr ()" "w' = w\<lparr>ew_last_date := ae_today env\<rparr>" "d' = d" using m assms(5) by simp_all
    then show ?thesis using assms(2,3) lossy_refl by (simp add: enc_inv_def enc_ok_def owned_def)
  next
    case (Some date)
    obtain r1 d1 where rc: "rotate_and_compress (ah_gzip H) (ae_rotate env) (ew_retention_days w) (ew_path w) date d = (r1, d1)"
      by (cases "rotate_and_compress (ah_gzip H) (ae_rotate env) (ew_retention_days w) (ew_path w) date d")
    have res: "r = r1" "d' = d1" "w' = (if r1 = Inr () then (wipe_dek w)\<lparr>ew_last_date := ae_today env\<rparr> else w)"
      using assms(5) unfolding m Some by (cases r1; auto simp: rc)+
    have "dir_ok H K (ew_path w) d1 \<and> lossy H (ew_path w) (cutoff_of (re_now (ae_rotate env)) (ew_retention_days w)) d d1 {#} \<and>
        (r1 = Inr () \<longrightarrow> \<not> in_dir d1 (ew_path w))"
      using rotate_ok [OF assms(1) _ assms(4) _ rc] assms(2) by (auto simp: enc_inv_def enc_ok_def)
    moreover have "enc_ok H K w'" using wipe_ok [of H K w] assms(2) res by (auto simp: enc_inv_def enc_ok_def)
    ultimately show ?thesis using res by (auto simp: enc_inv_def owned_def)
  qed
qed

lemma header_only: "own_header H K h dek \<Longrightarrow> mral_file H K h dek (h @ [10]) []"
  by (auto simp: mral_file_def intro: exI [of _ "[]"])

lemma start_file_ok:
  assumes "host_ok H K" "enc_inv H K (w, d)" "ew_dek w = None" "\<not> in_dir d (ew_path w)"
    "av_truncates env" "length (av_dek env) = 32" "av_ephemeral env \<in> K" "start_file H env (w, d) = (r, w', d')"
  shows "enc_inv H K (w', d') \<and> entries H (ew_path w) d' = entries H (ew_path w) d \<and> ew_path w' = ew_path w \<and>
    (\<forall>dek aad. r = Inr (dek, aad) \<longrightarrow> owned H K (w', d') \<and> ew_dek w' = Some dek \<and> aad = entry_aad (ew_header w'))"
proof -
  have same: ?thesis if "r = Inl x" "w' = w" "d' = d" for x using that assms(2) by simp
  let ?nk = "ew_native_key_id w"
  let ?m = "r_bind (wrap_dek (ah_crypto H) (log_backend H ?nk) (ah_device H) (av_ephemeral env) (av_dek env) AUDIT_LOG_KEY_ID ?nk)
             (\<lambda>wrapped. make_log_header wrapped AUDIT_LOG_KEY_ID ?nk)"
  show ?thesis
  proof (cases ?m)
    case (Inl x)
    then show ?thesis using assms(8) by (intro same [of x]) (auto simp: start_file_def Let_def)
  next
    case h: (Inr h)
    have own: "own_header H K h (av_dek env)"
      using h assms(2,6,7) by (auto simp: own_header_def enc_inv_def enc_ok_def r_bind_Inr_iff)
    show ?thesis
    proof (cases "open_for_writing True (av_open env) (av_inode env) (av_now env) d (ew_path w)")
      case (Inl x)
      then show ?thesis using assms(8) h by (intro same [of x]) (auto simp: start_file_def Let_def)
    next
      case (Inr f)
      then have f: "lf_data f = []" by (auto simp: open_for_writing_Inr)
      obtain r1 c where c: "write_all (av_writes env) True (h @ [10]) (length ([] :: bytes)) [] = (r1, c)" by (cases "write_all (av_writes env) True (h @ [10]) (length ([] :: bytes)) []")
      have res: "d' = dict_put (ew_path w) (Regular (f\<lparr>lf_data := c, lf_mtime := av_now env\<rparr>)) d"
        "(case r1 of Inl x \<Rightarrow> r = Inl x \<and> w' = w
          | Inr _ \<Rightarrow> r = Inr (av_dek env, entry_aad h) \<and>
              w' = w\<lparr>ew_dek := Some (av_dek env), ew_aad := entry_aad h, ew_header := h, ew_identity := Some (lf_inode f)\<rparr>)"
        using assms(5,8) h Inr c f by (auto simp: start_file_def Let_def put_file_def split: sum.splits)
      have e: "good_log H K [] []" using plain_empty by (simp add: good_log_def)
      have ok: "dir_ok H K (ew_path w) d" using assms(2) by (simp add: enc_inv_def)
      from write_all_whole [OF c] show ?thesis
      proof
        assume w: "r1 = Inr () \<and> c = [] @ h @ [10]"
        then have m: "mral_file H K h (av_dek env) c []" using header_only [OF own] by simp
        then have "good_log H K c []" by (auto simp: good_log_def)
        then have "dir_ok H K (ew_path w) d' \<and> entries H (ew_path w) d' = entries H (ew_path w) d"
          using put_active [OF assms(1) ok e, of "f\<lparr>lf_data := c, lf_mtime := av_now env\<rparr>" "[]"] assms(4) res(1) by simp
        then show ?thesis
          using res w m own assms(2) by (auto simp: enc_inv_def enc_ok_def owned_def map_of_dict_put)
      next
        assume w: "(\<exists>x. r1 = Inl x) \<and> c = []"
        then have "dir_ok H K (ew_path w) d' \<and> entries H (ew_path w) d' = entries H (ew_path w) d"
          using put_active [OF assms(1) ok e, of "f\<lparr>lf_data := c, lf_mtime := av_now env\<rparr>" "[]"] assms(4) res(1) e by simp
        then show ?thesis using res w assms(2) by (auto simp: enc_inv_def)
      qed
    qed
  qed
qed

lemma lossy_cutoff: "lossy H path c d d' new \<Longrightarrow> c \<le> c' \<Longrightarrow> lossy H path c' d d' new"
  using old_cutoff subset_mset.order_trans unfolding lossy_def by blast

lemma lossy_none: "entries H path d' = entries H path d \<Longrightarrow> lossy H path c d d' {#}"
  by (auto simp: lossy_def intro: exI [of _ "{#}"])

lemma start_retention: "start_file H env (w, d) = (r, w', d') \<Longrightarrow> ew_retention_days w' = ew_retention_days w"
  by (auto simp: start_file_def Let_def split: sum.splits prod.splits)

lemma enc_active_ok:
  assumes "host_ok H K" "enc_inv H K (w, d)" "owned H K (w, d)" "rotate_clean (av_rotate env)"
    "av_truncates env" "length (av_dek env) = 32" "av_ephemeral env \<in> K" "enc_active H env (w, d) = (r, w', d')"
  shows "enc_inv H K (w', d') \<and> lossy H (ew_path w) (cutoff_of (re_now (av_rotate env)) (ew_retention_days w)) d d' {#} \<and>
    ew_path w' = ew_path w \<and> ew_retention_days w' = ew_retention_days w \<and>
    (ew_dek w = None \<and> \<not> in_dir d (ew_path w) \<longrightarrow> entries H (ew_path w) d' = entries H (ew_path w) d) \<and>
    (\<forall>dek aad. r = Inr (dek, aad) \<longrightarrow> owned H K (w', d') \<and> ew_dek w' = Some dek \<and> aad = entry_aad (ew_header w'))"
proof (cases "ew_dek w")
  case (Some dek)
  then have "r = Inr (dek, ew_aad w)" "w' = w" "d' = d" using assms(8) by (auto simp: enc_active_def)
  then show ?thesis using assms(2,3) Some lossy_refl by (auto simp: enc_inv_def enc_ok_def)
next
  case None
  show ?thesis
  proof (cases "audit_path_stat d (ew_path w)")
    case (Inl e)
    then have "r = Inl e" "w' = w" "d' = d" using assms(8) None by (simp_all add: enc_active_def)
    then show ?thesis using assms(2) lossy_refl by simp
  next
    case (Inr m)
    show ?thesis
    proof (cases m)
      case None
      then have "\<not> in_dir d (ew_path w)" using Inr by (auto simp: in_dir_iff audit_path_stat_def split: option.splits dirent.splits)
      moreover have "start_file H env (w, d) = (r, w', d')" using assms(8) Inr None \<open>ew_dek w = None\<close> by (simp add: enc_active_def)
      ultimately show ?thesis
        using start_file_ok [OF assms(1,2) \<open>ew_dek w = None\<close> _ assms(5-7), of r w' d'] start_retention lossy_none by blast
    next
      case (Some f)
      then have present: "in_dir d (ew_path w)" using Inr by (auto simp: in_dir_iff audit_path_stat_def split: option.splits dirent.splits)
      obtain r1 d1 where rc: "rotate_and_compress (ah_gzip H) (av_rotate env) (ew_retention_days w) (ew_path w) (av_today env) d = (r1, d1)"
        by (cases "rotate_and_compress (ah_gzip H) (av_rotate env) (ew_retention_days w) (ew_path w) (av_today env) d")
      have rot: "dir_ok H K (ew_path w) d1 \<and> lossy H (ew_path w) (cutoff_of (re_now (av_rotate env)) (ew_retention_days w)) d d1 {#} \<and>
          (r1 = Inr () \<longrightarrow> \<not> in_dir d1 (ew_path w))"
        using rotate_ok [OF assms(1) _ assms(4) _ rc] assms(2) by (auto simp: enc_inv_def enc_ok_def)
      have inv1: "enc_inv H K (w, d1)" using rot assms(2) by (simp add: enc_inv_def)
      show ?thesis
      proof (cases r1)
        case (Inl e)
        then have "r = Inl e" "w' = w" "d' = d1" using assms(8) \<open>audit_path_stat d (ew_path w) = Inr m\<close> Some rc \<open>ew_dek w = None\<close>
          by (simp_all add: enc_active_def)
        then show ?thesis using rot inv1 present by simp
      next
        case (Inr u)
        then have "start_file H env (w, d1) = (r, w', d')"
          using assms(8) \<open>audit_path_stat d (ew_path w) = Inr m\<close> Some rc \<open>ew_dek w = None\<close> by (simp add: enc_active_def)
        moreover have "\<not> in_dir d1 (ew_path w)" using rot Inr by simp
        ultimately have s: "enc_inv H K (w', d') \<and> entries H (ew_path w) d' = entries H (ew_path w) d1 \<and> ew_path w' = ew_path w \<and>
            (\<forall>dek aad. r = Inr (dek, aad) \<longrightarrow> owned H K (w', d') \<and> ew_dek w' = Some dek \<and> aad = entry_aad (ew_header w'))"
          "ew_retention_days w' = ew_retention_days w"
          using start_file_ok [OF assms(1) inv1 \<open>ew_dek w = None\<close> _ assms(5-7)] start_retention by blast+
        have "lossy H (ew_path w) (cutoff_of (re_now (av_rotate env)) (ew_retention_days w)) d d' ({#} + {#})"
          by (rule lossy_then) (use rot s in auto)
        then show ?thesis using s present by simp
      qed
    qed
  qed
qed

lemma mral_append:
  assumes "mral_file H K h dek c es" "writes_line (ah_crypto H) dek (entry_aad h) e line"
  shows "mral_file H K h dek (c @ line) (es @ [e])"
proof -
  obtain lines where l: "own_header H K h dek" "c = h @ 10 # concat lines" "list_all2 (writes_line (ah_crypto H) dek (entry_aad h)) es lines"
    using assms(1) by (auto simp: mral_file_def)
  then have "c @ line = h @ 10 # concat (lines @ [line])" "list_all2 (writes_line (ah_crypto H) dek (entry_aad h)) (es @ [e]) (lines @ [line])"
    using assms(2) by (simp_all add: list_all2_appendI)
  then show ?thesis using l(1) unfolding mral_file_def by blast
qed

lemma enc_write_file_ok:
  assumes "host_ok H K" "dir_ok H K path d" "writes_line (ah_crypto H) dek (entry_aad h) e line" "ae_truncates env"
    "map_of d path = Some (Regular f)" "mral_file H K h dek (lf_data f) es" "enc_write_file env path line d = (r, d')"
  shows "dir_ok H K path d' \<and> entries H path d' = entries H path d + (if r = Inr () then {#sorted_entry e#} else {#})"
proof (cases "open_for_writing False (ae_open env) (ae_inode env) (ae_now env) d path")
  case (Inl x)
  then show ?thesis using assms(2,7) by (auto simp: enc_write_file_def)
next
  case (Inr f1)
  then have f1: "f1 = f" using assms(5) by (auto simp: open_for_writing_Inr)
  obtain c where c: "write_all (ae_writes env) True line (length (lf_data f)) (lf_data f) = (r, c)" "d' = dict_put path (Regular (f\<lparr>lf_data := c, lf_mtime := ae_now env\<rparr>)) d"
    using assms(4,7) Inr f1 by (auto simp: enc_write_file_def put_file_def split: prod.splits)
  have g0: "good_log H K (lf_data f) es" using assms(6) by (auto simp: good_log_def)
  from write_all_whole [OF c(1)] show ?thesis
  proof
    assume w: "r = Inr () \<and> c = lf_data f @ line"
    then have "good_log H K c (es @ [e])" using mral_append [OF assms(6,3)] by (auto simp: good_log_def)
    then show ?thesis
      using put_active [OF assms(1,2) g0, of "f\<lparr>lf_data := c, lf_mtime := ae_now env\<rparr>" "es @ [e]"] assms(5) w c(2) by (simp add: ac_simps)
  next
    assume w: "(\<exists>x. r = Inl x) \<and> c = lf_data f"
    then show ?thesis
      using put_active [OF assms(1,2) g0, of "f\<lparr>lf_data := c, lf_mtime := ae_now env\<rparr>" es] assms(5) g0 c(2) by auto
  qed
qed

lemma lossy_entries: "lossy H path c d d' new \<Longrightarrow> entries H path d'' = entries H path d' \<Longrightarrow> lossy H path c d d'' new"
  by (simp add: lossy_def)

lemma enc_guards_ok:
  assumes "host_ok H K" "enc_inv H K (w, d)" "enc_guards env (w, d) = (r, w', d')"
  shows "d' = d \<and> enc_inv H K (w', d) \<and> ew_path w' = ew_path w \<and> (r = Inr () \<longrightarrow> owned H K (w', d) \<and> ew_retention_days w' = ew_retention_days w)"
proof -
  have same: ?thesis if "r = Inl x" "w' = w \<or> w' = wipe_dek w" "d' = d" for x
    using that assms(2) wipe_ok by (auto simp: enc_inv_def)
  show ?thesis
  proof (cases "ee_lifecycle env")
    case (Inl x)
    then show ?thesis using assms(3) by (intro same [of x]) (auto simp: enc_guards_def)
  next
    case life: (Inr u)
    obtain r0 w0 where g: "assert_keyvault_generation (ee_lease env) w = (r0, w0)" by (cases "assert_keyvault_generation (ee_lease env) w")
    then have w0: "(\<exists>x. r0 = Inl x \<and> w0 = wipe_dek w) \<or> (r0 = Inr () \<and> w0 = w)"
      by (auto simp: assert_keyvault_generation_def split: option.splits sum.splits if_splits)
    then show ?thesis
    proof (elim disjE exE conjE)
      fix x
      assume "r0 = Inl x" "w0 = wipe_dek w"
      then show ?thesis using assms(3) life g by (intro same [of x]) (auto simp: enc_guards_def)
    next
      assume gen: "r0 = Inr ()" "w0 = w"
      show ?thesis
      proof (cases "r_bind (ae_lock (ee_append env)) (\<lambda>_. refresh_active_ownership (ae_read (ee_append env)) d w)")
        case (Inl x)
        then show ?thesis using assms(3) life g gen by (intro same [of x]) (auto simp: enc_guards_def r_bind_Inl_iff)
      next
        case (Inr w1)
        then have "r = Inr ()" "w' = w1" "d' = d" "refresh_active_ownership (ae_read (ee_append env)) d w = Inr w1"
          using assms(3) life g gen by (auto simp: enc_guards_def r_bind_Inr_iff)
        then show ?thesis using refresh_ok [OF assms(1,2)] by auto
      qed
    qed
  qed
qed

text \<open>Rotation and the active file together: at most one of the two rotates.\<close>

lemma enc_file_ok:
  assumes "host_ok H K" "enc_inv H K (w, d)" "owned H K (w, d)" "enc_admissible K env entry"
    "s_bind (enc_maybe_rotate (ah_gzip H) (ee_append env) incoming (w, d)) (\<lambda>_ s. enc_active H (ee_active env) s) = (t, w', d')"
  shows "enc_inv H K (w', d') \<and> ew_path w' = ew_path w \<and> lossy H (ew_path w) (enc_cutoff env w) d d' {#} \<and>
    (\<forall>dek aad. t = Inr (dek, aad) \<longrightarrow> owned H K (w', d') \<and> ew_dek w' = Some dek \<and> aad = entry_aad (ew_header w'))"
proof -
  let ?a = "ee_append env" and ?v = "ee_active env" and ?p = "ew_path w"
  have adm: "rotate_clean (ae_rotate ?a)" "rotate_clean (av_rotate ?v)" "av_truncates ?v" "length (av_dek ?v) = 32" "av_ephemeral ?v \<in> K"
    using assms(4) by (auto simp: enc_admissible_def nd_admissible_def)
  obtain q w2 d2 where m: "enc_maybe_rotate (ah_gzip H) ?a incoming (w, d) = (q, w2, d2)" by (metis prod_cases3)
  note r2 = enc_maybe_rotate_ok [OF assms(1-3) adm(1) m]
  from r2 have "lossy H ?p (cutoff_of (re_now (ae_rotate ?a)) (ew_retention_days w)) d d2 {#}" by blast
  then have l2: "lossy H ?p (enc_cutoff env w) d d2 {#}" by (rule lossy_cutoff) (simp add: enc_cutoff_def)
  show ?thesis
  proof (cases q)
    case (Inl x)
    then have "t = Inl x" "w' = w2" "d' = d2" using assms(5) m by auto
    then show ?thesis using r2 l2 by simp
  next
    case q: (Inr u)
    then have a: "enc_active H ?v (w2, d2) = (t, w', d')" using assms(5) m by simp
    note r3 = enc_active_ok [OF assms(1) _ _ adm(2-5) a]
    have "lossy H ?p (enc_cutoff env w) d d' {#}"
    proof (cases "d2 = d")
      case True
      then have "lossy H ?p (cutoff_of (re_now (av_rotate ?v)) (ew_retention_days w)) d d' {#}" using r3 r2 q by auto
      then show ?thesis by (rule lossy_cutoff) (simp add: enc_cutoff_def)
    next
      case False
      then show ?thesis using r2 q r3 lossy_entries [OF l2] by auto
    qed
    then show ?thesis using r3 r2 q by auto
  qed
qed

lemma enc_append_ok:
  assumes "host_ok H K" "enc_inv H K (w, d)" "enc_admissible K env entry" "enc_append H env entry (w, d) = (r, w', d')"
  shows "enc_inv H K (w', d') \<and> ew_path w' = ew_path w \<and>
    lossy H (ew_path w) (enc_cutoff env w) d d' (if r = Inr () then {#sorted_entry (with_ts (ae_ts (ee_append env)) entry)#} else {#})"
proof (cases "serialize_entry (with_ts (ae_ts (ee_append env)) entry)")
  case (Inl x)
  then have "r = Inl x" "w' = w" "d' = d" using assms(4) by (auto simp: enc_append_def)
  then show ?thesis using assms(2) lossy_refl by simp
next
  case ser: (Inr pt)
  let ?e = "with_ts (ae_ts (ee_append env)) entry" and ?p = "ew_path w"
  obtain g w1 d1 where gd: "enc_guards env (w, d) = (g, w1, d1)" by (metis prod_cases3)
  note r1 = enc_guards_ok [OF assms(1,2) gd]
  show ?thesis
  proof (cases g)
    case (Inl x)
    then have "r = Inl x" "w' = w1" "d' = d" using assms(4) ser gd r1 by (auto simp: enc_append_def)
    then show ?thesis using r1 lossy_refl by simp
  next
    case (Inr u)
    then have wr: "enc_write_entry H env pt (w1, d) = (r, w', d')" and own1: "owned H K (w1, d)" "enc_cutoff env w1 = enc_cutoff env w"
      using assms(4) ser gd r1 by (auto simp: enc_append_def enc_cutoff_def)
    obtain t w3 d3 where a: "s_bind (enc_maybe_rotate (ah_gzip H) (ee_append env) (encrypted_line_len (length pt)) (w1, d))
        (\<lambda>_ s. enc_active H (ee_active env) s) = (t, w3, d3)" by (metis prod_cases3)
    have r3: "enc_inv H K (w3, d3)" "ew_path w3 = ?p" "lossy H ?p (enc_cutoff env w) d d3 {#}"
      "\<And>dek aad. t = Inr (dek, aad) \<Longrightarrow> owned H K (w3, d3) \<and> ew_dek w3 = Some dek \<and> aad = entry_aad (ew_header w3)"
      using enc_file_ok [OF assms(1) _ own1(1) assms(3) a] r1 own1(2) by auto
    have s: "(r, w', d') = s_bind (t, w3, d3) (\<lambda>(dek, aad) (w, d).
        case entry_line (ah_crypto H) (ee_nonce env) dek aad pt of
          Inl e \<Rightarrow> (Inl e, w, d)
        | Inr line \<Rightarrow> (case enc_write_file (ee_append env) (ew_path w) line d of (r, d') \<Rightarrow> (r, w, d')))"
      using wr unfolding enc_write_entry_def s_bind_assoc a [symmetric] by simp
    show ?thesis
    proof (cases "\<exists>dek aad line. t = Inr (dek, aad) \<and> entry_line (ah_crypto H) (ee_nonce env) dek aad pt = Inr line")
      case False
      then have "(\<exists>x. r = Inl x) \<and> w' = w3 \<and> d' = d3" using s by (cases t) (auto split: sum.splits)
      then show ?thesis using r3 by auto
    next
      case True
      then obtain dek aad line where t: "t = Inr (dek, aad)" "entry_line (ah_crypto H) (ee_nonce env) dek aad pt = Inr line" by blast
      obtain z d4 where w4: "enc_write_file (ee_append env) (ew_path w3) line d3 = (z, d4)" by (cases "enc_write_file (ee_append env) (ew_path w3) line d3")
      have res: "r = z" "w' = w3" "d' = d4" using s t w4 by simp_all
      obtain f es where f: "map_of d3 ?p = Some (Regular f)" "mral_file H K (ew_header w3) dek (lf_data f) es"
        using r3(2,4) t by (fastforce simp: owned_def)
      have adm: "json_ok (JObj entry)" "list_all is_scalar (ae_ts (ee_append env))" "ae_truncates (ee_append env)" "length (ee_nonce env) = 12"
        using assms(3) by (auto simp: enc_admissible_def nd_admissible_def)
      then have "writes_line (ah_crypto H) dek (entry_aad (ew_header w3)) ?e line"
        using with_ts_ok [OF adm(1,2)] ser t r3(4) by (auto simp: writes_line_def)
      then have "dir_ok H K ?p d4 \<and> entries H ?p d4 = entries H ?p d3 + (if z = Inr () then {#sorted_entry ?e#} else {#})"
        using enc_write_file_ok [OF assms(1) _ _ adm(3) f] w4 r3 by (auto simp: enc_inv_def)
      then show ?thesis using res r3 lossy_then [OF r3(3), of d4] by (auto simp: enc_inv_def)
    qed
  qed
qed

interpretation enc: entry_log "enc_append H" "\<lambda>s. host_ok H K \<and> enc_inv H K s" "enc_admissible K"
  "\<lambda>s. entries H (ew_path (fst s)) (snd s)" "\<lambda>env s. old_entries H (ew_path (fst s)) (enc_cutoff env (fst s)) (snd s)"
  "\<lambda>env entry. sorted_entry (with_ts (ae_ts (ee_append env)) entry)" for H K
proof (unfold_locales, goal_cases)
  case (1 s env entry r s')
  obtain w d w' d' where s: "s = (w, d)" "s' = (w', d')" by (cases s, cases s')
  show ?case using enc_append_ok [of H K w d env entry r w' d'] 1 by (auto simp: s lossy_def)
qed (simp add: old_sub)

end
