(* ===== verification/Audit_World.thy ===== *)
theory Audit_World
  imports Audit_Append
begin

text \<open>
  Writers of both kinds, in this and other processes, over one audit directory. Every locked section is one step; between steps
  writers start and close, the keyvault is set up or reset, and the user deletes files.
\<close>

text \<open>C18: An append to the audit log is whole or nothing, for both writers. Whatever the system calls answer, with a working roll-back and
  clean-up, an append that returns has added exactly its entry, and one that raises has added nothing; every other entry of the log,
  rotated files included, is still there, but for files last modified before the cut-off of the retention sweep.\<close>

theorem audit_append_whole:
  assumes "host_ok H K"
  shows "(nd_inv H K s \<and> nd_admissible env entry \<and> nd_append (ah_gzip H) env entry s = (r, s') \<longrightarrow>
      (\<exists>lost. lost \<subseteq># old_entries H (nd_path (fst s)) (nd_cutoff env (fst s)) (snd s) \<and>
         entries H (nd_path (fst s')) (snd s') =
           entries H (nd_path (fst s)) (snd s) - lost + (if r = Inr () then {#sorted_entry (with_ts (ae_ts env) entry)#} else {#}))) \<and>
    (enc_inv H K t \<and> enc_admissible K env' entry' \<and> enc_append H env' entry' t = (r', t') \<longrightarrow>
      (\<exists>lost. lost \<subseteq># old_entries H (ew_path (fst t)) (enc_cutoff env' (fst t)) (snd t) \<and>
         entries H (ew_path (fst t')) (snd t') =
           entries H (ew_path (fst t)) (snd t) - lost + (if r' = Inr () then {#sorted_entry (with_ts (ae_ts (ee_append env')) entry')#} else {#})))"
  using nd.append_exact [of H K s env entry r s'] enc.append_exact [of H K t env' entry' r' t'] assms by blast

section \<open>Interleaving\<close>

record audit_world =
  aw_dir :: log_dir
  aw_plain :: "nat \<Rightarrow> nd_writer"
  aw_enc :: "nat \<Rightarrow> enc_writer"

definition new_nd_writer :: "py_str \<Rightarrow> int \<Rightarrow> int \<Rightarrow> nd_writer" where
  "new_nd_writer path rotate_bytes retention_days =
     \<lparr>nd_path = path, nd_rotate_bytes = rotate_bytes, nd_retention_days = retention_days, nd_last_date = []\<rparr>"

definition new_enc_writer :: "py_str \<Rightarrow> py_str option \<Rightarrow> (bytes \<times> nat) option \<Rightarrow> int \<Rightarrow> int \<Rightarrow> enc_writer" where
  "new_enc_writer path nkid lease rotate_bytes retention_days =
     \<lparr>ew_path = path, ew_native_key_id = nkid, ew_lease = lease, ew_rotate_bytes = rotate_bytes, ew_retention_days = retention_days,
      ew_last_date = [], ew_dek = None, ew_aad = [], ew_header = [], ew_identity = None\<rparr>"

inductive audit_step :: "'d audit_host \<Rightarrow> bytes set \<Rightarrow> py_str \<Rightarrow> audit_world \<Rightarrow> audit_world \<Rightarrow> bool" for H K path where
  append_plain: "nd_admissible env e \<Longrightarrow> nd_append (ah_gzip H) env e (aw_plain W i, aw_dir W) = (r, w', d') \<Longrightarrow>
    audit_step H K path W (W\<lparr>aw_plain := (aw_plain W)(i := w'), aw_dir := d'\<rparr>)"
| append_encrypted: "enc_admissible K env e \<Longrightarrow> enc_append H env e (aw_enc W i, aw_dir W) = (r, w', d') \<Longrightarrow>
    audit_step H K path W (W\<lparr>aw_enc := (aw_enc W)(i := w'), aw_dir := d'\<rparr>)"
| close_encrypted: "audit_step H K path W (W\<lparr>aw_enc := (aw_enc W)(i := enc_close (aw_enc W i))\<rparr>)"
| start_plain: "0 \<le> days \<Longrightarrow> audit_step H K path W (W\<lparr>aw_plain := (aw_plain W)(i := new_nd_writer path cap days)\<rparr>)"
| start_encrypted: "0 \<le> days \<Longrightarrow> log_key (ah_root H) nkid n \<Longrightarrow>
    audit_step H K path W (W\<lparr>aw_enc := (aw_enc W)(i := new_enc_writer path nkid lease cap days)\<rparr>)"
| hand_over: "rotate_encrypted_log_aside env path (aw_dir W) = (r, d') \<Longrightarrow> audit_step H K path W (W\<lparr>aw_dir := d'\<rparr>)"
| user_deletes: "audit_step H K path W (W\<lparr>aw_dir := dir_del n (aw_dir W)\<rparr>)"

inductive audit_run :: "'d audit_host \<Rightarrow> bytes set \<Rightarrow> py_str \<Rightarrow> audit_world \<Rightarrow> bool" for H K path where
  begin_run: "aw_dir W = [] \<Longrightarrow> \<forall>i. aw_plain W i = new_nd_writer path cap days \<Longrightarrow> 0 \<le> days \<Longrightarrow>
    \<forall>i. aw_enc W i = new_enc_writer path None lease cap days \<Longrightarrow> audit_run H K path W"
| then_step: "audit_run H K path W \<Longrightarrow> audit_step H K path W W' \<Longrightarrow> audit_run H K path W'"

definition world_ok :: "'d audit_host \<Rightarrow> bytes set \<Rightarrow> py_str \<Rightarrow> audit_world \<Rightarrow> bool" where
  "world_ok H K path W \<longleftrightarrow> dir_ok H K path (aw_dir W) \<and> (\<forall>i. nd_path (aw_plain W i) = path \<and> 0 \<le> nd_retention_days (aw_plain W i)) \<and>
     (\<forall>i. ew_path (aw_enc W i) = path \<and> enc_ok H K (aw_enc W i))"

lemma aside_ok:
  assumes "dir_ok H K path d" "rotate_encrypted_log_aside env path d = (r, d')"
  shows "dir_ok H K path d'"
proof (cases "d' = d")
  case False
  then obtain f where "audit_path_stat d path = Inr (Some f)" and d': "d' = dict_put (next_rotation_target d path (ae_today env)) (Regular f) (dir_del path d)"
    using assms(2) by (auto simp: rotate_encrypted_log_aside_def split: sum.splits if_splits option.splits)
  then have "map_of d path = Some (Regular f)" by (auto simp: audit_path_stat_def split: option.splits dirent.splits)
  then show ?thesis
    using rename_moves [OF assms(1), of f "next_rotation_target d path (ae_today env)" 0] next_target [of d path "ae_today env"]
    by (simp add: d' moves_def)
qed (use assms in simp)

lemma world_step: "audit_step H K path W W' \<Longrightarrow> host_ok H K \<Longrightarrow> world_ok H K path W \<Longrightarrow> world_ok H K path W'"
proof (induction rule: audit_step.induct)
  case (append_plain env e W i r w' d')
  then have "nd_inv H K (w', d') \<and> nd_path w' = path"
    using nd_append_ok [of H K "aw_plain W i" "aw_dir W" env e r w' d'] by (auto simp: world_ok_def nd_inv_def)
  then show ?case using append_plain by (auto simp: world_ok_def nd_inv_def)
next
  case (append_encrypted env e W i r w' d')
  then have "enc_inv H K (w', d') \<and> ew_path w' = path"
    using enc_append_ok [of H K "aw_enc W i" "aw_dir W" env e r w' d'] by (auto simp: world_ok_def enc_inv_def)
  then show ?case using append_encrypted by (auto simp: world_ok_def enc_inv_def)
next
  case (close_encrypted W i)
  then show ?case using wipe_ok [of H K "aw_enc W i"] by (auto simp: world_ok_def enc_close_def)
next
  case (start_encrypted days nkid n W i lease cap)
  then show ?case by (auto simp: world_ok_def enc_ok_def new_enc_writer_def)
next
  case (hand_over env W r d')
  then show ?case using aside_ok by (auto simp: world_ok_def)
next
  case (user_deletes W n)
  then show ?case using dir_ok_del by (auto simp: world_ok_def)
qed (auto simp: world_ok_def new_nd_writer_def)

lemma world_run: "audit_run H K path W \<Longrightarrow> host_ok H K \<Longrightarrow> world_ok H K path W"
proof (induction rule: audit_run.induct)
  case (begin_run W cap days lease)
  have "log_key (ah_root H) None AUDIT_LOG_KEY_ID" by (simp add: log_key_def)
  then show ?case using begin_run by (auto simp: world_ok_def dir_ok_def enc_ok_def new_nd_writer_def new_enc_writer_def)
next
  case (then_step W W')
  then show ?case using world_step by blast
qed

lemma good_head: "host_ok H K \<Longrightarrow> good_log H K c es \<Longrightarrow> c = [] \<or> (\<exists>s. c = 123 # s)"
proof -
  assume h: "host_ok H K" and "good_log H K c es"
  then consider "plain_file c es" | hd dek where "mral_file H K hd dek c es" by (auto simp: good_log_def)
  then show ?thesis
  proof cases
    case 1
    then obtain ps where "c = concat (map (\<lambda>p. p @ [10]) ps)" "list_all2 plain_line es ps" by (auto simp: plain_file_def)
    then show ?thesis using plain_line_read by (cases ps) (fastforce simp: list_all2_Cons2)+
  next
    case 2
    then obtain lines where "own_header H K hd dek" "c = hd @ 10 # concat lines" by (auto simp: mral_file_def)
    then show ?thesis using own_header_unwrap [OF h] by fastforce
  qed
qed

text \<open>A file of the log as the reader of encrypted logs takes it: its gzip frame first.\<close>

lemma file_read:
  assumes "host_ok H K" "good_log H K c es" "x = c \<or> x = ah_gzip H c"
  shows "raw_log H x = c \<and>
    fst (decrypt_log_file (ah_crypto H) (ah_gunzip H) (ah_backend H) (ah_bound H) (ah_root H) (ah_device H) noop_audit [] (Inr ()) (Inr x)) =
      decrypted H c"
proof -
  have c: "raw_log H c = c" "take 2 c \<noteq> GZIP_MAGIC"
    using good_head [OF assms(1,2)] not_gzip by (auto simp: GZIP_MAGIC_def)
  have gz: "ah_gunzip H (ah_gzip H c) = Inr c" "take 2 (ah_gzip H c) = GZIP_MAGIC" using assms(1) by (auto simp: host_ok_def)
  have raw: "raw_log H x = c" using assms(3) c gz by (auto simp: raw_log_def)
  moreover have "fst (decrypt_log_file (ah_crypto H) (ah_gunzip H) (ah_backend H) (ah_bound H) (ah_root H) (ah_device H) noop_audit [] (Inr ()) (Inr x)) = decrypted H c"
    using assms(3) c(2) gz by (auto simp: decrypt_log_file_def decrypted_def)
  ultimately show ?thesis by blast
qed

definition plain_text :: "bytes \<Rightarrow> bool" where
  "plain_text c \<longleftrightarrow> (\<forall>l \<in> set (splitlines c). \<exists>e. loads l = Inr (JObj e) \<and> str_lit ''ts'' \<in> fst ` set e)"

lemma plain_is_text: "plain_file c es \<Longrightarrow> plain_text c"
proof -
  assume "plain_file c es"
  then obtain ps where ps: "c = concat (map (\<lambda>p. p @ [10]) ps)" "list_all2 plain_line es ps" by (auto simp: plain_file_def)
  then have l: "\<forall>p \<in> set ps. \<exists>e. plain_line e p" by (metis in_set_conv_nth list_all2_conv_all_nth)
  then have "splitlines c = ps" unfolding ps(1) using plain_line_read by (intro splitlines_lines) blast
  then show ?thesis using l plain_line_read unfolding plain_text_def by blast
qed

lemma mral_not_text:
  assumes "host_ok H K" "mral_file H K h dek c es"
  shows "\<not> plain_text c"
proof -
  obtain lines where m: "own_header H K h dek" "c = h @ 10 # concat lines" using assms(2) by (auto simp: mral_file_def)
  note h = own_header_unwrap [OF assms(1) m(1)]
  then have "h \<in> set (splitlines c)" by (simp add: m(2) splitlines_cons)
  then show ?thesis using h by (fastforce simp: plain_text_def)
qed

text \<open>C19: The audit log never mixes formats and stays readable. After any interleaving of plaintext and encrypted appends, failed ones
  included, rotations, hand-overs, closed and new writers and deletions by the user, every file of the log, rotated and compressed
  ones included, is wholly plaintext, every line of it an entry with a time stamp, or is decrypted completely by
  \<open>decrypt_log_file\<close>, on this host; none is both.\<close>

theorem audit_files_readable:
  assumes "host_ok H K" "audit_run H K path W" "(n, Regular f) \<in> set (aw_dir W)" "tracked path n"
  shows "let decrypts = \<lambda>es. fst (decrypt_log_file (ah_crypto H) (ah_gunzip H) (ah_backend H) (ah_bound H) (ah_root H) (ah_device H)
        noop_audit [] (Inr ()) (Inr (lf_data f))) = Inr es
    in (plain_text (raw_log H (lf_data f)) \<or> (\<exists>es. decrypts es)) \<and> \<not> (plain_text (raw_log H (lf_data f)) \<and> (\<exists>es. decrypts es))"
proof -
  have "dir_ok H K path (aw_dir W)" using world_run [OF assms(2,1)] by (simp add: world_ok_def)
  then obtain c es where g: "good_log H K c es" "lf_data f = c \<or> lf_data f = ah_gzip H c"
    using assms(3,4) by (fastforce simp: dir_ok_def file_ok_def)
  note read = file_read [OF assms(1) g]
  consider "plain_file c es" | h dek where "mral_file H K h dek c es" using g(1) by (auto simp: good_log_def)
  then show ?thesis
  proof cases
    case 1
    then show ?thesis using plain_read [OF 1, of H] plain_is_text [OF 1] read by auto
  next
    case 2
    then show ?thesis using mral_read [OF assms(1) 2] mral_not_text [OF assms(1) 2] read by auto
  qed
qed

section \<open>A concrete log\<close>

definition demo_host :: "unit audit_host" where
  "demo_host = \<lparr>ah_crypto = demo_crypto, ah_gzip = (\<lambda>c. GZIP_MAGIC @ c), ah_gunzip = (\<lambda>c. Inr (drop 2 c)), ah_backend = demo_native [7],
     ah_bound = None, ah_root = \<lparr>pr_canonical = [47], pr_absolute = [47]\<rparr>, ah_device = ()\<rparr>"

lemma demo_host_ok: "host_ok demo_host UNIV"
  unfolding host_ok_def
  by (auto simp: demo_host_def demo_crypto_ok GZIP_MAGIC_def log_backend_def backend_for_persisted_key_def intro: demo_native_holds)

definition demo_append_env :: append_env where
  "demo_append_env = \<lparr>ae_ts = [120], ae_today = [49], ae_now = 0, ae_lock = Inr (), ae_read = None,
     ae_rotate = \<lparr>re_replace = None, re_gzip = Gz_done, re_inode = 2, re_now = 0\<rparr>, ae_open = None, ae_inode = 1,
     ae_writes = [Accepted 3], ae_truncates = True\<rparr>"

abbreviation demo_log_entry :: kvs where "demo_log_entry \<equiv> [(str_lit ''ts'', JStr [116])]"

lemma demo_admissible: "nd_admissible demo_append_env demo_log_entry"
  by (simp add: nd_admissible_def demo_append_env_def rotate_clean_def is_scalar_str_lit is_scalar_def is_surrogate_def)

lemma demo_appended:
  "nd_append (ah_gzip demo_host) demo_append_env demo_log_entry (new_nd_writer [97] 100 1, []) =
     (Inr (), (new_nd_writer [97] 100 1)\<lparr>nd_last_date := [49]\<rparr>,
      [([97], Regular \<lparr>lf_inode = 1, lf_data = bytes_lit ''{\"ts\":\"t\"}'' @ [10], lf_mtime = 0\<rparr>)])"
proof -
  have "nd_serialize (with_ts [120] demo_log_entry) = Inr (bytes_lit ''{\"ts\":\"t\"}'' @ [10])"
    by (simp add: nd_serialize_def with_ts_def dumps_utf8_def json_quote_def escape_char_def utf8_encode_def utf8_char_def str_lit_def bytes_lit_def
        is_scalar_def is_surrogate_def MAX_ENTRY_BYTES_def)
  then show ?thesis
    by (simp add: nd_append_def demo_append_env_def assert_plaintext_append_safe_def read_first_line_def audit_path_stat_def nd_maybe_rotate_def
        new_nd_writer_def nd_write_file_def open_for_writing_def nd_write_def put_file_def bytes_lit_def)
qed

lemma audit_append_whole_witness:
  "\<exists>s'. nd_append (ah_gzip demo_host) demo_append_env demo_log_entry (new_nd_writer [97] 100 1, []) = (Inr (), s') \<and>
     entries demo_host [97] (snd s') = {#sorted_entry (with_ts [120] demo_log_entry)#}"
proof -
  let ?s = "(new_nd_writer [97] 100 1, []) :: nd_writer \<times> log_dir"
  obtain w' d' where a: "nd_append (ah_gzip demo_host) demo_append_env demo_log_entry ?s = (Inr (), w', d')" "nd_path w' = [97]"
    using demo_appended by (auto simp: new_nd_writer_def)
  have inv: "nd_inv demo_host UNIV ?s" by (simp add: nd_inv_def dir_ok_def new_nd_writer_def)
  have none: "entries demo_host p [] = {#}" "old_entries demo_host p c [] = {#}" for p c by (simp_all add: entries_def old_entries_def)
  have ts: "ae_ts demo_append_env = [120]" by (simp add: demo_append_env_def)
  have "\<exists>lost. lost \<subseteq># old_entries demo_host (nd_path (fst ?s)) (nd_cutoff demo_append_env (fst ?s)) (snd ?s) \<and>
      entries demo_host (nd_path (fst (w', d'))) (snd (w', d')) =
        entries demo_host (nd_path (fst ?s)) (snd ?s) - lost + (if Inr () = (Inr () :: unit result) then {#sorted_entry (with_ts (ae_ts demo_append_env) demo_log_entry)#} else {#})"
    using audit_append_whole [OF demo_host_ok, THEN conjunct1, rule_format, OF conjI, OF inv conjI, OF demo_admissible a(1)] .
  then have "entries demo_host [97] d' = {#sorted_entry (with_ts [120] demo_log_entry)#}"
    using a(2) by (simp add: none ts)
  then show ?thesis using a(1) by auto
qed

lemma audit_files_readable_witness:
  "\<exists>W. audit_run demo_host UNIV [97] W \<and>
     (\<exists>f. ([97], Regular f) \<in> set (aw_dir W) \<and>
       (plain_text (raw_log demo_host (lf_data f)) \<or>
        (\<exists>es. fst (decrypt_log_file (ah_crypto demo_host) (ah_gunzip demo_host) (ah_backend demo_host) (ah_bound demo_host) (ah_root demo_host)
          (ah_device demo_host) noop_audit [] (Inr ()) (Inr (lf_data f))) = Inr es)))"
proof -
  let ?W = "\<lparr>aw_dir = [], aw_plain = (\<lambda>_. new_nd_writer [97] 100 1), aw_enc = (\<lambda>_. new_enc_writer [97] None None 100 1)\<rparr>"
  have start: "audit_run demo_host UNIV [97] ?W" by (rule begin_run [of _ _ 100 1 None]) simp_all
  obtain w' f where a: "nd_append (ah_gzip demo_host) demo_append_env demo_log_entry (new_nd_writer [97] 100 1, []) = (Inr (), w', [([97], Regular f)])"
    using demo_appended by blast
  let ?W' = "?W\<lparr>aw_plain := (aw_plain ?W)(0 := w'), aw_dir := [([97], Regular f)]\<rparr>"
  have "audit_step demo_host UNIV [97] ?W ?W'" by (rule append_plain [OF demo_admissible]) (simp add: a)
  then have run: "audit_run demo_host UNIV [97] ?W'" using then_step start by blast
  have f: "([97], Regular f) \<in> set (aw_dir ?W')" "tracked [97] [97]" by (simp_all add: tracked_def)
  show ?thesis
    using audit_files_readable [OF demo_host_ok run f] run f by (auto simp: Let_def simp del: audit_world.simps)
qed

end
