(* ===== verification/Audit_Reader.thy ===== *)
theory Audit_Reader
  imports Audit_Safety File_Container Py_Str
begin

text \<open>
  Reading a plaintext audit log: \<open>tail\<close> and \<open>grep\<close> of \<open>wizard/audit_cli.py\<close>. The pattern of \<open>grep\<close>, once compiled, is the predicate
  \<open>hit\<close>. A result is the exit code and the lines printed on standard output.
\<close>

section \<open>Text\<close>

text \<open>\<open>bytes.decode("utf-8", errors="replace")\<close>: one U+FFFD for each maximal part of a character that breaks off.\<close>

definition second_ok :: "nat \<Rightarrow> nat \<Rightarrow> bool" where
  "second_ok a b \<longleftrightarrow> is_cont b \<and> (a = 224 \<longrightarrow> 160 \<le> b) \<and> (a = 237 \<longrightarrow> b \<le> 159) \<and> (a = 240 \<longrightarrow> 144 \<le> b) \<and> (a = 244 \<longrightarrow> b \<le> 143)"

fun utf8_replace :: "nat list \<Rightarrow> py_str" where
  "utf8_replace [] = []"
| "utf8_replace (a # s) =
     (if a < 128 then a # utf8_replace s
      else if a < 194 \<or> 244 < a then 0xFFFD # utf8_replace s
      else case s of
        [] \<Rightarrow> [0xFFFD]
      | b # s1 \<Rightarrow>
          if \<not> second_ok a b then 0xFFFD # utf8_replace s
          else if a < 224 then utf8_cp2 a b # utf8_replace s1
          else (case s1 of
            [] \<Rightarrow> [0xFFFD]
          | c # s2 \<Rightarrow>
              if \<not> is_cont c then 0xFFFD # utf8_replace s1
              else if a < 240 then utf8_cp3 a b c # utf8_replace s2
              else (case s2 of
                [] \<Rightarrow> [0xFFFD]
              | d # s3 \<Rightarrow> if \<not> is_cont d then 0xFFFD # utf8_replace s2 else utf8_cp4 a b c d # utf8_replace s3)))"

definition decode_replace :: "bytes \<Rightarrow> py_str" where
  "decode_replace bs = utf8_replace (map unat bs)"

text \<open>\<open>str.splitlines()\<close>, with the line being collected.\<close>

definition line_break :: "nat \<Rightarrow> bool" where
  "line_break c \<longleftrightarrow> c \<in> {10, 11, 12, 13, 28, 29, 30, 0x85, 0x2028, 0x2029}"

function str_lines :: "py_str \<Rightarrow> py_str \<Rightarrow> py_str list" where
  "str_lines line [] = (if line = [] then [] else [line])"
| "str_lines line (c # s) =
     (if line_break c then line # str_lines [] (if c = 13 \<and> take 1 s = [10] then drop 1 s else s)
      else str_lines (line @ [c]) s)"
  by pat_completeness auto
termination by (relation "measure (\<lambda>(l, s). length s)") auto

definition str_splitlines :: "py_str \<Rightarrow> py_str list" where
  "str_splitlines s = str_lines [] s"

section \<open>tail and grep\<close>

definition looks_like_mral_header :: "bytes \<Rightarrow> bool" where
  "looks_like_mral_header first_line \<longleftrightarrow>
     take 1 first_line = [123] \<and> (case loads first_line of Inr (JObj h) \<Rightarrow> obj_get h ''fmt'' = jstr MRAL_FMT | _ \<Rightarrow> False)"

text \<open>\<open>raw\<close> is what \<open>_read_log_bytes\<close> gives: nothing for a missing file, or an unsafe one (after its message).\<close>

definition iter_lines :: "bytes option \<Rightarrow> py_str list option" where
  "iter_lines raw =
     (case raw of
        None \<Rightarrow> None
      | Some bs \<Rightarrow>
          let first_line = takeWhile (\<lambda>b. b \<noteq> 10) bs
          in if bs \<noteq> [] \<and> (take 1 first_line \<noteq> [123] \<or> looks_like_mral_header first_line) then None
             else Some (filter (\<lambda>ln. strip is_str_space ln \<noteq> []) (str_splitlines (decode_replace bs))))"

definition audit_tail :: "int \<Rightarrow> bytes option \<Rightarrow> nat \<times> py_str list" where
  "audit_tail n raw =
     (case iter_lines raw of
        None \<Rightarrow> (1, [])
      | Some ls \<Rightarrow> if n \<le> 0 then (0, []) else (0, drop (length ls - nat n) ls))"

definition audit_grep :: "(py_str \<Rightarrow> bool) option \<Rightarrow> bytes option \<Rightarrow> nat \<times> py_str list" where
  "audit_grep pattern raw =
     (case pattern of
        None \<Rightarrow> (2, [])
      | Some hit \<Rightarrow>
          (case iter_lines raw of
             None \<Rightarrow> (1, [])
           | Some ls \<Rightarrow> (if filter hit ls = [] then 1 else 0, filter hit ls)))"

section \<open>What is printed\<close>

lemma utf8_replace_char:
  assumes "is_scalar c"
  shows "utf8_replace (utf8_char c @ s) = c # utf8_replace s"
proof -
  consider "c < 128" | "128 \<le> c" "c < 2048" | "2048 \<le> c" "c < 65536" | "65536 \<le> c"
    by linarith
  then show ?thesis
  proof cases
    case 1
    then show ?thesis by (simp add: utf8_char_def)
  next
    case 2
    then have "2 \<le> c div 64" "c div 64 < 32" by auto
    with 2 show ?thesis by (simp add: mod64_le utf8_char_def is_cont_def second_ok_def utf8_cp2_def)
  next
    case 3
    then have a: "c div 4096 < 16" by auto
    define q where "q = c div 64"
    have q: "c div 4096 = q div 64" "32 \<le> q" "c div 64 mod 64 = q mod 64"
      using 3 by (simp_all add: q_def div_mult2_eq [symmetric])
    have "q div 64 * 64 + q mod 64 = q" by (rule div_mult_mod_eq)
    note q = q this
    have "c div 4096 = 0 \<Longrightarrow> 32 \<le> c div 64 mod 64" using q by linarith
    moreover have "c div 64 mod 64 < 32" if t: "c div 4096 = 13"
    proof -
      have "c < 57344" using t split64_3 [of c] mod64_le [of c] mod64_le [of "c div 64"] by linarith
      then have "c < 55296" using assms by (simp add: is_scalar_def is_surrogate_def)
      then have "q < 864" by (simp add: q_def div_less_iff_less_mult)
      then show ?thesis using q t by linarith
    qed
    ultimately have "second_ok (224 + c div 4096) (128 + c div 64 mod 64)"
      using a by (auto simp: second_ok_def is_cont_def mod64_le)
    then show ?thesis using 3 a split64_3 [of c]
      by (simp add: mod64_le utf8_char_def is_cont_def utf8_cp3_def)
  next
    case 4
    with assms have c: "c \<le> 1114111" by (simp add: is_scalar_def)
    then have a: "c div 262144 < 5" by auto
    define q where "q = c div 4096"
    have q: "c div 262144 = q div 64" "16 \<le> q" "c div 4096 mod 64 = q mod 64"
      using 4 by (simp_all add: q_def div_mult2_eq [symmetric])
    have "q div 64 * 64 + q mod 64 = q" by (rule div_mult_mod_eq)
    note q = q this
    have "q < 272" using c by (simp add: q_def div_less_iff_less_mult)
    have "c div 262144 = 0 \<Longrightarrow> 16 \<le> c div 4096 mod 64" using q by linarith
    moreover have "c div 262144 = 4 \<Longrightarrow> c div 4096 mod 64 \<le> 15" using q \<open>q < 272\<close> by linarith
    ultimately have "second_ok (240 + c div 262144) (128 + c div 4096 mod 64)"
      using a by (auto simp: second_ok_def is_cont_def mod64_le)
    then show ?thesis using 4 a split64_4 [of c]
      by (simp add: mod64_le utf8_char_def is_cont_def utf8_cp4_def)
  qed
qed

lemma decode_replace_encode: "utf8_encode s = Inr bs \<Longrightarrow> decode_replace bs = s"
proof -
  assume e: "utf8_encode s = Inr bs"
  then have s: "list_all is_scalar s" and bs: "bs = map of_nat (concat (map utf8_char s))"
    by (auto simp: utf8_encode_def split: if_splits)
  have "\<forall>b \<in> set (concat (map utf8_char s)). b < 256"
    using s utf8_char_bytes by (fastforce simp: list_all_iff)
  then have "map unat bs = concat (map utf8_char s)"
    unfolding bs by (rule map_unat_of_nat)
  moreover have "list_all is_scalar s \<Longrightarrow> utf8_replace (concat (map utf8_char s)) = s"
    by (induction s) (simp_all add: utf8_replace_char)
  ultimately show ?thesis using s by (simp add: decode_replace_def)
qed

lemma utf8_encode_append: "utf8_encode a = Inr x \<Longrightarrow> utf8_encode b = Inr y \<Longrightarrow> utf8_encode (a @ b) = Inr (x @ y)"
  by (auto simp: utf8_encode_def split: if_splits)

lemma utf8_encode_lines:
  "list_all2 (\<lambda>t p. utf8_encode t = Inr p) ts ps \<Longrightarrow> utf8_encode (concat (map (\<lambda>t. t @ [10]) ts)) = Inr (concat (map (\<lambda>p. p @ [10]) ps))"
proof (induction rule: list_all2_induct)
  case (Cons t ts p ps)
  have "utf8_encode [10] = Inr [10]" by (simp add: utf8_encode_def utf8_char_def is_scalar_def is_surrogate_def)
  then show ?case using utf8_encode_append [OF utf8_encode_append [OF Cons(1), of "[10]"] Cons(3)] by simp
qed (simp add: utf8_encode_def)

lemma str_lines_line: "\<forall>c \<in> set l. \<not> line_break c \<Longrightarrow> str_lines pre (l @ 10 # s) = (pre @ l) # str_lines [] s"
  by (induction l arbitrary: pre) (auto simp: line_break_def)

lemma str_splitlines_lines:
  "\<forall>l \<in> set ls. \<forall>c \<in> set l. \<not> line_break c \<Longrightarrow> str_splitlines (concat (map (\<lambda>l. l @ [10]) ls)) = ls"
proof (induction ls)
  case (Cons l ls)
  then show ?case using str_lines_line [of l "[]"] by (simp add: str_splitlines_def)
qed (simp add: str_splitlines_def)

lemma plain_text_line:
  assumes "plain_line e p" "jprint False (sort_json (JObj e)) = Inr t"
  shows "utf8_encode t = Inr p \<and> (\<forall>c \<in> set t. 32 \<le> c) \<and> (\<exists>s. t = 123 # s) \<and> take 1 p = [123] \<and>
    (looks_like_mral_header p \<longleftrightarrow> obj_get e ''fmt'' = jstr MRAL_FMT)"
proof -
  note p = plain_line_read [OF assms(1)]
  have e: "json_ok (JObj e)" using assms(1) by (simp add: plain_line_def)
  have "map_of (sorted_entry e) k = map_option sort_json (map_of e k)" for k
    unfolding sorted_entry_def by (rule map_of_sorted_header [OF e])
  moreover have "sort_json j = jstr m \<longleftrightarrow> j = jstr m" for j m by (cases j) (simp_all add: jstr_def)
  ultimately have "obj_get (sorted_entry e) ''fmt'' = jstr MRAL_FMT \<longleftrightarrow> obj_get e ''fmt'' = jstr MRAL_FMT"
    by (auto simp: obj_get_def split: option.split)
  moreover have "\<exists>s. t = 123 # s" using jprint_obj assms(2) by (metis sort_json.simps(2))
  moreover have "take 1 p = [123]" using p by auto
  moreover have "utf8_encode t = Inr p" using assms by (simp add: plain_line_def dumps_utf8_def)
  ultimately show ?thesis
    using jprint_control(1) [OF assms(2)] p by (simp add: looks_like_mral_header_def)
qed

lemma takeWhile_line: "10 \<notin> set p \<Longrightarrow> takeWhile (\<lambda>b. b \<noteq> 10) (p @ 10 # s) = p" for p :: bytes
  by (induction p) auto

lemma iter_plain:
  assumes "list_all2 plain_line es ps" "list_all2 (\<lambda>e t. jprint False (sort_json (JObj e)) = Inr t) es ts"
    "es = [] \<or> obj_get (hd es) ''fmt'' \<noteq> jstr MRAL_FMT"
  shows "iter_lines (Some (concat (map (\<lambda>p. p @ [10]) ps))) =
    Some (filter (\<lambda>ln. strip is_str_space ln \<noteq> []) (str_splitlines (concat (map (\<lambda>t. t @ [10]) ts))))"
proof -
  have "list_all2 (\<lambda>t p. utf8_encode t = Inr p) ts ps"
    using assms(1,2) plain_text_line by (fastforce simp: list_all2_conv_all_nth)
  then have d: "decode_replace (concat (map (\<lambda>p. p @ [10]) ps)) = concat (map (\<lambda>t. t @ [10]) ts)"
    by (intro decode_replace_encode utf8_encode_lines)
  show ?thesis
  proof (cases es)
    case Nil
    then show ?thesis using assms(1,2) d by (simp add: iter_lines_def)
  next
    case (Cons e es')
    then obtain p ps' t where p: "ps = p # ps'" "plain_line e p" "jprint False (sort_json (JObj e)) = Inr t"
      using assms(1,2) by (auto simp: list_all2_Cons1)
    then have "10 \<notin> set p" using plain_line_read by blast
    then have f: "takeWhile (\<lambda>b. b \<noteq> 10) (concat (map (\<lambda>p. p @ [10]) ps)) = p" by (simp add: p(1) takeWhile_line)
    show ?thesis using plain_text_line [OF p(2,3)] assms(3) Cons unfolding iter_lines_def Let_def option.simps f d by simp
  qed
qed

text \<open>C20: \<open>tail\<close> and \<open>grep\<close> print plaintext entries as they were written. If the first entry is no header and no entry has the
  characters U+0085, U+2028 or U+2029 in it, \<open>tail -n\<close> prints the JSON texts of the last \<open>n\<close> entries, none for \<open>n \<le> 0\<close>, in order
  and whole, and \<open>grep\<close> prints those the pattern hits, with exit code 0 exactly if there is one.\<close>

theorem audit_tail_lines:
  assumes "plain_file c es" "es = [] \<or> obj_get (hd es) ''fmt'' \<noteq> jstr MRAL_FMT"
    "list_all2 (\<lambda>e t. jprint False (sort_json (JObj e)) = Inr t) es ts"
    "\<forall>t \<in> set ts. set t \<inter> {0x85, 0x2028, 0x2029} = {}"
  shows "audit_tail n (Some c) = (0, if n \<le> 0 then [] else drop (length ts - nat n) ts) \<and>
    audit_grep (Some hit) (Some c) = (if \<exists>t \<in> set ts. hit t then 0 else 1, filter hit ts)"
proof -
  obtain ps where ps: "c = concat (map (\<lambda>p. p @ [10]) ps)" "list_all2 plain_line es ps" using assms(1) by (auto simp: plain_file_def)
  have line: "(\<forall>d \<in> set t. 32 \<le> d) \<and> (\<exists>s. t = 123 # s)" if t: "t \<in> set ts" for t
  proof -
    obtain i where i: "i < length ts" "ts ! i = t" using t by (metis in_set_conv_nth)
    then have "plain_line (es ! i) (ps ! i)" "jprint False (sort_json (JObj (es ! i))) = Inr t"
      using ps(2) assms(3) by (auto simp only: list_all2_conv_all_nth)
    then show ?thesis using plain_text_line by blast
  qed
  have "\<not> line_break d" if d: "t \<in> set ts" "d \<in> set t" for t d
  proof -
    have "32 \<le> d" "d \<notin> {0x85, 0x2028, 0x2029}" using d line [OF d(1)] assms(4) by blast+
    then show ?thesis by (auto simp: line_break_def)
  qed
  then have "\<forall>t \<in> set ts. \<forall>d \<in> set t. \<not> line_break d" by blast
  moreover have "strip is_str_space t \<noteq> []" if t: "t \<in> set ts" for t
    using line [OF t] by (auto simp: strip_def rstrip_def is_str_space_def)
  then have "filter (\<lambda>ln. strip is_str_space ln \<noteq> []) ts = ts" by simp
  ultimately have "iter_lines (Some c) = Some ts"
    using iter_plain [OF ps(2) assms(3,2)] by (simp add: ps(1) str_splitlines_lines)
  then show ?thesis by (simp add: audit_tail_def audit_grep_def filter_empty_conv)
qed

section \<open>Concrete logs\<close>

abbreviation reader_entry :: "py_str \<Rightarrow> kvs" where
  "reader_entry m \<equiv> [(str_lit ''ts'', JStr m)]"

abbreviation reader_text :: "py_str \<Rightarrow> py_str" where
  "reader_text m \<equiv> str_lit ''{\"ts\":\"'' @ m @ str_lit ''\"}''"

lemma reader_printed: "\<forall>c \<in> set m. 64 < c \<and> c \<noteq> 92 \<and> is_scalar c \<Longrightarrow> jprint False (sort_json (JObj (reader_entry m))) = Inr (reader_text m)"
proof -
  assume "\<forall>c \<in> set m. 64 < c \<and> c \<noteq> 92 \<and> is_scalar c"
  then have "concat (map (escape_char False) m) = m" by (induction m) (auto simp: escape_char_def)
  then show ?thesis by (simp add: json_quote_def escape_char_def str_lit_def)
qed

lemma reader_plain:
  assumes "\<forall>c \<in> set m. 64 < c \<and> c \<noteq> 92 \<and> is_scalar c" "length m < 100"
  shows "\<exists>p. utf8_encode (reader_text m) = Inr p \<and> plain_line (reader_entry m) p"
proof -
  have "list_all is_scalar m" using assms(1) by (simp add: list_all_iff)
  then have s: "list_all is_scalar m" "list_all is_scalar (reader_text m)" by (simp_all add: is_scalar_str_lit del: str_lit_simps)
  then obtain p where p: "utf8_encode (reader_text m) = Inr p" by (auto simp: utf8_encode_def)
  have "length (utf8_char c) \<le> 4" for c by (simp add: utf8_char_def)
  then have "length (concat (map utf8_char s)) \<le> 4 * length s" for s by (induction s) (auto simp: add_le_mono)
  moreover have "length p = length (concat (map utf8_char (reader_text m)))" using p by (auto simp: utf8_encode_def split: if_splits)
  ultimately have "length p \<le> 4 * length (reader_text m)" by metis
  then have "length p < 4000" using assms(2) by (simp add: str_lit_def)
  moreover have "json_ok (JObj (reader_entry m))" using s by (simp add: is_scalar_str_lit)
  moreover have "dumps_utf8 (JObj (reader_entry m)) = Inr p" using reader_printed [OF assms(1)] p unfolding dumps_utf8_def by simp
  ultimately show ?thesis using p by (auto simp: plain_line_def)
qed

lemma audit_tail_lines_witness:
  "\<exists>c. audit_tail 1 (Some c) = (0, [reader_text [98]]) \<and> audit_grep (Some (\<lambda>t. 97 \<in> set t)) (Some c) = (0, [reader_text [97]])"
proof -
  have m: "\<forall>c \<in> set [97]. 64 < c \<and> c \<noteq> 92 \<and> is_scalar c" "\<forall>c \<in> set [98]. 64 < c \<and> c \<noteq> 92 \<and> is_scalar c"
    by (simp_all add: is_scalar_def is_surrogate_def)
  obtain p q where pq: "plain_line (reader_entry [97]) p" "plain_line (reader_entry [98]) q"
    using reader_plain [OF m(1)] reader_plain [OF m(2)] by auto
  let ?es = "[reader_entry [97], reader_entry [98]]" and ?ts = "[reader_text [97], reader_text [98]]"
  have a: "plain_file (concat (map (\<lambda>p. p @ [10]) [p, q])) ?es" unfolding plain_file_def using pq by blast
  have b: "?es = [] \<or> obj_get (hd ?es) ''fmt'' \<noteq> jstr MRAL_FMT" by (simp add: obj_get_def str_lit_inject jstr_def)
  have c: "list_all2 (\<lambda>e t. jprint False (sort_json (JObj e)) = Inr t) ?es ?ts"
    using reader_printed [OF m(1)] reader_printed [OF m(2)] by (simp only: list.rel_inject list.rel_intros simp_thms)
  have d: "\<forall>t \<in> set ?ts. set t \<inter> {0x85, 0x2028, 0x2029} = {}" by (simp add: str_lit_def)
  show ?thesis
    using audit_tail_lines [OF a b c d, of 1 "\<lambda>t. 97 \<in> set t"] by (intro exI) (simp add: str_lit_def)
qed

text \<open>A line separator in a value: \<open>tail\<close> prints the entry as two lines, neither of them JSON.\<close>

lemma tail_breaks_entry:
  "\<exists>c. plain_file c [reader_entry [97, 0x2028, 98]] \<and> audit_tail 9 (Some c) = (0, [str_lit ''{\"ts\":\"a'', str_lit ''b\"}''])"
proof -
  let ?e = "reader_entry [97, 0x2028, 98]" and ?t = "reader_text [97, 0x2028, 98]"
  have m: "\<forall>c \<in> set [97, 0x2028, 98]. 64 < c \<and> c \<noteq> 92 \<and> is_scalar c" by (simp add: is_scalar_def is_surrogate_def)
  obtain p where p: "plain_line ?e p" using reader_plain [OF m] by auto
  have "list_all2 plain_line [?e] [p]" "list_all2 (\<lambda>e t. jprint False (sort_json (JObj e)) = Inr t) [?e] [?t]"
    using p reader_printed [OF m] by (simp_all only: list.rel_inject list.rel_intros simp_thms)
  from iter_plain [OF this] have "iter_lines (Some (p @ [10])) = Some [str_lit ''{\"ts\":\"a'', str_lit ''b\"}'']"
    by (simp add: obj_get_def str_lit_inject jstr_def str_splitlines_def line_break_def str_lit_def strip_def rstrip_def is_str_space_def)
  moreover have "plain_file (p @ [10]) [?e]" unfolding plain_file_def using p by (intro exI [of _ "[p]"]) simp
  ultimately show ?thesis by (intro exI [of _ "p @ [10]"]) (simp add: audit_tail_def)
qed

end
