(* ===== verification/Spec2Isabelle.thy ===== *)
theory Spec2Isabelle
  imports Vault_Access Vault_Rekey Envelope Bip39 Pow Bip32 Transport Net_Daemons E2E_Safety E2E_Dispatch State_Cache Audit_World Audit_Reader
begin

text \<open>
  A verification development of Mordred for Hermes (\<open>src/src/mordred_hermes\<close>), a plugin that gives an agent encrypted
  storage, a private network path and end-to-end encrypted chat.

  \<^bold>\<open>The program and its model.\<close> Five subsystems carry the logic that is modelled.

  \<^item> The key vault (\<open>keyvault/\<close>). A native key store unwraps a data key (\<open>wrap.py\<close>, theory \<open>Wrap\<close>); the data key opens the
    32-byte master key (\<open>kek.py\<close>, \<open>crypto.py\<close>: \<open>Kek\<close>); the master encrypts files (\<open>file_container.py\<close>:
    \<open>File_Container\<close>) and authenticates the manifest (\<open>manifest.py\<close>, \<open>_core/_bounded_json.py\<close>: \<open>Manifest\<close>), whose
    generation and fingerprint the device pins (\<open>anchor.py\<close>: \<open>Anchor\<close>). \<open>vault_master.py\<close> (\<open>Vault_Master\<close>) seals the
    master a second time under a passphrase with the backup format (\<open>backup.py\<close>, \<open>recovery.py\<close>, \<open>digest.py\<close>:
    \<open>Backup\<close>). \<open>vault.py\<close> (\<open>Vault\<close>) puts them together; \<open>Vault_Proofs\<close>, \<open>Vault_Safety\<close>,
    \<open>Vault_Recovery\<close>, \<open>Vault_Access\<close> and \<open>Vault_Rekey\<close> hold its invariant and its properties. Beside the vault:
    envelopes (\<open>_envelope_codec.py\<close>: \<open>Envelope\<close>), sealed memory files (\<open>memory_crypto.py\<close>, \<open>_memory_env.py\<close>:
    \<open>Memory_Crypto\<close>), mnemonics (\<open>_bip39.py\<close>: \<open>Bip39_Words\<close>, \<open>Bip39\<close>), key derivation (\<open>_bip32.py\<close>:
    \<open>Bip32\<close>) and the proof of work (\<open>pow.py\<close>: \<open>Pow\<close>).
  \<^item> The private network path (\<open>network/\<close>). \<open>runtime.py\<close> (\<open>Net_Runtime\<close>) owns one route, the daemons behind it and the
    proxy variables of the process (\<open>proxy_env.py\<close>: \<open>Proxy_Env\<close>); \<open>hooks.py\<close> and \<open>_registration.py\<close>
    (\<open>Net_Gate\<close>) refuse tool calls and requests that would leave it; \<open>provider_transport_flagger.py\<close> (\<open>Transport\<close>) says
    which provider may use which path; \<open>privacy_check/policy.py\<close> (\<open>Policy\<close>) holds the pure decisions. \<open>Net_Safety\<close>
    and \<open>Net_Daemons\<close> are the runtime under interleaving.
  \<^item> End-to-end encrypted chat (\<open>extension/\<close>). \<open>crypto.py\<close> (\<open>E2E_Crypto\<close>) has the tokens; the gateway decrypts inbound
    ones (\<open>e2e.py\<close>: \<open>E2E_Gateway\<close>), the hook \<open>pre_gateway_dispatch\<close> (\<open>gateway_plugin.py\<close>: \<open>E2E_Dispatch\<close>) decides
    what the agent sees, and the senders (\<open>e2e.py\<close>, \<open>outbound.py\<close>, \<open>standalone_outbound.py\<close>: \<open>E2E_Reply\<close>,
    \<open>E2E_Outbound\<close>, \<open>E2E_Safety\<close>) decide what leaves and how.
  \<^item> Pairing (\<open>extension/pairing.py\<close>: \<open>Pairing\<close>, \<open>Pairing_Safety\<close>, \<open>State_Cache\<close>) gives both ends their keys, and its
    state file is the key store and the replay cache of the chat.
  \<^item> The audit log. Its two writers (\<open>privacy_check/audit.py\<close>, \<open>keyvault/log_encryption.py\<close>), with rotation and the
    retention sweep (\<open>_core/_log_rotation.py\<close>, \<open>_core/_audit_io.py\<close>), are in \<open>Audit_Writer\<close>; the encrypted format and
    \<open>decrypt_log_file\<close> in \<open>Audit_Format\<close>, on top of the ownership records of native keys (\<open>keyvault/_native_key_id.py\<close>:
    \<open>Native_Key_Id\<close>); \<open>tail\<close> and \<open>grep\<close> (\<open>wizard/audit_cli.py\<close>) in \<open>Audit_Reader\<close>. \<open>Audit_Safety\<close> says which
    entries a directory holds, \<open>Audit_Append\<close> has the contract of a writer as the locale \<open>entry_log\<close>, interpreted on both,
    and \<open>Audit_World\<close> interleaves writers, hand-overs and deletions.

  Below them, \<open>Prelude\<close> has bytes, strings, results and the locales \<open>codec\<close>, \<open>strict_codec\<close> and \<open>write_log\<close>; \<open>Py_Text\<close>,
  \<open>Py_Base64\<close>, \<open>Py_Json\<close>, \<open>Py_Str\<close>, \<open>Py_Hash\<close> and \<open>Py_Hash512\<close> write out what the program uses of Python's standard
  library, SHA-2, HMAC and PBKDF2 included; \<open>Providers\<close> has the code that is not in the repository.

  \<^bold>\<open>How state and effects are modelled.\<close> A raise is the value \<open>Inl e\<close> of a result, so every error path is a branch. An
  operation on a persistent world returns the list of its writes in order, and a crash after \<open>k\<close> writes is the world
  after the first \<open>k\<close>. A section under a lock is one step from the state to a result and the state; what other threads or
  processes do between two sections is a further step of the same kind, an inductive step relation where threads interleave
  (\<open>net_step\<close>, \<open>cache_step\<close>, \<open>audit_step\<close>), a list of operations where processes do (\<open>pair_run\<close>). A sender returns the texts it handed out.
  Random draws, clock readings and the answers of the outside world are arguments or fields of a record that a definition takes.

  \<^bold>\<open>Parameters.\<close> AES-GCM, AES key wrap, HKDF, X25519, P-256, Argon2id, BLAKE3 and secp256k1 public keys, the native key store,
  python-dotenv, the Unicode database beyond ASCII, the Tor and VPN daemons and the chat platforms are parameters. What a theorem
  needs of them is a named hypothesis (\<open>gcm_ok\<close> and others) that states documented behaviour, that decryption
  undoes encryption for instance; nothing assumes that forging is impossible: an authenticity theorem says that the provider
  accepted the text under the named key and associated data. The witnesses evaluate on a concrete provider.

  \<^bold>\<open>What the theorems show.\<close> For the codecs: what is written is read back, and what is read has exactly one
  spelling or was authenticated together with its context. For the vault: no crash loses a file or a generation, a stale writer
  writes nothing, a read is authenticated, and a vault is never created over another. For the network: a call that passes
  the strict gate finds the route up; no switch falls back to clear, in any interleaving; no daemon is left behind. For the
  chat: nothing is released to the agent unless authenticated for this conversation and fresh; nothing leaves in the clear from a
  conversation that must be protected; a reply arrives whole. For pairing: a code is used once and a failed
  handshake keeps the old pairing. For the audit log: an append is whole or nothing, no file mixes the formats, and a
  file that was written is decrypted, or printed, as it was written. These assume that the roll-back (\<open>ftruncate\<close>) and the
  clean-up of a failed compression work, and that all writers take the sidecar lock.

  \<^bold>\<open>Bounds.\<close> No recursion needs fuel: the loops are structural or end by a measure (the proof-of-work counter is
  bounded by \<open>2 ^ 64\<close> as in the code, the walk over mention prefixes by the length of the text, the search for a free rotation name by the names that are taken). JSON nesting is bounded by 128 where
  the code bounds it. Word arithmetic is kept at its width in the hash functions; Python's integers are unbounded.

  \<^bold>\<open>Not modelled.\<close> Windows branches and platform backends (ctypes and helper processes); the private file-system primitives,
  whose outcomes are arguments; database encryption (around a native driver); the desktop shell, the setup wizard and the release
  tools (glue and interaction); the activity log and its redaction by large regular expressions; the mail and chat
  importers; the LLM guard; the HTTP, WebSocket and Telegram interfaces of the extension; of the audit log, \<open>make_audit_writer\<close>, the
  Windows session, file modes and a crash in the middle of a write.
\<close>

end
